(* ===== verification/Prelude.thy ===== *)
theory Prelude
  imports Complex_Main "HOL-Library.Word" "HOL-Library.AList" "HOL-Library.Sublist"
begin

text \<open>
  The JavaScript layer shared by every component, and the generic lemmas and interfaces
  the component theories build on.

  \<^item> Numbers: a JavaScript number that the code only compares, adds and truncates is a
    \<open>jsnum\<close>: a rational or one of the three non-finite values.
  \<^item> Values: \<open>jsval\<close> is what \<open>JSON.parse\<close> can return, plus \<open>undefined\<close> for a missing property.
  \<^item> Strings: \<open>string\<close>; a character is a UTF-16 code unit below 256, so \<open>length\<close> is the
    \<open>.length\<close> of the source. \<open>trim\<close> and \<open>toLowerCase\<close> are exact on that range.
  \<^item> \<open>Map\<close>: an association list in insertion order, read by \<open>map_of\<close>, written by
    \<open>AList.update\<close> (which keeps the position of an existing key, as \<open>Map.set\<close> does) and
    \<open>AList.delete\<close>.
  \<^item> The locale \<open>step_invariant\<close>: the contract "every operation keeps the invariant", lifted to
    runs once and interpreted by each state machine of the development.
  \<^item> The locale \<open>bounded_store\<close>: the contract of the capped caches of the program.
\<close>

named_theorems js_eval \<open>unfolding rules of the JavaScript layer, to evaluate closed terms\<close>

subsection \<open>Numbers and values\<close>

type_synonym byte = "8 word"

datatype jsnum = Fin rat | PosInf | NegInf | NaN

definition num_finite :: "jsnum \<Rightarrow> bool" where
  "num_finite n = (case n of Fin _ \<Rightarrow> True | _ \<Rightarrow> False)"

definition num_integer :: "jsnum \<Rightarrow> bool" where
  "num_integer n = (case n of Fin q \<Rightarrow> of_int \<lfloor>q\<rfloor> = q | _ \<Rightarrow> False)"

fun num_less :: "jsnum \<Rightarrow> jsnum \<Rightarrow> bool" where
  "num_less (Fin a) (Fin b) = (a < b)"
| "num_less (Fin a) PosInf = True"
| "num_less NegInf (Fin b) = True"
| "num_less NegInf PosInf = True"
| "num_less _ _ = False"

datatype jsval =
    JUndef
  | JNull
  | JBool bool
  | JNum jsnum
  | JStr string
  | JArr "jsval list"
  | JObj "(string \<times> jsval) list"

definition jget :: "jsval \<Rightarrow> string \<Rightarrow> jsval" where
  "jget v k = (case v of JObj fs \<Rightarrow> (case map_of fs k of Some x \<Rightarrow> x | None \<Rightarrow> JUndef) | _ \<Rightarrow> JUndef)"

definition is_obj :: "jsval \<Rightarrow> bool" where
  "is_obj v = (case v of JObj _ \<Rightarrow> True | _ \<Rightarrow> False)"

definition is_str :: "jsval \<Rightarrow> bool" where
  "is_str v = (case v of JStr _ \<Rightarrow> True | _ \<Rightarrow> False)"

definition is_nullish :: "jsval \<Rightarrow> bool" where
  "is_nullish v = (case v of JUndef \<Rightarrow> True | JNull \<Rightarrow> True | _ \<Rightarrow> False)"

definition truthy :: "jsval \<Rightarrow> bool" where
  "truthy v = (case v of
      JUndef \<Rightarrow> False
    | JNull \<Rightarrow> False
    | JBool b \<Rightarrow> b
    | JNum n \<Rightarrow> n \<noteq> Fin 0 \<and> n \<noteq> NaN
    | JStr s \<Rightarrow> s \<noteq> []
    | JArr _ \<Rightarrow> True
    | JObj _ \<Rightarrow> True)"

declare num_finite_def [js_eval] num_integer_def [js_eval] jget_def [js_eval]
  is_obj_def [js_eval] is_str_def [js_eval] is_nullish_def [js_eval] truthy_def [js_eval]

lemma is_obj_iff: "is_obj v \<longleftrightarrow> (\<exists>fs. v = JObj fs)"
  by (cases v) (auto simp: is_obj_def)

lemma is_str_iff: "is_str v \<longleftrightarrow> (\<exists>s. v = JStr s)"
  by (cases v) (auto simp: is_str_def)

subsection \<open>Strings\<close>

definition char_in :: "char \<Rightarrow> nat \<Rightarrow> nat \<Rightarrow> bool" where
  "char_in c lo hi \<longleftrightarrow> lo \<le> (of_char c :: nat) \<and> (of_char c :: nat) \<le> hi"

definition is_lower :: "char \<Rightarrow> bool" where
  "is_lower c \<longleftrightarrow> char_in c 97 122"

definition is_upper :: "char \<Rightarrow> bool" where
  "is_upper c \<longleftrightarrow> char_in c 65 90"

definition is_digit :: "char \<Rightarrow> bool" where
  "is_digit c \<longleftrightarrow> char_in c 48 57"

definition js_ws :: "char \<Rightarrow> bool" where
  "js_ws c \<longleftrightarrow> char_in c 9 13 \<or> (of_char c :: nat) = 32 \<or> (of_char c :: nat) = 160"

definition lower_char :: "char \<Rightarrow> char" where
  "lower_char c =
     (if char_in c 65 90 \<or> (char_in c 192 222 \<and> (of_char c :: nat) \<noteq> 215)
      then char_of ((of_char c :: nat) + 32) else c)"

definition js_trim :: "string \<Rightarrow> string" where
  "js_trim s = rev (dropWhile js_ws (rev (dropWhile js_ws s)))"

definition js_lower :: "string \<Rightarrow> string" where
  "js_lower s = map lower_char s"

definition starts_with :: "string \<Rightarrow> string \<Rightarrow> bool" where
  "starts_with p s \<longleftrightarrow> take (length p) s = p"

text \<open>\<open>String.includes\<close>.\<close>

definition contains :: "string \<Rightarrow> string \<Rightarrow> bool" where
  "contains sub s \<longleftrightarrow> list_ex (starts_with sub) (suffixes s)"

fun split_on :: "char \<Rightarrow> string \<Rightarrow> string list" where
  "split_on c [] = [[]]"
| "split_on c (x # xs) =
     (if x = c then [] # split_on c xs
      else (case split_on c xs of [] \<Rightarrow> [[x]] | y # ys \<Rightarrow> (x # y) # ys))"

fun join_with :: "string \<Rightarrow> string list \<Rightarrow> string" where
  "join_with sep [] = []"
| "join_with sep [x] = x"
| "join_with sep (x # y # ys) = x @ sep @ join_with sep (y # ys)"

text \<open>The token class \<open>[a-z0-9-]\<close> and the pattern \<open>^[a-z0-9-]{1,64}$\<close> of agent ids and topics.\<close>

definition token_char :: "char \<Rightarrow> bool" where
  "token_char c \<longleftrightarrow> is_lower c \<or> is_digit c \<or> c = CHR ''-''"

definition is_token :: "string \<Rightarrow> bool" where
  "is_token s \<longleftrightarrow> 1 \<le> length s \<and> length s \<le> 64 \<and> list_all token_char s"

declare char_in_def [js_eval] is_lower_def [js_eval] is_upper_def [js_eval] is_digit_def [js_eval]
  js_ws_def [js_eval] lower_char_def [js_eval] js_trim_def [js_eval] js_lower_def [js_eval]
  starts_with_def [js_eval] token_char_def [js_eval] is_token_def [js_eval]

lemma starts_with_append [simp]: "starts_with p (p @ s)"
  by (simp add: starts_with_def)

lemma starts_with_drop: "starts_with p s \<Longrightarrow> p @ drop (length p) s = s"
  unfolding starts_with_def by (metis append_take_drop_id)

lemma split_on_nonempty: "split_on c s \<noteq> []"
  by (induction s) (auto split: list.splits)

lemma is_token_nonempty: "is_token s \<Longrightarrow> s \<noteq> []"
  by (auto simp: is_token_def)

lemma token_char_not: "token_char c \<Longrightarrow> c \<noteq> CHR ''.'' \<and> c \<noteq> CHR '':'' \<and> c \<noteq> CHR ''*'' \<and> c \<noteq> CHR ''>'' \<and> c \<noteq> CHR ''#''"
  by (auto simp: token_char_def is_lower_def is_digit_def char_in_def)

lemma is_token_notin:
  "is_token s \<Longrightarrow> c \<in> {CHR ''.'', CHR '':'', CHR ''*'', CHR ''>'', CHR ''#''} \<Longrightarrow> c \<notin> set s"
  by (auto simp: is_token_def list_all_iff dest: token_char_not)

subsection \<open>Decimal rendering\<close>

text \<open>\<open>String(n)\<close> and template literals of an integer.\<close>

definition digit_char :: "nat \<Rightarrow> char" where
  "digit_char d = char_of (48 + d)"

fun nat_str :: "nat \<Rightarrow> string" where
  "nat_str n = (if n < 10 then [digit_char n] else nat_str (n div 10) @ [digit_char (n mod 10)])"

declare nat_str.simps [simp del]

definition int_str :: "int \<Rightarrow> string" where
  "int_str i = (if i < 0 then CHR ''-'' # nat_str (nat (- i)) else nat_str (nat i))"

lemma of_char_digit: "d < 10 \<Longrightarrow> (of_char (digit_char d) :: nat) = 48 + d"
  by (simp add: digit_char_def)

lemma nat_str_digits: "list_all is_digit (nat_str n)"
proof (induction n rule: nat_str.induct)
  case (1 n)
  have "is_digit (digit_char d)" if "d < 10" for d
    using that by (simp add: is_digit_def char_in_def of_char_digit)
  with 1 show ?case
    by (subst nat_str.simps) auto
qed

lemma nat_str_nonempty [simp]: "nat_str n \<noteq> []"
  by (subst nat_str.simps) simp

fun digits_val :: "nat \<Rightarrow> string \<Rightarrow> nat" where
  "digits_val acc [] = acc"
| "digits_val acc (c # cs) = digits_val (10 * acc + (of_char c - 48)) cs"

lemma digits_val_append: "digits_val acc (xs @ ys) = digits_val (digits_val acc xs) ys"
  by (induction xs arbitrary: acc) auto

lemma digits_val_nat_str: "digits_val 0 (nat_str n) = n"
proof (induction n rule: nat_str.induct)
  case (1 n)
  then show ?case
    by (subst nat_str.simps) (auto simp: digits_val_append of_char_digit)
qed

lemma nat_str_inject [simp]: "nat_str m = nat_str n \<longleftrightarrow> m = n"
  by (metis digits_val_nat_str)

lemma nat_str_not_minus: "nat_str n \<noteq> CHR ''-'' # s"
  using nat_str_digits [of n] by (auto simp: is_digit_def char_in_def)

lemma int_str_inject [simp]: "int_str i = int_str j \<longleftrightarrow> i = j"
  using nat_str_not_minus [symmetric] by (auto simp: int_str_def nat_str_not_minus)

lemma int_str_not_Nil [simp]: "int_str n \<noteq> []" "[] \<noteq> int_str n"
  by (auto simp: int_str_def dest: sym)

subsection \<open>Byte encodings\<close>

text \<open>\<open>new TextEncoder().encode\<close> of a string of code units below 256.\<close>

definition utf8_char :: "char \<Rightarrow> byte list" where
  "utf8_char c = (let n = (of_char c :: nat) in
     if n < 128 then [of_nat n] else [of_nat (192 + n div 64), of_nat (128 + n mod 64)])"

definition utf8 :: "string \<Rightarrow> byte list" where
  "utf8 s = concat (map utf8_char s)"

lemma utf8_char_inj: "utf8_char c @ xs = utf8_char d @ ys \<Longrightarrow> c = d \<and> xs = ys"
proof -
  assume eq: "utf8_char c @ xs = utf8_char d @ ys"
  have lt: "(of_char c :: nat) < 256" "(of_char d :: nat) < 256"
    using nat_of_char_less_256 by blast+
  have w: "(of_nat m :: byte) = of_nat n \<longleftrightarrow> m = n" if "m < 256" "n < 256" for m n
    using that by (simp add: word_of_nat_eq_iff take_bit_nat_eq_self)
  have "(of_char c :: nat) = of_char d \<and> xs = ys"
  proof (cases "(of_char c :: nat) < 128"; cases "(of_char d :: nat) < 128")
    assume a: "\<not> (of_char c :: nat) < 128" "\<not> (of_char d :: nat) < 128"
    have b: "192 + (of_char c :: nat) div 64 < 256" "192 + (of_char d :: nat) div 64 < 256"
      "128 + (of_char c :: nat) mod 64 < 256" "128 + (of_char d :: nat) mod 64 < 256"
      using lt by linarith+
    have "192 + (of_char c :: nat) div 64 = 192 + (of_char d :: nat) div 64"
      "128 + (of_char c :: nat) mod 64 = 128 + (of_char d :: nat) mod 64" "xs = ys"
      using eq a w [OF b(1,2)] w [OF b(3,4)] by (simp_all add: utf8_char_def Let_def)
    then show ?thesis by (metis add_left_imp_eq div_mult_mod_eq)
  next
    assume a: "(of_char c :: nat) < 128" "\<not> (of_char d :: nat) < 128"
    have "(of_char c :: nat) < 256" "192 + (of_char d :: nat) div 64 < 256" using lt by linarith+
    then show ?thesis
      using eq a w [of "of_char c" "192 + of_char d div 64"] by (simp add: utf8_char_def Let_def)
  next
    assume a: "\<not> (of_char c :: nat) < 128" "(of_char d :: nat) < 128"
    have "(of_char d :: nat) < 256" "192 + (of_char c :: nat) div 64 < 256" using lt by linarith+
    then show ?thesis
      using eq a w [of "192 + of_char c div 64" "of_char d"] by (simp add: utf8_char_def Let_def)
  next
    assume a: "(of_char c :: nat) < 128" "(of_char d :: nat) < 128"
    then show ?thesis
      using eq w [of "of_char c" "of_char d"] lt by (simp add: utf8_char_def Let_def)
  qed
  then show ?thesis by simp
qed

lemma utf8_inject [simp]: "utf8 a = utf8 b \<longleftrightarrow> a = b"
proof
  show "utf8 a = utf8 b \<Longrightarrow> a = b"
  proof (induction a arbitrary: b)
    case Nil
    then show ?case by (cases b) (auto simp: utf8_def utf8_char_def Let_def split: if_splits)
  next
    case (Cons c a)
    show ?case
    proof (cases b)
      case Nil
      then show ?thesis using Cons.prems by (auto simp: utf8_def utf8_char_def Let_def split: if_splits)
    next
      case (Cons d b')
      then have "utf8_char c @ utf8 a = utf8_char d @ utf8 b'" using Cons.prems by (simp add: utf8_def)
      then show ?thesis using Cons.IH Cons utf8_char_inj by blast
    qed
  qed
qed simp

text \<open>\<open>Buffer.toString('hex')\<close> and the \<open>digest('hex')\<close> of node:crypto.\<close>

definition hex_digit :: "nat \<Rightarrow> char" where
  "hex_digit n = (if n < 10 then digit_char n else char_of (87 + n))"

definition hex_byte :: "byte \<Rightarrow> string" where
  "hex_byte b = [hex_digit (unat b div 16), hex_digit (unat b mod 16)]"

definition hex_str :: "byte list \<Rightarrow> string" where
  "hex_str bs = concat (map hex_byte bs)"

subsection \<open>Conversions\<close>

text \<open>
  The conversions of the language that are not written out: \<open>String(n)\<close> of a number, \<open>Number(v)\<close>,
  \<open>Date.parse\<close> (\<open>None\<close> for NaN) and \<open>new Date(ms).toISOString()\<close>. The components that use them take
  them as an argument.
\<close>

record js_env =
  je_num_text :: "jsnum \<Rightarrow> string"
  je_to_number :: "jsval \<Rightarrow> jsnum"
  je_date_parse :: "string \<Rightarrow> rat option"
  je_iso :: "rat \<Rightarrow> string"

text \<open>\<open>String(v)\<close>: an array is its elements joined by commas, nullish ones empty.\<close>

fun js_string :: "js_env \<Rightarrow> jsval \<Rightarrow> string" where
  "js_string je JUndef = ''undefined''"
| "js_string je JNull = ''null''"
| "js_string je (JBool b) = (if b then ''true'' else ''false'')"
| "js_string je (JNum n) = je_num_text je n"
| "js_string je (JStr s) = s"
| "js_string je (JArr vs) = join_with '','' (map (\<lambda>v. if is_nullish v then [] else js_string je v) vs)"
| "js_string je (JObj kvs) = ''[object Object]''"

text \<open>\<open>x || d\<close> on optional strings: the empty string is falsy.\<close>

definition js_or :: "string option \<Rightarrow> string \<Rightarrow> string" where
  "js_or x d = (case x of None \<Rightarrow> d | Some s \<Rightarrow> if s = [] then d else s)"

definition num_floor :: "jsnum \<Rightarrow> jsnum" where
  "num_floor n = (case n of Fin q \<Rightarrow> Fin (of_int \<lfloor>q\<rfloor>) | _ \<Rightarrow> n)"

definition num_max0 :: "jsnum \<Rightarrow> jsnum" where
  "num_max0 n = (case n of Fin q \<Rightarrow> Fin (max 0 q) | NegInf \<Rightarrow> Fin 0 | _ \<Rightarrow> n)"

subsection \<open>Insertion-ordered maps and capped caches\<close>

text \<open>
  \<open>evictOldest\<close> occurs in several modules with the same body: at capacity, drop the first key
  of the map, before the caller inserts.
\<close>

definition evict_oldest :: "nat \<Rightarrow> ('k \<times> 'v) list \<Rightarrow> ('k \<times> 'v) list" where
  "evict_oldest cap m = (if length m < cap then m else tl m)"

lemma length_update: "length (AList.update k v m) = (if k \<in> fst ` set m then length m else Suc (length m))"
  by (induction m) auto

lemma length_update_le: "length (AList.update k v m) \<le> Suc (length m)"
  by (simp add: length_update)

lemma length_evict: "0 < cap \<Longrightarrow> length m \<le> cap \<Longrightarrow> length (evict_oldest cap m) < cap"
  by (auto simp: evict_oldest_def)

lemma distinct_evict: "distinct (map fst m) \<Longrightarrow> distinct (map fst (evict_oldest cap m))"
  by (cases m) (auto simp: evict_oldest_def)

lemma map_of_update [simp]: "map_of (AList.update k v m) = (map_of m)(k \<mapsto> v)"
  by (rule update_conv')

lemma map_of_delete [simp]: "map_of (AList.delete k m) = (map_of m)(k := None)"
  by (rule delete_conv')

lemma update_fresh: "k \<notin> fst ` set m \<Longrightarrow> AList.update k v m = m @ [(k, v)]"
  by (induction m) auto

lemma set_delete: "set (AList.delete k m) = {(k', v) \<in> set m. k' \<noteq> k}"
  by (auto simp: AList.delete_eq)

lemma distinct_snd_delete: "distinct (map snd m) \<Longrightarrow> distinct (map snd (AList.delete k m))"
  by (simp add: AList.delete_eq distinct_map_filter)

lemma map_of_in_set: "distinct (map fst m) \<Longrightarrow> map_of m k = Some v \<longleftrightarrow> (k, v) \<in> set m"
  by (simp add: map_of_eq_Some_iff)

lemma distinct_snd_unique: "distinct (map snd m) \<Longrightarrow> (a, v) \<in> set m \<Longrightarrow> (b, v) \<in> set m \<Longrightarrow> a = b"
  by (induction m) (auto simp: image_iff dest: bspec)

lemma distinct_fst_unique: "distinct (map fst m) \<Longrightarrow> (k, a) \<in> set m \<Longrightarrow> (k, b) \<in> set m \<Longrightarrow> a = b"
  by (induction m) (auto simp: image_iff dest: bspec)

lemma length_delete_less: "k \<in> fst ` set m \<Longrightarrow> length (AList.delete k m) < length m"
  by (induction m) (auto simp: AList.delete_eq intro: le_imp_less_Suc length_filter_le)

locale bounded_store =
  fixes put :: "'k \<Rightarrow> 'v \<Rightarrow> 's \<Rightarrow> 's" and entries_of :: "'s \<Rightarrow> ('k \<times> 'v) list" and cap :: nat
  assumes put_bound: "length (entries_of s) \<le> cap \<Longrightarrow> length (entries_of (put k v s)) \<le> cap"
    and put_lookup: "map_of (entries_of (put k v s)) k = Some v"
begin

lemma puts_bound:
  "length (entries_of s) \<le> cap \<Longrightarrow> length (entries_of (fold (\<lambda>(k, v). put k v) kvs s)) \<le> cap"
  by (induction kvs arbitrary: s) (auto simp: put_bound)

lemma last_put_wins: "map_of (entries_of (fold (\<lambda>(k, v). put k v) (kvs @ [(k, v)]) s)) k = Some v"
  by (simp add: put_lookup)

end

subsection \<open>Step systems and their invariants\<close>

definition run :: "('s \<Rightarrow> 'e \<Rightarrow> 's) \<Rightarrow> 's \<Rightarrow> 'e list \<Rightarrow> 's" where
  "run step s es = fold (\<lambda>e s. step s e) es s"

lemma run_Nil [simp]: "run step s [] = s"
  by (simp add: run_def)

lemma run_Cons [simp]: "run step s (e # es) = run step (step s e) es"
  by (simp add: run_def)

lemma run_append: "run step s (xs @ ys) = run step (run step s xs) ys"
  by (simp add: run_def)

locale step_invariant =
  fixes step :: "'s \<Rightarrow> 'e \<Rightarrow> 's" and inv :: "'s \<Rightarrow> bool"
  assumes step_inv: "inv s \<Longrightarrow> inv (step s e)"
begin

lemma run_inv: "inv s \<Longrightarrow> inv (run step s es)"
  by (induction es arbitrary: s) (auto simp: step_inv)

end

end
