(* ===== verification/Frame_Codec.thy ===== *)
theory Frame_Codec
  imports Prelude
begin

text \<open>
  The frame layer of the MCP-over-UDS link, \<open>src/uds_frame.ts\<close>: the length-prefixed wire format
  (\<open>encodeFrame\<close>) and the incremental \<open>FrameDecoder\<close>, with its grow-and-compact buffer as the
  code has it: a capacity buffer \<open>buf\<close> of which only the first \<open>len\<close> bytes are valid.

  \<open>decode_bytes\<close> is the abstract contract: what a byte string decodes to, and what is left over.
  The lemmas show that \<open>fd_push\<close> refines it, that decoding does not depend on how the stream is
  cut into chunks, that an encoded frame decodes to itself, and that the bytes held back between
  pushes are bounded. The locale \<open>stream_codec\<close> states what a client of the codec relies on.
\<close>

subsection \<open>Constants, frames and errors\<close>

definition FRAME_LENGTH_CAP :: nat where "FRAME_LENGTH_CAP = 16777216"
definition FRAME_HEADER_BYTES :: nat where "FRAME_HEADER_BYTES = 4"
definition FRAME_TYPE_BYTES :: nat where "FRAME_TYPE_BYTES = 1"

lemmas frame_consts = FRAME_LENGTH_CAP_def FRAME_HEADER_BYTES_def FRAME_TYPE_BYTES_def

datatype frame_type = FRAME_TYPE_MCP | FRAME_TYPE_CTRL

definition type_byte :: "frame_type \<Rightarrow> byte" where
  "type_byte t = (case t of FRAME_TYPE_MCP \<Rightarrow> 1 | FRAME_TYPE_CTRL \<Rightarrow> 2)"

record decoded_frame =
  fr_type :: frame_type
  fr_payload :: "byte list"

datatype frame_error =
    FRAME_LENGTH_TOO_LARGE nat
  | FRAME_LENGTH_TOO_SMALL nat
  | FRAME_UNKNOWN_TYPE byte

definition frame_protocol_error_message :: "frame_error \<Rightarrow> string" where
  "frame_protocol_error_message e =
     (case e of
        FRAME_LENGTH_TOO_LARGE l \<Rightarrow> ''frame length '' @ nat_str l @ '' exceeds cap '' @ nat_str FRAME_LENGTH_CAP
      | FRAME_LENGTH_TOO_SMALL l \<Rightarrow> ''frame length '' @ nat_str l @ '' is smaller than 1''
      | FRAME_UNKNOWN_TYPE b \<Rightarrow> ''unknown frame type '' @ nat_str (unat b))"

definition read_u32_le :: "byte list \<Rightarrow> nat \<Rightarrow> nat" where
  "read_u32_le bs off =
     unat (bs ! off) + 256 * unat (bs ! (off + 1)) +
     65536 * unat (bs ! (off + 2)) + 16777216 * unat (bs ! (off + 3))"

definition write_u32_le :: "nat \<Rightarrow> byte list" where
  "write_u32_le n =
     [of_nat n, of_nat (n div 256), of_nat (n div 65536), of_nat (n div 16777216)]"

definition assert_frame_length :: "nat \<Rightarrow> frame_error + unit" where
  "assert_frame_length l =
     (if l < FRAME_TYPE_BYTES then Inl (FRAME_LENGTH_TOO_SMALL l)
      else if l > FRAME_LENGTH_CAP then Inl (FRAME_LENGTH_TOO_LARGE l)
      else Inr ())"

definition to_frame_type :: "byte \<Rightarrow> frame_error + frame_type" where
  "to_frame_type b =
     (if b = 1 then Inr FRAME_TYPE_MCP
      else if b = 2 then Inr FRAME_TYPE_CTRL
      else Inl (FRAME_UNKNOWN_TYPE b))"

definition encode_frame :: "byte \<Rightarrow> byte list \<Rightarrow> frame_error + byte list" where
  "encode_frame ty payload =
     (case to_frame_type ty of
        Inl e \<Rightarrow> Inl e
      | Inr t \<Rightarrow>
          (let l = FRAME_TYPE_BYTES + length payload in
           case assert_frame_length l of
             Inl e \<Rightarrow> Inl e
           | Inr _ \<Rightarrow> Inr (write_u32_le l @ [type_byte t] @ payload)))"

subsection \<open>The incremental decoder\<close>

record frame_decoder =
  buf :: "byte list"
  len :: nat

definition fd_new :: frame_decoder where
  "fd_new = \<lparr>buf = [], len = 0\<rparr>"

definition fd_append :: "frame_decoder \<Rightarrow> byte list \<Rightarrow> frame_decoder" where
  "fd_append d chunk =
     (if 0 < length chunk then
        let d1 =
              (if len d + length chunk > length (buf d) then
                 let cap = max (max (length (buf d) * 2) (len d + length chunk)) 64
                 in d\<lparr>buf := take (len d) (buf d) @ replicate (cap - len d) 0\<rparr>
               else d)
        in d1\<lparr>buf := take (len d1) (buf d1) @ chunk @ drop (len d1 + length chunk) (buf d1),
              len := len d1 + length chunk\<rparr>
      else d)"

function fd_loop ::
  "byte list \<Rightarrow> nat \<Rightarrow> nat \<Rightarrow> decoded_frame list \<Rightarrow> frame_error + decoded_frame list \<times> nat" where
  "fd_loop b n off frames =
     (if n - off \<ge> FRAME_HEADER_BYTES then
        let available = n - off;
            frameLength = read_u32_le b off
        in (case assert_frame_length frameLength of
              Inl e \<Rightarrow> Inl e
            | Inr _ \<Rightarrow>
                (if available \<ge> FRAME_HEADER_BYTES + FRAME_TYPE_BYTES
                    \<and> isl (to_frame_type (b ! (off + FRAME_HEADER_BYTES)))
                 then Inl (projl (to_frame_type (b ! (off + FRAME_HEADER_BYTES))))
                 else
                   let wireLength = FRAME_HEADER_BYTES + frameLength in
                   if available < wireLength then Inr (frames, off)
                   else (case to_frame_type (b ! (off + FRAME_HEADER_BYTES)) of
                           Inl e \<Rightarrow> Inl e
                         | Inr t \<Rightarrow>
                             fd_loop b n (off + wireLength)
                               (frames @ [\<lparr>fr_type = t,
                                  fr_payload = take (wireLength - (FRAME_HEADER_BYTES + FRAME_TYPE_BYTES))
                                    (drop (off + FRAME_HEADER_BYTES + FRAME_TYPE_BYTES) b)\<rparr>]))))
      else Inr (frames, off))"
  by pat_completeness auto
termination
  by (relation "measure (\<lambda>(b, n, off, frames). n - off)") (auto simp: frame_consts)

declare fd_loop.simps [simp del]

definition fd_compact :: "frame_decoder \<Rightarrow> nat \<Rightarrow> frame_decoder" where
  "fd_compact d off =
     (if off > 0 then
        d\<lparr>buf := drop off (take (len d) (buf d)) @ drop (len d - off) (buf d), len := len d - off\<rparr>
      else d)"

definition fd_push :: "frame_decoder \<Rightarrow> byte list \<Rightarrow> (frame_error + decoded_frame list) \<times> frame_decoder" where
  "fd_push d chunk =
     (let d1 = fd_append d chunk in
      case fd_loop (buf d1) (len d1) 0 [] of
        Inl e \<Rightarrow> (Inl e, d1)
      | Inr (frames, off) \<Rightarrow> (Inr frames, fd_compact d1 off))"

definition fd_finish :: "frame_decoder \<Rightarrow> decoded_frame list \<times> frame_decoder" where
  "fd_finish d = ([], d\<lparr>len := 0\<rparr>)"

definition fd_buffered_bytes :: "frame_decoder \<Rightarrow> nat" where
  "fd_buffered_bytes d = len d"

subsection \<open>The abstract contract\<close>

definition fd_wf :: "frame_decoder \<Rightarrow> bool" where
  "fd_wf d \<longleftrightarrow> len d \<le> length (buf d)"

definition fd_abs :: "frame_decoder \<Rightarrow> byte list" where
  "fd_abs d = take (len d) (buf d)"

function decode_bytes :: "byte list \<Rightarrow> frame_error + decoded_frame list \<times> byte list" where
  "decode_bytes bs =
     (if length bs < 4 then Inr ([], bs)
      else let l = read_u32_le bs 0 in
           if l < 1 then Inl (FRAME_LENGTH_TOO_SMALL l)
           else if l > FRAME_LENGTH_CAP then Inl (FRAME_LENGTH_TOO_LARGE l)
           else if length bs = 4 then Inr ([], bs)
           else (case to_frame_type (bs ! 4) of
                   Inl e \<Rightarrow> Inl e
                 | Inr t \<Rightarrow>
                     if length bs < 4 + l then Inr ([], bs)
                     else (case decode_bytes (drop (4 + l) bs) of
                             Inl e \<Rightarrow> Inl e
                           | Inr (fs, r) \<Rightarrow>
                               Inr (\<lparr>fr_type = t, fr_payload = take (l - 1) (drop 5 bs)\<rparr> # fs, r))))"
  by pat_completeness auto
termination
  by (relation "measure length") auto

declare decode_bytes.simps [simp del]

subsection \<open>The decoder refines the contract\<close>

lemma fd_append_wf [simp]: "fd_wf d \<Longrightarrow> fd_wf (fd_append d chunk)"
  by (auto simp: fd_wf_def fd_append_def Let_def)

lemma fd_append_abs [simp]: "fd_wf d \<Longrightarrow> fd_abs (fd_append d chunk) = fd_abs d @ chunk"
  by (auto simp: fd_wf_def fd_abs_def fd_append_def Let_def min_def)

lemma fd_compact_wf: "fd_wf d \<Longrightarrow> off \<le> len d \<Longrightarrow> fd_wf (fd_compact d off)"
  by (auto simp: fd_wf_def fd_compact_def)

lemma fd_compact_abs: "fd_wf d \<Longrightarrow> off \<le> len d \<Longrightarrow> fd_abs (fd_compact d off) = drop off (fd_abs d)"
  by (auto simp: fd_wf_def fd_abs_def fd_compact_def)

lemma read_u32_le_drop: "off + 3 < length bs \<Longrightarrow> read_u32_le (drop off bs) 0 = read_u32_le bs off"
  by (simp add: read_u32_le_def)

lemma read_u32_le_take: "off + 3 < n \<Longrightarrow> read_u32_le (take n bs) off = read_u32_le bs off"
  by (simp add: read_u32_le_def)

lemma read_u32_le_append: "off + 3 < length xs \<Longrightarrow> read_u32_le (xs @ ys) off = read_u32_le xs off"
  by (simp add: read_u32_le_def nth_append)

lemma decode_bytes_rest:
  "decode_bytes bs = Inr (fs, r) \<Longrightarrow> \<exists>k. k \<le> length bs \<and> r = drop k bs"
proof (induction bs arbitrary: fs r rule: decode_bytes.induct)
  case (1 bs)
  show ?case
  proof (cases "\<exists>fs' l. decode_bytes (drop (4 + l) bs) = Inr (fs', r) \<and> l = read_u32_le bs 0
      \<and> 4 + l \<le> length bs \<and> \<not> length bs < 4 \<and> \<not> l < 1 \<and> \<not> l > FRAME_LENGTH_CAP
      \<and> length bs \<noteq> 4 \<and> (\<exists>t. to_frame_type (bs ! 4) = Inr t)")
    case True
    then obtain fs' where l: "decode_bytes (drop (4 + read_u32_le bs 0) bs) = Inr (fs', r)"
      "4 + read_u32_le bs 0 \<le> length bs" by blast
    obtain k where "k \<le> length (drop (4 + read_u32_le bs 0) bs)"
      "r = drop k (drop (4 + read_u32_le bs 0) bs)"
      using "1.IH" True l by (metis not_less)
    then show ?thesis
      by (intro exI [of _ "k + (4 + read_u32_le bs 0)"]) (use l in \<open>auto simp: add.commute\<close>)
  next
    case False
    with "1.prems" have "r = drop 0 bs"
      by (subst (asm) decode_bytes.simps) (auto simp: Let_def split: if_splits sum.splits prod.splits)
    then show ?thesis by blast
  qed
qed

lemma fd_loop_spec:
  "n \<le> length b \<Longrightarrow> off \<le> n \<Longrightarrow>
   fd_loop b n off frames =
     (case decode_bytes (drop off (take n b)) of
        Inl e \<Rightarrow> Inl e
      | Inr (fs, r) \<Rightarrow> Inr (frames @ fs, n - length r))"
proof (induction b n off frames rule: fd_loop.induct)
  case (1 b n off frames)
  let ?bs = "drop off (take n b)"
  let ?l = "read_u32_le b off"
  have len: "length ?bs = n - off" using "1.prems" by simp
  show ?case
  proof (cases "n - off < 4")
    case True
    then have "decode_bytes ?bs = Inr ([], ?bs)"
      using len by (subst decode_bytes.simps) simp
    then show ?thesis
      using True "1.prems" len by (subst fd_loop.simps) (simp add: frame_consts)
  next
    case False
    have l: "read_u32_le ?bs 0 = ?l"
      using False "1.prems" by (simp add: read_u32_le_drop read_u32_le_take)
    show ?thesis
    proof (cases "?l < 1 \<or> ?l > FRAME_LENGTH_CAP \<or> n - off = 4
        \<or> isl (to_frame_type (b ! (off + 4))) \<or> n - off < 4 + ?l")
      case True
      have nth: "4 < n - off \<Longrightarrow> ?bs ! 4 = b ! (off + 4)"
        using "1.prems" by simp
      show ?thesis
        using True False "1.prems" nth
        apply (subst fd_loop.simps)
        apply (subst decode_bytes.simps)
        apply (auto simp: l Let_def assert_frame_length_def frame_consts isl_def
            split: sum.splits if_splits)
        done
    next
      case step: False
      then obtain t where t: "to_frame_type (b ! (off + 4)) = Inr t"
        by (cases "to_frame_type (b ! (off + 4))") auto
      have lt: "off + 4 < n"
        using step "1.prems" by linarith
      then have nth: "?bs ! 4 = b ! (off + 4)"
        using "1.prems" by simp
      let ?f = "\<lparr>fr_type = t, fr_payload = take (?l - 1) (drop (off + 5) b)\<rparr>"
      have pay: "take (?l - 1) (drop 5 ?bs) = take (?l - 1) (drop (off + 5) b)"
      proof -
        have "min (?l - 1) (n - (off + 5)) = ?l - 1"
          using step by linarith
        then show ?thesis by (simp add: drop_take add.commute)
      qed
      have dec: "decode_bytes ?bs =
        (case decode_bytes (drop (off + (4 + ?l)) (take n b)) of
           Inl e \<Rightarrow> Inl e | Inr (fs, r) \<Rightarrow> Inr (?f # fs, r))"
        using step False t nth pay "1.prems"
        by (subst decode_bytes.simps)
          (simp add: l len Let_def add.commute add.left_commute split: sum.split)
      have loop: "fd_loop b n off frames = fd_loop b n (off + (4 + ?l)) (frames @ [?f])"
        using step False t
        by (subst fd_loop.simps)
          (simp add: Let_def assert_frame_length_def frame_consts add.commute add.left_commute)
      have IH: "fd_loop b n (off + (4 + ?l)) (frames @ [?f]) =
        (case decode_bytes (drop (off + (4 + ?l)) (take n b)) of
           Inl e \<Rightarrow> Inl e | Inr (fs, r) \<Rightarrow> Inr ((frames @ [?f]) @ fs, n - length r))"
        using "1.IH" [of "n - off" ?l "()" "4 + ?l" t] step False "1.prems" t
        by (auto simp: assert_frame_length_def frame_consts add.commute add.left_commute
            split: sum.splits prod.splits)
      show ?thesis
        unfolding loop IH dec by (auto split: sum.splits prod.splits)
    qed
  qed
qed

lemma fd_push_refines:
  assumes "fd_wf d"
  shows "fd_push d chunk =
    (case decode_bytes (fd_abs d @ chunk) of
       Inl e \<Rightarrow> (Inl e, fd_append d chunk)
     | Inr (fs, r) \<Rightarrow> (Inr fs, fd_compact (fd_append d chunk) (length (fd_abs d @ chunk) - length r)))"
proof -
  let ?d = "fd_append d chunk"
  have wf: "len ?d \<le> length (buf ?d)"
    using fd_append_wf [OF assms] by (simp add: fd_wf_def)
  have abs: "take (len ?d) (buf ?d) = fd_abs d @ chunk"
    using fd_append_abs [OF assms] by (simp add: fd_abs_def)
  then have "length (fd_abs d @ chunk) = len ?d"
    using wf by (metis length_take min.absorb2)
  then show ?thesis
    using fd_loop_spec [OF wf le0, of "[]"] abs
    by (simp add: fd_push_def Let_def split: sum.splits prod.splits)
qed

lemma fd_push_ok:
  assumes "fd_wf d" and "fd_push d chunk = (Inr fs, d')"
  shows "decode_bytes (fd_abs d @ chunk) = Inr (fs, fd_abs d') \<and> fd_wf d'"
proof -
  from assms obtain r where r: "decode_bytes (fd_abs d @ chunk) = Inr (fs, r)"
    and d': "d' = fd_compact (fd_append d chunk) (length (fd_abs d @ chunk) - length r)"
    by (auto simp: fd_push_refines split: sum.splits prod.splits)
  obtain k where k: "k \<le> length (fd_abs d @ chunk)" "r = drop k (fd_abs d @ chunk)"
    using decode_bytes_rest [OF r] by blast
  have lenabs: "len (fd_append d chunk) = length (fd_abs (fd_append d chunk))"
    using fd_append_wf [OF assms(1)] by (simp add: fd_abs_def fd_wf_def)
  have off: "length (fd_abs d @ chunk) - length r = k"
    unfolding k(2) length_drop using k(1) by simp
  have kl: "k \<le> len (fd_append d chunk)"
    using k(1) lenabs by (simp add: fd_append_abs [OF assms(1)])
  have "fd_abs d' = r \<and> fd_wf d'"
    unfolding d' off
    using k(2) fd_compact_abs [OF fd_append_wf [OF assms(1)] kl]
      fd_compact_wf [OF fd_append_wf [OF assms(1)] kl]
    by (simp only: fd_append_abs [OF assms(1)])
  then show ?thesis using r by simp
qed

lemma fd_push_error:
  assumes "fd_wf d" and "fd_push d chunk = (Inl e, d')"
  shows "decode_bytes (fd_abs d @ chunk) = Inl e"
  using assms by (auto simp: fd_push_refines split: sum.splits prod.splits)

subsection \<open>Cutting the stream into chunks\<close>

lemma decode_bytes_append_error: "decode_bytes xs = Inl e \<Longrightarrow> decode_bytes (xs @ ys) = Inl e"
proof (induction xs arbitrary: e rule: decode_bytes.induct)
  case (1 xs)
  show ?case
  proof (cases "\<exists>t. 4 < length xs \<and> 0 < read_u32_le xs 0 \<and> read_u32_le xs 0 \<le> FRAME_LENGTH_CAP
      \<and> to_frame_type (xs ! 4) = Inr t \<and> 4 + read_u32_le xs 0 \<le> length xs")
    case False
    with "1.prems" show ?thesis
      apply (subst decode_bytes.simps)
      apply (subst (asm) decode_bytes.simps)
      apply (auto simp: Let_def read_u32_le_append nth_append not_less
          split: if_splits sum.splits prod.splits)
      done
  next
    case True
    then obtain t where t: "4 < length xs" "0 < read_u32_le xs 0" "read_u32_le xs 0 \<le> FRAME_LENGTH_CAP"
      "to_frame_type (xs ! 4) = Inr t" "4 + read_u32_le xs 0 \<le> length xs" by blast
    then have "decode_bytes (drop (4 + read_u32_le xs 0) xs) = Inl e"
      using "1.prems" by (subst (asm) decode_bytes.simps) (auto simp: Let_def split: sum.splits prod.splits)
    then have "decode_bytes (drop (4 + read_u32_le xs 0) xs @ ys) = Inl e"
      using "1.IH" t by simp
    then show ?thesis
      using t by (subst decode_bytes.simps) (simp add: Let_def read_u32_le_append nth_append)
  qed
qed

lemma decode_bytes_append_ok:
  "decode_bytes xs = Inr (fs, r) \<Longrightarrow>
   decode_bytes (xs @ ys) =
     (case decode_bytes (r @ ys) of Inl e \<Rightarrow> Inl e | Inr (gs, r') \<Rightarrow> Inr (fs @ gs, r'))"
proof (induction xs arbitrary: fs r rule: decode_bytes.induct)
  case (1 xs)
  show ?case
  proof (cases "\<exists>t. 4 < length xs \<and> 0 < read_u32_le xs 0 \<and> read_u32_le xs 0 \<le> FRAME_LENGTH_CAP
      \<and> to_frame_type (xs ! 4) = Inr t \<and> 4 + read_u32_le xs 0 \<le> length xs")
    case False
    with "1.prems" have "fs = []" "r = xs"
      by (subst (asm) (1) decode_bytes.simps; fastforce simp: Let_def not_less
          split: if_splits sum.splits prod.splits)+
    then show ?thesis by (simp split: sum.splits prod.splits)
  next
    case True
    then obtain t where t: "4 < length xs" "0 < read_u32_le xs 0" "read_u32_le xs 0 \<le> FRAME_LENGTH_CAP"
      "to_frame_type (xs ! 4) = Inr t" "4 + read_u32_le xs 0 \<le> length xs" by blast
    then obtain fs' where fs': "decode_bytes (drop (4 + read_u32_le xs 0) xs) = Inr (fs', r)"
      "fs = \<lparr>fr_type = t, fr_payload = take (read_u32_le xs 0 - 1) (drop 5 xs)\<rparr> # fs'"
      using "1.prems" by (subst (asm) decode_bytes.simps) (auto simp: Let_def split: sum.splits prod.splits)
    have "decode_bytes (drop (4 + read_u32_le xs 0) xs @ ys) =
      (case decode_bytes (r @ ys) of Inl e \<Rightarrow> Inl e | Inr (gs, r') \<Rightarrow> Inr (fs' @ gs, r'))"
      using "1.IH" t fs'(1) by simp
    then show ?thesis
      using t fs'(2)
      by (subst decode_bytes.simps)
        (simp add: Let_def read_u32_le_append nth_append split: sum.splits prod.splits)
  qed
qed

fun fd_feed :: "frame_decoder \<Rightarrow> byte list list \<Rightarrow> (frame_error + decoded_frame list) \<times> frame_decoder" where
  "fd_feed d [] = (Inr [], d)"
| "fd_feed d (c # cs) =
     (case fd_push d c of
        (Inl e, d') \<Rightarrow> (Inl e, d')
      | (Inr fs, d') \<Rightarrow>
          (case fd_feed d' cs of
             (Inl e, d'') \<Rightarrow> (Inl e, d'')
           | (Inr gs, d'') \<Rightarrow> (Inr (fs @ gs), d'')))"

lemma decode_bytes_idem: "decode_bytes xs = Inr (fs, r) \<Longrightarrow> decode_bytes r = Inr ([], r)"
  using decode_bytes_append_ok [of xs fs r "[]"] by (auto split: sum.splits prod.splits)

lemma fd_feed_spec:
  "fd_wf d \<Longrightarrow> decode_bytes (fd_abs d) = Inr ([], fd_abs d) \<Longrightarrow>
   (case decode_bytes (fd_abs d @ concat cs) of
      Inl e \<Rightarrow> fst (fd_feed d cs) = Inl e
    | Inr (fs, r) \<Rightarrow> fst (fd_feed d cs) = Inr fs \<and> fd_abs (snd (fd_feed d cs)) = r
        \<and> fd_wf (snd (fd_feed d cs)))"
proof (induction cs arbitrary: d)
  case Nil
  then show ?case by simp
next
  case (Cons c cs)
  obtain r1 d1 where push: "fd_push d c = (r1, d1)" by fastforce
  show ?case
  proof (cases r1)
    case (Inl e)
    then have "decode_bytes (fd_abs d @ c) = Inl e"
      using fd_push_error [OF Cons.prems(1)] push by simp
    from decode_bytes_append_error [OF this, of "concat cs"] show ?thesis
      using push Inl by simp
  next
    case (Inr fs)
    then have ok: "decode_bytes (fd_abs d @ c) = Inr (fs, fd_abs d1)" "fd_wf d1"
      using fd_push_ok [OF Cons.prems(1)] push by auto
    have IH: "case decode_bytes (fd_abs d1 @ concat cs) of
        Inl e \<Rightarrow> fst (fd_feed d1 cs) = Inl e
      | Inr (fs, r) \<Rightarrow> fst (fd_feed d1 cs) = Inr fs \<and> fd_abs (snd (fd_feed d1 cs)) = r
          \<and> fd_wf (snd (fd_feed d1 cs))"
      using Cons.IH [OF ok(2)] decode_bytes_idem [OF ok(1)] by simp
    have "decode_bytes (fd_abs d @ concat (c # cs)) =
      (case decode_bytes (fd_abs d1 @ concat cs) of
         Inl e \<Rightarrow> Inl e | Inr (gs, r') \<Rightarrow> Inr (fs @ gs, r'))"
      using decode_bytes_append_ok [OF ok(1), of "concat cs"] by simp
    then show ?thesis
      using IH push Inr by (auto split: sum.splits prod.splits)
  qed
qed

lemma fd_new_wf [simp]: "fd_wf fd_new" "fd_abs fd_new = []"
  by (simp_all add: fd_wf_def fd_abs_def fd_new_def)

lemma decode_bytes_Nil [simp]: "decode_bytes [] = Inr ([], [])"
  by (subst decode_bytes.simps) simp

lemma fd_feed_new:
  "(case decode_bytes (concat cs) of
      Inl e \<Rightarrow> fst (fd_feed fd_new cs) = Inl e
    | Inr (fs, r) \<Rightarrow> fst (fd_feed fd_new cs) = Inr fs \<and> fd_abs (snd (fd_feed fd_new cs)) = r
        \<and> fd_wf (snd (fd_feed fd_new cs)))"
  using fd_feed_spec [of fd_new cs] by simp

subsection \<open>Encoding\<close>

lemma div_steps: "(n::nat) div 65536 = n div 256 div 256" "n div 16777216 = n div 256 div 256 div 256"
  by (simp_all add: div_mult2_eq [symmetric])

lemma base256: "(n::nat) < 4294967296 \<Longrightarrow>
  n mod 256 + 256 * (n div 256 mod 256) + 65536 * (n div 65536 mod 256)
    + 16777216 * (n div 16777216 mod 256) = n"
proof -
  assume n: "n < 4294967296"
  define a b c where "a = n div 256" and "b = a div 256" and "c = b div 256"
  have "c < 256" using n unfolding a_def b_def c_def
    by (simp add: div_mult2_eq [symmetric] less_mult_imp_div_less)
  then have "c mod 256 = c" by simp
  moreover have "n = 256 * a + n mod 256" "a = 256 * b + a mod 256" "b = 256 * c + b mod 256"
    unfolding a_def b_def c_def by simp_all
  ultimately show ?thesis
    unfolding div_steps a_def [symmetric] b_def [symmetric] c_def [symmetric] by linarith
qed

lemma read_write_u32_le: "n < 4294967296 \<Longrightarrow> read_u32_le (write_u32_le n @ bs) 0 = n"
  using base256 [of n] by (simp add: read_u32_le_def write_u32_le_def unat_of_nat)

lemma length_write_u32_le [simp]: "length (write_u32_le n) = 4"
  by (simp add: write_u32_le_def)

definition frame_ok :: "decoded_frame \<Rightarrow> bool" where
  "frame_ok f \<longleftrightarrow> FRAME_TYPE_BYTES + length (fr_payload f) \<le> FRAME_LENGTH_CAP"

definition frame_bytes :: "decoded_frame \<Rightarrow> byte list" where
  "frame_bytes f = write_u32_le (FRAME_TYPE_BYTES + length (fr_payload f))
     @ [type_byte (fr_type f)] @ fr_payload f"

lemma to_frame_type_byte [simp]: "to_frame_type (type_byte t) = Inr t"
  by (cases t) (auto simp: to_frame_type_def type_byte_def)

lemma encode_frame_bytes:
  "encode_frame (type_byte t) p = Inr bs \<longleftrightarrow>
     frame_ok \<lparr>fr_type = t, fr_payload = p\<rparr> \<and> bs = frame_bytes \<lparr>fr_type = t, fr_payload = p\<rparr>"
  by (auto simp: encode_frame_def assert_frame_length_def frame_ok_def frame_bytes_def Let_def
      frame_consts)

lemma length_frame_bytes: "length (frame_bytes f) = 5 + length (fr_payload f)"
  by (simp add: frame_bytes_def)

lemma decode_frame_bytes:
  assumes "frame_ok f"
  shows "decode_bytes (frame_bytes f @ bs) =
    (case decode_bytes bs of Inl e \<Rightarrow> Inl e | Inr (fs, r) \<Rightarrow> Inr (f # fs, r))"
proof -
  let ?l = "Suc (length (fr_payload f))"
  have l: "read_u32_le (frame_bytes f @ bs) 0 = ?l"
    using assms read_write_u32_le [of ?l]
    by (simp add: frame_bytes_def frame_ok_def frame_consts)
  have nth: "(frame_bytes f @ bs) ! 4 = type_byte (fr_type f)"
    by (simp add: frame_bytes_def nth_append)
  have dr: "drop (4 + ?l) (frame_bytes f @ bs) = bs" "drop 5 (frame_bytes f @ bs) = fr_payload f @ bs"
    by (simp_all add: frame_bytes_def)
  show ?thesis
    using assms dr
    by (subst decode_bytes.simps)
      (auto simp add: l nth Let_def length_frame_bytes frame_ok_def frame_consts split: sum.split prod.split)
qed

lemma decode_partial_frame:
  assumes "frame_ok f" and "strict_prefix p (frame_bytes f)"
  shows "decode_bytes p = Inr ([], p)"
proof -
  obtain z zs where z: "frame_bytes f = p @ z # zs"
    using assms(2) by (auto elim: strict_prefixE')
  let ?l = "Suc (length (fr_payload f))"
  have lf: "length p < 4 + ?l" using length_frame_bytes [of f] z by simp
  show ?thesis
  proof (cases "length p < 4")
    case True
    then show ?thesis by (subst decode_bytes.simps) simp
  next
    case False
    have l: "read_u32_le p 0 = ?l"
      using False read_u32_le_append [of 0 p "z # zs"] read_write_u32_le [of ?l] assms(1)
      by (simp add: z [symmetric]) (simp add: frame_bytes_def frame_ok_def frame_consts)
    have nth: "4 < length p \<Longrightarrow> p ! 4 = type_byte (fr_type f)"
      using z by (metis frame_bytes_def append_Cons length_write_u32_le nth_append nth_append_length)
    show ?thesis
      using False lf l nth assms(1)
      by (subst decode_bytes.simps) (auto simp: Let_def frame_ok_def frame_consts)
  qed
qed

subsection \<open>The interface of the codec\<close>

locale stream_codec =
  fixes enc :: "'f \<Rightarrow> 'b list" and dec :: "'b list \<Rightarrow> 'e + 'f list \<times> 'b list" and ok :: "'f \<Rightarrow> bool"
  assumes dec_enc: "ok f \<Longrightarrow> dec (enc f @ bs) =
      (case dec bs of Inl e \<Rightarrow> Inl e | Inr (fs, r) \<Rightarrow> Inr (f # fs, r))"
    and dec_partial: "ok f \<Longrightarrow> strict_prefix p (enc f) \<Longrightarrow> dec p = Inr ([], p)"
    and dec_nil: "dec [] = Inr ([], [])"
begin

lemma dec_stream:
  "list_all ok fs \<Longrightarrow> dec (concat (map enc fs) @ bs) =
     (case dec bs of Inl e \<Rightarrow> Inl e | Inr (gs, r) \<Rightarrow> Inr (fs @ gs, r))"
  by (induction fs) (auto simp: dec_enc split: sum.splits prod.splits)

lemma dec_stream_all: "list_all ok fs \<Longrightarrow> dec (concat (map enc fs)) = Inr (fs, [])"
  using dec_stream [of fs "[]"] by (simp add: dec_nil)

lemma dec_stream_partial:
  "list_all ok fs \<Longrightarrow> ok f \<Longrightarrow> strict_prefix p (enc f) \<Longrightarrow> dec (concat (map enc fs) @ p) = Inr (fs, p)"
  by (simp add: dec_stream dec_partial)

lemma prefix_of_stream:
  "list_all ok fs \<Longrightarrow> prefix p (concat (map enc fs)) \<Longrightarrow>
   \<exists>gs r. dec p = Inr (gs, r) \<and> prefix gs fs"
proof (induction fs arbitrary: p)
  case Nil
  then show ?case by (auto simp: dec_nil)
next
  case (Cons f fs)
  show ?case
  proof (cases "prefix (enc f) p")
    case True
    then obtain q where q: "p = enc f @ q" by (auto elim: prefixE)
    with Cons.prems(2) have "prefix q (concat (map enc fs))" by simp
    moreover from Cons.prems(1) have "list_all ok fs" by simp
    ultimately obtain gs r where "dec q = Inr (gs, r)" "prefix gs fs"
      using Cons.IH by blast
    then show ?thesis
      using Cons.prems(1) q by (simp add: dec_enc)
  next
    case False
    with Cons.prems(2) have "strict_prefix p (enc f)"
      by (metis list.simps(9) concat.simps(2) prefix_append prefix_order.less_le prefix_def)
    then show ?thesis
      using Cons.prems(1) dec_partial [of f p] by auto
  qed
qed

end

interpretation frames: stream_codec frame_bytes decode_bytes frame_ok
  by unfold_locales (simp_all add: decode_frame_bytes decode_partial_frame)

subsection \<open>Properties\<close>

lemma decode_rest_bound:
  assumes "decode_bytes bs = Inr (fs, r)"
  shows "length r < FRAME_HEADER_BYTES + FRAME_LENGTH_CAP"
  using decode_bytes_idem [OF assms]
  by (subst (asm) decode_bytes.simps)
    (auto simp: Let_def frame_consts split: if_splits sum.splits prod.splits)

lemma fd_feed_fst: "fst (fd_feed fd_new cs) = map_sum id fst (decode_bytes (concat cs))"
  using fd_feed_new [of cs] by (auto split: sum.splits prod.splits)

text \<open>
  C17. Feeding the incremental decoder any sequence of chunks gives exactly what the wire format
  says of the concatenated bytes: the same frames in the same order, or the same protocol error.
  How the socket cuts the stream, and how the buffer grows and is compacted, does not matter.
\<close>

theorem fd_feed_refines_format:
  "fst (fd_feed fd_new cs) = map_sum id fst (decode_bytes (concat cs))"
  by (rule fd_feed_fst)

text \<open>
  Round trip: the bytes of any list of encodable frames, cut into chunks in any way, decode to
  exactly those frames, and no byte is left in the decoder's buffer.
\<close>

theorem frame_stream_roundtrip:
  assumes "list_all frame_ok fs" and "concat cs = concat (map frame_bytes fs)"
  shows "fst (fd_feed fd_new cs) = Inr fs \<and> fd_buffered_bytes (snd (fd_feed fd_new cs)) = 0"
proof -
  have dec: "decode_bytes (concat cs) = Inr (fs, [])"
    unfolding assms(2) using assms(1) by (rule frames.dec_stream_all)
  with fd_feed_new [of cs] have "fst (fd_feed fd_new cs) = Inr fs"
    "fd_abs (snd (fd_feed fd_new cs)) = []" "fd_wf (snd (fd_feed fd_new cs))" by auto
  then show ?thesis
    by (auto simp: fd_abs_def fd_wf_def fd_buffered_bytes_def)
qed

theorem frame_stream_roundtrip_witness:
  "fst (fd_feed fd_new [[3, 0, 0], [0, 1, 7, 9, 2, 0], [0, 0], [2, 5]]) =
     Inr [\<lparr>fr_type = FRAME_TYPE_MCP, fr_payload = [7, 9]\<rparr>, \<lparr>fr_type = FRAME_TYPE_CTRL, fr_payload = [5]\<rparr>]
   \<and> fd_buffered_bytes (snd (fd_feed fd_new [[3, 0, 0], [0, 1, 7, 9, 2, 0], [0, 0], [2, 5]])) = 0"
  by (rule frame_stream_roundtrip)
    (simp_all add: frame_ok_def frame_bytes_def write_u32_le_def type_byte_def frame_consts)

text \<open>
  Bounded memory: after any pushes that did not raise, fewer than a header plus the frame cap
  bytes are held back, whatever the peer sent.
\<close>

theorem decoder_buffer_bounded:
  assumes "fst (fd_feed fd_new cs) = Inr fs"
  shows "fd_buffered_bytes (snd (fd_feed fd_new cs)) < FRAME_HEADER_BYTES + FRAME_LENGTH_CAP"
proof -
  obtain gs r where "decode_bytes (concat cs) = Inr (gs, r)"
    "fd_abs (snd (fd_feed fd_new cs)) = r" "fd_wf (snd (fd_feed fd_new cs))"
    using assms fd_feed_new [of cs] by (auto split: sum.splits prod.splits)
  moreover from this(1) have "length r < FRAME_HEADER_BYTES + FRAME_LENGTH_CAP"
    by (rule decode_rest_bound)
  ultimately show ?thesis
    by (auto simp: fd_buffered_bytes_def fd_abs_def fd_wf_def)
qed

theorem decoder_buffer_bounded_witness:
  "fst (fd_feed fd_new [[3, 0, 0], [0, 1, 7]]) = Inr []
   \<and> fd_buffered_bytes (snd (fd_feed fd_new [[3, 0, 0], [0, 1, 7]])) < FRAME_HEADER_BYTES + FRAME_LENGTH_CAP"
proof -
  have "decode_bytes [3, 0, 0, 0, 1, 7] = Inr ([], [3, 0, 0, 0, 1, 7])"
    by (subst decode_bytes.simps)
      (simp add: read_u32_le_def Let_def FRAME_LENGTH_CAP_def to_frame_type_def)
  then have "fst (fd_feed fd_new [[3, 0, 0], [0, 1, 7]]) = Inr []"
    by (simp add: fd_feed_fst del: fd_feed.simps)
  then show ?thesis using decoder_buffer_bounded by blast
qed

end
