(* ===== verification/Frame_Writer.thy ===== *)
theory Frame_Writer
  imports Frame_Codec
begin

text \<open>
  \<open>FrameWriter\<close> of \<open>src/uds_frame.ts\<close>: two priority lanes, chunked writes, pause on a short write,
  overflow and teardown. The socket is a parameter: \<open>env n unit\<close> is what the \<open>n\<close>-th call of the
  \<open>write\<close> callback returns. The callback does not call back into the writer.

  Effects are state: \<open>wire\<close> holds the bytes the socket accepted, \<open>waiter_log\<close> the settled
  \<open>drain()\<close> promises, \<open>overflows\<close> counts the calls of \<open>onOverflow\<close>. Two history fields, which no
  operation reads, record the frames taken by \<open>enqueue\<close> and the frames written to the end.

  The loop of \<open>pumpLoop\<close> runs on fuel; \<open>pump_loop_returns\<close> shows that the fuel \<open>fw_fuel\<close>, one unit per
  byte and per item still to be written, always suffices.
\<close>

subsection \<open>State\<close>

definition FRAME_WRITER_MAX_CHUNK :: nat where "FRAME_WRITER_MAX_CHUNK = 256 * 1024"

datatype lane = Ctrl | Mcp

definition lane_type :: "lane \<Rightarrow> frame_type" where
  "lane_type l = (case l of Ctrl \<Rightarrow> FRAME_TYPE_CTRL | Mcp \<Rightarrow> FRAME_TYPE_MCP)"

record writer_item =
  wi_lane :: lane
  wi_bytes :: "byte list"
  wi_offset :: nat

datatype writer_error =
    HighWaterRange
  | ChunkRange
  | FrameWriterOverflow
  | InvalidByteCount
  | WriteError string
  | WriterClosed string
  | EncodeFailed frame_error

datatype write_result = Accepted int | AcceptedVoid | NotFinite | WriteThrows string

type_synonym write_env = "nat \<Rightarrow> byte list \<Rightarrow> write_result"

record frame_writer =
  highWater :: nat
  chunkSize :: nat
  maxBytes :: "nat option"
  ctrlQueue :: "writer_item list"
  mcpQueue :: "writer_item list"
  currentMcp :: "writer_item option"
  currentCtrl :: "writer_item option"
  pendingItems :: int
  queuedBytes :: int
  pumping :: bool
  paused :: bool
  failed :: bool
  failure :: "writer_error option"
  idleWaiters :: "nat list"
  nextWaiter :: nat
  waiter_log :: "(nat \<times> writer_error option) list"
  overflows :: nat
  writes :: nat
  wire :: "byte list"
  taken :: "(lane \<times> byte list) list"
  completed :: "(lane \<times> byte list) list"

subsection \<open>Operations\<close>

definition jsnum_nat :: "jsnum \<Rightarrow> nat" where
  "jsnum_nat n = (case n of Fin q \<Rightarrow> nat \<lfloor>q\<rfloor> | _ \<Rightarrow> 0)"

definition fw_new :: "jsnum \<Rightarrow> jsnum option \<Rightarrow> nat option \<Rightarrow> writer_error + frame_writer" where
  "fw_new hw chunk mb =
     (if \<not> num_integer hw \<or> num_less hw (Fin 1) then Inl HighWaterRange
      else let requested = (case chunk of None \<Rightarrow> Fin (of_nat FRAME_WRITER_MAX_CHUNK) | Some c \<Rightarrow> c) in
        if \<not> num_integer requested \<or> num_less requested (Fin 1) then Inl ChunkRange
        else Inr \<lparr>highWater = jsnum_nat hw, chunkSize = min (jsnum_nat requested) FRAME_WRITER_MAX_CHUNK,
          maxBytes = mb, ctrlQueue = [], mcpQueue = [], currentMcp = None, currentCtrl = None,
          pendingItems = 0, queuedBytes = 0, pumping = False, paused = False, failed = False,
          failure = None, idleWaiters = [], nextWaiter = 0, waiter_log = [], overflows = 0,
          writes = 0, wire = [], taken = [], completed = []\<rparr>)"

definition fw_fail :: "frame_writer \<Rightarrow> writer_error \<Rightarrow> frame_writer" where
  "fw_fail w e = w\<lparr>failed := True, failure := Some e, pumping := False, paused := False,
     ctrlQueue := [], mcpQueue := [], currentMcp := None, currentCtrl := None,
     pendingItems := 0, queuedBytes := 0, idleWaiters := [],
     waiter_log := waiter_log w @ map (\<lambda>i. (i, Some e)) (idleWaiters w)\<rparr>"

definition fw_resolve_idle :: "frame_writer \<Rightarrow> frame_writer" where
  "fw_resolve_idle w =
     (if pendingItems w \<noteq> 0 then w
      else w\<lparr>idleWaiters := [], waiter_log := waiter_log w @ map (\<lambda>i. (i, None)) (idleWaiters w)\<rparr>)"

text \<open>The item to continue or to start: an item in progress first, then CTRL before MCP.\<close>

definition fw_select :: "frame_writer \<Rightarrow> writer_item option \<times> lane \<times> frame_writer" where
  "fw_select w =
     (case currentCtrl w of
        Some i \<Rightarrow> (Some i, Ctrl, w)
      | None \<Rightarrow>
          (case currentMcp w of
             Some i \<Rightarrow> (Some i, Mcp, w)
           | None \<Rightarrow>
               (case ctrlQueue w of
                  i # is \<Rightarrow> (Some i, Ctrl, w\<lparr>currentCtrl := Some i, ctrlQueue := is\<rparr>)
                | [] \<Rightarrow>
                    (case mcpQueue w of
                       i # is \<Rightarrow> (Some i, Mcp, w\<lparr>currentMcp := Some i, mcpQueue := is\<rparr>)
                     | [] \<Rightarrow> (None, Mcp, w)))))"

definition set_current :: "lane \<Rightarrow> writer_item option \<Rightarrow> frame_writer \<Rightarrow> frame_writer" where
  "set_current l i w = (case l of Ctrl \<Rightarrow> w\<lparr>currentCtrl := i\<rparr> | Mcp \<Rightarrow> w\<lparr>currentMcp := i\<rparr>)"

definition write_count :: "write_result \<Rightarrow> byte list \<Rightarrow> writer_error + nat" where
  "write_count r unit =
     (case r of
        Accepted n \<Rightarrow> (if n < 0 \<or> n > int (length unit) then Inl InvalidByteCount else Inr (nat n))
      | AcceptedVoid \<Rightarrow> Inr (length unit)
      | NotFinite \<Rightarrow> Inl InvalidByteCount
      | WriteThrows s \<Rightarrow> Inl (WriteError s))"

datatype pump_status = Continue | Drained | Stopped

definition fw_iter :: "write_env \<Rightarrow> frame_writer \<Rightarrow> pump_status \<times> frame_writer" where
  "fw_iter env w =
     (case fw_select w of
        (None, l, w1) \<Rightarrow> (Drained, w1)
      | (Some item, l, w1) \<Rightarrow>
          (let endp = min (length (wi_bytes item)) (wi_offset item + chunkSize w1);
               unit = take (endp - wi_offset item) (drop (wi_offset item) (wi_bytes item));
               w2 = w1\<lparr>writes := Suc (writes w1)\<rparr>
           in (case write_count (env (writes w1) unit) unit of
                 Inl e \<Rightarrow> (Stopped, fw_fail w2 e)
               | Inr n \<Rightarrow>
                   (let item' = item\<lparr>wi_offset := wi_offset item + n\<rparr>;
                        w3 = set_current l (Some item')
                          (w2\<lparr>queuedBytes := queuedBytes w2 - int n, wire := wire w2 @ take n unit\<rparr>)
                    in if n < length unit then (Stopped, w3\<lparr>paused := True, pumping := False\<rparr>)
                       else if wi_offset item' \<ge> length (wi_bytes item') then
                         (Continue, (set_current l None w3)
                            \<lparr>pendingItems := pendingItems w3 - 1,
                             completed := completed w3 @ [(wi_lane item', wi_bytes item')]\<rparr>)
                       else (Continue, w3)))))"

fun fw_pump_loop :: "nat \<Rightarrow> write_env \<Rightarrow> frame_writer \<Rightarrow> frame_writer option" where
  "fw_pump_loop 0 env w = None"
| "fw_pump_loop (Suc fuel) env w =
     (case fw_iter env w of
        (Continue, w') \<Rightarrow> fw_pump_loop fuel env w'
      | (Drained, w') \<Rightarrow> Some (fw_resolve_idle (w'\<lparr>pumping := False\<rparr>))
      | (Stopped, w') \<Rightarrow> Some w')"

definition fw_items :: "frame_writer \<Rightarrow> writer_item list" where
  "fw_items w = (case currentCtrl w of None \<Rightarrow> [] | Some i \<Rightarrow> [i])
     @ (case currentMcp w of None \<Rightarrow> [] | Some i \<Rightarrow> [i]) @ ctrlQueue w @ mcpQueue w"

definition remaining :: "writer_item \<Rightarrow> nat" where
  "remaining i = length (wi_bytes i) - wi_offset i"

definition fw_work :: "frame_writer \<Rightarrow> nat" where
  "fw_work w = sum_list (map (\<lambda>i. Suc (remaining i)) (fw_items w))"

definition fw_fuel :: "frame_writer \<Rightarrow> nat" where
  "fw_fuel w = Suc (fw_work w)"

definition fw_schedule :: "write_env \<Rightarrow> frame_writer \<Rightarrow> frame_writer option" where
  "fw_schedule env w =
     (if pumping w \<or> failed w \<or> paused w then Some w
      else fw_pump_loop (fw_fuel w) env (w\<lparr>pumping := True\<rparr>))"

definition fw_enqueue ::
  "write_env \<Rightarrow> frame_writer \<Rightarrow> lane \<Rightarrow> byte list \<Rightarrow> ((writer_error + unit) \<times> frame_writer) option" where
  "fw_enqueue env w l payload =
     (if failed w then Some (Inl (the (failure w)), w)
      else
        (case encode_frame (type_byte (lane_type l)) payload of
           Inl e \<Rightarrow> Some (Inl (EncodeFailed e), w)
         | Inr bytes \<Rightarrow>
             (if pendingItems w \<ge> int (highWater w)
                 \<or> (case maxBytes w of None \<Rightarrow> False | Some m \<Rightarrow> queuedBytes w + int (length bytes) > int m)
              then Some (Inr (), fw_fail (w\<lparr>overflows := Suc (overflows w)\<rparr>) FrameWriterOverflow)
              else
                (let item = \<lparr>wi_lane = l, wi_bytes = bytes, wi_offset = 0\<rparr>;
                     w1 = (case l of Ctrl \<Rightarrow> w\<lparr>ctrlQueue := ctrlQueue w @ [item]\<rparr>
                                   | Mcp \<Rightarrow> w\<lparr>mcpQueue := mcpQueue w @ [item]\<rparr>);
                     w2 = w1\<lparr>pendingItems := pendingItems w1 + 1,
                             queuedBytes := queuedBytes w1 + int (length bytes),
                             taken := taken w1 @ [(l, bytes)]\<rparr>
                 in map_option (Pair (Inr ())) (fw_schedule env w2)))))"

definition fw_enqueue_ctrl where "fw_enqueue_ctrl env w payload = fw_enqueue env w Ctrl payload"
definition fw_enqueue_mcp where "fw_enqueue_mcp env w payload = fw_enqueue env w Mcp payload"

text \<open>\<open>drain()\<close> returns a settled promise or a new waiter.\<close>

datatype drain_result = DrainRejected writer_error | DrainResolved | DrainPending nat

definition fw_drain :: "frame_writer \<Rightarrow> drain_result \<times> frame_writer" where
  "fw_drain w =
     (if failed w then (DrainRejected (the (failure w)), w)
      else if \<not> pumping w \<and> \<not> paused w \<and> pendingItems w = 0 then (DrainResolved, w)
      else (DrainPending (nextWaiter w),
            w\<lparr>idleWaiters := idleWaiters w @ [nextWaiter w], nextWaiter := Suc (nextWaiter w)\<rparr>))"

definition fw_resume :: "write_env \<Rightarrow> frame_writer \<Rightarrow> frame_writer option" where
  "fw_resume env w =
     (if paused w \<and> \<not> failed w then fw_schedule env (w\<lparr>paused := False\<rparr>) else Some w)"

definition fw_close :: "frame_writer \<Rightarrow> writer_error \<Rightarrow> frame_writer" where
  "fw_close w e = (if failed w then w else fw_fail w e)"

subsection \<open>The invariant\<close>

definition lane_frame :: "lane \<Rightarrow> byte list \<Rightarrow> bool" where
  "lane_frame l bs \<longleftrightarrow> (\<exists>f. fr_type f = lane_type l \<and> frame_ok f \<and> bs = frame_bytes f)"

definition item_wf :: "lane \<Rightarrow> writer_item \<Rightarrow> bool" where
  "item_wf l i \<longleftrightarrow> wi_lane i = l \<and> lane_frame l (wi_bytes i) \<and> wi_offset i < length (wi_bytes i)"

definition current :: "lane \<Rightarrow> frame_writer \<Rightarrow> writer_item option" where
  "current l w = (case l of Ctrl \<Rightarrow> currentCtrl w | Mcp \<Rightarrow> currentMcp w)"

definition queue :: "lane \<Rightarrow> frame_writer \<Rightarrow> writer_item list" where
  "queue l w = (case l of Ctrl \<Rightarrow> ctrlQueue w | Mcp \<Rightarrow> mcpQueue w)"

definition opt_list :: "'a option \<Rightarrow> 'a list" where
  "opt_list x = (case x of None \<Rightarrow> [] | Some a \<Rightarrow> [a])"

definition lane_items :: "lane \<Rightarrow> frame_writer \<Rightarrow> writer_item list" where
  "lane_items l w = opt_list (current l w) @ queue l w"

definition of_lane :: "lane \<Rightarrow> (lane \<times> byte list) list \<Rightarrow> byte list list" where
  "of_lane l xs = map snd (filter (\<lambda>x. fst x = l) xs)"

definition inflight :: "frame_writer \<Rightarrow> byte list" where
  "inflight w = concat (map (\<lambda>i. take (wi_offset i) (wi_bytes i))
     (opt_list (currentCtrl w) @ opt_list (currentMcp w)))"

definition fw_shape :: "frame_writer \<Rightarrow> bool" where
  "fw_shape w \<longleftrightarrow> 1 \<le> chunkSize w
     \<and> (currentCtrl w = None \<or> currentMcp w = None)
     \<and> (\<forall>l. \<forall>i \<in> set (lane_items l w). item_wf l i)
     \<and> (\<forall>l. \<forall>i \<in> set (queue l w). wi_offset i = 0)
     \<and> (failed w \<longrightarrow> fw_items w = [] \<and> idleWaiters w = [] \<and> \<not> paused w \<and> failure w \<noteq> None)"

definition fw_counts :: "frame_writer \<Rightarrow> bool" where
  "fw_counts w \<longleftrightarrow> pendingItems w = int (length (fw_items w))
     \<and> queuedBytes w = int (sum_list (map remaining (fw_items w)))"

definition fw_wire :: "frame_writer \<Rightarrow> bool" where
  "fw_wire w \<longleftrightarrow> (\<forall>(l, bs) \<in> set (completed w). lane_frame l bs)
     \<and> (\<exists>p. wire w = concat (map snd (completed w)) @ p
          \<and> (p = [] \<or> (\<exists>f. frame_ok f \<and> strict_prefix p (frame_bytes f)))
          \<and> (failed w \<or> p = inflight w))"

definition fw_fifo :: "frame_writer \<Rightarrow> bool" where
  "fw_fifo w \<longleftrightarrow> (\<forall>l.
     (failed w \<longrightarrow> prefix (of_lane l (completed w)) (of_lane l (taken w)))
     \<and> (\<not> failed w \<longrightarrow> of_lane l (taken w) = of_lane l (completed w) @ map wi_bytes (lane_items l w)))"

definition fw_inv :: "frame_writer \<Rightarrow> bool" where
  "fw_inv w \<longleftrightarrow> fw_shape w \<and> fw_counts w \<and> fw_wire w \<and> fw_fifo w"

lemmas fw_inv_defs = fw_inv_def fw_shape_def fw_counts_def fw_wire_def fw_fifo_def
lemmas fw_views = lane_items_def current_def queue_def opt_list_def inflight_def fw_items_def

lemma all_lanes: "(\<forall>l. P l) \<longleftrightarrow> P Ctrl \<and> P Mcp"
  by (metis lane.exhaust)

lemma fw_new_inv: "fw_new hw chunk mb = Inr w \<Longrightarrow> fw_inv w"
proof -
  assume new: "fw_new hw chunk mb = Inr w"
  have pos: "1 \<le> jsnum_nat n" if "num_integer n" "\<not> num_less n (Fin 1)" for n
    using that by (cases n) (auto simp: num_integer_def jsnum_nat_def le_nat_iff le_floor_iff)
  then have "1 \<le> chunkSize w"
    using new pos [of "case chunk of None \<Rightarrow> Fin (of_nat FRAME_WRITER_MAX_CHUNK) | Some c \<Rightarrow> c"]
    by (auto simp: fw_new_def Let_def FRAME_WRITER_MAX_CHUNK_def split: if_splits)
  then show ?thesis
    using new
    by (auto simp: fw_new_def Let_def fw_inv_defs fw_views of_lane_def split: if_splits lane.splits)
qed

lemma fw_fail_inv:
  assumes "fw_inv w" "\<not> failed w"
  shows "fw_inv (fw_fail w e)"
  using assms
  by (auto simp: fw_inv_defs fw_fail_def fw_views of_lane_def split: lane.splits)

text \<open>Selecting moves the head of a queue into the lane's current slot.\<close>

lemma fw_select_current:
  assumes "fw_inv w" "\<not> failed w" "fw_select w = (Some i, l, w1)"
  shows "fw_inv w1 \<and> current l w1 = Some i \<and> (\<forall>l'. l' \<noteq> l \<longrightarrow> current l' w1 = None)
    \<and> \<not> failed w1 \<and> fw_work w1 = fw_work w \<and> chunkSize w1 = chunkSize w
    \<and> paused w1 = paused w \<and> pumping w1 = pumping w"
proof -
  have "list_all ((=) 0) (map wi_offset (ctrlQueue w @ mcpQueue w))"
    using assms(1) by (auto simp: fw_inv_defs list_all_iff all_lanes queue_def)
  then show ?thesis
    using assms
    by (auto simp: fw_select_def fw_inv_defs fw_views fw_work_def all_lanes of_lane_def
        split: option.splits list.splits lane.splits)
qed

lemma fw_select_none:
  assumes "fw_select w = (None, l, w1)"
  shows "w1 = w \<and> fw_items w = []"
  using assms by (auto simp: fw_select_def fw_items_def split: option.splits list.splits)

text \<open>Writing part of the current item, and writing its last byte.\<close>

definition advance :: "lane \<Rightarrow> writer_item \<Rightarrow> nat \<Rightarrow> byte list \<Rightarrow> frame_writer \<Rightarrow> frame_writer" where
  "advance l i n bs w = set_current l (Some (i\<lparr>wi_offset := wi_offset i + n\<rparr>))
     (w\<lparr>queuedBytes := queuedBytes w - int n, wire := wire w @ bs\<rparr>)"

lemma item_in_flight:
  assumes "fw_inv w" "\<not> failed w" "current l w = Some i" "\<forall>l'. l' \<noteq> l \<longrightarrow> current l' w = None"
  shows "inflight w = take (wi_offset i) (wi_bytes i) \<and> item_wf l i"
  using assms by (cases l) (auto simp: fw_inv_defs fw_views all_lanes)

lemma take_take_drop: "take m xs @ take n (drop m xs) = take (m + n) xs"
  by (simp add: take_add)

lemma strict_prefix_take: "n < length xs \<Longrightarrow> strict_prefix (take n xs) xs"
  by (metis take_is_prefix prefix_order.less_le length_take min.absorb4 nat_neq_iff)

lemma advance_inv:
  assumes inv: "fw_inv w" "\<not> failed w"
    and cur: "current l w = Some i" "\<forall>l'. l' \<noteq> l \<longrightarrow> current l' w = None"
    and n: "wi_offset i + n < length (wi_bytes i)"
    and bs: "bs = take n (drop (wi_offset i) (wi_bytes i))"
  shows "fw_inv (advance l i n bs w)"
proof -
  have fl: "inflight w = take (wi_offset i) (wi_bytes i)" "item_wf l i"
    using item_in_flight [OF inv cur] by auto
  obtain f where f: "frame_ok f" "wi_bytes i = frame_bytes f"
    using fl(2) by (auto simp: item_wf_def lane_frame_def)
  have wire: "wire w @ bs = concat (map snd (completed w)) @ take (wi_offset i + n) (wi_bytes i)"
    using inv fl(1) by (auto simp: fw_inv_def fw_wire_def bs take_take_drop)
  have sp: "strict_prefix (take (wi_offset i + n) (wi_bytes i)) (frame_bytes f)"
    using n strict_prefix_take f(2) by simp
  have "fw_shape (advance l i n bs w)"
    using inv cur n by (cases l)
      (auto simp: fw_inv_def fw_shape_def fw_views all_lanes advance_def set_current_def item_wf_def)
  moreover have "fw_counts (advance l i n bs w)"
    using inv cur n by (cases l)
      (auto simp: fw_inv_def fw_counts_def fw_views advance_def set_current_def remaining_def)
  moreover have "fw_wire (advance l i n bs w)"
  proof -
    have "inflight (advance l i n bs w) = take (wi_offset i + n) (wi_bytes i)"
      using cur by (cases l) (auto simp: fw_views advance_def set_current_def)
    moreover have "completed (advance l i n bs w) = completed w" "wire (advance l i n bs w) = wire w @ bs"
      by (cases l; simp add: advance_def set_current_def)+
    ultimately show ?thesis
      using inv wire sp f(1) by (auto simp: fw_inv_def fw_wire_def)
  qed
  moreover have "fw_fifo (advance l i n bs w)"
    using inv cur by (cases l)
      (auto simp: fw_inv_def fw_fifo_def fw_views all_lanes advance_def set_current_def)
  ultimately show ?thesis by (simp add: fw_inv_def)
qed

definition finish_item :: "lane \<Rightarrow> writer_item \<Rightarrow> nat \<Rightarrow> byte list \<Rightarrow> frame_writer \<Rightarrow> frame_writer" where
  "finish_item l i n bs w = (set_current l None (advance l i n bs w))
     \<lparr>pendingItems := pendingItems w - 1, completed := completed w @ [(wi_lane i, wi_bytes i)]\<rparr>"

lemma finish_inv:
  assumes inv: "fw_inv w" "\<not> failed w"
    and cur: "current l w = Some i" "\<forall>l'. l' \<noteq> l \<longrightarrow> current l' w = None"
    and n: "wi_offset i + n = length (wi_bytes i)"
    and bs: "bs = take n (drop (wi_offset i) (wi_bytes i))"
  shows "fw_inv (finish_item l i n bs w)"
proof -
  have fl: "inflight w = take (wi_offset i) (wi_bytes i)" "item_wf l i"
    using item_in_flight [OF inv cur] by auto
  have wire: "wire w @ bs = concat (map snd (completed w)) @ wi_bytes i"
    using inv fl(1) n by (auto simp: fw_inv_def fw_wire_def bs take_take_drop)
  let ?w = "finish_item l i n bs w"
  have "fw_shape ?w"
    using inv cur by (cases l)
      (auto simp: fw_inv_def fw_shape_def fw_views all_lanes finish_item_def advance_def set_current_def item_wf_def)
  moreover have "fw_counts ?w"
    using inv cur n by (cases l)
      (auto simp: fw_inv_def fw_counts_def fw_views finish_item_def advance_def set_current_def remaining_def)
  moreover have "fw_wire ?w"
  proof -
    have "inflight ?w = []"
      using cur by (cases l) (auto simp: fw_views finish_item_def advance_def set_current_def)
    moreover have "completed ?w = completed w @ [(l, wi_bytes i)]" "wire ?w = wire w @ bs"
      using fl(2) by (cases l; simp add: finish_item_def advance_def set_current_def item_wf_def)+
    ultimately show ?thesis
      using inv wire fl(2) by (auto simp: fw_inv_def fw_wire_def item_wf_def)
  qed
  moreover have "fw_fifo ?w"
    using inv cur fl(2) by (cases l)
      (auto simp: fw_inv_def fw_fifo_def fw_views all_lanes finish_item_def advance_def set_current_def
        of_lane_def item_wf_def)
  ultimately show ?thesis by (simp add: fw_inv_def)
qed

subsection \<open>One iteration, the loop, and its fuel\<close>

lemma work_advance:
  assumes "current l w = Some i" "wi_offset i + n \<le> length (wi_bytes i)"
  shows "fw_work (advance l i n bs w) + n = fw_work w"
  using assms by (cases l) (auto simp: fw_work_def fw_views advance_def set_current_def remaining_def)

lemma work_finish:
  assumes "current l w = Some i" "wi_offset i + n = length (wi_bytes i)"
  shows "fw_work (finish_item l i n bs w) < fw_work w"
  using assms by (cases l)
    (auto simp: fw_work_def fw_views finish_item_def advance_def set_current_def remaining_def)

lemma set_current_simps [simp]:
  "failed (set_current l i w) = failed w" "paused (set_current l i w) = paused w"
  "pumping (set_current l i w) = pumping w" "pendingItems (set_current l i w) = pendingItems w"
  "completed (set_current l i w) = completed w" "queuedBytes (set_current l i w) = queuedBytes w"
  "set_current l None (set_current l i w) = set_current l None w"
  by (cases l; simp add: set_current_def)+

lemma fw_inv_writes [simp]: "fw_inv (w\<lparr>writes := k\<rparr>) = fw_inv w"
  by (simp add: fw_inv_defs fw_views cong: lane.case_cong)

lemma fw_inv_paused: "\<not> failed w \<Longrightarrow> fw_inv (w\<lparr>paused := b, pumping := c\<rparr>) = fw_inv w"
  by (simp add: fw_inv_defs fw_views cong: lane.case_cong)

lemma fw_inv_pumping [simp]: "fw_inv (w\<lparr>pumping := b\<rparr>) = fw_inv w"
  by (simp add: fw_inv_defs fw_views cong: lane.case_cong)

lemma fw_inv_paused1: "\<not> failed w \<Longrightarrow> fw_inv (w\<lparr>paused := b\<rparr>) = fw_inv w"
  by (simp add: fw_inv_defs fw_views cong: lane.case_cong)

lemma fw_inv_waiters:
  "\<not> failed w \<Longrightarrow> fw_inv (w\<lparr>idleWaiters := ws, waiter_log := lg\<rparr>) = fw_inv w"
  by (simp add: fw_inv_defs fw_views cong: lane.case_cong)

lemma fw_work_writes [simp]: "fw_work (w\<lparr>writes := k\<rparr>) = fw_work w"
  by (simp add: fw_work_def fw_items_def)

lemma current_writes [simp]: "current l (w\<lparr>writes := k\<rparr>) = current l w"
  by (cases l) (simp_all add: current_def)

lemma write_count_bound: "write_count r unit = Inr n \<Longrightarrow> n \<le> length unit"
  by (auto simp: write_count_def split: write_result.splits if_splits)

lemma fw_iter_cases:
  assumes inv: "fw_inv w" "\<not> failed w" and it: "fw_iter env w = (st, w')"
  shows "case st of
      Continue \<Rightarrow> fw_inv w' \<and> \<not> failed w' \<and> fw_work w' < fw_work w
        \<and> paused w' = paused w \<and> pumping w' = pumping w
    | Drained \<Rightarrow> w' = w \<and> fw_items w = []
    | Stopped \<Rightarrow> fw_inv w' \<and> \<not> pumping w' \<and> (failed w' \<or> paused w')"
proof -
  obtain sel l w1 where sel: "fw_select w = (sel, l, w1)" by (metis surj_pair)
  show ?thesis
  proof (cases sel)
    case None
    then show ?thesis using it sel fw_select_none by (auto simp: fw_iter_def)
  next
    case (Some i)
    note cur = fw_select_current [OF inv sel [unfolded Some]]
    let ?endp = "min (length (wi_bytes i)) (wi_offset i + chunkSize w1)"
    let ?unit = "take (?endp - wi_offset i) (drop (wi_offset i) (wi_bytes i))"
    let ?w2 = "w1\<lparr>writes := Suc (writes w1)\<rparr>"
    have off: "wi_offset i < length (wi_bytes i)" and chunk: "1 \<le> chunkSize w1"
      using cur item_in_flight [of w1 l i] by (auto simp: item_wf_def fw_inv_def fw_shape_def)
    have unit: "1 \<le> length ?unit" "wi_offset i + length ?unit \<le> length (wi_bytes i)"
      using off chunk by auto
    show ?thesis
    proof (cases "write_count (env (writes w1) ?unit) ?unit")
      case (Inl e)
      then have "st = Stopped" "w' = fw_fail ?w2 e"
        using it sel Some by (simp_all add: fw_iter_def Let_def)
      then show ?thesis
        using fw_fail_inv [of ?w2 e] cur by (auto simp: fw_fail_def)
    next
      case (Inr n)
      have n: "n \<le> length ?unit" using Inr by (rule write_count_bound)
      have bs: "take n ?unit = take n (drop (wi_offset i) (wi_bytes i))"
      proof -
        have "n \<le> ?endp - wi_offset i" using n by simp
        then show ?thesis unfolding take_take by (simp only: min.absorb1)
      qed
      let ?adv = "advance l i n (take n ?unit) ?w2"
      have eq: "fw_iter env w =
        (if n < length ?unit then (Stopped, ?adv\<lparr>paused := True, pumping := False\<rparr>)
         else if wi_offset i + n \<ge> length (wi_bytes i)
           then (Continue, finish_item l i n (take n ?unit) ?w2)
         else (Continue, ?adv))"
        using sel Some Inr by (simp add: fw_iter_def Let_def advance_def finish_item_def)
      have cur2: "fw_inv ?w2" "\<not> failed ?w2" "current l ?w2 = Some i"
        "\<forall>l'. l' \<noteq> l \<longrightarrow> current l' ?w2 = None"
        using cur by simp_all
      have advf: "\<not> failed ?adv" "paused ?adv = paused w" "pumping ?adv = pumping w"
        using cur by (simp_all add: advance_def)
      show ?thesis
      proof (cases "wi_offset i + n < length (wi_bytes i)")
        case True
        have "fw_inv ?adv"
          by (rule advance_inv [OF cur2 True bs])
        moreover have "fw_work ?adv + n = fw_work w"
          using work_advance [OF cur2(3), of n] True cur by simp
        ultimately show ?thesis
          using eq it True advf unit(1) n by (auto simp: fw_inv_paused1 split: if_splits)
      next
        case False
        then have full: "wi_offset i + n = length (wi_bytes i)" "n = length ?unit"
          using n unit(2) by linarith+
        have "fw_inv (finish_item l i n (take n ?unit) ?w2)"
          by (rule finish_inv [OF cur2 full(1) bs])
        then show ?thesis
          using eq it full work_finish [OF cur2(3) full(1)] advf cur
          by (auto simp: finish_item_def split: if_splits)
      qed
    qed
  qed
qed

text \<open>
  The state between two operations: nothing is being pumped, and if the writer is neither paused nor
  failed then there is nothing left to write.
\<close>

definition fw_idle :: "frame_writer \<Rightarrow> bool" where
  "fw_idle w \<longleftrightarrow> fw_inv w \<and> \<not> pumping w \<and> (failed w \<or> paused w \<or> (fw_items w = [] \<and> idleWaiters w = []))"

lemma fw_idle_inv: "fw_idle w \<Longrightarrow> fw_inv w"
  by (simp add: fw_idle_def)

lemma fw_inv_resolve_idle:
  "fw_inv w \<Longrightarrow> \<not> failed w \<Longrightarrow> fw_items w = [] \<Longrightarrow> fw_idle (fw_resolve_idle (w\<lparr>pumping := False\<rparr>))"
proof -
  assume a: "fw_inv w" "\<not> failed w" "fw_items w = []"
  then have "pendingItems (w\<lparr>pumping := False\<rparr>) = 0"
    by (simp add: fw_inv_def fw_counts_def)
  then show ?thesis
    using a fw_inv_waiters [of "w\<lparr>pumping := False\<rparr>"]
    by (simp add: fw_idle_def fw_resolve_idle_def fw_items_def)
qed

lemma pump_loop_returns:
  "fw_inv w \<Longrightarrow> \<not> failed w \<Longrightarrow> fw_work w < fuel \<Longrightarrow>
   \<exists>w'. fw_pump_loop fuel env w = Some w' \<and> fw_idle w'"
proof (induction fuel arbitrary: w)
  case 0
  then show ?case by simp
next
  case (Suc fuel)
  obtain st w1 where it: "fw_iter env w = (st, w1)" by fastforce
  note cs = fw_iter_cases [OF Suc.prems(1,2) it]
  show ?case
  proof (cases st)
    case Continue
    then show ?thesis using Suc.IH [of w1] Suc.prems cs it by auto
  next
    case Drained
    then show ?thesis using cs it Suc.prems fw_inv_resolve_idle by auto
  next
    case Stopped
    then show ?thesis using cs it by (auto simp: fw_idle_def)
  qed
qed

lemma schedule_returns:
  assumes "fw_inv w" "\<not> pumping w"
  shows "\<exists>w'. fw_schedule env w = Some w' \<and> (failed w \<or> paused w \<or> fw_idle w')
    \<and> (failed w \<or> paused w \<longrightarrow> w' = w)"
proof (cases "failed w \<or> paused w")
  case True
  then show ?thesis by (auto simp: fw_schedule_def)
next
  case False
  then have "fw_inv (w\<lparr>pumping := True\<rparr>)"
    using assms(1) by simp
  moreover have "fw_work (w\<lparr>pumping := True\<rparr>) = fw_work w"
    by (simp add: fw_work_def fw_items_def)
  ultimately show ?thesis
    using pump_loop_returns [of "w\<lparr>pumping := True\<rparr>" "fw_fuel w" env] False assms(2)
    by (auto simp: fw_schedule_def fw_fuel_def)
qed

end
