(* ===== verification/Frame_Link.thy ===== *)
theory Frame_Link
  imports Frame_Writer
begin

text \<open>
  Every operation of \<open>FrameWriter\<close> between two events of the socket, as one step of a state
  machine, and the writer composed with \<open>FrameDecoder\<close> over the bytes on the wire.
\<close>

subsection \<open>The operations as steps\<close>

datatype writer_op = Enqueue lane "byte list" | Drain | Resume | Close writer_error

definition fw_apply :: "write_env \<Rightarrow> frame_writer \<Rightarrow> writer_op \<Rightarrow> frame_writer option" where
  "fw_apply env w op =
     (case op of
        Enqueue l bs \<Rightarrow> map_option snd
          (case l of Ctrl \<Rightarrow> fw_enqueue_ctrl env w bs | Mcp \<Rightarrow> fw_enqueue_mcp env w bs)
      | Drain \<Rightarrow> Some (snd (fw_drain w))
      | Resume \<Rightarrow> fw_resume env w
      | Close e \<Rightarrow> Some (fw_close w e))"

definition fw_step :: "write_env \<Rightarrow> frame_writer option \<Rightarrow> writer_op \<Rightarrow> frame_writer option" where
  "fw_step env s op = Option.bind s (\<lambda>w. fw_apply env w op)"

definition fw_good :: "frame_writer option \<Rightarrow> bool" where
  "fw_good s \<longleftrightarrow> (\<exists>w. s = Some w \<and> fw_idle w)"

subsection \<open>The limits of the queue\<close>

definition fw_within :: "frame_writer \<Rightarrow> bool" where
  "fw_within w \<longleftrightarrow> pendingItems w \<le> int (highWater w)
     \<and> (\<forall>m. maxBytes w = Some m \<longrightarrow> queuedBytes w \<le> int m)"

definition same_limits :: "frame_writer \<Rightarrow> frame_writer \<Rightarrow> bool" where
  "same_limits w w' \<longleftrightarrow> highWater w' = highWater w \<and> maxBytes w' = maxBytes w"

lemma same_limits_refl [simp]: "same_limits w w"
  by (simp add: same_limits_def)

lemma same_limits_trans: "same_limits a b \<Longrightarrow> same_limits b c \<Longrightarrow> same_limits a c"
  by (simp add: same_limits_def)

lemma fw_select_limits:
  "fw_select w = (x, l, w1) \<Longrightarrow> same_limits w w1 \<and> pendingItems w1 = pendingItems w
     \<and> queuedBytes w1 = queuedBytes w"
  by (auto simp: fw_select_def same_limits_def split: option.splits list.splits)

lemma set_current_limits [simp]:
  "highWater (set_current l i w) = highWater w" "maxBytes (set_current l i w) = maxBytes w"
  by (cases l; simp add: set_current_def)+

lemma within_decrease:
  "fw_within w \<Longrightarrow> same_limits w w' \<Longrightarrow> pendingItems w' \<le> pendingItems w \<Longrightarrow>
   queuedBytes w' \<le> queuedBytes w \<Longrightarrow> fw_within w'"
  by (force simp: fw_within_def same_limits_def)

lemma fw_fail_within: "fw_within (fw_fail w e) \<and> same_limits w (fw_fail w e)"
  by (simp add: fw_fail_def fw_within_def same_limits_def)

lemma fw_iter_within:
  assumes "fw_within w" "fw_iter env w = (st, w')"
  shows "fw_within w' \<and> same_limits w w'"
proof -
  obtain x l w1 where sel: "fw_select w = (x, l, w1)" by (metis surj_pair)
  note lim = fw_select_limits [OF sel]
  show ?thesis
  proof (cases x)
    case None
    then show ?thesis
      using assms sel lim within_decrease [of w w1] by (simp add: fw_iter_def)
  next
    case (Some i)
    show ?thesis
      using assms Some sel lim
      by (auto simp: fw_iter_def Let_def same_limits_def fw_within_def fw_fail_def
          split: sum.splits if_splits)
  qed
qed

lemma pump_loop_within:
  "fw_within w \<Longrightarrow> fw_pump_loop fuel env w = Some w' \<Longrightarrow> fw_within w' \<and> same_limits w w'"
proof (induction fuel arbitrary: w)
  case 0
  then show ?case by simp
next
  case (Suc fuel)
  obtain st w1 where it: "fw_iter env w = (st, w1)" by fastforce
  note w1 = fw_iter_within [OF Suc.prems(1) it]
  show ?case
  proof (cases st)
    case Continue
    then have "fw_within w' \<and> same_limits w1 w'"
      using Suc.IH [of w1] Suc.prems w1 it by auto
    then show ?thesis using w1 same_limits_trans by blast
  qed (use Suc.prems w1 it in
      \<open>auto simp: fw_resolve_idle_def fw_within_def same_limits_def split: if_splits\<close>)
qed

lemma schedule_within:
  assumes "fw_within w" "fw_schedule env w = Some w'"
  shows "fw_within w' \<and> same_limits w w'"
proof (cases "pumping w \<or> failed w \<or> paused w")
  case True
  then show ?thesis using assms by (simp add: fw_schedule_def)
next
  case False
  have "fw_within (w\<lparr>pumping := True\<rparr>)" using assms(1) by (simp add: fw_within_def)
  with False assms(2) have "fw_within w' \<and> same_limits (w\<lparr>pumping := True\<rparr>) w'"
    using pump_loop_within [of "w\<lparr>pumping := True\<rparr>"] by (simp add: fw_schedule_def)
  then show ?thesis by (simp add: same_limits_def)
qed

subsection \<open>Every operation returns and keeps the invariant\<close>

definition enqueued_state :: "frame_writer \<Rightarrow> lane \<Rightarrow> byte list \<Rightarrow> frame_writer" where
  "enqueued_state w l bs = (let item = \<lparr>wi_lane = l, wi_bytes = bs, wi_offset = 0\<rparr>;
      w1 = (case l of Ctrl \<Rightarrow> w\<lparr>ctrlQueue := ctrlQueue w @ [item]\<rparr> | Mcp \<Rightarrow> w\<lparr>mcpQueue := mcpQueue w @ [item]\<rparr>)
    in w1\<lparr>pendingItems := pendingItems w1 + 1, queuedBytes := queuedBytes w1 + int (length bs),
         taken := taken w1 @ [(l, bs)]\<rparr>)"

lemma enqueued_state_inv:
  assumes "fw_inv w" "\<not> failed w" "lane_frame l bs"
  shows "fw_inv (enqueued_state w l bs)"
proof -
  obtain f where "bs = frame_bytes f" using assms(3) by (auto simp: lane_frame_def)
  then have "0 < length bs" by (simp add: length_frame_bytes)
  then show ?thesis
    using assms by (cases l)
      (auto simp: enqueued_state_def fw_inv_defs fw_views all_lanes item_wf_def of_lane_def remaining_def
        split: option.splits)
qed

lemma enqueued_state_simps [simp]:
  "failed (enqueued_state w l bs) = failed w" "paused (enqueued_state w l bs) = paused w"
  "pumping (enqueued_state w l bs) = pumping w" "highWater (enqueued_state w l bs) = highWater w"
  "maxBytes (enqueued_state w l bs) = maxBytes w"
  "pendingItems (enqueued_state w l bs) = pendingItems w + 1"
  "queuedBytes (enqueued_state w l bs) = queuedBytes w + int (length bs)"
  "taken (enqueued_state w l bs) = taken w @ [(l, bs)]"
  "idleWaiters (enqueued_state w l bs) = idleWaiters w"
  "nextWaiter (enqueued_state w l bs) = nextWaiter w"
  "waiter_log (enqueued_state w l bs) = waiter_log w"
  by (cases l; simp add: enqueued_state_def Let_def)+

definition fw_overflows :: "frame_writer \<Rightarrow> byte list \<Rightarrow> bool" where
  "fw_overflows w bs \<longleftrightarrow> pendingItems w \<ge> int (highWater w)
     \<or> (case maxBytes w of None \<Rightarrow> False | Some m \<Rightarrow> queuedBytes w + int (length bs) > int m)"

lemma fw_enqueue_eq:
  "fw_enqueue env w l p =
     (if failed w then Some (Inl (the (failure w)), w)
      else case encode_frame (type_byte (lane_type l)) p of
          Inl e \<Rightarrow> Some (Inl (EncodeFailed e), w)
        | Inr bs \<Rightarrow> if fw_overflows w bs
            then Some (Inr (), fw_fail (w\<lparr>overflows := Suc (overflows w)\<rparr>) FrameWriterOverflow)
            else map_option (Pair (Inr ())) (fw_schedule env (enqueued_state w l bs)))"
  unfolding fw_enqueue_def fw_overflows_def enqueued_state_def Let_def by (rule refl)

lemma encode_lane_frame:
  "encode_frame (type_byte (lane_type l)) p = Inr bs \<Longrightarrow> lane_frame l bs"
  by (auto simp: encode_frame_bytes lane_frame_def intro!: exI [of _ "\<lparr>fr_type = lane_type l, fr_payload = p\<rparr>"])

lemma fail_overflows_idle:
  "fw_inv w \<Longrightarrow> \<not> failed w \<Longrightarrow> fw_idle (fw_fail (w\<lparr>overflows := k\<rparr>) e)"
proof -
  assume a: "fw_inv w" "\<not> failed w"
  have "fw_inv (w\<lparr>overflows := k\<rparr>)"
    using a(1) by (simp add: fw_inv_defs fw_views cong: lane.case_cong)
  with a(2) have "fw_inv (fw_fail (w\<lparr>overflows := k\<rparr>) e)"
    using fw_fail_inv by simp
  then show ?thesis by (simp add: fw_idle_def fw_fail_def)
qed

lemma schedule_idle:
  assumes "fw_inv w" "\<not> pumping w"
  shows "\<exists>w'. fw_schedule env w = Some w' \<and> fw_idle w'"
  using schedule_returns [OF assms, of env] assms by (auto simp: fw_idle_def)

lemma fw_enqueue_returns:
  assumes "fw_idle w"
  shows "\<exists>r w'. fw_enqueue env w l p = Some (r, w') \<and> fw_idle w'"
proof (cases "failed w")
  case True
  then show ?thesis using assms by (simp add: fw_enqueue_eq)
next
  case False
  have w: "fw_inv w" "\<not> pumping w" using assms by (simp_all add: fw_idle_def)
  show ?thesis
  proof (cases "encode_frame (type_byte (lane_type l)) p")
    case (Inl e)
    then show ?thesis using assms False by (simp add: fw_enqueue_eq)
  next
    case (Inr bs)
    have "fw_inv (enqueued_state w l bs)"
      using enqueued_state_inv w(1) False encode_lane_frame [OF Inr] by blast
    then obtain w' where "fw_schedule env (enqueued_state w l bs) = Some w'" "fw_idle w'"
      using schedule_idle w(2) by fastforce
    then show ?thesis
      using fail_overflows_idle [OF w(1) False] False Inr by (simp add: fw_enqueue_eq)
  qed
qed

lemma fw_resume_returns:
  assumes "fw_idle w"
  shows "\<exists>w'. fw_resume env w = Some w' \<and> fw_idle w'"
proof (cases "paused w \<and> \<not> failed w")
  case True
  then have "fw_inv (w\<lparr>paused := False\<rparr>)" using assms by (simp add: fw_idle_def fw_inv_paused1)
  then show ?thesis
    using schedule_idle [of "w\<lparr>paused := False\<rparr>" env] True assms
    by (simp add: fw_resume_def fw_idle_def)
qed (use assms in \<open>auto simp: fw_resume_def\<close>)

lemma fw_inv_new_waiter:
  "\<not> failed w \<Longrightarrow> fw_inv (w\<lparr>idleWaiters := ws, nextWaiter := k\<rparr>) = fw_inv w"
  by (simp add: fw_inv_defs fw_views cong: lane.case_cong)

lemma fw_drain_idle: "fw_idle w \<Longrightarrow> fw_idle (snd (fw_drain w))"
proof (cases "\<not> failed w \<and> paused w")
  case True
  moreover assume "fw_idle w"
  ultimately show ?thesis
    by (simp add: fw_drain_def fw_idle_def fw_inv_new_waiter)
next
  case False
  moreover assume "fw_idle w"
  moreover from this have "failed w \<or> pendingItems w = 0 \<or> paused w"
    by (auto simp: fw_idle_def fw_inv_def fw_counts_def)
  ultimately show ?thesis by (auto simp: fw_drain_def fw_idle_def)
qed

lemma fw_close_idle: "fw_idle w \<Longrightarrow> fw_idle (fw_close w e)"
  using fail_overflows_idle [of w "overflows w" e] by (auto simp: fw_close_def fw_idle_def)

lemma fw_step_good: "fw_good s \<Longrightarrow> fw_good (fw_step env s op)"
proof -
  assume "fw_good s"
  then obtain w where w: "s = Some w" "fw_idle w" by (auto simp: fw_good_def)
  show ?thesis
  proof (cases op)
    case (Enqueue l p)
    then show ?thesis
      using fw_enqueue_returns [OF w(2), of env l p] w(1)
      by (auto simp: fw_step_def fw_apply_def fw_good_def fw_enqueue_ctrl_def fw_enqueue_mcp_def split: lane.split)
  next
    case Resume
    then show ?thesis
      using fw_resume_returns [OF w(2), of env] w(1)
      by (auto simp: fw_step_def fw_apply_def fw_good_def)
  qed (use w fw_drain_idle fw_close_idle in \<open>auto simp: fw_step_def fw_apply_def fw_good_def\<close>)
qed

interpretation writer: step_invariant "fw_step env" fw_good for env
  by unfold_locales (rule fw_step_good)

subsection \<open>What a run leaves on the wire\<close>

definition fw_hist :: "frame_writer \<Rightarrow> (lane \<times> byte list) list \<times> nat list \<times> nat" where
  "fw_hist w = (taken w, map fst (waiter_log w) @ idleWaiters w, nextWaiter w)"

lemma fw_hist_fail [simp]: "fw_hist (fw_fail w e) = fw_hist w"
  by (simp add: fw_hist_def fw_fail_def o_def)

lemma fw_select_hist: "fw_select w = (x, l, w1) \<Longrightarrow> fw_hist w1 = fw_hist w \<and> failed w1 = failed w"
  by (auto simp: fw_select_def fw_hist_def split: option.splits list.splits)

lemma set_current_hist [simp]:
  "taken (set_current l i w) = taken w" "waiter_log (set_current l i w) = waiter_log w"
  "idleWaiters (set_current l i w) = idleWaiters w" "nextWaiter (set_current l i w) = nextWaiter w"
  by (cases l; simp add: set_current_def)+

lemma fw_iter_hist: "fw_iter env w = (st, w') \<Longrightarrow> fw_hist w' = fw_hist w \<and> (failed w \<longrightarrow> failed w')"
proof -
  assume it: "fw_iter env w = (st, w')"
  obtain x l w1 where sel: "fw_select w = (x, l, w1)" by (metis surj_pair)
  show ?thesis
    using it sel fw_select_hist [OF sel]
    by (cases x) (auto simp: fw_iter_def Let_def fw_hist_def fw_fail_def o_def split: sum.splits if_splits)
qed

lemma pump_loop_hist:
  "fw_pump_loop fuel env w = Some w' \<Longrightarrow> fw_hist w' = fw_hist w \<and> (failed w \<longrightarrow> failed w')"
proof (induction fuel arbitrary: w)
  case 0
  then show ?case by simp
next
  case (Suc fuel)
  obtain st w1 where it: "fw_iter env w = (st, w1)" by fastforce
  note w1 = fw_iter_hist [OF it]
  show ?case
  proof (cases st)
    case Continue
    then show ?thesis using Suc.IH [of w1] Suc.prems w1 it by simp
  qed (use Suc.prems w1 it in \<open>auto simp: fw_resolve_idle_def fw_hist_def o_def split: if_splits\<close>)
qed

lemma schedule_hist:
  "fw_schedule env w = Some w' \<Longrightarrow> fw_hist w' = fw_hist w \<and> (failed w \<longrightarrow> failed w')"
  using pump_loop_hist [of "fw_fuel w" env "w\<lparr>pumping := True\<rparr>" w']
  by (auto simp: fw_schedule_def fw_hist_def split: if_splits)

text \<open>The frames a caller submits: the arguments of \<open>enqueueCtrl\<close>/\<open>enqueueMcp\<close> that encode.\<close>

definition op_frames :: "writer_op \<Rightarrow> decoded_frame list" where
  "op_frames op = (case op of
      Enqueue l p \<Rightarrow> (if frame_ok \<lparr>fr_type = lane_type l, fr_payload = p\<rparr>
        then [\<lparr>fr_type = lane_type l, fr_payload = p\<rparr>] else [])
    | _ \<Rightarrow> [])"

definition on_lane :: "lane \<Rightarrow> decoded_frame list \<Rightarrow> decoded_frame list" where
  "on_lane l fs = filter (\<lambda>f. fr_type f = lane_type l) fs"

definition submitted :: "lane \<Rightarrow> writer_op list \<Rightarrow> decoded_frame list" where
  "submitted l ops = on_lane l (concat (map op_frames ops))"

lemma lane_type_inj [simp]: "lane_type a = lane_type b \<longleftrightarrow> a = b"
  by (cases a; cases b) (simp_all add: lane_type_def)

lemma fw_apply_taken:
  assumes "fw_apply env w op = Some w'"
  shows "(failed w \<longrightarrow> failed w') \<and>
    ((\<forall>l. of_lane l (taken w') = of_lane l (taken w) @ map frame_bytes (on_lane l (op_frames op)))
        \<and> \<not> failed w
     \<or> failed w' \<and> (\<forall>l. of_lane l (taken w') = of_lane l (taken w)))"
proof (cases op)
  case (Enqueue l p)
  then have enq: "map_option snd (fw_enqueue env w l p) = Some w'"
    using assms by (cases l) (simp_all add: fw_apply_def fw_enqueue_ctrl_def fw_enqueue_mcp_def)
  show ?thesis
  proof (cases "encode_frame (type_byte (lane_type l)) p")
    case (Inl e)
    then have "\<not> frame_ok \<lparr>fr_type = lane_type l, fr_payload = p\<rparr>"
      using encode_frame_bytes [of "lane_type l" p "frame_bytes \<lparr>fr_type = lane_type l, fr_payload = p\<rparr>"]
      by simp
    then show ?thesis
      using enq Enqueue Inl by (auto simp: fw_enqueue_eq op_frames_def on_lane_def split: if_splits)
  next
    case (Inr bs)
    have "fw_schedule env (enqueued_state w l bs) = Some w' \<Longrightarrow>
        taken w' = taken w @ [(l, bs)] \<and> (failed w \<longrightarrow> failed w')"
      using schedule_hist [of env "enqueued_state w l bs" w'] by (simp add: fw_hist_def)
    moreover have "frame_ok \<lparr>fr_type = lane_type l, fr_payload = p\<rparr>
        \<and> bs = frame_bytes \<lparr>fr_type = lane_type l, fr_payload = p\<rparr>"
      using Inr encode_frame_bytes by blast
    moreover have "fw_enqueue env w l p =
       (if failed w then Some (Inl (the (failure w)), w)
        else if fw_overflows w bs
          then Some (Inr (), fw_fail (w\<lparr>overflows := Suc (overflows w)\<rparr>) FrameWriterOverflow)
        else map_option (Pair (Inr ())) (fw_schedule env (enqueued_state w l bs)))"
      using Inr by (simp add: fw_enqueue_eq)
    ultimately show ?thesis
      using enq Enqueue
      by (auto simp: op_frames_def on_lane_def of_lane_def fw_fail_def split: if_splits)
  qed
next
  case Resume
  then show ?thesis
    using assms schedule_hist [of env "w\<lparr>paused := False\<rparr>" w']
    by (auto simp: fw_apply_def fw_resume_def op_frames_def on_lane_def fw_hist_def split: if_splits)
qed (use assms in \<open>auto simp: fw_apply_def fw_drain_def fw_close_def fw_fail_def op_frames_def on_lane_def
      split: if_splits\<close>)

definition fw_linked :: "writer_op list \<Rightarrow> frame_writer \<Rightarrow> bool" where
  "fw_linked ops w \<longleftrightarrow> (\<forall>l.
     prefix (of_lane l (taken w)) (map frame_bytes (submitted l ops))
     \<and> (\<not> failed w \<longrightarrow> of_lane l (taken w) = map frame_bytes (submitted l ops)))"

lemma fw_linked_apply:
  assumes "fw_linked ops w" "fw_apply env w op = Some w'"
  shows "fw_linked (ops @ [op]) w'"
proof -
  have sub: "submitted l (ops @ [op]) = submitted l ops @ on_lane l (op_frames op)" for l
    by (simp add: submitted_def on_lane_def)
  have pre: "prefix (of_lane l (taken w)) (map frame_bytes (submitted l (ops @ [op])))" for l
    using assms(1) sub by (simp add: fw_linked_def prefix_prefix)
  show ?thesis
    using fw_apply_taken [OF assms(2)] pre assms(1) sub by (auto simp: fw_linked_def)
qed

lemma fw_step_Some: "fw_step env s op = Some w \<longleftrightarrow> (\<exists>v. s = Some v \<and> fw_apply env v op = Some w)"
  by (auto simp: fw_step_def bind_eq_Some_conv)

lemma fw_run_linked:
  assumes "fw_new hw chunk mb = Inr w0" "run (fw_step env) (Some w0) ops = Some w"
  shows "fw_linked ops w"
  using assms(2)
proof (induction ops arbitrary: w rule: rev_induct)
  case Nil
  then show ?case
    using assms(1) by (auto simp: fw_new_def Let_def fw_linked_def submitted_def on_lane_def of_lane_def
        split: if_splits)
next
  case (snoc op ops)
  then obtain v where v: "run (fw_step env) (Some w0) ops = Some v" "fw_apply env v op = Some w"
    by (auto simp: run_append fw_step_Some)
  then show ?case using snoc.IH fw_linked_apply by blast
qed

lemma fw_run_good:
  assumes "fw_new hw chunk mb = Inr w0"
  shows "fw_good (run (fw_step env) (Some w0) ops)"
proof -
  have "fw_idle w0"
    using fw_new_inv [OF assms] assms
    by (auto simp: fw_idle_def fw_new_def Let_def fw_items_def split: if_splits)
  then show ?thesis by (intro writer.run_inv) (simp add: fw_good_def)
qed

lemma lane_frame_type: "lane_frame l bs \<Longrightarrow> \<exists>f. fr_type f = lane_type l \<and> frame_ok f \<and> bs = frame_bytes f"
  by (simp add: lane_frame_def)

lemma completed_frames:
  assumes "\<forall>(l, bs) \<in> set cs. lane_frame l bs"
  shows "\<exists>fs. list_all frame_ok fs \<and> map frame_bytes fs = map snd cs
    \<and> (\<forall>l. map frame_bytes (on_lane l fs) = of_lane l cs)"
  using assms
proof (induction cs)
  case Nil
  then show ?case by (auto simp: on_lane_def of_lane_def)
next
  case (Cons c cs)
  then obtain fs where fs: "list_all frame_ok fs" "map frame_bytes fs = map snd cs"
    "\<forall>l. map frame_bytes (on_lane l fs) = of_lane l cs" by auto
  obtain f where "fr_type f = lane_type (fst c)" "frame_ok f" "snd c = frame_bytes f"
    using Cons.prems lane_frame_type by (cases c) fastforce
  then show ?case
    using fs by (intro exI [of _ "f # fs"]) (auto simp: on_lane_def of_lane_def)
qed

lemma frames_prefix:
  assumes "list_all frame_ok fs" "list_all frame_ok gs" "prefix (map frame_bytes fs) (map frame_bytes gs)"
  shows "prefix fs gs"
proof -
  obtain zs where "map frame_bytes gs = map frame_bytes fs @ zs"
    using assms(3) by (rule prefixE)
  then have "map frame_bytes (take (length fs) gs) = map frame_bytes fs"
    by (simp add: take_map [symmetric])
  moreover have "list_all frame_ok (take (length fs) gs)"
    using assms(2) by (auto simp: list_all_iff dest: in_set_takeD)
  ultimately have "decode_bytes (concat (map frame_bytes fs)) = Inr (take (length fs) gs, [])"
    by (metis frames.dec_stream_all)
  then have "fs = take (length fs) gs"
    using frames.dec_stream_all [OF assms(1)] by (simp del: decode_bytes.simps)
  then show ?thesis using take_is_prefix [of "length fs" gs] by simp
qed

lemma op_frames_ok: "f \<in> set (op_frames op) \<Longrightarrow> frame_ok f"
  by (cases op) (simp_all add: op_frames_def split: if_splits)

lemma submitted_ok: "list_all frame_ok (submitted l ops)"
  using op_frames_ok unfolding submitted_def on_lane_def list_all_iff by fastforce

lemma fw_wire_decodes:
  assumes "fw_inv w"
  shows "\<exists>fs r. decode_bytes (wire w) = Inr (fs, r) \<and> list_all frame_ok fs
    \<and> (\<forall>l. map frame_bytes (on_lane l fs) = of_lane l (completed w))"
proof -
  obtain p where p: "wire w = concat (map snd (completed w)) @ p"
    "p = [] \<or> (\<exists>f. frame_ok f \<and> strict_prefix p (frame_bytes f))"
    using assms by (auto simp: fw_inv_def fw_wire_def)
  obtain fs where fs: "list_all frame_ok fs" "map frame_bytes fs = map snd (completed w)"
    "\<forall>l. map frame_bytes (on_lane l fs) = of_lane l (completed w)"
    using assms completed_frames [of "completed w"] by (auto simp: fw_inv_def fw_wire_def)
  have "decode_bytes (wire w) = Inr (fs, p)"
    using p fs(1) frames.dec_stream_all [OF fs(1)] frames.dec_stream_partial [OF fs(1)]
    unfolding p(1) fs(2) [symmetric] by auto
  then show ?thesis using fs by blast
qed

lemma fw_waiters_apply:
  assumes "fw_apply env w op = Some w'" "map fst (waiter_log w) @ idleWaiters w = [0..<nextWaiter w]"
  shows "map fst (waiter_log w') @ idleWaiters w' = [0..<nextWaiter w']"
proof (cases op)
  case (Enqueue l p)
  then have enq: "map_option snd (fw_enqueue env w l p) = Some w'"
    using assms by (cases l) (simp_all add: fw_apply_def fw_enqueue_ctrl_def fw_enqueue_mcp_def)
  have "fw_schedule env (enqueued_state w l bs) = Some w' \<Longrightarrow> ?thesis" for bs
    using schedule_hist [of env "enqueued_state w l bs" w'] assms(2) by (simp add: fw_hist_def)
  then show ?thesis
    using enq assms(2) by (auto simp: fw_enqueue_eq fw_fail_def o_def split: if_splits sum.splits)
next
  case Resume
  then show ?thesis
    using assms schedule_hist [of env "w\<lparr>paused := False\<rparr>" w']
    by (auto simp: fw_apply_def fw_resume_def fw_hist_def split: if_splits)
next
  case Drain
  then show ?thesis
    using assms by (auto simp: fw_apply_def fw_drain_def simp flip: append_assoc split: if_splits)
next
  case (Close e)
  then show ?thesis
    using assms by (auto simp: fw_apply_def fw_close_def fw_fail_def o_def split: if_splits)
qed

lemma fw_run_waiters:
  assumes "fw_new hw chunk mb = Inr w0" "run (fw_step env) (Some w0) ops = Some w"
  shows "map fst (waiter_log w) @ idleWaiters w = [0..<nextWaiter w]"
  using assms(2)
proof (induction ops arbitrary: w rule: rev_induct)
  case Nil
  then show ?case using assms(1) by (auto simp: fw_new_def Let_def split: if_splits)
next
  case (snoc op ops)
  then obtain v where "run (fw_step env) (Some w0) ops = Some v" "fw_apply env v op = Some w"
    by (auto simp: run_append fw_step_Some)
  then show ?case using snoc.IH fw_waiters_apply by blast
qed

lemma fw_apply_within:
  assumes "fw_within w" "fw_apply env w op = Some w'"
  shows "fw_within w' \<and> same_limits w w'"
proof (cases op)
  case (Enqueue l p)
  then have enq: "map_option snd (fw_enqueue env w l p) = Some w'"
    using assms by (cases l) (simp_all add: fw_apply_def fw_enqueue_ctrl_def fw_enqueue_mcp_def)
  have "fw_within w' \<and> same_limits w w'"
    if "\<not> fw_overflows w bs" "fw_schedule env (enqueued_state w l bs) = Some w'" for bs
  proof -
    have "fw_within (enqueued_state w l bs)"
      using that(1) by (auto simp: fw_within_def fw_overflows_def)
    then show ?thesis using schedule_within [OF _ that(2)] by (simp add: same_limits_def)
  qed
  moreover have "fw_within (fw_fail (w\<lparr>overflows := k\<rparr>) e) \<and> same_limits w (fw_fail (w\<lparr>overflows := k\<rparr>) e)"
    for k e by (simp add: fw_fail_def fw_within_def same_limits_def)
  ultimately show ?thesis
    using enq assms(1) by (auto simp: fw_enqueue_eq split: if_splits sum.splits)
next
  case Resume
  have "fw_within (w\<lparr>paused := False\<rparr>)" using assms(1) by (simp add: fw_within_def)
  then show ?thesis
    using Resume assms schedule_within [of "w\<lparr>paused := False\<rparr>" env w']
    by (auto simp: fw_apply_def fw_resume_def same_limits_def split: if_splits)
next
  case Drain
  then show ?thesis
    using assms by (auto simp: fw_apply_def fw_drain_def fw_within_def same_limits_def split: if_splits)
next
  case (Close e)
  then show ?thesis
    using assms fw_fail_within [of w e] by (auto simp: fw_apply_def fw_close_def split: if_splits)
qed

lemma fw_run_within:
  assumes "fw_within w0" "run (fw_step env) (Some w0) ops = Some w"
  shows "fw_within w \<and> same_limits w0 w"
  using assms(2)
proof (induction ops arbitrary: w rule: rev_induct)
  case Nil
  then show ?case using assms(1) by simp
next
  case (snoc op ops)
  then obtain v where "run (fw_step env) (Some w0) ops = Some v" "fw_apply env v op = Some w"
    by (auto simp: run_append fw_step_Some)
  then show ?case using snoc.IH fw_apply_within same_limits_trans by blast
qed

subsection \<open>Properties\<close>

text \<open>
  C1. The writer's contract, end to end: whatever the socket does (short writes, errors, pauses) and
  however the operations are ordered, every operation returns, and the bytes accepted by the socket,
  cut into chunks in any way, decode at the peer without a protocol error. On each lane the peer
  sees a prefix of the frames submitted on that lane, in order; when the writer is neither failed
  nor paused it sees all of them.
\<close>

theorem writer_delivers_in_order:
  assumes "fw_new hw chunk mb = Inr w0"
  shows "\<exists>w. run (fw_step env) (Some w0) ops = Some w \<and> \<not> pumping w
    \<and> (\<forall>cs. concat cs = wire w \<longrightarrow> (\<exists>fs. fst (fd_feed fd_new cs) = Inr fs
        \<and> (\<forall>l. prefix (on_lane l fs) (submitted l ops)
            \<and> (\<not> failed w \<and> \<not> paused w \<longrightarrow> on_lane l fs = submitted l ops))))"
proof -
  obtain w where w: "run (fw_step env) (Some w0) ops = Some w" "fw_idle w"
    using fw_run_good [OF assms, of env ops] by (auto simp: fw_good_def)
  then have inv: "fw_inv w" by (simp add: fw_idle_def)
  obtain fs r where fs: "decode_bytes (wire w) = Inr (fs, r)" "list_all frame_ok fs"
    "\<And>l. map frame_bytes (on_lane l fs) = of_lane l (completed w)"
    using fw_wire_decodes [OF inv] by blast
  note link = fw_run_linked [OF assms w(1)]
  have ok: "list_all frame_ok (on_lane l fs)" for l
    using fs(2) by (auto simp: on_lane_def list_all_iff)
  have pre: "prefix (on_lane l fs) (submitted l ops)" for l
  proof (rule frames_prefix [OF ok submitted_ok])
    have "prefix (of_lane l (completed w)) (of_lane l (taken w))"
      using inv by (cases "failed w") (simp_all add: fw_inv_def fw_fifo_def)
    then show "prefix (map frame_bytes (on_lane l fs)) (map frame_bytes (submitted l ops))"
      using link fs(3) prefix_order.trans unfolding fw_linked_def by metis
  qed
  have eq: "on_lane l fs = submitted l ops" if "\<not> failed w" "\<not> paused w" for l
  proof -
    have "lane_items l w = []"
      using w(2) that by (cases l) (auto simp: fw_idle_def fw_views split: option.splits)
    then have "of_lane l (taken w) = of_lane l (completed w)"
      using inv that(1) by (simp add: fw_inv_def fw_fifo_def)
    moreover have "of_lane l (taken w) = map frame_bytes (submitted l ops)"
      using link that(1) unfolding fw_linked_def by blast
    ultimately have "map frame_bytes (on_lane l fs) = map frame_bytes (submitted l ops)"
      using fs(3) by simp
    then have "length (on_lane l fs) = length (submitted l ops)"
      using map_eq_imp_length_eq by blast
    then show ?thesis using pre [of l] by (auto simp: prefix_def)
  qed
  have "\<exists>fs. fst (fd_feed fd_new cs) = Inr fs \<and> (\<forall>l. prefix (on_lane l fs) (submitted l ops)
      \<and> (\<not> failed w \<and> \<not> paused w \<longrightarrow> on_lane l fs = submitted l ops))" if "concat cs = wire w" for cs
    using fs(1) that pre eq by (simp add: fd_feed_fst)
  then show ?thesis using w by (auto simp: fw_idle_def)
qed

text \<open>A small writer, and a socket that takes two bytes of the first write and the rest in full.\<close>

definition sample_writer :: frame_writer where
  "sample_writer = \<lparr>highWater = 2, chunkSize = 262144, maxBytes = Some 100, ctrlQueue = [],
     mcpQueue = [], currentMcp = None, currentCtrl = None, pendingItems = 0, queuedBytes = 0,
     pumping = False, paused = False, failed = False, failure = None, idleWaiters = [],
     nextWaiter = 0, waiter_log = [], overflows = 0, writes = 0, wire = [], taken = [], completed = []\<rparr>"

definition sample_socket :: write_env where
  "sample_socket n unit = (if n = 0 then Accepted 2 else AcceptedVoid)"

definition sample_ops :: "writer_op list" where
  "sample_ops = [Enqueue Mcp [7, 8], Enqueue Ctrl [9], Drain, Resume]"

lemma sample_new: "fw_new (Fin 2) None (Some 100) = Inr sample_writer"
  by (simp add: fw_new_def sample_writer_def num_integer_def jsnum_nat_def FRAME_WRITER_MAX_CHUNK_def)

theorem writer_delivers_in_order_witness:
  "\<exists>w. run (fw_step sample_socket) (Some sample_writer) sample_ops = Some w \<and> \<not> pumping w
    \<and> (\<forall>cs. concat cs = wire w \<longrightarrow> (\<exists>fs. fst (fd_feed fd_new cs) = Inr fs
        \<and> (\<forall>l. prefix (on_lane l fs) (submitted l sample_ops)
            \<and> (\<not> failed w \<and> \<not> paused w \<longrightarrow> on_lane l fs = submitted l sample_ops))))"
  by (rule writer_delivers_in_order [OF sample_new])

lemma sample_run:
  "\<exists>w. run (fw_step sample_socket) (Some sample_writer) sample_ops = Some w"
  using fw_run_good [OF sample_new] by (auto simp: fw_good_def)

text \<open>
  Bounded memory of the writer: the item and byte counters always equal the true backlog (the
  queued items and the bytes not yet accepted), and never exceed \<open>highWater\<close> and \<open>maxBytes\<close>.
\<close>

theorem writer_backlog_bounded:
  assumes "fw_new hw chunk (Some m) = Inr w0" and "run (fw_step env) (Some w0) ops = Some w"
  shows "length (fw_items w) \<le> highWater w0 \<and> sum_list (map remaining (fw_items w)) \<le> m
    \<and> pendingItems w = int (length (fw_items w))
    \<and> queuedBytes w = int (sum_list (map remaining (fw_items w)))"
proof -
  have "fw_within w0" "maxBytes w0 = Some m"
    using assms(1) by (auto simp: fw_new_def Let_def fw_within_def split: if_splits)
  then have "fw_within w" "same_limits w0 w" "fw_counts w"
    using fw_run_within [OF _ assms(2)] fw_run_good [OF assms(1), of env ops] assms(2)
    by (auto simp: fw_good_def fw_idle_def fw_inv_def)
  then show ?thesis
    using \<open>maxBytes w0 = Some m\<close> by (auto simp: fw_within_def same_limits_def fw_counts_def)
qed

theorem writer_backlog_bounded_witness:
  "\<exists>w. run (fw_step sample_socket) (Some sample_writer) sample_ops = Some w
    \<and> length (fw_items w) \<le> 2 \<and> sum_list (map remaining (fw_items w)) \<le> 100
    \<and> pendingItems w = int (length (fw_items w))
    \<and> queuedBytes w = int (sum_list (map remaining (fw_items w)))"
proof -
  obtain w where w: "run (fw_step sample_socket) (Some sample_writer) sample_ops = Some w"
    using sample_run by blast
  have "highWater sample_writer = 2" by (simp add: sample_writer_def)
  then show ?thesis using writer_backlog_bounded [OF sample_new w] w by simp
qed

text \<open>
  No \<open>drain()\<close> promise is lost or settled twice: in a run, the promises settled so far followed
  by those still waiting are exactly the promises handed out, in order; and a promise can only be
  waiting while the writer is paused, with every other one settled.
\<close>

theorem drain_promises_settled:
  assumes "fw_new hw chunk mb = Inr w0" and "run (fw_step env) (Some w0) ops = Some w"
  shows "map fst (waiter_log w) @ idleWaiters w = [0..<nextWaiter w]
    \<and> (idleWaiters w = [] \<or> paused w \<and> \<not> failed w)"
proof -
  have "fw_idle w" using fw_run_good [OF assms(1), of env ops] assms(2) by (auto simp: fw_good_def)
  then have "idleWaiters w = [] \<or> paused w \<and> \<not> failed w"
    by (auto simp: fw_idle_def fw_inv_def fw_shape_def)
  then show ?thesis using fw_run_waiters [OF assms] by simp
qed

theorem drain_promises_settled_witness:
  "\<exists>w. run (fw_step sample_socket) (Some sample_writer) sample_ops = Some w
    \<and> map fst (waiter_log w) @ idleWaiters w = [0..<nextWaiter w]
    \<and> (idleWaiters w = [] \<or> paused w \<and> \<not> failed w)"
proof -
  obtain w where w: "run (fw_step sample_socket) (Some sample_writer) sample_ops = Some w"
    using sample_run by blast
  then show ?thesis using drain_promises_settled [OF sample_new w] by simp
qed

end
