(* ===== verification/Uds_Hello.thy ===== *)
theory Uds_Hello
  imports Prelude
begin

text \<open>
  src/uds_hello.ts: the handshake of a local connection. \<open>runHello\<close> is cut at its \<open>await\<close> points: a value of
  \<open>hello_pc\<close> is the point it waits at with the locals it needs later, and each step takes what the awaited call
  answers. Messages it sends are logged. The shared cache of verification keys is passed along.

  Base64, the import of a key and the Ed25519 check are the record \<open>hello_env\<close>.
\<close>

subsection \<open>Messages\<close>

definition valid_caps :: "jsval \<Rightarrow> bool" where
  "valid_caps v = (case v of
      JUndef \<Rightarrow> True
    | JArr cs \<Rightarrow> length cs \<le> 16
        \<and> list_all (\<lambda>c. case c of JStr s \<Rightarrow> 0 < length s \<and> length s \<le> 64 | _ \<Rightarrow> False) cs
    | _ \<Rightarrow> False)"

definition str_where :: "(string \<Rightarrow> bool) \<Rightarrow> jsval \<Rightarrow> bool" where
  "str_where P v = (case v of JStr s \<Rightarrow> P s | _ \<Rightarrow> False)"

definition valid_pid :: "jsval \<Rightarrow> bool" where
  "valid_pid v = (case v of JNum n \<Rightarrow> num_integer n \<and> \<not> num_less n (Fin 1) \<and> \<not> num_less (Fin (2 ^ 31)) n | _ \<Rightarrow> False)"

definition valid_hello :: "jsval \<Rightarrow> bool" where
  "valid_hello v \<longleftrightarrow> is_obj v
     \<and> jget v ''t'' = JStr ''hello''
     \<and> jget v ''v'' = JNum (Fin 1)
     \<and> str_where is_token (jget v ''agentId'')
     \<and> str_where (\<lambda>s. length s \<le> 256) (jget v ''host'')
     \<and> valid_pid (jget v ''pid'')
     \<and> str_where (\<lambda>s. length s \<le> 256) (jget v ''subsKey'')
     \<and> (case jget v ''toolOnly'' of JUndef \<Rightarrow> True | JBool b \<Rightarrow> True | _ \<Rightarrow> False)
     \<and> valid_caps (jget v ''caps'')"

definition valid_auth :: "jsval \<Rightarrow> bool" where
  "valid_auth v \<longleftrightarrow> is_obj v \<and> jget v ''t'' = JStr ''auth'' \<and> jget v ''alg'' = JStr ''ed25519'' \<and> is_str (jget v ''sig'')"

definition str_of :: "jsval \<Rightarrow> string" where
  "str_of v = (case v of JStr s \<Rightarrow> s | _ \<Rightarrow> [])"

definition hello_agent :: "jsval \<Rightarrow> string" where
  "hello_agent h = str_of (jget h ''agentId'')"

definition tool_only :: "jsval \<Rightarrow> bool" where
  "tool_only h \<longleftrightarrow> jget h ''toolOnly'' = JBool True"

definition delivery_capable :: "jsval \<Rightarrow> bool" where
  "delivery_capable h = (case jget h ''caps'' of JArr cs \<Rightarrow> List.member cs (JStr ''delivered'') | _ \<Rightarrow> False)"

subsection \<open>The key cache\<close>

definition KEY_CACHE_TTL_MS :: rat where "KEY_CACHE_TTL_MS = 60000"
definition MAX_CACHE_KEYS :: nat where "MAX_CACHE_KEYS = 4096"

record 'k hello_env =
  hv_b64 :: "byte list \<Rightarrow> string"
  hv_from_b64 :: "string \<Rightarrow> byte list"
  hv_import :: "byte list \<Rightarrow> 'k option"
  hv_verify :: "'k \<Rightarrow> byte list \<Rightarrow> byte list \<Rightarrow> bool option"

type_synonym 'k key_cache = "(string \<times> 'k \<times> rat) list"

datatype key_reply = KeyError | NoKey | KeyText string

text \<open>The key a reply stands for: \<open>None\<close> when there is none, it has the wrong length, or it cannot be imported.\<close>

definition key_of :: "'k hello_env \<Rightarrow> key_reply \<Rightarrow> 'k option" where
  "key_of he r =
     (case r of KeyText t \<Rightarrow>
        if t = [] then None
        else (let raw = hv_from_b64 he (js_trim t) in if length raw \<noteq> 32 then None else hv_import he raw)
      | _ \<Rightarrow> None)"

definition cached_key :: "'k key_cache \<Rightarrow> string \<Rightarrow> rat \<Rightarrow> 'k option" where
  "cached_key m agent now =
     (case map_of m agent of Some (k, ex) \<Rightarrow> if ex > now then Some k else None | None \<Rightarrow> None)"

definition get_verify_key ::
  "'k hello_env \<Rightarrow> 'k key_cache \<Rightarrow> string \<Rightarrow> rat \<Rightarrow> key_reply \<Rightarrow> 'k option \<times> 'k key_cache" where
  "get_verify_key he m agent now r =
     (case cached_key m agent now of
        Some k \<Rightarrow> (Some k, m)
      | None \<Rightarrow>
          (case key_of he r of
             None \<Rightarrow> (None, m)
           | Some k \<Rightarrow> (Some k, AList.update agent (k, now + KEY_CACHE_TTL_MS) (evict_oldest MAX_CACHE_KEYS m))))"

interpretation verify_key_cache: bounded_store
  "\<lambda>k v m. AList.update k v (evict_oldest MAX_CACHE_KEYS m)" "\<lambda>m. m" MAX_CACHE_KEYS
proof
  fix m :: "('a \<times> 'b) list" and k v
  assume "length m \<le> MAX_CACHE_KEYS"
  then have "length (evict_oldest MAX_CACHE_KEYS m) < MAX_CACHE_KEYS"
    by (intro length_evict) (simp_all add: MAX_CACHE_KEYS_def)
  then show "length (AList.update k v (evict_oldest MAX_CACHE_KEYS m)) \<le> MAX_CACHE_KEYS"
    using length_update_le [of k v "evict_oldest MAX_CACHE_KEYS m"] by linarith
qed simp

subsection \<open>Presence and epoch\<close>

text \<open>
  The script that runs in Redis: \<open>stored\<close> is the presence record, \<open>decode\<close> is \<open>cjson.decode\<close> (\<open>None\<close> where it
  fails) and \<open>to_num\<close> is \<open>tonumber\<close>. The second result says whether the record is deleted.
\<close>

definition presence_reclaim ::
  "(string \<Rightarrow> jsval option) \<Rightarrow> (jsval \<Rightarrow> rat option) \<Rightarrow> string option \<Rightarrow> rat \<Rightarrow> rat \<Rightarrow> bool \<times> bool" where
  "presence_reclaim decode to_num stored now limit =
     (case stored of
        None \<Rightarrow> (True, False)
      | Some v \<Rightarrow>
          (case decode v of
             None \<Rightarrow> (False, False)
           | Some d \<Rightarrow>
               if \<not> (case d of JObj _ \<Rightarrow> True | JArr _ \<Rightarrow> True | _ \<Rightarrow> False) then (False, False)
               else
                 (case to_num (jget d ''last_seen'') of
                    None \<Rightarrow> (False, False)
                  | Some l \<Rightarrow> if now - l > limit then (True, True) else (False, False))))"

definition next_epoch :: "jsnum option \<Rightarrow> nat option" where
  "next_epoch r =
     (case r of Some (Fin q) \<Rightarrow>
        if num_integer (Fin q) \<and> 1 \<le> q \<and> q \<le> 4294967295 then Some (nat \<lfloor>q\<rfloor>) else None
      | _ \<Rightarrow> None)"

lemma next_epoch_bounds: "next_epoch r = Some e \<Longrightarrow> 1 \<le> e \<and> e \<le> 4294967295"
  by (auto simp: next_epoch_def split: option.splits jsnum.splits if_splits) linarith+

subsection \<open>The handshake\<close>

datatype hello_result =
    HelloFailed string
  | HelloOk string string nat bool bool

datatype hello_pc =
    AwaitHello
  | AwaitAuth jsval "byte list"
  | AwaitKey jsval "byte list" jsval
  | AwaitPresence jsval
  | AwaitEpoch jsval
  | HelloDone hello_result

type_synonym 'a sending = "'a \<times> jsval list"

definition hello_fail :: "string \<Rightarrow> hello_pc sending" where
  "hello_fail code = (HelloDone (HelloFailed code), [JObj [(''t'', JStr ''err''), (''code'', JStr code)]])"

definition hello_start :: "int option \<Rightarrow> int option \<Rightarrow> hello_pc sending" where
  "hello_start expectedUid peerUid =
     (case expectedUid of
        None \<Rightarrow> (AwaitHello, [])
      | Some u \<Rightarrow>
          (case peerUid of
             None \<Rightarrow> hello_fail ''peercred_unavailable''
           | Some p \<Rightarrow> if p \<noteq> u then hello_fail ''peercred_mismatch'' else (AwaitHello, [])))"

definition challenge :: "'k hello_env \<Rightarrow> byte list \<Rightarrow> jsval" where
  "challenge he nonce = JObj [(''t'', JStr ''challenge''), (''nonce'', JStr (hv_b64 he nonce))]"

text \<open>A control message arrives; \<open>nonce\<close> is what \<open>randomBytes(32)\<close> returns when it is called.\<close>

definition hello_message :: "'k hello_env \<Rightarrow> jsval \<Rightarrow> byte list \<Rightarrow> hello_pc \<Rightarrow> hello_pc sending" where
  "hello_message he msg nonce pc =
     (case pc of
        AwaitHello \<Rightarrow>
          if \<not> valid_hello msg then hello_fail ''bad_hello''
          else if length nonce \<noteq> 32 then hello_fail ''pubkey_unavailable''
          else (AwaitAuth msg nonce, [challenge he nonce])
      | AwaitAuth h n \<Rightarrow>
          if \<not> valid_auth msg then hello_fail ''bad_sig'' else (AwaitKey h n msg, [])
      | _ \<Rightarrow> (pc, []))"

definition hello_timeout :: "hello_pc \<Rightarrow> hello_pc sending" where
  "hello_timeout pc =
     (case pc of AwaitHello \<Rightarrow> hello_fail ''hello_timeout'' | AwaitAuth h n \<Rightarrow> hello_fail ''hello_timeout'' | _ \<Rightarrow> (pc, []))"

text \<open>The key is there, from the cache or from Redis; the signature of the nonce is checked next.\<close>

definition check_sig :: "'k hello_env \<Rightarrow> 'k \<Rightarrow> jsval \<Rightarrow> byte list \<Rightarrow> bool option" where
  "check_sig he k auth nonce =
     (let sg = hv_from_b64 he (str_of (jget auth ''sig'')) in if length sg = 64 then hv_verify he k sg nonce else Some False)"

definition hello_key ::
  "'k hello_env \<Rightarrow> rat \<Rightarrow> key_reply \<Rightarrow> 'k key_cache \<Rightarrow> hello_pc \<Rightarrow> hello_pc sending \<times> 'k key_cache" where
  "hello_key he now r m pc =
     (case pc of
        AwaitKey h n auth \<Rightarrow>
          (case get_verify_key he m (hello_agent h) now r of
             (None, m') \<Rightarrow> (hello_fail ''pubkey_unavailable'', m')
           | (Some k, m') \<Rightarrow>
               ((case check_sig he k auth n of
                   None \<Rightarrow> hello_fail ''bad_hello''
                 | Some False \<Rightarrow> hello_fail ''bad_sig''
                 | Some True \<Rightarrow> (if tool_only h then AwaitEpoch h else AwaitPresence h, [])), m'))
      | _ \<Rightarrow> ((pc, []), m))"

text \<open>\<open>reclaimed\<close>: the script answered \<open>RECLAIMED\<close>; another answer and a failure are a duplicate.\<close>

definition hello_presence :: "bool \<Rightarrow> hello_pc \<Rightarrow> hello_pc sending" where
  "hello_presence reclaimed pc =
     (case pc of AwaitPresence h \<Rightarrow> if reclaimed then (AwaitEpoch h, []) else hello_fail ''dup_agent'' | _ \<Rightarrow> (pc, []))"

definition hello_epoch :: "jsnum option \<Rightarrow> string \<Rightarrow> hello_pc \<Rightarrow> hello_pc sending" where
  "hello_epoch r session pc =
     (case pc of
        AwaitEpoch h \<Rightarrow>
          (case next_epoch r of
             None \<Rightarrow> hello_fail ''pubkey_unavailable''
           | Some e \<Rightarrow> (HelloDone (HelloOk (hello_agent h) session e (tool_only h) (delivery_capable h)), []))
      | _ \<Rightarrow> (pc, []))"

subsection \<open>Lemmas\<close>

lemma valid_hello_agent: "valid_hello h \<Longrightarrow> is_token (hello_agent h)"
  by (auto simp: valid_hello_def str_where_def hello_agent_def str_of_def split: jsval.splits)

text \<open>What the cache knows: every entry was read from Redis one lifetime before it expires.\<close>

definition cache_backed :: "'k hello_env \<Rightarrow> (string \<Rightarrow> rat \<Rightarrow> key_reply \<Rightarrow> bool) \<Rightarrow> 'k key_cache \<Rightarrow> bool" where
  "cache_backed he seen m \<longleftrightarrow>
     (\<forall>agent k ex. (agent, k, ex) \<in> set m \<longrightarrow> (\<exists>t r. seen agent t r \<and> key_of he r = Some k \<and> ex = t + KEY_CACHE_TTL_MS))"

lemma cache_backed_mono:
  "cache_backed he seen m \<Longrightarrow> (\<And>a t r. seen a t r \<Longrightarrow> seen' a t r) \<Longrightarrow> cache_backed he seen' m"
  unfolding cache_backed_def by blast

lemma update_members: "(a, v) \<in> set (AList.update k w m) \<Longrightarrow> (a, v) \<in> set m \<or> (a = k \<and> v = w)"
  by (induction m) (auto split: if_splits)

lemma evict_members: "x \<in> set (evict_oldest cap m) \<Longrightarrow> x \<in> set m"
  by (cases m) (auto simp: evict_oldest_def split: if_splits)

lemma get_verify_key_backed:
  assumes "get_verify_key he m agent now r = (ko, m')" "cache_backed he seen m"
    "cached_key m agent now = None \<Longrightarrow> seen agent now r"
  shows "cache_backed he seen m'"
    and "ko = Some k \<Longrightarrow> \<exists>t r'. seen agent t r' \<and> key_of he r' = Some k \<and> now < t + KEY_CACHE_TTL_MS"
proof -
  show "cache_backed he seen m'"
    using assms
    by (fastforce simp: get_verify_key_def cache_backed_def split: option.splits dest!: update_members dest: evict_members)
  assume ko: "ko = Some k"
  show "\<exists>t r'. seen agent t r' \<and> key_of he r' = Some k \<and> now < t + KEY_CACHE_TTL_MS"
  proof (cases "cached_key m agent now")
    case None
    then have "key_of he r = Some k" using assms(1) ko by (auto simp: get_verify_key_def split: option.splits)
    then show ?thesis using assms(3) [OF None] by (intro exI [of _ now] exI [of _ r]) (simp add: KEY_CACHE_TTL_MS_def)
  next
    case (Some k')
    then obtain ex where ex: "(agent, k, ex) \<in> set m" "now < ex"
      using assms(1) ko by (auto simp: get_verify_key_def cached_key_def split: option.splits if_splits dest: map_of_SomeD)
    then obtain t r' where "seen agent t r'" "key_of he r' = Some k" "ex = t + KEY_CACHE_TTL_MS"
      using assms(2) unfolding cache_backed_def by blast
    then show ?thesis using ex(2) by blast
  qed
qed

lemma get_verify_key_bound:
  "length m \<le> MAX_CACHE_KEYS \<Longrightarrow> length (snd (get_verify_key he m agent now r)) \<le> MAX_CACHE_KEYS"
  using verify_key_cache.put_bound by (auto simp: get_verify_key_def split: option.split)

end
