(* ===== verification/Pending_Map.thy ===== *)
theory Pending_Map
  imports Prelude
begin

text \<open>
  \<open>PendingMap\<close> of \<open>src/uds_frame.ts\<close>: the table of requests waiting for a reply. An entry is a
  promise with a timer; a promise is named by the number of the registration that made it, and so is
  its timer. \<open>settled\<close> records how each promise was settled, in order; settling a promise again has
  no effect, as for a JavaScript promise.

  The lemmas show the invariant \<open>pm_wf\<close>: every promise ever handed out is either pending (with its
  timer armed) or settled, never both, and is settled once.
\<close>

subsection \<open>State and operations\<close>

datatype ('k, 'v) settlement = Resolved 'v | PendingTimeoutError 'k jsnum | Rejected string

datatype 'k pending_error = RangeError | PendingDuplicateError 'k

record ('k, 'v) pending_map =
  entries :: "('k \<times> nat) list"
  timers :: "(nat \<times> 'k \<times> jsnum) list"
  settled :: "(nat \<times> ('k, 'v) settlement) list"
  next_id :: nat

definition pm_new :: "('k, 'v) pending_map" where
  "pm_new = \<lparr>entries = [], timers = [], settled = [], next_id = 0\<rparr>"

definition pm_size :: "('k, 'v) pending_map \<Rightarrow> nat" where
  "pm_size p = length (entries p)"

definition pm_settle :: "nat \<Rightarrow> ('k, 'v) settlement \<Rightarrow> ('k, 'v) pending_map \<Rightarrow> ('k, 'v) pending_map" where
  "pm_settle i o' p =
     (if i \<in> fst ` set (settled p) then p else p\<lparr>settled := settled p @ [(i, o')]\<rparr>)"

definition clear_timer :: "nat \<Rightarrow> ('k, 'v) pending_map \<Rightarrow> ('k, 'v) pending_map" where
  "clear_timer i p = p\<lparr>timers := AList.delete i (timers p)\<rparr>"

definition pm_register ::
  "('k, 'v) pending_map \<Rightarrow> 'k \<Rightarrow> jsnum \<Rightarrow> ('k pending_error + nat) \<times> ('k, 'v) pending_map" where
  "pm_register p key ms =
     (if \<not> num_finite ms \<or> num_less ms (Fin 0) then (Inl RangeError, p)
      else if key \<in> fst ` set (entries p) then (Inl (PendingDuplicateError key), p)
      else (Inr (next_id p),
            p\<lparr>entries := AList.update key (next_id p) (entries p),
              timers := timers p @ [(next_id p, key, ms)],
              next_id := Suc (next_id p)\<rparr>))"

definition pm_finish ::
  "('k, 'v) pending_map \<Rightarrow> 'k \<Rightarrow> ('k, 'v) settlement \<Rightarrow> bool \<times> ('k, 'v) pending_map" where
  "pm_finish p key o' =
     (case map_of (entries p) key of
        None \<Rightarrow> (False, p)
      | Some i \<Rightarrow>
          (True, pm_settle i o' (clear_timer i (p\<lparr>entries := AList.delete key (entries p)\<rparr>))))"

definition pm_resolve :: "('k, 'v) pending_map \<Rightarrow> 'k \<Rightarrow> 'v \<Rightarrow> bool \<times> ('k, 'v) pending_map" where
  "pm_resolve p key v = pm_finish p key (Resolved v)"

definition pm_reject :: "('k, 'v) pending_map \<Rightarrow> 'k \<Rightarrow> string \<Rightarrow> bool \<times> ('k, 'v) pending_map" where
  "pm_reject p key err = pm_finish p key (Rejected err)"

definition pm_reject_all :: "('k, 'v) pending_map \<Rightarrow> string \<Rightarrow> ('k, 'v) pending_map" where
  "pm_reject_all p err =
     fold (\<lambda>i q. pm_settle i (Rejected err) (clear_timer i q)) (map snd (entries p))
       (p\<lparr>entries := []\<rparr>)"

text \<open>The callback of an armed timer.\<close>

definition pm_fire :: "('k, 'v) pending_map \<Rightarrow> nat \<Rightarrow> ('k, 'v) pending_map" where
  "pm_fire p i =
     (case map_of (timers p) i of
        None \<Rightarrow> p
      | Some (key, ms) \<Rightarrow>
          (let p1 = clear_timer i p in
           if key \<notin> fst ` set (entries p1) then p1
           else pm_settle i (PendingTimeoutError key ms) (p1\<lparr>entries := AList.delete key (entries p1)\<rparr>)))"

datatype ('k, 'v) pm_op =
    Register 'k jsnum
  | Resolve 'k 'v
  | Reject 'k string
  | RejectAll string
  | Fire nat

fun pm_step :: "('k, 'v) pending_map \<Rightarrow> ('k, 'v) pm_op \<Rightarrow> ('k, 'v) pending_map" where
  "pm_step p (Register k ms) = snd (pm_register p k ms)"
| "pm_step p (Resolve k v) = snd (pm_resolve p k v)"
| "pm_step p (Reject k e) = snd (pm_reject p k e)"
| "pm_step p (RejectAll e) = pm_reject_all p e"
| "pm_step p (Fire i) = pm_fire p i"

subsection \<open>The invariant\<close>

definition pending_ids :: "('k, 'v) pending_map \<Rightarrow> nat set" where
  "pending_ids p = snd ` set (entries p)"

definition settled_ids :: "('k, 'v) pending_map \<Rightarrow> nat set" where
  "settled_ids p = fst ` set (settled p)"

definition pm_wf :: "('k, 'v) pending_map \<Rightarrow> bool" where
  "pm_wf p \<longleftrightarrow>
     distinct (map fst (entries p)) \<and>
     distinct (map snd (entries p)) \<and>
     distinct (map fst (timers p)) \<and>
     distinct (map fst (settled p)) \<and>
     (\<forall>k i. (k, i) \<in> set (entries p) \<longleftrightarrow> (\<exists>ms. (i, k, ms) \<in> set (timers p))) \<and>
     settled_ids p \<inter> pending_ids p = {} \<and>
     settled_ids p \<union> pending_ids p = {..<next_id p}"

lemma pm_wf_new: "pm_wf pm_new"
  by (simp add: pm_wf_def pm_new_def pending_ids_def settled_ids_def)

lemma pm_wf_register: "pm_wf p \<Longrightarrow> pm_wf (snd (pm_register p k ms))"
proof -
  assume wf: "pm_wf p"
  show ?thesis
  proof (cases "\<not> num_finite ms \<or> num_less ms (Fin 0) \<or> k \<in> fst ` set (entries p)")
    case True
    then show ?thesis using wf by (auto simp: pm_register_def)
  next
    case False
    let ?n = "next_id p"
    have "?n \<notin> pending_ids p" "?n \<notin> settled_ids p"
      using wf by (auto simp: pm_wf_def)
    moreover have "?n \<notin> fst ` set (timers p)"
      using wf calculation(1) by (force simp: pm_wf_def pending_ids_def)
    ultimately have "pm_wf (p\<lparr>entries := entries p @ [(k, ?n)], timers := timers p @ [(?n, k, ms)],
        next_id := Suc ?n\<rparr>)"
      using wf False unfolding pm_wf_def pending_ids_def settled_ids_def
      by (simp add: lessThan_Suc) auto
    then show ?thesis
      using False by (simp add: pm_register_def update_fresh)
  qed
qed

lemma pm_wf_remove:
  assumes wf: "pm_wf p" and e: "(key, i) \<in> set (entries p)"
  shows "pm_wf (p\<lparr>entries := AList.delete key (entries p), timers := AList.delete i (timers p),
    settled := settled p @ [(i, o')]\<rparr>)"
proof -
  let ?p = "p\<lparr>entries := AList.delete key (entries p), timers := AList.delete i (timers p),
    settled := settled p @ [(i, o')]\<rparr>"
  have d: "distinct (map fst (entries p))" "distinct (map snd (entries p))"
    using wf by (simp_all add: pm_wf_def)
  have other: "(k \<noteq> key) = (j \<noteq> i)" if "(k, j) \<in> set (entries p)" for k j
    using that e distinct_fst_unique [OF d(1)] distinct_snd_unique [OF d(2)] by blast
  have tim: "\<forall>k j. (k, j) \<in> set (entries ?p) \<longleftrightarrow> (\<exists>ms. (j, k, ms) \<in> set (timers ?p))"
    using wf other unfolding pm_wf_def by (auto simp: set_delete)
  have pend: "pending_ids ?p = pending_ids p - {i}"
    using other e by (force simp: pending_ids_def set_delete)
  have sett: "settled_ids ?p = insert i (settled_ids p)" "i \<in> pending_ids p"
    using e by (force simp: settled_ids_def pending_ids_def)+
  have "i \<notin> settled_ids p" using wf sett(2) by (auto simp: pm_wf_def)
  then have dist: "distinct (map fst (settled ?p))"
    using wf by (simp add: pm_wf_def settled_ids_def)
  show ?thesis
    unfolding pm_wf_def pend sett(1)
    using wf tim dist sett(2)
    by (auto simp: pm_wf_def distinct_delete distinct_snd_delete)
qed

lemma pm_settle_new: "i \<notin> fst ` set (settled p) \<Longrightarrow> pm_settle i o' p = p\<lparr>settled := settled p @ [(i, o')]\<rparr>"
  by (simp add: pm_settle_def)

lemma pm_wf_pending_not_settled: "pm_wf p \<Longrightarrow> (key, i) \<in> set (entries p) \<Longrightarrow> i \<notin> fst ` set (settled p)"
proof -
  assume "pm_wf p" and "(key, i) \<in> set (entries p)"
  then have "settled_ids p \<inter> pending_ids p = {}" "i \<in> pending_ids p"
    by (simp_all add: pm_wf_def pending_ids_def image_iff bexI [of _ "(key, i)"])
  then show ?thesis by (auto simp: settled_ids_def)
qed

lemma pm_wf_timer: "pm_wf p \<Longrightarrow> (i, k, ms) \<in> set (timers p) \<Longrightarrow> (k, i) \<in> set (entries p)"
  unfolding pm_wf_def by blast

lemma pm_finish_Some:
  assumes "pm_wf p" and "map_of (entries p) key = Some i"
  shows "pm_finish p key o' = (True, p\<lparr>entries := AList.delete key (entries p),
    timers := AList.delete i (timers p), settled := settled p @ [(i, o')]\<rparr>)"
  using assms pm_wf_pending_not_settled [OF assms(1) map_of_SomeD [OF assms(2)]]
  by (simp add: pm_finish_def pm_settle_def clear_timer_def)

lemma pm_wf_finish: "pm_wf p \<Longrightarrow> pm_wf (snd (pm_finish p key o'))"
  by (cases "map_of (entries p) key")
    (auto simp: pm_finish_Some pm_wf_remove map_of_SomeD, simp add: pm_finish_def)

lemma pm_fire_Some:
  assumes wf: "pm_wf p" and t: "map_of (timers p) i = Some (key, ms)"
  shows "pm_fire p i = p\<lparr>entries := AList.delete key (entries p),
    timers := AList.delete i (timers p), settled := settled p @ [(i, PendingTimeoutError key ms)]\<rparr>
    \<and> (key, i) \<in> set (entries p)"
proof -
  have e: "(key, i) \<in> set (entries p)"
    using wf map_of_SomeD [OF t] by (auto simp: pm_wf_def)
  then have "key \<in> fst ` set (entries p)" by force
  then show ?thesis
    using t e pm_wf_pending_not_settled [OF wf e]
    by (simp add: pm_fire_def Let_def clear_timer_def pm_settle_def)
qed

lemma pm_wf_fire: "pm_wf p \<Longrightarrow> pm_wf (pm_fire p i)"
proof (cases "map_of (timers p) i")
  case None
  then show "pm_wf p \<Longrightarrow> ?thesis" by (simp add: pm_fire_def)
next
  case (Some km)
  then obtain key ms where "map_of (timers p) i = Some (key, ms)" by (cases km) auto
  then show "pm_wf p \<Longrightarrow> ?thesis"
    using pm_fire_Some pm_wf_remove by metis
qed

text \<open>\<open>rejectAll\<close> clears the table first, then settles every entry it held.\<close>

lemma reject_all_fold:
  "distinct is \<Longrightarrow> set is \<inter> fst ` set (settled p) = {} \<Longrightarrow>
   fold (\<lambda>i q. pm_settle i r (clear_timer i q)) is p =
     p\<lparr>timers := fold AList.delete is (timers p), settled := settled p @ map (\<lambda>i. (i, r)) is\<rparr>"
  by (induction "is" arbitrary: p) (auto simp: clear_timer_def pm_settle_def)

lemma set_fold_delete: "set (fold AList.delete is m) = {(k, v) \<in> set m. k \<notin> set is}"
  by (induction "is" arbitrary: m) (auto simp: set_delete)

lemma pm_reject_all_eq:
  assumes wf: "pm_wf p"
  shows "pm_reject_all p err = p\<lparr>entries := [], timers := [],
    settled := settled p @ map (\<lambda>(k, i). (i, Rejected err)) (entries p)\<rparr>"
proof -
  have "set (fold AList.delete (map snd (entries p)) (timers p)) = {}"
  proof (rule equals0I)
    fix x assume x: "x \<in> set (fold AList.delete (map snd (entries p)) (timers p))"
    obtain i k ms where "x = (i, k, ms)" by (metis surj_pair)
    with x pm_wf_timer [OF wf, of i k ms] show False
      by (force simp: set_fold_delete)
  qed
  then have "fold AList.delete (map snd (entries p)) (timers p) = []" by simp
  moreover have "distinct (map snd (entries p))" "set (map snd (entries p)) \<inter> fst ` set (settled p) = {}"
    using wf by (auto simp: pm_wf_def settled_ids_def pending_ids_def)
  ultimately show ?thesis
    by (simp add: pm_reject_all_def reject_all_fold o_def case_prod_unfold)
qed

lemma pm_wf_reject_all: "pm_wf p \<Longrightarrow> pm_wf (pm_reject_all p err)"
  by (simp add: pm_reject_all_eq)
    (auto simp: pm_wf_def o_def case_prod_unfold image_image settled_ids_def pending_ids_def image_Un)

lemma pm_wf_step: "pm_wf p \<Longrightarrow> pm_wf (pm_step p op)"
  by (cases op) (simp_all add: pm_wf_register pm_wf_finish pm_wf_fire pm_wf_reject_all
      pm_resolve_def pm_reject_def)

interpretation pending: step_invariant pm_step pm_wf
  by unfold_locales (rule pm_wf_step)

lemma pm_finish_None: "map_of (entries p) k = None \<Longrightarrow> pm_finish p k o' = (False, p)"
  by (simp add: pm_finish_def)

lemma pm_fire_None: "map_of (timers p) i = None \<Longrightarrow> pm_fire p i = p"
  by (simp add: pm_fire_def)

text \<open>What one operation does to the promises: who is entered, who is resolved, and that the numbers only grow.\<close>

lemma pm_step_entries:
  assumes "pm_wf p" "(k, i) \<in> set (entries (pm_step p op))"
  shows "(k, i) \<in> set (entries p) \<or> (\<exists>ms. op = Register k ms \<and> i = next_id p)"
proof (cases op)
  case (Register k' ms)
  then show ?thesis
    using assms(2) by (auto simp: pm_register_def update_fresh split: if_splits)
next
  case (Fire j)
  then show ?thesis
    using assms by (cases "map_of (timers p) j") (auto simp: pm_fire_Some pm_fire_None set_delete)
next
  case (Resolve k' v)
  then show ?thesis
    using assms by (cases "map_of (entries p) k'") (auto simp: pm_resolve_def pm_finish_Some pm_finish_None set_delete)
next
  case (Reject k' e)
  then show ?thesis
    using assms by (cases "map_of (entries p) k'") (auto simp: pm_reject_def pm_finish_Some pm_finish_None set_delete)
next
  case (RejectAll e)
  then show ?thesis using assms by (simp add: pm_reject_all_eq)
qed

lemma pm_step_resolved:
  assumes "pm_wf p" "(i, Resolved v) \<in> set (settled (pm_step p op))"
  shows "(i, Resolved v) \<in> set (settled p) \<or> (\<exists>k. op = Resolve k v \<and> (k, i) \<in> set (entries p))"
proof (cases op)
  case (Register k' ms)
  then show ?thesis
    using assms(2) by (auto simp: pm_register_def split: if_splits)
next
  case (Fire j)
  then show ?thesis
    using assms by (cases "map_of (timers p) j") (auto simp: pm_fire_Some pm_fire_None)
next
  case (Resolve k' v')
  then show ?thesis
    using assms by (cases "map_of (entries p) k'")
      (auto simp: pm_resolve_def pm_finish_Some pm_finish_None dest: map_of_SomeD)
next
  case (Reject k' e)
  then show ?thesis
    using assms by (cases "map_of (entries p) k'") (auto simp: pm_reject_def pm_finish_Some pm_finish_None)
next
  case (RejectAll e)
  then show ?thesis using assms by (auto simp: pm_reject_all_eq)
qed

lemma pm_step_next_id:
  assumes "pm_wf p"
  shows "next_id p \<le> next_id (pm_step p op)"
proof (cases op)
  case (Fire j)
  then show ?thesis
    using assms by (cases "map_of (timers p) j") (auto simp: pm_fire_Some pm_fire_None)
next
  case (Resolve k' v')
  then show ?thesis
    using assms by (cases "map_of (entries p) k'") (auto simp: pm_resolve_def pm_finish_Some pm_finish_None)
next
  case (Reject k' e)
  then show ?thesis
    using assms by (cases "map_of (entries p) k'") (auto simp: pm_reject_def pm_finish_Some pm_finish_None)
qed (auto simp: pm_register_def pm_reject_all_eq assms)

lemma pm_register_new:
  assumes "pm_register p k ms = (Inr n, p')"
  shows "n = next_id p" "next_id p' = Suc (next_id p)" "p' = pm_step p (Register k ms)" "settled p' = settled p"
    "entries p' = entries p @ [(k, n)]"
  using assms by (auto simp: pm_register_def update_fresh split: if_splits)

lemma pm_settled_bound: "pm_wf p \<Longrightarrow> (i, v) \<in> set (settled p) \<Longrightarrow> i < next_id p"
proof -
  assume "pm_wf p" "(i, v) \<in> set (settled p)"
  then have "settled_ids p \<union> pending_ids p = {..<next_id p}" "i \<in> settled_ids p"
    by (simp_all add: pm_wf_def settled_ids_def image_iff bexI [of _ "(i, v)"])
  then show ?thesis by auto
qed

lemma pm_entry_bound: "pm_wf p \<Longrightarrow> (k, i) \<in> set (entries p) \<Longrightarrow> i < next_id p"
proof -
  assume "pm_wf p" "(k, i) \<in> set (entries p)"
  then have "settled_ids p \<union> pending_ids p = {..<next_id p}" "i \<in> pending_ids p"
    by (simp_all add: pm_wf_def pending_ids_def image_iff bexI [of _ "(k, i)"])
  then show ?thesis by auto
qed

text \<open>Entries only go away, except by registration.\<close>

lemma pm_size_step:
  assumes "pm_wf p"
  shows "pm_size (pm_step p op) \<le> pm_size p \<or> (\<exists>k ms. op = Register k ms \<and> pm_size (pm_step p op) = Suc (pm_size p))"
proof (cases op)
  case (Register k ms)
  then show ?thesis by (auto simp: pm_register_def pm_size_def update_fresh)
next
  case (Fire j)
  then show ?thesis
    using assms by (cases "map_of (timers p) j")
      (auto simp: pm_fire_Some pm_fire_None pm_size_def AList.delete_eq intro: length_filter_le)
next
  case (Resolve k' v')
  then show ?thesis
    using assms by (cases "map_of (entries p) k'")
      (auto simp: pm_resolve_def pm_finish_Some pm_finish_None pm_size_def AList.delete_eq intro: length_filter_le)
next
  case (Reject k' e)
  then show ?thesis
    using assms by (cases "map_of (entries p) k'")
      (auto simp: pm_reject_def pm_finish_Some pm_finish_None pm_size_def AList.delete_eq intro: length_filter_le)
qed (simp add: pm_reject_all_eq assms pm_size_def)

subsection \<open>Properties\<close>

lemma pm_resolve_disarms:
  assumes "pm_wf p" and "map_of (entries p) k = Some i"
  shows "pm_fire (snd (pm_resolve p k v)) i = snd (pm_resolve p k v)"
  using assms by (simp add: pm_resolve_def pm_finish_Some pm_finish_None pm_fire_def)

text \<open>
  Exactly-once settlement: after any sequence of registrations, replies, rejections, teardowns
  and timer expiries, each promise ever handed out is in exactly one of two states: still pending,
  with its entry in the table and its timer armed, or settled, once.
\<close>

theorem pending_settled_once:
  "let p = run pm_step pm_new ops in
     settled_ids p \<union> pending_ids p = {..<next_id p} \<and> settled_ids p \<inter> pending_ids p = {}
     \<and> distinct (map fst (settled p)) \<and> distinct (map snd (entries p))
     \<and> (\<forall>k i. ((k, i) \<in> set (entries p)) = (\<exists>ms. (i, k, ms) \<in> set (timers p)))"
  using pending.run_inv [OF pm_wf_new, of ops] by (simp add: pm_wf_def Let_def)

end
