(* ===== verification/Uds_Transport.thy ===== *)
theory Uds_Transport
  imports Pending_Map
begin

text \<open>
  src/uds_transport.ts: the MCP transport over a framed socket, the injection of notifications with their
  delivery acknowledgement (\<open>makeUdsInject\<close>), signing by the peer (\<open>makeUdsSign\<close>) and the control frames that
  settle both (\<open>feedCtrlSig\<close>, \<open>feedCtrlDelivered\<close>).

  A call of the returned functions is a record of its own with the \<open>await\<close> it has reached; what the writer
  answers is an argument of the step. A frame's text is read by \<open>parse\<close>, \<open>None\<close> where \<open>JSON.parse\<close> throws.
  The lemmas show what an acknowledgement proves, that the number of unacknowledged injections is
  bounded, and that a signature belongs to the request it is returned for.
\<close>

subsection \<open>Control frames\<close>

datatype sign_reply = SignOk string | SignErr string

datatype feed_error =
    BadJson
  | MalformedSign
  | UnknownSig jsnum
  | UnknownSigErr jsnum
  | UnknownOrMalformed
  | MalformedDelivered
  | UnknownDelivered string

type_synonym parser = "byte list \<Rightarrow> jsval option"

text \<open>\<open>!message || typeof message !== "object"\<close> is false.\<close>

definition is_message :: "jsval \<Rightarrow> bool" where
  "is_message v = (case v of JObj _ \<Rightarrow> True | JArr _ \<Rightarrow> True | _ \<Rightarrow> False)"

definition feed_ctrl_sig ::
  "js_env \<Rightarrow> parser \<Rightarrow> byte list \<Rightarrow> (jsnum, sign_reply) pending_map \<Rightarrow> feed_error option \<times> (jsnum, sign_reply) pending_map" where
  "feed_ctrl_sig je parse payload p =
     (case parse payload of
        None \<Rightarrow> (Some BadJson, p)
      | Some msg \<Rightarrow>
          if \<not> is_message msg then (Some MalformedSign, p)
          else
            (case (jget msg ''t'', jget msg ''reqId'', jget msg ''sig'') of
               (JStr t, JNum k, sg) \<Rightarrow>
                 if t = ''sig'' \<and> is_str sg then
                   (let (known, p') = pm_resolve p k (SignOk (js_string je sg)) in
                    (if known then None else Some (UnknownSig k), p'))
                 else if t = ''sig-err'' then
                   (let e = jget msg ''err'';
                        (known, p') = pm_resolve p k (SignErr (if is_nullish e then ''sig-err'' else js_string je e)) in
                    (if known then None else Some (UnknownSigErr k), p'))
                 else (Some UnknownOrMalformed, p)
             | _ \<Rightarrow> (Some UnknownOrMalformed, p)))"

text \<open>The first result is the answer of the code: whether the frame was one of this kind.\<close>

definition acks :: "nat \<Rightarrow> jsval \<Rightarrow> string \<Rightarrow> bool" where
  "acks epoch msg i \<longleftrightarrow> jget msg ''t'' = JStr ''delivered'' \<and> jget msg ''notifId'' = JStr i \<and> 0 < length i \<and> length i \<le> 128
     \<and> jget msg ''epoch'' = JNum (Fin (of_nat epoch)) \<and> jget msg ''status'' = JStr ''ok''"

definition feed_ctrl_delivered ::
  "parser \<Rightarrow> nat \<Rightarrow> byte list \<Rightarrow> (string, nat) pending_map \<Rightarrow> (bool \<times> feed_error option) \<times> (string, nat) pending_map" where
  "feed_ctrl_delivered parse epoch payload p =
     (case parse payload of
        None \<Rightarrow> ((False, Some BadJson), p)
      | Some msg \<Rightarrow>
          if \<not> is_message msg then ((False, Some MalformedDelivered), p)
          else if jget msg ''t'' \<noteq> JStr ''delivered'' then ((False, None), p)
          else
            (case jget msg ''notifId'' of
               JStr i \<Rightarrow>
                 if length i = 0 \<or> length i > 128 \<or> jget msg ''epoch'' \<noteq> JNum (Fin (of_nat epoch))
                   \<or> jget msg ''status'' \<noteq> JStr ''ok''
                 then ((True, Some MalformedDelivered), p)
                 else (let (known, p') = pm_resolve p i epoch in
                       ((True, if known then None else Some (UnknownDelivered i)), p'))
             | _ \<Rightarrow> ((True, Some MalformedDelivered), p)))"

subsection \<open>Injection\<close>

definition direct_notif_id :: "jsval \<Rightarrow> string option" where
  "direct_notif_id notif =
     (if \<not> is_message notif then None
      else if \<not> is_message (jget notif ''params'') then None
      else
        (let meta = jget (jget notif ''params'') ''meta'' in
         if \<not> is_message meta then None
         else
           (case if is_str (jget meta ''notifId'') then jget meta ''notifId'' else jget meta ''id'' of
              JStr i \<Rightarrow> if jget meta ''kind'' = JStr ''direct'' \<and> i \<noteq> [] then Some i else None
            | _ \<Rightarrow> None)))"

record delivery_opts =
  dl_epoch :: nat
  dl_timeoutMs :: jsnum
  dl_maxInflight :: nat

datatype inject_error = InflightFull | DuplicateId | BadTimeout | WriteFailed string | DeliveryTimeout | DeliveryRejected string

datatype stage = Draining | Awaiting | Delivered | Failed inject_error

record inject_call =
  ic_notif :: jsval
  ic_wait :: "(string \<times> nat) option"
  ic_stage :: stage

record injector =
  ij_pending :: "(string, nat) pending_map"
  ij_frames :: "jsval list"
  ij_calls :: "inject_call list"

definition ij_new :: injector where
  "ij_new = \<lparr>ij_pending = pm_new, ij_frames = [], ij_calls = []\<rparr>"

definition add_call :: "jsval \<Rightarrow> (string \<times> nat) option \<Rightarrow> stage \<Rightarrow> injector \<Rightarrow> injector" where
  "add_call notif w st s = s\<lparr>ij_calls := ij_calls s @ [\<lparr>ic_notif = notif, ic_wait = w, ic_stage = st\<rparr>]\<rparr>"

definition set_stage :: "nat \<Rightarrow> stage \<Rightarrow> injector \<Rightarrow> injector" where
  "set_stage n st s = s\<lparr>ij_calls := (ij_calls s)[n := (ij_calls s ! n)\<lparr>ic_stage := st\<rparr>]\<rparr>"

text \<open>The \<open>catch\<close> block: the entry of the notification id is rejected, whoever registered it.\<close>

definition drop_pending :: "(string \<times> nat) option \<Rightarrow> string \<Rightarrow> injector \<Rightarrow> injector" where
  "drop_pending w err s =
     (case w of None \<Rightarrow> s | Some (i, p) \<Rightarrow> s\<lparr>ij_pending := snd (pm_reject (ij_pending s) i err)\<rparr>)"

text \<open>\<open>wr\<close> is what \<open>enqueueMcp\<close> throws.\<close>

definition inject_write :: "jsval \<Rightarrow> (string \<times> nat) option \<Rightarrow> string option \<Rightarrow> injector \<Rightarrow> injector" where
  "inject_write notif w wr s =
     (case wr of
        Some err \<Rightarrow> add_call notif w (Failed (WriteFailed err)) (drop_pending w err s)
      | None \<Rightarrow> add_call notif w Draining (s\<lparr>ij_frames := ij_frames s @ [notif]\<rparr>))"

definition inject_start :: "delivery_opts option \<Rightarrow> jsval \<Rightarrow> string option \<Rightarrow> injector \<Rightarrow> injector" where
  "inject_start opts notif wr s =
     (case (opts, direct_notif_id notif) of
        (Some dl, Some i) \<Rightarrow>
          if pm_size (ij_pending s) \<ge> dl_maxInflight dl then add_call notif None (Failed InflightFull) s
          else
            (case pm_register (ij_pending s) i (dl_timeoutMs dl) of
               (Inl RangeError, p) \<Rightarrow> add_call notif None (Failed BadTimeout) (s\<lparr>ij_pending := p\<rparr>)
             | (Inl (PendingDuplicateError k), p) \<Rightarrow> add_call notif None (Failed DuplicateId) (s\<lparr>ij_pending := p\<rparr>)
             | (Inr n, p) \<Rightarrow> inject_write notif (Some (i, n)) wr (s\<lparr>ij_pending := p\<rparr>))
      | _ \<Rightarrow> inject_write notif None wr s)"

text \<open>The writer's \<open>drain\<close> settles: \<open>err\<close> is its rejection.\<close>

definition inject_drained :: "nat \<Rightarrow> string option \<Rightarrow> injector \<Rightarrow> injector" where
  "inject_drained n err s =
     (if n < length (ij_calls s) \<and> ic_stage (ij_calls s ! n) = Draining then
        (case err of
           Some e \<Rightarrow> set_stage n (Failed (WriteFailed e)) (drop_pending (ic_wait (ij_calls s ! n)) e s)
         | None \<Rightarrow> set_stage n (if ic_wait (ij_calls s ! n) = None then Delivered else Awaiting) s)
      else s)"

text \<open>The call goes on once the promise it awaits is settled.\<close>

definition inject_settled :: "nat \<Rightarrow> injector \<Rightarrow> injector" where
  "inject_settled n s =
     (if n < length (ij_calls s) \<and> ic_stage (ij_calls s ! n) = Awaiting then
        (case ic_wait (ij_calls s ! n) of
           None \<Rightarrow> s
         | Some (i, p) \<Rightarrow>
             (case map_of (settled (ij_pending s)) p of
                None \<Rightarrow> s
              | Some (Resolved v) \<Rightarrow> set_stage n Delivered s
              | Some (PendingTimeoutError k ms) \<Rightarrow>
                  set_stage n (Failed DeliveryTimeout) (drop_pending (Some (i, p)) ''pending entry timed out'' s)
              | Some (Rejected e) \<Rightarrow>
                  set_stage n (Failed (DeliveryRejected e)) (drop_pending (Some (i, p)) e s)))
      else s)"

datatype inject_event =
    Inject jsval "string option"
  | Drained nat "string option"
  | Settled nat
  | DeliveredFrame "byte list"
  | TimerFires nat
  | ConnectionClosed string

fun inject_step :: "parser \<Rightarrow> delivery_opts option \<Rightarrow> injector \<Rightarrow> inject_event \<Rightarrow> injector" where
  "inject_step parse opts s (Inject notif wr) = inject_start opts notif wr s"
| "inject_step parse opts s (Drained n err) = inject_drained n err s"
| "inject_step parse opts s (Settled n) = inject_settled n s"
| "inject_step parse opts s (DeliveredFrame payload) =
     (case opts of None \<Rightarrow> s
      | Some dl \<Rightarrow> s\<lparr>ij_pending := snd (feed_ctrl_delivered parse (dl_epoch dl) payload (ij_pending s))\<rparr>)"
| "inject_step parse opts s (TimerFires i) = s\<lparr>ij_pending := pm_fire (ij_pending s) i\<rparr>"
| "inject_step parse opts s (ConnectionClosed err) = s\<lparr>ij_pending := pm_reject_all (ij_pending s) err\<rparr>"

subsection \<open>Signing by the peer\<close>

record sign_call =
  sc_canon :: string
  sc_promise :: nat

record signer_state =
  sg_next :: nat
  sg_pending :: "(jsnum, sign_reply) pending_map"
  sg_frames :: "(jsnum \<times> string) list"
  sg_calls :: "sign_call list"

definition sg_new :: signer_state where
  "sg_new = \<lparr>sg_next = 1, sg_pending = pm_new, sg_frames = [], sg_calls = []\<rparr>"

definition req_key :: "nat \<Rightarrow> jsnum" where
  "req_key n = Fin (of_nat n)"

text \<open>A failed \<open>enqueueCtrl\<close> resolves the request just registered; a failed \<open>register\<close> is a failed call, without promise.\<close>

definition sign_start :: "jsnum \<Rightarrow> string \<Rightarrow> string option \<Rightarrow> signer_state \<Rightarrow> signer_state" where
  "sign_start timeoutMs canon wr s =
     (let key = req_key (sg_next s); s1 = s\<lparr>sg_next := Suc (sg_next s)\<rparr> in
      case pm_register (sg_pending s1) key timeoutMs of
        (Inl err, p) \<Rightarrow> s1
      | (Inr n, p) \<Rightarrow>
          (let s2 = s1\<lparr>sg_calls := sg_calls s1 @ [\<lparr>sc_canon = canon, sc_promise = n\<rparr>]\<rparr> in
           case wr of
             None \<Rightarrow> s2\<lparr>sg_pending := p, sg_frames := sg_frames s2 @ [(key, canon)]\<rparr>
           | Some e \<Rightarrow> s2\<lparr>sg_pending := snd (pm_resolve p key (SignErr (''sign_enqueue_failed: '' @ e)))\<rparr>))"

definition sign_result :: "signer_state \<Rightarrow> sign_call \<Rightarrow> (string + string) option" where
  "sign_result s c =
     (case map_of (settled (sg_pending s)) (sc_promise c) of
        None \<Rightarrow> None
      | Some (Resolved (SignOk sg)) \<Rightarrow> Some (Inr sg)
      | Some (Resolved (SignErr e)) \<Rightarrow> Some (Inl (''shim_sign_error: '' @ e))
      | Some (PendingTimeoutError k ms) \<Rightarrow> Some (Inl ''pending entry timed out'')
      | Some (Rejected e) \<Rightarrow> Some (Inl e))"

datatype sign_event =
    Sign string "string option"
  | SigFrame "byte list"
  | SignTimer nat
  | SignClosed string

fun sign_step :: "js_env \<Rightarrow> parser \<Rightarrow> jsnum \<Rightarrow> signer_state \<Rightarrow> sign_event \<Rightarrow> signer_state" where
  "sign_step je parse ms s (Sign canon wr) = sign_start ms canon wr s"
| "sign_step je parse ms s (SigFrame payload) = s\<lparr>sg_pending := snd (feed_ctrl_sig je parse payload (sg_pending s))\<rparr>"
| "sign_step je parse ms s (SignTimer i) = s\<lparr>sg_pending := pm_fire (sg_pending s) i\<rparr>"
| "sign_step je parse ms s (SignClosed err) = s\<lparr>sg_pending := pm_reject_all (sg_pending s) err\<rparr>"

subsection \<open>Lemmas on injection\<close>

fun injects :: "inject_event list \<Rightarrow> jsval list" where
  "injects [] = []"
| "injects (Inject notif wr # es) = notif # injects es"
| "injects (e # es) = injects es"

lemma injects_append [simp]: "injects (xs @ ys) = injects xs @ injects ys"
  by (induction xs rule: injects.induct) auto

lemma feed_delivered_step:
  "snd (feed_ctrl_delivered parse epoch payload p) = p
   \<or> (\<exists>msg i. parse payload = Some msg \<and> acks epoch msg i \<and> snd (feed_ctrl_delivered parse epoch payload p) = pm_step p (Resolve i epoch))"
  by (auto simp: feed_ctrl_delivered_def acks_def case_prod_beta Let_def split: option.split jsval.split)

text \<open>The acknowledgement of call \<open>n\<close> in a history: a \<open>delivered\<close> frame for its id that came after it began.\<close>

definition acked_in :: "parser \<Rightarrow> nat \<Rightarrow> inject_event list \<Rightarrow> nat \<Rightarrow> string \<Rightarrow> bool" where
  "acked_in parse epoch es n i \<longleftrightarrow>
     (\<exists>xs payload msg ys. es = xs @ DeliveredFrame payload # ys \<and> parse payload = Some msg \<and> acks epoch msg i
        \<and> n < length (injects xs))"

lemma acked_in_snoc: "acked_in parse epoch es n i \<Longrightarrow> acked_in parse epoch (es @ [e]) n i"
  by (fastforce simp: acked_in_def)

lemma acked_in_last:
  "parse payload = Some msg \<Longrightarrow> acks epoch msg i \<Longrightarrow> n < length (injects es) \<Longrightarrow> acked_in parse epoch (es @ [DeliveredFrame payload]) n i"
  by (fastforce simp: acked_in_def)

definition call_ok :: "(string, nat) pending_map \<Rightarrow> (nat \<Rightarrow> string \<Rightarrow> bool) \<Rightarrow> nat \<Rightarrow> inject_call \<Rightarrow> bool" where
  "call_ok p ack n c \<longleftrightarrow>
     (case ic_wait c of
        None \<Rightarrow> direct_notif_id (ic_notif c) = None \<or> (\<exists>e. ic_stage c = Failed e)
      | Some (i, q) \<Rightarrow> direct_notif_id (ic_notif c) = Some i \<and> q < next_id p
          \<and> (\<forall>k. (k, q) \<in> set (entries p) \<longrightarrow> k = i)
          \<and> (\<forall>v. (q, Resolved v) \<in> set (settled p) \<longrightarrow> ack n i)
          \<and> (ic_stage c = Delivered \<longrightarrow> ack n i))"

definition calls_ok :: "(string, nat) pending_map \<Rightarrow> (nat \<Rightarrow> string \<Rightarrow> bool) \<Rightarrow> inject_call list \<Rightarrow> bool" where
  "calls_ok p ack cs \<longleftrightarrow> (\<forall>n < length cs. call_ok p ack n (cs ! n))"

definition inject_inv :: "parser \<Rightarrow> delivery_opts \<Rightarrow> inject_event list \<Rightarrow> injector \<Rightarrow> bool" where
  "inject_inv parse dl es s \<longleftrightarrow> pm_wf (ij_pending s) \<and> pm_size (ij_pending s) \<le> dl_maxInflight dl
     \<and> map ic_notif (ij_calls s) = injects es
     \<and> calls_ok (ij_pending s) (acked_in parse (dl_epoch dl) es) (ij_calls s)"

lemma call_ok_ack: "call_ok p ack n c \<Longrightarrow> (\<And>n i. ack n i \<Longrightarrow> ack' n i) \<Longrightarrow> call_ok p ack' n c"
  by (fastforce simp: call_ok_def split: option.splits)

text \<open>An operation on the table that resolves only what is acknowledged keeps the calls sound.\<close>

lemma call_ok_step:
  assumes c: "call_ok p ack n c" and wf: "pm_wf p"
    and reg: "\<And>k ms. op = Register k ms \<Longrightarrow> False" and ack: "\<And>k v. op = Resolve k v \<Longrightarrow> ack n k"
  shows "call_ok (pm_step p op) ack n c"
proof (cases "ic_wait c")
  case None
  then show ?thesis using c by (simp add: call_ok_def)
next
  case (Some iq)
  then obtain i q where iq: "ic_wait c = Some (i, q)" by (cases iq) auto
  have "k = i" if "(k, q) \<in> set (entries (pm_step p op))" for k
    using pm_step_entries [OF wf that] c iq reg by (auto simp: call_ok_def)
  moreover have "ack n i" if r: "(q, Resolved v) \<in> set (settled (pm_step p op))" for v
  proof -
    consider "(q, Resolved v) \<in> set (settled p)" | k where "op = Resolve k v" "(k, q) \<in> set (entries p)"
      using pm_step_resolved [OF wf r] by blast
    then show ?thesis
      using c iq ack by cases (auto simp: call_ok_def)
  qed
  moreover have "q < next_id (pm_step p op)"
    using c iq pm_step_next_id [OF wf, of op] by (simp add: call_ok_def)
  ultimately show ?thesis
    using c iq by (auto simp: call_ok_def)
qed

lemma calls_ok_step:
  assumes "calls_ok p ack cs" "pm_wf p" "\<And>k ms. op = Register k ms \<Longrightarrow> False"
    "\<And>k v n. op = Resolve k v \<Longrightarrow> n < length cs \<Longrightarrow> ack n k"
  shows "calls_ok (pm_step p op) ack cs"
  using assms by (auto simp: calls_ok_def intro!: call_ok_step)

text \<open>A registration keeps the calls that are there: its promise is new.\<close>

lemma calls_ok_register:
  assumes cs: "calls_ok p ack cs" and r: "pm_register p k ms = (Inr m, p')"
  shows "calls_ok p' ack cs"
  unfolding calls_ok_def
proof (intro allI impI)
  fix n assume "n < length cs"
  then have "call_ok p ack n (cs ! n)" using cs by (simp add: calls_ok_def)
  then show "call_ok p' ack n (cs ! n)"
    using pm_register_new [OF r] by (auto simp: call_ok_def split: option.splits)
qed

lemma inject_inv_step:
  assumes "inject_inv parse dl es s" "\<And>k ms. op = Register k ms \<Longrightarrow> False"
    "\<And>k v n. op = Resolve k v \<Longrightarrow> n < length (injects es) \<Longrightarrow> acked_in parse (dl_epoch dl) es n k"
  shows "inject_inv parse dl es (s\<lparr>ij_pending := pm_step (ij_pending s) op\<rparr>)"
proof -
  have "pm_size (pm_step (ij_pending s) op) \<le> dl_maxInflight dl"
    using assms(1,2) pm_size_step [of "ij_pending s" op] by (auto simp: inject_inv_def)
  moreover have "length (ij_calls s) = length (injects es)"
    using assms(1) by (metis inject_inv_def length_map)
  ultimately show ?thesis
    using assms by (auto simp: inject_inv_def pm_wf_step intro!: calls_ok_step)
qed

lemma inject_inv_drop:
  assumes "inject_inv parse dl es s"
  shows "inject_inv parse dl es (drop_pending w e s)"
proof (cases w)
  case (Some ip)
  then show ?thesis
    using inject_inv_step [OF assms, of "Reject (fst ip) e"] by (simp add: drop_pending_def case_prod_beta)
qed (simp add: drop_pending_def assms)

lemma calls_drop [simp]: "ij_calls (drop_pending w e s) = ij_calls s"
  by (cases w) (auto simp: drop_pending_def)

text \<open>A call goes on to a failure, to waiting, or to its end with the acknowledgement it asked for.\<close>

lemma inject_inv_set_stage:
  assumes "inject_inv parse dl es s" "n < length (ij_calls s)" "c = ij_calls s ! n"
    and "ic_wait c = None \<Longrightarrow> (\<exists>e. ic_stage c = Failed e) \<Longrightarrow> \<exists>e. st = Failed e"
    and "\<And>i q. ic_wait c = Some (i, q) \<Longrightarrow> st = Delivered \<Longrightarrow> \<exists>v. (q, Resolved v) \<in> set (settled (ij_pending s))"
  shows "inject_inv parse dl es (set_stage n st s)"
proof -
  have ok: "call_ok (ij_pending s) (acked_in parse (dl_epoch dl) es) n c"
    using assms(1-3) by (simp add: inject_inv_def calls_ok_def)
  then have "call_ok (ij_pending s) (acked_in parse (dl_epoch dl) es) n (c\<lparr>ic_stage := st\<rparr>)"
    using assms(4,5) by (fastforce simp: call_ok_def split: option.splits)
  moreover have "map ic_notif ((ij_calls s)[n := c\<lparr>ic_stage := st\<rparr>]) = map ic_notif (ij_calls s)"
    using assms(2,3) by (simp add: map_update list_update_same_conv)
  ultimately show ?thesis
    using assms(1-3) by (auto simp: inject_inv_def set_stage_def calls_ok_def nth_list_update)
qed

lemma inject_inv_more:
  assumes "inject_inv parse dl es s" "injects [e] = []"
  shows "inject_inv parse dl (es @ [e]) s"
  using assms by (auto simp: inject_inv_def calls_ok_def intro: call_ok_ack acked_in_snoc)

lemma inject_inv_add:
  assumes "inject_inv parse dl es s"
    and "call_ok (ij_pending s) (acked_in parse (dl_epoch dl) es) (length (ij_calls s)) \<lparr>ic_notif = notif, ic_wait = w, ic_stage = st\<rparr>"
  shows "inject_inv parse dl (es @ [Inject notif wr]) (add_call notif w st s)"
  using assms
  by (auto simp: inject_inv_def add_call_def calls_ok_def nth_append less_Suc_eq intro: call_ok_ack acked_in_snoc)

lemma inject_inv_write:
  assumes "inject_inv parse dl es s"
    and "call_ok (ij_pending s) (acked_in parse (dl_epoch dl) es) (length (ij_calls s)) \<lparr>ic_notif = notif, ic_wait = w, ic_stage = Draining\<rparr>"
  shows "inject_inv parse dl (es @ [Inject notif wr']) (inject_write notif w wr s)"
proof (cases wr)
  case None
  have "inject_inv parse dl es (s\<lparr>ij_frames := ij_frames s @ [notif]\<rparr>)"
    using assms(1) by (simp add: inject_inv_def)
  then show ?thesis
    using inject_inv_add [where s = "s\<lparr>ij_frames := ij_frames s @ [notif]\<rparr>"] assms(2) None
    by (simp add: inject_write_def)
next
  case (Some err)
  let ?c = "\<lambda>st. \<lparr>ic_notif = notif, ic_wait = w, ic_stage = st\<rparr>"
  have wf: "pm_wf (ij_pending s)" using assms(1) by (simp add: inject_inv_def)
  have "call_ok (ij_pending s) (acked_in parse (dl_epoch dl) es) (length (ij_calls s)) (?c (Failed (WriteFailed err)))"
    using assms(2) by (auto simp: call_ok_def split: option.splits)
  then have "call_ok (ij_pending (drop_pending w err s)) (acked_in parse (dl_epoch dl) es) (length (ij_calls s))
      (?c (Failed (WriteFailed err)))"
    using call_ok_step [OF _ wf, of _ _ _ "Reject (fst (the w)) err"]
    by (cases w) (auto simp: drop_pending_def)
  then show ?thesis
    using inject_inv_add [OF inject_inv_drop [OF assms(1), of w err]] Some by (simp add: inject_write_def)
qed

lemma inject_inv_start:
  assumes inv: "inject_inv parse dl es s"
  shows "inject_inv parse dl (es @ [Inject notif wr]) (inject_start (Some dl) notif wr s)"
proof (cases "direct_notif_id notif")
  case None
  then show ?thesis
    using inject_inv_write [OF inv, of notif None] by (simp add: inject_start_def call_ok_def)
next
  case (Some i)
  show ?thesis
  proof (cases "pm_size (ij_pending s) \<ge> dl_maxInflight dl")
    case True
    then show ?thesis
      using Some inject_inv_add [OF inv, of notif None] by (simp add: inject_start_def call_ok_def)
  next
    case False
    obtain r p where r: "pm_register (ij_pending s) i (dl_timeoutMs dl) = (r, p)" by fastforce
    show ?thesis
    proof (cases r)
      case (Inl err)
      then have "p = ij_pending s" using r by (auto simp: pm_register_def split: if_splits)
      then show ?thesis
        using Some False r Inl inject_inv_add [OF inv, of notif None]
        by (cases err) (simp_all add: inject_start_def call_ok_def)
    next
      case (Inr n)
      note new = pm_register_new [OF r [unfolded Inr]]
      have wf: "pm_wf (ij_pending s)" using inv by (simp add: inject_inv_def)
      let ?s = "s\<lparr>ij_pending := p\<rparr>"
      have "inject_inv parse dl es ?s"
        using inv False new calls_ok_register [OF _ r [unfolded Inr]] pm_wf_step [OF wf, of "Register i (dl_timeoutMs dl)"]
        by (auto simp: inject_inv_def pm_size_def simp del: pm_step.simps)
      moreover have "call_ok p (acked_in parse (dl_epoch dl) es) (length (ij_calls s))
          \<lparr>ic_notif = notif, ic_wait = Some (i, n), ic_stage = Draining\<rparr>"
        using Some new pm_entry_bound [OF wf] pm_settled_bound [OF wf] by (fastforce simp: call_ok_def)
      ultimately show ?thesis
        using inject_inv_write [where s = ?s] Some False r Inr by (simp add: inject_start_def)
    qed
  qed
qed

lemma inject_inv_snoc:
  assumes inv: "inject_inv parse dl es s"
  shows "inject_inv parse dl (es @ [e]) (inject_step parse (Some dl) s e)"
proof (cases e)
  case (Inject notif wr)
  then show ?thesis using inject_inv_start [OF inv] by simp
next
  case (Drained n err)
  let ?c = "ij_calls s ! n"
  have "inject_inv parse dl es (inject_drained n err s)"
    using inv by (auto simp: inject_drained_def intro!: inject_inv_set_stage inject_inv_drop split: option.split)
  then show ?thesis using Drained inject_inv_more by simp
next
  case (Settled n)
  have "inject_inv parse dl es (inject_settled n s)"
    using inv by (auto simp: inject_settled_def intro!: inject_inv_set_stage inject_inv_drop
        split: option.split settlement.split dest!: map_of_SomeD)
  then show ?thesis using Settled inject_inv_more by simp
next
  case (DeliveredFrame payload)
  consider "snd (feed_ctrl_delivered parse (dl_epoch dl) payload (ij_pending s)) = ij_pending s"
    | msg i where "parse payload = Some msg" "acks (dl_epoch dl) msg i"
      "snd (feed_ctrl_delivered parse (dl_epoch dl) payload (ij_pending s)) = pm_step (ij_pending s) (Resolve i (dl_epoch dl))"
    using feed_delivered_step by blast
  then show ?thesis
  proof cases
    case 1
    then show ?thesis using inject_inv_more [OF inv] DeliveredFrame by simp
  next
    case 2
    have "inject_inv parse dl (es @ [e]) s" using inject_inv_more [OF inv] DeliveredFrame by simp
    then have "inject_inv parse dl (es @ [e]) (s\<lparr>ij_pending := pm_step (ij_pending s) (Resolve i (dl_epoch dl))\<rparr>)"
      by (rule inject_inv_step) (use 2 DeliveredFrame in \<open>auto intro: acked_in_last\<close>)
    then show ?thesis using 2 DeliveredFrame by simp
  qed
next
  case (TimerFires i)
  then show ?thesis
    using inject_inv_step [OF inject_inv_more [OF inv], of e "Fire i"] by simp
next
  case (ConnectionClosed err)
  then show ?thesis
    using inject_inv_step [OF inject_inv_more [OF inv], of e "RejectAll err"] by simp
qed

lemma inject_inv_run: "inject_inv parse dl es (run (inject_step parse (Some dl)) ij_new es)"
proof (induction es rule: rev_induct)
  case Nil
  show ?case by (simp add: inject_inv_def ij_new_def pm_wf_new calls_ok_def pm_size_def) (simp add: pm_new_def)
next
  case (snoc e es)
  then show ?case using inject_inv_snoc by (simp add: run_append)
qed

subsection \<open>Lemmas on signing\<close>

fun signs :: "sign_event list \<Rightarrow> string list" where
  "signs [] = []"
| "signs (Sign canon wr # es) = canon # signs es"
| "signs (e # es) = signs es"

lemma signs_append [simp]: "signs (xs @ ys) = signs xs @ signs ys"
  by (induction xs rule: signs.induct) auto

definition carries_sig :: "jsval \<Rightarrow> nat \<Rightarrow> string \<Rightarrow> bool" where
  "carries_sig msg n sg \<longleftrightarrow> jget msg ''t'' = JStr ''sig'' \<and> jget msg ''reqId'' = JNum (req_key (Suc n)) \<and> jget msg ''sig'' = JStr sg"

definition signed_in :: "parser \<Rightarrow> sign_event list \<Rightarrow> nat \<Rightarrow> string \<Rightarrow> bool" where
  "signed_in parse es n sg \<longleftrightarrow>
     (\<exists>xs payload msg ys. es = xs @ SigFrame payload # ys \<and> parse payload = Some msg \<and> carries_sig msg n sg
        \<and> n < length (signs xs))"

lemma signed_in_snoc: "signed_in parse es n sg \<Longrightarrow> signed_in parse (es @ [e]) n sg"
  by (fastforce simp: signed_in_def)

lemma signed_in_last:
  "parse payload = Some msg \<Longrightarrow> carries_sig msg n sg \<Longrightarrow> n < length (signs es) \<Longrightarrow> signed_in parse (es @ [SigFrame payload]) n sg"
  by (fastforce simp: signed_in_def)

lemma feed_sig_step:
  "snd (feed_ctrl_sig je parse payload p) = p
   \<or> (\<exists>msg k v. parse payload = Some msg \<and> jget msg ''reqId'' = JNum k
        \<and> (\<forall>sg. v = SignOk sg \<longrightarrow> jget msg ''t'' = JStr ''sig'' \<and> jget msg ''sig'' = JStr sg)
        \<and> snd (feed_ctrl_sig je parse payload p) = pm_step p (Resolve k v))"
proof (cases "parse payload")
  case None
  then show ?thesis by (simp add: feed_ctrl_sig_def)
next
  case (Some msg)
  show ?thesis
    by (auto simp: feed_ctrl_sig_def Some case_prod_beta Let_def is_str_iff split: jsval.split)
qed

definition sign_inv :: "parser \<Rightarrow> sign_event list \<Rightarrow> signer_state \<Rightarrow> bool" where
  "sign_inv parse es s \<longleftrightarrow> pm_wf (sg_pending s) \<and> map sc_canon (sg_calls s) = signs es
     \<and> map sc_promise (sg_calls s) = [0..<length (sg_calls s)]
     \<and> next_id (sg_pending s) = length (sg_calls s) \<and> sg_next s = Suc (length (sg_calls s))
     \<and> (\<forall>k p. (k, p) \<in> set (entries (sg_pending s)) \<longrightarrow> k = req_key (Suc p))
     \<and> (\<forall>p sg. (p, Resolved (SignOk sg)) \<in> set (settled (sg_pending s)) \<longrightarrow> signed_in parse es p sg)"

lemma sign_inv_more: "sign_inv parse es s \<Longrightarrow> signs [e] = [] \<Longrightarrow> sign_inv parse (es @ [e]) s"
  by (auto simp: sign_inv_def intro: signed_in_snoc)

lemma sign_inv_step:
  assumes inv: "sign_inv parse es s" and reg: "\<And>k ms. op = Register k ms \<Longrightarrow> False"
    and ok: "\<And>p sg. op = Resolve (req_key (Suc p)) (SignOk sg) \<Longrightarrow> p < length (signs es) \<Longrightarrow> signed_in parse es p sg"
  shows "sign_inv parse es (s\<lparr>sg_pending := pm_step (sg_pending s) op\<rparr>)"
proof -
  have wf: "pm_wf (sg_pending s)" using inv by (simp add: sign_inv_def)
  have len: "length (signs es) = next_id (sg_pending s)"
    using inv by (metis length_map sign_inv_def)
  have "next_id (pm_step (sg_pending s) op) = next_id (sg_pending s)"
    using reg wf by (cases op) (auto simp: pm_resolve_def pm_reject_def pm_finish_def pm_settle_def clear_timer_def
        pm_reject_all_eq pm_fire_def Let_def split: option.split)
  moreover have "k = req_key (Suc p)" if "(k, p) \<in> set (entries (pm_step (sg_pending s) op))" for k p
    using pm_step_entries [OF wf that] inv reg by (auto simp: sign_inv_def)
  moreover have "signed_in parse es p sg" if "(p, Resolved (SignOk sg)) \<in> set (settled (pm_step (sg_pending s) op))" for p sg
    using pm_step_resolved [OF wf that]
  proof (elim disjE exE conjE)
    fix k assume k: "op = Resolve k (SignOk sg)" "(k, p) \<in> set (entries (sg_pending s))"
    then have "k = req_key (Suc p)" "p < length (signs es)"
      using inv pm_entry_bound [OF wf k(2)] len by (auto simp: sign_inv_def)
    then show ?thesis using k(1) by (auto intro: ok)
  qed (use inv in \<open>simp add: sign_inv_def\<close>)
  ultimately show ?thesis
    using inv pm_wf_step [OF wf, of op] by (simp add: sign_inv_def del: pm_step.simps)
qed

lemma req_key_inject [simp]: "req_key m = req_key n \<longleftrightarrow> m = n"
  by (simp add: req_key_def)

lemma sign_inv_start:
  assumes inv: "sign_inv parse es s" and ms: "num_finite ms" "\<not> num_less ms (Fin 0)"
  shows "sign_inv parse (es @ [Sign canon wr]) (sign_start ms canon wr s)"
proof -
  let ?n = "length (sg_calls s)"
  let ?key = "req_key (Suc ?n)"
  have wf: "pm_wf (sg_pending s)" and nxt: "sg_next s = Suc ?n" "next_id (sg_pending s) = ?n"
    using inv by (simp_all add: sign_inv_def)
  have "?key \<notin> fst ` set (entries (sg_pending s))"
    using inv pm_entry_bound [OF wf] nxt by (fastforce simp: sign_inv_def)
  then obtain p where r: "pm_register (sg_pending s) ?key ms = (Inr ?n, p)"
    using ms nxt by (simp add: pm_register_def)
  note new = pm_register_new [OF r]
  let ?s = "\<lambda>fr. s\<lparr>sg_next := Suc (Suc ?n), sg_calls := sg_calls s @ [\<lparr>sc_canon = canon, sc_promise = ?n\<rparr>], sg_pending := p, sg_frames := fr\<rparr>"
  have base: "sign_inv parse (es @ [Sign canon wr]) (?s fr)" for fr
    using inv new(2,4,5) pm_wf_step [OF wf, of "Register ?key ms", folded new(3)] nxt
    by (auto simp: sign_inv_def intro: signed_in_snoc)
  show ?thesis
  proof (cases wr)
    case None
    then show ?thesis
      using base [of "sg_frames s @ [(?key, canon)]"] r nxt by (simp add: sign_start_def Let_def)
  next
    case (Some e)
    have "sign_inv parse (es @ [Sign canon wr])
        (?s (sg_frames s)\<lparr>sg_pending := pm_step p (Resolve ?key (SignErr (''sign_enqueue_failed: '' @ e)))\<rparr>)"
      using sign_inv_step [OF base [of "sg_frames s"], of "Resolve ?key (SignErr (''sign_enqueue_failed: '' @ e))"] by simp
    then show ?thesis
      using Some r nxt by (simp add: sign_start_def Let_def)
  qed
qed

lemma sign_inv_snoc:
  assumes inv: "sign_inv parse es s" and ms: "num_finite ms" "\<not> num_less ms (Fin 0)"
  shows "sign_inv parse (es @ [e]) (sign_step je parse ms s e)"
proof (cases e)
  case (SigFrame payload)
  have more: "sign_inv parse (es @ [e]) s" using sign_inv_more [OF inv] SigFrame by simp
  consider "snd (feed_ctrl_sig je parse payload (sg_pending s)) = sg_pending s"
    | msg k v where "parse payload = Some msg" "jget msg ''reqId'' = JNum k"
      "\<forall>sg. v = SignOk sg \<longrightarrow> jget msg ''t'' = JStr ''sig'' \<and> jget msg ''sig'' = JStr sg"
      "snd (feed_ctrl_sig je parse payload (sg_pending s)) = pm_step (sg_pending s) (Resolve k v)"
    using feed_sig_step by blast
  then show ?thesis
  proof cases
    case 2
    have "signed_in parse (es @ [e]) p sg"
      if "Resolve k v = Resolve (req_key (Suc p)) (SignOk sg)" "p < length (signs (es @ [e]))" for p sg
      using that 2(1-3) SigFrame signed_in_last [of parse payload msg p sg es] by (simp add: carries_sig_def)
    then have "sign_inv parse (es @ [e]) (s\<lparr>sg_pending := pm_step (sg_pending s) (Resolve k v)\<rparr>)"
      by (intro sign_inv_step [OF more]) simp_all
    then show ?thesis using 2 SigFrame by simp
  qed (use more SigFrame in simp)
next
  case (SignTimer i)
  then show ?thesis using sign_inv_step [OF sign_inv_more [OF inv], of e "Fire i"] by simp
next
  case (SignClosed err)
  then show ?thesis using sign_inv_step [OF sign_inv_more [OF inv], of e "RejectAll err"] by simp
qed (use sign_inv_start [OF inv ms] in simp)

lemma sign_inv_run:
  "num_finite ms \<Longrightarrow> \<not> num_less ms (Fin 0) \<Longrightarrow> sign_inv parse es (run (sign_step je parse ms) sg_new es)"
proof (induction es rule: rev_induct)
  case Nil
  show ?case by (simp add: sign_inv_def sg_new_def pm_wf_new) (simp add: pm_new_def)
next
  case (snoc e es)
  then show ?case using sign_inv_snoc by (simp add: run_append)
qed

subsection \<open>Properties\<close>

text \<open>
  C11. An injection of a direct message that is reported delivered really was: in any history of injections, answers
  of the writer, frames, timers and teardowns, a call that has returned without error was followed by a
  \<open>delivered\<close> control frame of the session's epoch for that very message id, received after the call began; and
  the injections that wait for one are never more than \<open>maxInflight\<close>.
\<close>

theorem delivery_ack_is_genuine:
  assumes "n < length (injects es)" "direct_notif_id (injects es ! n) = Some i"
    and "ic_stage (ij_calls (run (inject_step parse (Some dl)) ij_new es) ! n) = Delivered"
  shows "acked_in parse (dl_epoch dl) es n i
    \<and> pm_size (ij_pending (run (inject_step parse (Some dl)) ij_new es)) \<le> dl_maxInflight dl"
proof -
  let ?s = "run (inject_step parse (Some dl)) ij_new es"
  have inv: "inject_inv parse dl es ?s" by (rule inject_inv_run)
  then have calls: "map ic_notif (ij_calls ?s) = injects es" by (simp add: inject_inv_def)
  then have n: "n < length (ij_calls ?s)" using assms(1) by (metis length_map)
  then have "ic_notif (ij_calls ?s ! n) = injects es ! n" using calls by (metis nth_map)
  moreover have "call_ok (ij_pending ?s) (acked_in parse (dl_epoch dl) es) n (ij_calls ?s ! n)"
    using inv n by (simp add: inject_inv_def calls_ok_def)
  ultimately show ?thesis
    using assms(2,3) inv by (auto simp: call_ok_def inject_inv_def split: option.splits)
qed

definition toy_notif :: jsval where
  "toy_notif = JObj [(''params'', JObj [(''meta'', JObj [(''kind'', JStr ''direct''), (''notifId'', JStr ''m-1'')])])]"

definition toy_delivered :: jsval where
  "toy_delivered = JObj [(''t'', JStr ''delivered''), (''notifId'', JStr ''m-1''), (''epoch'', JNum (Fin 7)), (''status'', JStr ''ok'')]"

definition toy_delivery_opts :: delivery_opts where
  "toy_delivery_opts = \<lparr>dl_epoch = 7, dl_timeoutMs = Fin 30000, dl_maxInflight = 64\<rparr>"

lemma toy_notif_id [simp]: "direct_notif_id toy_notif = Some ''m-1''"
  by (simp add: direct_notif_id_def toy_notif_def is_message_def jget_def is_str_def Let_def)

lemmas inject_eval = inject_start_def inject_write_def inject_drained_def inject_settled_def add_call_def set_stage_def
  drop_pending_def ij_new_def pm_new_def pm_size_def pm_register_def pm_resolve_def pm_reject_def pm_finish_def
  pm_settle_def pm_fire_def clear_timer_def num_finite_def toy_delivery_opts_def

theorem delivery_ack_is_genuine_witness:
  "acked_in (\<lambda>_. Some toy_delivered) 7 [Inject toy_notif None, Drained 0 None, DeliveredFrame [], Settled 0] 0 ''m-1''"
proof -
  let ?es = "[Inject toy_notif None, Drained 0 None, DeliveredFrame [], Settled 0]"
  have f: "feed_ctrl_delivered (\<lambda>_. Some toy_delivered) 7 payload p = (let (known, p') = pm_resolve p ''m-1'' 7 in
      ((True, if known then None else Some (UnknownDelivered ''m-1'')), p'))" for payload p
    by (simp add: feed_ctrl_delivered_def toy_delivered_def is_message_def jget_def)
  have "ic_stage (ij_calls (run (inject_step (\<lambda>_. Some toy_delivered) (Some toy_delivery_opts)) ij_new ?es) ! 0) = Delivered"
    by (simp add: inject_eval f)
  then show ?thesis
    using delivery_ack_is_genuine [of 0 ?es "''m-1''" "\<lambda>_. Some toy_delivered" toy_delivery_opts]
    by (simp add: toy_delivery_opts_def)
qed

text \<open>
  The \<open>catch\<close> block rejects by id: the failure of a call whose entry has timed out while the writer was paused
  rejects the entry that a retry of the same message has registered since, although the retry itself is well.
\<close>

lemma stale_failure_rejects_retry:
  "ic_stage (ij_calls (run (inject_step parse (Some toy_delivery_opts)) ij_new
     [Inject toy_notif None, TimerFires 0, Inject toy_notif None, Drained 1 None, Drained 0 None, Settled 0, Settled 1]) ! 1)
   = Failed (DeliveryRejected ''pending entry timed out'')"
  by (simp add: inject_eval)

text \<open>
  A signature that \<open>makeUdsSign\<close> returns is the one the peer sent for that very request: the request of the n-th
  call carries the number n + 1, and the returned text came in a \<open>sig\<close> frame with
  that number, received after the call was made.
\<close>

theorem signature_answers_its_request:
  assumes "num_finite ms" "\<not> num_less ms (Fin 0)" "n < length (signs es)"
    and "sign_result (run (sign_step je parse ms) sg_new es) (sg_calls (run (sign_step je parse ms) sg_new es) ! n) = Some (Inr sg)"
  shows "signed_in parse es n sg"
proof -
  let ?s = "run (sign_step je parse ms) sg_new es"
  have inv: "sign_inv parse es ?s" using assms(1,2) by (rule sign_inv_run)
  then have "length (sg_calls ?s) = length (signs es)" by (metis length_map sign_inv_def)
  then have "sc_promise (sg_calls ?s ! n) = n"
    using inv assms(3) by (metis add_0 nth_map nth_upt sign_inv_def)
  then have "map_of (settled (sg_pending ?s)) n = Some (Resolved (SignOk sg))"
    using assms(4) by (auto simp: sign_result_def split: option.splits settlement.splits sign_reply.splits)
  then show ?thesis
    using inv by (auto simp: sign_inv_def dest!: map_of_SomeD)
qed

theorem signature_answers_its_request_witness:
  "signed_in (\<lambda>_. Some (JObj [(''t'', JStr ''sig''), (''reqId'', JNum (Fin 1)), (''sig'', JStr ''s'')])) [Sign ''c'' None, SigFrame []] 0 ''s''"
proof -
  let ?p = "\<lambda>_. Some (JObj [(''t'', JStr ''sig''), (''reqId'', JNum (Fin 1)), (''sig'', JStr ''s'')])"
  let ?run = "run (sign_step undefined ?p (Fin 10000)) sg_new [Sign ''c'' None, SigFrame []]"
  have "sign_result ?run (sg_calls ?run ! 0) = Some (Inr ''s'')"
    by (simp add: sign_start_def sg_new_def pm_new_def pm_register_def num_finite_def req_key_def feed_ctrl_sig_def
        is_message_def jget_def is_str_def pm_resolve_def pm_finish_def pm_settle_def clear_timer_def sign_result_def Let_def)
  then show ?thesis
    using signature_answers_its_request [of "Fin 10000" 0 "[Sign ''c'' None, SigFrame []]" undefined ?p "''s''"]
    by (simp add: num_finite_def)
qed

end
