(* ===== verification/Uds_Acceptor.thy ===== *)
theory Uds_Acceptor
  imports Frame_Codec Uds_Hello Uds_Transport
begin

text \<open>
  src/uds_acceptor.ts: \<open>UdsConnection\<close> and the listener of \<open>startUdsAcceptor\<close>. A connection runs \<open>runHello\<close>, asks
  the core for a session, and then routes frames between the socket, the MCP transport and the pending maps. The
  code between two \<open>await\<close>s is one step; the events of a connection are the chunks of the socket, the answers
  of Redis, of the core and of the writer, the timers, and the two halves of the teardown. The frames routed, what is
  sent, fed to the transport, asked of the core and granted by it is logged in order.

  The writer is the log \<open>cn_sent\<close> with the event \<open>WriterFails\<close> (see Frame_Writer for its own model), JSON parsing is a
  parameter, and \<open>throws p\<close> says that the transport's message handler throws on \<open>p\<close>.
\<close>

subsection \<open>State\<close>

datatype phase = PHello | PAuthed | PSession | PClosed

definition MAX_PRE_HELLO_CTRL :: nat where "MAX_PRE_HELLO_CTRL = 8"
definition MAX_PRE_SESSION_MCP_FRAMES :: nat where "MAX_PRE_SESSION_MCP_FRAMES = 16"
definition MAX_PRE_SESSION_BYTES :: nat where "MAX_PRE_SESSION_BYTES = 1024 * 1024"

lemmas acceptor_consts = MAX_PRE_HELLO_CTRL_def MAX_PRE_SESSION_MCP_FRAMES_def MAX_PRE_SESSION_BYTES_def

datatype core_call = AddSession string nat bool | AddGranted string nat | RemoveSession string nat

datatype run_pc =
    InHello hello_pc
  | FlushThenFail
  | Adding string nat string
  | FlushOk
  | RunDone

datatype teardown = NotTorn | TearScheduled | TearClosing | TornDown

record conn =
  cn_phase :: phase
  cn_decoder :: frame_decoder
  cn_ctrl :: "(jsnum, sign_reply) pending_map"
  cn_delivery :: "(string, nat) pending_map"
  cn_helloQ :: "jsval list"
  cn_waiters :: nat
  cn_inbox :: "jsval option"
  cn_mcpBuffer :: "byte list list"
  cn_preSessionBytes :: nat
  cn_preHelloPings :: nat
  cn_session :: "(string \<times> nat) option"
  cn_idle :: bool
  cn_run :: run_pc
  cn_teardown :: teardown
  cn_heard :: "decoded_frame list"
  cn_sent :: "jsval list"
  cn_fed :: "byte list list"
  cn_calls :: "core_call list"

record 'k uds_env =
  ue_hello :: "'k hello_env"
  ue_je :: js_env
  ue_parse :: parser
  ue_throws :: "byte list \<Rightarrow> bool"
  ue_expectedUid :: "int option"
  ue_idleMs :: jsnum

subsection \<open>Sending and failing\<close>

definition send_ctrl :: "jsval \<Rightarrow> conn \<Rightarrow> conn" where
  "send_ctrl msg c = (if cn_phase c = PClosed then c else c\<lparr>cn_sent := cn_sent c @ [msg]\<rparr>)"

definition send_pong :: "jsval \<Rightarrow> conn \<Rightarrow> conn" where
  "send_pong ping c =
     send_ctrl (JObj ((''t'', JStr ''pong'') #
       (case jget ping ''ts'' of JNum n \<Rightarrow> [(''ts'', JNum n)] | JStr s \<Rightarrow> [(''ts'', JStr s)] | _ \<Rightarrow> []))) c"

text \<open>\<open>teardown\<close> up to its first \<open>await\<close>; \<open>fail\<close> logs and calls it. A second call finds the first.\<close>

definition fail_conn :: "conn \<Rightarrow> conn" where
  "fail_conn c =
     (if cn_teardown c \<noteq> NotTorn then c
      else c\<lparr>cn_phase := PClosed, cn_idle := False, cn_teardown := TearScheduled\<rparr>)"

definition push_hello_ctrl :: "jsval \<Rightarrow> conn \<Rightarrow> conn" where
  "push_hello_ctrl obj c =
     (if 0 < cn_waiters c then c\<lparr>cn_waiters := cn_waiters c - 1, cn_inbox := Some obj\<rparr>
      else c\<lparr>cn_helloQ := cn_helloQ c @ [obj]\<rparr>)"

definition recv_ctrl :: "conn \<Rightarrow> conn" where
  "recv_ctrl c =
     (case cn_helloQ c of
        q # qs \<Rightarrow> c\<lparr>cn_helloQ := qs, cn_inbox := Some q\<rparr>
      | [] \<Rightarrow> c\<lparr>cn_waiters := Suc (cn_waiters c)\<rparr>)"

definition update_idle :: "'k uds_env \<Rightarrow> conn \<Rightarrow> conn" where
  "update_idle ue c =
     (if fd_buffered_bytes (cn_decoder c) > 0 then
        (if \<not> cn_idle c \<and> cn_phase c \<noteq> PClosed \<and> num_less (Fin 0) (ue_idleMs ue) then c\<lparr>cn_idle := True\<rparr> else c)
      else c\<lparr>cn_idle := False\<rparr>)"

subsection \<open>Routing frames\<close>

definition is_ctrl_ping :: "jsval \<Rightarrow> bool" where
  "is_ctrl_ping v \<longleftrightarrow> is_message v \<and> jget v ''t'' = JStr ''ping''"

definition feed_mcp :: "'k uds_env \<Rightarrow> byte list \<Rightarrow> conn \<Rightarrow> conn" where
  "feed_mcp ue p c =
     (let c' = c\<lparr>cn_fed := cn_fed c @ [p]\<rparr> in if ue_throws ue p then fail_conn c' else c')"

definition route_ctrl :: "'k uds_env \<Rightarrow> byte list \<Rightarrow> conn \<Rightarrow> conn" where
  "route_ctrl ue p c =
     (if cn_phase c = PHello then
        (case ue_parse ue p of
           None \<Rightarrow> fail_conn c
         | Some obj \<Rightarrow>
             if is_ctrl_ping obj then
               (let c1 = c\<lparr>cn_preHelloPings := Suc (cn_preHelloPings c)\<rparr> in
                if cn_preHelloPings c1 > MAX_PRE_HELLO_CTRL then fail_conn c1 else send_pong obj c1)
             else if length (cn_helloQ c) \<ge> MAX_PRE_HELLO_CTRL then fail_conn c
             else push_hello_ctrl obj c)
      else
        (case ue_parse ue p of
           Some obj \<Rightarrow> if is_ctrl_ping obj then send_pong obj c else
             (case cn_session c of
                Some (agent, epoch) \<Rightarrow>
                  (let ((mine, err), q) = feed_ctrl_delivered (ue_parse ue) epoch p (cn_delivery c);
                       c1 = c\<lparr>cn_delivery := q\<rparr> in
                   if mine then c1 else c1\<lparr>cn_ctrl := snd (feed_ctrl_sig (ue_je ue) (ue_parse ue) p (cn_ctrl c1))\<rparr>)
              | None \<Rightarrow> c\<lparr>cn_ctrl := snd (feed_ctrl_sig (ue_je ue) (ue_parse ue) p (cn_ctrl c))\<rparr>)
         | None \<Rightarrow> c))"

definition route_mcp :: "'k uds_env \<Rightarrow> byte list \<Rightarrow> conn \<Rightarrow> conn" where
  "route_mcp ue p c =
     (if cn_phase c = PSession then feed_mcp ue p c
      else
        (let c1 = c\<lparr>cn_preSessionBytes := cn_preSessionBytes c + length p\<rparr> in
         if length (cn_mcpBuffer c1) \<ge> MAX_PRE_SESSION_MCP_FRAMES \<or> cn_preSessionBytes c1 > MAX_PRE_SESSION_BYTES
         then fail_conn c1
         else c1\<lparr>cn_mcpBuffer := cn_mcpBuffer c1 @ [p]\<rparr>))"

definition route_frame :: "'k uds_env \<Rightarrow> decoded_frame \<Rightarrow> conn \<Rightarrow> conn" where
  "route_frame ue f c =
     (if cn_phase c = PClosed then c
      else (let c1 = c\<lparr>cn_heard := cn_heard c @ [f]\<rparr> in
            case fr_type f of
              FRAME_TYPE_CTRL \<Rightarrow> route_ctrl ue (fr_payload f) c1
            | FRAME_TYPE_MCP \<Rightarrow> route_mcp ue (fr_payload f) c1))"

definition on_data :: "'k uds_env \<Rightarrow> byte list \<Rightarrow> conn \<Rightarrow> conn" where
  "on_data ue chunk c =
     (if cn_phase c = PClosed then c
      else
        (case fd_push (cn_decoder c) chunk of
           (Inl err, d) \<Rightarrow> fail_conn (c\<lparr>cn_decoder := d\<rparr>)
         | (Inr frames, d) \<Rightarrow> update_idle ue (fold (route_frame ue) frames (c\<lparr>cn_decoder := d\<rparr>))))"

subsection \<open>The run of a connection\<close>

definition send_all :: "jsval list \<Rightarrow> conn \<Rightarrow> conn" where
  "send_all msgs c = fold send_ctrl msgs c"

text \<open>
  After a step of the handshake: when it waits for a message, the next one is received; when it has ended, \<open>run\<close> goes on.
\<close>

definition after_hello :: "hello_pc \<Rightarrow> conn \<Rightarrow> conn" where
  "after_hello pc c =
     (case pc of
        HelloDone res \<Rightarrow>
          if cn_phase c = PClosed then c\<lparr>cn_run := RunDone\<rparr>
          else
            (case res of
               HelloFailed code \<Rightarrow> c\<lparr>cn_run := FlushThenFail\<rparr>
             | HelloOk agent session epoch toolOnly delivery \<Rightarrow>
                 c\<lparr>cn_phase := PAuthed, cn_run := Adding agent epoch session,
                   cn_calls := cn_calls c @ [AddSession agent epoch toolOnly]\<rparr>)
      | _ \<Rightarrow> c\<lparr>cn_run := InHello pc\<rparr>)"

definition conn_new :: "'k uds_env \<Rightarrow> int option \<Rightarrow> conn" where
  "conn_new ue peerUid =
     (let c0 = \<lparr>cn_phase = PHello, cn_decoder = fd_new, cn_ctrl = pm_new, cn_delivery = pm_new, cn_helloQ = [], cn_waiters = 0,
          cn_inbox = None, cn_mcpBuffer = [], cn_preSessionBytes = 0, cn_preHelloPings = 0, cn_session = None, cn_idle = False,
          cn_run = InHello AwaitHello, cn_teardown = NotTorn, cn_heard = [], cn_sent = [], cn_fed = [], cn_calls = []\<rparr>;
          (pc, msgs) = hello_start (ue_expectedUid ue) peerUid;
          c1 = after_hello pc (send_all msgs c0) in
      if pc = AwaitHello then recv_ctrl c1 else c1)"

text \<open>\<open>runHello\<close> resumes with the message that \<open>recvCtrl\<close> was resolved with.\<close>

definition hello_resume :: "'k uds_env \<Rightarrow> byte list \<Rightarrow> conn \<Rightarrow> conn" where
  "hello_resume ue nonce c =
     (case (cn_run c, cn_inbox c) of
        (InHello pc, Some msg) \<Rightarrow>
          (let (pc', msgs) = hello_message (ue_hello ue) msg nonce pc;
               c1 = after_hello pc' (send_all msgs (c\<lparr>cn_inbox := None\<rparr>)) in
           (case pc' of AwaitAuth h n \<Rightarrow> recv_ctrl c1 | _ \<Rightarrow> c1))
      | _ \<Rightarrow> c)"

definition hello_advance :: "(hello_pc \<Rightarrow> hello_pc sending) \<Rightarrow> conn \<Rightarrow> conn" where
  "hello_advance f c =
     (case cn_run c of
        InHello pc \<Rightarrow> (let (pc', msgs) = f pc in after_hello pc' (send_all msgs c))
      | _ \<Rightarrow> c)"

text \<open>The core answers \<open>addUdsSession\<close>.\<close>

definition add_answered :: "bool \<Rightarrow> conn \<Rightarrow> conn" where
  "add_answered ok c =
     (case cn_run c of
        Adding agent epoch session \<Rightarrow>
          if cn_phase c = PClosed then
            (if ok then c\<lparr>cn_run := RunDone, cn_calls := cn_calls c @ [AddGranted agent epoch, RemoveSession agent epoch]\<rparr>
             else c\<lparr>cn_run := RunDone\<rparr>)
          else if \<not> ok then
            send_ctrl (JObj [(''t'', JStr ''err''), (''code'', JStr ''session_unavailable'')]) (c\<lparr>cn_run := FlushThenFail\<rparr>)
          else
            send_ctrl (JObj [(''t'', JStr ''ok''), (''session'', JStr session), (''epoch'', JNum (Fin (of_nat epoch)))])
              (c\<lparr>cn_session := Some (agent, epoch), cn_run := FlushOk, cn_calls := cn_calls c @ [AddGranted agent epoch]\<rparr>)
      | _ \<Rightarrow> c)"

text \<open>The loop over the buffered payloads stops at the first that throws; the others are gone.\<close>

fun feed_buffered :: "'k uds_env \<Rightarrow> byte list list \<Rightarrow> conn \<Rightarrow> conn" where
  "feed_buffered ue [] c = c"
| "feed_buffered ue (p # ps) c = (let c' = feed_mcp ue p c in if ue_throws ue p then c' else feed_buffered ue ps c')"

text \<open>The flush that \<open>run\<close> waits for settles.\<close>

definition flushed :: "'k uds_env \<Rightarrow> conn \<Rightarrow> conn" where
  "flushed ue c =
     (case cn_run c of
        FlushThenFail \<Rightarrow> fail_conn (c\<lparr>cn_run := RunDone\<rparr>)
      | FlushOk \<Rightarrow>
          if cn_phase c = PClosed then c\<lparr>cn_run := RunDone\<rparr>
          else feed_buffered ue (cn_mcpBuffer c) (c\<lparr>cn_run := RunDone, cn_phase := PSession, cn_mcpBuffer := []\<rparr>)
      | _ \<Rightarrow> c)"

subsection \<open>Teardown\<close>

definition closed_msg :: jsval where
  "closed_msg = JObj [(''t'', JStr ''err''), (''code'', JStr ''connection_closed'')]"

text \<open>The body of the teardown up to the close of the transport, and from there to the end.\<close>

definition teardown_body :: "conn \<Rightarrow> conn" where
  "teardown_body c =
     (if cn_teardown c = TearScheduled then
        c\<lparr>cn_teardown := TearClosing,
          cn_ctrl := pm_reject_all (cn_ctrl c) ''connection closed'',
          cn_delivery := pm_reject_all (cn_delivery c) ''connection closed'',
          cn_mcpBuffer := [],
          cn_inbox := (if 0 < cn_waiters c then Some closed_msg else cn_inbox c),
          cn_waiters := 0\<rparr>
      else c)"

definition teardown_end :: "conn \<Rightarrow> conn" where
  "teardown_end c =
     (if cn_teardown c = TearClosing then
        c\<lparr>cn_teardown := TornDown,
          cn_calls := cn_calls c @ (case cn_session c of Some (agent, epoch) \<Rightarrow> [RemoveSession agent epoch] | None \<Rightarrow> [])\<rparr>
      else c)"

datatype conn_event =
    Chunk "byte list"
  | IdleTimer
  | Resume "byte list"
  | HelloTimer
  | KeyAnswer rat key_reply
  | PresenceAnswer bool
  | EpochAnswer "jsnum option" string
  | AddAnswer bool
  | Flushed
  | SocketEnds
  | WriterFails
  | TeardownBody
  | TeardownEnd
  | SignRequest nat jsnum
  | DeliveryRequest string jsnum
  | PendingTimer bool nat

text \<open>
  The handshake timer only wins while no message has come. Requests of the core for a signature and injections
  register in the pending maps (see Uds_Transport), whose timers fire on their own.
\<close>

definition conn_step :: "'k uds_env \<Rightarrow> conn \<Rightarrow> conn_event \<Rightarrow> conn" where
  "conn_step ue c e =
     (case e of
        Chunk bs \<Rightarrow> on_data ue bs c
      | IdleTimer \<Rightarrow> if cn_idle c then fail_conn c else c
      | Resume nonce \<Rightarrow> hello_resume ue nonce c
      | HelloTimer \<Rightarrow> if cn_inbox c = None then hello_advance hello_timeout c else c
      | KeyAnswer now r \<Rightarrow> c
      | PresenceAnswer b \<Rightarrow> hello_advance (hello_presence b) c
      | EpochAnswer r session \<Rightarrow> hello_advance (hello_epoch r session) c
      | AddAnswer ok \<Rightarrow> add_answered ok c
      | Flushed \<Rightarrow> flushed ue c
      | SocketEnds \<Rightarrow> fail_conn c
      | WriterFails \<Rightarrow> fail_conn c
      | TeardownBody \<Rightarrow> teardown_body c
      | TeardownEnd \<Rightarrow> teardown_end c
      | SignRequest n ms \<Rightarrow> c\<lparr>cn_ctrl := snd (pm_register (cn_ctrl c) (req_key n) ms)\<rparr>
      | DeliveryRequest i ms \<Rightarrow> c\<lparr>cn_delivery := snd (pm_register (cn_delivery c) i ms)\<rparr>
      | PendingTimer sign i \<Rightarrow>
          if sign then c\<lparr>cn_ctrl := pm_fire (cn_ctrl c) i\<rparr> else c\<lparr>cn_delivery := pm_fire (cn_delivery c) i\<rparr>)"

text \<open>The one step that uses the shared key cache; the last result says which agent's key was asked of Redis.\<close>

definition conn_key_step ::
  "'k uds_env \<Rightarrow> rat \<Rightarrow> key_reply \<Rightarrow> 'k key_cache \<Rightarrow> conn \<Rightarrow> conn \<times> 'k key_cache \<times> string option" where
  "conn_key_step ue now r m c =
     (case cn_run c of
        InHello (AwaitKey h n auth) \<Rightarrow>
          (let ((pc', msgs), m') = hello_key (ue_hello ue) now r m (AwaitKey h n auth) in
           (after_hello pc' (send_all msgs c), m',
            if cached_key m (hello_agent h) now = None then Some (hello_agent h) else None))
      | _ \<Rightarrow> (c, m, None))"

subsection \<open>The listener\<close>

record 'k acceptor =
  ac_cache :: "'k key_cache"
  ac_conns :: "conn list"
  ac_asked :: "(string \<times> rat \<times> key_reply) list"
  ac_refused :: nat

definition acceptor_new :: "'k acceptor" where
  "acceptor_new = \<lparr>ac_cache = [], ac_conns = [], ac_asked = [], ac_refused = 0\<rparr>"

text \<open>A connection unregisters when its teardown ends.\<close>

definition live :: "'k acceptor \<Rightarrow> nat" where
  "live a = length (filter (\<lambda>c. cn_teardown c \<noteq> TornDown) (ac_conns a))"

datatype acceptor_event = Open "int option" | At nat conn_event

definition acceptor_step :: "'k uds_env \<Rightarrow> nat \<Rightarrow> 'k acceptor \<Rightarrow> acceptor_event \<Rightarrow> 'k acceptor" where
  "acceptor_step ue maxConnections a e =
     (case e of
        Open peerUid \<Rightarrow>
          if live a \<ge> maxConnections then a\<lparr>ac_refused := Suc (ac_refused a)\<rparr>
          else a\<lparr>ac_conns := ac_conns a @ [conn_new ue peerUid]\<rparr>
      | At i ce \<Rightarrow>
          if \<not> i < length (ac_conns a) then a
          else
            (case ce of
               KeyAnswer now r \<Rightarrow>
                 (let (c, m, asked) = conn_key_step ue now r (ac_cache a) (ac_conns a ! i) in
                  a\<lparr>ac_conns := (ac_conns a)[i := c], ac_cache := m,
                    ac_asked := ac_asked a @ (case asked of Some agent \<Rightarrow> [(agent, now, r)] | None \<Rightarrow> [])\<rparr>)
             | _ \<Rightarrow> a\<lparr>ac_conns := (ac_conns a)[i := conn_step ue (ac_conns a ! i) ce]\<rparr>))"

subsection \<open>What the steps leave alone\<close>

definition mcp_of :: "decoded_frame list \<Rightarrow> byte list list" where
  "mcp_of fs = map fr_payload (filter (\<lambda>f. fr_type f = FRAME_TYPE_MCP) fs)"

lemma mcp_of_simps [simp]: "mcp_of [] = []" "mcp_of (xs @ ys) = mcp_of xs @ mcp_of ys"
  "mcp_of [f] = (if fr_type f = FRAME_TYPE_MCP then [fr_payload f] else [])"
  by (simp_all add: mcp_of_def)

text \<open>The fields that carry the lifecycle of a connection and its MCP stream, the resources it holds, and its control side.\<close>

definition life :: "conn \<Rightarrow> phase \<times> run_pc \<times> teardown \<times> (string \<times> nat) option \<times> core_call list" where
  "life c = (cn_phase c, cn_run c, cn_teardown c, cn_session c, cn_calls c)"

definition stream :: "conn \<Rightarrow> phase \<times> decoded_frame list \<times> byte list list \<times> byte list list \<times> frame_decoder" where
  "stream c = (cn_phase c, cn_heard c, cn_fed c, cn_mcpBuffer c, cn_decoder c)"

definition held :: "conn \<Rightarrow> jsval list \<times> byte list list \<times> nat \<times> nat" where
  "held c = (cn_helloQ c, cn_mcpBuffer c, cn_preSessionBytes c, cn_preHelloPings c)"

lemma send_ctrl_simps [simp]:
  "life (send_ctrl m c) = life c" "stream (send_ctrl m c) = stream c" "held (send_ctrl m c) = held c"
  "cn_inbox (send_ctrl m c) = cn_inbox c" "cn_phase (send_ctrl m c) = cn_phase c" "cn_heard (send_ctrl m c) = cn_heard c"
  "cn_run (send_ctrl m c) = cn_run c" "cn_calls (send_ctrl m c) = cn_calls c" "cn_helloQ (send_ctrl m c) = cn_helloQ c"
  "cn_waiters (send_ctrl m c) = cn_waiters c" "cn_teardown (send_ctrl m c) = cn_teardown c"
  "cn_session (send_ctrl m c) = cn_session c" "cn_fed (send_ctrl m c) = cn_fed c" "cn_mcpBuffer (send_ctrl m c) = cn_mcpBuffer c"
  "cn_decoder (send_ctrl m c) = cn_decoder c"
  by (auto simp: send_ctrl_def life_def stream_def held_def)

lemma send_pong_simps [simp]:
  "life (send_pong m c) = life c" "stream (send_pong m c) = stream c" "held (send_pong m c) = held c"
  "cn_inbox (send_pong m c) = cn_inbox c" "cn_phase (send_pong m c) = cn_phase c" "cn_heard (send_pong m c) = cn_heard c"
  "cn_run (send_pong m c) = cn_run c" "cn_calls (send_pong m c) = cn_calls c" "cn_helloQ (send_pong m c) = cn_helloQ c"
  "cn_waiters (send_pong m c) = cn_waiters c" "cn_teardown (send_pong m c) = cn_teardown c"
  "cn_session (send_pong m c) = cn_session c" "cn_fed (send_pong m c) = cn_fed c" "cn_mcpBuffer (send_pong m c) = cn_mcpBuffer c"
  "cn_decoder (send_pong m c) = cn_decoder c"
  by (simp_all add: send_pong_def)

lemma send_ctrl_sent: "set (cn_sent c) \<subseteq> set (cn_sent (send_ctrl m c))" "set (cn_sent c) \<subseteq> set (cn_sent (send_pong m c))"
  by (auto simp: send_ctrl_def send_pong_def)

lemma send_all_simps [simp]:
  "life (send_all ms c) = life c" "stream (send_all ms c) = stream c" "held (send_all ms c) = held c"
  "cn_inbox (send_all ms c) = cn_inbox c" "cn_phase (send_all ms c) = cn_phase c" "cn_heard (send_all ms c) = cn_heard c"
  "cn_run (send_all ms c) = cn_run c" "cn_calls (send_all ms c) = cn_calls c" "cn_helloQ (send_all ms c) = cn_helloQ c"
  "cn_waiters (send_all ms c) = cn_waiters c" "cn_teardown (send_all ms c) = cn_teardown c"
  "cn_session (send_all ms c) = cn_session c" "cn_fed (send_all ms c) = cn_fed c" "cn_mcpBuffer (send_all ms c) = cn_mcpBuffer c"
  "cn_decoder (send_all ms c) = cn_decoder c"
  unfolding send_all_def by (induction ms arbitrary: c) simp_all

lemma send_all_eq: "cn_sent (send_all ms c) = (if cn_phase c = PClosed then cn_sent c else cn_sent c @ ms)"
  unfolding send_all_def by (induction ms arbitrary: c) (simp_all add: send_ctrl_def)

lemma send_all_sent: "set (cn_sent c) \<subseteq> set (cn_sent (send_all ms c))"
  unfolding send_all_def
proof (induction ms arbitrary: c)
  case (Cons m ms)
  have "set (cn_sent c) \<subseteq> set (cn_sent (send_ctrl m c))" by (rule send_ctrl_sent)
  also have "\<dots> \<subseteq> set (cn_sent (fold send_ctrl ms (send_ctrl m c)))" by (rule Cons.IH)
  finally show ?case by simp
qed simp

lemma life_updates [simp]:
  "life (c\<lparr>cn_decoder := v1\<rparr>) = life c" "life (c\<lparr>cn_ctrl := v2\<rparr>) = life c" "life (c\<lparr>cn_delivery := v3\<rparr>) = life c"
  "life (c\<lparr>cn_helloQ := v4\<rparr>) = life c" "life (c\<lparr>cn_waiters := v5\<rparr>) = life c" "life (c\<lparr>cn_inbox := v6\<rparr>) = life c"
  "life (c\<lparr>cn_mcpBuffer := v7\<rparr>) = life c" "life (c\<lparr>cn_preSessionBytes := v8\<rparr>) = life c"
  "life (c\<lparr>cn_preHelloPings := v8\<rparr>) = life c" "life (c\<lparr>cn_idle := v9\<rparr>) = life c" "life (c\<lparr>cn_heard := v10\<rparr>) = life c"
  "life (c\<lparr>cn_sent := v11\<rparr>) = life c" "life (c\<lparr>cn_fed := v12\<rparr>) = life c"
  by (simp_all add: life_def)

lemma fail_conn_fields [simp]:
  "cn_heard (fail_conn c) = cn_heard c" "cn_fed (fail_conn c) = cn_fed c" "cn_mcpBuffer (fail_conn c) = cn_mcpBuffer c"
  "held (fail_conn c) = held c" "cn_inbox (fail_conn c) = cn_inbox c" "cn_run (fail_conn c) = cn_run c"
  "cn_sent (fail_conn c) = cn_sent c" "cn_helloQ (fail_conn c) = cn_helloQ c" "cn_calls (fail_conn c) = cn_calls c"
  "cn_session (fail_conn c) = cn_session c" "cn_waiters (fail_conn c) = cn_waiters c" "cn_decoder (fail_conn c) = cn_decoder c"
  by (simp_all add: fail_conn_def held_def)

subsection \<open>The lifecycle\<close>

text \<open>\<open>added a e rest calls\<close>: the core was asked for the session, and then \<open>rest\<close> happened.\<close>

definition added :: "string \<Rightarrow> nat \<Rightarrow> core_call list \<Rightarrow> core_call list \<Rightarrow> bool" where
  "added a e rest calls \<longleftrightarrow> (\<exists>t. calls = AddSession a e t # rest)"

lemma added_simps [simp]: "added a e [] [AddSession a e t]" "\<not> added a e rest []"
  by (simp_all add: added_def)

lemma added_append: "added a e rest calls \<Longrightarrow> rest @ xs = rest' \<Longrightarrow> added a e rest' (calls @ xs)"
  by (auto simp: added_def)

definition removal :: "teardown \<Rightarrow> string \<Rightarrow> nat \<Rightarrow> core_call list" where
  "removal td a e = AddGranted a e # (if td = TornDown then [RemoveSession a e] else [])"

fun life_ok :: "phase \<times> run_pc \<times> teardown \<times> (string \<times> nat) option \<times> core_call list \<Rightarrow> bool" where
  "life_ok (ph, rn, td, ses, calls) \<longleftrightarrow> (ph = PClosed) = (td \<noteq> NotTorn) \<and>
     (case rn of
        InHello pc \<Rightarrow> ses = None \<and> calls = [] \<and> ph \<in> {PHello, PClosed}
      | FlushThenFail \<Rightarrow> ses = None \<and> (calls = [] \<and> ph \<in> {PHello, PClosed} \<or> (\<exists>a e. added a e [] calls) \<and> ph \<in> {PAuthed, PClosed})
      | Adding a e s \<Rightarrow> ses = None \<and> added a e [] calls \<and> ph \<in> {PAuthed, PClosed}
      | FlushOk \<Rightarrow> (\<exists>a e. ses = Some (a, e) \<and> added a e (removal td a e) calls) \<and> ph \<in> {PAuthed, PClosed}
      | RunDone \<Rightarrow>
          (ses = None \<and> ph = PClosed
             \<and> (calls = [] \<or> (\<exists>a e. added a e [] calls) \<or> (\<exists>a e. added a e [AddGranted a e, RemoveSession a e] calls)))
          \<or> ((\<exists>a e. ses = Some (a, e) \<and> added a e (removal td a e) calls) \<and> ph \<in> {PSession, PClosed}))"

lemma removal_cong: "td = TornDown \<longleftrightarrow> td' = TornDown \<Longrightarrow> removal td a e = removal td' a e"
  by (simp add: removal_def)

lemma removal_simps [simp]: "removal NotTorn a e = [AddGranted a e]" "removal TearScheduled a e = [AddGranted a e]"
  "removal TearClosing a e = [AddGranted a e]" "removal TornDown a e = [AddGranted a e, RemoveSession a e]"
  by (simp_all add: removal_def)

lemma life_fail: "life (fail_conn c) = (if cn_teardown c = NotTorn then (PClosed, cn_run c, TearScheduled, cn_session c, cn_calls c) else life c)"
  by (simp add: fail_conn_def life_def)

lemma life_ok_fail: "life_ok (life c) \<Longrightarrow> life_ok (life (fail_conn c))"
  by (cases "cn_run c"; cases "cn_teardown c") (auto simp: fail_conn_def life_def)

text \<open>Frames and timers change nothing in the lifecycle, or they fail the connection.\<close>

definition calm :: "conn \<Rightarrow> conn \<Rightarrow> bool" where
  "calm c c' \<longleftrightarrow> life c' = life c \<or> life c' = life (fail_conn c)"

lemma calm_refl [simp]: "calm c c"
  by (simp add: calm_def)

lemma life_cong_fail: "life c = life d \<Longrightarrow> life (fail_conn c) = life (fail_conn d)"
  by (simp add: life_def fail_conn_def)

lemma life_fail_fail: "life (fail_conn (fail_conn c)) = life (fail_conn c)"
  by (simp add: life_def fail_conn_def)

lemma calm_fail: "life c' = life c \<Longrightarrow> calm c (fail_conn c')"
  unfolding calm_def using life_cong_fail by blast

lemma calm_trans:
  assumes "calm c d" "calm d e"
  shows "calm c e"
proof -
  have "life (fail_conn d) = life (fail_conn c)"
    using assms(1) life_cong_fail life_fail_fail unfolding calm_def by metis
  then show ?thesis using assms unfolding calm_def by auto
qed

lemma calm_life_ok: "calm c c' \<Longrightarrow> life_ok (life c) \<Longrightarrow> life_ok (life c')"
  unfolding calm_def using life_ok_fail by metis

lemma calm_same: "life c' = life c \<Longrightarrow> calm c c'"
  by (simp add: calm_def)

lemma calm_from: "life d = life c \<Longrightarrow> calm d e \<Longrightarrow> calm c e"
  using calm_trans calm_same by metis

lemma push_hello_life [simp]: "life (push_hello_ctrl m c) = life c"
  by (simp add: push_hello_ctrl_def life_def)

lemma recv_ctrl_life [simp]: "life (recv_ctrl c) = life c"
  by (simp add: recv_ctrl_def life_def split: list.split)

lemma update_idle_life [simp]: "life (update_idle ue c) = life c"
  by (simp add: update_idle_def)

lemma feed_mcp_calm: "calm c (feed_mcp ue p c)"
  by (simp add: feed_mcp_def Let_def calm_same calm_fail)

lemma route_ctrl_calm: "calm c (route_ctrl ue p c)"
  unfolding route_ctrl_def by (simp add: Let_def case_prod_beta calm_same calm_fail split: option.split)

lemma route_mcp_calm: "calm c (route_mcp ue p c)"
  by (simp add: route_mcp_def Let_def feed_mcp_calm calm_same calm_fail)

lemma route_frame_calm: "calm c (route_frame ue f c)"
  by (simp add: route_frame_def Let_def calm_from [OF life_updates(11) route_ctrl_calm] calm_from [OF life_updates(11) route_mcp_calm]
      split: frame_type.split)

lemma route_frames_calm: "calm c (fold (route_frame ue) fs c)"
  by (induction fs arbitrary: c) (auto intro: calm_trans route_frame_calm)

lemma on_data_calm: "calm c (on_data ue chunk c)"
proof -
  have "calm c (update_idle ue (fold (route_frame ue) fs (c\<lparr>cn_decoder := d\<rparr>)))" for fs d
    using calm_trans [OF calm_same calm_trans [OF route_frames_calm calm_same]] by (metis update_idle_life life_updates(1))
  then show ?thesis
    by (simp add: on_data_def calm_fail split: sum.split prod.split)
qed

lemma after_hello_life:
  assumes "life_ok (life c)" "cn_run c = InHello pc"
  shows "life_ok (life (after_hello pc' c))"
  using assms by (auto simp: after_hello_def life_def split: hello_pc.split hello_result.split)

lemma life_ok_cong: "life c = life d \<Longrightarrow> life_ok (life c) = life_ok (life d)"
  by simp

lemma hello_advance_life: "life_ok (life c) \<Longrightarrow> life_ok (life (hello_advance f c))"
  using after_hello_life [of "send_all ms c" for ms]
  by (auto simp: hello_advance_def case_prod_beta Let_def split: run_pc.split)

lemma hello_resume_life:
  assumes "life_ok (life c)"
  shows "life_ok (life (hello_resume ue nonce c))"
proof -
  show ?thesis
    using assms after_hello_life [of "send_all ms (c\<lparr>cn_inbox := None\<rparr>)" for ms]
    by (auto simp: hello_resume_def case_prod_beta Let_def split: run_pc.split option.split hello_pc.split)
qed

lemma feed_buffered_calm: "calm c (feed_buffered ue ps c)"
  by (induction ps arbitrary: c) (auto simp: Let_def intro: calm_trans feed_mcp_calm)

lemma flushed_life:
  assumes "life_ok (life c)"
  shows "life_ok (life (flushed ue c))"
proof -
  have "life_ok (life (feed_buffered ue (cn_mcpBuffer c) (c\<lparr>cn_run := RunDone, cn_phase := PSession, cn_mcpBuffer := []\<rparr>)))"
    if "cn_run c = FlushOk" "cn_phase c \<noteq> PClosed"
    by (rule calm_life_ok [OF feed_buffered_calm]) (use assms that in \<open>auto simp: life_def\<close>)
  moreover have "life_ok (life (fail_conn (c\<lparr>cn_run := RunDone\<rparr>)))" if "cn_run c = FlushThenFail"
    using assms that by (auto simp: fail_conn_def life_def Let_def)
  moreover have "life_ok (life (c\<lparr>cn_run := RunDone\<rparr>))" if "cn_run c = FlushOk" "cn_phase c = PClosed"
    using assms that by (auto simp: life_def Let_def)
  ultimately show ?thesis
    using assms by (auto simp: flushed_def split: run_pc.split)
qed

lemma add_answered_life:
  assumes "life_ok (life c)"
  shows "life_ok (life (add_answered ok c))"
proof (cases "cn_run c")
  case (Adding a e s)
  then have "added a e [] (cn_calls c)" using assms by (simp add: life_def)
  then have "added a e [AddGranted a e] (cn_calls c @ [AddGranted a e])"
    "added a e [AddGranted a e, RemoveSession a e] (cn_calls c @ [AddGranted a e, RemoveSession a e])"
    by (auto intro: added_append)
  then show ?thesis
    using assms Adding by (cases "cn_teardown c") (auto simp: add_answered_def life_def)
qed (use assms in \<open>simp_all add: add_answered_def\<close>)

lemma teardown_life:
  assumes "life_ok (life c)"
  shows "life_ok (life (teardown_body c))" "life_ok (life (teardown_end c))"
  using assms by (cases "cn_run c"; auto simp: teardown_body_def teardown_end_def life_def added_append split: option.splits)+

lemma conn_step_life:
  assumes "life_ok (life c)"
  shows "life_ok (life (conn_step ue c e))"
proof -
  have fail: "life_ok (life (fail_conn c))" using assms by (rule life_ok_fail)
  show ?thesis
    using assms fail by (cases e) (simp_all add: conn_step_def hello_advance_life hello_resume_life flushed_life
        add_answered_life teardown_life calm_life_ok [OF on_data_calm])
qed

lemma conn_new_life: "life_ok (life (conn_new ue peerUid))"
  by (simp add: conn_new_def hello_start_def hello_fail_def after_hello_def case_prod_beta Let_def split: option.split)
    (simp add: life_def)

subsection \<open>Resources of a connection\<close>

definition held_ok :: "conn \<Rightarrow> bool" where
  "held_ok c \<longleftrightarrow> length (cn_helloQ c) \<le> MAX_PRE_HELLO_CTRL
     \<and> length (cn_mcpBuffer c) \<le> MAX_PRE_SESSION_MCP_FRAMES
     \<and> sum_list (map length (cn_mcpBuffer c)) \<le> cn_preSessionBytes c
     \<and> sum_list (map length (cn_mcpBuffer c)) \<le> MAX_PRE_SESSION_BYTES
     \<and> cn_preHelloPings c \<le> Suc MAX_PRE_HELLO_CTRL
     \<and> (cn_phase c \<noteq> PClosed \<longrightarrow> cn_preHelloPings c \<le> MAX_PRE_HELLO_CTRL)"

lemma held_fields: "held c = held c' \<Longrightarrow> (cn_phase c = PClosed \<Longrightarrow> cn_phase c' = PClosed) \<Longrightarrow> held_ok c \<Longrightarrow> held_ok c'"
  by (auto simp: held_def held_ok_def)

lemma fail_phase: "life_ok (life c) \<Longrightarrow> cn_phase (fail_conn c) = PClosed"
  by (auto simp: fail_conn_def life_def)

lemma fail_keeps_closed: "cn_phase c = PClosed \<Longrightarrow> cn_phase (fail_conn c) = PClosed"
  by (simp add: fail_conn_def)

lemma held_ok_fail: "held_ok c \<Longrightarrow> held_ok (fail_conn c)"
  by (rule held_fields [of c]) (simp_all add: fail_keeps_closed)

lemma held_updates [simp]:
  "held_ok (c\<lparr>cn_decoder := v1\<rparr>) = held_ok c" "held_ok (c\<lparr>cn_ctrl := v2\<rparr>) = held_ok c" "held_ok (c\<lparr>cn_delivery := v3\<rparr>) = held_ok c"
  "held_ok (c\<lparr>cn_waiters := v5\<rparr>) = held_ok c" "held_ok (c\<lparr>cn_inbox := v6\<rparr>) = held_ok c"
  "held_ok (c\<lparr>cn_idle := v9\<rparr>) = held_ok c" "held_ok (c\<lparr>cn_heard := v10\<rparr>) = held_ok c"
  "held_ok (c\<lparr>cn_sent := v11\<rparr>) = held_ok c" "held_ok (c\<lparr>cn_fed := v12\<rparr>) = held_ok c" "held_ok (c\<lparr>cn_run := v13\<rparr>) = held_ok c"
  "held_ok (c\<lparr>cn_calls := v14\<rparr>) = held_ok c" "held_ok (c\<lparr>cn_session := v15\<rparr>) = held_ok c"
  "held_ok (c\<lparr>cn_teardown := v16\<rparr>) = held_ok c"
  by (simp_all add: held_ok_def)

lemma send_held [simp]: "held_ok (send_ctrl m c) = held_ok c" "held_ok (send_pong m c) = held_ok c" "held_ok (send_all ms c) = held_ok c"
proof -
  show ctrl: "held_ok (send_ctrl m c) = held_ok c" for m c by (simp add: send_ctrl_def)
  then show "held_ok (send_pong m c) = held_ok c" by (simp add: send_pong_def)
  show "held_ok (send_all ms c) = held_ok c"
    unfolding send_all_def by (induction ms arbitrary: c) (simp_all add: ctrl)
qed

lemma feed_mcp_held: "held_ok c \<Longrightarrow> held_ok (feed_mcp ue p c)"
  by (simp add: feed_mcp_def Let_def held_ok_fail)

lemma held_ok_life_heard: "held_ok (c\<lparr>cn_preHelloPings := n\<rparr>)"
  if "held_ok c" "n \<le> MAX_PRE_HELLO_CTRL"
  using that by (simp add: held_ok_def)

lemma route_frame_held:
  assumes "held_ok c" "life_ok (life c)"
  shows "held_ok (route_frame ue f c)"
proof -
  have ping: "held_ok (fail_conn (c\<lparr>cn_heard := h, cn_preHelloPings := Suc (cn_preHelloPings c)\<rparr>))"
    if "cn_phase c \<noteq> PClosed" for h
  proof -
    let ?c = "c\<lparr>cn_heard := h, cn_preHelloPings := Suc (cn_preHelloPings c)\<rparr>"
    have "cn_phase (fail_conn ?c) = PClosed" by (rule fail_phase) (use assms(2) in simp)
    then show ?thesis using assms(1) that by (auto simp: held_ok_def fail_conn_def)
  qed
  have q: "held_ok (push_hello_ctrl obj (c\<lparr>cn_heard := h\<rparr>))" if "length (cn_helloQ c) < MAX_PRE_HELLO_CTRL" for obj h
    using assms(1) that by (auto simp: push_hello_ctrl_def held_ok_def)
  have buf: "held_ok (c\<lparr>cn_heard := h, cn_preSessionBytes := cn_preSessionBytes c + length p, cn_mcpBuffer := cn_mcpBuffer c @ [p]\<rparr>)"
    if "length (cn_mcpBuffer c) < MAX_PRE_SESSION_MCP_FRAMES" "cn_preSessionBytes c + length p \<le> MAX_PRE_SESSION_BYTES" for h p
    using assms(1) that by (auto simp: held_ok_def)
  have bytes: "held_ok (c\<lparr>cn_heard := h, cn_preSessionBytes := cn_preSessionBytes c + n\<rparr>)" for h n
    using assms(1) by (auto simp: held_ok_def)
  have more: "held_ok (c\<lparr>cn_heard := h, cn_preHelloPings := Suc (cn_preHelloPings c)\<rparr>)"
    if "\<not> MAX_PRE_HELLO_CTRL < Suc (cn_preHelloPings c)" for h
    using assms(1) that by (auto simp: held_ok_def)
  show ?thesis
    using assms(1) ping q buf more held_ok_fail [OF bytes]
    by (auto simp: route_frame_def route_ctrl_def route_mcp_def Let_def case_prod_beta feed_mcp_held held_ok_fail not_le not_less
        split: frame_type.split option.split)
qed

lemma route_frames_held:
  "held_ok c \<Longrightarrow> life_ok (life c) \<Longrightarrow> held_ok (fold (route_frame ue) fs c)"
  by (induction fs arbitrary: c) (simp_all add: route_frame_held calm_life_ok [OF route_frame_calm])

lemma recv_ctrl_held: "held_ok c \<Longrightarrow> held_ok (recv_ctrl c)"
  by (auto simp: recv_ctrl_def held_ok_def split: list.split)

lemma after_hello_held: "held_ok c \<Longrightarrow> held_ok (after_hello pc c)"
  by (auto simp: after_hello_def held_ok_def split: hello_pc.split hello_result.split)

lemma feed_buffered_held: "held_ok c \<Longrightarrow> held_ok (feed_buffered ue ps c)"
  by (induction ps arbitrary: c) (simp_all add: feed_mcp_held Let_def)

lemma conn_step_held:
  assumes "held_ok c" "life_ok (life c)"
  shows "held_ok (conn_step ue c e)"
proof (cases e)
  case (Chunk bs)
  have "held_ok (update_idle ue d)" if "held_ok d" for d using that by (simp add: update_idle_def)
  then show ?thesis
    using assms Chunk by (auto simp: conn_step_def on_data_def held_ok_fail route_frames_held split: sum.split prod.split)
next
  case (Resume nonce)
  then show ?thesis
    using assms by (auto simp: conn_step_def hello_resume_def case_prod_beta Let_def after_hello_held recv_ctrl_held
        split: run_pc.split option.split hello_pc.split)
next
  case Flushed
  have "held_ok (feed_buffered ue (cn_mcpBuffer c) (c\<lparr>cn_run := RunDone, cn_phase := PSession, cn_mcpBuffer := []\<rparr>))"
    if "cn_phase c \<noteq> PClosed"
    by (rule feed_buffered_held) (use assms that in \<open>auto simp: held_ok_def\<close>)
  then show ?thesis
    using assms Flushed by (auto simp: conn_step_def flushed_def held_ok_fail split: run_pc.split)
next
  case TeardownBody
  then show ?thesis using assms by (auto simp: conn_step_def teardown_body_def held_ok_def)
next
  case TeardownEnd
  then show ?thesis using assms by (auto simp: conn_step_def teardown_end_def)
qed (use assms in \<open>auto simp: conn_step_def hello_advance_def case_prod_beta Let_def after_hello_held held_ok_fail add_answered_def
    split: run_pc.split\<close>)

subsection \<open>The MCP stream\<close>

text \<open>
  While the connection is open, the payloads of the MCP frames routed so far are those in the buffer before the
  session is live and those fed to the transport after; a closed connection has fed a prefix of them.
\<close>

definition mcp_inv :: "conn \<Rightarrow> bool" where
  "mcp_inv c \<longleftrightarrow> prefix (cn_fed c) (mcp_of (cn_heard c))
     \<and> (cn_phase c \<in> {PHello, PAuthed} \<longrightarrow> cn_fed c = [] \<and> cn_mcpBuffer c = mcp_of (cn_heard c))
     \<and> (cn_phase c = PSession \<longrightarrow> cn_fed c = mcp_of (cn_heard c) \<and> cn_mcpBuffer c = [])"

definition stream_inv :: "byte list list \<Rightarrow> conn \<Rightarrow> bool" where
  "stream_inv cs c \<longleftrightarrow> mcp_inv c \<and> fd_wf (cn_decoder c)
     \<and> (cn_phase c \<noteq> PClosed \<longrightarrow> decode_bytes (concat cs) = Inr (cn_heard c, fd_abs (cn_decoder c)))"

lemma mcp_of_prefix: "prefix xs ys \<Longrightarrow> prefix (mcp_of xs) (mcp_of ys)"
  by (elim prefixE) simp

lemma mcp_inv_closed:
  assumes "mcp_inv c" "cn_phase c' = PClosed" "cn_fed c' = cn_fed c" "prefix (cn_heard c) (cn_heard c')"
  shows "mcp_inv c'"
proof -
  have "prefix (cn_fed c) (mcp_of (cn_heard c'))"
    using assms(1) mcp_of_prefix [OF assms(4)] prefix_order.trans by (auto simp: mcp_inv_def)
  then show ?thesis using assms(2,3) by (simp add: mcp_inv_def)
qed

lemma mcp_inv_cong:
  "mcp_inv c \<Longrightarrow> stream c' = stream c \<Longrightarrow> mcp_inv c'"
  by (simp add: mcp_inv_def stream_def)

lemma push_hello_stream [simp]: "stream (push_hello_ctrl m c) = stream c"
  by (simp add: push_hello_ctrl_def stream_def)

lemma recv_ctrl_stream [simp]: "stream (recv_ctrl c) = stream c"
  by (simp add: recv_ctrl_def stream_def split: list.split)

lemma update_idle_stream [simp]: "stream (update_idle ue c) = stream c"
  by (simp add: update_idle_def stream_def)

text \<open>What a control frame does to the stream: nothing, or it closes the connection.\<close>

definition quiet :: "conn \<Rightarrow> conn \<Rightarrow> bool" where
  "quiet c c' \<longleftrightarrow> stream c' = stream c \<or> (cn_phase c' = PClosed \<and> cn_fed c' = cn_fed c \<and> cn_heard c' = cn_heard c)"

lemma quiet_same: "stream c' = stream c \<Longrightarrow> quiet c c'"
  by (simp add: quiet_def)

lemma quiet_fail: "life_ok (life c) \<Longrightarrow> stream c' = stream c \<Longrightarrow> life c' = life c \<Longrightarrow> quiet c (fail_conn c')"
  using fail_phase [of c'] by (simp add: quiet_def stream_def)

lemma stream_updates [simp]:
  "stream (c\<lparr>cn_preHelloPings := n\<rparr>) = stream c" "stream (c\<lparr>cn_ctrl := x\<rparr>) = stream c" "stream (c\<lparr>cn_delivery := y\<rparr>) = stream c"
  "stream (c\<lparr>cn_inbox := z\<rparr>) = stream c" "stream (c\<lparr>cn_run := r\<rparr>) = stream c" "stream (c\<lparr>cn_calls := cl\<rparr>) = stream c"
  "stream (c\<lparr>cn_session := se\<rparr>) = stream c"
  by (simp_all add: stream_def)

lemma route_ctrl_quiet: "life_ok (life c) \<Longrightarrow> quiet c (route_ctrl ue p c)"
  unfolding route_ctrl_def by (simp add: Let_def case_prod_beta quiet_same quiet_fail split: option.split)

lemma quiet_mcp: "quiet c c' \<Longrightarrow> mcp_inv c \<Longrightarrow> mcp_inv c'"
  unfolding quiet_def using mcp_inv_cong mcp_inv_closed by (metis prefix_order.refl)

lemma feed_mcp_stream:
  assumes "mcp_inv c" "life_ok (life c)" "cn_phase c = PSession" "mcp_of h = mcp_of (cn_heard c) @ [p]"
  shows "mcp_inv (feed_mcp ue p (c\<lparr>cn_heard := h\<rparr>))"
proof -
  let ?c = "c\<lparr>cn_heard := h, cn_fed := cn_fed c @ [p]\<rparr>"
  have "cn_phase (fail_conn ?c) = PClosed" by (rule fail_phase) (use assms(2) in simp)
  then show ?thesis
    using assms by (auto simp: feed_mcp_def Let_def mcp_inv_def)
qed

lemma route_frame_mcp:
  assumes inv: "mcp_inv c" and life: "life_ok (life c)"
  shows "mcp_inv (route_frame ue f c)"
    and "cn_phase (route_frame ue f c) \<noteq> PClosed \<Longrightarrow> cn_phase c \<noteq> PClosed \<and> cn_heard (route_frame ue f c) = cn_heard c @ [f]"
proof -
  let ?c = "c\<lparr>cn_heard := cn_heard c @ [f]\<rparr>" and ?p = "fr_payload f"
  have l: "life_ok (life ?c)" using life by simp
  have ctrl: "mcp_inv (route_ctrl ue ?p ?c)" if "fr_type f = FRAME_TYPE_CTRL"
  proof -
    have "mcp_inv ?c" using inv that by (simp add: mcp_inv_def)
    then show ?thesis by (rule quiet_mcp [OF route_ctrl_quiet [OF l]])
  qed
  have closed: "cn_phase (fail_conn (?c\<lparr>cn_preSessionBytes := n\<rparr>)) = PClosed" for n
    by (rule fail_phase) (use life in simp)
  have mcp: "mcp_inv (route_mcp ue ?p ?c)" if "fr_type f = FRAME_TYPE_MCP" "cn_phase c \<noteq> PClosed"
  proof (cases "cn_phase c = PSession")
    case True
    then show ?thesis using that by (simp add: route_mcp_def feed_mcp_stream [OF inv life True])
  next
    case False
    then have "cn_phase c = PHello \<or> cn_phase c = PAuthed" using that by (cases "cn_phase c") auto
    then show ?thesis
      using inv that closed by (auto simp: route_mcp_def Let_def mcp_inv_def)
  qed
  show "mcp_inv (route_frame ue f c)"
    using inv ctrl mcp by (cases "fr_type f") (simp_all add: route_frame_def Let_def)
  assume open': "cn_phase (route_frame ue f c) \<noteq> PClosed"
  then have "cn_phase c \<noteq> PClosed" by (auto simp: route_frame_def)
  moreover have "cn_heard (route_ctrl ue ?p ?c) = cn_heard ?c"
    using route_ctrl_quiet [OF l, of ue ?p] by (auto simp: quiet_def stream_def)
  moreover have "cn_heard (route_mcp ue ?p ?c) = cn_heard ?c"
    by (simp add: route_mcp_def feed_mcp_def Let_def)
  ultimately show "cn_phase c \<noteq> PClosed \<and> cn_heard (route_frame ue f c) = cn_heard c @ [f]"
    by (simp add: route_frame_def Let_def split: frame_type.split)
qed

lemma route_frames_mcp:
  assumes "mcp_inv c" "life_ok (life c)"
  shows "mcp_inv (fold (route_frame ue) fs c)
    \<and> (cn_phase (fold (route_frame ue) fs c) \<noteq> PClosed \<longrightarrow> cn_phase c \<noteq> PClosed \<and> cn_heard (fold (route_frame ue) fs c) = cn_heard c @ fs)"
  using assms
proof (induction fs arbitrary: c)
  case (Cons f fs)
  note step = route_frame_mcp [OF Cons.prems, of ue f]
  show ?case
    using Cons.IH [OF step(1) calm_life_ok [OF route_frame_calm Cons.prems(2)]] step(2) by auto
qed simp

lemma route_frame_decoder: "cn_decoder (route_frame ue f c) = cn_decoder c"
  by (simp add: route_frame_def route_ctrl_def route_mcp_def feed_mcp_def Let_def case_prod_beta push_hello_ctrl_def
      split: frame_type.split option.split)

lemma route_frames_decoder: "cn_decoder (fold (route_frame ue) fs c) = cn_decoder c"
  by (induction fs arbitrary: c) (simp_all add: route_frame_decoder)

lemma fd_push_wf: "fd_wf d \<Longrightarrow> fd_push d chunk = (Inl e, d') \<Longrightarrow> fd_wf d'"
  by (auto simp: fd_push_def Let_def split: sum.splits prod.splits)

lemma on_data_stream:
  assumes inv: "stream_inv cs c" and life: "life_ok (life c)"
  shows "stream_inv (cs @ [chunk]) (on_data ue chunk c)"
proof (cases "cn_phase c = PClosed")
  case True
  then show ?thesis using inv by (simp add: on_data_def stream_inv_def)
next
  case open': False
  obtain r d where push: "fd_push (cn_decoder c) chunk = (r, d)" by fastforce
  have wf: "fd_wf (cn_decoder c)" and mcp: "mcp_inv c" using inv by (simp_all add: stream_inv_def)
  let ?d = "c\<lparr>cn_decoder := d\<rparr>"
  have d: "mcp_inv ?d" "life_ok (life ?d)" using mcp life by (simp_all add: mcp_inv_def)
  show ?thesis
  proof (cases r)
    case (Inl err)
    have "cn_phase (fail_conn ?d) = PClosed" by (rule fail_phase [OF d(2)])
    then have "mcp_inv (fail_conn ?d)" using mcp_inv_closed [OF d(1)] by simp
    then show ?thesis
      using push Inl open' fd_push_wf [OF wf] \<open>cn_phase (fail_conn ?d) = PClosed\<close> by (simp add: on_data_def stream_inv_def)
  next
    case (Inr fs)
    let ?c = "fold (route_frame ue) fs ?d"
    have step: "decode_bytes (fd_abs (cn_decoder c) @ chunk) = Inr (fs, fd_abs d)" "fd_wf d"
      using fd_push_ok [OF wf] push Inr by auto
    have "decode_bytes (concat cs) = Inr (cn_heard c, fd_abs (cn_decoder c))"
      using inv open' by (simp add: stream_inv_def)
    then have "decode_bytes (concat (cs @ [chunk])) = Inr (cn_heard c @ fs, fd_abs d)"
      using decode_bytes_append_ok [of "concat cs" "cn_heard c" _ chunk] step(1) by simp
    moreover have "mcp_inv ?c" "cn_phase ?c \<noteq> PClosed \<longrightarrow> cn_heard ?c = cn_heard c @ fs"
      using route_frames_mcp [OF d, of ue fs] by auto
    moreover have s: "stream (update_idle ue ?c) = stream ?c" by simp
    ultimately show ?thesis
      using push Inr open' step(2) mcp_inv_cong [OF _ s]
      by (auto simp: on_data_def stream_inv_def stream_def route_frames_decoder)
  qed
qed

lemma after_hello_stream:
  assumes "stream_inv cs c" "cn_phase c \<in> {PHello, PClosed}"
  shows "stream_inv cs (after_hello pc c)"
  using assms by (auto simp: after_hello_def stream_inv_def mcp_inv_def split: hello_pc.split hello_result.split)

lemma stream_inv_cong: "stream_inv cs c \<Longrightarrow> stream c' = stream c \<Longrightarrow> stream_inv cs c'"
  by (auto simp: stream_inv_def stream_def mcp_inv_def)

lemma stream_inv_fail:
  assumes "stream_inv cs c" "life_ok (life c)"
  shows "stream_inv cs (fail_conn c)"
proof -
  have "cn_phase (fail_conn c) = PClosed" by (rule fail_phase [OF assms(2)])
  then show ?thesis using assms(1) mcp_inv_closed [of c "fail_conn c"] by (simp add: stream_inv_def)
qed

lemma hello_phase: "life_ok (life c) \<Longrightarrow> cn_run c = InHello pc \<Longrightarrow> cn_phase c \<in> {PHello, PClosed}"
  by (auto simp: life_def)

lemma feed_buffered_stream:
  assumes "cn_phase c = PSession" "life_ok (life c)" "cn_fed c @ ps = mcp_of (cn_heard c)" "cn_mcpBuffer c = []"
  shows "mcp_inv (feed_buffered ue ps c) \<and> (cn_phase (feed_buffered ue ps c) \<noteq> PClosed \<longrightarrow> cn_heard (feed_buffered ue ps c) = cn_heard c)
    \<and> cn_decoder (feed_buffered ue ps c) = cn_decoder c"
  using assms
proof (induction ps arbitrary: c)
  case (Cons p ps)
  let ?c = "c\<lparr>cn_fed := cn_fed c @ [p]\<rparr>"
  have closed: "cn_phase (fail_conn ?c) = PClosed" by (rule fail_phase) (use Cons.prems(2) in simp)
  have "prefix (cn_fed c @ [p]) (mcp_of (cn_heard c))" using Cons.prems(3) by (metis append.assoc append_Cons append_Nil prefixI)
  then have "mcp_inv (fail_conn ?c)" using closed by (simp add: mcp_inv_def)
  then show ?case
    using Cons.IH [of ?c] Cons.prems closed by (simp add: feed_mcp_def Let_def)
qed (simp add: mcp_inv_def)

lemma conn_step_stream:
  assumes inv: "stream_inv cs c" and life: "life_ok (life c)"
  shows "stream_inv (cs @ (case e of Chunk bs \<Rightarrow> [bs] | _ \<Rightarrow> [])) (conn_step ue c e)"
proof (cases e)
  case (Resume nonce)
  have "stream_inv cs (after_hello pc' (send_all ms (c\<lparr>cn_inbox := None\<rparr>)))" if "cn_run c = InHello pc" for pc pc' ms
    by (rule after_hello_stream) (use inv hello_phase [OF life that] in \<open>auto intro: stream_inv_cong simp: stream_def\<close>)
  then show ?thesis
    using inv Resume stream_inv_cong [OF _ recv_ctrl_stream]
    by (auto simp: conn_step_def hello_resume_def case_prod_beta Let_def split: run_pc.split option.split hello_pc.split)
next
  case Flushed
  let ?c = "c\<lparr>cn_run := RunDone, cn_phase := PSession, cn_mcpBuffer := []\<rparr>"
  have "stream_inv cs (feed_buffered ue (cn_mcpBuffer c) ?c)" if run: "cn_run c = FlushOk" "cn_phase c \<noteq> PClosed"
  proof -
    have ph: "cn_phase c = PAuthed" "life_ok (life ?c)" using life run by (auto simp: life_def)
    have "cn_fed ?c @ cn_mcpBuffer c = mcp_of (cn_heard ?c)"
      using inv ph(1) by (simp add: stream_inv_def mcp_inv_def)
    then show ?thesis
      using feed_buffered_stream [OF _ ph(2), of "cn_mcpBuffer c" ue] inv run(2) by (simp add: stream_inv_def)
  qed
  moreover have "stream_inv cs (fail_conn (c\<lparr>cn_run := RunDone\<rparr>))" if run: "cn_run c = FlushThenFail"
  proof -
    have "cn_phase (fail_conn (c\<lparr>cn_run := RunDone\<rparr>)) = PClosed" using life by (auto simp: fail_conn_def life_def)
    then show ?thesis using inv by (simp add: stream_inv_def mcp_inv_def)
  qed
  moreover have "stream_inv cs (c\<lparr>cn_run := RunDone\<rparr>)" using inv by (rule stream_inv_cong) (simp add: stream_def)
  ultimately show ?thesis
    using inv Flushed by (auto simp: conn_step_def flushed_def split: run_pc.split)
next
  case TeardownBody
  have "cn_phase c = PClosed" if "cn_teardown c = TearScheduled" using life that by (auto simp: life_def)
  then show ?thesis using inv TeardownBody by (auto simp: conn_step_def teardown_body_def stream_inv_def mcp_inv_def)
next
  case TeardownEnd
  then show ?thesis using inv by (auto simp: conn_step_def teardown_end_def stream_inv_def mcp_inv_def)
next
  case (AddAnswer ok)
  have "stream_inv cs (send_ctrl m (c\<lparr>cn_session := x, cn_run := y, cn_calls := z\<rparr>))"
    "stream_inv cs (send_ctrl m (c\<lparr>cn_run := y\<rparr>))" "stream_inv cs (c\<lparr>cn_run := y\<rparr>)"
    "stream_inv cs (c\<lparr>cn_run := y, cn_calls := z\<rparr>)" for m x y z
    by (rule stream_inv_cong [OF inv]; simp add: stream_def)+
  then show ?thesis
    using inv AddAnswer by (auto simp: conn_step_def add_answered_def split: run_pc.split)
next
  case (Chunk bs)
  then show ?thesis using on_data_stream [OF inv life] by (simp add: conn_step_def)
qed (use inv life hello_phase [OF life] in \<open>auto simp: conn_step_def hello_advance_def case_prod_beta Let_def stream_inv_fail
       after_hello_stream [OF stream_inv_cong] stream_def intro: stream_inv_cong split: run_pc.split\<close>)

subsection \<open>The read-progress timer\<close>

text \<open>
  The timer is meant for a frame that never completes. It is only cleared when a chunk leaves nothing buffered: a stream
  of complete frames whose chunks happen to end inside the next frame keeps the timer that was armed first, and when
  it fires the connection is closed although every frame completed in time.
\<close>

lemma route_frame_idle: "cn_idle c \<Longrightarrow> life_ok (life c) \<Longrightarrow> cn_idle (route_frame ue f c) \<or> cn_phase (route_frame ue f c) = PClosed"
proof -
  assume c: "cn_idle c" "life_ok (life c)"
  have "cn_idle (fail_conn d) \<or> cn_phase (fail_conn d) = PClosed" if "life d = life c" for d
    using fail_phase [of d] c(2) that by simp
  moreover have "cn_idle (send_pong m d) = cn_idle d" for m d by (simp add: send_pong_def send_ctrl_def)
  ultimately show ?thesis
    using c(1) by (simp add: route_frame_def route_ctrl_def route_mcp_def feed_mcp_def push_hello_ctrl_def Let_def case_prod_beta
        split: frame_type.split option.split)
qed

lemma route_frames_idle:
  "cn_idle c \<Longrightarrow> life_ok (life c) \<Longrightarrow> cn_idle (fold (route_frame ue) fs c) \<or> cn_phase (fold (route_frame ue) fs c) = PClosed"
proof (induction fs arbitrary: c)
  case (Cons f fs)
  have closed: "cn_phase (fold (route_frame ue) fs d) = PClosed" if "cn_phase d = PClosed" for d
    using that by (induction fs arbitrary: d) (simp_all add: route_frame_def)
  have "cn_idle (route_frame ue f c) \<or> cn_phase (route_frame ue f c) = PClosed"
    using route_frame_idle [OF Cons.prems] .
  moreover have "life_ok (life (route_frame ue f c))" using calm_life_ok [OF route_frame_calm Cons.prems(2)] .
  ultimately show ?case using Cons.IH [of "route_frame ue f c"] closed [of "route_frame ue f c"] by auto
qed simp

lemma busy_stream_keeps_idle_timer:
  assumes "cn_idle c" "life_ok (life c)" "fd_push (cn_decoder c) chunk = (Inr frames, d)" "0 < fd_buffered_bytes d"
    and "cn_phase (on_data ue chunk c) \<noteq> PClosed"
  shows "cn_idle (on_data ue chunk c) \<and> cn_phase (conn_step ue (on_data ue chunk c) IdleTimer) = PClosed"
proof -
  let ?c = "fold (route_frame ue) frames (c\<lparr>cn_decoder := d\<rparr>)"
  have ph: "cn_phase c \<noteq> PClosed" using assms(5) by (auto simp: on_data_def)
  have eq: "on_data ue chunk c = update_idle ue ?c" using assms(3) ph by (simp add: on_data_def)
  have "cn_phase (update_idle ue ?c) = cn_phase ?c" by (simp add: update_idle_def)
  then have "cn_idle ?c" using route_frames_idle [of "c\<lparr>cn_decoder := d\<rparr>" ue frames] assms(1,2,5) eq by simp
  then have "cn_idle (on_data ue chunk c)"
    using assms(4) eq by (simp add: update_idle_def route_frames_decoder)
  moreover have "life_ok (life (on_data ue chunk c))" using calm_life_ok [OF on_data_calm assms(2)] .
  ultimately show ?thesis using fail_phase by (simp add: conn_step_def)
qed

end
