(* ===== verification/Uds_Sessions.thy ===== *)
theory Uds_Sessions
  imports Uds_Acceptor
begin

text \<open>
  What the local socket guarantees, for every history of the listener of Uds_Acceptor: a session is asked of the core only
  for an agent that has proved to hold its key on that very connection; what an unauthenticated peer can make
  the process hold is bounded; the core's sessions are given back exactly once; and the MCP transport is fed the payloads
  of the byte stream in order.
\<close>

subsection \<open>Authentication\<close>

definition heard_msg :: "'k uds_env \<Rightarrow> conn \<Rightarrow> jsval \<Rightarrow> bool" where
  "heard_msg ue c m \<longleftrightarrow> (\<exists>f \<in> set (cn_heard c). fr_type f = FRAME_TYPE_CTRL \<and> ue_parse ue (fr_payload f) = Some m)"

definition challenged :: "'k uds_env \<Rightarrow> conn \<Rightarrow> byte list \<Rightarrow> bool" where
  "challenged ue c n \<longleftrightarrow> challenge (ue_hello ue) n \<in> set (cn_sent c)"

text \<open>
  \<open>proved\<close>: a nonce this connection sent was signed, in an \<open>auth\<close> message it received, under a key that Redis
  returned for the agent less than a cache lifetime before the check. \<open>asked\<close> are the answers of Redis and
  \<open>lookups\<close> the times at which this connection looked a key up.
\<close>

definition proved ::
  "'k uds_env \<Rightarrow> (string \<times> rat \<times> key_reply) set \<Rightarrow> rat set \<Rightarrow> conn \<Rightarrow> string \<Rightarrow> byte list \<Rightarrow> bool" where
  "proved ue asked lookups c agent nonce \<longleftrightarrow>
     (\<exists>auth k t r now. valid_auth auth \<and> heard_msg ue c auth \<and> (agent, t, r) \<in> asked \<and> key_of (ue_hello ue) r = Some k
        \<and> now \<in> lookups \<and> now < t + KEY_CACHE_TTL_MS \<and> check_sig (ue_hello ue) k auth nonce = Some True)"

definition maybe_challenged :: "'k uds_env \<Rightarrow> conn \<Rightarrow> byte list \<Rightarrow> bool" where
  "maybe_challenged ue c n \<longleftrightarrow> cn_phase c = PClosed \<or> challenged ue c n"

definition proof_ok ::
  "'k uds_env \<Rightarrow> (string \<times> rat \<times> key_reply) set \<Rightarrow> rat set \<Rightarrow> conn \<Rightarrow> jsval \<Rightarrow> bool" where
  "proof_ok ue asked lookups c h \<longleftrightarrow>
     valid_hello h \<and> (\<exists>n. maybe_challenged ue c n \<and> proved ue asked lookups c (hello_agent h) n)"

definition pc_ok ::
  "'k uds_env \<Rightarrow> (string \<times> rat \<times> key_reply) set \<Rightarrow> rat set \<Rightarrow> bool \<Rightarrow> conn \<Rightarrow> hello_pc \<Rightarrow> bool" where
  "pc_ok ue asked lookups reclaimed c pc =
     (case pc of
        AwaitHello \<Rightarrow> True
      | AwaitAuth h n \<Rightarrow> valid_hello h \<and> maybe_challenged ue c n
      | AwaitKey h n auth \<Rightarrow> valid_hello h \<and> maybe_challenged ue c n \<and> valid_auth auth \<and> heard_msg ue c auth
      | AwaitPresence h \<Rightarrow> proof_ok ue asked lookups c h
      | AwaitEpoch h \<Rightarrow> proof_ok ue asked lookups c h \<and> (tool_only h \<or> reclaimed)
      | HelloDone (HelloOk agent session epoch t d) \<Rightarrow>
          is_token agent \<and> 1 \<le> epoch \<and> epoch \<le> 4294967295 \<and> (t \<or> reclaimed)
          \<and> (\<exists>n. maybe_challenged ue c n \<and> proved ue asked lookups c agent n)
      | HelloDone (HelloFailed code) \<Rightarrow> True)"

definition add_ok ::
  "'k uds_env \<Rightarrow> (string \<times> rat \<times> key_reply) set \<Rightarrow> rat set \<Rightarrow> bool \<Rightarrow> conn \<Rightarrow> core_call \<Rightarrow> bool" where
  "add_ok ue asked lookups reclaimed c call =
     (case call of
        AddSession agent epoch t \<Rightarrow>
          is_token agent \<and> 1 \<le> epoch \<and> epoch \<le> 4294967295 \<and> (t \<or> reclaimed)
          \<and> (\<exists>n. challenged ue c n \<and> proved ue asked lookups c agent n)
      | _ \<Rightarrow> True)"

definition auth_inv ::
  "'k uds_env \<Rightarrow> (string \<times> rat \<times> key_reply) set \<Rightarrow> rat set \<Rightarrow> bool \<Rightarrow> conn \<Rightarrow> bool" where
  "auth_inv ue asked lookups reclaimed c \<longleftrightarrow>
     (\<forall>m \<in> set (cn_helloQ c). heard_msg ue c m)
     \<and> (\<forall>m. cn_inbox c = Some m \<longrightarrow> heard_msg ue c m \<or> m = closed_msg)
     \<and> (\<forall>pc. cn_run c = InHello pc \<longrightarrow> pc_ok ue asked lookups reclaimed c pc)
     \<and> (\<forall>call \<in> set (cn_calls c). add_ok ue asked lookups reclaimed c call)"

text \<open>Everything but the phase only grows, and a closed connection stays closed.\<close>

definition grows :: "conn \<Rightarrow> conn \<Rightarrow> bool" where
  "grows c c' \<longleftrightarrow> set (cn_sent c) \<subseteq> set (cn_sent c') \<and> set (cn_heard c) \<subseteq> set (cn_heard c')
     \<and> (cn_phase c = PClosed \<longrightarrow> cn_phase c' = PClosed)"

lemma provedI:
  assumes "valid_auth auth" "heard_msg ue c auth" "(agent, t, r) \<in> asked" "key_of (ue_hello ue) r = Some k"
    "now \<in> lookups" "now < t + KEY_CACHE_TTL_MS" "check_sig (ue_hello ue) k auth nonce = Some True"
  shows "proved ue asked lookups c agent nonce"
  using assms unfolding proved_def by blast

lemma grows_refl [simp]: "grows c c"
  by (simp add: grows_def)

lemma grows_trans: "grows c d \<Longrightarrow> grows d e \<Longrightarrow> grows c e"
  by (auto simp: grows_def)

lemma heard_mono: "heard_msg ue c m \<Longrightarrow> grows c c' \<Longrightarrow> heard_msg ue c' m"
  by (auto simp: heard_msg_def grows_def)

lemma challenged_mono: "challenged ue c n \<Longrightarrow> grows c c' \<Longrightarrow> challenged ue c' n"
  by (auto simp: challenged_def grows_def)

lemma maybe_mono: "maybe_challenged ue c n \<Longrightarrow> grows c c' \<Longrightarrow> maybe_challenged ue c' n"
  using challenged_mono by (auto simp: maybe_challenged_def grows_def)

lemma proved_mono:
  assumes "proved ue A T c agent n" "grows c c'" "A \<subseteq> A'" "T \<subseteq> T'"
  shows "proved ue A' T' c' agent n"
proof -
  obtain auth k t r now where "valid_auth auth" "heard_msg ue c auth" "(agent, t, r) \<in> A" "key_of (ue_hello ue) r = Some k"
    "now \<in> T" "now < t + KEY_CACHE_TTL_MS" "check_sig (ue_hello ue) k auth n = Some True"
    using assms(1) unfolding proved_def by blast
  moreover have "heard_msg ue c' auth" using heard_mono [OF _ assms(2)] calculation(2) .
  ultimately show ?thesis using assms(3,4) unfolding proved_def by blast
qed

lemma proof_ok_mono:
  assumes "proof_ok ue A T c h" "grows c c'" "A \<subseteq> A'" "T \<subseteq> T'"
  shows "proof_ok ue A' T' c' h"
proof -
  obtain n where "valid_hello h" "maybe_challenged ue c n" "proved ue A T c (hello_agent h) n"
    using assms(1) unfolding proof_ok_def by blast
  then show ?thesis
    using maybe_mono [OF _ assms(2)] proved_mono [OF _ assms(2-4)] unfolding proof_ok_def by blast
qed

lemma pc_ok_mono:
  assumes "pc_ok ue A T R c pc" "grows c c'" "A \<subseteq> A'" "T \<subseteq> T'" "R \<longrightarrow> R'"
  shows "pc_ok ue A' T' R' c' pc"
proof (cases pc)
  case (HelloDone res)
  show ?thesis
  proof (cases res)
    case (HelloOk a s e t d)
    then obtain n where "maybe_challenged ue c n" "proved ue A T c a n"
      using assms(1) HelloDone by (auto simp: pc_ok_def)
    then have "maybe_challenged ue c' n" "proved ue A' T' c' a n"
      using maybe_mono [OF _ assms(2)] proved_mono [OF _ assms(2-4)] by blast+
    then show ?thesis using assms(1,5) HelloDone HelloOk by (auto simp: pc_ok_def)
  qed (simp add: pc_ok_def HelloDone)
qed (use assms(1,5) maybe_mono [of ue c _ c', OF _ assms(2)] heard_mono [of ue c _ c', OF _ assms(2)]
    proof_ok_mono [of ue A T c _ c' A' T', OF _ assms(2-4)] in \<open>auto simp: pc_ok_def\<close>)

lemma add_ok_mono:
  assumes "add_ok ue A T R c call" "grows c c'" "A \<subseteq> A'" "T \<subseteq> T'" "R \<longrightarrow> R'"
  shows "add_ok ue A' T' R' c' call"
proof (cases call)
  case (AddSession a e t)
  then obtain n where "challenged ue c n" "proved ue A T c a n" using assms(1) by (auto simp: add_ok_def)
  then have "challenged ue c' n" "proved ue A' T' c' a n"
    using challenged_mono [OF _ assms(2)] proved_mono [OF _ assms(2-4)] by blast+
  then show ?thesis using assms(1,5) AddSession by (auto simp: add_ok_def)
qed (simp_all add: add_ok_def)

text \<open>A step that grows the logs and keeps the run and the calls keeps the invariant, if what it queues was heard.\<close>

lemma auth_inv_keep:
  assumes "auth_inv ue A T R c" "grows c c'" "A \<subseteq> A'" "T \<subseteq> T'" "R \<longrightarrow> R'"
    and "\<And>pc. cn_run c' = InHello pc \<Longrightarrow> cn_run c = InHello pc"
    and "\<And>call. call \<in> set (cn_calls c') \<Longrightarrow> call \<in> set (cn_calls c) \<or> (\<forall>a e t. call \<noteq> AddSession a e t)"
    and "\<And>m. m \<in> set (cn_helloQ c') \<Longrightarrow> m \<in> set (cn_helloQ c) \<or> heard_msg ue c' m"
    and "\<And>m. cn_inbox c' = Some m \<Longrightarrow> cn_inbox c = Some m \<or> m \<in> set (cn_helloQ c) \<or> heard_msg ue c' m \<or> m = closed_msg"
  shows "auth_inv ue A' T' R' c'"
  unfolding auth_inv_def
proof (intro conjI ballI allI impI)
  fix m assume "m \<in> set (cn_helloQ c')"
  then show "heard_msg ue c' m"
    using assms(1,2,8) heard_mono unfolding auth_inv_def by blast
next
  fix m assume "cn_inbox c' = Some m"
  then show "heard_msg ue c' m \<or> m = closed_msg"
    using assms(1,2,9) heard_mono unfolding auth_inv_def by blast
next
  fix pc assume "cn_run c' = InHello pc"
  then show "pc_ok ue A' T' R' c' pc"
    using assms(1,6) pc_ok_mono [OF _ assms(2-5)] unfolding auth_inv_def by blast
next
  fix call assume c: "call \<in> set (cn_calls c')"
  have "add_ok ue A' T' R' c' call" if "\<forall>a e t. call \<noteq> AddSession a e t"
    using that by (cases call) (auto simp: add_ok_def)
  then show "add_ok ue A' T' R' c' call"
    using assms(1) assms(7) [OF c] add_ok_mono [OF _ assms(2-5)] unfolding auth_inv_def by blast
qed

text \<open>Steps of the socket side: the run and the calls stay, and what is queued was heard.\<close>

definition hears :: "'k uds_env \<Rightarrow> conn \<Rightarrow> conn \<Rightarrow> bool" where
  "hears ue c c' \<longleftrightarrow> grows c c' \<and> cn_run c' = cn_run c \<and> cn_calls c' = cn_calls c
     \<and> (\<forall>m \<in> set (cn_helloQ c'). m \<in> set (cn_helloQ c) \<or> heard_msg ue c' m)
     \<and> (\<forall>m. cn_inbox c' = Some m \<longrightarrow> cn_inbox c = Some m \<or> m \<in> set (cn_helloQ c) \<or> heard_msg ue c' m)"

lemma hears_refl [simp]: "hears ue c c"
  by (simp add: hears_def)

lemma hears_trans:
  assumes "hears ue c d" "hears ue d e"
  shows "hears ue c e"
proof -
  have m: "heard_msg ue e m" if "heard_msg ue d m" for m
    using heard_mono [OF that] assms(2) by (simp add: hears_def)
  show ?thesis
    using assms m grows_trans unfolding hears_def by (metis (no_types, lifting))
qed

lemma grows_send [simp]: "grows c (send_ctrl m c)" "grows c (send_pong m c)" "grows c (send_all ms c)"
  using send_ctrl_sent [of c m] send_all_sent [of c ms] by (simp_all add: grows_def)

lemma grows_fail [simp]: "grows c (fail_conn c)"
  by (simp add: grows_def fail_keeps_closed)

lemma hears_same:
  assumes "cn_sent c' = cn_sent c" "cn_heard c' = cn_heard c" "cn_phase c' = cn_phase c" "cn_run c' = cn_run c" "cn_calls c' = cn_calls c"
    "cn_helloQ c' = cn_helloQ c" "cn_inbox c' = cn_inbox c"
  shows "hears ue c c'"
  using assms by (simp add: hears_def grows_def)

lemma hears_fail: "hears ue c c' \<Longrightarrow> hears ue c (fail_conn c')"
  by (erule hears_trans) (simp add: hears_def)

lemma hears_pong: "hears ue c c' \<Longrightarrow> hears ue c (send_pong m c')"
  by (erule hears_trans) (simp add: hears_def)

lemma feed_mcp_hears: "hears ue c (feed_mcp ue p c)"
  by (simp add: feed_mcp_def Let_def hears_same hears_fail)

lemma hears_push:
  assumes "heard_msg ue c m"
  shows "hears ue c (push_hello_ctrl m c)"
  using assms by (auto simp: hears_def push_hello_ctrl_def grows_def heard_msg_def)

lemma route_frame_hears: "hears ue c (route_frame ue f c)"
proof -
  let ?c = "c\<lparr>cn_heard := cn_heard c @ [f]\<rparr>" and ?p = "fr_payload f"
  have start: "hears ue c ?c" by (auto simp: hears_def grows_def)
  have "hears ue ?c (route_ctrl ue ?p ?c)" if f: "fr_type f = FRAME_TYPE_CTRL"
  proof -
    have "heard_msg ue ?c m" if "ue_parse ue ?p = Some m" for m using f that by (auto simp: heard_msg_def)
    then show ?thesis
      unfolding route_ctrl_def by (simp add: Let_def case_prod_beta hears_same hears_fail hears_pong hears_push split: option.split)
  qed
  moreover have "hears ue ?c (route_mcp ue ?p ?c)"
    unfolding route_mcp_def by (simp add: Let_def feed_mcp_hears hears_same hears_fail)
  ultimately show ?thesis
    using hears_trans [OF start] by (cases "fr_type f") (simp_all add: route_frame_def Let_def)
qed

lemma route_frames_hears: "hears ue c (fold (route_frame ue) fs c)"
  by (induction fs arbitrary: c) (auto intro: hears_trans route_frame_hears)

lemma on_data_hears: "hears ue c (on_data ue chunk c)"
proof -
  have idle: "hears ue c (update_idle ue c')" if "hears ue c c'" for c'
    by (rule hears_trans [OF that]) (simp add: update_idle_def hears_same)
  have "hears ue c (fold (route_frame ue) fs (c\<lparr>cn_decoder := d\<rparr>))" for fs d
    by (rule hears_trans [OF _ route_frames_hears]) (simp add: hears_same)
  then show ?thesis
    by (simp add: on_data_def hears_same hears_fail idle split: sum.split prod.split)
qed

lemma auth_inv_hears: "auth_inv ue A T R c \<Longrightarrow> hears ue c c' \<Longrightarrow> auth_inv ue A T R c'"
  by (rule auth_inv_keep [where A = A and T = T and R = R and c = c]) (auto simp: hears_def)

lemma recv_ctrl_hears: "hears ue c (recv_ctrl c)"
  by (auto simp: recv_ctrl_def hears_def grows_def split: list.split)

lemma send_all_hears: "hears ue c (send_all ms c)"
  by (simp add: hears_def heard_msg_def)

lemma feed_buffered_hears: "hears ue c (feed_buffered ue ps c)"
  by (induction ps arbitrary: c) (auto simp: Let_def intro: hears_trans feed_mcp_hears)

text \<open>The handshake: what \<open>run\<close> waits for next is justified, and so is the session it asks for.\<close>

lemma after_hello_auth:
  assumes inv: "auth_inv ue A T R c" and pc: "pc_ok ue A T R c pc"
  shows "auth_inv ue A T R (after_hello pc c)"
proof -
  have plain: "auth_inv ue A T R (c\<lparr>cn_run := r\<rparr>)" if "\<And>pc. r \<noteq> InHello pc" for r
    by (rule auth_inv_keep [OF inv]) (use that in \<open>simp_all add: grows_def\<close>)
  have next': "auth_inv ue A T R (c\<lparr>cn_run := InHello pc\<rparr>)"
  proof -
    have g: "grows c (c\<lparr>cn_run := InHello pc\<rparr>)" by (simp add: grows_def)
    have "pc_ok ue A T R (c\<lparr>cn_run := InHello pc\<rparr>) pc" by (rule pc_ok_mono [OF pc g]) simp_all
    moreover have "add_ok ue A T R (c\<lparr>cn_run := InHello pc\<rparr>) call" if "call \<in> set (cn_calls c)" for call
      using inv that add_ok_mono [of ue A T R c _ _ A T R, OF _ g] by (simp add: auth_inv_def)
    ultimately show ?thesis using inv by (auto simp: auth_inv_def heard_msg_def)
  qed
  have ended: "auth_inv ue A T R (c\<lparr>cn_phase := PAuthed, cn_run := Adding a e s, cn_calls := cn_calls c @ [AddSession a e t]\<rparr>)"
    if asm: "pc = HelloDone (HelloOk a s e t d)" "cn_phase c \<noteq> PClosed" for a s e t d
  proof -
    let ?c = "c\<lparr>cn_phase := PAuthed, cn_run := Adding a e s, cn_calls := cn_calls c @ [AddSession a e t]\<rparr>"
    have g: "grows c ?c" using asm by (simp add: grows_def)
    obtain n where n: "challenged ue c n" "proved ue A T c a n"
      using pc asm by (auto simp: pc_ok_def maybe_challenged_def)
    have "challenged ue ?c n" "proved ue A T ?c a n"
      by (rule challenged_mono [OF n(1) g], rule proved_mono [OF n(2) g]) simp_all
    then have "add_ok ue A T R ?c (AddSession a e t)" using pc asm by (auto simp: add_ok_def pc_ok_def)
    moreover have "add_ok ue A T R ?c call" if "call \<in> set (cn_calls c)" for call
      using inv that add_ok_mono [of ue A T R c _ _ A T R, OF _ g] by (simp add: auth_inv_def)
    ultimately show ?thesis using inv by (auto simp: auth_inv_def heard_msg_def)
  qed
  show ?thesis
    using plain next' ended by (cases pc) (auto simp: after_hello_def split: hello_result.split)
qed

lemma advance_auth:
  assumes "auth_inv ue A T R c" "pc_ok ue A T R (send_all ms c) pc'"
  shows "auth_inv ue A T R (after_hello pc' (send_all ms c))"
  by (rule after_hello_auth [OF auth_inv_hears [OF assms(1) send_all_hears] assms(2)])

lemma pc_ok_failed [simp]: "pc_ok ue A T R c (HelloDone (HelloFailed code))"
  by (simp add: pc_ok_def)

lemma closed_msg_not_auth: "\<not> valid_auth closed_msg"
  by (simp add: valid_auth_def closed_msg_def jget_def)

lemma hello_message_auth:
  assumes inv: "auth_inv ue A T R c" and run: "cn_run c = InHello pc" and msg: "cn_inbox c = Some msg"
    and step: "hello_message (ue_hello ue) msg nonce pc = (pc', ms)"
  shows "pc_ok ue A T R (send_all ms c) pc'"
proof -
  have pc: "pc_ok ue A T R c pc" and m: "heard_msg ue c msg \<or> msg = closed_msg"
    using inv run msg by (simp_all add: auth_inv_def)
  have keep: "pc_ok ue A T R (send_all ms c) q" if "pc_ok ue A T R c q" for q
    by (rule pc_ok_mono [OF that grows_send(3)]) simp_all
  show ?thesis
  proof (cases pc)
    case AwaitHello
    have "maybe_challenged ue (send_all [challenge (ue_hello ue) nonce] c) nonce"
      by (simp add: maybe_challenged_def challenged_def send_all_def send_ctrl_def)
    then show ?thesis
      using step AwaitHello by (auto simp: hello_message_def hello_fail_def pc_ok_def split: if_splits)
  next
    case (AwaitAuth h n)
    have "pc_ok ue A T R c (AwaitKey h n msg)" if "valid_auth msg"
      using pc AwaitAuth m that closed_msg_not_auth by (auto simp: pc_ok_def)
    then show ?thesis
      using step AwaitAuth keep by (auto simp: hello_message_def hello_fail_def split: if_splits)
  qed (use step pc keep in \<open>auto simp: hello_message_def\<close>)
qed

lemma hello_resume_auth:
  assumes inv: "auth_inv ue A T R c"
  shows "auth_inv ue A T R (hello_resume ue nonce c)"
proof -
  consider pc msg where "cn_run c = InHello pc" "cn_inbox c = Some msg"
    | "hello_resume ue nonce c = c"
    by (cases "cn_run c"; cases "cn_inbox c") (auto simp: hello_resume_def)
  then show ?thesis
  proof cases
    case (1 pc msg)
    let ?c = "c\<lparr>cn_inbox := None\<rparr>"
    obtain pc' ms where step: "hello_message (ue_hello ue) msg nonce pc = (pc', ms)" by fastforce
    have "grows (send_all ms c) (send_all ms ?c)" by (simp add: grows_def send_all_eq)
    then have "pc_ok ue A T R (send_all ms ?c) pc'"
      by (rule pc_ok_mono [OF hello_message_auth [OF inv 1 step]]) simp_all
    moreover have "auth_inv ue A T R ?c"
      by (rule auth_inv_keep [OF inv]) (simp_all add: grows_def)
    ultimately have after: "auth_inv ue A T R (after_hello pc' (send_all ms ?c))" by (intro advance_auth)
    then have "auth_inv ue A T R (recv_ctrl (after_hello pc' (send_all ms ?c)))"
      by (rule auth_inv_hears [OF _ recv_ctrl_hears])
    then show ?thesis
      using after 1 step by (cases pc') (simp_all add: hello_resume_def)
  qed (use inv in simp)
qed

lemma hello_advance_auth:
  assumes inv: "auth_inv ue A T R c" and "R \<longrightarrow> R'"
    and step: "\<And>pc pc' ms. cn_run c = InHello pc \<Longrightarrow> f pc = (pc', ms) \<Longrightarrow> pc_ok ue A T R' c pc \<Longrightarrow> pc_ok ue A T R' c pc'"
  shows "auth_inv ue A T R' (hello_advance f c)"
proof -
  have inv': "auth_inv ue A T R' c" by (rule auth_inv_keep [OF inv]) (use assms(2) in simp_all)
  show ?thesis
  proof (cases "cn_run c")
    case (InHello pc)
    obtain pc' ms where f: "f pc = (pc', ms)" by fastforce
    have "pc_ok ue A T R' c pc" using inv' InHello by (simp add: auth_inv_def)
    then have "pc_ok ue A T R' (send_all ms c) pc'"
      by (intro pc_ok_mono [OF step [OF InHello f]]) simp_all
    then show ?thesis
      using advance_auth [OF inv'] InHello f by (simp add: hello_advance_def)
  qed (use inv' in \<open>simp_all add: hello_advance_def\<close>)
qed

lemma hello_epoch_auth:
  assumes "pc_ok ue A T R c pc" "hello_epoch r session pc = (pc', ms)"
  shows "pc_ok ue A T R c pc'"
proof (cases pc)
  case (AwaitEpoch h)
  then have "is_token (hello_agent h)" using assms(1) valid_hello_agent by (simp add: pc_ok_def proof_ok_def)
  then show ?thesis
    using assms AwaitEpoch next_epoch_bounds [of r]
    by (cases "next_epoch r") (auto simp: hello_epoch_def hello_fail_def pc_ok_def proof_ok_def)
qed (use assms in \<open>auto simp: hello_epoch_def\<close>)

lemma conn_step_auth:
  assumes inv: "auth_inv ue A T R c"
  shows "auth_inv ue A T (R \<or> e = PresenceAnswer True) (conn_step ue c e)"
proof -
  let ?R = "R \<or> e = PresenceAnswer True"
  have keep: "auth_inv ue A T ?R c'" if "auth_inv ue A T R c'" for c'
    by (rule auth_inv_keep [OF that]) simp_all
  have plain: "auth_inv ue A T R c'" if "grows c c'" "\<And>pc. cn_run c' = InHello pc \<Longrightarrow> cn_run c = InHello pc"
    "\<And>call. call \<in> set (cn_calls c') \<Longrightarrow> call \<in> set (cn_calls c) \<or> (\<forall>a e t. call \<noteq> AddSession a e t)"
    "cn_helloQ c' = cn_helloQ c" "cn_inbox c' = cn_inbox c \<or> cn_inbox c' = Some closed_msg" for c'
    by (rule auth_inv_keep [OF inv that(1)]) (use that in auto)
  have fail: "auth_inv ue A T R (fail_conn c)" by (rule auth_inv_hears [OF inv hears_fail]) simp
  show ?thesis
  proof (cases e)
    case (Chunk bs)
    then show ?thesis using auth_inv_hears [OF inv on_data_hears] by (simp add: conn_step_def keep)
  next
    case (Resume nonce)
    then show ?thesis using hello_resume_auth [OF inv] by (simp add: conn_step_def)
  next
    case HelloTimer
    have "auth_inv ue A T R (hello_advance hello_timeout c)"
      by (rule hello_advance_auth [OF inv]) (auto simp: hello_timeout_def hello_fail_def split: hello_pc.splits)
    then show ?thesis using inv HelloTimer by (simp add: conn_step_def)
  next
    case (PresenceAnswer b)
    have "auth_inv ue A T (R \<or> b) (hello_advance (hello_presence b) c)"
      by (rule hello_advance_auth [OF inv])
        (auto simp: hello_presence_def hello_fail_def pc_ok_def split: hello_pc.splits if_splits)
    then show ?thesis using PresenceAnswer by (cases b) (simp_all add: conn_step_def)
  next
    case (EpochAnswer r session)
    have "auth_inv ue A T R (hello_advance (hello_epoch r session) c)"
      by (rule hello_advance_auth [OF inv]) (auto intro: hello_epoch_auth)
    then show ?thesis using EpochAnswer by (simp add: conn_step_def)
  next
    case (AddAnswer ok)
    have "auth_inv ue A T R (add_answered ok c)"
      unfolding add_answered_def
      by (auto split: run_pc.split intro!: plain inv simp: grows_def send_ctrl_def)
    then show ?thesis using AddAnswer by (simp add: conn_step_def)
  next
    case Flushed
    have "auth_inv ue A T R (feed_buffered ue ps (c\<lparr>cn_run := RunDone, cn_phase := PSession, cn_mcpBuffer := []\<rparr>))"
      if "cn_phase c \<noteq> PClosed" for ps
      by (rule auth_inv_hears [OF plain feed_buffered_hears]) (use that in \<open>simp_all add: grows_def\<close>)
    moreover have "auth_inv ue A T R (fail_conn (c\<lparr>cn_run := RunDone\<rparr>))"
      by (rule plain) (simp_all add: grows_def fail_keeps_closed)
    moreover have "auth_inv ue A T R (c\<lparr>cn_run := RunDone\<rparr>)" by (rule plain) (simp_all add: grows_def)
    ultimately show ?thesis
      using inv Flushed by (auto simp: conn_step_def flushed_def split: run_pc.split)
  next
    case TeardownBody
    then show ?thesis
      using inv by (auto simp: conn_step_def teardown_body_def grows_def intro!: plain)
  next
    case TeardownEnd
    then show ?thesis
      using inv by (auto simp: conn_step_def teardown_end_def grows_def intro!: plain split: option.split)
  qed (use inv fail in \<open>auto simp: conn_step_def grows_def intro!: plain\<close>)
qed

subsection \<open>The listener's invariant\<close>

lemma key_step_advance:
  "fst (conn_key_step ue now r m c) = hello_advance (\<lambda>pc. fst (hello_key (ue_hello ue) now r m pc)) c
   \<or> fst (conn_key_step ue now r m c) = c"
  by (auto simp: conn_key_step_def hello_advance_def case_prod_beta Let_def split: run_pc.split hello_pc.split)

lemma hello_advance_step: "hello_advance f c = c \<or> (\<exists>pc pc' ms. cn_run c = InHello pc \<and> hello_advance f c = after_hello pc' (send_all ms c))"
  by (cases "cn_run c") (auto simp: hello_advance_def case_prod_beta Let_def)

lemma hello_advance_stream:
  assumes "stream_inv cs c" "life_ok (life c)"
  shows "stream_inv cs (hello_advance f c)"
  using hello_advance_step [of f c]
proof (elim disjE exE conjE)
  fix pc pc' ms assume run: "cn_run c = InHello pc" and eq: "hello_advance f c = after_hello pc' (send_all ms c)"
  have "stream_inv cs (send_all ms c)" by (rule stream_inv_cong [OF assms(1)]) simp
  then show ?thesis
    unfolding eq by (rule after_hello_stream) (use hello_phase [OF assms(2) run] in simp)
qed (use assms in simp)

lemma hello_advance_held: "held_ok c \<Longrightarrow> held_ok (hello_advance f c)"
  by (auto simp: hello_advance_def case_prod_beta Let_def after_hello_held split: run_pc.split)

lemma key_step_keeps:
  assumes "life_ok (life c)" "held_ok c" "stream_inv cs c"
  shows "life_ok (life (fst (conn_key_step ue now r m c)))" "held_ok (fst (conn_key_step ue now r m c))"
    "stream_inv cs (fst (conn_key_step ue now r m c))"
  using key_step_advance [of ue now r m c] hello_advance_life [OF assms(1)] hello_advance_held [OF assms(2)]
    hello_advance_stream [OF assms(3,1)] assms by metis+

definition asked_of :: "string option \<Rightarrow> rat \<Rightarrow> key_reply \<Rightarrow> (string \<times> rat \<times> key_reply) list" where
  "asked_of who now r = (case who of Some agent \<Rightarrow> [(agent, now, r)] | None \<Rightarrow> [])"

lemma key_step_auth:
  assumes inv: "auth_inv ue (set asked) T R c" and backed: "cache_backed (ue_hello ue) (\<lambda>a t r. (a, t, r) \<in> set asked) m"
    and step: "conn_key_step ue now r m c = (c', m', who)"
  shows "auth_inv ue (set (asked @ asked_of who now r)) (insert now T) R c'
    \<and> cache_backed (ue_hello ue) (\<lambda>a t r'. (a, t, r') \<in> set (asked @ asked_of who now r)) m'"
proof -
  let ?A = "set (asked @ asked_of who now r)" and ?T = "insert now T" and ?he = "ue_hello ue"
  let ?seen = "\<lambda>a t r'. (a, t, r') \<in> ?A"
  have sub: "set asked \<subseteq> ?A" "T \<subseteq> ?T" by auto
  have inv': "auth_inv ue ?A ?T R c" by (rule auth_inv_keep [OF inv grows_refl sub]) simp_all
  have backed': "cache_backed ?he ?seen m" using cache_backed_mono [OF backed] sub by auto
  consider h n auth where "cn_run c = InHello (AwaitKey h n auth)" | "c' = c" "m' = m"
    using step by (auto simp: conn_key_step_def split: run_pc.splits hello_pc.splits)
  then show ?thesis
  proof cases
    case (1 h n auth)
    let ?a = "hello_agent h"
    obtain pc' ms m2 where key2: "hello_key ?he now r m (AwaitKey h n auth) = ((pc', ms), m2)" by (metis surj_pair)
    then have key: "hello_key ?he now r m (AwaitKey h n auth) = ((pc', ms), m')"
      and c': "c' = after_hello pc' (send_all ms c)" and who: "who = (if cached_key m ?a now = None then Some ?a else None)"
      using step by (simp_all add: conn_key_step_def 1)
    obtain ko where got: "get_verify_key ?he m ?a now r = (ko, m')"
      using key by (auto simp: hello_key_def split: option.splits prod.splits)
    have asked: "cached_key m ?a now = None \<Longrightarrow> ?seen ?a now r" by (simp add: who asked_of_def)
    have new_cache: "cache_backed ?he ?seen m'" by (rule get_verify_key_backed(1) [OF got backed']) (rule asked)
    have backing: "\<exists>t r'. ?seen ?a t r' \<and> key_of ?he r' = Some k \<and> now < t + KEY_CACHE_TTL_MS" if "ko = Some k" for k
      by (rule get_verify_key_backed(2) [OF got backed' _ that]) (rule asked)
    have pc: "pc_ok ue ?A ?T R c (AwaitKey h n auth)" using inv' 1 by (simp add: auth_inv_def)
    have "pc_ok ue ?A ?T R c pc'"
    proof (cases "\<exists>code. pc' = HelloDone (HelloFailed code)")
      case False
      then obtain k where k: "ko = Some k" "check_sig ?he k auth n = Some True" "pc' = (if tool_only h then AwaitEpoch h else AwaitPresence h)"
        using key got by (auto simp: hello_key_def hello_fail_def split: option.splits bool.splits)
      obtain t r' where "?seen ?a t r'" "key_of ?he r' = Some k" "now < t + KEY_CACHE_TTL_MS"
        using backing [OF k(1)] by blast
      moreover have "valid_auth auth" "heard_msg ue c auth" using pc by (simp_all add: pc_ok_def)
      ultimately have "proved ue ?A ?T c ?a n" using k(2) by (intro provedI [where now = now]) auto
      then show ?thesis using pc k(3) by (auto simp: pc_ok_def proof_ok_def)
    qed auto
    then have "pc_ok ue ?A ?T R (send_all ms c) pc'" by (rule pc_ok_mono) simp_all
    then show ?thesis using advance_auth [OF inv'] c' new_cache by simp
  qed (use inv' backed' in simp)
qed

lemma key_step_cache:
  "length m \<le> MAX_CACHE_KEYS \<Longrightarrow> length (fst (snd (conn_key_step ue now r m c))) \<le> MAX_CACHE_KEYS"
  using get_verify_key_bound [of m "ue_hello ue"]
  by (auto simp: conn_key_step_def hello_key_def case_prod_beta Let_def split: run_pc.split hello_pc.split option.split)

lemma conn_new_ok:
  "held_ok (conn_new ue u)" "stream_inv [] (conn_new ue u)" "auth_inv ue A T R (conn_new ue u)"
  by (auto simp: conn_new_def hello_start_def hello_fail_def after_hello_def recv_ctrl_def send_all_def send_ctrl_def case_prod_beta
      Let_def held_ok_def stream_inv_def mcp_inv_def auth_inv_def pc_ok_def split: option.split)

definition lookup_times :: "nat \<Rightarrow> acceptor_event list \<Rightarrow> rat set" where
  "lookup_times i es = {now. \<exists>r. At i (KeyAnswer now r) \<in> set es}"

definition acceptor_inv :: "'k uds_env \<Rightarrow> nat \<Rightarrow> acceptor_event list \<Rightarrow> 'k acceptor \<Rightarrow> bool" where
  "acceptor_inv ue maxc es a \<longleftrightarrow>
     (\<forall>i < length (ac_conns a). life_ok (life (ac_conns a ! i)) \<and> held_ok (ac_conns a ! i)
        \<and> auth_inv ue (set (ac_asked a)) (lookup_times i es) (At i (PresenceAnswer True) \<in> set es) (ac_conns a ! i))
     \<and> cache_backed (ue_hello ue) (\<lambda>ag t r. (ag, t, r) \<in> set (ac_asked a)) (ac_cache a)
     \<and> length (ac_cache a) \<le> MAX_CACHE_KEYS \<and> live a \<le> maxc"

lemma filter_update_le:
  "(P y \<Longrightarrow> i < length xs \<Longrightarrow> P (xs ! i)) \<Longrightarrow> length (filter P (xs[i := y])) \<le> length (filter P xs)"
  by (induction xs arbitrary: i) (auto split: nat.split simp: le_SucI)

lemma torn_calm: "calm c c' \<Longrightarrow> cn_teardown c = TornDown \<Longrightarrow> cn_teardown c' = TornDown"
  by (auto simp: calm_def life_def fail_conn_def split: if_splits)

lemma hello_advance_teardown [simp]: "cn_teardown (hello_advance f c) = cn_teardown c"
  by (auto simp: hello_advance_def after_hello_def case_prod_beta Let_def split: run_pc.split hello_pc.split hello_result.split)

lemma conn_step_torn:
  assumes "cn_teardown c = TornDown"
  shows "cn_teardown (conn_step ue c e) = TornDown"
proof (cases e)
  case (Chunk bs)
  then show ?thesis using torn_calm [OF on_data_calm assms] by (simp add: conn_step_def)
next
  case (Resume nonce)
  have "cn_teardown (recv_ctrl d) = cn_teardown d" for d by (simp add: recv_ctrl_def split: list.split)
  then show ?thesis
    using assms Resume by (auto simp: conn_step_def hello_resume_def after_hello_def case_prod_beta Let_def
        split: run_pc.split option.split hello_pc.split hello_result.split)
next
  case Flushed
  have "cn_teardown (feed_buffered ue ps (c\<lparr>cn_run := RunDone, cn_phase := PSession, cn_mcpBuffer := []\<rparr>)) = TornDown" for ps
    by (rule torn_calm [OF feed_buffered_calm]) (use assms in simp)
  then show ?thesis
    using assms Flushed by (auto simp: conn_step_def flushed_def fail_conn_def split: run_pc.split)
qed (use assms in \<open>auto simp: conn_step_def fail_conn_def teardown_body_def teardown_end_def add_answered_def split: run_pc.split\<close>)

lemma key_step_torn: "cn_teardown (fst (conn_key_step ue now r m c)) = cn_teardown c"
  using key_step_advance [of ue now r m c] by auto

lemma live_update:
  assumes "i < length (ac_conns a)" "cn_teardown (ac_conns a ! i) = TornDown \<Longrightarrow> cn_teardown c = TornDown"
  shows "live (a\<lparr>ac_conns := (ac_conns a)[i := c]\<rparr>) \<le> live a"
  unfolding live_def using assms by (auto intro!: filter_update_le)

lemma acceptor_inv_snoc:
  assumes inv: "acceptor_inv ue maxc es a"
  shows "acceptor_inv ue maxc (es @ [e]) (acceptor_step ue maxc a e)"
proof -
  have keep: "auth_inv ue A (lookup_times i (es @ [e])) R' c" if "auth_inv ue A (lookup_times i es) R c" "R \<longrightarrow> R'" for i A c R R'
    by (rule auth_inv_keep [OF that(1)]) (use that(2) in \<open>auto simp: lookup_times_def\<close>)
  show ?thesis
  proof (cases e)
    case (Open u)
    have "auth_inv ue A T R (conn_new ue u)" for A T R by (rule conn_new_ok)
    then show ?thesis
      using inv Open by (auto simp: acceptor_inv_def acceptor_step_def nth_append less_Suc_eq live_def conn_new_life conn_new_ok intro: keep [unfolded Open])
  next
    case (At i ce)
    show ?thesis
    proof (cases "i < length (ac_conns a)")
      case False
      then show ?thesis using inv At by (auto simp: acceptor_inv_def acceptor_step_def intro: keep [unfolded At])
    next
      case True
      let ?c = "ac_conns a ! i"
      have old: "life_ok (life ?c)" "held_ok ?c"
        "auth_inv ue (set (ac_asked a)) (lookup_times i es) (At i (PresenceAnswer True) \<in> set es) ?c"
        using inv True by (simp_all add: acceptor_inv_def)
      show ?thesis
      proof (cases "\<exists>now r. ce = KeyAnswer now r")
        case True
        then obtain now r where ce: "ce = KeyAnswer now r" by blast
        obtain c m who where step: "conn_key_step ue now r (ac_cache a) ?c = (c, m, who)" by (metis surj_pair)
        let ?a = "acceptor_step ue maxc a e" and ?asked = "ac_asked a @ asked_of who now r"
        have a: "?a = a\<lparr>ac_conns := (ac_conns a)[i := c], ac_cache := m, ac_asked := ?asked\<rparr>"
          using \<open>i < length (ac_conns a)\<close> by (simp add: acceptor_step_def At ce step asked_of_def)
        have times: "lookup_times i (es @ [e]) = insert now (lookup_times i es)" by (auto simp: lookup_times_def At ce)
        have "cache_backed (ue_hello ue) (\<lambda>ag t r. (ag, t, r) \<in> set (ac_asked a)) (ac_cache a)"
          using inv by (simp add: acceptor_inv_def)
        note auth = key_step_auth [OF old(3) this step]
        have other: "auth_inv ue (set ?asked) (lookup_times j (es @ [e])) (At j (PresenceAnswer True) \<in> set (es @ [e])) (ac_conns a ! j)"
          if "j < length (ac_conns a)" for j
        proof (rule auth_inv_keep)
          show "auth_inv ue (set (ac_asked a)) (lookup_times j es) (At j (PresenceAnswer True) \<in> set es) (ac_conns a ! j)"
            using inv that by (simp add: acceptor_inv_def)
        qed (auto simp: lookup_times_def)
        have "life_ok (life c)" "held_ok c"
          using key_step_keeps [where cs = "[]" and c = "?c" and m = "ac_cache a"] old
            hello_advance_life [OF old(1)] hello_advance_held [OF old(2)] key_step_advance [of ue now r "ac_cache a" ?c] step
          by (metis fst_conv)+
        moreover have "length m \<le> MAX_CACHE_KEYS"
          using key_step_cache [of "ac_cache a" ue now r ?c] inv step by (simp add: acceptor_inv_def)
        moreover have "live ?a \<le> live a"
          using live_update [OF \<open>i < length (ac_conns a)\<close>, of c] key_step_torn [of ue now r "ac_cache a" ?c] step
          by (simp add: a live_def)
        moreover have "auth_inv ue (set ?asked) (lookup_times i (es @ [e])) (At i (PresenceAnswer True) \<in> set (es @ [e])) c"
          using auth times by (simp add: At ce)
        ultimately show ?thesis
          using inv auth other \<open>i < length (ac_conns a)\<close> unfolding acceptor_inv_def a by (auto simp: nth_list_update live_def)
      next
        case False
        let ?c' = "conn_step ue ?c ce"
        have a: "acceptor_step ue maxc a e = a\<lparr>ac_conns := (ac_conns a)[i := ?c']\<rparr>"
          using \<open>i < length (ac_conns a)\<close> False by (cases ce) (simp_all add: acceptor_step_def At)
        have "auth_inv ue (set (ac_asked a)) (lookup_times i (es @ [e])) (At i (PresenceAnswer True) \<in> set (es @ [e])) ?c'"
          by (rule auth_inv_keep [OF conn_step_auth [OF old(3)]]) (auto simp: At lookup_times_def)
        moreover have "live (a\<lparr>ac_conns := (ac_conns a)[i := ?c']\<rparr>) \<le> live a"
          by (rule live_update [OF \<open>i < length (ac_conns a)\<close> conn_step_torn])
        ultimately show ?thesis
          using inv old \<open>i < length (ac_conns a)\<close>
          unfolding acceptor_inv_def a by (auto simp: nth_list_update conn_step_life conn_step_held intro: keep)
      qed
    qed
  qed
qed

lemma acceptor_inv_run: "acceptor_inv ue maxc es (run (acceptor_step ue maxc) acceptor_new es)"
proof (induction es rule: rev_induct)
  case Nil
  show ?case by (simp add: acceptor_inv_def acceptor_new_def cache_backed_def live_def)
next
  case (snoc e es)
  then show ?case using acceptor_inv_snoc by (simp add: run_append)
qed

subsection \<open>One connection of a run\<close>

fun chunks_of :: "nat \<Rightarrow> acceptor_event list \<Rightarrow> byte list list" where
  "chunks_of i [] = []"
| "chunks_of i (At j (Chunk bs) # es) = (if i = j then bs # chunks_of i es else chunks_of i es)"
| "chunks_of i (e # es) = chunks_of i es"

lemma chunks_of_append: "chunks_of i (xs @ ys) = chunks_of i xs @ chunks_of i ys"
  by (induction i xs rule: chunks_of.induct) auto

lemma chunks_of_single: "chunks_of i [e] = (case e of At j (Chunk bs) \<Rightarrow> if i = j then [bs] else [] | _ \<Rightarrow> [])"
  by (cases e) (auto split: conn_event.split)

lemma acceptor_step_conn:
  assumes "i < length (ac_conns a)"
  shows "i < length (ac_conns (acceptor_step ue maxc a e))"
    and "ac_conns (acceptor_step ue maxc a e) ! i = ac_conns a ! i
      \<or> (\<exists>ce. e = At i ce \<and> (\<forall>now r. ce \<noteq> KeyAnswer now r) \<and> ac_conns (acceptor_step ue maxc a e) ! i = conn_step ue (ac_conns a ! i) ce)
      \<or> (\<exists>now r m. e = At i (KeyAnswer now r) \<and> ac_conns (acceptor_step ue maxc a e) ! i = fst (conn_key_step ue now r m (ac_conns a ! i)))"
proof -
  show "i < length (ac_conns (acceptor_step ue maxc a e))"
    using assms by (auto simp: acceptor_step_def case_prod_beta Let_def split: acceptor_event.split conn_event.split)
  show "ac_conns (acceptor_step ue maxc a e) ! i = ac_conns a ! i
      \<or> (\<exists>ce. e = At i ce \<and> (\<forall>now r. ce \<noteq> KeyAnswer now r) \<and> ac_conns (acceptor_step ue maxc a e) ! i = conn_step ue (ac_conns a ! i) ce)
      \<or> (\<exists>now r m. e = At i (KeyAnswer now r) \<and> ac_conns (acceptor_step ue maxc a e) ! i = fst (conn_key_step ue now r m (ac_conns a ! i)))"
  proof (cases e)
    case (Open u)
    then show ?thesis using assms by (simp add: acceptor_step_def nth_append)
  next
    case (At j ce)
    then show ?thesis
      using assms by (cases "i = j"; cases ce) (auto simp: acceptor_step_def case_prod_beta Let_def)
  qed
qed


lemma acceptor_step_other:
  assumes "i < length (ac_conns a)" "\<And>ce. e \<noteq> At i ce"
  shows "ac_conns (acceptor_step ue maxc a e) ! i = ac_conns a ! i"
  using acceptor_step_conn(2) [OF assms(1), of ue maxc e] assms(2) by blast

lemma acceptor_step_stream:
  assumes i: "i < length (ac_conns a)" and inv: "stream_inv cs (ac_conns a ! i)"
    and ok: "life_ok (life (ac_conns a ! i))" "held_ok (ac_conns a ! i)"
  shows "stream_inv (cs @ chunks_of i [e]) (ac_conns (acceptor_step ue maxc a e) ! i)"
proof (cases e)
  case (Open u)
  then show ?thesis using acceptor_step_other [OF i, of e] inv by simp
next
  case (At j ce)
  show ?thesis
  proof (cases "j = i")
    case False
    then show ?thesis using acceptor_step_other [OF i, of e] inv At by (simp add: chunks_of_single split: conn_event.split)
  next
    case True
    show ?thesis
    proof (cases "\<exists>now r. ce = KeyAnswer now r")
      case True
      then obtain now r where "ce = KeyAnswer now r" by blast
      then show ?thesis
        using key_step_keeps(3) [OF ok inv] i At \<open>j = i\<close> by (simp add: acceptor_step_def case_prod_beta Let_def)
    next
      case False
      then have "ac_conns (acceptor_step ue maxc a e) ! i = conn_step ue (ac_conns a ! i) ce"
        using i At \<open>j = i\<close> by (cases ce) (auto simp: acceptor_step_def)
      moreover have "chunks_of i [e] = (case ce of Chunk bs \<Rightarrow> [bs] | _ \<Rightarrow> [])"
        using At \<open>j = i\<close> by (simp add: chunks_of_single)
      ultimately show ?thesis using conn_step_stream [OF inv ok(1), of ce ue] by simp
    qed
  qed
qed

lemma acceptor_open: "live a < maxc \<Longrightarrow> acceptor_step ue maxc a (Open u) = a\<lparr>ac_conns := ac_conns a @ [conn_new ue u]\<rparr>"
  by (simp add: acceptor_step_def)

lemma connection_stream:
  fixes ue :: "'k uds_env" and maxc :: nat
  defines "step \<equiv> acceptor_step ue maxc"
  assumes "live (run step acceptor_new pre) < maxc" "i = length (ac_conns (run step acceptor_new pre))"
  shows "i < length (ac_conns (run step acceptor_new (pre @ Open u # post)))
    \<and> stream_inv (chunks_of i post) (ac_conns (run step acceptor_new (pre @ Open u # post)) ! i)"
proof (induction post rule: rev_induct)
  case Nil
  then show ?case
    using assms(2,3) conn_new_ok(2) [of ue u] unfolding step_def by (simp add: run_append acceptor_open)
next
  case (snoc e post)
  let ?a = "run step acceptor_new (pre @ Open u # post)"
  have "acceptor_inv ue maxc (pre @ Open u # post) ?a" unfolding step_def by (rule acceptor_inv_run)
  then have "life_ok (life (ac_conns ?a ! i))" "held_ok (ac_conns ?a ! i)"
    using snoc.IH by (auto simp: acceptor_inv_def)
  then have "stream_inv (chunks_of i post @ chunks_of i [e]) (ac_conns (step ?a e) ! i)"
    using acceptor_step_stream [of i ?a "chunks_of i post" e ue maxc] snoc.IH by (simp add: step_def)
  moreover have "i < length (ac_conns (step ?a e))"
    using acceptor_step_conn(1) [of i ?a ue maxc e] snoc.IH by (simp add: step_def)
  moreover have "run step acceptor_new (pre @ Open u # post @ [e]) = step ?a e"
    using run_append [of step acceptor_new "pre @ Open u # post" "[e]"] by simp
  ultimately show ?case by (simp add: chunks_of_append)
qed

subsection \<open>Invariants of every connection of a run\<close>

lemma conns_run_inv:
  assumes new: "\<And>u. Q (conn_new ue u)"
    and step: "\<And>c cs e. Q c \<Longrightarrow> life_ok (life c) \<Longrightarrow> stream_inv cs c \<Longrightarrow> ok e \<Longrightarrow> Q (conn_step ue c e)"
    and key: "\<And>c now r m. Q c \<Longrightarrow> life_ok (life c) \<Longrightarrow> Q (fst (conn_key_step ue now r m c))"
  shows "(\<forall>j e. At j e \<in> set es \<longrightarrow> ok e) \<Longrightarrow> i < length (ac_conns (run (acceptor_step ue maxc) acceptor_new es)) \<Longrightarrow>
    Q (ac_conns (run (acceptor_step ue maxc) acceptor_new es) ! i)
    \<and> (\<exists>cs. stream_inv cs (ac_conns (run (acceptor_step ue maxc) acceptor_new es) ! i))"
proof (induction es arbitrary: i rule: rev_induct)
  case Nil
  then show ?case by (simp add: acceptor_new_def)
next
  case (snoc e es)
  let ?a = "run (acceptor_step ue maxc) acceptor_new es"
  have run: "run (acceptor_step ue maxc) acceptor_new (es @ [e]) = acceptor_step ue maxc ?a e" by (simp add: run_append)
  have ev: "\<forall>j e'. At j e' \<in> set es \<longrightarrow> ok e'" using snoc.prems(1) by simp
  show ?case
  proof (cases "i < length (ac_conns ?a)")
    case False
    then obtain u where "e = Open u" "live ?a < maxc" "i = length (ac_conns ?a)"
      using snoc.prems(2) unfolding run
      by (cases e) (auto simp: acceptor_step_def case_prod_beta Let_def split: if_splits conn_event.splits)
    then show ?thesis using new [of u] conn_new_ok(2) [of ue u] by (auto simp: run_append acceptor_open)
  next
    case True
    note IH = snoc.IH [OF ev True]
    then obtain cs where st: "Q (ac_conns ?a ! i)" "stream_inv cs (ac_conns ?a ! i)" by blast
    have "acceptor_inv ue maxc es ?a" by (rule acceptor_inv_run)
    then have life: "life_ok (life (ac_conns ?a ! i))" "held_ok (ac_conns ?a ! i)" using True by (simp_all add: acceptor_inv_def)
    have "Q (ac_conns (acceptor_step ue maxc ?a e) ! i)"
      using acceptor_step_conn(2) [OF True, of ue maxc e]
    proof (elim disjE exE conjE)
      fix ce assume "e = At i ce" "ac_conns (acceptor_step ue maxc ?a e) ! i = conn_step ue (ac_conns ?a ! i) ce"
      then show ?thesis using step [OF st(1) life(1) st(2)] snoc.prems(1) by simp
    next
      fix now r m assume "ac_conns (acceptor_step ue maxc ?a e) ! i = fst (conn_key_step ue now r m (ac_conns ?a ! i))"
      then show ?thesis using key [OF st(1) life(1)] by simp
    qed (use st in simp)
    then show ?thesis using acceptor_step_stream [OF True st(2) life, where ue = ue and maxc = maxc and e = e] unfolding run by blast
  qed
qed

text \<open>A connection that has closed asks the core for nothing more.\<close>

definition is_add :: "core_call \<Rightarrow> bool" where
  "is_add call = (case call of AddSession agent epoch t \<Rightarrow> True | _ \<Rightarrow> False)"

definition shut :: "core_call list \<Rightarrow> conn \<Rightarrow> bool" where
  "shut calls c \<longleftrightarrow> cn_phase c = PClosed \<and> filter is_add (cn_calls c) = calls"

lemma shut_after_hello: "shut calls c \<Longrightarrow> shut calls (after_hello pc (send_all ms c))"
  by (auto simp: shut_def after_hello_def split: hello_pc.split hello_result.split)

lemma shut_advance: "shut calls c \<Longrightarrow> shut calls (hello_advance f c)"
  using hello_advance_step [of f c] shut_after_hello by auto

lemma shut_simps [simp]:
  "shut calls (c\<lparr>cn_inbox := x\<rparr>) = shut calls c" "shut calls (c\<lparr>cn_run := y\<rparr>) = shut calls c" "shut calls (recv_ctrl c) = shut calls c"
  "shut calls (send_ctrl m c) = shut calls c" "shut calls c \<Longrightarrow> shut calls (fail_conn c)"
  by (auto simp: shut_def recv_ctrl_def fail_keeps_closed split: list.split)

lemma shut_step:
  assumes "shut calls c"
  shows "shut calls (conn_step ue c e)" "shut calls (fst (conn_key_step ue now r m c))"
proof -
  have closed: "cn_phase c = PClosed" using assms by (simp add: shut_def)
  have resume: "shut calls (hello_resume ue nonce c)" for nonce
    using assms shut_after_hello by (auto simp: hello_resume_def case_prod_beta Let_def split: run_pc.split option.split hello_pc.split)
  have rest: "shut calls (add_answered ok c)" "shut calls (flushed ue c)" "shut calls (teardown_body c)" "shut calls (teardown_end c)" for ok
    using assms closed
    by (auto simp: add_answered_def flushed_def teardown_body_def teardown_end_def shut_def is_add_def fail_keeps_closed split: run_pc.split option.split)
  show "shut calls (conn_step ue c e)"
    using assms closed resume rest shut_advance [OF assms] by (cases e) (simp_all add: conn_step_def on_data_def, simp_all add: shut_def)
  show "shut calls (fst (conn_key_step ue now r m c))"
    using key_step_advance [of ue now r m c] shut_advance [OF assms] assms by auto
qed

lemma shut_run:
  assumes "i < length (ac_conns (run (acceptor_step ue maxc) acceptor_new pre))"
    and "shut calls (ac_conns (run (acceptor_step ue maxc) acceptor_new pre) ! i)"
  shows "i < length (ac_conns (run (acceptor_step ue maxc) acceptor_new (pre @ post)))
    \<and> shut calls (ac_conns (run (acceptor_step ue maxc) acceptor_new (pre @ post)) ! i)"
proof (induction post rule: rev_induct)
  case Nil
  then show ?case using assms by simp
next
  case (snoc e post)
  let ?a = "run (acceptor_step ue maxc) acceptor_new (pre @ post)"
  have i: "i < length (ac_conns ?a)" and sh: "shut calls (ac_conns ?a ! i)" using snoc by simp_all
  have "shut calls (ac_conns (acceptor_step ue maxc ?a e) ! i)"
    using acceptor_step_conn(2) [OF i, of ue maxc e] sh shut_step [OF sh] by fastforce
  then show ?case
    using acceptor_step_conn(1) [OF i, of ue maxc e] run_append [of "acceptor_step ue maxc" acceptor_new "pre @ post" "[e]"] by simp
qed

lemma one_add:
  assumes "life_ok (life c)" "AddSession agent epoch t \<in> set (cn_calls c)"
  shows "filter is_add (cn_calls c) = [AddSession agent epoch t]"
  using assms by (cases "cn_run c"; cases "cn_teardown c") (auto simp: life_def added_def is_add_def)

text \<open>
  What a connection holds. \<open>small_ok\<close>: the frames routed fit the cap; the decoder's array fits twice what it has to hold, for chunks
  of at most \<open>M\<close> bytes; and until the peer has authenticated what was sent to it is the handshake's messages and one pong for each
  counted ping.
\<close>

definition pong_of :: "jsval \<Rightarrow> jsval" where
  "pong_of ping = JObj ((''t'', JStr ''pong'') #
     (case jget ping ''ts'' of JNum n \<Rightarrow> [(''ts'', JNum n)] | JStr s \<Rightarrow> [(''ts'', JStr s)] | _ \<Rightarrow> []))"

definition reply_form :: "'k uds_env \<Rightarrow> conn \<Rightarrow> jsval \<Rightarrow> bool" where
  "reply_form ue c m \<longleftrightarrow> (\<exists>nonce. m = challenge (ue_hello ue) nonce) \<or> (\<exists>code. m = JObj [(''t'', JStr ''err''), (''code'', JStr code)])
     \<or> (\<exists>ping. heard_msg ue c ping \<and> m = pong_of ping)"

definition hello_sent :: "run_pc \<Rightarrow> nat" where
  "hello_sent r = (case r of InHello pc \<Rightarrow> (case pc of AwaitHello \<Rightarrow> 0 | HelloDone res \<Rightarrow> 2 | _ \<Rightarrow> 1) | _ \<Rightarrow> 2)"

definition sent_ok :: "'k uds_env \<Rightarrow> conn \<Rightarrow> bool" where
  "sent_ok ue c \<longleftrightarrow> (cn_calls c = [] \<longrightarrow> length (cn_sent c) \<le> cn_preHelloPings c + hello_sent (cn_run c)
     \<and> (\<forall>m \<in> set (cn_sent c). reply_form ue c m))"

definition small_ok :: "'k uds_env \<Rightarrow> nat \<Rightarrow> conn \<Rightarrow> bool" where
  "small_ok ue M c \<longleftrightarrow> (\<forall>f \<in> set (cn_heard c). frame_ok f) \<and> sent_ok ue c
     \<and> length (buf (cn_decoder c)) \<le> 64 + 2 * (FRAME_HEADER_BYTES + FRAME_LENGTH_CAP + M)"

lemma decoded_frames_ok: "decode_bytes bs = Inr (fs, r) \<Longrightarrow> f \<in> set fs \<Longrightarrow> frame_ok f"
proof (induction bs arbitrary: fs r rule: decode_bytes.induct)
  case (1 bs)
  show ?case using 1
    by (subst (asm) decode_bytes.simps) (auto simp: Let_def frame_ok_def frame_consts split: if_splits sum.splits prod.splits)
qed

lemma push_capacity:
  assumes "fd_wf d" "len d < H" "length chunk \<le> M" "length (buf d) \<le> 64 + 2 * (H + M)"
  shows "length (buf (snd (fd_push d chunk))) \<le> 64 + 2 * (H + M)"
proof -
  have a: "length (buf (fd_append d chunk)) \<le> 64 + 2 * (H + M)" "len (fd_append d chunk) \<le> length (buf (fd_append d chunk))"
    using assms by (auto simp: fd_append_def fd_wf_def Let_def)
  have "length (buf (fd_compact e k)) \<le> length (buf e)" if "len e \<le> length (buf e)" for e k
    using that by (auto simp: fd_compact_def)
  then show ?thesis using a by (auto simp: fd_push_def Let_def split: sum.split prod.split intro: order_trans)
qed

lemma reply_form_grows: "reply_form ue c m \<Longrightarrow> grows c c' \<Longrightarrow> reply_form ue c' m"
  using heard_mono unfolding reply_form_def by blast

text \<open>Frames that come before the peer has authenticated.\<close>

definition pongs :: "'k uds_env \<Rightarrow> conn \<Rightarrow> conn \<Rightarrow> bool" where
  "pongs ue c c' \<longleftrightarrow> cn_phase c' \<in> {PHello, PClosed} \<and> hears ue c c'
     \<and> length (cn_sent c') + cn_preHelloPings c \<le> length (cn_sent c) + cn_preHelloPings c'
     \<and> (\<forall>m \<in> set (cn_sent c'). m \<in> set (cn_sent c) \<or> reply_form ue c' m)"

lemma pongs_trans:
  assumes "pongs ue c d" "pongs ue d e"
  shows "pongs ue c e"
proof -
  have "grows d e" using assms(2) by (simp add: pongs_def hears_def)
  then have "reply_form ue e m" if "reply_form ue d m" for m using reply_form_grows [OF that] by simp
  moreover have "hears ue c e" using hears_trans assms by (auto simp: pongs_def)
  ultimately show ?thesis using assms by (auto simp: pongs_def)
qed

lemma fail_closed_phase: "cn_phase c \<in> {PHello, PClosed} \<Longrightarrow> cn_phase (fail_conn c) \<in> {PHello, PClosed}"
  by (simp add: fail_conn_def)

lemma fail_pings [simp]: "cn_preHelloPings (fail_conn c) = cn_preHelloPings c"
  by (simp add: fail_conn_def)

lemma route_frame_pongs:
  assumes "cn_phase c \<in> {PHello, PClosed}"
  shows "pongs ue c (route_frame ue f c)"
proof -
  let ?c = "c\<lparr>cn_heard := cn_heard c @ [f]\<rparr>" and ?p = "fr_payload f"
  have h: "hears ue c (route_frame ue f c)" by (rule route_frame_hears)
  show ?thesis
  proof (cases "cn_phase c = PClosed")
    case True
    then show ?thesis by (simp add: pongs_def route_frame_def)
  next
    case False
    then have ph: "cn_phase c = PHello" using assms by simp
    have mcp: "cn_phase (route_mcp ue ?p ?c) \<in> {PHello, PClosed} \<and> cn_sent (route_mcp ue ?p ?c) = cn_sent c
        \<and> cn_preHelloPings (route_mcp ue ?p ?c) = cn_preHelloPings c"
      using ph by (simp add: route_mcp_def Let_def) (simp add: fail_conn_def)
    have ctrl: "cn_phase (route_ctrl ue ?p ?c) \<in> {PHello, PClosed}
        \<and> length (cn_sent (route_ctrl ue ?p ?c)) + cn_preHelloPings c \<le> length (cn_sent c) + cn_preHelloPings (route_ctrl ue ?p ?c)
        \<and> (\<forall>m \<in> set (cn_sent (route_ctrl ue ?p ?c)). m \<in> set (cn_sent c) \<or> (\<exists>ping. ue_parse ue ?p = Some ping \<and> m = pong_of ping))"
      using ph by (auto simp: route_ctrl_def Let_def fail_conn_def push_hello_ctrl_def send_pong_def send_ctrl_def pong_of_def split: option.split)
    have heard: "heard_msg ue (route_frame ue f c) ping" if "ue_parse ue ?p = Some ping" "fr_type f = FRAME_TYPE_CTRL" for ping
    proof -
      have "heard_msg ue ?c ping" using that by (auto simp: heard_msg_def)
      moreover have "grows ?c (route_frame ue f c)"
      proof -
        have "set (cn_heard (route_ctrl ue ?p ?c)) = set (cn_heard ?c)"
          by (simp add: route_ctrl_def Let_def case_prod_beta push_hello_ctrl_def split: option.split)
        then show ?thesis using h ph that(2) by (simp add: hears_def grows_def route_frame_def Let_def)
      qed
      ultimately show ?thesis by (rule heard_mono)
    qed
    show ?thesis
    proof (cases "fr_type f")
      case FRAME_TYPE_MCP
      then show ?thesis using h ph mcp by (simp add: pongs_def route_frame_def Let_def)
    next
      case FRAME_TYPE_CTRL
      then have eq: "route_frame ue f c = route_ctrl ue ?p ?c" using ph by (simp add: route_frame_def Let_def)
      have "reply_form ue (route_frame ue f c) m" if "ue_parse ue ?p = Some ping" "m = pong_of ping" for m ping
        using heard [OF that(1) FRAME_TYPE_CTRL] that(2) unfolding reply_form_def by blast
      then show ?thesis using ctrl h unfolding pongs_def eq by blast
    qed
  qed
qed

lemma route_frames_pongs: "cn_phase c \<in> {PHello, PClosed} \<Longrightarrow> pongs ue c (fold (route_frame ue) fs c)"
proof (induction fs arbitrary: c)
  case (Cons f fs)
  note one = route_frame_pongs [OF Cons.prems, of ue f]
  then have "cn_phase (route_frame ue f c) \<in> {PHello, PClosed}" by (simp add: pongs_def)
  then show ?case using pongs_trans [OF one Cons.IH] by simp
qed (simp add: pongs_def)

lemma on_data_pongs:
  assumes "cn_phase c \<in> {PHello, PClosed}"
  shows "pongs ue c (on_data ue chunk c)"
proof -
  have d: "pongs ue c (c\<lparr>cn_decoder := d\<rparr>)" "pongs ue c (fail_conn (c\<lparr>cn_decoder := d\<rparr>))" for d
    using assms fail_closed_phase [of "c\<lparr>cn_decoder := d\<rparr>"] by (auto simp: pongs_def hears_same hears_fail)
  have "pongs ue c (update_idle ue e)" if "pongs ue c e" for e
    by (rule pongs_trans [OF that]) (use that in \<open>auto simp: pongs_def update_idle_def hears_same\<close>)
  moreover have "pongs ue c (fold (route_frame ue) fs (c\<lparr>cn_decoder := d\<rparr>))" for fs d
    by (rule pongs_trans [OF d(1) route_frames_pongs]) (use assms in simp)
  moreover have "pongs ue c c" using assms by (simp add: pongs_def)
  ultimately show ?thesis using d by (simp add: on_data_def split: sum.split prod.split)
qed

lemma unasked_phase: "life_ok (life c) \<Longrightarrow> cn_calls c = [] \<Longrightarrow> cn_phase c \<in> {PHello, PClosed}"
  by (cases "cn_run c"; cases "cn_teardown c") (auto simp: life_def added_def)

lemma on_data_small:
  assumes small: "small_ok ue M c" and life: "life_ok (life c)" and st: "stream_inv cs c" and M: "length chunk \<le> M"
  shows "small_ok ue M (on_data ue chunk c)"
proof (cases "cn_phase c = PClosed")
  case True
  then show ?thesis using small by (simp add: on_data_def)
next
  case open': False
  obtain r d where push: "fd_push (cn_decoder c) chunk = (r, d)" by fastforce
  have wf: "fd_wf (cn_decoder c)" and dec: "decode_bytes (concat cs) = Inr (cn_heard c, fd_abs (cn_decoder c))"
    using st open' by (simp_all add: stream_inv_def)
  have "length (fd_abs (cn_decoder c)) < FRAME_HEADER_BYTES + FRAME_LENGTH_CAP" by (rule decode_rest_bound [OF dec])
  then have "len (cn_decoder c) < FRAME_HEADER_BYTES + FRAME_LENGTH_CAP" using wf by (simp add: fd_abs_def fd_wf_def)
  then have cap: "length (buf d) \<le> 64 + 2 * (FRAME_HEADER_BYTES + FRAME_LENGTH_CAP + M)"
    using push_capacity [OF wf _ M] small push by (fastforce simp: small_ok_def)
  have dec': "cn_decoder (on_data ue chunk c) = d"
    using push open' by (simp add: on_data_def update_idle_def route_frames_decoder split: sum.split)
  have "frame_ok f" if "f \<in> set (cn_heard (on_data ue chunk c))" for f
  proof (cases r)
    case (Inl err)
    then have "on_data ue chunk c = fail_conn (c\<lparr>cn_decoder := d\<rparr>)" using push open' by (simp add: on_data_def)
    then show ?thesis using that small by (simp add: small_ok_def)
  next
    case (Inr fs)
    have "set (cn_heard (fold (route_frame ue) gs e)) \<subseteq> set (cn_heard e) \<union> set gs" for gs e
    proof (induction gs arbitrary: e)
      case (Cons g gs)
      have "set (cn_heard (route_frame ue g e)) \<subseteq> insert g (set (cn_heard e))"
        by (auto simp: route_frame_def route_ctrl_def route_mcp_def feed_mcp_def push_hello_ctrl_def Let_def case_prod_beta
            split: frame_type.splits option.splits if_splits)
      then show ?case using Cons [of "route_frame ue g e"] by auto
    qed simp
    moreover have "cn_heard (on_data ue chunk c) = cn_heard (fold (route_frame ue) fs (c\<lparr>cn_decoder := d\<rparr>))"
      using push open' Inr by (simp add: on_data_def update_idle_def)
    ultimately have "f \<in> set (cn_heard c) \<union> set fs" using that by fastforce
    moreover have "decode_bytes (fd_abs (cn_decoder c) @ chunk) = Inr (fs, fd_abs d)" using fd_push_ok [OF wf] push Inr by simp
    ultimately show ?thesis using small decoded_frames_ok by (auto simp: small_ok_def)
  qed
  moreover have "sent_ok ue (on_data ue chunk c)"
  proof (cases "cn_calls c = []")
    case True
    have "pongs ue c (on_data ue chunk c)" by (rule on_data_pongs [OF unasked_phase [OF life True]])
    then show ?thesis using small True reply_form_grows [of ue c _ "on_data ue chunk c"]
      unfolding pongs_def hears_def small_ok_def sent_ok_def by fastforce
  next
    case False
    then show ?thesis using on_data_hears [of ue c chunk] by (simp add: hears_def sent_ok_def)
  qed
  ultimately show ?thesis using cap dec' by (simp add: small_ok_def)
qed

text \<open>The messages of the handshake.\<close>

definition hello_says :: "'k uds_env \<Rightarrow> hello_pc \<Rightarrow> hello_pc \<times> jsval list \<Rightarrow> bool" where
  "hello_says ue pc out \<longleftrightarrow> length (snd out) + hello_sent (InHello pc) \<le> hello_sent (InHello (fst out))
     \<and> (\<forall>m \<in> set (snd out). (\<exists>nonce. m = challenge (ue_hello ue) nonce) \<or> (\<exists>code. m = JObj [(''t'', JStr ''err''), (''code'', JStr code)]))"

lemma hello_says_steps:
  "hello_says ue pc (hello_message (ue_hello ue) msg nonce pc)" "hello_says ue pc (hello_timeout pc)" "hello_says ue pc (hello_presence b pc)"
  "hello_says ue pc (hello_epoch r session pc)" "hello_says ue pc (fst (hello_key (ue_hello ue) now rp m pc))"
  by (auto simp: hello_says_def hello_sent_def hello_message_def hello_timeout_def hello_presence_def hello_epoch_def hello_key_def hello_fail_def
      split: hello_pc.split option.split bool.split prod.split)

lemma after_hello_sent:
  assumes ok: "sent_ok ue c" and run: "cn_run c = InHello pc" and says: "hello_says ue pc (pc', ms)"
  shows "sent_ok ue (after_hello pc' (send_all ms c))"
proof -
  have pings: "cn_preHelloPings (send_all ms c) = cn_preHelloPings c" using send_all_simps(3) [of ms c] by (simp add: held_def)
  have more: "hello_sent (InHello pc) \<le> hello_sent (InHello pc')" using says by (simp add: hello_says_def)
  have msgs: "\<forall>m \<in> set (cn_sent (send_all ms c)). m \<in> set (cn_sent c) \<or> reply_form ue c m"
    using says by (auto simp: send_all_eq hello_says_def reply_form_def)
  have len: "length (cn_sent (send_all ms c)) + hello_sent (InHello pc) \<le> length (cn_sent c) + hello_sent (InHello pc')"
    using says by (simp add: send_all_eq hello_says_def)
  have form: "reply_form ue (after_hello pc' (send_all ms c)) m = reply_form ue c m" for m
    by (auto simp: reply_form_def heard_msg_def after_hello_def split: hello_pc.split hello_result.split)
  have two: "hello_sent (InHello (HelloDone res)) = 2" "hello_sent FlushThenFail = 2" "hello_sent RunDone = 2" for res
    by (simp_all add: hello_sent_def)
  have sent: "cn_sent (after_hello pc' (send_all ms c)) = cn_sent (send_all ms c)" "cn_preHelloPings (after_hello pc' (send_all ms c)) = cn_preHelloPings c"
    using pings by (auto simp: after_hello_def split: hello_pc.split hello_result.split)
  have r: "cn_calls (after_hello pc' (send_all ms c)) = [] \<Longrightarrow> cn_calls c = [] \<and> hello_sent (cn_run (after_hello pc' (send_all ms c))) = hello_sent (InHello pc')"
    using two by (auto simp: after_hello_def split: hello_pc.splits hello_result.splits if_splits)
  show ?thesis
    using ok r len msgs unfolding sent_ok_def sent form run by fastforce
qed

lemma sent_ok_cong:
  assumes "sent_ok ue c" "cn_sent c' = cn_sent c" "cn_heard c' = cn_heard c" "cn_preHelloPings c' = cn_preHelloPings c"
    "cn_calls c' = [] \<Longrightarrow> cn_calls c = [] \<and> hello_sent (cn_run c) \<le> hello_sent (cn_run c')"
  shows "sent_ok ue c'"
  using assms by (fastforce simp: sent_ok_def reply_form_def heard_msg_def)

lemma advance_sent:
  assumes "sent_ok ue c" "\<And>pc. hello_says ue pc (f pc)"
  shows "sent_ok ue (hello_advance f c)"
  using after_hello_sent [OF assms(1)] assms by (auto simp: hello_advance_def case_prod_beta Let_def split: run_pc.split)

lemma feed_buffered_fields:
  "cn_sent (feed_buffered ue ps c) = cn_sent c" "cn_heard (feed_buffered ue ps c) = cn_heard c"
  "cn_preHelloPings (feed_buffered ue ps c) = cn_preHelloPings c" "cn_decoder (feed_buffered ue ps c) = cn_decoder c"
  "cn_calls (feed_buffered ue ps c) = cn_calls c"
  by (induction ps arbitrary: c) (simp_all add: feed_mcp_def Let_def)

lemma recv_ctrl_fields:
  "cn_sent (recv_ctrl c) = cn_sent c" "cn_heard (recv_ctrl c) = cn_heard c" "cn_preHelloPings (recv_ctrl c) = cn_preHelloPings c"
  "cn_decoder (recv_ctrl c) = cn_decoder c" "cn_calls (recv_ctrl c) = cn_calls c" "cn_run (recv_ctrl c) = cn_run c"
  by (simp_all add: recv_ctrl_def split: list.split)

lemma after_hello_fields: "cn_heard (after_hello pc c) = cn_heard c" "cn_decoder (after_hello pc c) = cn_decoder c"
  by (auto simp: after_hello_def split: hello_pc.split hello_result.split)

lemma advance_fields: "cn_heard (hello_advance f c) = cn_heard c" "cn_decoder (hello_advance f c) = cn_decoder c"
  by (auto simp: hello_advance_def case_prod_beta Let_def after_hello_fields split: run_pc.split)

lemma resume_fields: "cn_heard (hello_resume ue nonce c) = cn_heard c" "cn_decoder (hello_resume ue nonce c) = cn_decoder c"
  by (auto simp: hello_resume_def case_prod_beta Let_def after_hello_fields recv_ctrl_fields split: run_pc.split option.split hello_pc.split)

lemma resume_sent:
  assumes "sent_ok ue c"
  shows "sent_ok ue (hello_resume ue nonce c)"
proof -
  consider pc msg where "cn_run c = InHello pc" "cn_inbox c = Some msg" | "hello_resume ue nonce c = c"
    by (cases "cn_run c"; cases "cn_inbox c") (auto simp: hello_resume_def)
  then show ?thesis
  proof cases
    case (1 pc msg)
    obtain pc' ms where step: "hello_message (ue_hello ue) msg nonce pc = (pc', ms)" by fastforce
    let ?e = "after_hello pc' (send_all ms (c\<lparr>cn_inbox := None\<rparr>))"
    have "sent_ok ue (c\<lparr>cn_inbox := None\<rparr>)" by (rule sent_ok_cong [OF assms]) simp_all
    then have e: "sent_ok ue ?e"
      using after_hello_sent [of ue "c\<lparr>cn_inbox := None\<rparr>" pc pc' ms] hello_says_steps(1) [of ue pc msg nonce] 1 step by simp
    have "sent_ok ue (recv_ctrl ?e)" by (rule sent_ok_cong [OF e]) (simp_all add: recv_ctrl_fields)
    then show ?thesis using e 1 step by (cases pc') (simp_all add: hello_resume_def)
  qed (use assms in simp)
qed

lemma small_step:
  assumes small: "small_ok ue M c" and life: "life_ok (life c)" and st: "stream_inv cs c" and M: "\<forall>bs. e = Chunk bs \<longrightarrow> length bs \<le> M"
  shows "small_ok ue M (conn_step ue c e)"
proof (cases "\<exists>bs. e = Chunk bs")
  case True
  then show ?thesis using on_data_small [OF small life st] M by (auto simp: conn_step_def)
next
  case False
  have sent: "sent_ok ue c" using small by (simp add: small_ok_def)
  have fl: "cn_calls c \<noteq> []" if "cn_run c = FlushOk \<or> (\<exists>a e s. cn_run c = Adding a e s)"
    using life that by (auto simp: life_def added_def)
  have same: "sent_ok ue c'" if "cn_sent c' = cn_sent c" "cn_heard c' = cn_heard c" "cn_preHelloPings c' = cn_preHelloPings c"
      "cn_calls c' = [] \<Longrightarrow> cn_calls c = []" "hello_sent (cn_run c) \<le> hello_sent (cn_run c')" for c'
    by (rule sent_ok_cong [OF sent]) (use that in auto)
  have "cn_heard (conn_step ue c e) = cn_heard c \<and> cn_decoder (conn_step ue c e) = cn_decoder c"
    using False by (cases e) (auto simp: conn_step_def resume_fields advance_fields add_answered_def flushed_def teardown_body_def
        teardown_end_def feed_buffered_fields split: run_pc.split)
  moreover have "sent_ok ue (conn_step ue c e)"
  proof (cases e)
    case (AddAnswer ok)
    then show ?thesis using sent fl by (auto simp: conn_step_def add_answered_def sent_ok_def split: run_pc.split)
  next
    case Flushed
    have "sent_ok ue (fail_conn (c\<lparr>cn_run := RunDone\<rparr>))" if "cn_run c = FlushThenFail"
      by (rule same) (simp_all add: that hello_sent_def)
    then show ?thesis using sent fl Flushed
      by (auto simp: conn_step_def flushed_def feed_buffered_fields sent_ok_def split: run_pc.split)
  qed (use False sent in \<open>auto simp: conn_step_def resume_sent advance_sent hello_says_steps teardown_body_def teardown_end_def intro!: same\<close>)
  ultimately show ?thesis using small by (simp add: small_ok_def)
qed

lemma small_key_step: "small_ok ue M c \<Longrightarrow> small_ok ue M (fst (conn_key_step ue now r m c))"
  using key_step_advance [of ue now r m c] advance_sent [of ue c "\<lambda>pc. fst (hello_key (ue_hello ue) now r m pc)"]
  by (auto simp: small_ok_def advance_fields hello_says_steps)

lemma small_new: "small_ok ue M (conn_new ue u)"
  by (auto simp: small_ok_def sent_ok_def conn_new_def hello_start_def hello_fail_def after_hello_def send_all_def send_ctrl_def
      case_prod_beta Let_def hello_sent_def fd_new_def reply_form_def recv_ctrl_fields split: option.split)

subsection \<open>Properties\<close>

text \<open>
  C8. A session is asked of the core only for an agent that has authenticated on that connection: the agent id is a
  token, the connection sent a fresh challenge and received an \<open>auth\<close> message whose signature of that very nonce
  verifies under a key that Redis returned for the agent, less than a cache lifetime before the check; and unless the
  session is tool-only, Redis answered that no other instance of the agent is present. The connection asks for no other session,
  and never after it has closed: when it was closed at some moment of the run, it had asked by then. This holds for every
  interleaving of connections, which share the key cache.
\<close>

theorem session_is_authenticated:
  assumes "a = run (acceptor_step ue maxc) acceptor_new es" "i < length (ac_conns a)"
    and "AddSession agent epoch toolOnly \<in> set (cn_calls (ac_conns a ! i))"
  shows "is_token agent \<and> 1 \<le> epoch \<and> epoch \<le> 4294967295 \<and> (toolOnly \<or> At i (PresenceAnswer True) \<in> set es)
    \<and> (\<exists>nonce. challenge (ue_hello ue) nonce \<in> set (cn_sent (ac_conns a ! i))
          \<and> proved ue (set (ac_asked a)) (lookup_times i es) (ac_conns a ! i) agent nonce)
    \<and> filter is_add (cn_calls (ac_conns a ! i)) = [AddSession agent epoch toolOnly]
    \<and> (\<forall>pre post. es = pre @ post \<longrightarrow>
         (let b = run (acceptor_step ue maxc) acceptor_new pre in
          i < length (ac_conns b) \<and> cn_phase (ac_conns b ! i) = PClosed
            \<longrightarrow> AddSession agent epoch toolOnly \<in> set (cn_calls (ac_conns b ! i))))"
proof -
  have inv: "acceptor_inv ue maxc es a" unfolding assms(1) by (rule acceptor_inv_run)
  then have "auth_inv ue (set (ac_asked a)) (lookup_times i es) (At i (PresenceAnswer True) \<in> set es) (ac_conns a ! i)"
    using assms(2) by (simp add: acceptor_inv_def)
  then have "add_ok ue (set (ac_asked a)) (lookup_times i es) (At i (PresenceAnswer True) \<in> set es) (ac_conns a ! i)
      (AddSession agent epoch toolOnly)"
    using assms(3) unfolding auth_inv_def by blast
  moreover have once: "filter is_add (cn_calls (ac_conns a ! i)) = [AddSession agent epoch toolOnly]"
    using inv assms(2,3) by (intro one_add) (simp_all add: acceptor_inv_def)
  moreover have "AddSession agent epoch toolOnly \<in> set (cn_calls (ac_conns b ! i))"
    if "es = pre @ post" "b = run (acceptor_step ue maxc) acceptor_new pre" "i < length (ac_conns b)" "cn_phase (ac_conns b ! i) = PClosed"
    for pre post b
  proof -
    have "shut (filter is_add (cn_calls (ac_conns b ! i))) (ac_conns b ! i)" using that(4) by (simp add: shut_def)
    then have "filter is_add (cn_calls (ac_conns b ! i)) = [AddSession agent epoch toolOnly]"
      using shut_run [of i ue maxc pre _ post] that(1-3) assms(1) once by (auto simp: shut_def)
    then show ?thesis by (metis filter_is_subset list.set_intros(1) subset_code(1))
  qed
  ultimately show ?thesis by (simp add: add_ok_def challenged_def Let_def)
qed

text \<open>
  C16. What a peer can make the process hold for a connection is bounded, whatever it sends: of the byte stream less than one frame
  at the cap while the connection is open, in an array of at most twice that and a chunk; at most 8 queued handshake messages and the one
  handed to the handshake, each parsed from less than 16 MiB; 16 buffered MCP frames of at most 1 MiB together; and, until it has
  authenticated, at most 11 messages to send, each a challenge, an error code or the pong to a ping it sent in less than 16 MiB. There are at
  most \<open>maxConnections\<close> live connections and 4096 cached keys. (\<open>M\<close> bounds the chunks in which the socket hands over its bytes.
  After authentication pings are answered without count, and only the limit of the frame writer bounds what waits to be sent.)
\<close>

theorem connection_memory_bounded:
  assumes "a = run (acceptor_step ue maxc) acceptor_new es" "i < length (ac_conns a)" "c = ac_conns a ! i"
    and M: "\<And>j bs. At j (Chunk bs) \<in> set es \<Longrightarrow> length bs \<le> M"
  shows "(cn_phase c \<noteq> PClosed \<longrightarrow> fd_buffered_bytes (cn_decoder c) < FRAME_HEADER_BYTES + FRAME_LENGTH_CAP)
    \<and> length (buf (cn_decoder c)) \<le> 64 + 2 * (FRAME_HEADER_BYTES + FRAME_LENGTH_CAP + M)
    \<and> length (cn_helloQ c) \<le> 8
    \<and> (\<forall>m. m \<in> set (cn_helloQ c) \<or> cn_inbox c = Some m \<and> m \<noteq> closed_msg \<longrightarrow> (\<exists>p. length p < 16777216 \<and> ue_parse ue p = Some m))
    \<and> length (cn_mcpBuffer c) \<le> 16 \<and> sum_list (map length (cn_mcpBuffer c)) \<le> 1048576
    \<and> (cn_calls c = [] \<longrightarrow> length (cn_sent c) \<le> 11
         \<and> (\<forall>m \<in> set (cn_sent c). (\<exists>nonce. m = challenge (ue_hello ue) nonce) \<or> (\<exists>code. m = JObj [(''t'', JStr ''err''), (''code'', JStr code)])
              \<or> (\<exists>p ping. length p < 16777216 \<and> ue_parse ue p = Some ping \<and> m = pong_of ping)))
    \<and> live a \<le> maxc \<and> length (ac_cache a) \<le> 4096"
proof -
  have inv: "acceptor_inv ue maxc es a" unfolding assms(1) by (rule acceptor_inv_run)
  then have "held_ok c" "live a \<le> maxc" "length (ac_cache a) \<le> MAX_CACHE_KEYS" and auth: "auth_inv ue (set (ac_asked a)) (lookup_times i es)
      (At i (PresenceAnswer True) \<in> set es) c"
    using assms(2,3) by (simp_all add: acceptor_inv_def)
  then have counts: "length (cn_helloQ c) \<le> 8" "length (cn_mcpBuffer c) \<le> 16" "sum_list (map length (cn_mcpBuffer c)) \<le> 1048576"
    "cn_preHelloPings c \<le> 9" "live a \<le> maxc" "length (ac_cache a) \<le> 4096"
    by (simp_all add: held_ok_def acceptor_consts MAX_CACHE_KEYS_def)
  have "small_ok ue M c \<and> (\<exists>cs. stream_inv cs c)"
    unfolding assms(1,3)
  proof (rule conns_run_inv [where ok = "\<lambda>e. \<forall>bs. e = Chunk bs \<longrightarrow> length bs \<le> M", OF small_new small_step small_key_step])
    show "\<forall>j e. At j e \<in> set es \<longrightarrow> (\<forall>bs. e = Chunk bs \<longrightarrow> length bs \<le> M)" using M by blast
    show "i < length (ac_conns (run (acceptor_step ue maxc) acceptor_new es))" using assms(1,2) by simp
  qed
  then obtain cs where small: "small_ok ue M c" and st: "stream_inv cs c" by blast
  have heard: "\<exists>p. length p < 16777216 \<and> ue_parse ue p = Some m" if h: "heard_msg ue c m" for m
  proof -
    obtain f where "f \<in> set (cn_heard c)" "ue_parse ue (fr_payload f) = Some m" using h by (auto simp: heard_msg_def)
    moreover from this have "length (fr_payload f) < 16777216" using small by (auto simp: small_ok_def frame_ok_def frame_consts)
    ultimately show ?thesis by blast
  qed
  have "fd_buffered_bytes (cn_decoder c) < FRAME_HEADER_BYTES + FRAME_LENGTH_CAP" if "cn_phase c \<noteq> PClosed"
    using st that decode_rest_bound [of "concat cs" "cn_heard c" "fd_abs (cn_decoder c)"]
    by (simp add: stream_inv_def fd_abs_def fd_wf_def fd_buffered_bytes_def)
  moreover have "m \<in> set (cn_helloQ c) \<or> cn_inbox c = Some m \<and> m \<noteq> closed_msg \<Longrightarrow> heard_msg ue c m" for m
    using auth unfolding auth_inv_def by blast
  moreover have "hello_sent (cn_run c) \<le> 2" by (simp add: hello_sent_def split: run_pc.split hello_pc.split)
  ultimately show ?thesis using counts small heard unfolding small_ok_def sent_ok_def reply_form_def by (intro conjI impI allI ballI) (blast | linarith)+
qed

text \<open>
  C10. The core's sessions are given back exactly once: the exchanges of a connection with the core are always an initial part
  of asking for one session, its grant and its removal, so no session is removed that was not granted and
  none twice; and once the connection is torn down and its run has ended, no grant is left without its removal,
  even when the teardown overtook the answer of the core.
\<close>

theorem granted_session_is_removed:
  assumes "a = run (acceptor_step ue maxc) acceptor_new es" "i < length (ac_conns a)"
  shows "\<exists>agent epoch toolOnly.
      prefix (cn_calls (ac_conns a ! i)) [AddSession agent epoch toolOnly, AddGranted agent epoch, RemoveSession agent epoch]
      \<and> (cn_teardown (ac_conns a ! i) = TornDown \<and> cn_run (ac_conns a ! i) = RunDone
           \<longrightarrow> length (cn_calls (ac_conns a ! i)) \<noteq> 2)"
proof -
  let ?c = "ac_conns a ! i"
  have "acceptor_inv ue maxc es a" unfolding assms(1) by (rule acceptor_inv_run)
  then have "life_ok (life ?c)" using assms(2) by (simp add: acceptor_inv_def)
  then show ?thesis
    by (cases "cn_run ?c"; cases "cn_teardown ?c") (auto simp: life_def added_def)
qed

text \<open>
  C9. The MCP transport of a connection is fed exactly the MCP payloads of the byte stream, in order and each once: while
  the connection is open, the frames routed are what the wire format says of the bytes received, however they
  were cut, nothing is fed before the session is live and everything after, the frames buffered during the
  handshake first; a connection that has closed has fed an initial part of them.
\<close>

theorem mcp_stream_delivered:
  assumes "live (run (acceptor_step ue maxc) acceptor_new pre) < maxc"
    and "i = length (ac_conns (run (acceptor_step ue maxc) acceptor_new pre))"
    and "c = ac_conns (run (acceptor_step ue maxc) acceptor_new (pre @ Open u # post)) ! i"
  shows "prefix (cn_fed c) (mcp_of (cn_heard c))
    \<and> (cn_phase c = PClosed
       \<or> (\<exists>rest. decode_bytes (concat (chunks_of i post)) = Inr (cn_heard c, rest)
             \<and> cn_fed c = (if cn_phase c = PSession then mcp_of (cn_heard c) else [])))"
proof -
  have "stream_inv (chunks_of i post) c"
    using connection_stream [OF assms(1,2)] assms(3) by blast
  then show ?thesis
    by (cases "cn_phase c") (auto simp: stream_inv_def mcp_inv_def)
qed

subsection \<open>A session, step by step\<close>

lemma on_frame:
  assumes "cn_phase c \<noteq> PClosed" "fd_wf (cn_decoder c)" "fd_abs (cn_decoder c) = []" "frame_ok f"
  obtains d where "fd_wf d" "fd_abs d = []" "fd_buffered_bytes d = 0"
    "on_data ue (frame_bytes f) c = update_idle ue (route_frame ue f (c\<lparr>cn_decoder := d\<rparr>))"
proof -
  obtain r d where push: "fd_push (cn_decoder c) (frame_bytes f) = (r, d)" by fastforce
  have dec: "decode_bytes (fd_abs (cn_decoder c) @ frame_bytes f) = Inr ([f], [])"
    using decode_frame_bytes [OF assms(4), of "[]"] assms(3) by simp
  then have r: "r = Inr [f]" using fd_push_refines [OF assms(2), of "frame_bytes f"] push by simp
  then have d: "fd_wf d" "fd_abs d = []" using fd_push_ok [OF assms(2)] push dec by auto
  then have "fd_buffered_bytes d = 0" by (auto simp: fd_buffered_bytes_def fd_abs_def fd_wf_def)
  then show ?thesis using that d push r assms(1) by (simp add: on_data_def)
qed

definition toy_frame :: "frame_type \<Rightarrow> byte \<Rightarrow> decoded_frame" where
  "toy_frame t b = \<lparr>fr_type = t, fr_payload = [b]\<rparr>"

definition toy_hello :: jsval where
  "toy_hello = JObj [(''t'', JStr ''hello''), (''v'', JNum (Fin 1)), (''agentId'', JStr ''kai''), (''host'', JStr ''h''),
     (''pid'', JNum (Fin 1)), (''subsKey'', JStr '''')]"

definition toy_auth :: jsval where
  "toy_auth = JObj [(''t'', JStr ''auth''), (''alg'', JStr ''ed25519''), (''sig'', JStr ''s'')]"

definition toy_uds :: "unit uds_env" where
  "toy_uds = \<lparr>ue_hello = \<lparr>hv_b64 = (\<lambda>_. ''n''), hv_from_b64 = (\<lambda>s. if s = ''s'' then replicate 64 0 else replicate 32 0),
       hv_import = (\<lambda>_. Some ()), hv_verify = (\<lambda>_ _ _. Some True)\<rparr>,
     ue_je = \<lparr>je_num_text = (\<lambda>n. ''7''), je_to_number = (\<lambda>v. NaN), je_date_parse = (\<lambda>s. None), je_iso = (\<lambda>n. '''')\<rparr>,
     ue_parse = (\<lambda>p. if p = [1] then Some toy_hello else if p = [2] then Some toy_auth else None),
     ue_throws = (\<lambda>_. False), ue_expectedUid = None, ue_idleMs = Fin 120000\<rparr>"

definition toy_conn :: "frame_decoder \<Rightarrow> phase \<Rightarrow> nat \<Rightarrow> jsval option \<Rightarrow> byte list list \<Rightarrow> run_pc \<Rightarrow> decoded_frame list \<Rightarrow> jsval list
    \<Rightarrow> (string \<times> nat) option \<Rightarrow> byte list list \<Rightarrow> core_call list \<Rightarrow> conn" where
  "toy_conn d ph w inb bf rn fs sent ses fed calls =
     \<lparr>cn_phase = ph, cn_decoder = d, cn_ctrl = pm_new, cn_delivery = pm_new, cn_helloQ = [], cn_waiters = w,
      cn_inbox = inb, cn_mcpBuffer = bf, cn_preSessionBytes = 1, cn_preHelloPings = 0, cn_session = ses, cn_idle = False,
      cn_run = rn, cn_teardown = NotTorn, cn_heard = fs, cn_sent = sent, cn_fed = fed, cn_calls = calls\<rparr>"

abbreviation toy_nonce :: "byte list" where "toy_nonce \<equiv> replicate 32 0"
abbreviation toy_mcp :: decoded_frame where "toy_mcp \<equiv> toy_frame FRAME_TYPE_MCP 9"
abbreviation toy_f1 :: decoded_frame where "toy_f1 \<equiv> toy_frame FRAME_TYPE_CTRL 1"
abbreviation toy_f2 :: decoded_frame where "toy_f2 \<equiv> toy_frame FRAME_TYPE_CTRL 2"
abbreviation toy_sent :: "jsval list" where "toy_sent \<equiv> [challenge (ue_hello toy_uds) toy_nonce]"

lemma toy_frame_ok [simp]: "frame_ok (toy_frame t b)" "fr_type (toy_frame t b) = t" "fr_payload (toy_frame t b) = [b]"
  by (simp_all add: toy_frame_def frame_ok_def frame_consts)

lemma toy_env_simps [simp]:
  "ue_parse toy_uds [1] = Some toy_hello" "ue_parse toy_uds [2] = Some toy_auth" "ue_throws toy_uds p = False"
  "ue_expectedUid toy_uds = None"
  by (simp_all add: toy_uds_def)

lemma toy_hello_valid [simp]: "valid_hello toy_hello" "hello_agent toy_hello = ''kai''" "\<not> tool_only toy_hello"
  "\<not> delivery_capable toy_hello" "\<not> is_ctrl_ping toy_hello"
  by (simp_all add: valid_hello_def toy_hello_def jget_def is_obj_def str_where_def valid_pid_def valid_caps_def num_integer_def
      hello_agent_def str_of_def tool_only_def delivery_capable_def is_ctrl_ping_def js_eval)

lemma toy_auth_valid [simp]: "valid_auth toy_auth" "\<not> is_ctrl_ping toy_auth"
  by (simp_all add: valid_auth_def toy_auth_def jget_def is_obj_def is_str_def is_ctrl_ping_def)

definition toy_first :: "acceptor_event list" where
  "toy_first = [At 0 (Chunk (frame_bytes toy_mcp)), At 0 (Chunk (frame_bytes toy_f1)), At 0 (Resume toy_nonce),
     At 0 (Chunk (frame_bytes toy_f2)), At 0 (Resume []), At 0 (KeyAnswer 0 (KeyText ''k'')), At 0 (PresenceAnswer True),
     At 0 (EpochAnswer (Some (Fin 7)) ''sess''), At 0 (AddAnswer True), At 0 Flushed]"

lemma toy_chunk_mcp:
  assumes "fd_wf d" "fd_abs d = []"
  obtains d' where "fd_wf d'" "fd_abs d' = []"
    "on_data toy_uds (frame_bytes toy_mcp) ((toy_conn d PHello 1 None [] (InHello AwaitHello) [] [] None [] [])\<lparr>cn_preSessionBytes := 0\<rparr>)
     = toy_conn d' PHello 1 None [[9]] (InHello AwaitHello) [toy_mcp] [] None [] []"
proof -
  let ?c = "(toy_conn d PHello 1 None [] (InHello AwaitHello) [] [] None [] [])\<lparr>cn_preSessionBytes := 0\<rparr>"
  obtain d' where d': "fd_wf d'" "fd_abs d' = []" "fd_buffered_bytes d' = 0"
    "on_data toy_uds (frame_bytes toy_mcp) ?c = update_idle toy_uds (route_frame toy_uds toy_mcp (?c\<lparr>cn_decoder := d'\<rparr>))"
    by (rule on_frame [of ?c toy_mcp toy_uds]) (use assms in \<open>simp_all add: toy_conn_def\<close>)
  then show ?thesis
    using that [of d'] by (simp add: toy_conn_def route_frame_def route_mcp_def update_idle_def acceptor_consts Let_def)
qed

lemma toy_chunk_ctrl:
  assumes "fd_wf d" "fd_abs d = []" "ue_parse toy_uds [b] = Some m" "\<not> is_ctrl_ping m"
  obtains d' where "fd_wf d'" "fd_abs d' = []"
    "on_data toy_uds (frame_bytes (toy_frame FRAME_TYPE_CTRL b)) (toy_conn d PHello 1 None bf rn fs sent None [] [])
     = toy_conn d' PHello 0 (Some m) bf rn (fs @ [toy_frame FRAME_TYPE_CTRL b]) sent None [] []"
proof -
  let ?c = "toy_conn d PHello 1 None bf rn fs sent None [] []" and ?f = "toy_frame FRAME_TYPE_CTRL b"
  obtain d' where d': "fd_wf d'" "fd_abs d' = []" "fd_buffered_bytes d' = 0"
    "on_data toy_uds (frame_bytes ?f) ?c = update_idle toy_uds (route_frame toy_uds ?f (?c\<lparr>cn_decoder := d'\<rparr>))"
    by (rule on_frame [of ?c ?f toy_uds]) (use assms in \<open>simp_all add: toy_conn_def\<close>)
  then show ?thesis
    using that [of d'] assms(3,4)
    by (simp add: toy_conn_def route_frame_def route_ctrl_def update_idle_def acceptor_consts push_hello_ctrl_def Let_def)
qed

definition toy_acc :: "conn \<Rightarrow> unit key_cache \<Rightarrow> (string \<times> rat \<times> key_reply) list \<Rightarrow> unit acceptor" where
  "toy_acc c m q = \<lparr>ac_cache = m, ac_conns = [c], ac_asked = q, ac_refused = 0\<rparr>"

lemma toy_acc_step: "\<forall>now r. e \<noteq> KeyAnswer now r \<Longrightarrow> acceptor_step toy_uds n (toy_acc c m q) (At 0 e) = toy_acc (conn_step toy_uds c e) m q"
  by (cases e) (simp_all add: acceptor_step_def toy_acc_def)

lemma toy_open:
  "acceptor_step toy_uds 4 acceptor_new (Open None)
   = toy_acc ((toy_conn fd_new PHello 1 None [] (InHello AwaitHello) [] [] None [] [])\<lparr>cn_preSessionBytes := 0\<rparr>) [] []"
  by (simp add: acceptor_step_def acceptor_new_def live_def toy_acc_def conn_new_def hello_start_def after_hello_def recv_ctrl_def
      send_all_def toy_conn_def)

lemma toy_resume_hello:
  "conn_step toy_uds (toy_conn d PHello 0 (Some toy_hello) bf (InHello AwaitHello) fs [] None [] []) (Resume toy_nonce)
   = toy_conn d PHello 1 None bf (InHello (AwaitAuth toy_hello toy_nonce)) fs toy_sent None [] []"
  by (simp add: conn_step_def hello_resume_def toy_conn_def hello_message_def after_hello_def send_all_def send_ctrl_def recv_ctrl_def)

lemma toy_resume_auth:
  "conn_step toy_uds (toy_conn d PHello 0 (Some toy_auth) bf (InHello (AwaitAuth toy_hello toy_nonce)) fs toy_sent None [] []) (Resume [])
   = toy_conn d PHello 0 None bf (InHello (AwaitKey toy_hello toy_nonce toy_auth)) fs toy_sent None [] []"
  by (simp add: conn_step_def hello_resume_def toy_conn_def hello_message_def after_hello_def send_all_def)

lemma toy_sig: "check_sig (ue_hello toy_uds) () toy_auth toy_nonce = Some True" "key_of (ue_hello toy_uds) (KeyText ''k'') = Some ()"
  by (simp_all add: check_sig_def key_of_def toy_uds_def toy_auth_def jget_def str_of_def js_eval)

lemma toy_key:
  "acceptor_step toy_uds n (toy_acc (toy_conn d PHello 0 None bf (InHello (AwaitKey toy_hello toy_nonce toy_auth)) fs toy_sent None [] []) [] [])
     (At 0 (KeyAnswer 0 (KeyText ''k'')))
   = toy_acc (toy_conn d PHello 0 None bf (InHello (AwaitPresence toy_hello)) fs toy_sent None [] []) [(''kai'', (), 60000)]
       [(''kai'', 0, KeyText ''k'')]"
  by (simp add: acceptor_step_def toy_acc_def conn_key_step_def toy_conn_def hello_key_def get_verify_key_def cached_key_def toy_sig
      after_hello_def send_all_def evict_oldest_def MAX_CACHE_KEYS_def KEY_CACHE_TTL_MS_def)

definition toy_calls :: "core_call list" where
  "toy_calls = [AddSession ''kai'' 7 False, AddGranted ''kai'' 7]"

definition toy_ok :: jsval where
  "toy_ok = JObj [(''t'', JStr ''ok''), (''session'', JStr ''sess''), (''epoch'', JNum (Fin 7))]"

lemma toy_end:
  "conn_step toy_uds (conn_step toy_uds (conn_step toy_uds (conn_step toy_uds
     (toy_conn d PHello 0 None [[9]] (InHello (AwaitPresence toy_hello)) fs toy_sent None [] [])
     (PresenceAnswer True)) (EpochAnswer (Some (Fin 7)) ''sess'')) (AddAnswer True)) Flushed
   = toy_conn d PSession 0 None [] RunDone fs (toy_sent @ [toy_ok]) (Some (''kai'', 7)) [[9]] toy_calls"
  by (simp add: conn_step_def toy_conn_def hello_advance_def hello_presence_def hello_epoch_def next_epoch_def num_integer_def
      after_hello_def send_all_def add_answered_def send_ctrl_def flushed_def feed_mcp_def toy_calls_def toy_ok_def Let_def)

lemma toy_session_run:
  obtains d where "run (acceptor_step toy_uds 4) acceptor_new (Open None # toy_first)
    = toy_acc (toy_conn d PSession 0 None [] RunDone [toy_mcp, toy_f1, toy_f2] (toy_sent @ [toy_ok]) (Some (''kai'', 7)) [[9]] toy_calls)
        [(''kai'', (), 60000)] [(''kai'', 0, KeyText ''k'')]"
proof -
  obtain d1 where d1: "fd_wf d1" "fd_abs d1 = []"
    "on_data toy_uds (frame_bytes toy_mcp) ((toy_conn fd_new PHello 1 None [] (InHello AwaitHello) [] [] None [] [])\<lparr>cn_preSessionBytes := 0\<rparr>)
     = toy_conn d1 PHello 1 None [[9]] (InHello AwaitHello) [toy_mcp] [] None [] []"
    by (rule toy_chunk_mcp [of fd_new]) simp_all
  obtain d2 where d2: "fd_wf d2" "fd_abs d2 = []"
    "on_data toy_uds (frame_bytes toy_f1) (toy_conn d1 PHello 1 None [[9]] (InHello AwaitHello) [toy_mcp] [] None [] [])
     = toy_conn d2 PHello 0 (Some toy_hello) [[9]] (InHello AwaitHello) [toy_mcp, toy_f1] [] None [] []"
    by (rule toy_chunk_ctrl [OF d1(1,2), of 1 toy_hello "[[9]]" "InHello AwaitHello" "[toy_mcp]" "[]"]) simp_all
  obtain d3 where d3: "on_data toy_uds (frame_bytes toy_f2)
      (toy_conn d2 PHello 1 None [[9]] (InHello (AwaitAuth toy_hello toy_nonce)) [toy_mcp, toy_f1] toy_sent None [] [])
     = toy_conn d3 PHello 0 (Some toy_auth) [[9]] (InHello (AwaitAuth toy_hello toy_nonce)) [toy_mcp, toy_f1, toy_f2] toy_sent None [] []"
    by (rule toy_chunk_ctrl [OF d2(1,2), of 2 toy_auth "[[9]]" "InHello (AwaitAuth toy_hello toy_nonce)" "[toy_mcp, toy_f1]" toy_sent]) simp_all
  have chunk: "conn_step toy_uds c (Chunk bs) = on_data toy_uds bs c" for c bs by (simp add: conn_step_def)
  show ?thesis
    by (rule that [of d3])
      (simp add: toy_first_def toy_open toy_acc_step chunk d1(3) d2(3) d3 toy_resume_hello toy_resume_auth toy_key toy_end
        del: One_nat_def)
qed

theorem session_is_authenticated_witness:
  "\<exists>a. \<exists>nonce. a = run (acceptor_step toy_uds 4) acceptor_new (Open None # toy_first)
     \<and> challenge (ue_hello toy_uds) nonce \<in> set (cn_sent (ac_conns a ! 0))
     \<and> proved toy_uds (set (ac_asked a)) (lookup_times 0 (Open None # toy_first)) (ac_conns a ! 0) ''kai'' nonce
     \<and> filter is_add (cn_calls (ac_conns a ! 0)) = [AddSession ''kai'' 7 False]"
proof -
  obtain d where run: "run (acceptor_step toy_uds 4) acceptor_new (Open None # toy_first)
    = toy_acc (toy_conn d PSession 0 None [] RunDone [toy_mcp, toy_f1, toy_f2] (toy_sent @ [toy_ok]) (Some (''kai'', 7)) [[9]] toy_calls)
        [(''kai'', (), 60000)] [(''kai'', 0, KeyText ''k'')]" by (rule toy_session_run)
  then have "0 < length (ac_conns (run (acceptor_step toy_uds 4) acceptor_new (Open None # toy_first)))"
    "AddSession ''kai'' 7 False \<in> set (cn_calls (ac_conns (run (acceptor_step toy_uds 4) acceptor_new (Open None # toy_first)) ! 0))"
    by (simp_all add: toy_acc_def toy_conn_def toy_calls_def)
  from session_is_authenticated [OF refl this] show ?thesis by blast
qed

theorem connection_memory_bounded_witness:
  "let a = run (acceptor_step toy_uds 4) acceptor_new (Open None # toy_first); c = ac_conns a ! 0 in
     fd_buffered_bytes (cn_decoder c) < 16777220 \<and> length (buf (cn_decoder c)) \<le> 33554516 \<and> length (cn_mcpBuffer c) \<le> 16"
proof -
  define a where "a = run (acceptor_step toy_uds 4) acceptor_new (Open None # toy_first)"
  obtain d where run: "a = toy_acc (toy_conn d PSession 0 None [] RunDone [toy_mcp, toy_f1, toy_f2] (toy_sent @ [toy_ok]) (Some (''kai'', 7)) [[9]] toy_calls)
        [(''kai'', (), 60000)] [(''kai'', 0, KeyText ''k'')]" unfolding a_def by (rule toy_session_run)
  have i: "0 < length (ac_conns a)" "cn_phase (ac_conns a ! 0) \<noteq> PClosed" by (simp_all add: run toy_acc_def toy_conn_def)
  have "length bs \<le> 6" if "At j (Chunk bs) \<in> set (Open None # toy_first)" for j bs
    using that by (auto simp: toy_first_def length_frame_bytes)
  note bound = connection_memory_bounded [OF a_def i(1) refl this, unfolded frame_consts]
  show ?thesis unfolding Let_def a_def [symmetric] using bound i(2) by simp
qed

theorem granted_session_is_removed_witness:
  "\<exists>agent epoch t. prefix (cn_calls (ac_conns (run (acceptor_step toy_uds 4) acceptor_new (Open None # toy_first)) ! 0))
     [AddSession agent epoch t, AddGranted agent epoch, RemoveSession agent epoch]"
proof -
  obtain d where "run (acceptor_step toy_uds 4) acceptor_new (Open None # toy_first)
    = toy_acc (toy_conn d PSession 0 None [] RunDone [toy_mcp, toy_f1, toy_f2] (toy_sent @ [toy_ok]) (Some (''kai'', 7)) [[9]] toy_calls)
        [(''kai'', (), 60000)] [(''kai'', 0, KeyText ''k'')]" by (rule toy_session_run)
  then have "0 < length (ac_conns (run (acceptor_step toy_uds 4) acceptor_new (Open None # toy_first)))" by (simp add: toy_acc_def)
  from granted_session_is_removed [OF refl this] show ?thesis by blast
qed

theorem mcp_stream_delivered_witness:
  "\<exists>c rest. c = ac_conns (run (acceptor_step toy_uds 4) acceptor_new ([] @ Open None # toy_first)) ! 0
     \<and> decode_bytes (concat (chunks_of 0 toy_first)) = Inr (cn_heard c, rest) \<and> cn_fed c = [[9]]"
proof -
  obtain d where run: "run (acceptor_step toy_uds 4) acceptor_new (Open None # toy_first)
    = toy_acc (toy_conn d PSession 0 None [] RunDone [toy_mcp, toy_f1, toy_f2] (toy_sent @ [toy_ok]) (Some (''kai'', 7)) [[9]] toy_calls)
        [(''kai'', (), 60000)] [(''kai'', 0, KeyText ''k'')]" by (rule toy_session_run)
  have pre: "live (run (acceptor_step toy_uds 4) acceptor_new []) < 4" "0 = length (ac_conns (run (acceptor_step toy_uds 4) acceptor_new []))"
    by (simp_all add: acceptor_new_def live_def)
  from mcp_stream_delivered [OF pre refl, of None toy_first] show ?thesis
    using run by (auto simp: toy_acc_def toy_conn_def)
qed

end
