(* ===== verification/Mcp_Session.thy ===== *)
theory Mcp_Session
  imports Prelude
begin

text \<open>
  src/mcp_session.ts: the MCP server of one session. Channel events wait for the client's initialization, then go out one
  after the other along \<open>deliveryChain\<close>; the chain is the list of the injections it has still to start and the one in
  flight. A caller of \<open>notification\<close> is named by its number; how its promise settles is logged.
\<close>

subsection \<open>Configuration and tool routing\<close>

text \<open>\<open>positiveIntEnv\<close>; the variable is \<open>None\<close> when it is not set, \<open>to_num\<close> is \<open>Number(raw)\<close>.\<close>

definition num_trunc :: "jsnum \<Rightarrow> jsnum" where
  "num_trunc n = (case n of Fin q \<Rightarrow> Fin (if q < 0 then - of_int \<lfloor>- q\<rfloor> else of_int \<lfloor>q\<rfloor>) | _ \<Rightarrow> n)"

definition positive_int_env :: "(string \<Rightarrow> jsnum) \<Rightarrow> string option \<Rightarrow> rat \<Rightarrow> rat" where
  "positive_int_env to_num raw fallback =
     (case num_trunc (if raw = None \<or> raw = Some [] then Fin fallback else to_num (the raw)) of
        Fin q \<Rightarrow> if 0 < q then q else fallback
      | _ \<Rightarrow> fallback)"

lemma positive_int_env_integer:
  assumes "0 < fallback" "of_int \<lfloor>fallback\<rfloor> = fallback"
  shows "0 < positive_int_env to_num raw fallback \<and> of_int \<lfloor>positive_int_env to_num raw fallback\<rfloor> = positive_int_env to_num raw fallback"
  using assms by (auto simp: positive_int_env_def num_trunc_def split: jsnum.split)

datatype tool_owner = KaiOwner | BrainOwner | VaultOwner | LauncherOwner | ChannelOwner

text \<open>The vault and the launcher may be absent.\<close>

definition tool_owner_of ::
  "(string \<Rightarrow> bool) \<Rightarrow> (string \<Rightarrow> bool) \<Rightarrow> (string \<Rightarrow> bool) option \<Rightarrow> (string \<Rightarrow> bool) option \<Rightarrow> string \<Rightarrow> tool_owner" where
  "tool_owner_of kai brain vault launcher name =
     (if kai name then KaiOwner
      else if brain name then BrainOwner
      else if (case vault of Some h \<Rightarrow> h name | None \<Rightarrow> False) then VaultOwner
      else if (case launcher of Some h \<Rightarrow> h name | None \<Rightarrow> False) then LauncherOwner
      else ChannelOwner)"

text \<open>
  A saved skill is broadcast: \<open>out\<close> is the parsed result text of the tool, \<open>args\<close> its arguments; the broadcast carries
  what the tool returned and the body and tags of the arguments.
\<close>

definition broadcast_of :: "js_env \<Rightarrow> string \<Rightarrow> bool \<Rightarrow> jsval \<Rightarrow> jsval \<Rightarrow> jsval option" where
  "broadcast_of je name isError out args =
     (if name = ''a2a_skill_save'' \<and> \<not> isError \<and> truthy (jget out ''ok'') then
        Some (JObj [(''name'', jget out ''name''), (''slug'', jget out ''slug''), (''source'', jget out ''source''),
          (''backend'', jget out ''backend''),
          (''body'', JStr (if is_nullish (jget args ''body'') then [] else js_string je (jget args ''body''))),
          (''tags'', (case jget args ''tags'' of JArr ts \<Rightarrow> JArr ts | _ \<Rightarrow> JArr []))])
      else None)"

subsection \<open>Buffering and the delivery chain\<close>

datatype outcome = Injected | InjectFailed | BufferFull | ClosedEarly

record mcp =
  m_initialized :: bool
  m_pending :: "(nat \<times> jsval) list"
  m_chain :: "(nat \<times> jsval) list"
  m_current :: "(nat \<times> jsval) option"
  m_started :: "(nat \<times> jsval) list"
  m_results :: "(nat \<times> outcome) list"
  m_passed :: "jsval list"
  m_calls :: "(nat \<times> jsval) list"

definition mcp_new :: mcp where
  "mcp_new = \<lparr>m_initialized = False, m_pending = [], m_chain = [], m_current = None, m_started = [], m_results = [],
     m_passed = [], m_calls = []\<rparr>"

text \<open>\<open>channel\<close> says that the method is the channel notification; any other goes to the SDK unchanged.\<close>

definition notification :: "nat \<Rightarrow> bool \<Rightarrow> jsval \<Rightarrow> mcp \<Rightarrow> mcp" where
  "notification cap channel notif s =
     (if \<not> channel then s\<lparr>m_passed := m_passed s @ [notif]\<rparr>
      else
        (let c = (length (m_calls s), notif); s1 = s\<lparr>m_calls := m_calls s @ [c]\<rparr> in
         if m_initialized s then s1\<lparr>m_chain := m_chain s @ [c]\<rparr>
         else if length (m_pending s) \<ge> cap then s1\<lparr>m_results := m_results s @ [(fst c, BufferFull)]\<rparr>
         else s1\<lparr>m_pending := m_pending s @ [c]\<rparr>))"

definition on_initialized :: "mcp \<Rightarrow> mcp" where
  "on_initialized s = s\<lparr>m_initialized := True, m_chain := m_chain s @ m_pending s, m_pending := []\<rparr>"

definition on_close :: "mcp \<Rightarrow> mcp" where
  "on_close s = s\<lparr>m_pending := [], m_results := m_results s @ map (\<lambda>c. (fst c, ClosedEarly)) (m_pending s)\<rparr>"

text \<open>The next link of the chain runs when the one before it has settled.\<close>

definition chain_next :: "mcp \<Rightarrow> mcp" where
  "chain_next s =
     (case (m_current s, m_chain s) of
        (None, c # cs) \<Rightarrow> s\<lparr>m_current := Some c, m_chain := cs, m_started := m_started s @ [c]\<rparr>
      | _ \<Rightarrow> s)"

definition inject_settles :: "bool \<Rightarrow> mcp \<Rightarrow> mcp" where
  "inject_settles ok s =
     (case m_current s of
        None \<Rightarrow> s
      | Some c \<Rightarrow> s\<lparr>m_current := None, m_results := m_results s @ [(fst c, if ok then Injected else InjectFailed)]\<rparr>)"

datatype mcp_event = Notify bool jsval | Initialized | Closed | ChainNext | InjectSettles bool

fun mcp_step :: "nat \<Rightarrow> mcp \<Rightarrow> mcp_event \<Rightarrow> mcp" where
  "mcp_step cap s (Notify channel notif) = notification cap channel notif s"
| "mcp_step cap s Initialized = on_initialized s"
| "mcp_step cap s Closed = on_close s"
| "mcp_step cap s ChainNext = chain_next s"
| "mcp_step cap s (InjectSettles ok) = inject_settles ok s"

subsection \<open>The invariant\<close>

definition is_refusal :: "outcome \<Rightarrow> bool" where
  "is_refusal r \<longleftrightarrow> r = BufferFull \<or> r = ClosedEarly"

definition refused :: "mcp \<Rightarrow> nat set" where
  "refused s = fst ` set (filter (\<lambda>x. is_refusal (snd x)) (m_results s))"

definition settled_started :: "mcp \<Rightarrow> nat list" where
  "settled_started s = map fst (filter (\<lambda>x. \<not> is_refusal (snd x)) (m_results s))"

text \<open>
  Every call that was not refused is started, in the chain or buffered, in the order of the calls; the calls started are
  those settled by their injection, in order, and the one in flight; nothing is started or chained before initialization.
\<close>

definition mcp_inv :: "nat \<Rightarrow> mcp \<Rightarrow> bool" where
  "mcp_inv cap s \<longleftrightarrow> length (m_pending s) \<le> cap
     \<and> map fst (m_calls s) = [0..<length (m_calls s)]
     \<and> m_started s @ m_chain s @ m_pending s = filter (\<lambda>c. fst c \<notin> refused s) (m_calls s)
     \<and> map fst (m_started s) = settled_started s @ (case m_current s of Some c \<Rightarrow> [fst c] | None \<Rightarrow> [])
     \<and> (\<not> m_initialized s \<longrightarrow> m_started s = [] \<and> m_chain s = [])
     \<and> (m_initialized s \<longrightarrow> m_pending s = [])
     \<and> distinct (map fst (m_results s)) \<and> fst ` set (m_results s) \<subseteq> {..<length (m_calls s)}"

lemma refused_results: "refused s \<subseteq> fst ` set (m_results s)"
  by (auto simp: refused_def)

lemma call_fresh: "mcp_inv cap s \<Longrightarrow> length (m_calls s) \<notin> fst ` set (m_results s) \<and> length (m_calls s) \<notin> refused s"
  using refused_results [of s] by (auto simp: mcp_inv_def)

lemma calls_below: "mcp_inv cap s \<Longrightarrow> c \<in> set (m_calls s) \<Longrightarrow> fst c < length (m_calls s)"
proof -
  assume inv: "mcp_inv cap s" and c: "c \<in> set (m_calls s)"
  have "map fst (m_calls s) = [0..<length (m_calls s)]" using inv by (simp add: mcp_inv_def)
  then have "set (map fst (m_calls s)) = set [0..<length (m_calls s)]" by (rule arg_cong)
  moreover have "fst c \<in> set (map fst (m_calls s))" using c by simp
  ultimately show ?thesis by (metis atLeastLessThan_iff set_upt)
qed

lemma filter_calls:
  assumes "mcp_inv cap s"
  shows "filter (\<lambda>c. fst c \<noteq> length (m_calls s) \<and> fst c \<notin> refused s) (m_calls s) = filter (\<lambda>c. fst c \<notin> refused s) (m_calls s)"
  by (intro filter_cong refl) (metis calls_below [OF assms] less_irrefl)

lemma notification_inv:
  assumes inv: "mcp_inv cap s"
  shows "mcp_inv cap (notification cap channel notif s)"
proof -
  let ?n = "length (m_calls s)"
  have fresh: "?n \<notin> fst ` set (m_results s)" "?n \<notin> refused s" using call_fresh [OF inv] by auto
  have below: "fst ` set (m_results s) \<subseteq> {..<Suc ?n}" using inv by (fastforce simp: mcp_inv_def)
  have refuse: "refused (s\<lparr>m_calls := cs, m_results := m_results s @ [(?n, BufferFull)]\<rparr>) = insert ?n (refused s)" for cs
    by (auto simp: refused_def is_refusal_def)
  have same: "refused (s\<lparr>m_calls := cs, m_chain := ch\<rparr>) = refused s" "refused (s\<lparr>m_calls := cs, m_pending := ch\<rparr>) = refused s"
    "refused (s\<lparr>m_passed := ps\<rparr>) = refused s" for cs ch ps
    by (simp_all add: refused_def)
  show ?thesis
    using inv fresh below filter_calls [OF inv]
    by (auto simp: notification_def Let_def mcp_inv_def refuse same settled_started_def is_refusal_def)
qed

lemma on_initialized_inv:
  assumes "mcp_inv cap s"
  shows "mcp_inv cap (on_initialized s)"
  using assms by (auto simp: on_initialized_def mcp_inv_def refused_def settled_started_def)

lemma chain_next_inv:
  assumes "mcp_inv cap s"
  shows "mcp_inv cap (chain_next s)"
  using assms by (auto simp: chain_next_def mcp_inv_def refused_def settled_started_def split: option.splits list.splits)

lemma inject_settles_inv:
  assumes inv: "mcp_inv cap s"
  shows "mcp_inv cap (inject_settles ok s)"
proof (cases "m_current s")
  case (Some c)
  have "distinct (map fst (filter (\<lambda>c. fst c \<notin> refused s) (m_calls s)))"
    using inv distinct_map_filter [of fst "m_calls s"] by (simp add: mcp_inv_def)
  then have d: "distinct (map fst (m_started s))" using inv by (metis distinct_append map_append mcp_inv_def)
  have started: "map fst (m_started s) = settled_started s @ [fst c]" using inv Some by (simp add: mcp_inv_def)
  then have "fst c \<notin> set (settled_started s)" using d by simp
  moreover have c: "fst c \<in> fst ` set (m_started s)"
    using started by (metis in_set_conv_decomp list.set_map)
  then have not_ref: "fst c \<notin> refused s" "fst c < length (m_calls s)"
  proof -
    obtain d where "d \<in> set (m_started s)" "fst d = fst c" using c by auto
    then have "d \<in> set (filter (\<lambda>c. fst c \<notin> refused s) (m_calls s))"
      using inv by (metis Un_iff mcp_inv_def set_append)
    then show "fst c \<notin> refused s" "fst c < length (m_calls s)"
      using \<open>fst d = fst c\<close> calls_below [OF inv, of d] by auto
  qed
  ultimately have "fst c \<notin> fst ` set (m_results s)"
    by (force simp: settled_started_def refused_def)
  moreover have "refused (s\<lparr>m_current := None, m_results := m_results s @ [(fst c, if ok then Injected else InjectFailed)]\<rparr>) = refused s"
    by (auto simp: refused_def is_refusal_def)
  ultimately show ?thesis
    using inv Some started not_ref by (auto simp: inject_settles_def mcp_inv_def settled_started_def is_refusal_def)
qed (use inv in \<open>simp add: inject_settles_def\<close>)

lemma on_close_inv:
  assumes inv: "mcp_inv cap s"
  shows "mcp_inv cap (on_close s)"
proof -
  let ?p = "map fst (m_pending s)" and ?s = "on_close s"
  have all: "m_started s @ m_chain s @ m_pending s = filter (\<lambda>c. fst c \<notin> refused s) (m_calls s)"
    and ids: "map fst (m_calls s) = [0..<length (m_calls s)]"
    using inv by (simp_all add: mcp_inv_def)
  have d: "distinct (map fst (m_started s @ m_chain s @ m_pending s))"
    unfolding all using ids distinct_map_filter [of fst "m_calls s"] by simp
  have ref: "refused ?s = refused s \<union> set ?p"
    by (simp add: refused_def on_close_def is_refusal_def filter_map o_def image_Un image_image)
  have mem: "fst c \<notin> refused s \<and> fst c < length (m_calls s)" if "c \<in> set (m_started s @ m_chain s @ m_pending s)" for c
    using that calls_below [OF inv, of c] unfolding all by simp
  have "fst c \<notin> fst ` set (m_results s)" if c: "c \<in> set (m_pending s)" for c
  proof
    assume "fst c \<in> fst ` set (m_results s)"
    then have "fst c \<in> set (settled_started s)"
      using mem [of c] c by (force simp: refused_def settled_started_def)
    then have "fst c \<in> fst ` set (m_started s)"
      using inv by (metis Un_iff image_set mcp_inv_def set_append)
    then show False using d c by force
  qed
  then have new: "fst ` set (m_pending s) \<inter> fst ` set (m_results s) = {}" by auto
  have "filter (\<lambda>c. fst c \<notin> refused s \<union> set ?p) (m_calls s) = filter (\<lambda>c. fst c \<notin> set ?p) (m_started s @ m_chain s @ m_pending s)"
    unfolding all by (simp add: conj_commute)
  also have "\<dots> = m_started s @ m_chain s"
  proof -
    have "\<forall>c \<in> set (m_started s) \<union> set (m_chain s). fst c \<notin> set ?p" using d by auto
    then have "filter (\<lambda>c. fst c \<notin> set ?p) (m_started s) = m_started s" "filter (\<lambda>c. fst c \<notin> set ?p) (m_chain s) = m_chain s"
      by (simp_all add: filter_id_conv)
    moreover have "filter (\<lambda>c. fst c \<notin> set ?p) (m_pending s) = []" by (simp add: filter_empty_conv)
    ultimately show ?thesis by simp
  qed
  finally have calls: "filter (\<lambda>c. fst c \<notin> refused ?s) (m_calls ?s) = m_started s @ m_chain s"
    unfolding ref by (simp add: on_close_def)
  have "settled_started ?s = settled_started s"
    by (simp add: settled_started_def on_close_def is_refusal_def o_def filter_empty_conv)
  moreover have "distinct (map fst (m_results ?s))"
    using inv d new by (auto simp: on_close_def mcp_inv_def o_def)
  moreover have "fst ` set (m_results ?s) \<subseteq> {..<length (m_calls s)}"
    using inv mem by (auto simp: on_close_def mcp_inv_def)
  ultimately show ?thesis
    using inv calls by (simp add: mcp_inv_def) (simp add: on_close_def)
qed

lemma mcp_step_inv: "mcp_inv cap s \<Longrightarrow> mcp_inv cap (mcp_step cap s e)"
  by (cases e) (simp_all add: notification_inv on_initialized_inv chain_next_inv inject_settles_inv on_close_inv)

interpretation mcp_machine: step_invariant "mcp_step cap" "mcp_inv cap" for cap
  by unfold_locales (rule mcp_step_inv)

lemma mcp_run_inv: "mcp_inv cap (run (mcp_step cap) mcp_new es)"
  by (rule mcp_machine.run_inv) (simp add: mcp_inv_def mcp_new_def settled_started_def refused_def)

text \<open>
  C15. Channel events reach the client strictly in the order they were raised, none before the client is initialized and never two
  at a time, and a caller is told so truthfully: the injections started are, in order, the calls that were not
  refused (the rest of those are still chained or buffered, in order); a call reported injected is one whose own
  injection was started and has settled, each call is answered at most once, and the buffer never holds more than the cap.
\<close>

theorem channel_events_in_order:
  "let s = run (mcp_step cap) mcp_new es in
    m_started s @ m_chain s @ m_pending s = filter (\<lambda>c. fst c \<notin> refused s) (m_calls s)
    \<and> (m_initialized s \<or> m_started s = [])
    \<and> map fst (filter (\<lambda>x. snd x = Injected \<or> snd x = InjectFailed) (m_results s))
        @ (case m_current s of Some c \<Rightarrow> [fst c] | None \<Rightarrow> []) = map fst (m_started s)
    \<and> distinct (map fst (m_results s)) \<and> length (m_pending s) \<le> cap"
proof -
  have "filter (\<lambda>x. \<not> is_refusal (snd x)) rs = filter (\<lambda>x. snd x = Injected \<or> snd x = InjectFailed) rs" for rs :: "(nat \<times> outcome) list"
    by (rule filter_cong) (auto simp: is_refusal_def intro: outcome.exhaust)
  then show ?thesis
    using mcp_run_inv [of cap es] by (auto simp: mcp_inv_def settled_started_def Let_def)
qed

end
