(* ===== verification/Frame_Dispatch.thy ===== *)
theory Frame_Dispatch
  imports Frame_Codec
begin

text \<open>
  \<open>Dispatcher\<close> of src/uds_frame.ts: the loop that reads a source of chunks, decodes them and hands each frame to its
  handler. \<open>queueMicrotask\<close> runs the handlers in the order of the frames, so the queue is the list of frames handed
  over; a handler's failure is reported and stops nothing, so it does not appear.
\<close>

record dispatcher =
  dp_decoder :: frame_decoder
  dp_running :: bool
  dp_stopped :: bool
  dp_queue :: "decoded_frame list"
  dp_errors :: "frame_error list"

definition dp_new :: dispatcher where
  "dp_new = \<lparr>dp_decoder = fd_new, dp_running = False, dp_stopped = False, dp_queue = [], dp_errors = []\<rparr>"

text \<open>\<open>None\<close>: the dispatcher is already running.\<close>

definition dp_start :: "dispatcher \<Rightarrow> dispatcher option" where
  "dp_start d = (if dp_running d then None else Some (d\<lparr>dp_running := True, dp_stopped := False\<rparr>))"

text \<open>The \<open>finally\<close> block.\<close>

definition dp_leave :: "dispatcher \<Rightarrow> dispatcher" where
  "dp_leave d = d\<lparr>dp_decoder := snd (fd_finish (dp_decoder d)), dp_running := False\<rparr>"

definition dp_chunk :: "byte list \<Rightarrow> dispatcher \<Rightarrow> dispatcher" where
  "dp_chunk chunk d =
     (if \<not> dp_running d then d
      else if dp_stopped d then dp_leave d
      else
        (case fd_push (dp_decoder d) chunk of
           (Inl e, fd) \<Rightarrow> dp_leave (d\<lparr>dp_decoder := fd, dp_errors := dp_errors d @ [e]\<rparr>)
         | (Inr frames, fd) \<Rightarrow> d\<lparr>dp_decoder := fd, dp_queue := dp_queue d @ frames\<rparr>))"

definition dp_stop :: "dispatcher \<Rightarrow> dispatcher" where
  "dp_stop d = d\<lparr>dp_stopped := True, dp_decoder := snd (fd_finish (dp_decoder d))\<rparr>"

lemma dp_finish_fresh: "fd_wf (snd (fd_finish d)) \<and> fd_abs (snd (fd_finish d)) = []"
  by (simp add: fd_finish_def fd_wf_def fd_abs_def)

text \<open>
  A dispatcher that was started and not stopped hands over exactly the frames of the bytes read, whatever the chunks; after an
  error, a stop or the end of the source it holds nothing back, so a later start reads a clean stream.
\<close>

lemma dp_chunks:
  assumes "dp_running d" "\<not> dp_stopped d" "fd_wf (dp_decoder d)" "decode_bytes (fd_abs (dp_decoder d) @ concat cs) = Inr (fs, r)"
    and "decode_bytes (fd_abs (dp_decoder d)) = Inr ([], fd_abs (dp_decoder d))"
  shows "dp_queue (fold dp_chunk cs d) = dp_queue d @ fs \<and> dp_running (fold dp_chunk cs d) \<and> dp_errors (fold dp_chunk cs d) = dp_errors d"
  using assms
proof (induction cs arbitrary: d fs)
  case Nil
  then show ?case by simp
next
  case (Cons c cs)
  obtain x fd where push: "fd_push (dp_decoder d) c = (x, fd)" by fastforce
  show ?case
  proof (cases x)
    case (Inl e)
    then have "decode_bytes (fd_abs (dp_decoder d) @ c) = Inl e" using fd_push_error [OF Cons.prems(3)] push by simp
    from decode_bytes_append_error [OF this, of "concat cs"] show ?thesis using Cons.prems(4) by simp
  next
    case (Inr gs)
    have ok: "decode_bytes (fd_abs (dp_decoder d) @ c) = Inr (gs, fd_abs fd)" "fd_wf fd"
      using fd_push_ok [OF Cons.prems(3)] push Inr by auto
    let ?d = "d\<lparr>dp_decoder := fd, dp_queue := dp_queue d @ gs\<rparr>"
    have idem: "decode_bytes (fd_abs fd) = Inr ([], fd_abs fd)" by (rule decode_bytes_idem [OF ok(1)])
    obtain hs where hs: "decode_bytes (fd_abs fd @ concat cs) = Inr (hs, r)" "fs = gs @ hs"
      using decode_bytes_append_ok [OF ok(1), of "concat cs"] Cons.prems(4) by (auto split: sum.splits prod.splits)
    have "dp_queue (fold dp_chunk cs ?d) = dp_queue ?d @ hs \<and> dp_running (fold dp_chunk cs ?d) \<and> dp_errors (fold dp_chunk cs ?d) = dp_errors ?d"
      by (rule Cons.IH) (use Cons.prems(1,2) ok(2) hs(1) idem in simp_all)
    moreover have "dp_chunk c d = ?d" using Cons.prems(1,2) push Inr by (simp add: dp_chunk_def)
    ultimately show ?thesis using hs(2) by simp
  qed
qed

lemma dispatcher_hands_over:
  assumes "dp_start dp_new = Some d" "decode_bytes (concat cs) = Inr (fs, r)"
  shows "dp_queue (fold dp_chunk cs d) = fs"
proof -
  have "dp_running d" "\<not> dp_stopped d" "dp_decoder d = fd_new" "dp_queue d = []"
    using assms(1) by (auto simp: dp_start_def dp_new_def)
  then show ?thesis using dp_chunks [of d cs fs r] assms(2) by simp
qed

lemma dispatcher_leaves_clean:
  "fd_abs (dp_decoder (dp_stop d)) = [] \<and> fd_abs (dp_decoder (dp_leave d)) = []"
  using dp_finish_fresh [of "dp_decoder d"] by (simp add: dp_stop_def dp_leave_def)

end
