(* ===== verification/A2A_Subjects.thy ===== *)
theory A2A_Subjects
  imports Prelude
begin

text \<open>
  Subjects of the agent-to-agent bus, \<open>src/a2a-channel.ts\<close> lines 28-87: the publish allowlist
  \<open>assertA2ASubject\<close>, the two subject builders and the recipient pattern.
\<close>

subsection \<open>P0: the publish allowlist\<close>

definition DENY_PREFIXES :: "string list" where
  "DENY_PREFIXES = [''trades.'', ''orders.'', ''fire.'', ''exec.'', ''$JS.'', ''$SYS.'', ''_INBOX.'',
     ''alloyium.channels.'']"

datatype a2a_denied = A2ADenied string

definition a2a_prefix :: string where "a2a_prefix = ''alloyium.a2a.''"

definition ends_with :: "string \<Rightarrow> string \<Rightarrow> bool" where
  "ends_with p s \<longleftrightarrow> length p \<le> length s \<and> drop (length s - length p) s = p"

text \<open>\<open>ALLOW\<close>, a full match.\<close>

definition allow_test :: "string \<Rightarrow> bool" where
  "allow_test s \<longleftrightarrow> starts_with a2a_prefix s \<and>
     (let t = drop (length a2a_prefix) s in
        starts_with ''agent.'' t \<and> ends_with ''.inbox'' (drop 6 t)
          \<and> is_token (take (length t - 12) (drop 6 t))
        \<or> starts_with ''topic.'' t \<and> is_token (drop 6 t))"

definition assert_a2a_subject :: "string \<Rightarrow> string \<Rightarrow> a2a_denied + unit" where
  "assert_a2a_subject subject pfx =
     (if length subject > 256 \<or> list_ex (\<lambda>c. js_ws c \<or> c = CHR ''*'' \<or> c = CHR ''>'') subject
        then Inl (A2ADenied subject)
      else if \<not> starts_with pfx subject then Inl (A2ADenied subject)
      else if list_ex (\<lambda>p. starts_with p subject) DENY_PREFIXES then Inl (A2ADenied subject)
      else if \<not> allow_test (a2a_prefix @ drop (length pfx) subject) then Inl (A2ADenied subject)
      else Inr ())"

definition inbox_subject :: "string \<Rightarrow> string \<Rightarrow> string" where
  "inbox_subject pfx agent = pfx @ ''agent.'' @ agent @ ''.inbox''"

definition topic_subject :: "string \<Rightarrow> string \<Rightarrow> string" where
  "topic_subject pfx topic = pfx @ ''topic.'' @ topic"

text \<open>\<open>RECIPIENT_RE\<close>: a token, or \<open>topic:\<close> and a token.\<close>

definition recipient_ok :: "string \<Rightarrow> bool" where
  "recipient_ok s \<longleftrightarrow> is_token s \<or> starts_with ''topic:'' s \<and> is_token (drop 6 s)"

lemma starts_with_split: "starts_with p s \<Longrightarrow> length p = n \<Longrightarrow> s = p @ drop n s"
  using starts_with_drop by metis

lemma ends_with_append [simp]: "ends_with p (s @ p)"
  by (simp add: ends_with_def)

lemma ends_with_split: "ends_with p s \<Longrightarrow> take (length s - length p) s @ p = s"
  by (metis append_take_drop_id ends_with_def)

lemma allow_test_iff:
  "allow_test (a2a_prefix @ t) \<longleftrightarrow>
     (\<exists>tok. is_token tok \<and> (t = ''agent.'' @ tok @ ''.inbox'' \<or> t = ''topic.'' @ tok))"
proof
  assume "allow_test (a2a_prefix @ t)"
  then consider
      "starts_with ''agent.'' t" "ends_with ''.inbox'' (drop 6 t)" "is_token (take (length t - 12) (drop 6 t))"
    | "starts_with ''topic.'' t" "is_token (drop 6 t)"
    by (auto simp: allow_test_def Let_def)
  then show "\<exists>tok. is_token tok \<and> (t = ''agent.'' @ tok @ ''.inbox'' \<or> t = ''topic.'' @ tok)"
  proof cases
    case 1
    have "t = ''agent.'' @ drop 6 t" by (rule starts_with_split [OF 1(1)]) simp
    moreover have "take (length t - 12) (drop 6 t) @ ''.inbox'' = drop 6 t"
      using ends_with_split [OF 1(2)] by simp
    ultimately show ?thesis using 1(3) by metis
  next
    case 2
    have "t = ''topic.'' @ drop 6 t" by (rule starts_with_split [OF 2(1)]) simp
    then show ?thesis using 2(2) by metis
  qed
next
  assume "\<exists>tok. is_token tok \<and> (t = ''agent.'' @ tok @ ''.inbox'' \<or> t = ''topic.'' @ tok)"
  then obtain tok where tok: "is_token tok" "t = ''agent.'' @ tok @ ''.inbox'' \<or> t = ''topic.'' @ tok"
    by blast
  show "allow_test (a2a_prefix @ t)"
    using tok(2)
  proof
    assume t: "t = ''agent.'' @ tok @ ''.inbox''"
    have "ends_with ''.inbox'' (tok @ ''.inbox'')" by (rule ends_with_append)
    then show ?thesis using tok(1) t by (simp add: allow_test_def starts_with_def)
  next
    assume "t = ''topic.'' @ tok"
    then show ?thesis using tok(1) by (simp add: allow_test_def starts_with_def)
  qed
qed

lemma token_char_plain: "token_char c \<Longrightarrow> \<not> js_ws c \<and> c \<noteq> CHR ''*'' \<and> c \<noteq> CHR ''>'' \<and> c \<noteq> CHR ''.''"
  by (auto simp: js_eval)

lemma is_token_plain:
  "is_token tok \<Longrightarrow> \<not> list_ex (\<lambda>c. js_ws c \<or> c = CHR ''*'' \<or> c = CHR ''>'') tok"
  using token_char_plain by (auto simp: is_token_def list_ex_iff list_all_iff)

lemma a2a_subject_plain:
  "is_token tok \<Longrightarrow> assert_a2a_subject (inbox_subject a2a_prefix tok) a2a_prefix = Inr ()"
  "is_token tok \<Longrightarrow> assert_a2a_subject (topic_subject a2a_prefix tok) a2a_prefix = Inr ()"
proof -
  assume tok: "is_token tok"
  then have "length tok \<le> 64" by (simp add: is_token_def)
  moreover note is_token_plain [OF tok]
  moreover have "allow_test (a2a_prefix @ ''agent.'' @ tok @ ''.inbox'')"
    "allow_test (a2a_prefix @ ''topic.'' @ tok)"
    using tok allow_test_iff by blast+
  ultimately show "assert_a2a_subject (inbox_subject a2a_prefix tok) a2a_prefix = Inr ()"
    "assert_a2a_subject (topic_subject a2a_prefix tok) a2a_prefix = Inr ()"
    by (simp_all add: assert_a2a_subject_def inbox_subject_def topic_subject_def a2a_prefix_def
        DENY_PREFIXES_def starts_with_def js_ws_def char_in_def)
qed

lemma a2a_subject_shape:
  assumes "assert_a2a_subject s pfx = Inr ()"
  shows "\<exists>tok. is_token tok \<and> (s = inbox_subject pfx tok \<or> s = topic_subject pfx tok)"
proof -
  have pre: "starts_with pfx s" and al: "allow_test (a2a_prefix @ drop (length pfx) s)"
    using assms by (auto simp: assert_a2a_subject_def split: if_splits)
  obtain tok where tok: "is_token tok"
    "drop (length pfx) s = ''agent.'' @ tok @ ''.inbox'' \<or> drop (length pfx) s = ''topic.'' @ tok"
    using al unfolding allow_test_iff by blast
  then show ?thesis
    using starts_with_drop [OF pre] unfolding inbox_subject_def topic_subject_def by metis
qed

lemma a2a_subject_not_denied:
  "assert_a2a_subject s pfx = Inr () \<Longrightarrow> \<not> list_ex (\<lambda>p. starts_with p s) DENY_PREFIXES"
  by (auto simp: assert_a2a_subject_def split: if_splits)

text \<open>
  The confinement of the publish path: \<open>assertA2ASubject\<close> lets through exactly the subjects
  \<open>alloyium.a2a.agent.<token>.inbox\<close> and \<open>alloyium.a2a.topic.<token>\<close>, nothing else; and whatever
  prefix a test sets, no subject under a denied namespace ever passes.
\<close>

theorem publish_confined:
  "(assert_a2a_subject s a2a_prefix = Inr ()) =
     (\<exists>tok. is_token tok \<and> s \<in> {inbox_subject a2a_prefix tok, topic_subject a2a_prefix tok})
   \<and> (assert_a2a_subject s pfx = Inr () \<longrightarrow> \<not> list_ex (\<lambda>p. starts_with p s) DENY_PREFIXES)"
  using a2a_subject_shape [of s a2a_prefix] a2a_subject_plain a2a_subject_not_denied [of s pfx] by blast

theorem publish_confined_witness:
  "assert_a2a_subject ''alloyium.a2a.agent.kai-1.inbox'' a2a_prefix = Inr ()
   \<and> assert_a2a_subject ''trades.a'' ''trades.'' \<noteq> Inr ()"
proof -
  have "is_token ''kai-1''" by (simp add: js_eval)
  then show ?thesis
    using publish_confined [of "inbox_subject a2a_prefix ''kai-1''" a2a_prefix]
      publish_confined [of "''trades.a''" "''trades.''"]
    by (auto simp: inbox_subject_def a2a_prefix_def DENY_PREFIXES_def starts_with_def)
qed

end
