(* ===== verification/A2A_Envelope.thy ===== *)
theory A2A_Envelope
  imports A2A_Subjects
begin

text \<open>
  The envelope of the agent-to-agent bus, \<open>src/a2a-channel.ts\<close> lines 155-374: canonical
  serialisation, signing and verification, validation of outbound arguments and of inbound
  envelopes, and the channel attributes.

  Parameters: the cryptographic primitives and base64 (record \<open>crypto\<close>) and \<open>Date.parse\<close>
  (\<open>date_ok\<close>: it gives a finite number). \<open>TextEncoder\<close> is \<open>utf8\<close>, exact on code units below 256.
\<close>

subsection \<open>The envelope and its canonical form\<close>

datatype env_type = TMsg | TRequest | TReply

definition type_str :: "env_type \<Rightarrow> string" where
  "type_str t = (case t of TMsg \<Rightarrow> ''msg'' | TRequest \<Rightarrow> ''request'' | TReply \<Rightarrow> ''reply'')"

record envelope =
  e_v :: int
  e_id :: string
  e_from :: string
  e_to :: string
  e_type :: env_type
  e_thread :: "string option"
  e_corr :: "string option"
  e_ts :: string
  e_ttl :: "int option"
  e_body :: string
  e_attrs :: "(string \<times> string) list option"
  e_alg :: "string option"
  e_sig :: "string option"

definition replace_char :: "char \<Rightarrow> string \<Rightarrow> string \<Rightarrow> string" where
  "replace_char c r s = concat (map (\<lambda>x. if x = c then r else [x]) s)"

definition bslash :: char where "bslash = CHR 0x5C"

definition esc_field :: "string \<Rightarrow> string" where
  "esc_field s = replace_char (CHR ''|'') [bslash, CHR ''|''] (replace_char bslash [bslash, bslash] s)"

definition canonical_fields :: "envelope \<Rightarrow> string list" where
  "canonical_fields e =
     [int_str (e_v e), e_id e, e_from e, e_to e, type_str (e_type e),
      (case e_corr e of None \<Rightarrow> '''' | Some c \<Rightarrow> c), e_ts e,
      (case e_ttl e of None \<Rightarrow> '''' | Some n \<Rightarrow> int_str n), e_body e]"

definition canonical :: "envelope \<Rightarrow> string" where
  "canonical e = join_with ''|'' (map esc_field (canonical_fields e))"

text \<open>What the signature covers: every field but \<open>thread\<close>, \<open>attrs\<close>, \<open>alg\<close> and \<open>sig\<close>.\<close>

definition signed_part :: "envelope \<Rightarrow> int \<times> string \<times> string \<times> string \<times> env_type \<times> string \<times> string \<times> int option \<times> string" where
  "signed_part e = (e_v e, e_id e, e_from e, e_to e, e_type e,
     (case e_corr e of None \<Rightarrow> '''' | Some c \<Rightarrow> c), e_ts e, e_ttl e, e_body e)"

lemma esc_field_Nil [simp]: "esc_field [] = []"
  by (simp add: esc_field_def replace_char_def)

lemma esc_field_Cons:
  "esc_field (c # s) = (if c = bslash then [bslash, bslash] else if c = CHR ''|'' then [bslash, CHR ''|''] else [c])
     @ esc_field s"
  by (simp add: esc_field_def replace_char_def bslash_def)

text \<open>An escaped field can be read back up to the first unescaped separator.\<close>

fun unesc :: "string \<Rightarrow> string \<times> string" where
  "unesc [] = ([], [])"
| "unesc [c] = (if c = CHR ''|'' then ([], [c]) else ([c], []))"
| "unesc (c # d # s) =
     (if c = CHR ''|'' then ([], c # d # s)
      else if c = bslash then (let (f, r) = unesc s in (d # f, r))
      else (let (f, r) = unesc (d # s) in (c # f, r)))"

lemma unesc_esc: "t = [] \<or> hd t = CHR ''|'' \<Longrightarrow> unesc (esc_field s @ t) = (s, t)"
proof (induction s)
  case Nil
  then show ?case by (cases t; cases "tl t") auto
next
  case (Cons c s)
  show ?case
  proof (cases "c = bslash \<or> c = CHR ''|''")
    case True
    then show ?thesis using Cons by (auto simp: esc_field_Cons bslash_def)
  next
    case False
    then have "unesc (c # (esc_field s @ t)) = (let (f, r) = unesc (esc_field s @ t) in (c # f, r))"
      by (cases "esc_field s @ t") auto
    then show ?thesis using Cons False by (simp add: esc_field_Cons)
  qed
qed

lemma esc_join_inject:
  "length xs = length ys \<Longrightarrow>
   join_with ''|'' (map esc_field xs) = join_with ''|'' (map esc_field ys) \<Longrightarrow> xs = ys"
proof (induction xs ys rule: list_induct2)
  case Nil
  then show ?case by simp
next
  case (Cons x xs y ys)
  define rest where "rest zs = (if zs = [] then [] else CHR ''|'' # join_with ''|'' (map esc_field zs))"
    for zs :: "string list"
  have shape: "join_with ''|'' (map esc_field (z # zs)) = esc_field z @ rest zs" for z zs
    by (cases zs) (simp_all add: rest_def)
  have hd: "rest zs = [] \<or> hd (rest zs) = CHR ''|''" for zs
    by (simp add: rest_def)
  have "(x, rest xs) = (y, rest ys)"
    using Cons.prems unesc_esc [OF hd] unfolding shape by metis
  then show ?case
    using Cons.IH Cons.hyps by (auto simp: rest_def split: if_splits)
qed

lemma type_str_inject [simp]: "type_str a = type_str b \<longleftrightarrow> a = b"
  by (cases a; cases b) (simp_all add: type_str_def)

lemma canonical_inject: "canonical a = canonical b \<longleftrightarrow> signed_part a = signed_part b"
proof
  assume "canonical a = canonical b"
  then have "canonical_fields a = canonical_fields b"
    unfolding canonical_def by (rule esc_join_inject [rotated]) (simp add: canonical_fields_def)
  then show "signed_part a = signed_part b"
    by (auto simp: canonical_fields_def signed_part_def split: option.splits)
next
  assume "signed_part a = signed_part b"
  then show "canonical a = canonical b"
    by (simp add: canonical_def canonical_fields_def signed_part_def)
qed

text \<open>
  C19. The canonical form is unambiguous: two envelopes have the same canonical string exactly when
  every signed field agrees. No content of a field, separators and backslashes included, can
  shift a field boundary.
\<close>

theorem canonical_unambiguous:
  "(canonical a = canonical b) = (signed_part a = signed_part b)"
  by (rule canonical_inject)

subsection \<open>Signing and verification\<close>

datatype sig_alg = Ed25519 | Hmac

definition alg_str :: "sig_alg \<Rightarrow> string" where
  "alg_str a = (case a of Ed25519 \<Rightarrow> ''ed25519'' | Hmac \<Rightarrow> ''hmac'')"

definition is_sig_alg :: "jsval \<Rightarrow> bool" where
  "is_sig_alg v = (case v of JStr s \<Rightarrow> s = ''ed25519'' \<or> s = ''hmac'' | _ \<Rightarrow> False)"

text \<open>
  \<open>ed_verify\<close> returns \<open>None\<close> where WebCrypto rejects; \<open>from_b64\<close> never throws (\<open>Buffer.from\<close>
  skips what it cannot read).
\<close>

record 'k crypto =
  ed_sign :: "'k \<Rightarrow> byte list \<Rightarrow> byte list"
  ed_verify :: "'k \<Rightarrow> byte list \<Rightarrow> byte list \<Rightarrow> bool option"
  hmac_sha256 :: "'k \<Rightarrow> byte list \<Rightarrow> byte list"
  to_b64 :: "byte list \<Rightarrow> string"
  from_b64 :: "string \<Rightarrow> byte list"

definition sign_canonical :: "'k crypto \<Rightarrow> sig_alg \<Rightarrow> 'k \<Rightarrow> string \<Rightarrow> string" where
  "sign_canonical cr alg key canon =
     (case alg of
        Ed25519 \<Rightarrow> to_b64 cr (ed_sign cr key (utf8 canon))
      | Hmac \<Rightarrow> to_b64 cr (hmac_sha256 cr key (utf8 canon)))"

definition verify_canonical :: "'k crypto \<Rightarrow> sig_alg \<Rightarrow> 'k \<Rightarrow> string \<Rightarrow> string \<Rightarrow> bool" where
  "verify_canonical cr alg key canon sigB64 =
     (case alg of
        Ed25519 \<Rightarrow> (case ed_verify cr key (from_b64 cr sigB64) (utf8 canon) of None \<Rightarrow> False | Some b \<Rightarrow> b)
      | Hmac \<Rightarrow>
          (let expected = hmac_sha256 cr key (utf8 canon); got = from_b64 cr sigB64
           in length got = length expected \<and> got = expected))"

definition sign_envelope :: "'k crypto \<Rightarrow> envelope \<Rightarrow> sig_alg \<Rightarrow> 'k \<Rightarrow> string" where
  "sign_envelope cr e alg key = sign_canonical cr alg key (canonical e)"

definition verify_envelope :: "'k crypto \<Rightarrow> envelope \<Rightarrow> 'k \<Rightarrow> sig_alg \<Rightarrow> bool" where
  "verify_envelope cr e key expectedAlg =
     (case e_sig e of
        None \<Rightarrow> False
      | Some s \<Rightarrow> s \<noteq> [] \<and> e_alg e = Some (alg_str expectedAlg)
          \<and> verify_canonical cr expectedAlg key (canonical e) s)"

text \<open>\<open>importEd25519Seed\<close> and \<open>importEd25519Pub\<close>: only the length check is the program's.\<close>

definition import_ed25519 :: "string \<Rightarrow> byte list \<Rightarrow> string + byte list" where
  "import_ed25519 what raw =
     (if length raw \<noteq> 32
      then Inl (''ed25519 '' @ what @ '' must be 32 bytes, got '' @ nat_str (length raw))
      else Inr raw)"

lemma alg_str_inject [simp]: "alg_str a = alg_str b \<longleftrightarrow> a = b"
  by (cases a; cases b) (simp_all add: alg_str_def)

lemma canonical_sig_fields [simp]:
  "canonical (e\<lparr>e_alg := a, e_sig := s\<rparr>) = canonical e"
  by (simp add: canonical_def canonical_fields_def)

text \<open>
  What \<open>signEnvelope\<close> produces, \<open>verifyEnvelope\<close> accepts, for either algorithm, when the
  primitives do what they document: base64 decodes what it encoded, and the public key verifies
  what the private key signed (one shared secret for HMAC).
\<close>

theorem signed_envelope_verifies:
  assumes "\<And>bs. from_b64 cr (to_b64 cr bs) = bs" and "\<And>m. ed_verify cr pk (ed_sign cr sk m) m = Some True"
    and "sign_envelope cr e alg sk \<noteq> []" and "alg = Hmac \<Longrightarrow> pk = sk"
  shows "verify_envelope cr (e\<lparr>e_alg := Some (alg_str alg), e_sig := Some (sign_envelope cr e alg sk)\<rparr>) pk alg"
  using assms by (cases alg)
    (simp_all add: verify_envelope_def verify_canonical_def sign_envelope_def sign_canonical_def Let_def)

text \<open>A toy instance of the primitives, on which their documented laws hold.\<close>

definition toy_crypto :: "byte crypto" where
  "toy_crypto = \<lparr>ed_sign = (\<lambda>k m. k # m), ed_verify = (\<lambda>k s m. Some (s = k # m)),
     hmac_sha256 = (\<lambda>k m. [k + of_nat (length m)]),
     to_b64 = map (\<lambda>b. char_of (unat b)), from_b64 = map (\<lambda>c. of_nat (of_char c))\<rparr>"

definition sample_env :: envelope where
  "sample_env = \<lparr>e_v = 1, e_id = ''a|1'', e_from = ''kai'', e_to = ''ops'', e_type = TMsg,
     e_thread = None, e_corr = None, e_ts = ''2026-06-12T00:00:00Z'', e_ttl = Some 5000,
     e_body = ''hi'', e_attrs = None, e_alg = None, e_sig = None\<rparr>"

lemma byte_mod: "unat (b :: byte) mod 256 = unat b"
  using unsigned_less [where w = b and ?'a = nat] by simp

lemma toy_b64 [simp]: "from_b64 toy_crypto (to_b64 toy_crypto bs) = bs"
  by (simp add: toy_crypto_def o_def byte_mod)

theorem signed_envelope_verifies_witness:
  "verify_envelope toy_crypto (sample_env\<lparr>e_alg := Some ''ed25519'',
     e_sig := Some (sign_envelope toy_crypto sample_env Ed25519 7)\<rparr>) 7 Ed25519"
  using signed_envelope_verifies [of toy_crypto 7 7 sample_env Ed25519]
  by (simp add: alg_str_def) (simp add: toy_crypto_def sign_envelope_def sign_canonical_def)



end
