(* ===== verification/A2A_Messages.thy ===== *)
theory A2A_Messages
  imports A2A_Envelope
begin

text \<open>
  Validation of messages, \<open>src/a2a-channel.ts\<close>: \<open>validateSendArgs\<close> (V2 to V6 of the send pipeline),
  the envelope that \<open>send\<close> builds from validated arguments, \<open>isValidInbound\<close> and
  \<open>buildA2AAttrs\<close>. JSON objects are \<open>jsval\<close>; \<open>Date.parse\<close> is the parameter \<open>date_ok\<close>.
\<close>

subsection \<open>Outbound: V2 to V6\<close>

definition RESERVED_ATTRS :: "string list" where
  "RESERVED_ATTRS = [''feed'', ''kind'', ''subject'', ''from'', ''to'', ''type'', ''id'', ''ts'',
     ''thread'', ''corr'', ''source'', ''mode'', ''stream'', ''sig'', ''alg'']"

record send_target =
  st_to :: string
  st_topic :: bool
  st_target :: string
  st_type :: env_type

definition parse_type :: "jsval \<Rightarrow> env_type option" where
  "parse_type v = (case v of JStr s \<Rightarrow>
      (if s = ''msg'' then Some TMsg else if s = ''request'' then Some TRequest
       else if s = ''reply'' then Some TReply else None)
    | _ \<Rightarrow> None)"

definition str_at_most :: "nat \<Rightarrow> jsval \<Rightarrow> bool" where
  "str_at_most n v = (case v of JStr s \<Rightarrow> length s \<le> n | _ \<Rightarrow> False)"

definition ttl_ok :: "jsval \<Rightarrow> bool" where
  "ttl_ok v = (case v of JNum n \<Rightarrow> num_integer n \<and> \<not> num_less n (Fin 1000) \<and> \<not> num_less (Fin 604800000) n
    | _ \<Rightarrow> False)"

fun check_attrs :: "(string \<times> jsval) list \<Rightarrow> string option" where
  "check_attrs [] = None"
| "check_attrs ((k, v) # kvs) =
     (if k \<in> set RESERVED_ATTRS then Some ''reserved_attr''
      else if \<not> is_str v then Some ''bad_attrs''
      else check_attrs kvs)"

definition attrs_error :: "jsval \<Rightarrow> string option" where
  "attrs_error a =
     (if is_nullish a then None
      else (case a of JObj kvs \<Rightarrow> check_attrs kvs | _ \<Rightarrow> Some ''bad_attrs''))"

definition str_or_empty :: "jsval \<Rightarrow> string" where
  "str_or_empty v = (case v of JStr s \<Rightarrow> s | _ \<Rightarrow> [])"

definition validate_send_args :: "jsval \<Rightarrow> string \<Rightarrow> nat \<Rightarrow> string + send_target" where
  "validate_send_args args agentId maxSendBytes =
     (let to' = str_or_empty (jget args ''to'') in
      if \<not> recipient_ok to' then Inl ''bad_recipient''
      else let isTopic = starts_with ''topic:'' to';
               target = (if isTopic then drop 6 to' else to') in
      if \<not> isTopic \<and> target = agentId then Inl ''self_send''
      else if \<not> is_str (jget args ''body'') then Inl ''bad_body''
      else if length (utf8 (str_or_empty (jget args ''body''))) > maxSendBytes then Inl ''body_too_large''
      else let ty = (if is_nullish (jget args ''type'') then JStr ''msg'' else jget args ''type'');
               corr = jget args ''corr''; thread = jget args ''thread''; ttl = jget args ''ttl_ms'' in
      (case parse_type ty of
         None \<Rightarrow> Inl ''bad_type''
       | Some t \<Rightarrow>
           if t = TReply \<and> \<not> truthy corr then Inl ''bad_corr''
           else if t \<noteq> TReply \<and> \<not> is_nullish corr then Inl ''bad_corr''
           else if \<not> is_nullish corr \<and> \<not> str_at_most 256 corr then Inl ''bad_corr''
           else if \<not> is_nullish thread \<and> \<not> str_at_most 128 thread then Inl ''bad_thread''
           else if \<not> is_nullish ttl \<and> \<not> ttl_ok ttl then Inl ''bad_ttl''
           else (case attrs_error (jget args ''attrs'') of
                   Some e \<Rightarrow> Inl e
                 | None \<Rightarrow> Inr \<lparr>st_to = to', st_topic = isTopic, st_target = target, st_type = t\<rparr>)))"

text \<open>The envelope \<open>send\<close> fills in (lines 1290-1294), before signing.\<close>

definition jint :: "jsval \<Rightarrow> int" where
  "jint v = (case v of JNum (Fin q) \<Rightarrow> \<lfloor>q\<rfloor> | _ \<Rightarrow> 0)"

definition str_entries :: "jsval \<Rightarrow> (string \<times> string) list" where
  "str_entries v = (case v of JObj kvs \<Rightarrow> map (\<lambda>(k, x). (k, str_or_empty x)) kvs | _ \<Rightarrow> [])"

definition build_envelope :: "jsval \<Rightarrow> send_target \<Rightarrow> string \<Rightarrow> string \<Rightarrow> string \<Rightarrow> envelope" where
  "build_envelope args v agentId newId now =
     \<lparr>e_v = 1, e_id = newId, e_from = agentId, e_to = st_to v, e_type = st_type v,
       e_thread = (if truthy (jget args ''thread'') then Some (str_or_empty (jget args ''thread'')) else None),
       e_corr = (if st_type v = TReply then Some (str_or_empty (jget args ''corr'')) else None),
       e_ts = now,
       e_ttl = (if is_nullish (jget args ''ttl_ms'') then None else Some (jint (jget args ''ttl_ms''))),
       e_body = str_or_empty (jget args ''body''),
       e_attrs = (if truthy (jget args ''attrs'') then Some (str_entries (jget args ''attrs'')) else None),
       e_alg = None, e_sig = None\<rparr>"

text \<open>\<open>JSON.stringify(env)\<close> read back by \<open>JSON.parse\<close>: the object with the fields that are set.\<close>

definition opt_field :: "string \<Rightarrow> jsval option \<Rightarrow> (string \<times> jsval) list" where
  "opt_field k v = (case v of None \<Rightarrow> [] | Some x \<Rightarrow> [(k, x)])"

definition envelope_json :: "envelope \<Rightarrow> jsval" where
  "envelope_json e = JObj (
     [(''v'', JNum (Fin (of_int (e_v e)))), (''id'', JStr (e_id e)), (''from'', JStr (e_from e)),
      (''to'', JStr (e_to e)), (''type'', JStr (type_str (e_type e))), (''ts'', JStr (e_ts e)),
      (''body'', JStr (e_body e))]
     @ opt_field ''thread'' (map_option JStr (e_thread e))
     @ opt_field ''corr'' (map_option JStr (e_corr e))
     @ opt_field ''ttl_ms'' (map_option (\<lambda>n. JNum (Fin (of_int n))) (e_ttl e))
     @ opt_field ''attrs'' (map_option (\<lambda>kvs. JObj (map (\<lambda>(k, v). (k, JStr v)) kvs)) (e_attrs e))
     @ opt_field ''alg'' (map_option JStr (e_alg e))
     @ opt_field ''sig'' (map_option JStr (e_sig e)))"

subsection \<open>Inbound\<close>

definition is_valid_inbound :: "(string \<Rightarrow> bool) \<Rightarrow> jsval \<Rightarrow> bool" where
  "is_valid_inbound date_ok e =
     (if \<not> (case e of JObj _ \<Rightarrow> True | JArr _ \<Rightarrow> True | _ \<Rightarrow> False) then False
      else if jget e ''v'' \<noteq> JNum (Fin 1) then False
      else if \<not> is_str (jget e ''id'') \<or> length (str_or_empty (jget e ''id'')) < 1
        \<or> length (str_or_empty (jget e ''id'')) > 128 then False
      else if \<not> is_str (jget e ''from'') \<or> \<not> is_token (str_or_empty (jget e ''from'')) then False
      else if \<not> is_str (jget e ''to'') \<or> \<not> recipient_ok (str_or_empty (jget e ''to'')) then False
      else if \<not> is_str (jget e ''body'') then False
      else if \<not> is_str (jget e ''ts'') \<or> \<not> date_ok (str_or_empty (jget e ''ts'')) then False
      else if parse_type (jget e ''type'') = None then False
      else if (if parse_type (jget e ''type'') = Some TReply then \<not> str_at_most 256 (jget e ''corr'')
               else \<not> is_nullish (jget e ''corr'')) then False
      else if \<not> is_nullish (jget e ''ttl_ms'') \<and> \<not> ttl_ok (jget e ''ttl_ms'') then False
      else if \<not> is_nullish (jget e ''thread'') \<and> \<not> str_at_most 128 (jget e ''thread'') then False
      else if \<not> is_nullish (jget e ''alg'') \<and> \<not> is_str (jget e ''alg'') then False
      else if \<not> is_nullish (jget e ''sig'') \<and> \<not> is_str (jget e ''sig'') then False
      else if \<not> is_nullish (jget e ''attrs'')
        \<and> \<not> (case jget e ''attrs'' of JObj kvs \<Rightarrow> list_all (\<lambda>(k, v). is_str v) kvs | _ \<Rightarrow> False) then False
      else True)"

text \<open>The typed view the code takes of an object that passed \<open>isValidInbound\<close>.\<close>

definition opt_str :: "jsval \<Rightarrow> string option" where
  "opt_str v = (case v of JStr s \<Rightarrow> Some s | _ \<Rightarrow> None)"

definition as_envelope :: "jsval \<Rightarrow> envelope" where
  "as_envelope e =
     \<lparr>e_v = jint (jget e ''v''), e_id = str_or_empty (jget e ''id''), e_from = str_or_empty (jget e ''from''),
       e_to = str_or_empty (jget e ''to''),
       e_type = (case parse_type (jget e ''type'') of Some t \<Rightarrow> t | None \<Rightarrow> TMsg),
       e_thread = opt_str (jget e ''thread''), e_corr = opt_str (jget e ''corr''),
       e_ts = str_or_empty (jget e ''ts''),
       e_ttl = (if is_nullish (jget e ''ttl_ms'') then None else Some (jint (jget e ''ttl_ms''))),
       e_body = str_or_empty (jget e ''body''),
       e_attrs = (if is_nullish (jget e ''attrs'') then None else Some (str_entries (jget e ''attrs''))),
       e_alg = opt_str (jget e ''alg''), e_sig = opt_str (jget e ''sig'')\<rparr>"

datatype a2a_kind = Direct | Topic

definition kind_str :: "a2a_kind \<Rightarrow> string" where
  "kind_str k = (case k of Direct \<Rightarrow> ''direct'' | Topic \<Rightarrow> ''topic'')"

text \<open>Writing a property of an object literal after a spread: later keys win.\<close>

definition spread :: "('k \<times> 'v) list \<Rightarrow> ('k \<times> 'v) list \<Rightarrow> ('k \<times> 'v) list" where
  "spread base kvs = fold (\<lambda>(k, v) m. AList.update k v m) kvs base"

definition opt_truthy :: "string \<Rightarrow> string option \<Rightarrow> (string \<times> string) list" where
  "opt_truthy k v = (case v of None \<Rightarrow> [] | Some s \<Rightarrow> if s = [] then [] else [(k, s)])"

definition build_a2a_attrs :: "envelope \<Rightarrow> string \<Rightarrow> a2a_kind \<Rightarrow> (string \<times> string) list" where
  "build_a2a_attrs env subject kind =
     (let attrs = filter (\<lambda>(k, v). k \<noteq> ''notifId'') (case e_attrs env of None \<Rightarrow> [] | Some kvs \<Rightarrow> kvs) in
      spread attrs
        ([(''feed'', ''a2a''), (''kind'', kind_str kind), (''subject'', subject), (''from'', e_from env),
          (''to'', e_to env), (''type'', type_str (e_type env)), (''id'', e_id env), (''ts'', e_ts env)]
         @ opt_truthy ''thread'' (e_thread env) @ opt_truthy ''corr'' (e_corr env)))"

subsection \<open>Lemmas\<close>

lemma map_of_opt_field [simp]:
  "map_of (opt_field k v @ xs) k' = (if k' = k \<and> v \<noteq> None then v else map_of xs k')"
  "map_of (opt_field k v) k' = (if k' = k \<and> v \<noteq> None then v else None)"
  by (auto simp: opt_field_def split: option.splits)

lemma parse_type_str [simp]: "parse_type (JStr (type_str t)) = Some t"
  by (cases t) (simp_all add: parse_type_def type_str_def)

text \<open>Reading the fields of a transmitted envelope.\<close>

lemma envelope_json_get:
  "jget (envelope_json e) ''v'' = JNum (Fin (of_int (e_v e)))"
  "jget (envelope_json e) ''id'' = JStr (e_id e)"
  "jget (envelope_json e) ''from'' = JStr (e_from e)"
  "jget (envelope_json e) ''to'' = JStr (e_to e)"
  "jget (envelope_json e) ''type'' = JStr (type_str (e_type e))"
  "jget (envelope_json e) ''ts'' = JStr (e_ts e)"
  "jget (envelope_json e) ''body'' = JStr (e_body e)"
  "jget (envelope_json e) ''thread'' = (case e_thread e of None \<Rightarrow> JUndef | Some s \<Rightarrow> JStr s)"
  "jget (envelope_json e) ''corr'' = (case e_corr e of None \<Rightarrow> JUndef | Some s \<Rightarrow> JStr s)"
  "jget (envelope_json e) ''ttl_ms'' = (case e_ttl e of None \<Rightarrow> JUndef | Some n \<Rightarrow> JNum (Fin (of_int n)))"
  "jget (envelope_json e) ''attrs'' = (case e_attrs e of None \<Rightarrow> JUndef
     | Some kvs \<Rightarrow> JObj (map (\<lambda>(k, v). (k, JStr v)) kvs))"
  "jget (envelope_json e) ''alg'' = (case e_alg e of None \<Rightarrow> JUndef | Some s \<Rightarrow> JStr s)"
  "jget (envelope_json e) ''sig'' = (case e_sig e of None \<Rightarrow> JUndef | Some s \<Rightarrow> JStr s)"
  by (simp_all add: envelope_json_def jget_def del: map_of_append split: option.split)

lemma jval_simps [simp]:
  "str_or_empty (JStr s) = s" "opt_str (JStr s) = Some s" "opt_str JUndef = None"
  "is_nullish JUndef" "\<not> is_nullish (JStr s)" "\<not> is_nullish (JNum n)" "\<not> is_nullish (JObj kvs)"
  "jint (JNum (Fin (of_int i))) = i" "is_str (JStr s)" "str_at_most m (JStr s) = (length s \<le> m)"
  by (simp_all add: str_or_empty_def opt_str_def is_nullish_def jint_def is_str_def str_at_most_def)

lemma str_entries_json [simp]: "str_entries (JObj (map (\<lambda>(k, v). (k, JStr v)) kvs)) = kvs"
  by (simp add: str_entries_def o_def case_prod_unfold)

lemma as_envelope_json: "as_envelope (envelope_json e) = e"
  by (cases e) (simp add: as_envelope_def envelope_json_get split: option.splits)

lemma ttl_ok_int: "ttl_ok v \<Longrightarrow> ttl_ok (JNum (Fin (of_int (jint v))))"
  by (auto simp: ttl_ok_def jint_def num_integer_def split: jsval.splits jsnum.splits)

text \<open>What V2 to V6 establish.\<close>

lemma truthy_not_nullish: "truthy v \<Longrightarrow> \<not> is_nullish v"
  by (cases v) (simp_all add: truthy_def is_nullish_def)

lemma validate_send_argsE:
  assumes "validate_send_args args agentId maxSendBytes = Inr v"
  shows "\<exists>t. v = \<lparr>st_to = str_or_empty (jget args ''to''),
        st_topic = starts_with ''topic:'' (str_or_empty (jget args ''to'')),
        st_target = (if starts_with ''topic:'' (str_or_empty (jget args ''to''))
          then drop 6 (str_or_empty (jget args ''to'')) else str_or_empty (jget args ''to'')), st_type = t\<rparr>
    \<and> recipient_ok (str_or_empty (jget args ''to''))
    \<and> (starts_with ''topic:'' (str_or_empty (jget args ''to'')) \<or> str_or_empty (jget args ''to'') \<noteq> agentId)
    \<and> is_str (jget args ''body'') \<and> length (utf8 (str_or_empty (jget args ''body''))) \<le> maxSendBytes
    \<and> (t = TReply \<longrightarrow> truthy (jget args ''corr'') \<and> str_at_most 256 (jget args ''corr''))
    \<and> (is_nullish (jget args ''thread'') \<or> str_at_most 128 (jget args ''thread''))
    \<and> (is_nullish (jget args ''ttl_ms'') \<or> ttl_ok (jget args ''ttl_ms''))
    \<and> attrs_error (jget args ''attrs'') = None"
  using assms truthy_not_nullish [of "jget args ''corr''"]
  unfolding validate_send_args_def Let_def
  by (simp only: split: if_split_asm option.split_asm) (simp_all, auto)

lemma is_token_no_colon: "is_token s \<Longrightarrow> \<not> starts_with ''topic:'' s"
proof
  assume "is_token s" "starts_with ''topic:'' s"
  then have "s = ''topic:'' @ drop 6 s" by (intro starts_with_split) simp_all
  then have "CHR '':'' \<in> set s" by (metis in_set_conv_decomp append_Cons append_Nil)
  then show False using is_token_notin [OF \<open>is_token s\<close>, of "CHR '':''"] by simp
qed

lemma send_target_token:
  assumes "validate_send_args args agentId maxSendBytes = Inr v"
  shows "is_token (st_target v)"
proof -
  show ?thesis
    using validate_send_argsE [OF assms] is_token_no_colon by (auto simp: recipient_ok_def)
qed

lemma check_attrs_None:
  "check_attrs kvs = None \<longleftrightarrow> (\<forall>(k, v) \<in> set kvs. k \<notin> set RESERVED_ATTRS \<and> is_str v)"
  by (induction kvs rule: check_attrs.induct) auto

lemma opt_field_simps:
  "is_nullish (case x of None \<Rightarrow> JUndef | Some s \<Rightarrow> JStr s) = (x = None)"
  "is_str (case x of None \<Rightarrow> JUndef | Some s \<Rightarrow> JStr s) = (x \<noteq> None)"
  "str_at_most n (case x of None \<Rightarrow> JUndef | Some s \<Rightarrow> JStr s) = (\<exists>s. x = Some s \<and> length s \<le> n)"
  "is_nullish (case y of None \<Rightarrow> JUndef | Some i \<Rightarrow> JNum (Fin (of_int i))) = (y = None)"
  "ttl_ok (case y of None \<Rightarrow> JUndef | Some i \<Rightarrow> JNum (Fin (of_int i))) =
     (\<exists>i. y = Some i \<and> 1000 \<le> i \<and> i \<le> 604800000)"
  "is_nullish (case z of None \<Rightarrow> JUndef | Some kvs \<Rightarrow> JObj (map (\<lambda>(k, v). (k, JStr v)) kvs)) = (z = None)"
  by (auto simp: str_at_most_def ttl_ok_def num_integer_def is_str_def split: option.splits)

lemma if_False_conj: "(if P then False else Q) = (\<not> P \<and> Q)"
  by simp

lemma valid_inbound_json:
  "is_valid_inbound date_ok (envelope_json e) \<longleftrightarrow>
     e_v e = 1 \<and> 1 \<le> length (e_id e) \<and> length (e_id e) \<le> 128 \<and> is_token (e_from e) \<and> recipient_ok (e_to e)
     \<and> date_ok (e_ts e)
     \<and> (if e_type e = TReply then \<exists>c. e_corr e = Some c \<and> length c \<le> 256 else e_corr e = None)
     \<and> (e_ttl e = None \<or> (\<exists>i. e_ttl e = Some i \<and> 1000 \<le> i \<and> i \<le> 604800000))
     \<and> (e_thread e = None \<or> (\<exists>s. e_thread e = Some s \<and> length s \<le> 128))"
proof -
  have obj: "(case envelope_json e of JObj _ \<Rightarrow> True | JArr _ \<Rightarrow> True | _ \<Rightarrow> False) = True"
    by (simp add: envelope_json_def)
  have attrs: "(\<not> is_nullish (jget (envelope_json e) ''attrs'')
      \<and> \<not> (case jget (envelope_json e) ''attrs'' of JObj kvs \<Rightarrow> list_all (\<lambda>(k, v). is_str v) kvs | _ \<Rightarrow> False)) = False"
    by (simp add: envelope_json_get(11) list_all_iff case_prod_unfold split: option.split)
  show ?thesis
    unfolding is_valid_inbound_def obj attrs if_False_conj
    by (cases "e_type e = TReply")
      (simp_all only: envelope_json_get(1-10,12,13) opt_field_simps not_less jval_simps parse_type_str
        option.inject option.simps simp_thms not_not if_True if_False, auto simp: Suc_le_eq)
qed

lemma str_at_most_len: "str_at_most n v \<Longrightarrow> length (str_or_empty v) \<le> n"
  by (cases v) (simp_all add: str_at_most_def)

lemma built_envelope_valid:
  assumes v: "validate_send_args args agentId maxSendBytes = Inr v"
    and own: "is_token agentId" "1 \<le> length newId" "length newId \<le> 128" "date_ok now"
  shows "is_valid_inbound date_ok
    (envelope_json ((build_envelope args v agentId newId now)\<lparr>e_alg := al, e_sig := sg\<rparr>))"
proof -
  obtain t where t: "st_type v = t" "recipient_ok (st_to v)"
    "t = TReply \<longrightarrow> str_at_most 256 (jget args ''corr'')"
    "is_nullish (jget args ''thread'') \<or> str_at_most 128 (jget args ''thread'')"
    "is_nullish (jget args ''ttl_ms'') \<or> ttl_ok (jget args ''ttl_ms'')"
    using validate_send_argsE [OF v] by auto
  have thread: "truthy (jget args ''thread'') \<Longrightarrow> length (str_or_empty (jget args ''thread'')) \<le> 128"
    using t(4) truthy_not_nullish str_at_most_len by blast
  have ttl: "1000 \<le> jint (jget args ''ttl_ms'') \<and> jint (jget args ''ttl_ms'') \<le> 604800000"
    if "\<not> is_nullish (jget args ''ttl_ms'')"
    using that t(5) ttl_ok_int opt_field_simps(5) [of "Some (jint (jget args ''ttl_ms''))"] by auto
  show ?thesis
    using own t(2,3) thread ttl str_at_most_len [of 256]
    by (simp add: valid_inbound_json build_envelope_def t(1))
qed

text \<open>
  Sender and receiver agree: an envelope that \<open>send\<close> builds from arguments \<open>validateSendArgs\<close>
  accepts, with any algorithm and signature fields, goes to a subject the allowlist admits,
  passes \<open>isValidInbound\<close> at the receiver, and is read back there as the same envelope.
\<close>

theorem validated_send_is_accepted:
  assumes "validate_send_args args agentId maxSendBytes = Inr v"
    and "is_token agentId" "1 \<le> length newId" "length newId \<le> 128" "date_ok now"
  shows "let e = (build_envelope args v agentId newId now)\<lparr>e_alg := al, e_sig := sg\<rparr> in
    assert_a2a_subject ((if st_topic v then topic_subject else inbox_subject) a2a_prefix (st_target v)) a2a_prefix
      = Inr ()
    \<and> is_valid_inbound date_ok (envelope_json e) \<and> as_envelope (envelope_json e) = e"
  using built_envelope_valid [where date_ok = date_ok and now = now, OF assms] send_target_token [OF assms(1)] a2a_subject_plain
  by (simp add: Let_def as_envelope_json)

definition sample_args :: jsval where
  "sample_args = JObj [(''to'', JStr ''topic:ops''), (''body'', JStr ''hello''), (''type'', JStr ''reply''),
     (''corr'', JStr ''m-1''), (''ttl_ms'', JNum (Fin 5000)), (''attrs'', JObj [(''repo'', JStr ''x'')])]"

theorem validated_send_is_accepted_witness:
  "let v = \<lparr>st_to = ''topic:ops'', st_topic = True, st_target = ''ops'', st_type = TReply\<rparr>;
       e = (build_envelope sample_args v ''kai'' ''id-1'' ''now'')\<lparr>e_alg := None, e_sig := None\<rparr> in
    assert_a2a_subject ((if st_topic v then topic_subject else inbox_subject) a2a_prefix (st_target v)) a2a_prefix
      = Inr ()
    \<and> is_valid_inbound (\<lambda>s. s = ''now'') (envelope_json e) \<and> as_envelope (envelope_json e) = e"
proof -
  have "validate_send_args sample_args ''kai'' 100 =
      Inr \<lparr>st_to = ''topic:ops'', st_topic = True, st_target = ''ops'', st_type = TReply\<rparr>"
    by (simp add: sample_args_def validate_send_args_def js_eval recipient_ok_def str_or_empty_def
        str_at_most_def utf8_def utf8_char_def parse_type_def ttl_ok_def attrs_error_def RESERVED_ATTRS_def)
  moreover have "is_token ''kai''" by (simp add: js_eval)
  ultimately show ?thesis
    using validated_send_is_accepted [of sample_args "''kai''" 100 _ "''id-1''" "\<lambda>s. s = ''now''" "''now''" None None]
    by (simp add: Let_def)
qed

subsection \<open>Attributes\<close>

lemma spread_lookup:
  "map_of (spread base kvs) k = (case map_of (rev kvs) k of Some v \<Rightarrow> Some v | None \<Rightarrow> map_of base k)"
  by (induction kvs arbitrary: base) (auto simp: spread_def split: option.splits)

lemma map_of_opt_truthy:
  "map_of (rev (opt_truthy k v)) k' = (if k' = k \<and> v \<noteq> Some [] then v else None)"
  by (auto simp: opt_truthy_def split: option.splits)

lemma build_attrs_lookup:
  "map_of (build_a2a_attrs env subject kind) k =
     (case map_of [(''feed'', ''a2a''), (''kind'', kind_str kind), (''subject'', subject), (''from'', e_from env),
          (''to'', e_to env), (''type'', type_str (e_type env)), (''id'', e_id env), (''ts'', e_ts env)] k of
        Some v \<Rightarrow> Some v
      | None \<Rightarrow>
          if k = ''corr'' \<and> e_corr env \<notin> {None, Some []} then e_corr env
          else if k = ''thread'' \<and> e_thread env \<notin> {None, Some []} then e_thread env
          else if k = ''notifId'' then None
          else map_of (case e_attrs env of None \<Rightarrow> [] | Some kvs \<Rightarrow> kvs) k)"
proof -
  have "map_of (filter (\<lambda>(k, v). k \<noteq> ''notifId'') xs) k = (if k = ''notifId'' then None else map_of xs k)"
    for xs :: "(string \<times> string) list" and k
    by (induction xs) auto
  then show ?thesis
    by (auto simp: build_a2a_attrs_def Let_def spread_lookup map_add_def map_of_opt_truthy split: option.splits)
qed

text \<open>
  No spoofing of the channel tag: whatever attributes the sender put in the envelope, \<open>feed\<close>,
  \<open>kind\<close>, \<open>subject\<close>, \<open>from\<close>, \<open>to\<close>, \<open>type\<close>, \<open>id\<close> and \<open>ts\<close> are those of the delivery and of the verified
  envelope, a correlation or thread id of the envelope wins over an attribute, and no \<open>notifId\<close>
  gets through; every other attribute is passed unchanged.
\<close>

theorem channel_attrs_authentic:
  "let m = map_of (build_a2a_attrs env subject kind) in
     m ''feed'' = Some ''a2a'' \<and> m ''kind'' = Some (kind_str kind) \<and> m ''subject'' = Some subject
     \<and> m ''from'' = Some (e_from env) \<and> m ''to'' = Some (e_to env) \<and> m ''type'' = Some (type_str (e_type env))
     \<and> m ''id'' = Some (e_id env) \<and> m ''ts'' = Some (e_ts env) \<and> m ''notifId'' = None
     \<and> (e_corr env \<notin> {None, Some []} \<longrightarrow> m ''corr'' = e_corr env)
     \<and> (e_thread env \<notin> {None, Some []} \<longrightarrow> m ''thread'' = e_thread env)"
  by (simp add: Let_def build_attrs_lookup)

theorem channel_attrs_authentic_witness:
  "let m = map_of (build_a2a_attrs (sample_env\<lparr>e_corr := Some ''m-1'',
        e_attrs := Some [(''from'', ''root''), (''corr'', ''x'')]\<rparr>) ''s'' Direct)
   in m ''from'' = Some ''kai'' \<and> m ''corr'' = Some ''m-1''"
  using channel_attrs_authentic [of "sample_env\<lparr>e_corr := Some ''m-1'',
        e_attrs := Some [(''from'', ''root''), (''corr'', ''x'')]\<rparr>" "''s''" Direct]
  by (simp add: Let_def sample_env_def)

text \<open>
  The exception to the comment above \<open>buildA2AAttrs\<close> ("a sender-supplied attr can NEVER spoof
  them"): when the envelope has no correlation id, an attribute named \<open>corr\<close>, which the signature
  does not cover and \<open>isValidInbound\<close> does not reject, appears in the tag. The same holds of
  \<open>thread\<close>.
\<close>

lemma corr_attr_survives:
  "e_corr env = None \<Longrightarrow> e_attrs env = Some [(''corr'', x)] \<Longrightarrow>
   map_of (build_a2a_attrs env subject kind) ''corr'' = Some x"
  by (simp add: build_attrs_lookup)

end
