(* ===== verification/A2A_Rate.thy ===== *)
theory A2A_Rate
  imports Prelude
begin

text \<open>
  Send-rate limiting of \<open>src/a2a-channel.ts\<close>: \<open>TokenBucket\<close> (lines 301-314) and \<open>rateOk\<close> (lines
  1061-1074) with its capped table of per-recipient buckets.

  Every reading of the injected clock is a separate input: in a call of \<open>rateOk\<close>, \<open>t i\<close> is the
  \<open>i\<close>-th place where the code reads it. Token counts are exact rationals where the source has
  doubles.
\<close>

subsection \<open>Token bucket\<close>

record bucket =
  capacity :: rat
  perMin :: rat
  tokens :: rat
  last_refill :: rat

definition tb_new :: "rat \<Rightarrow> rat \<Rightarrow> rat \<Rightarrow> bucket" where
  "tb_new cap pm now = \<lparr>capacity = cap, perMin = pm, tokens = cap, last_refill = now\<rparr>"

definition per_ms :: "bucket \<Rightarrow> rat" where "per_ms b = perMin b / 60000"

definition tb_refill :: "rat \<Rightarrow> bucket \<Rightarrow> bucket" where
  "tb_refill t b = b\<lparr>tokens := min (capacity b) (tokens b + (t - last_refill b) * per_ms b),
                     last_refill := t\<rparr>"

definition tb_peek :: "rat \<Rightarrow> bucket \<Rightarrow> bool \<times> bucket" where
  "tb_peek t b = (let b' = tb_refill t b in (tokens b' \<ge> 1, b'))"

definition tb_take :: "rat \<Rightarrow> bucket \<Rightarrow> bool \<times> bucket" where
  "tb_take t b =
     (let b' = tb_refill t b in
      if tokens b' < 1 then (False, b') else (True, b'\<lparr>tokens := tokens b' - 1\<rparr>))"

subsection \<open>Capped tables\<close>

definition MAX_TRACKED_KEYS :: nat where "MAX_TRACKED_KEYS = 4096"

text \<open>\<open>evictOldest(m); m.set(k, v)\<close>, as \<open>rateOk\<close> and \<open>getVerifyKey\<close> do.\<close>

definition tracked_put :: "'k \<Rightarrow> 'v \<Rightarrow> ('k \<times> 'v) list \<Rightarrow> ('k \<times> 'v) list" where
  "tracked_put k v m = AList.update k v (evict_oldest MAX_TRACKED_KEYS m)"

interpretation tracked: bounded_store tracked_put id MAX_TRACKED_KEYS
proof
  fix m :: "('a \<times> 'b) list" and k v
  assume "length (id m) \<le> MAX_TRACKED_KEYS"
  then have "length (evict_oldest MAX_TRACKED_KEYS m) < MAX_TRACKED_KEYS"
    using length_evict [of MAX_TRACKED_KEYS m] by (simp add: MAX_TRACKED_KEYS_def)
  then show "length (id (tracked_put k v m)) \<le> MAX_TRACKED_KEYS"
    using length_update_le [of k v "evict_oldest MAX_TRACKED_KEYS m"] by (simp add: tracked_put_def)
qed (simp add: tracked_put_def)

subsection \<open>Dual bucket\<close>

record rate_state =
  globalBucket :: "bucket option"
  peerBuckets :: "(string \<times> bucket) list"

definition rate_new :: rate_state where
  "rate_new = \<lparr>globalBucket = None, peerBuckets = []\<rparr>"

definition rate_ok :: "rat \<Rightarrow> rat \<Rightarrow> (nat \<Rightarrow> rat) \<Rightarrow> string \<Rightarrow> rate_state \<Rightarrow> bool \<times> rate_state" where
  "rate_ok ratePerMin ratePerPeer t peerKey s =
     (let g0 = (case globalBucket s of None \<Rightarrow> tb_new ratePerMin ratePerMin (t 0) | Some g \<Rightarrow> g);
          (pb, peers) = (case map_of (peerBuckets s) peerKey of
              Some b \<Rightarrow> (b, peerBuckets s)
            | None \<Rightarrow> (let b = tb_new ratePerPeer ratePerPeer (t 1) in
                       (b, tracked_put peerKey b (peerBuckets s))));
          (gok, g1) = tb_peek (t 2) g0
      in if \<not> gok then (False, \<lparr>globalBucket = Some g1, peerBuckets = peers\<rparr>)
         else let (pok, pb1) = tb_peek (t 3) pb in
           if \<not> pok then (False, \<lparr>globalBucket = Some g1, peerBuckets = AList.update peerKey pb1 peers\<rparr>)
           else let (_, g2) = tb_take (t 4) g1; (_, pb2) = tb_take (t 5) pb1
             in (True, \<lparr>globalBucket = Some g2, peerBuckets = AList.update peerKey pb2 peers\<rparr>))"

fun rate_run :: "rat \<Rightarrow> rat \<Rightarrow> (string \<times> (nat \<Rightarrow> rat)) list \<Rightarrow> rate_state \<Rightarrow> nat \<times> rate_state" where
  "rate_run rg rp [] s = (0, s)"
| "rate_run rg rp ((k, t) # calls) s =
     (let (ok, s') = rate_ok rg rp t k s; (n, s'') = rate_run rg rp calls s'
      in ((if ok then Suc n else n), s''))"

subsection \<open>Lemmas\<close>

text \<open>
  The account of a bucket: tokens spent plus tokens left never exceed what it was given, one
  capacity at creation and the refill since.
\<close>

definition tb_account :: "rat \<Rightarrow> nat \<Rightarrow> bucket \<Rightarrow> bool" where
  "tb_account t0 n b \<longleftrightarrow> 0 \<le> tokens b \<and> 0 \<le> per_ms b \<and> 1 \<le> capacity b
     \<and> of_nat n + tokens b \<le> capacity b + (last_refill b - t0) * per_ms b"

lemma tb_refill_simps [simp]:
  "capacity (tb_refill t b) = capacity b" "perMin (tb_refill t b) = perMin b"
  "last_refill (tb_refill t b) = t" "per_ms (tb_refill t b) = per_ms b"
  "per_ms (b\<lparr>tokens := x\<rparr>) = per_ms b"
  by (simp_all add: tb_refill_def per_ms_def)

lemma tb_new_account: "1 \<le> cap \<Longrightarrow> 0 \<le> pm \<Longrightarrow> tb_account t0 0 (tb_new cap pm t0)"
  by (simp add: tb_account_def tb_new_def per_ms_def)

lemma tb_refill_tokens: "tokens (tb_refill t b) = min (capacity b) (tokens b + (t - last_refill b) * per_ms b)"
  by (simp add: tb_refill_def)

lemma tb_refill_account:
  assumes "tb_account t0 n b" "last_refill b \<le> t"
  shows "tb_account t0 n (tb_refill t b)"
proof -
  have "0 \<le> (t - last_refill b) * per_ms b"
    using assms by (simp add: tb_account_def)
  moreover have "(last_refill b - t0) * per_ms b + (t - last_refill b) * per_ms b = (t - t0) * per_ms b"
    by (simp add: algebra_simps)
  ultimately show ?thesis
    using assms unfolding tb_account_def tb_refill_tokens tb_refill_simps by linarith
qed

lemma tb_take_account:
  assumes "tb_account t0 n b" "last_refill b \<le> t" "1 \<le> tokens b"
  shows "fst (tb_take t b)" "tb_account t0 (Suc n) (snd (tb_take t b))"
proof -
  note a = tb_refill_account [OF assms(1,2)]
  have "0 \<le> (t - last_refill b) * per_ms b"
    using assms by (simp add: tb_account_def)
  then have one: "1 \<le> tokens (tb_refill t b)"
    using assms unfolding tb_account_def tb_refill_tokens by linarith
  then show "fst (tb_take t b)" by (simp add: tb_take_def Let_def)
  show "tb_account t0 (Suc n) (snd (tb_take t b))"
    using a one by (auto simp: tb_take_def Let_def tb_account_def)
qed

text \<open>The readings of the clock within a call and from call to call do not go backwards.\<close>

fun clock_ok :: "rat \<Rightarrow> (string \<times> (nat \<Rightarrow> rat)) list \<Rightarrow> bool" where
  "clock_ok now [] = True"
| "clock_ok now ((k, t) # calls) =
     (now \<le> t 0 \<and> t 0 \<le> t 1 \<and> t 1 \<le> t 2 \<and> t 2 \<le> t 3 \<and> t 3 \<le> t 4 \<and> t 4 \<le> t 5 \<and> clock_ok (t 5) calls)"

fun end_time :: "rat \<Rightarrow> (string \<times> (nat \<Rightarrow> rat)) list \<Rightarrow> rat" where
  "end_time now [] = now"
| "end_time now ((k, t) # calls) = end_time (t 5) calls"

definition rate_inv :: "rat \<Rightarrow> rat \<Rightarrow> rat \<Rightarrow> nat \<Rightarrow> rate_state \<Rightarrow> bool" where
  "rate_inv rg t0 now n s \<longleftrightarrow> t0 \<le> now \<and> length (peerBuckets s) \<le> MAX_TRACKED_KEYS
     \<and> (case globalBucket s of
          None \<Rightarrow> n = 0
        | Some g \<Rightarrow> tb_account t0 n g \<and> last_refill g \<le> now \<and> capacity g = rg \<and> perMin g = rg)"

lemma tb_take_fields [simp]:
  "capacity (snd (tb_take t b)) = capacity b" "perMin (snd (tb_take t b)) = perMin b"
  "last_refill (snd (tb_take t b)) = t"
  by (auto simp: tb_take_def Let_def)

lemma tb_peek_simps [simp]: "tb_peek t b = (1 \<le> tokens (tb_refill t b), tb_refill t b)"
  by (simp add: tb_peek_def Let_def)

lemma update_bound:
  "k \<in> fst ` set m \<Longrightarrow> length (AList.update k v m) = length m"
  by (simp add: length_update)

lemma peers_bound:
  assumes "length m \<le> MAX_TRACKED_KEYS"
    and "(pb, m') = (case map_of m k of Some b \<Rightarrow> (b, m) | None \<Rightarrow> (c, tracked_put k c m))"
  shows "length m' \<le> MAX_TRACKED_KEYS \<and> length (AList.update k v m') \<le> MAX_TRACKED_KEYS"
proof (cases "map_of m k")
  case None
  then have m': "m' = tracked_put k c m" using assms(2) by simp
  have "length m' \<le> MAX_TRACKED_KEYS"
    using tracked.put_bound [of m k c] assms(1) m' by simp
  moreover have "k \<in> fst ` set m'" by (simp add: m' tracked_put_def dom_update)
  ultimately show ?thesis by (simp add: update_bound)
next
  case (Some b)
  then have "m' = m" "k \<in> fst ` set m" using assms(2) map_of_SomeD [OF Some] by force+
  then show ?thesis using assms(1) by (simp add: update_bound)
qed

lemma rate_ok_step:
  assumes inv: "rate_inv rg t0 now n s" and rg: "1 \<le> rg" and clk: "clock_ok now [(k, t)]"
    and res: "rate_ok rg rp t k s = (ok, s')"
  shows "rate_inv rg t0 (t 5) (if ok then Suc n else n) s'"
proof -
  define g0 where "g0 = (case globalBucket s of None \<Rightarrow> tb_new rg rg (t 0) | Some g \<Rightarrow> g)"
  obtain pb peers where pb: "(pb, peers) = (case map_of (peerBuckets s) k of Some b \<Rightarrow> (b, peerBuckets s)
      | None \<Rightarrow> (tb_new rp rp (t 1), tracked_put k (tb_new rp rp (t 1)) (peerBuckets s)))"
    by (metis surj_pair)
  have clk': "now \<le> t 0" "t 0 \<le> t 2" "t 2 \<le> t 4" "t 4 \<le> t 5" "t 2 \<le> t 5"
    using clk by auto
  have g0: "tb_account t0 n g0" "last_refill g0 \<le> t 2" "capacity g0 = rg" "perMin g0 = rg"
  proof -
    have "tb_account t0 0 (tb_new rg rg (t 0))"
      using rg inv clk'(1) by (simp add: tb_account_def tb_new_def per_ms_def rate_inv_def)
    then show "tb_account t0 n g0" "last_refill g0 \<le> t 2" "capacity g0 = rg" "perMin g0 = rg"
      using inv clk'(1,2) by (auto simp: g0_def rate_inv_def tb_new_def split: option.splits)
  qed
  note ref = tb_refill_account [OF g0(1,2)]
  have len: "length peers \<le> MAX_TRACKED_KEYS" "length (AList.update k v peers) \<le> MAX_TRACKED_KEYS" for v
    using peers_bound [OF _ pb] inv by (auto simp: rate_inv_def)
  have t0: "t0 \<le> t 5" using inv clk' by (simp add: rate_inv_def)
  let ?g = "tb_refill (t 2) g0"
  have eq: "rate_ok rg rp t k s =
     (if \<not> 1 \<le> tokens ?g then (False, \<lparr>globalBucket = Some ?g, peerBuckets = peers\<rparr>)
      else if \<not> 1 \<le> tokens (tb_refill (t 3) pb)
        then (False, \<lparr>globalBucket = Some ?g, peerBuckets = AList.update k (tb_refill (t 3) pb) peers\<rparr>)
      else (True, \<lparr>globalBucket = Some (snd (tb_take (t 4) ?g)),
              peerBuckets = AList.update k (snd (tb_take (t 5) (tb_refill (t 3) pb))) peers\<rparr>))"
    unfolding rate_ok_def Let_def g0_def [symmetric] pb [symmetric, unfolded Let_def]
    by (simp add: case_prod_unfold)
  show ?thesis
  proof (cases ok)
    case True
    then have s': "1 \<le> tokens ?g" "globalBucket s' = Some (snd (tb_take (t 4) ?g))"
      "length (peerBuckets s') \<le> MAX_TRACKED_KEYS"
      using res eq len by (auto split: if_splits)
    have "tb_account t0 (Suc n) (snd (tb_take (t 4) ?g))"
      using tb_take_account(2) [OF ref _ s'(1), of "t 4"] clk'(3) by simp
    then show ?thesis
      using True s' g0 clk' t0 by (simp add: rate_inv_def)
  next
    case False
    then have "globalBucket s' = Some ?g" "length (peerBuckets s') \<le> MAX_TRACKED_KEYS"
      using res eq len by (auto split: if_splits)
    then show ?thesis
      using False ref g0 clk' t0 by (simp add: rate_inv_def)
  qed
qed

lemma rate_run_inv:
  "rate_inv rg t0 now n s \<Longrightarrow> 1 \<le> rg \<Longrightarrow> clock_ok now calls \<Longrightarrow>
   rate_inv rg t0 (end_time now calls) (n + fst (rate_run rg rp calls s)) (snd (rate_run rg rp calls s))"
proof (induction calls arbitrary: now n s)
  case Nil
  then show ?case by simp
next
  case (Cons c calls)
  obtain k t where c: "c = (k, t)" by fastforce
  obtain ok s' where st: "rate_ok rg rp t k s = (ok, s')" by fastforce
  have "rate_inv rg t0 (t 5) (if ok then Suc n else n) s'"
    using rate_ok_step [OF Cons.prems(1,2) _ st] Cons.prems(3) c by simp
  then show ?case
    using Cons.IH [of "t 5"] Cons.prems c st
    by (fastforce simp: case_prod_unfold Let_def split: if_splits)
qed

text \<open>
  The send rate is bounded whatever the recipients: over any sequence of sends under a clock
  that does not go backwards, at most \<open>ratePerMin\<close> plus \<open>ratePerMin / 60000\<close> per elapsed millisecond
  are admitted, and no more than 4096 recipients are ever tracked.
\<close>

theorem send_rate_bounded:
  assumes "1 \<le> rg" and "clock_ok t0 calls"
  shows "of_nat (fst (rate_run rg rp calls rate_new)) \<le> rg + (end_time t0 calls - t0) * (rg / 60000)
    \<and> length (peerBuckets (snd (rate_run rg rp calls rate_new))) \<le> MAX_TRACKED_KEYS"
proof -
  have "rate_inv rg t0 t0 0 rate_new"
    by (simp add: rate_inv_def rate_new_def)
  from rate_run_inv [OF this assms, of rp]
  have inv: "rate_inv rg t0 (end_time t0 calls) (fst (rate_run rg rp calls rate_new))
      (snd (rate_run rg rp calls rate_new))" by simp
  show ?thesis
  proof (cases "globalBucket (snd (rate_run rg rp calls rate_new))")
    case None
    then have "fst (rate_run rg rp calls rate_new) = 0" "0 \<le> (end_time t0 calls - t0) * (rg / 60000)"
      using inv assms(1) by (simp_all add: rate_inv_def)
    then show ?thesis using inv assms(1) by (simp add: rate_inv_def)
  next
    case (Some g)
    then have g: "tb_account t0 (fst (rate_run rg rp calls rate_new)) g" "last_refill g \<le> end_time t0 calls"
      "capacity g = rg" "per_ms g = rg / 60000"
      using inv by (simp_all add: rate_inv_def per_ms_def)
    have "(last_refill g - t0) * per_ms g \<le> (end_time t0 calls - t0) * per_ms g"
      using g(1,2) by (intro mult_right_mono) (simp_all add: tb_account_def)
    then have "of_nat (fst (rate_run rg rp calls rate_new)) \<le> rg + (end_time t0 calls - t0) * per_ms g"
      using g(1,3) unfolding tb_account_def by linarith
    then show ?thesis
      using inv unfolding g(4) by (simp add: rate_inv_def)
  qed
qed

theorem send_rate_bounded_witness:
  "of_nat (fst (rate_run 30 10 [(''ops'', \<lambda>i. of_nat i), (''kai'', \<lambda>i. 60000 + of_nat i)] rate_new)) \<le> 30 + 60005 * ((30 :: rat) / 60000)
    \<and> length (peerBuckets (snd (rate_run 30 10 [(''ops'', \<lambda>i. of_nat i), (''kai'', \<lambda>i. 60000 + of_nat i)] rate_new)))
      \<le> MAX_TRACKED_KEYS"
  using send_rate_bounded [of 30 0 "[(''ops'', \<lambda>i. of_nat i), (''kai'', \<lambda>i. 60000 + of_nat i)]" 10]
  by (simp del: rate_run.simps)

end
