(* ===== verification/Inbox_Store.thy ===== *)
theory Inbox_Store
  imports A2A_Messages "HOL-Library.List_Lexorder" "HOL-Library.Char_ord"
begin

text \<open>
  The durable inbox, \<open>src/a2a_inbox_store.ts\<close>. The table \<open>a2a_inbox_message\<close> is a list of rows in
  insertion order; each method is the meaning of its SQL statement (\<open>ON CONFLICT DO NOTHING\<close>,
  \<open>WHERE\<close>, \<open>ORDER BY ... DESC\<close>, \<open>LIMIT\<close>, \<open>COALESCE\<close>). Text compares bytewise, which on code units
  below 256 is the order of \<open>List_Lexorder\<close> over \<open>Char_ord\<close>.

  Parameters: \<open>enc\<close> (\<open>base64url\<close> of \<open>JSON.stringify\<close>) and \<open>dec\<close> (\<open>JSON.parse\<close> of the decoded
  \<open>base64url\<close>, \<open>None\<close> where it throws), with the law that a cursor is read back as it was written.
\<close>

subsection \<open>Rows and keys\<close>

record inbox_row =
  env_id :: string
  recipient :: string
  from_agent :: string
  to_agent :: string
  msg_type :: string
  r_thread :: "string option"
  r_corr :: "string option"
  r_ts :: string
  delivered_at :: string
  r_subject :: "string option"
  r_body :: string
  attrs_json :: "string option"
  raw_envelope :: string
  handled :: bool
  handled_at :: "string option"

type_synonym inbox = "inbox_row list"

text \<open>The sort key \<open>(delivered_at, env_id)\<close>, which is also what a cursor holds.\<close>

datatype cursor_key = Cursor (ck_delivered: string) (ck_id: string)

instantiation cursor_key :: linorder
begin

definition less_eq_cursor_key :: "cursor_key \<Rightarrow> cursor_key \<Rightarrow> bool" where
  "less_eq_cursor_key a b \<longleftrightarrow> ck_delivered a < ck_delivered b
     \<or> (ck_delivered a = ck_delivered b \<and> ck_id a \<le> ck_id b)"

definition less_cursor_key :: "cursor_key \<Rightarrow> cursor_key \<Rightarrow> bool" where
  "less_cursor_key a b \<longleftrightarrow> ck_delivered a < ck_delivered b
     \<or> (ck_delivered a = ck_delivered b \<and> ck_id a < ck_id b)"

instance
  by standard (auto simp: less_eq_cursor_key_def less_cursor_key_def intro: cursor_key.expand)

end

definition row_key :: "inbox_row \<Rightarrow> cursor_key" where
  "row_key r = Cursor (delivered_at r) (env_id r)"

subsection \<open>\<open>JSON.stringify\<close> of a string record\<close>

definition json_char :: "char \<Rightarrow> string" where
  "json_char c = (let n = (of_char c :: nat); b = CHR 0x5C in
     if n = 34 then [b, CHR 0x22]
     else if n = 92 then [b, b]
     else if n = 8 then [b, CHR ''b'']
     else if n = 9 then [b, CHR ''t'']
     else if n = 10 then [b, CHR ''n'']
     else if n = 12 then [b, CHR ''f'']
     else if n = 13 then [b, CHR ''r'']
     else if n < 32 then [b] @ ''u00'' @ [hex_digit (n div 16), hex_digit (n mod 16)]
     else [c])"

definition json_string :: "string \<Rightarrow> string" where
  "json_string s = [CHR 0x22] @ concat (map json_char s) @ [CHR 0x22]"

definition json_str_record :: "(string \<times> string) list \<Rightarrow> string" where
  "json_str_record kvs =
     ''{'' @ join_with '','' (map (\<lambda>(k, v). json_string k @ '':'' @ json_string v) kvs) @ ''}''"

subsection \<open>Operations\<close>

definition MAX_LIMIT :: int where "MAX_LIMIT = 200"

definition normalize_limit :: "int option \<Rightarrow> nat" where
  "normalize_limit l = nat (min (max (case l of None \<Rightarrow> 50 | Some n \<Rightarrow> n) 1) MAX_LIMIT)"

definition cursor_json :: "cursor_key \<Rightarrow> jsval" where
  "cursor_json k = JObj [(''delivered_at'', JStr (ck_delivered k)), (''env_id'', JStr (ck_id k))]"

definition encode_cursor :: "(jsval \<Rightarrow> string) \<Rightarrow> inbox_row \<Rightarrow> string" where
  "encode_cursor enc r = enc (cursor_json (row_key r))"

definition decode_cursor :: "(string \<Rightarrow> jsval option) \<Rightarrow> string option \<Rightarrow> cursor_key option" where
  "decode_cursor dec c =
     (case c of
        None \<Rightarrow> None
      | Some s \<Rightarrow>
          (if s = [] then None
           else (case dec s of
                   None \<Rightarrow> None
                 | Some v \<Rightarrow>
                     (case (jget v ''delivered_at'', jget v ''env_id'') of
                        (JStr d, JStr i) \<Rightarrow> Some (Cursor d i)
                      | _ \<Rightarrow> None))))"

definition inbox_read :: "inbox \<Rightarrow> string \<Rightarrow> string \<Rightarrow> inbox_row option" where
  "inbox_read db rcp i = find (\<lambda>r. recipient r = rcp \<and> env_id r = i) db"

definition new_row :: "string \<Rightarrow> envelope \<Rightarrow> string option \<Rightarrow> string \<Rightarrow> string \<Rightarrow> inbox_row" where
  "new_row rcp env subj raw deliveredAt =
     \<lparr>env_id = e_id env, recipient = rcp, from_agent = e_from env, to_agent = e_to env,
       msg_type = type_str (e_type env), r_thread = e_thread env, r_corr = e_corr env, r_ts = e_ts env,
       delivered_at = deliveredAt, r_subject = subj, r_body = e_body env,
       attrs_json = map_option json_str_record (e_attrs env), raw_envelope = raw,
       handled = False, handled_at = None\<rparr>"

text \<open>\<open>INSERT ... ON CONFLICT(recipient, env_id) DO NOTHING\<close>, then the row is read back.\<close>

definition inbox_insert :: "inbox \<Rightarrow> inbox_row \<Rightarrow> inbox" where
  "inbox_insert db r =
     (if list_ex (\<lambda>x. recipient x = recipient r \<and> env_id x = env_id r) db then db else db @ [r])"

definition inbox_store ::
  "inbox \<Rightarrow> string \<Rightarrow> envelope \<Rightarrow> string option \<Rightarrow> string \<Rightarrow> string \<Rightarrow> (string + bool \<times> inbox_row) \<times> inbox" where
  "inbox_store db rcp env subj raw deliveredAt =
     (let db' = inbox_insert db (new_row rcp env subj raw deliveredAt); inserted = (db' \<noteq> db) in
      (case inbox_read db' rcp (e_id env) of
         None \<Rightarrow> (Inl ''inbox_store_insert_missing'', db')
       | Some m \<Rightarrow> (Inr (inserted, m), db')))"

record list_filters =
  f_recipient :: string
  f_handled :: "bool option"
  f_from :: "string option"
  f_thread :: "string option"
  f_since :: "string option"
  f_limit :: "int option"

definition given :: "string option \<Rightarrow> (string \<Rightarrow> bool) \<Rightarrow> bool" where
  "given f P = (case f of None \<Rightarrow> True | Some s \<Rightarrow> s = [] \<or> P s)"

definition row_matches :: "list_filters \<Rightarrow> inbox_row \<Rightarrow> bool" where
  "row_matches f r \<longleftrightarrow> recipient r = f_recipient f
     \<and> (case f_handled f of None \<Rightarrow> True | Some h \<Rightarrow> handled r = h)
     \<and> given (f_from f) (\<lambda>s. from_agent r = s)
     \<and> given (f_thread f) (\<lambda>s. r_thread r = Some s)
     \<and> given (f_since f) (\<lambda>s. s \<le> r_ts r)"

text \<open>\<open>ORDER BY delivered_at DESC, env_id DESC\<close>.\<close>

definition newest_first :: "inbox_row list \<Rightarrow> inbox_row list" where
  "newest_first rows = rev (sort_key row_key rows)"

definition before_cursor :: "cursor_key option \<Rightarrow> inbox_row \<Rightarrow> bool" where
  "before_cursor c r = (case c of None \<Rightarrow> True
     | Some k \<Rightarrow> delivered_at r < ck_delivered k \<or> (delivered_at r = ck_delivered k \<and> env_id r < ck_id k))"

definition inbox_list ::
  "(jsval \<Rightarrow> string) \<Rightarrow> (string \<Rightarrow> jsval option) \<Rightarrow> inbox \<Rightarrow> list_filters \<Rightarrow> string option
   \<Rightarrow> inbox_row list \<times> string option" where
  "inbox_list enc dec db f cursor =
     (let limit = normalize_limit (f_limit f);
          c = decode_cursor dec cursor;
          rows = take (limit + 1) (newest_first (filter (\<lambda>r. row_matches f r \<and> before_cursor c r) db));
          page = take limit rows
      in (page, if length rows > limit \<and> page \<noteq> [] then Some (encode_cursor enc (last page)) else None))"

definition ack_row :: "string \<Rightarrow> inbox_row \<Rightarrow> inbox_row" where
  "ack_row t r = r\<lparr>handled := True, handled_at := (case handled_at r of None \<Rightarrow> Some t | Some u \<Rightarrow> Some u)\<rparr>"

definition inbox_ack :: "inbox \<Rightarrow> string \<Rightarrow> string \<Rightarrow> string \<Rightarrow> inbox_row option \<times> inbox" where
  "inbox_ack db rcp i t =
     (let db' = map (\<lambda>r. if recipient r = rcp \<and> env_id r = i then ack_row t r else r) db
      in (inbox_read db' rcp i, db'))"

subsection \<open>The table as a state machine\<close>

datatype inbox_op =
    StoreMsg string envelope "string option" string string
  | AckMsg string string string

definition inbox_step :: "inbox \<Rightarrow> inbox_op \<Rightarrow> inbox" where
  "inbox_step db op = (case op of
      StoreMsg rcp env subj raw t \<Rightarrow> snd (inbox_store db rcp env subj raw t)
    | AckMsg rcp i t \<Rightarrow> snd (inbox_ack db rcp i t))"

definition row_id :: "inbox_row \<Rightarrow> string \<times> string" where
  "row_id r = (recipient r, env_id r)"

definition inbox_wf :: "inbox \<Rightarrow> bool" where
  "inbox_wf db \<longleftrightarrow> distinct (map row_id db) \<and> (\<forall>r \<in> set db. handled r = (handled_at r \<noteq> None))"

lemma row_id_ack [simp]: "row_id (ack_row t r) = row_id r"
  by (simp add: row_id_def ack_row_def)

lemma inbox_insert_cases:
  "inbox_insert db r = (if row_id r \<in> row_id ` set db then db else db @ [r])"
proof -
  have "list_ex (\<lambda>x. recipient x = recipient r \<and> env_id x = env_id r) db = (row_id r \<in> row_id ` set db)"
    by (simp add: list_ex_iff row_id_def image_iff) metis
  then show ?thesis by (simp add: inbox_insert_def)
qed

lemma inbox_store_db: "snd (inbox_store db rcp env subj raw t) = inbox_insert db (new_row rcp env subj raw t)"
  by (simp add: inbox_store_def Let_def split: option.split)

lemma inbox_ack_db:
  "snd (inbox_ack db rcp i t) = map (\<lambda>r. if row_id r = (rcp, i) then ack_row t r else r) db"
  by (simp add: inbox_ack_def Let_def row_id_def)

lemma inbox_wf_insert:
  assumes "inbox_wf db" "handled r = (handled_at r \<noteq> None)"
  shows "inbox_wf (inbox_insert db r)"
  using assms by (auto simp: inbox_insert_cases inbox_wf_def)

lemma inbox_wf_step: "inbox_wf db \<Longrightarrow> inbox_wf (inbox_step db op)"
proof (cases op)
  case (StoreMsg rcp env subj raw t)
  then show "inbox_wf db \<Longrightarrow> ?thesis"
    using inbox_wf_insert [of db "new_row rcp env subj raw t"]
    by (simp add: inbox_step_def inbox_store_db new_row_def)
next
  case (AckMsg rcp i t)
  have "map row_id (map (\<lambda>r. if row_id r = (rcp, i) then ack_row t r else r) db) = map row_id db"
    by (simp add: o_def)
  then show "inbox_wf db \<Longrightarrow> ?thesis"
    unfolding inbox_step_def AckMsg inbox_wf_def
    by (auto simp: inbox_ack_db simp del: map_map) (auto simp: ack_row_def split: option.splits)
qed

interpretation inbox_table: step_invariant inbox_step inbox_wf
  by unfold_locales (rule inbox_wf_step)

subsection \<open>Reading\<close>

lemma inbox_read_Some:
  assumes "inbox_wf db"
  shows "inbox_read db rcp i = Some r \<longleftrightarrow> r \<in> set db \<and> row_id r = (rcp, i)"
proof
  show "inbox_read db rcp i = Some r \<Longrightarrow> r \<in> set db \<and> row_id r = (rcp, i)"
    by (auto simp: inbox_read_def find_Some_iff row_id_def)
next
  assume r: "r \<in> set db \<and> row_id r = (rcp, i)"
  then obtain r' where r': "inbox_read db rcp i = Some r'"
    by (cases "inbox_read db rcp i") (auto simp: inbox_read_def find_None_iff row_id_def)
  then have "r' \<in> set db \<and> row_id r' = (rcp, i)" by (auto simp: inbox_read_def find_Some_iff row_id_def)
  then have "r' = r" using r assms by (metis inbox_wf_def distinct_map inj_onD)
  then show "inbox_read db rcp i = Some r" using r' by simp
qed

text \<open>What later operations do to a row: nothing, except that an acknowledgement may mark it once.\<close>

definition row_later :: "inbox_row \<Rightarrow> inbox_row \<Rightarrow> bool" where
  "row_later r r' \<longleftrightarrow> r' = r \<or> (\<not> handled r \<and> (\<exists>t. r' = r\<lparr>handled := True, handled_at := Some t\<rparr>))"

lemma inbox_step_later:
  assumes "inbox_wf db" "r \<in> set db"
  shows "\<exists>r' \<in> set (inbox_step db op). row_later r r'"
proof (cases op)
  case (StoreMsg rcp env subj raw t)
  then show ?thesis
    using assms(2) by (auto simp: inbox_step_def inbox_store_db inbox_insert_cases row_later_def)
next
  case (AckMsg rcp i t)
  let ?r' = "if row_id r = (rcp, i) then ack_row t r else r"
  have "?r' \<in> set (inbox_step db op)"
    using assms(2) by (auto simp: AckMsg inbox_step_def inbox_ack_db)
  moreover have "handled r = (handled_at r \<noteq> None)" using assms by (simp add: inbox_wf_def)
  then have "row_later r ?r'"
    by (cases r) (auto simp: ack_row_def row_later_def split: option.splits)
  ultimately show ?thesis by blast
qed

lemma row_later_trans: "row_later a b \<Longrightarrow> row_later b c \<Longrightarrow> row_later a c"
  by (auto simp: row_later_def)

lemma inbox_run_later:
  "inbox_wf db \<Longrightarrow> r \<in> set db \<Longrightarrow> \<exists>r' \<in> set (run inbox_step db ops). row_later r r'"
proof (induction ops arbitrary: db r)
  case Nil
  then show ?case by (auto simp: row_later_def)
next
  case (Cons op ops)
  then obtain r1 where "r1 \<in> set (inbox_step db op)" "row_later r r1"
    using inbox_step_later by blast
  then show ?case
    using Cons.IH [of "inbox_step db op" r1] Cons.prems(1) inbox_wf_step row_later_trans by fastforce
qed

lemma inbox_wf_Nil [simp]: "inbox_wf []"
  by (simp add: inbox_wf_def)

text \<open>
  C21. Durability: once \<open>store\<close> has returned, the message stays readable under its id whatever is
  stored or acknowledged afterwards; a redelivery never overwrites it, and only an
  acknowledgement changes it, once: the first \<open>handled_at\<close> is kept.
\<close>

theorem stored_message_persists:
  assumes "db = run inbox_step [] ops1" and "inbox_read db rcp i = Some r"
  shows "\<exists>r'. inbox_read (run inbox_step db ops2) rcp i = Some r' \<and> row_later r r'"
proof -
  have wf: "inbox_wf db" unfolding assms(1) by (rule inbox_table.run_inv) simp
  then have "r \<in> set db" "row_id r = (rcp, i)" using assms(2) inbox_read_Some by blast+
  then obtain r' where r': "r' \<in> set (run inbox_step db ops2)" "row_later r r'"
    using inbox_run_later [OF wf] by blast
  moreover from r'(2) have "row_id r' = row_id r" by (auto simp: row_later_def row_id_def)
  moreover have "inbox_wf (run inbox_step db ops2)" by (rule inbox_table.run_inv [OF wf])
  ultimately show ?thesis using inbox_read_Some \<open>row_id r = (rcp, i)\<close> by metis
qed

definition sample_db :: inbox where
  "sample_db = run inbox_step []
     [StoreMsg ''ops'' sample_env None ''raw'' ''t1'', AckMsg ''ops'' ''a|1'' ''t2'']"

theorem stored_message_persists_witness:
  "\<exists>r r'. inbox_read sample_db ''ops'' ''a|1'' = Some r \<and> handled_at r = Some ''t2''
     \<and> inbox_read (run inbox_step sample_db
          [StoreMsg ''ops'' sample_env None ''again'' ''t3'', AckMsg ''ops'' ''a|1'' ''t4'']) ''ops'' ''a|1'' = Some r'
     \<and> row_later r r'"
proof -
  obtain r where "inbox_read sample_db ''ops'' ''a|1'' = Some r" "handled_at r = Some ''t2''"
    by (simp add: sample_db_def inbox_step_def inbox_store_db inbox_ack_db inbox_insert_def new_row_def
        sample_env_def row_id_def ack_row_def inbox_read_def)
  moreover from this(1) have "\<exists>r'. inbox_read (run inbox_step sample_db
      [StoreMsg ''ops'' sample_env None ''again'' ''t3'', AckMsg ''ops'' ''a|1'' ''t4'']) ''ops'' ''a|1'' = Some r'
      \<and> row_later r r'"
    by (intro stored_message_persists) (rule sample_db_def)
  ultimately show ?thesis by blast
qed

subsection \<open>Pagination\<close>

text \<open>Following \<open>nextCursor\<close> until it is null, with fuel.\<close>

fun inbox_pages ::
  "nat \<Rightarrow> (jsval \<Rightarrow> string) \<Rightarrow> (string \<Rightarrow> jsval option) \<Rightarrow> inbox \<Rightarrow> list_filters \<Rightarrow> string option
   \<Rightarrow> inbox_row list list option" where
  "inbox_pages 0 enc dec db f c = None"
| "inbox_pages (Suc n) enc dec db f c =
     (case inbox_list enc dec db f c of
        (page, None) \<Rightarrow> Some [page]
      | (page, Some c') \<Rightarrow> map_option (Cons page) (inbox_pages n enc dec db f (Some c')))"

lemma descending_drop:
  fixes key :: "'a \<Rightarrow> 'k :: linorder"
  assumes "sorted_wrt (\<lambda>a b. key b < key a) xs" "n < length xs"
  shows "filter (\<lambda>r. key r < key (xs ! n)) xs = drop (Suc n) xs"
  using assms
proof (induction xs arbitrary: n)
  case Nil
  then show ?case by simp
next
  case (Cons x xs)
  show ?case
  proof (cases n)
    case 0
    then show ?thesis using Cons.prems by (auto simp: filter_id_conv)
  next
    case (Suc m)
    then have "key (xs ! m) < key x" using Cons.prems by (auto simp: nth_mem)
    then have "\<not> key x < key (xs ! m)" by (rule less_not_sym)
    then show ?thesis using Cons Suc by auto
  qed
qed

lemma newest_first_filter: "newest_first (filter P db) = filter P (newest_first db)"
  by (simp add: newest_first_def filter_sort flip: rev_filter)

lemma newest_first_descending:
  assumes "inbox_wf db"
  shows "sorted_wrt (\<lambda>a b. row_key b < row_key a) (newest_first (filter (row_matches f) db))"
proof -
  let ?xs = "filter (row_matches f) db"
  have dist: "distinct (map row_id db)" using assms by (simp add: inbox_wf_def)
  have "inj_on row_key (set ?xs)"
  proof (rule inj_onI)
    fix a b assume ab: "a \<in> set ?xs" "b \<in> set ?xs" "row_key a = row_key b"
    then have "row_id a = row_id b" by (simp add: row_id_def row_key_def row_matches_def)
    moreover have "inj_on row_id (set db)" using dist by (simp add: distinct_map)
    ultimately show "a = b" using ab(1,2) by (simp add: inj_on_eq_iff)
  qed
  moreover have "distinct ?xs" using dist by (simp add: distinct_map)
  ultimately have "distinct (map row_key ?xs)" by (simp only: distinct_map simp_thms)
  then have "distinct (map row_key (sort_key row_key ?xs))"
    by (simp add: distinct_map)
  then have "sorted_wrt (<) (map row_key (sort_key row_key ?xs))"
    by (simp add: strict_sorted_iff)
  then show ?thesis
    by (simp add: newest_first_def sorted_wrt_rev sorted_wrt_map)
qed

lemma before_cursor_key: "before_cursor (Some k) r = (row_key r < k)"
  by (simp add: before_cursor_def less_cursor_key_def row_key_def)

lemma decode_encode:
  assumes "\<And>k. dec (enc (cursor_json k)) = Some (cursor_json k)" "\<And>v. enc v \<noteq> []"
  shows "decode_cursor dec (Some (encode_cursor enc r)) = Some (row_key r)"
  using assms by (simp add: decode_cursor_def encode_cursor_def) (simp add: cursor_json_def jget_def row_key_def)

text \<open>A cursor that stands after the first \<open>k\<close> of the matching rows.\<close>

definition cursor_at :: "(string \<Rightarrow> jsval option) \<Rightarrow> inbox_row list \<Rightarrow> nat \<Rightarrow> string option \<Rightarrow> bool" where
  "cursor_at dec xs k c \<longleftrightarrow>
     (k = 0 \<and> decode_cursor dec c = None \<or> 0 < k \<and> k \<le> length xs \<and> decode_cursor dec c = Some (row_key (xs ! (k - 1))))"

lemma inbox_list_page:
  assumes wf: "inbox_wf db" and c: "cursor_at dec xs k c" and xs: "xs = newest_first (filter (row_matches f) db)"
  shows "inbox_list enc dec db f c = (take (normalize_limit (f_limit f)) (drop k xs),
    if normalize_limit (f_limit f) < length (drop k xs)
    then Some (encode_cursor enc (xs ! (k + normalize_limit (f_limit f) - 1))) else None)"
proof -
  define l where "l = normalize_limit (f_limit f)"
  have l: "0 < l" by (simp add: l_def normalize_limit_def MAX_LIMIT_def split: option.splits)
  have "newest_first (filter (\<lambda>r. row_matches f r \<and> before_cursor (decode_cursor dec c) r) db)
      = filter (before_cursor (decode_cursor dec c)) xs"
    by (simp add: xs newest_first_filter conj_commute flip: filter_filter)
  also have "\<dots> = drop k xs"
  proof (cases "k = 0")
    case True
    then show ?thesis using c by (simp add: cursor_at_def before_cursor_def)
  next
    case False
    then have "k - 1 < length xs" "decode_cursor dec c = Some (row_key (xs ! (k - 1)))"
      using c by (auto simp: cursor_at_def)
    then show ?thesis
      using descending_drop [OF newest_first_descending [OF wf, of f], of "k - 1"] False
      by (simp add: before_cursor_key [abs_def] flip: xs)
  qed
  finally have rows: "newest_first (filter (\<lambda>r. row_matches f r \<and> before_cursor (decode_cursor dec c) r) db)
      = drop k xs" .
  have lst: "last (take l (drop k xs)) = xs ! (k + l - 1)" if "l < length (drop k xs)"
    using that l by (subst last_conv_nth) auto
  have tk: "take l (take (l + 1) (drop k xs)) = take l (drop k xs)"
    unfolding take_take by (simp only: min_absorb1 le_add1)
  have ln: "(length (take (l + 1) (drop k xs)) > l \<and> take l (drop k xs) \<noteq> []) = (l < length (drop k xs))"
    using l by auto
  show ?thesis
    unfolding inbox_list_def Let_def rows l_def [symmetric] tk ln
    by (cases "l < length (drop k xs)") (simp_all only: lst if_True if_False)
qed

lemma inbox_pages_from:
  assumes wf: "inbox_wf db" and codec: "\<And>k. dec (enc (cursor_json k)) = Some (cursor_json k)" "\<And>v. enc v \<noteq> []"
    and xs: "xs = newest_first (filter (row_matches f) db)"
  shows "cursor_at dec xs k c \<Longrightarrow> length xs - k < n \<Longrightarrow>
    \<exists>ps. inbox_pages n enc dec db f c = Some ps \<and> concat ps = drop k xs
      \<and> (\<forall>p \<in> set ps. length p \<le> normalize_limit (f_limit f))"
proof (induction n arbitrary: k c)
  case 0
  then show ?case by simp
next
  case (Suc n)
  define l where "l = normalize_limit (f_limit f)"
  have l: "0 < l" by (simp add: l_def normalize_limit_def MAX_LIMIT_def split: option.splits)
  note page = inbox_list_page [OF wf Suc.prems(1) xs, of enc, folded l_def]
  show ?case
  proof (cases "l < length (drop k xs)")
    case False
    then show ?thesis using page by (auto simp: l_def [symmetric])
  next
    case True
    let ?c = "Some (encode_cursor enc (xs ! (k + l - 1)))"
    have "cursor_at dec xs (k + l) ?c"
      using True l decode_encode [of dec enc, OF codec] by (simp add: cursor_at_def)
    moreover have "length xs - (k + l) < n" using Suc.prems(2) True l by simp
    ultimately obtain ps where ps: "inbox_pages n enc dec db f ?c = Some ps" "concat ps = drop (k + l) xs"
      "\<forall>p \<in> set ps. length p \<le> l"
      using Suc.IH l_def by blast
    moreover have "take l (drop k xs) @ drop (k + l) xs = drop k xs"
      using append_take_drop_id [of l "drop k xs"] by (simp add: add.commute)
    ultimately show ?thesis using page True by (auto simp: l_def [symmetric])
  qed
qed

text \<open>
  C20. Pagination is complete: reading page after page from the first one, following \<open>nextCursor\<close>
  until it is null, ends, and the pages together are every message that matches the filters,
  newest first, each exactly once; no page is longer than the clamped limit. The cursor codec is
  only assumed to read back what it wrote.
\<close>

theorem pagination_complete:
  assumes "db = run inbox_step [] ops"
    and "\<And>k. dec (enc (cursor_json k)) = Some (cursor_json k)" and "\<And>v. enc v \<noteq> []"
  shows "\<exists>ps. inbox_pages (Suc (length db)) enc dec db f None = Some ps
    \<and> concat ps = newest_first (filter (row_matches f) db) \<and> distinct (concat ps)
    \<and> (\<forall>p \<in> set ps. length p \<le> normalize_limit (f_limit f))"
proof -
  have wf: "inbox_wf db" unfolding assms(1) by (rule inbox_table.run_inv) simp
  have "length (newest_first (filter (row_matches f) db)) \<le> length db"
    by (simp add: newest_first_def)
  then have "length (newest_first (filter (row_matches f) db)) - 0 < Suc (length db)" by simp
  moreover have "cursor_at dec (newest_first (filter (row_matches f) db)) 0 None"
    by (simp add: cursor_at_def decode_cursor_def)
  ultimately obtain ps where "inbox_pages (Suc (length db)) enc dec db f None = Some ps"
    "concat ps = drop 0 (newest_first (filter (row_matches f) db))"
    "\<forall>p \<in> set ps. length p \<le> normalize_limit (f_limit f)"
    using inbox_pages_from [OF wf assms(2,3) refl] by blast
  moreover have "distinct (newest_first (filter (row_matches f) db))"
    using wf by (simp add: newest_first_def inbox_wf_def distinct_map)
  ultimately show ?thesis by simp
qed

text \<open>A concrete codec that reads back what it wrote: the length of the first part in unary.\<close>

definition unary_enc :: "jsval \<Rightarrow> string" where
  "unary_enc v = (let d = str_or_empty (jget v ''delivered_at''); i = str_or_empty (jget v ''env_id'')
     in replicate (length d) CHR ''a'' @ [CHR ''b''] @ d @ i)"

definition unary_dec :: "string \<Rightarrow> jsval option" where
  "unary_dec s = (let n = length (takeWhile ((=) CHR ''a'') s); r = drop (Suc n) s
     in Some (cursor_json (Cursor (take n r) (drop n r))))"

lemma unary_codec: "unary_dec (unary_enc (cursor_json k)) = Some (cursor_json k)" "unary_enc v \<noteq> []"
proof -
  have "takeWhile ((=) CHR ''a'') (replicate n CHR ''a'' @ CHR ''b'' # xs) = replicate n CHR ''a''" for n xs
    by (induction n) auto
  then show "unary_dec (unary_enc (cursor_json k)) = Some (cursor_json k)"
    by (cases k) (simp add: unary_dec_def unary_enc_def cursor_json_def jget_def Let_def)
qed (simp add: unary_enc_def Let_def)

theorem pagination_complete_witness:
  "\<exists>ps. inbox_pages (Suc (length sample_db)) unary_enc unary_dec sample_db
      \<lparr>f_recipient = ''ops'', f_handled = None, f_from = None, f_thread = None, f_since = None, f_limit = Some 1\<rparr>
      None = Some ps
    \<and> concat ps = newest_first (filter (row_matches
      \<lparr>f_recipient = ''ops'', f_handled = None, f_from = None, f_thread = None, f_since = None, f_limit = Some 1\<rparr>)
      sample_db) \<and> distinct (concat ps) \<and> (\<forall>p \<in> set ps. length p \<le> 1)"
proof -
  have "normalize_limit (Some 1) = 1" by (simp add: normalize_limit_def MAX_LIMIT_def)
  then show ?thesis
    using pagination_complete [OF sample_db_def, of unary_dec unary_enc
      "\<lparr>f_recipient = ''ops'', f_handled = None, f_from = None, f_thread = None, f_since = None, f_limit = Some 1\<rparr>"]
      unary_codec by simp
qed

end
