(* ===== verification/A2A_Receive.thy ===== *)
theory A2A_Receive
  imports Inbox_Store A2A_Rate
begin

text \<open>
  The receive path of \<open>A2AChannel\<close>, \<open>src/a2a-channel.ts\<close> lines 1475-1614: \<open>handleInbound\<close> with
  \<open>verifyInbound\<close>, \<open>getVerifyKey\<close> and its capped cache, \<open>persistDirectInboxBeforeInject\<close> and
  \<open>recordDedup\<close>.

  One call is one step: messages are handled one after the other, as each subscription loop does. The loops of different
  subscriptions interleave at the awaits: A2A_Concurrent has the same pipeline cut there, and shows that a handling which is not
  interrupted is \<open>handle_inbound\<close>. What the outside answers
  during a call is its \<open>delivery\<close>: the parsed payload, the Redis replies, the clock readings in
  the order of the code, the throttle, and whether the database write and the injection succeed.
  The cryptographic primitives, \<open>Date.parse\<close> and \<open>toISOString\<close> are the record \<open>platform\<close>.
\<close>

subsection \<open>State, configuration and environment\<close>

record counters =
  c_sent :: nat
  c_rejected :: nat
  c_denied :: nat
  c_dup :: nat
  c_expired :: nat
  c_mal :: nat
  c_self :: nat
  c_misroute :: nat
  c_badsig :: nat
  c_downgrade :: nat

definition zero_counters :: counters where
  "zero_counters = \<lparr>c_sent = 0, c_rejected = 0, c_denied = 0, c_dup = 0, c_expired = 0, c_mal = 0,
     c_self = 0, c_misroute = 0, c_badsig = 0, c_downgrade = 0\<rparr>"

record chan_cfg =
  agentId :: string
  sigAlg :: sig_alg
  signingOff :: bool
  chanPrefix :: string
  keyCacheTtlS :: rat
  maxSendBytes :: nat
  ratePerMin :: rat
  ratePerPeerPerMin :: rat
  dedupLru :: nat
  pubkeyKeyPrefix :: string
  secretKeyPrefix :: string

record 'k platform =
  cryp :: "'k crypto"
  import_pub :: "byte list \<Rightarrow> 'k option"
  secret_key :: "string \<Rightarrow> 'k"
  date_val :: "string \<Rightarrow> rat option"
  iso :: "rat \<Rightarrow> string"

datatype redis_reply = RErr | RNil | RVal string

record delivery =
  d_json :: "jsval option"
  d_raw :: string
  d_subject :: string
  d_kind :: a2a_kind
  d_redis :: "nat \<Rightarrow> string \<Rightarrow> redis_reply"
  d_clock :: "nat \<Rightarrow> rat"
  d_gate :: bool
  d_db_ok :: bool
  d_inject_ok :: bool

record 'k chan =
  counts :: counters
  keyCache :: "(string \<times> ('k \<times> rat)) list"
  dedup :: "string set"
  dedupOrder :: "string list"
  inboxDb :: inbox
  injected :: "(a2a_kind \<times> string \<times> envelope) list"
  throttled :: nat

definition chan_new :: "'k chan" where
  "chan_new = \<lparr>counts = zero_counters, keyCache = [], dedup = {}, dedupOrder = [], inboxDb = [],
     injected = [], throttled = 0\<rparr>"

subsection \<open>Verification keys\<close>

definition key_of_reply :: "'k platform \<Rightarrow> sig_alg \<Rightarrow> redis_reply \<Rightarrow> 'k option" where
  "key_of_reply pf alg r =
     (case r of
        RErr \<Rightarrow> None
      | RNil \<Rightarrow> None
      | RVal s \<Rightarrow>
          (if s = [] then None
           else (case alg of
                   Ed25519 \<Rightarrow> (let raw = from_b64 (cryp pf) (js_trim s) in
                      case import_ed25519 ''public key'' raw of Inl _ \<Rightarrow> None | Inr raw' \<Rightarrow> import_pub pf raw')
                 | Hmac \<Rightarrow> Some (secret_key pf s))))"

definition key_name :: "chan_cfg \<Rightarrow> string \<Rightarrow> string" where
  "key_name cfg sender = (case sigAlg cfg of Ed25519 \<Rightarrow> pubkeyKeyPrefix cfg @ sender | Hmac \<Rightarrow> secretKeyPrefix cfg @ sender)"

definition cache_key :: "chan_cfg \<Rightarrow> string \<Rightarrow> string" where
  "cache_key cfg sender = alg_str (sigAlg cfg) @ '':'' @ sender"

text \<open>\<open>n\<close> counts the calls within one \<open>verifyInbound\<close>: it selects the Redis reply and the clock readings.\<close>

definition get_verify_key ::
  "'k platform \<Rightarrow> chan_cfg \<Rightarrow> delivery \<Rightarrow> nat \<Rightarrow> string \<Rightarrow> bool \<Rightarrow> 'k chan \<Rightarrow> 'k option \<times> 'k chan" where
  "get_verify_key pf cfg d n sender bypass s =
     (let ck = cache_key cfg sender; cached = map_of (keyCache s) ck in
      if \<not> bypass \<and> (case cached of None \<Rightarrow> False | Some (k, e) \<Rightarrow> e > d_clock d (2 * n))
      then (map_option fst cached, s)
      else
        (case key_of_reply pf (sigAlg cfg) (d_redis d n (key_name cfg sender)) of
           None \<Rightarrow> (None, s)
         | Some k \<Rightarrow>
             (Some k, s\<lparr>keyCache := tracked_put ck (k, d_clock d (2 * n + 1) + keyCacheTtlS cfg * 1000) (keyCache s)\<rparr>)))"

datatype verify_result = VOk | VDowngrade | VBad

definition key_accepts :: "'k platform \<Rightarrow> chan_cfg \<Rightarrow> envelope \<Rightarrow> 'k option \<Rightarrow> bool" where
  "key_accepts pf cfg env ko =
     (case ko of None \<Rightarrow> False | Some k \<Rightarrow> verify_envelope (cryp pf) env k (sigAlg cfg))"

definition verify_inbound ::
  "'k platform \<Rightarrow> chan_cfg \<Rightarrow> delivery \<Rightarrow> envelope \<Rightarrow> 'k chan \<Rightarrow> verify_result \<times> 'k chan" where
  "verify_inbound pf cfg d env s =
     (if e_alg env \<noteq> Some (alg_str (sigAlg cfg)) then (VDowngrade, s)
      else if e_sig env = None \<or> e_sig env = Some [] then (VBad, s)
      else
        (let (k1, s1) = get_verify_key pf cfg d 0 (e_from env) False s in
         if key_accepts pf cfg env k1 then (VOk, s1)
         else
           (let (k2, s2) = get_verify_key pf cfg d 1 (e_from env) True s1 in
            if key_accepts pf cfg env k2 then (VOk, s2)
            else (VBad, s2))))"

subsection \<open>Deduplication and persistence\<close>

fun trim_dedup :: "nat \<Rightarrow> string list \<Rightarrow> string set \<Rightarrow> string list \<times> string set" where
  "trim_dedup lru [] ids = ([], ids)"
| "trim_dedup lru (x # xs) ids =
     (if length (x # xs) > lru then trim_dedup lru xs (ids - {x}) else (x # xs, ids))"

definition record_dedup :: "chan_cfg \<Rightarrow> string \<Rightarrow> 'k chan \<Rightarrow> 'k chan" where
  "record_dedup cfg i s =
     (if i \<in> dedup s then s
      else (let (order', ids) = trim_dedup (dedupLru cfg) (dedupOrder s @ [i]) (insert i (dedup s))
            in s\<lparr>dedup := ids, dedupOrder := order'\<rparr>))"

text \<open>\<open>None\<close> is the exception: a failing database, or the row not readable after the insert.\<close>

definition persist_direct ::
  "'k platform \<Rightarrow> chan_cfg \<Rightarrow> delivery \<Rightarrow> envelope \<Rightarrow> 'k chan \<Rightarrow> bool \<times> 'k chan" where
  "persist_direct pf cfg d env s =
     (if \<not> d_db_ok d then (False, s)
      else
        (let (r, db') = inbox_store (inboxDb s) (agentId cfg) env (Some (d_subject d)) (d_raw d)
                          (iso pf (d_clock d 5)) in
         (case r of
            Inl _ \<Rightarrow> (False, s\<lparr>inboxDb := db'\<rparr>)
          | Inr (_, m) \<Rightarrow>
              (case inbox_read db' (agentId cfg) (e_id env) of
                 None \<Rightarrow> (False, s\<lparr>inboxDb := db'\<rparr>)
               | Some visible \<Rightarrow> (env_id visible = env_id m, s\<lparr>inboxDb := db'\<rparr>)))))"

subsection \<open>The pipeline\<close>

definition count_mal where "count_mal s = s\<lparr>counts := (counts s)\<lparr>c_mal := Suc (c_mal (counts s))\<rparr>\<rparr>"
definition count_downgrade where
  "count_downgrade s = s\<lparr>counts := (counts s)\<lparr>c_downgrade := Suc (c_downgrade (counts s))\<rparr>\<rparr>"
definition count_badsig where "count_badsig s = s\<lparr>counts := (counts s)\<lparr>c_badsig := Suc (c_badsig (counts s))\<rparr>\<rparr>"
definition count_dup where "count_dup s = s\<lparr>counts := (counts s)\<lparr>c_dup := Suc (c_dup (counts s))\<rparr>\<rparr>"
definition count_expired where
  "count_expired s = s\<lparr>counts := (counts s)\<lparr>c_expired := Suc (c_expired (counts s))\<rparr>\<rparr>"
definition count_self where "count_self s = s\<lparr>counts := (counts s)\<lparr>c_self := Suc (c_self (counts s))\<rparr>\<rparr>"
definition count_misroute where
  "count_misroute s = s\<lparr>counts := (counts s)\<lparr>c_misroute := Suc (c_misroute (counts s))\<rparr>\<rparr>"

definition expired :: "'k platform \<Rightarrow> delivery \<Rightarrow> envelope \<Rightarrow> bool" where
  "expired pf d env =
     (case (e_ttl env, date_val pf (e_ts env)) of
        (Some ttl, Some ts) \<Rightarrow> ts + of_int ttl < d_clock d 4
      | _ \<Rightarrow> False)"

definition route_ok :: "chan_cfg \<Rightarrow> delivery \<Rightarrow> envelope \<Rightarrow> bool" where
  "route_ok cfg d env =
     (case d_kind d of
        Direct \<Rightarrow> e_to env = agentId cfg
      | Topic \<Rightarrow>
          (let tprefix = chanPrefix cfg @ ''topic.'';
               topic = (if starts_with tprefix (d_subject d) then drop (length tprefix) (d_subject d) else [])
           in e_to env = ''topic:'' @ topic))"

text \<open>Steps 2 to 7, from a structurally valid envelope.\<close>

definition deliver_valid ::
  "'k platform \<Rightarrow> chan_cfg \<Rightarrow> delivery \<Rightarrow> envelope \<Rightarrow> 'k chan \<Rightarrow> bool \<times> 'k chan" where
  "deliver_valid pf cfg d env s0 =
     (let (vr, s) = (if signingOff cfg then (VOk, s0) else verify_inbound pf cfg d env s0) in
      if vr = VDowngrade then (True, count_downgrade s)
      else if vr \<noteq> VOk then (True, count_badsig s)
      else if e_id env \<in> dedup s then (True, count_dup s)
      else if expired pf d env then (True, count_expired s)
      else if e_from env = agentId cfg then
        (if d_kind d = Topic then (True, count_self s) else (True, count_mal s))
      else if \<not> route_ok cfg d env then (True, count_misroute s)
      else if d_kind d = Direct \<and> \<not> d_gate d then (True, s\<lparr>throttled := Suc (throttled s)\<rparr>)
      else
        (let (stored, s1) = (if d_kind d = Direct then persist_direct pf cfg d env s else (True, s)) in
         if \<not> stored then (False, s1)
         else if \<not> d_inject_ok d then (False, s1)
         else (True, record_dedup cfg (e_id env)
                 (s1\<lparr>injected := injected s1 @ [(d_kind d, d_subject d, env)]\<rparr>))))"

definition handle_inbound :: "'k platform \<Rightarrow> chan_cfg \<Rightarrow> delivery \<Rightarrow> 'k chan \<Rightarrow> bool \<times> 'k chan" where
  "handle_inbound pf cfg d s =
     (case d_json d of
        None \<Rightarrow> (True, count_mal s)
      | Some v \<Rightarrow>
          (if \<not> is_valid_inbound (\<lambda>x. date_val pf x \<noteq> None) v then (True, count_mal s)
           else deliver_valid pf cfg d (as_envelope v) s))"

definition chan_step :: "'k platform \<Rightarrow> chan_cfg \<Rightarrow> 'k chan \<Rightarrow> delivery \<Rightarrow> 'k chan" where
  "chan_step pf cfg s d = snd (handle_inbound pf cfg d s)"

text \<open>What the model is handed: the tag that accompanies an injected body.\<close>

definition injected_tag :: "a2a_kind \<times> string \<times> envelope \<Rightarrow> string \<times> (string \<times> string) list" where
  "injected_tag x = (case x of (k, subj, env) \<Rightarrow> (e_body env, build_a2a_attrs env subj k))"

subsection \<open>Lemmas: keys and verification\<close>

definition registered :: "'k platform \<Rightarrow> chan_cfg \<Rightarrow> delivery list \<Rightarrow> string \<Rightarrow> 'k \<Rightarrow> bool" where
  "registered pf cfg ds sender k \<longleftrightarrow>
     (\<exists>d \<in> set ds. \<exists>n. key_of_reply pf (sigAlg cfg) (d_redis d n (key_name cfg sender)) = Some k)"

definition cache_ok :: "'k platform \<Rightarrow> chan_cfg \<Rightarrow> delivery list \<Rightarrow> 'k chan \<Rightarrow> bool" where
  "cache_ok pf cfg ds s \<longleftrightarrow> (\<forall>sender k e. (cache_key cfg sender, (k, e)) \<in> set (keyCache s) \<longrightarrow> registered pf cfg ds sender k)"

lemma registered_mono: "registered pf cfg ds sender k \<Longrightarrow> registered pf cfg (ds @ ds') sender k"
  by (auto simp: registered_def)

lemma cache_ok_mono: "cache_ok pf cfg ds s \<Longrightarrow> cache_ok pf cfg (ds @ ds') s"
  unfolding cache_ok_def by (auto intro: registered_mono)

lemma cache_key_inject [simp]: "cache_key cfg a = cache_key cfg b \<longleftrightarrow> a = b"
  by (simp add: cache_key_def)

lemma set_evict: "set (evict_oldest cap m) \<subseteq> set m"
  by (cases m) (auto simp: evict_oldest_def)

lemma set_update_subset: "set (AList.update k v m) \<subseteq> insert (k, v) (set m)"
  by (induction m) auto

lemma set_tracked_put: "set (tracked_put k v m) \<subseteq> insert (k, v) (set m)"
  unfolding tracked_put_def
  by (rule subset_trans [OF set_update_subset]) (intro insert_mono set_evict)

lemma get_verify_key_spec:
  assumes "cache_ok pf cfg ds s" "d \<in> set ds" "get_verify_key pf cfg d n sender bypass s = (ko, s')"
  shows "cache_ok pf cfg ds s' \<and> (\<forall>k. ko = Some k \<longrightarrow> registered pf cfg ds sender k)
    \<and> (\<exists>kc. s' = s\<lparr>keyCache := kc\<rparr>)"
proof (cases "\<not> bypass \<and> (case map_of (keyCache s) (cache_key cfg sender) of None \<Rightarrow> False
    | Some (k, e) \<Rightarrow> e > d_clock d (2 * n))")
  case True
  then obtain k e where ke: "map_of (keyCache s) (cache_key cfg sender) = Some (k, e)"
    by (auto split: option.splits)
  then have "ko = Some k" "s' = s" using assms(3) True by (auto simp: get_verify_key_def Let_def)
  moreover have "registered pf cfg ds sender k"
    using assms(1) map_of_SomeD [OF ke] by (auto simp: cache_ok_def)
  moreover have "s = s\<lparr>keyCache := keyCache s\<rparr>" by simp
  ultimately show ?thesis using assms(1) by (metis option.inject)
next
  case False
  show ?thesis
  proof (cases "key_of_reply pf (sigAlg cfg) (d_redis d n (key_name cfg sender))")
    case None
    then have "ko = None" "s' = s" using assms(3) False by (auto simp: get_verify_key_def Let_def)
    moreover have "s = s\<lparr>keyCache := keyCache s\<rparr>" by simp
    ultimately show ?thesis using assms(1) by (metis option.distinct(1))
  next
    case (Some k)
    then have reg: "registered pf cfg ds sender k" using assms(2) by (auto simp: registered_def)
    let ?e = "d_clock d (2 * n + 1) + keyCacheTtlS cfg * 1000"
    have s': "ko = Some k" "s' = s\<lparr>keyCache := tracked_put (cache_key cfg sender) (k, ?e) (keyCache s)\<rparr>"
      using assms(3) False Some by (auto simp: get_verify_key_def Let_def)
    have "cache_ok pf cfg ds s'"
      using assms(1) reg set_tracked_put [of "cache_key cfg sender" "(k, ?e)" "keyCache s"]
      unfolding cache_ok_def s'(2) by fastforce
    then show ?thesis using s' reg by blast
  qed
qed

lemma verify_inbound_spec:
  assumes "cache_ok pf cfg ds s" "d \<in> set ds" "verify_inbound pf cfg d env s = (vr, s')"
  shows "cache_ok pf cfg ds s' \<and> (\<exists>kc. s' = s\<lparr>keyCache := kc\<rparr>)
    \<and> (vr = VOk \<longrightarrow> (\<exists>k. registered pf cfg ds (e_from env) k \<and> verify_envelope (cryp pf) env k (sigAlg cfg)))"
proof (cases "e_alg env \<noteq> Some (alg_str (sigAlg cfg)) \<or> e_sig env = None \<or> e_sig env = Some []")
  case True
  then have "s' = s" "vr \<noteq> VOk" using assms(3) by (auto simp: verify_inbound_def split: if_splits)
  moreover have "s = s\<lparr>keyCache := keyCache s\<rparr>" by simp
  ultimately show ?thesis using assms(1) by metis
next
  case False
  obtain k1 s1 where k1: "get_verify_key pf cfg d 0 (e_from env) False s = (k1, s1)" by fastforce
  obtain k2 s2 where k2: "get_verify_key pf cfg d 1 (e_from env) True s1 = (k2, s2)" by fastforce
  note g1 = get_verify_key_spec [OF assms(1,2) k1]
  then have "cache_ok pf cfg ds s1" by blast
  note g2 = get_verify_key_spec [OF this assms(2) k2]
  have kc: "\<exists>kc. s1 = s\<lparr>keyCache := kc\<rparr>" "\<exists>kc. s2 = s\<lparr>keyCache := kc\<rparr>"
    using g1 g2 by (blast, force)
  have "verify_inbound pf cfg d env s =
      (if key_accepts pf cfg env k1 then (VOk, s1) else if key_accepts pf cfg env k2 then (VOk, s2) else (VBad, s2))"
    using False by (auto simp: verify_inbound_def k1 k2 simp del: One_nat_def)
  then show ?thesis
    using assms(3) g1 g2 kc by (auto simp: key_accepts_def split: if_splits option.splits)
qed

subsection \<open>Lemmas: deduplication\<close>

lemma trim_dedup_eq:
  "trim_dedup lru xs ids = (drop (length xs - lru) xs, ids - set (take (length xs - lru) xs))"
proof (induction lru xs ids rule: trim_dedup.induct)
  case (1 lru ids)
  then show ?case by simp
next
  case (2 lru x xs ids)
  show ?case
  proof (cases "length (x # xs) > lru")
    case True
    then have "length (x # xs) - lru = Suc (length xs - lru)" by simp
    then show ?thesis using True 2 by (simp add: set_diff_eq)
  qed simp
qed

definition injected_ids :: "'k chan \<Rightarrow> string list" where
  "injected_ids s = map (\<lambda>(k, subj, env). e_id env) (injected s)"

definition spaced :: "nat \<Rightarrow> 'a list \<Rightarrow> bool" where
  "spaced n xs \<longleftrightarrow> (\<forall>i j. i < j \<and> j < length xs \<and> j - i \<le> n \<longrightarrow> xs ! i \<noteq> xs ! j)"

lemma spaced_snoc:
  assumes "spaced n xs" "x \<notin> set (drop (length xs - n) xs)"
  shows "spaced n (xs @ [x])"
  unfolding spaced_def
proof (intro allI impI)
  fix i j assume ij: "i < j \<and> j < length (xs @ [x]) \<and> j - i \<le> n"
  show "(xs @ [x]) ! i \<noteq> (xs @ [x]) ! j"
  proof (cases "j < length xs")
    case True
    then show ?thesis using assms(1) ij by (simp add: spaced_def nth_append)
  next
    case False
    then have j: "j = length xs" "i < length xs" "length xs - n \<le> i" using ij by auto
    then have "xs ! i = drop (length xs - n) xs ! (i - (length xs - n))" by simp
    also have "\<dots> \<in> set (drop (length xs - n) xs)" using j by (intro nth_mem) simp
    finally show ?thesis using j assms(2) by (auto simp: nth_append)
  qed
qed

definition dedup_ok :: "chan_cfg \<Rightarrow> 'k chan \<Rightarrow> bool" where
  "dedup_ok cfg s \<longleftrightarrow> dedup s = set (dedupOrder s) \<and> distinct (dedupOrder s)
     \<and> dedupOrder s = drop (length (injected_ids s) - dedupLru cfg) (injected_ids s)
     \<and> spaced (dedupLru cfg) (injected_ids s)"

lemma record_dedup_ok:
  assumes ok: "dedup_ok cfg s" and new: "e_id env \<notin> dedup s"
    and s1: "dedup s1 = dedup s" "dedupOrder s1 = dedupOrder s" "injected s1 = injected s @ [(k, subj, env)]"
  shows "dedup_ok cfg (record_dedup cfg (e_id env) s1)"
proof -
  define n where "n = length (injected_ids s) - dedupLru cfg"
  define ids where "ids = injected_ids s"
  define ord where "ord = dedupOrder s @ [e_id env]"
  define m where "m = length ord - dedupLru cfg"
  have ord: "dedupOrder s = drop n ids" "distinct ord" "dedup s = set (dedupOrder s)"
    using ok new by (auto simp: dedup_ok_def n_def ids_def ord_def)
  have s': "record_dedup cfg (e_id env) s1 = s1\<lparr>dedup := insert (e_id env) (dedup s) - set (take m ord),
      dedupOrder := drop m ord\<rparr>"
    using new s1 by (simp add: record_dedup_def trim_dedup_eq ord_def m_def)
  have ids': "injected_ids (record_dedup cfg (e_id env) s1) = ids @ [e_id env]"
    unfolding s' by (simp add: injected_ids_def s1(3) ids_def)
  have S1: "insert (e_id env) (dedup s) - set (take m ord) = set (drop m ord)"
  proof -
    have "insert (e_id env) (dedup s) = set (take m ord) \<union> set (drop m ord)"
      by (simp add: ord(3) flip: set_append) (simp add: ord_def)
    moreover have "set (take m ord) \<inter> set (drop m ord) = {}"
      using ord(2) by (metis append_take_drop_id distinct_append)
    ultimately show ?thesis by blast
  qed
  have S2: "drop m ord = drop (length (ids @ [e_id env]) - dedupLru cfg) (ids @ [e_id env])"
  proof -
    have A: "ord = drop n (ids @ [e_id env])"
      by (simp add: ord_def ord(1) n_def ids_def)
    have B: "m + n = length (ids @ [e_id env]) - dedupLru cfg"
      unfolding m_def ord_def ord(1) by (auto simp: n_def ids_def)
    show ?thesis by (simp only: A drop_drop B)
  qed
  have S3: "spaced (dedupLru cfg) (ids @ [e_id env])"
    using ok new ord(1,3) by (intro spaced_snoc) (auto simp: dedup_ok_def ids_def n_def)
  have S4: "distinct (drop m ord)" using ord(2) by simp
  have flds: "dedup (record_dedup cfg (e_id env) s1) = set (drop m ord)"
    "dedupOrder (record_dedup cfg (e_id env) s1) = drop m ord"
    by (simp_all add: s' S1)
  show ?thesis
    unfolding dedup_ok_def ids' flds using S2 S3 S4 by blast
qed

subsection \<open>Lemmas: one delivery\<close>

lemma count_fields [simp]:
  "keyCache (count_mal s) = keyCache s" "dedup (count_mal s) = dedup s" "dedupOrder (count_mal s) = dedupOrder s"
  "inboxDb (count_mal s) = inboxDb s" "injected (count_mal s) = injected s" "throttled (count_mal s) = throttled s"
  "keyCache (count_downgrade s) = keyCache s" "dedup (count_downgrade s) = dedup s"
  "dedupOrder (count_downgrade s) = dedupOrder s" "inboxDb (count_downgrade s) = inboxDb s"
  "injected (count_downgrade s) = injected s" "throttled (count_downgrade s) = throttled s"
  "keyCache (count_badsig s) = keyCache s" "dedup (count_badsig s) = dedup s" "dedupOrder (count_badsig s) = dedupOrder s"
  "inboxDb (count_badsig s) = inboxDb s" "injected (count_badsig s) = injected s" "throttled (count_badsig s) = throttled s"
  "keyCache (count_dup s) = keyCache s" "dedup (count_dup s) = dedup s" "dedupOrder (count_dup s) = dedupOrder s"
  "inboxDb (count_dup s) = inboxDb s" "injected (count_dup s) = injected s" "throttled (count_dup s) = throttled s"
  "keyCache (count_expired s) = keyCache s" "dedup (count_expired s) = dedup s" "dedupOrder (count_expired s) = dedupOrder s"
  "inboxDb (count_expired s) = inboxDb s" "injected (count_expired s) = injected s" "throttled (count_expired s) = throttled s"
  "keyCache (count_self s) = keyCache s" "dedup (count_self s) = dedup s" "dedupOrder (count_self s) = dedupOrder s"
  "inboxDb (count_self s) = inboxDb s" "injected (count_self s) = injected s" "throttled (count_self s) = throttled s"
  "keyCache (count_misroute s) = keyCache s" "dedup (count_misroute s) = dedup s" "dedupOrder (count_misroute s) = dedupOrder s"
  "inboxDb (count_misroute s) = inboxDb s" "injected (count_misroute s) = injected s" "throttled (count_misroute s) = throttled s"
  by (simp_all add: count_mal_def count_downgrade_def count_badsig_def count_dup_def count_expired_def
      count_self_def count_misroute_def)

text \<open>A delivery either injects its envelope or leaves the history and the dedup window alone.\<close>

definition quiet :: "'k chan \<Rightarrow> 'k chan \<Rightarrow> bool" where
  "quiet s s' \<longleftrightarrow> injected s' = injected s \<and> dedup s' = dedup s \<and> dedupOrder s' = dedupOrder s"

definition db_grows :: "inbox \<Rightarrow> inbox \<Rightarrow> bool" where
  "db_grows a b \<longleftrightarrow> (inbox_wf a \<longrightarrow> inbox_wf b) \<and> row_id ` set a \<subseteq> row_id ` set b"

lemma db_grows_refl [simp]: "db_grows a a"
  by (simp add: db_grows_def)

lemma persist_direct_spec:
  assumes "persist_direct pf cfg d env s = (ok, s')"
  shows "(\<exists>db. s' = s\<lparr>inboxDb := db\<rparr>) \<and> db_grows (inboxDb s) (inboxDb s')
    \<and> (ok \<longrightarrow> (agentId cfg, e_id env) \<in> row_id ` set (inboxDb s'))"
proof (cases "d_db_ok d")
  case False
  then have "s' = s" "\<not> ok" using assms by (simp_all add: persist_direct_def)
  moreover have "s = s\<lparr>inboxDb := inboxDb s\<rparr>" by simp
  ultimately show ?thesis by (metis db_grows_refl)
next
  case True
  let ?r = "new_row (agentId cfg) env (Some (d_subject d)) (d_raw d) (iso pf (d_clock d 5))"
  obtain res db' where st: "inbox_store (inboxDb s) (agentId cfg) env (Some (d_subject d)) (d_raw d)
      (iso pf (d_clock d 5)) = (res, db')" by fastforce
  then have "db' = inbox_insert (inboxDb s) ?r"
    using inbox_store_db [of "inboxDb s" "agentId cfg" env "Some (d_subject d)" "d_raw d" "iso pf (d_clock d 5)"]
    by simp
  then have db: "s' = s\<lparr>inboxDb := inbox_insert (inboxDb s) ?r\<rparr>"
    using assms True st by (auto simp: persist_direct_def split: sum.splits option.splits)
  have "row_id ?r = (agentId cfg, e_id env)" by (simp add: row_id_def new_row_def)
  then have "(agentId cfg, e_id env) \<in> row_id ` set (inboxDb s')"
    by (simp add: db inbox_insert_cases image_iff)
  moreover have "db_grows (inboxDb s) (inboxDb s')"
    using inbox_wf_insert [of "inboxDb s" ?r] by (auto simp: db db_grows_def inbox_insert_cases new_row_def)
  ultimately show ?thesis using db by blast
qed

lemma record_dedup_fields [simp]:
  "injected (record_dedup cfg i s) = injected s" "keyCache (record_dedup cfg i s) = keyCache s"
  "inboxDb (record_dedup cfg i s) = inboxDb s" "throttled (record_dedup cfg i s) = throttled s"
  "counts (record_dedup cfg i s) = counts s"
  by (simp_all add: record_dedup_def case_prod_unfold Let_def)

text \<open>Everything that must hold of an envelope for the pipeline to inject it.\<close>

definition injectable ::
  "'k platform \<Rightarrow> chan_cfg \<Rightarrow> delivery list \<Rightarrow> 'k chan \<Rightarrow> delivery \<Rightarrow> envelope \<Rightarrow> bool" where
  "injectable pf cfg ds s d env \<longleftrightarrow>
     (\<not> signingOff cfg \<longrightarrow> (\<exists>k. registered pf cfg ds (e_from env) k \<and> verify_envelope (cryp pf) env k (sigAlg cfg)))
     \<and> e_id env \<notin> dedup s \<and> \<not> expired pf d env \<and> e_from env \<noteq> agentId cfg \<and> route_ok cfg d env"

lemma deliver_valid_spec:
  assumes c: "cache_ok pf cfg ds s" "d \<in> set ds" and r: "deliver_valid pf cfg d env s = (ok, s')"
  shows "cache_ok pf cfg ds s' \<and> db_grows (inboxDb s) (inboxDb s') \<and>
    (quiet s s'
     \<or> ok \<and> injectable pf cfg ds s d env \<and> (d_kind d = Direct \<longrightarrow> (agentId cfg, e_id env) \<in> row_id ` set (inboxDb s'))
       \<and> (\<exists>s1. s' = record_dedup cfg (e_id env) s1 \<and> dedup s1 = dedup s \<and> dedupOrder s1 = dedupOrder s
            \<and> injected s1 = injected s @ [(d_kind d, d_subject d, env)]))"
proof -
  obtain vr s1 where v: "(if signingOff cfg then (VOk, s) else verify_inbound pf cfg d env s) = (vr, s1)"
    by fastforce
  have keep: "\<exists>kc. x = x\<lparr>keyCache := kc\<rparr>" "\<exists>db. x = x\<lparr>inboxDb := db\<rparr>" for x :: "'a chan"
    by (rule exI [of _ "keyCache x"], simp) (rule exI [of _ "inboxDb x"], simp)
  have s1: "cache_ok pf cfg ds s1" "\<exists>kc. s1 = s\<lparr>keyCache := kc\<rparr>"
    "vr = VOk \<longrightarrow> \<not> signingOff cfg \<longrightarrow> (\<exists>k. registered pf cfg ds (e_from env) k \<and> verify_envelope (cryp pf) env k (sigAlg cfg))"
  proof -
    show "cache_ok pf cfg ds s1" "\<exists>kc. s1 = s\<lparr>keyCache := kc\<rparr>"
      "vr = VOk \<longrightarrow> \<not> signingOff cfg \<longrightarrow> (\<exists>k. registered pf cfg ds (e_from env) k \<and> verify_envelope (cryp pf) env k (sigAlg cfg))"
      using v c(1) keep(1) [of s] verify_inbound_spec [OF c, of env vr s1] by (auto split: if_splits)
  qed
  then have same: "dedup s1 = dedup s" "dedupOrder s1 = dedupOrder s" "injected s1 = injected s" "inboxDb s1 = inboxDb s"
    by auto
  obtain st s2 where p: "(if d_kind d = Direct then persist_direct pf cfg d env s1 else (True, s1)) = (st, s2)"
    by fastforce
  have s2: "\<exists>db. s2 = s1\<lparr>inboxDb := db\<rparr>" "db_grows (inboxDb s1) (inboxDb s2)"
    "st \<longrightarrow> d_kind d = Direct \<longrightarrow> (agentId cfg, e_id env) \<in> row_id ` set (inboxDb s2)"
  proof -
    show "\<exists>db. s2 = s1\<lparr>inboxDb := db\<rparr>" "db_grows (inboxDb s1) (inboxDb s2)"
      "st \<longrightarrow> d_kind d = Direct \<longrightarrow> (agentId cfg, e_id env) \<in> row_id ` set (inboxDb s2)"
      using p keep(2) [of s1] persist_direct_spec [of pf cfg d env s1 st s2] by (auto split: if_splits)
  qed
  obtain db where db: "s2 = s1\<lparr>inboxDb := db\<rparr>" using s2(1) by blast
  have "cache_ok pf cfg ds s2" using s1(1) by (simp add: db cache_ok_def)
  then have same2: "dedup s2 = dedup s" "dedupOrder s2 = dedupOrder s" "injected s2 = injected s"
    "cache_ok pf cfg ds s2" "db_grows (inboxDb s) (inboxDb s2)"
    using s2(2) same by (simp_all add: db)
  have eq: "(ok, s') =
    (if vr = VDowngrade then (True, count_downgrade s1)
     else if vr \<noteq> VOk then (True, count_badsig s1)
     else if e_id env \<in> dedup s1 then (True, count_dup s1)
     else if expired pf d env then (True, count_expired s1)
     else if e_from env = agentId cfg then (if d_kind d = Topic then (True, count_self s1) else (True, count_mal s1))
     else if \<not> route_ok cfg d env then (True, count_misroute s1)
     else if d_kind d = Direct \<and> \<not> d_gate d then (True, s1\<lparr>throttled := Suc (throttled s1)\<rparr>)
     else if \<not> st then (False, s2)
     else if \<not> d_inject_ok d then (False, s2)
     else (True, record_dedup cfg (e_id env) (s2\<lparr>injected := injected s2 @ [(d_kind d, d_subject d, env)]\<rparr>)))"
    by (simp only: r [symmetric] deliver_valid_def v p Let_def prod.case)
  have quiet1: "quiet s s1" "quiet s s2" using same same2 by (simp_all add: quiet_def)
  have inj: "vr = VOk \<Longrightarrow> e_id env \<notin> dedup s1 \<Longrightarrow> \<not> expired pf d env \<Longrightarrow> e_from env \<noteq> agentId cfg \<Longrightarrow>
      route_ok cfg d env \<Longrightarrow> injectable pf cfg ds s d env"
    using s1(3) same(1) by (simp add: injectable_def)
  let ?s3 = "s2\<lparr>injected := injected s2 @ [(d_kind d, d_subject d, env)]\<rparr>"
  have s3: "cache_ok pf cfg ds (record_dedup cfg (e_id env) ?s3)" "db_grows (inboxDb s) (inboxDb ?s3)"
    "d_kind d = Direct \<longrightarrow> st \<longrightarrow> (agentId cfg, e_id env) \<in> row_id ` set (inboxDb ?s3)"
    "dedup ?s3 = dedup s" "dedupOrder ?s3 = dedupOrder s" "injected ?s3 = injected s @ [(d_kind d, d_subject d, env)]"
    using same2 s2(3) by (simp_all add: cache_ok_def)
  have counts_quiet: "quiet s (count_downgrade s1)" "quiet s (count_badsig s1)" "quiet s (count_dup s1)"
    "quiet s (count_expired s1)" "quiet s (count_self s1)" "quiet s (count_mal s1)" "quiet s (count_misroute s1)"
    "quiet s (s1\<lparr>throttled := Suc (throttled s1)\<rparr>)"
    using quiet1(1) by (simp_all add: quiet_def)
  have counts_cache: "cache_ok pf cfg ds (count_downgrade s1)" "cache_ok pf cfg ds (count_badsig s1)"
    "cache_ok pf cfg ds (count_dup s1)" "cache_ok pf cfg ds (count_expired s1)" "cache_ok pf cfg ds (count_self s1)"
    "cache_ok pf cfg ds (count_mal s1)" "cache_ok pf cfg ds (count_misroute s1)"
    "cache_ok pf cfg ds (s1\<lparr>throttled := Suc (throttled s1)\<rparr>)"
    using s1(1) by (simp_all add: cache_ok_def)
  show ?thesis
  proof (cases "ok \<and> (\<exists>s4. s' = record_dedup cfg (e_id env) s4 \<and> s4 = ?s3) \<and> st \<and> injectable pf cfg ds s d env")
    case True
    then show ?thesis using s3 by auto
  next
    case False
    then have "quiet s s' \<and> cache_ok pf cfg ds s' \<and> db_grows (inboxDb s) (inboxDb s')"
      using eq inj counts_quiet counts_cache quiet1(2) same(4) same2(4,5)
      by (simp split: if_split_asm)
    then show ?thesis by blast
  qed
qed

subsection \<open>Runs\<close>

definition trusted ::
  "'k platform \<Rightarrow> chan_cfg \<Rightarrow> delivery list \<Rightarrow> inbox \<Rightarrow> a2a_kind \<Rightarrow> string \<Rightarrow> envelope \<Rightarrow> bool" where
  "trusted pf cfg ds db kind subj env \<longleftrightarrow>
     (\<not> signingOff cfg \<longrightarrow> (\<exists>k. registered pf cfg ds (e_from env) k \<and> verify_envelope (cryp pf) env k (sigAlg cfg)))
     \<and> is_token (e_from env) \<and> e_from env \<noteq> agentId cfg
     \<and> (case kind of
          Direct \<Rightarrow> e_to env = agentId cfg \<and> (agentId cfg, e_id env) \<in> row_id ` set db
        | Topic \<Rightarrow> \<exists>t. is_token t \<and> e_to env = ''topic:'' @ t \<and> subj = topic_subject (chanPrefix cfg) t)"

definition chan_inv :: "'k platform \<Rightarrow> chan_cfg \<Rightarrow> delivery list \<Rightarrow> 'k chan \<Rightarrow> bool" where
  "chan_inv pf cfg ds s \<longleftrightarrow> cache_ok pf cfg ds s \<and> dedup_ok cfg s \<and> inbox_wf (inboxDb s)
     \<and> (\<forall>(kind, subj, env) \<in> set (injected s). trusted pf cfg ds (inboxDb s) kind subj env)"

lemma trusted_mono:
  assumes "trusted pf cfg ds db kind subj env" "db_grows db db'"
  shows "trusted pf cfg (ds @ ds') db' kind subj env"
  using assms by (cases kind) (auto simp: trusted_def db_grows_def intro: registered_mono)

lemma valid_inbound_tokens:
  assumes "is_valid_inbound date_ok v"
  shows "is_token (e_from (as_envelope v))" "recipient_ok (e_to (as_envelope v))"
  using assms unfolding is_valid_inbound_def if_False_conj as_envelope_def by simp_all

lemma route_ok_topic:
  assumes "route_ok cfg d env" "d_kind d = Topic" "recipient_ok (e_to env)"
  shows "\<exists>t. is_token t \<and> e_to env = ''topic:'' @ t \<and> d_subject d = topic_subject (chanPrefix cfg) t"
proof -
  let ?p = "chanPrefix cfg @ ''topic.''"
  define t where "t = (if starts_with ?p (d_subject d) then drop (length ?p) (d_subject d) else [])"
  have to: "e_to env = ''topic:'' @ t"
    using assms(1,2) by (simp add: route_ok_def Let_def t_def)
  have "starts_with ''topic:'' (''topic:'' @ t)" by (rule starts_with_append)
  then have tok: "is_token t"
    using assms(3) is_token_no_colon [of "''topic:'' @ t"] by (auto simp: recipient_ok_def to)
  then have "starts_with ?p (d_subject d)"
    using is_token_nonempty [OF tok] by (auto simp: t_def split: if_splits)
  then have "d_subject d = ?p @ t"
    using starts_with_drop [of ?p "d_subject d"] by (simp add: t_def)
  then show ?thesis using tok to by (simp add: topic_subject_def)
qed

lemma chan_inv_step:
  assumes "chan_inv pf cfg ds s"
  shows "chan_inv pf cfg (ds @ [d]) (chan_step pf cfg s d)"
proof -
  have base: "chan_inv pf cfg (ds @ [d]) s"
    using assms trusted_mono [OF _ db_grows_refl] cache_ok_mono unfolding chan_inv_def by fastforce
  have mal: "chan_inv pf cfg (ds @ [d]) (count_mal s)"
    using base unfolding chan_inv_def cache_ok_def dedup_ok_def injected_ids_def count_fields .
  show ?thesis
  proof (cases "\<exists>v. d_json d = Some v \<and> is_valid_inbound (\<lambda>x. date_val pf x \<noteq> None) v")
    case False
    then show ?thesis using mal by (auto simp: chan_step_def handle_inbound_def split: option.splits)
  next
    case True
    then obtain v where v: "d_json d = Some v" "is_valid_inbound (\<lambda>x. date_val pf x \<noteq> None) v" by blast
    let ?env = "as_envelope v"
    obtain ok s' where r: "deliver_valid pf cfg d ?env s = (ok, s')" by fastforce
    have step: "chan_step pf cfg s d = s'"
      using v r by (simp add: chan_step_def handle_inbound_def)
    have ca: "cache_ok pf cfg (ds @ [d]) s" "d \<in> set (ds @ [d])" using base by (simp_all add: chan_inv_def)
    note sp = deliver_valid_spec [OF ca r]
    have old: "\<forall>(kind, subj, env) \<in> set (injected s). trusted pf cfg (ds @ [d]) (inboxDb s') kind subj env"
      using assms sp trusted_mono unfolding chan_inv_def by fastforce
    have wf: "inbox_wf (inboxDb s')" using sp base by (auto simp: db_grows_def chan_inv_def)
    show ?thesis
    proof (cases "quiet s s'")
      case True
      then have "injected s' = injected s" "dedup_ok cfg s'"
        using base by (auto simp: quiet_def chan_inv_def dedup_ok_def injected_ids_def)
      then show ?thesis unfolding step chan_inv_def using sp old wf by simp
    next
      case False
      then obtain s1 where new: "injectable pf cfg (ds @ [d]) s d ?env"
        "d_kind d = Direct \<longrightarrow> (agentId cfg, e_id ?env) \<in> row_id ` set (inboxDb s')"
        "s' = record_dedup cfg (e_id ?env) s1" "dedup s1 = dedup s" "dedupOrder s1 = dedupOrder s"
        "injected s1 = injected s @ [(d_kind d, d_subject d, ?env)]"
        using sp by blast
      have "trusted pf cfg (ds @ [d]) (inboxDb s') (d_kind d) (d_subject d) ?env"
        using new(1,2) valid_inbound_tokens [OF v(2)] route_ok_topic [of cfg d ?env]
        by (cases "d_kind d") (auto simp: trusted_def injectable_def route_ok_def)
      moreover have "dedup_ok cfg s'"
        unfolding new(3) using base new(1)
        by (intro record_dedup_ok [OF _ _ new(4-6)]) (auto simp: chan_inv_def injectable_def)
      ultimately show ?thesis
        unfolding step chan_inv_def using sp old wf new(3,6) by simp
    qed
  qed
qed

lemma chan_inv_run: "chan_inv pf cfg ds (run (chan_step pf cfg) chan_new ds)"
proof (induction ds rule: rev_induct)
  case Nil
  then show ?case
    by (simp add: chan_inv_def chan_new_def cache_ok_def dedup_ok_def injected_ids_def spaced_def inbox_wf_def)
next
  case (snoc d ds)
  then show ?case using chan_inv_step [OF snoc] by (simp add: run_append)
qed

text \<open>
  Authenticity of everything injected: with signing on, after any sequence of deliveries,
  whatever the network carries and Redis answers, each message injected into the agent verifies,
  under the receiver's algorithm, with a key Redis returned for its sender; it does not come from
  the agent itself; a direct message is addressed to this agent and is in the durable inbox; a
  broadcast is addressed to the very topic it arrived on.
\<close>

theorem injected_messages_authentic:
  assumes "\<not> signingOff cfg" and "(kind, subj, env) \<in> set (injected (run (chan_step pf cfg) chan_new ds))"
  shows "(\<exists>k. registered pf cfg ds (e_from env) k \<and> verify_envelope (cryp pf) env k (sigAlg cfg))
    \<and> e_from env \<noteq> agentId cfg
    \<and> (case kind of
         Direct \<Rightarrow> e_to env = agentId cfg
           \<and> inbox_read (inboxDb (run (chan_step pf cfg) chan_new ds)) (agentId cfg) (e_id env) \<noteq> None
       | Topic \<Rightarrow> \<exists>t. is_token t \<and> e_to env = ''topic:'' @ t \<and> subj = topic_subject (chanPrefix cfg) t)"
proof -
  let ?s = "run (chan_step pf cfg) chan_new ds"
  have inv: "chan_inv pf cfg ds ?s" by (rule chan_inv_run)
  then have tr: "trusted pf cfg ds (inboxDb ?s) kind subj env" and wf: "inbox_wf (inboxDb ?s)"
    using assms(2) by (auto simp: chan_inv_def)
  have "(agentId cfg, e_id env) \<in> row_id ` set (inboxDb ?s) \<Longrightarrow>
      inbox_read (inboxDb ?s) (agentId cfg) (e_id env) \<noteq> None"
    using inbox_read_Some [OF wf] by (metis imageE option.distinct(1))
  then show ?thesis using tr assms(1) by (cases kind) (auto simp: trusted_def)
qed

text \<open>
  At most once: among the injected messages no id occurs twice within any \<open>dedupLru\<close>
  consecutive injections, and the dedup window is exactly the ids of the last \<open>dedupLru\<close> of them.
\<close>

theorem injected_at_most_once:
  "let s = run (chan_step pf cfg) chan_new ds; ids = map (\<lambda>(kind, subj, env). e_id env) (injected s) in
     dedup s = set (drop (length ids - dedupLru cfg) ids)
     \<and> (\<forall>i < length ids. \<forall>j < i. i - j \<le> dedupLru cfg \<longrightarrow> ids ! j \<noteq> ids ! i)"
proof -
  let ?s = "run (chan_step pf cfg) chan_new ds"
  have "dedup_ok cfg ?s" using chan_inv_run by (auto simp: chan_inv_def)
  then show ?thesis
    by (simp add: Let_def dedup_ok_def spaced_def flip: injected_ids_def)
qed

text \<open>A run on concrete input: one broadcast, delivered twice.\<close>

definition toy_platform :: "byte platform" where
  "toy_platform = \<lparr>cryp = toy_crypto, import_pub = (\<lambda>raw. None), secret_key = (\<lambda>s. of_nat (length s)),
     date_val = (\<lambda>s. Some 0), iso = (\<lambda>t. ''now'')\<rparr>"

definition toy_cfg :: chan_cfg where
  "toy_cfg = \<lparr>agentId = ''me'', sigAlg = Hmac, signingOff = False, chanPrefix = ''alloyium.a2a.'',
     keyCacheTtlS = 300, maxSendBytes = 8192, ratePerMin = 30, ratePerPeerPerMin = 10, dedupLru = 4,
     pubkeyKeyPrefix = ''pub:'', secretKeyPrefix = ''sec:''\<rparr>"

definition toy_env :: envelope where
  "toy_env = sample_env\<lparr>e_to := ''topic:ops'', e_alg := Some ''hmac'',
     e_sig := Some (sign_envelope toy_crypto (sample_env\<lparr>e_to := ''topic:ops''\<rparr>) Hmac 3)\<rparr>"

definition toy_delivery :: delivery where
  "toy_delivery = \<lparr>d_json = Some (envelope_json toy_env), d_raw = ''raw'', d_subject = ''alloyium.a2a.topic.ops'',
     d_kind = Topic, d_redis = (\<lambda>n k. if k = ''sec:kai'' then RVal ''abc'' else RNil), d_clock = (\<lambda>n. 1),
     d_gate = True, d_db_ok = True, d_inject_ok = True\<rparr>"

lemma toy_env_verifies: "verify_envelope toy_crypto toy_env 3 Hmac"
proof -
  have "canonical toy_env = canonical (sample_env\<lparr>e_to := ''topic:ops''\<rparr>)"
    by (simp add: canonical_inject signed_part_def toy_env_def)
  then show ?thesis
    by (simp add: verify_envelope_def verify_canonical_def toy_env_def sign_envelope_def sign_canonical_def
        alg_str_def Let_def) (simp add: toy_crypto_def)
qed

lemma toy_env_fields:
  "e_id toy_env = ''a|1''" "e_from toy_env = ''kai''" "e_to toy_env = ''topic:ops''" "e_ttl toy_env = Some 5000"
  "e_alg toy_env = Some ''hmac''" "e_type toy_env = TMsg" "e_corr toy_env = None" "e_v toy_env = 1"
  "e_thread toy_env = None"
  by (simp_all add: toy_env_def sample_env_def)

lemma toy_env_sig: "e_sig toy_env \<notin> {None, Some []}"
  using toy_env_verifies by (auto simp: verify_envelope_def split: option.splits)

lemma toy_run: "injected (run (chan_step toy_platform toy_cfg) chan_new [toy_delivery]) =
    [(Topic, ''alloyium.a2a.topic.ops'', toy_env)]"
proof -
  have valid: "is_valid_inbound (\<lambda>x. date_val toy_platform x \<noteq> None) (envelope_json toy_env)"
    by (simp add: valid_inbound_json toy_env_fields toy_platform_def recipient_ok_def js_eval)
  have key: "get_verify_key toy_platform toy_cfg toy_delivery 0 ''kai'' False chan_new =
      (Some 3, chan_new\<lparr>keyCache := tracked_put (cache_key toy_cfg ''kai'') (3, 300001) []\<rparr>)"
    by (simp add: get_verify_key_def chan_new_def key_of_reply_def key_name_def toy_platform_def
        toy_cfg_def toy_delivery_def Let_def)
  have acc: "key_accepts toy_platform toy_cfg toy_env (Some 3)"
    using toy_env_verifies by (simp add: key_accepts_def toy_platform_def toy_cfg_def)
  have ver: "verify_inbound toy_platform toy_cfg toy_delivery toy_env chan_new =
      (VOk, chan_new\<lparr>keyCache := tracked_put (cache_key toy_cfg ''kai'') (3, 300001) []\<rparr>)"
    using toy_env_sig by (simp add: verify_inbound_def toy_env_fields key acc)
      (simp add: toy_cfg_def alg_str_def)
  have "\<not> signingOff toy_cfg" "\<not> expired toy_platform toy_delivery toy_env" "route_ok toy_cfg toy_delivery toy_env"
    "agentId toy_cfg = ''me''" "d_kind toy_delivery = Topic" "d_inject_ok toy_delivery"
    "d_subject toy_delivery = ''alloyium.a2a.topic.ops''" "d_json toy_delivery = Some (envelope_json toy_env)"
    by (simp_all add: toy_cfg_def toy_delivery_def expired_def toy_env_fields toy_platform_def route_ok_def
        starts_with_def Let_def)
  then show ?thesis
    using valid
    by (simp add: chan_step_def handle_inbound_def as_envelope_json deliver_valid_def ver Let_def toy_env_fields)
      (simp add: chan_new_def)
qed

theorem injected_messages_authentic_witness:
  "(\<exists>k. registered toy_platform toy_cfg [toy_delivery] ''kai'' k \<and> verify_envelope toy_crypto toy_env k Hmac)
   \<and> (\<exists>t. is_token t \<and> ''topic:ops'' = ''topic:'' @ t)"
proof -
  have "\<not> signingOff toy_cfg" "cryp toy_platform = toy_crypto" "sigAlg toy_cfg = Hmac"
    by (simp_all add: toy_cfg_def toy_platform_def)
  then show ?thesis
    using injected_messages_authentic [of toy_cfg Topic "''alloyium.a2a.topic.ops''" toy_env toy_platform "[toy_delivery]"]
    by (auto simp: toy_run [simplified] toy_env_fields)
qed

theorem injected_at_most_once_witness:
  "dedup (run (chan_step toy_platform toy_cfg) chan_new [toy_delivery]) = {''a|1''}"
proof -
  have "dedupLru toy_cfg = 4" by (simp add: toy_cfg_def)
  then show ?thesis
    using injected_at_most_once [of toy_platform toy_cfg "[toy_delivery]"]
    by (simp add: Let_def toy_run [simplified] toy_env_fields)
qed

subsection \<open>Accounting\<close>

definition tally :: "'k chan \<Rightarrow> nat" where
  "tally s = c_dup (counts s) + c_expired (counts s) + c_mal (counts s) + c_self (counts s)
     + c_misroute (counts s) + c_badsig (counts s) + c_downgrade (counts s) + throttled s + length (injected s)"

fun acks :: "'k platform \<Rightarrow> chan_cfg \<Rightarrow> 'k chan \<Rightarrow> delivery list \<Rightarrow> nat" where
  "acks pf cfg s [] = 0"
| "acks pf cfg s (d # ds) =
     (let (ok, s') = handle_inbound pf cfg d s in (if ok then 1 else 0) + acks pf cfg s' ds)"

lemma tally_count [simp]:
  "tally (count_mal s) = Suc (tally s)" "tally (count_downgrade s) = Suc (tally s)"
  "tally (count_badsig s) = Suc (tally s)" "tally (count_dup s) = Suc (tally s)"
  "tally (count_expired s) = Suc (tally s)" "tally (count_self s) = Suc (tally s)"
  "tally (count_misroute s) = Suc (tally s)"
  "tally (s\<lparr>throttled := Suc (throttled s)\<rparr>) = Suc (tally s)"
  "tally (s\<lparr>injected := injected s @ [x]\<rparr>) = Suc (tally s)"
  "tally (record_dedup cfg i s) = tally s"
  by (simp_all add: tally_def count_mal_def count_downgrade_def count_badsig_def count_dup_def
      count_expired_def count_self_def count_misroute_def)

lemma get_verify_key_tally: "tally (snd (get_verify_key pf cfg d n sender b s)) = tally s"
  by (simp add: get_verify_key_def Let_def tally_def split: option.split)

lemma verify_inbound_tally: "tally (snd (verify_inbound pf cfg d env s)) = tally s"
proof -
  obtain k1 s1 where k1: "get_verify_key pf cfg d 0 (e_from env) False s = (k1, s1)" by fastforce
  obtain k2 s2 where k2: "get_verify_key pf cfg d 1 (e_from env) True s1 = (k2, s2)" by fastforce
  have "tally s1 = tally s" "tally s2 = tally s"
    using get_verify_key_tally [of pf cfg d 0 "e_from env" False s]
      get_verify_key_tally [of pf cfg d 1 "e_from env" True s1] by (simp_all add: k1 k2 del: One_nat_def)
  then show ?thesis
    by (simp add: verify_inbound_def k1 k2 del: One_nat_def)
qed

lemma persist_direct_ok:
  assumes "persist_direct pf cfg d env s = (ok, s')"
  shows "tally s' = tally s \<and> (d_db_ok d \<longrightarrow> ok)"
proof -
  have "inbox_read (inbox_insert db r) (recipient r) (env_id r) \<noteq> None" for db r
    by (auto simp: inbox_read_def find_None_iff inbox_insert_def list_ex_iff)
  then show ?thesis
    using assms
    by (auto simp: persist_direct_def inbox_store_def new_row_def tally_def Let_def
        split: if_splits option.splits) (metis inbox_row.select_convs(1,2) option.distinct(1))
qed

lemma handle_inbound_tally:
  assumes "handle_inbound pf cfg d s = (ok, s')"
  shows "tally s' = tally s + (if ok then 1 else 0) \<and> (d_db_ok d \<and> d_inject_ok d \<longrightarrow> ok)"
proof (cases "\<exists>v. d_json d = Some v \<and> is_valid_inbound (\<lambda>x. date_val pf x \<noteq> None) v")
  case False
  then show ?thesis using assms by (auto simp: handle_inbound_def split: option.splits if_splits)
next
  case True
  then obtain env where r: "deliver_valid pf cfg d env s = (ok, s')"
    using assms by (auto simp: handle_inbound_def)
  obtain vr s1 where v: "(if signingOff cfg then (VOk, s) else verify_inbound pf cfg d env s) = (vr, s1)"
    by fastforce
  then have t1: "tally s1 = tally s"
    using verify_inbound_tally [of pf cfg d env s] by (auto split: if_splits)
  obtain st s2 where p: "(if d_kind d = Direct then persist_direct pf cfg d env s1 else (True, s1)) = (st, s2)"
    by fastforce
  then have t2: "tally s2 = tally s1 \<and> (d_db_ok d \<longrightarrow> st)"
    using persist_direct_ok [of pf cfg d env s1 st s2] by (auto split: if_splits)
  show ?thesis
    using r t1 t2 unfolding deliver_valid_def v p Let_def prod.case
    by (simp split: if_split_asm; clarsimp)
qed

text \<open>
  C22. No message is lost silently: every acknowledged delivery is either injected or counted
  under exactly one reason for dropping it, and a delivery is refused (to be redelivered) only
  when the database or the injection failed.
\<close>

theorem every_ack_accounted:
  "tally (run (chan_step pf cfg) chan_new ds) = acks pf cfg chan_new ds
   \<and> (fst (handle_inbound pf cfg d (run (chan_step pf cfg) chan_new ds)) \<or> \<not> d_db_ok d \<or> \<not> d_inject_ok d)"
proof
  have "tally (run (chan_step pf cfg) s ds) = tally s + acks pf cfg s ds" for s
  proof (induction ds arbitrary: s)
    case (Cons d ds)
    obtain ok s' where "handle_inbound pf cfg d s = (ok, s')" by fastforce
    with handle_inbound_tally [OF this] Cons [of s'] show ?case by (simp add: chan_step_def)
  qed simp
  then show "tally (run (chan_step pf cfg) chan_new ds) = acks pf cfg chan_new ds"
    by (simp add: chan_new_def tally_def zero_counters_def)
next
  show "fst (handle_inbound pf cfg d (run (chan_step pf cfg) chan_new ds)) \<or> \<not> d_db_ok d \<or> \<not> d_inject_ok d"
    using handle_inbound_tally [OF surjective_pairing] by blast
qed

theorem every_ack_accounted_witness:
  "tally (run (chan_step toy_platform toy_cfg) chan_new [toy_delivery]) = 1
   \<and> acks toy_platform toy_cfg chan_new [toy_delivery] = 1
   \<and> fst (handle_inbound toy_platform toy_cfg toy_delivery chan_new)"
proof -
  have ok: "d_db_ok toy_delivery" "d_inject_ok toy_delivery" by (simp_all add: toy_delivery_def)
  have first: "fst (handle_inbound toy_platform toy_cfg toy_delivery chan_new)"
    using every_ack_accounted [of toy_platform toy_cfg "[]" toy_delivery] ok by simp
  then have "acks toy_platform toy_cfg chan_new [toy_delivery] = 1"
    by (simp add: case_prod_beta)
  then show ?thesis
    using first every_ack_accounted [of toy_platform toy_cfg "[toy_delivery]" toy_delivery] by simp
qed

end
