(* ===== verification/A2A_Send.thy ===== *)
theory A2A_Send
  imports A2A_Receive
begin

text \<open>
  The send path and the tools of \<open>A2AChannel\<close>, src/a2a-channel.ts: \<open>send\<close> with the one publish call
  site, \<open>callTool\<close>, the inbox tool, the readiness gate, and the end-to-end property that joins the send path
  to the receive path of another agent.

  The clock readings, the fresh id, the signer and what NATS answers are the inputs of one send. The calls of
  \<open>publish\<close> are logged, with the payload as the JSON value that is encoded.
\<close>

subsection \<open>The readiness gate\<close>

record gate_cfg =
  g_enabled :: bool
  g_agentId :: string
  g_sigAlg :: jsval
  g_sharedConns :: bool
  g_transportNone :: bool
  g_credsPath :: bool
  g_nkeyPath :: bool
  g_signingOff :: bool
  g_signingKeyPath :: bool
  g_signKey :: bool
  g_externalSign :: bool

definition gate_reason :: "gate_cfg \<Rightarrow> string option" where
  "gate_reason g =
     (if \<not> g_enabled g then Some ''a2a_disabled''
      else if \<not> is_token (g_agentId g) then Some ''a2a_config_invalid''
      else if \<not> is_sig_alg (g_sigAlg g) then Some ''a2a_config_invalid''
      else if \<not> g_sharedConns g \<and> \<not> g_transportNone g \<and> \<not> g_credsPath g \<and> \<not> g_nkeyPath g then Some ''a2a_creds_required''
      else if \<not> g_signingOff g \<and> g_sigAlg g = JStr ''ed25519'' \<and> \<not> g_signingKeyPath g \<and> \<not> g_signKey g \<and> \<not> g_externalSign g
        then Some ''a2a_signing_key_required''
      else None)"

text \<open>A start that is not ready is retried unless the reason is terminal.\<close>

definition gate_retries :: "string \<Rightarrow> bool" where
  "gate_retries reason \<longleftrightarrow> \<not> (reason = ''a2a_disabled'' \<or> reason = ''a2a_config_invalid'')"

text \<open>\<open>atLeast(n, min)\<close> of the constructor.\<close>

definition at_least :: "jsnum \<Rightarrow> rat \<Rightarrow> rat" where
  "at_least n m = (case n of Fin q \<Rightarrow> if q \<ge> m then q else m | _ \<Rightarrow> m)"

lemma at_least_bound: "m \<le> at_least n m"
  by (simp add: at_least_def split: jsnum.split)

subsection \<open>Sending\<close>

datatype 'k signer = OwnKey 'k | External "string \<Rightarrow> string + string"

record 'k send_inputs =
  sn_clock :: "nat \<Rightarrow> rat"
  sn_id :: string
  sn_now :: rat
  sn_signer :: "'k signer"
  sn_pub :: "string + nat option"

record sender =
  sd_counts :: counters
  sd_rate :: rate_state
  sd_published :: "(bool \<times> string \<times> jsval) list"

definition sender_new :: sender where
  "sender_new = \<lparr>sd_counts = zero_counters, sd_rate = rate_new, sd_published = []\<rparr>"

datatype send_answer =
    SendError string
  | SendOk string string bool "nat option"

definition count_rejected :: "sender \<Rightarrow> sender" where
  "count_rejected s = s\<lparr>sd_counts := (sd_counts s)\<lparr>c_rejected := Suc (c_rejected (sd_counts s))\<rparr>\<rparr>"

definition count_sent :: "sender \<Rightarrow> sender" where
  "count_sent s = s\<lparr>sd_counts := (sd_counts s)\<lparr>c_sent := Suc (c_sent (sd_counts s))\<rparr>\<rparr>"

definition count_denied :: "sender \<Rightarrow> sender" where
  "count_denied s = s\<lparr>sd_counts := (sd_counts s)\<lparr>c_denied := Suc (c_denied (sd_counts s))\<rparr>\<rparr>"

datatype publish_error = Denied | PublishFailed string

text \<open>The allowlist comes first, whatever the subject; a core publish has no sequence number.\<close>

definition publish_a2a ::
  "chan_cfg \<Rightarrow> string + nat option \<Rightarrow> string \<Rightarrow> jsval \<Rightarrow> bool \<Rightarrow> sender \<Rightarrow> (publish_error + nat option) \<times> sender" where
  "publish_a2a cfg pub subject payload durable s =
     (case assert_a2a_subject subject (chanPrefix cfg) of
        Inl _ \<Rightarrow> (Inl Denied, s)
      | Inr _ \<Rightarrow>
          (let s' = s\<lparr>sd_published := sd_published s @ [(durable, subject, payload)]\<rparr> in
           case pub of
             Inl err \<Rightarrow> (Inl (PublishFailed err), s')
           | Inr seq \<Rightarrow> (Inr (if durable then seq else None), s')))"

definition sign_with :: "'k crypto \<Rightarrow> sig_alg \<Rightarrow> 'k signer \<Rightarrow> string \<Rightarrow> string + string" where
  "sign_with cr alg sg canon = (case sg of OwnKey k \<Rightarrow> Inr (sign_canonical cr alg k canon) | External f \<Rightarrow> f canon)"

definition sign_outgoing :: "'k platform \<Rightarrow> chan_cfg \<Rightarrow> 'k signer \<Rightarrow> envelope \<Rightarrow> string + envelope" where
  "sign_outgoing pf cfg sg env =
     (if signingOff cfg then Inr env
      else (case sign_with (cryp pf) (sigAlg cfg) sg (canonical env) of
              Inl err \<Rightarrow> Inl err
            | Inr sig \<Rightarrow> Inr (env\<lparr>e_alg := Some (alg_str (sigAlg cfg)), e_sig := Some sig\<rparr>)))"

definition target_subject :: "chan_cfg \<Rightarrow> send_target \<Rightarrow> string" where
  "target_subject cfg v = (if st_topic v then topic_subject (chanPrefix cfg) (st_target v)
     else inbox_subject (chanPrefix cfg) (st_target v))"

definition peer_key :: "send_target \<Rightarrow> string" where
  "peer_key v = (if st_topic v then ''topic:'' @ st_target v else st_target v)"

definition send ::
  "'k platform \<Rightarrow> chan_cfg \<Rightarrow> 'k send_inputs \<Rightarrow> jsval \<Rightarrow> sender \<Rightarrow> send_answer \<times> sender" where
  "send pf cfg inp args s =
     (case validate_send_args args (agentId cfg) (maxSendBytes cfg) of
        Inl err \<Rightarrow> (SendError err, count_rejected s)
      | Inr v \<Rightarrow>
          (let (ok, rate') = rate_ok (ratePerMin cfg) (ratePerPeerPerMin cfg) (sn_clock inp) (peer_key v) (sd_rate s);
               s1 = s\<lparr>sd_rate := rate'\<rparr> in
           if \<not> ok then (SendError ''rate_limited'', count_rejected s1)
           else
             (case sign_outgoing pf cfg (sn_signer inp) (build_envelope args v (agentId cfg) (sn_id inp) (iso pf (sn_now inp))) of
                Inl err \<Rightarrow> (SendError ''sign_failed'', count_rejected s1)
              | Inr env \<Rightarrow>
                  (case publish_a2a cfg (sn_pub inp) (target_subject cfg v) (envelope_json env) (\<not> st_topic v) s1 of
                     (Inl Denied, s2) \<Rightarrow> (SendError ''subject_denied'', count_denied s2)
                   | (Inl (PublishFailed err), s2) \<Rightarrow> (SendError ''publish_failed'', count_rejected s2)
                   | (Inr seq, s2) \<Rightarrow> (SendOk (e_id env) (target_subject cfg v) (\<not> st_topic v) seq, count_sent s2)))))"

subsection \<open>The tools\<close>

definition str_or_null :: "string option \<Rightarrow> jsval" where
  "str_or_null v = (case v of Some s \<Rightarrow> JStr s | None \<Rightarrow> JNull)"

text \<open>\<open>parse\<close> is \<open>JSON.parse\<close>, \<open>None\<close> where it throws; an attributes text that is absent, empty or unreadable is null.\<close>

definition public_inbox_message :: "(string \<Rightarrow> jsval option) \<Rightarrow> inbox_row \<Rightarrow> jsval" where
  "public_inbox_message parse r = JObj
     [(''id'', JStr (env_id r)), (''from'', JStr (from_agent r)), (''to'', JStr (to_agent r)), (''type'', JStr (msg_type r)),
      (''ts'', JStr (r_ts r)), (''thread'', str_or_null (r_thread r)), (''corr'', str_or_null (r_corr r)), (''body'', JStr (r_body r)),
      (''attrs'', (case attrs_json r of None \<Rightarrow> JNull | Some t \<Rightarrow> if t = [] then JNull
          else (case parse t of None \<Rightarrow> JNull | Some v \<Rightarrow> v))),
      (''handled'', JBool (handled r)), (''handled_at'', str_or_null (handled_at r)), (''delivered_at'', JStr (delivered_at r))]"

datatype tool_answer =
    ToolError string
  | InboxPage string "jsval list" "string option"
  | InboxMessage string jsval
  | Sending send_answer
  | OtherTool string

definition limit_ok :: "jsval \<Rightarrow> bool" where
  "limit_ok v = (case v of JNum n \<Rightarrow> num_integer n \<and> \<not> num_less n (Fin 1) \<and> \<not> num_less (Fin 200) n | _ \<Rightarrow> False)"

text \<open>The checks of the list arguments in the order of the code: the name of the first that fails.\<close>

definition list_args_error :: "(string \<Rightarrow> bool) \<Rightarrow> jsval \<Rightarrow> string option" where
  "list_args_error date_ok args =
     (if \<not> is_nullish (jget args ''handled'') \<and> \<not> (case jget args ''handled'' of JBool _ \<Rightarrow> True | _ \<Rightarrow> False) then Some ''bad_handled''
      else if \<not> is_nullish (jget args ''from'') \<and> \<not> (is_str (jget args ''from'') \<and> is_token (str_or_empty (jget args ''from'')))
        then Some ''bad_from''
      else if \<not> is_nullish (jget args ''thread'') \<and> \<not> str_at_most 128 (jget args ''thread'') then Some ''bad_thread''
      else if \<not> is_nullish (jget args ''since'') \<and> \<not> (is_str (jget args ''since'') \<and> date_ok (str_or_empty (jget args ''since'')))
        then Some ''bad_since''
      else if \<not> is_nullish (jget args ''cursor'') \<and> \<not> is_str (jget args ''cursor'') then Some ''bad_cursor''
      else if \<not> is_nullish (jget args ''limit'') \<and> \<not> limit_ok (jget args ''limit'') then Some ''bad_limit''
      else None)"

definition list_filters_of :: "string \<Rightarrow> jsval \<Rightarrow> list_filters" where
  "list_filters_of self args =
     \<lparr>f_recipient = self, f_handled = (case jget args ''handled'' of JBool b \<Rightarrow> Some b | _ \<Rightarrow> None),
      f_from = opt_str (jget args ''from''), f_thread = opt_str (jget args ''thread''), f_since = opt_str (jget args ''since''),
      f_limit = (if is_nullish (jget args ''limit'') then None else Some (jint (jget args ''limit'')))\<rparr>"

definition inbox_messages ::
  "(jsval \<Rightarrow> string) \<Rightarrow> (string \<Rightarrow> jsval option) \<Rightarrow> (string \<Rightarrow> jsval option) \<Rightarrow> (string \<Rightarrow> bool) \<Rightarrow> string \<Rightarrow> string \<Rightarrow> jsval
   \<Rightarrow> inbox \<Rightarrow> tool_answer \<times> inbox" where
  "inbox_messages enc dec parse date_ok self now args db =
     (let action = jget args ''action'' in
      if action \<noteq> JStr ''list'' \<and> action \<noteq> JStr ''read'' \<and> action \<noteq> JStr ''ack'' then (ToolError ''bad_action'', db)
      else if action = JStr ''list'' then
        (case list_args_error date_ok args of
           Some err \<Rightarrow> (ToolError err, db)
         | None \<Rightarrow>
             (let (page, nxt) = inbox_list enc dec db (list_filters_of self args) (opt_str (jget args ''cursor'')) in
              (InboxPage self (map (public_inbox_message parse) page) nxt, db)))
      else if \<not> is_str (jget args ''id'') \<or> length (str_or_empty (jget args ''id'')) < 1 \<or> length (str_or_empty (jget args ''id'')) > 128
        then (ToolError ''bad_id'', db)
      else
        (let (row, db') = (if action = JStr ''read'' then (inbox_read db self (str_or_empty (jget args ''id'')), db)
                           else inbox_ack db self (str_or_empty (jget args ''id'')) now) in
         case row of None \<Rightarrow> (ToolError ''not_found'', db')
         | Some r \<Rightarrow> (InboxMessage self (public_inbox_message parse r), db')))"

definition KNOWN_TOOLS :: "string list" where
  "KNOWN_TOOLS = [''a2a_send'', ''a2a_peers'', ''a2a_join_topic'', ''a2a_leave_topic'', ''a2a-inbox-messages'']"

text \<open>\<open>callTool\<close> over the answer that the chosen tool gives.\<close>

definition call_tool :: "bool \<Rightarrow> (string \<Rightarrow> tool_answer) \<Rightarrow> string \<Rightarrow> tool_answer" where
  "call_tool started tool name =
     (if name \<notin> set KNOWN_TOOLS then ToolError ''unknown_tool''
      else if \<not> started then ToolError ''a2a_disabled''
      else tool name)"

subsection \<open>Lemmas\<close>

text \<open>A caller of the inbox tool only ever sees or changes its own rows.\<close>

lemma inbox_messages_own:
  "snd (inbox_messages enc dec parse date_ok self now args db) = db
   \<or> (\<exists>i. snd (inbox_messages enc dec parse date_ok self now args db) = snd (inbox_ack db self i now))"
  by (auto simp: inbox_messages_def Let_def case_prod_beta split: option.split)

lemma count_sender_simps [simp]:
  "sd_published (count_rejected s) = sd_published s" "sd_published (count_sent s) = sd_published s"
  "sd_published (count_denied s) = sd_published s"
  by (simp_all add: count_rejected_def count_sent_def count_denied_def)

text \<open>What an answered send has done.\<close>

lemma send_okE:
  assumes "send pf cfg inp args s = (SendOk i subject durable seq, s')"
  obtains v env where "validate_send_args args (agentId cfg) (maxSendBytes cfg) = Inr v"
    "sign_outgoing pf cfg (sn_signer inp) (build_envelope args v (agentId cfg) (sn_id inp) (iso pf (sn_now inp))) = Inr env"
    "i = e_id env" "subject = target_subject cfg v" "durable = (\<not> st_topic v)"
    "sd_published s' = sd_published s @ [(durable, subject, envelope_json env)]"
    "assert_a2a_subject subject (chanPrefix cfg) = Inr ()"
  using assms
  by (auto simp: send_def publish_a2a_def Let_def split: sum.splits prod.splits if_splits publish_error.splits)

lemma sign_outgoing_env:
  assumes "sign_outgoing pf cfg sg env = Inr env'" "\<not> signingOff cfg"
  obtains sig where "env' = env\<lparr>e_alg := Some (alg_str (sigAlg cfg)), e_sig := Some sig\<rparr>"
    "sign_with (cryp pf) (sigAlg cfg) sg (canonical env) = Inr sig"
  using assms by (auto simp: sign_outgoing_def split: sum.splits)

subsection \<open>From one agent to another\<close>

text \<open>The receiver's view of a published message, and what it must answer for the message to go through.\<close>

definition carries :: "delivery \<Rightarrow> bool \<times> string \<times> jsval \<Rightarrow> bool" where
  "carries d msg \<longleftrightarrow> d_json d = Some (snd (snd msg)) \<and> d_subject d = fst (snd msg)
     \<and> d_kind d = (if fst msg then Direct else Topic) \<and> d_gate d \<and> d_db_ok d \<and> d_inject_ok d"

lemma verify_inbound_ok:
  assumes "e_alg env = Some (alg_str (sigAlg cfg))" "verify_envelope (cryp pf) env pk (sigAlg cfg)"
    and "\<And>n. key_of_reply pf (sigAlg cfg) (d_redis d n (key_name cfg (e_from env))) = Some pk"
  shows "\<exists>kc. verify_inbound pf cfg d env s = (VOk, s\<lparr>keyCache := kc\<rparr>)"
proof -
  obtain k1 s1 where k1: "get_verify_key pf cfg d 0 (e_from env) False s = (k1, s1)" by fastforce
  have keep: "\<exists>kc. x = x\<lparr>keyCache := kc\<rparr>" for x :: "'a chan" by (rule exI [of _ "keyCache x"]) simp
  then have s1: "\<exists>kc. s1 = s\<lparr>keyCache := kc\<rparr>"
    using k1 assms(3) by (auto simp: get_verify_key_def Let_def split: if_splits)
  obtain k2 s2 where k2: "get_verify_key pf cfg d 1 (e_from env) True s1 = (k2, s2)" by fastforce
  then have s2: "k2 = Some pk" "\<exists>kc. s2 = s\<lparr>keyCache := kc\<rparr>"
    using assms(3) s1 by (auto simp: get_verify_key_def Let_def)
  have "key_accepts pf cfg env k2" using assms(2) s2(1) by (simp add: key_accepts_def)
  moreover have "e_sig env \<noteq> None" "e_sig env \<noteq> Some []"
    using assms(2) by (auto simp: verify_envelope_def split: option.splits)
  ultimately show ?thesis
    using assms(1) s1 s2(2) by (auto simp: verify_inbound_def k1 k2 simp del: One_nat_def)
qed

lemma deliver_valid_ok:
  assumes "signingOff cfg \<or> (\<exists>kc. verify_inbound pf cfg d env s = (VOk, s\<lparr>keyCache := kc\<rparr>))"
    and "e_id env \<notin> dedup s" "\<not> expired pf d env" "e_from env \<noteq> agentId cfg" "route_ok cfg d env"
    and "d_gate d" "d_db_ok d" "d_inject_ok d"
  shows "\<exists>s'. deliver_valid pf cfg d env s = (True, s') \<and> injected s' = injected s @ [(d_kind d, d_subject d, env)]"
proof -
  obtain kc where v: "(if signingOff cfg then (VOk, s) else verify_inbound pf cfg d env s) = (VOk, s\<lparr>keyCache := kc\<rparr>)"
  proof (cases "signingOff cfg")
    case True
    then show ?thesis using that [of "keyCache s"] by simp
  next
    case False
    then show ?thesis using that assms(1) by auto
  qed
  let ?s = "s\<lparr>keyCache := kc\<rparr>"
  obtain st s2 where p: "persist_direct pf cfg d env ?s = (st, s2)" by fastforce
  have "st" using persist_direct_ok [OF p] assms(7) by blast
  moreover have "injected s2 = injected s" using persist_direct_spec [OF p] by auto
  moreover have "\<not> expired pf d env" using assms(3) .
  ultimately show ?thesis
    using assms(2-6,8) p by (cases "d_kind d") (simp_all add: deliver_valid_def v Let_def)
qed

lemma route_ok_target:
  assumes v: "validate_send_args args self maxBytes = Inr v"
    and d: "d_subject d = target_subject sc v" "d_kind d = (if st_topic v then Topic else Direct)"
    and "chanPrefix sc = chanPrefix rc" "\<not> st_topic v \<Longrightarrow> agentId rc = st_target v" "e_to env = st_to v"
  shows "route_ok rc d env"
proof (cases "st_topic v")
  case True
  have "st_to v = ''topic:'' @ st_target v"
    using validate_send_argsE [OF v] True starts_with_split [of "''topic:''" "st_to v" 6] by auto
  moreover have "starts_with (chanPrefix rc @ ''topic.'') (chanPrefix rc @ ''topic.'' @ st_target v)"
    by (simp add: starts_with_def)
  ultimately show ?thesis
    using assms True by (simp add: route_ok_def target_subject_def topic_subject_def)
next
  case False
  moreover have "st_to v = st_target v" using validate_send_argsE [OF v] False by auto
  ultimately show ?thesis using assms by (simp add: route_ok_def)
qed

text \<open>
  C3. A message that is sent arrives: when \<open>send\<close> of one agent answers ok, it has published exactly one message, and
  an agent it is addressed to (by id, or subscribed to the topic) that has the key of the sender injects that
  message into its session, with the sender's id and the body of the call, provided the id is new to it, the
  message has not expired and its own database and session accept it. The law about the keys: the
  registered key verifies what the signer of the sender, its own key or the shim, signs.
\<close>

theorem sent_message_is_injected:
  assumes "send pf sc inp args s = (SendOk i subject durable seq, s')"
    and self: "is_token (agentId sc)" "1 \<le> length (sn_id inp)" "length (sn_id inp) \<le> 128" "date_val pf (iso pf (sn_now inp)) = Some t"
    and "carries d (last (sd_published s'))" "chanPrefix sc = chanPrefix rc" "agentId rc \<noteq> agentId sc"
    and "durable \<Longrightarrow> subject = inbox_subject (chanPrefix rc) (agentId rc)"
    and signing: "sigAlg rc = sigAlg sc" "signingOff rc = signingOff sc"
    and "\<And>n. key_of_reply pf (sigAlg rc) (d_redis d n (key_name rc (agentId sc))) = Some pk"
    and law: "\<And>c sig. sign_with (cryp pf) (sigAlg sc) (sn_signer inp) c = Inr sig
           \<Longrightarrow> sig \<noteq> [] \<and> verify_canonical (cryp pf) (sigAlg sc) pk c sig"
    and "i \<notin> dedup r" "is_nullish (jget args ''ttl_ms'') \<or> d_clock d 4 \<le> t + of_int (jint (jget args ''ttl_ms''))"
  shows "\<exists>env r'. handle_inbound pf rc d r = (True, r') \<and> length (sd_published s') = Suc (length (sd_published s))
     \<and> injected r' = injected r @ [(if durable then Direct else Topic, subject, env)]
     \<and> e_id env = i \<and> e_from env = agentId sc \<and> e_body env = str_or_empty (jget args ''body'')"
proof -
  obtain v env where v: "validate_send_args args (agentId sc) (maxSendBytes sc) = Inr v"
    and env: "sign_outgoing pf sc (sn_signer inp) (build_envelope args v (agentId sc) (sn_id inp) (iso pf (sn_now inp))) = Inr env"
    and eqs: "i = e_id env" "subject = target_subject sc v" "durable = (\<not> st_topic v)"
    and pub: "sd_published s' = sd_published s @ [(durable, subject, envelope_json env)]"
    using send_okE [OF assms(1)] .
  let ?b = "build_envelope args v (agentId sc) (sn_id inp) (iso pf (sn_now inp))"
  have shape: "\<exists>al sg. env = ?b\<lparr>e_alg := al, e_sig := sg\<rparr>"
  proof (cases "signingOff sc")
    case True
    then have "env = ?b" using env by (simp add: sign_outgoing_def)
    then have "env = ?b\<lparr>e_alg := e_alg ?b, e_sig := e_sig ?b\<rparr>" by simp
    then show ?thesis by blast
  qed (use sign_outgoing_env [OF env] in blast)
  then have fields: "e_from env = agentId sc" "e_to env = st_to v" "e_body env = str_or_empty (jget args ''body'')"
    and time: "e_ts env = iso pf (sn_now inp)"
      "e_ttl env = (if is_nullish (jget args ''ttl_ms'') then None else Some (jint (jget args ''ttl_ms'')))"
    by (auto simp: build_envelope_def)
  have fresh: "\<not> expired pf d env"
    using self(4) assms(15) by (auto simp: expired_def time)
  have valid: "is_valid_inbound (\<lambda>x. date_val pf x \<noteq> None) (envelope_json env)"
    using shape built_envelope_valid [OF v self(1-3), of "\<lambda>x. date_val pf x \<noteq> None"] self(4) by blast
  have d: "d_json d = Some (envelope_json env)" "d_subject d = subject" "d_kind d = (if durable then Direct else Topic)"
    "d_gate d" "d_db_ok d" "d_inject_ok d"
    using assms(6) by (auto simp: carries_def pub)
  have ver: "\<exists>kc. verify_inbound pf rc d env r = (VOk, r\<lparr>keyCache := kc\<rparr>)" if on: "\<not> signingOff sc"
  proof -
    obtain sig where sig: "env = ?b\<lparr>e_alg := Some (alg_str (sigAlg sc)), e_sig := Some sig\<rparr>"
      "sign_with (cryp pf) (sigAlg sc) (sn_signer inp) (canonical ?b) = Inr sig"
      using sign_outgoing_env [OF env on] .
    have "verify_envelope (cryp pf) env pk (sigAlg rc)"
      using law [OF sig(2)] signing by (simp add: verify_envelope_def sig(1))
    then show ?thesis
      using verify_inbound_ok [of env rc pf pk d r] assms(12) signing by (simp add: sig(1) fields(1) [unfolded sig(1)])
  qed
  have target: "agentId rc = st_target v" if "\<not> st_topic v"
    using that assms(9) eqs by (simp add: target_subject_def inbox_subject_def assms(7))
  have "route_ok rc d env"
    by (rule route_ok_target [OF v _ _ assms(7) target fields(2)]) (use d eqs in auto)
  then obtain r' where "deliver_valid pf rc d env r = (True, r')" "injected r' = injected r @ [(d_kind d, d_subject d, env)]"
    using deliver_valid_ok [of rc pf d env r] ver signing(2) assms(8,14) fresh eqs(1) fields(1) d(4-6) by auto
  then show ?thesis
    using valid d eqs fields by (intro exI [of _ env] exI [of _ r']) (simp add: handle_inbound_def as_envelope_json pub)
qed

text \<open>A broadcast of \<open>kai\<close>, subscribed to by \<open>me\<close>.\<close>

definition kai_cfg :: chan_cfg where "kai_cfg = toy_cfg\<lparr>agentId := ''kai''\<rparr>"

definition hello_args :: jsval where
  "hello_args = JObj [(''to'', JStr ''topic:ops''), (''body'', JStr ''hello'')]"

definition hello_inputs :: "byte send_inputs" where
  "hello_inputs = \<lparr>sn_clock = (\<lambda>n. 0), sn_id = ''m-1'', sn_now = 0, sn_signer = OwnKey 3, sn_pub = Inr None\<rparr>"

definition ops_target :: send_target where
  "ops_target = \<lparr>st_to = ''topic:ops'', st_topic = True, st_target = ''ops'', st_type = TMsg\<rparr>"

definition hello_env :: envelope where
  "hello_env = (let b = build_envelope hello_args ops_target ''kai'' ''m-1'' ''now'' in
     b\<lparr>e_alg := Some ''hmac'', e_sig := Some (sign_canonical toy_crypto Hmac 3 (canonical b))\<rparr>)"

definition hello_delivery :: delivery where
  "hello_delivery = toy_delivery\<lparr>d_json := Some (envelope_json hello_env)\<rparr>"

lemma hello_sent:
  "\<exists>s'. send toy_platform kai_cfg hello_inputs hello_args sender_new = (SendOk ''m-1'' ''alloyium.a2a.topic.ops'' False None, s')
     \<and> sd_published s' = [(False, ''alloyium.a2a.topic.ops'', envelope_json hello_env)]"
proof -
  have v: "validate_send_args hello_args ''kai'' 8192 = Inr ops_target"
    by (simp add: hello_args_def ops_target_def validate_send_args_def js_eval recipient_ok_def str_or_empty_def
        utf8_def utf8_char_def parse_type_def attrs_error_def)
  have r: "fst (rate_ok 30 10 (\<lambda>n. 0) k rate_new)" for k
    by (simp add: rate_ok_def rate_new_def tb_peek_def tb_take_def tb_refill_def tb_new_def tracked_put_def evict_oldest_def
        MAX_TRACKED_KEYS_def Let_def)
  have subj: "target_subject kai_cfg ops_target = ''alloyium.a2a.topic.ops''"
    by (simp add: target_subject_def ops_target_def topic_subject_def kai_cfg_def toy_cfg_def)
  have "is_token ''ops''" by (simp add: js_eval)
  then have "assert_a2a_subject ''alloyium.a2a.topic.ops'' ''alloyium.a2a.'' = Inr ()"
    using a2a_subject_plain(2) [of "''ops''"] by (simp add: topic_subject_def a2a_prefix_def)
  moreover have "sign_outgoing toy_platform kai_cfg (OwnKey 3) (build_envelope hello_args ops_target ''kai'' ''m-1'' ''now'') = Inr hello_env"
    by (simp add: sign_outgoing_def sign_with_def kai_cfg_def toy_cfg_def toy_platform_def hello_env_def alg_str_def Let_def)
  moreover have "e_id hello_env = ''m-1''" by (simp add: hello_env_def build_envelope_def Let_def)
  moreover have "agentId kai_cfg = ''kai''" "maxSendBytes kai_cfg = 8192" "ratePerMin kai_cfg = 30" "ratePerPeerPerMin kai_cfg = 10"
    "chanPrefix kai_cfg = ''alloyium.a2a.''" "iso toy_platform (sn_now hello_inputs) = ''now''" "sn_id hello_inputs = ''m-1''"
    "sn_signer hello_inputs = OwnKey 3" "sn_pub hello_inputs = Inr None" "sn_clock hello_inputs = (\<lambda>n. 0)"
    "st_topic ops_target" "sd_rate sender_new = rate_new" "sd_published sender_new = []"
    by (simp_all add: kai_cfg_def toy_cfg_def toy_platform_def hello_inputs_def ops_target_def sender_new_def)
  ultimately show ?thesis
    using r [of "peer_key ops_target"] v subj
    by (cases "rate_ok 30 10 (\<lambda>n. 0) (peer_key ops_target) rate_new") (simp add: send_def publish_a2a_def Let_def)
qed

theorem sent_message_is_injected_witness:
  "\<exists>env r'. handle_inbound toy_platform toy_cfg hello_delivery chan_new = (True, r')
     \<and> injected r' = [(Topic, ''alloyium.a2a.topic.ops'', env)] \<and> e_from env = ''kai'' \<and> e_body env = ''hello''"
proof -
  obtain s' where s': "send toy_platform kai_cfg hello_inputs hello_args sender_new = (SendOk ''m-1'' ''alloyium.a2a.topic.ops'' False None, s')"
    "sd_published s' = [(False, ''alloyium.a2a.topic.ops'', envelope_json hello_env)]" using hello_sent by blast
  have cfg: "agentId kai_cfg = ''kai''" "sigAlg kai_cfg = Hmac" "signingOff kai_cfg = False" "chanPrefix kai_cfg = chanPrefix toy_cfg"
    "agentId toy_cfg = ''me''" "sigAlg toy_cfg = Hmac" "signingOff toy_cfg = False"
    by (simp_all add: kai_cfg_def toy_cfg_def)
  have tok: "is_token ''kai''" by (simp add: js_eval)
  have "carries hello_delivery (last (sd_published s'))"
    by (simp add: s' carries_def hello_delivery_def toy_delivery_def)
  moreover have "key_of_reply toy_platform Hmac (d_redis hello_delivery n (key_name toy_cfg ''kai'')) = Some 3" for n
    by (simp add: key_of_reply_def key_name_def hello_delivery_def toy_delivery_def toy_platform_def toy_cfg_def)
  moreover have "sig \<noteq> [] \<and> verify_canonical (cryp toy_platform) Hmac 3 c sig"
    if "sign_with (cryp toy_platform) Hmac (sn_signer hello_inputs) c = Inr sig" for c sig
    using that by (auto simp: sign_with_def sign_canonical_def verify_canonical_def toy_platform_def hello_inputs_def Let_def)
      (simp add: toy_crypto_def)
  moreover have "date_val toy_platform (iso toy_platform (sn_now hello_inputs)) = Some 0"
    "is_nullish (jget hello_args ''ttl_ms'')" "str_or_empty (jget hello_args ''body'') = ''hello''" "sn_id hello_inputs = ''m-1''"
    "injected (chan_new :: byte chan) = []" "dedup (chan_new :: byte chan) = {}"
    by (simp_all add: toy_platform_def hello_args_def hello_inputs_def chan_new_def js_eval)
  ultimately show ?thesis
    using sent_message_is_injected [OF s'(1), of 0 hello_delivery toy_cfg 3 chan_new] cfg tok by auto
qed

end
