(* ===== verification/A2A_Concurrent.thy ===== *)
theory A2A_Concurrent
  imports A2A_Receive
begin

text \<open>
  The receive path of src/a2a-channel.ts with its awaits: the inbox loop and the loop of each topic run at the same time, and
  \<open>handleInbound\<close> gives way while it waits for Redis, for a verification and for the injection.

  A loop pulls its next message when the one before is handled, so it has at most one handling, whose remaining work is its task. The
  steps are the stretches of code between two awaits: they read and write the state of the channel as it is then. What the
  outside answers to a handling is still its \<open>delivery\<close>. One handling run without interruption is \<open>handle_inbound\<close>
  of A2A_Receive (lemma \<open>uninterrupted_handling\<close>).
\<close>

subsection \<open>Handlings\<close>

text \<open>
  A loop is that of one subscription: its number tells apart the subscriptions of a topic that was left and joined again while the
  loop of the first still handles its last message.
\<close>

datatype inbound_loop = InboxLoop nat | TopicLoop nat string

definition kind_loop :: "nat \<Rightarrow> a2a_kind \<Rightarrow> string \<Rightarrow> inbound_loop" where
  "kind_loop g k subj = (case k of Direct \<Rightarrow> InboxLoop g | Topic \<Rightarrow> TopicLoop g subj)"

definition loop_of :: "nat \<Rightarrow> delivery \<Rightarrow> inbound_loop" where
  "loop_of g d = kind_loop g (d_kind d) (d_subject d)"

text \<open>
  Waiting for the key from Redis, the second time (1) bypassing the cache; for the verification under a key; for the injection. The number
  kept with an injection is how many injections had been recorded when it passed the duplicate check.
\<close>

datatype 'k task =
    Fetching nat delivery envelope
  | Checking nat delivery envelope 'k
  | Injecting delivery envelope nat

text \<open>\<open>cc_log\<close> belongs to \<open>injected\<close>: of each injection the loop and the number at its check.\<close>

record 'k conc =
  cc_chan :: "'k chan"
  cc_tasks :: "(inbound_loop \<times> 'k task) list"
  cc_log :: "(inbound_loop \<times> nat) list"
  cc_answers :: "(delivery \<times> bool) list"

definition conc_new :: "'k conc" where
  "conc_new = \<lparr>cc_chan = chan_new, cc_tasks = [], cc_log = [], cc_answers = []\<rparr>"

definition put_task :: "inbound_loop \<Rightarrow> 'k task \<Rightarrow> 'k chan \<Rightarrow> 'k conc \<Rightarrow> 'k conc" where
  "put_task l t ch s = s\<lparr>cc_chan := ch, cc_tasks := AList.update l t (cc_tasks s)\<rparr>"

definition finish :: "inbound_loop \<Rightarrow> delivery \<Rightarrow> bool \<Rightarrow> 'k chan \<Rightarrow> 'k conc \<Rightarrow> 'k conc" where
  "finish l d ok ch s = s\<lparr>cc_chan := ch, cc_tasks := AList.delete l (cc_tasks s), cc_answers := cc_answers s @ [(d, ok)]\<rparr>"

text \<open>From the verdict of the verification to the injection: no await in between. \<open>Inl\<close>: the handling ends here.\<close>

definition after_verify :: "'k platform \<Rightarrow> chan_cfg \<Rightarrow> delivery \<Rightarrow> envelope \<Rightarrow> 'k chan \<Rightarrow> (bool \<times> 'k chan) + 'k chan" where
  "after_verify pf cfg d env s =
     (if e_id env \<in> dedup s then Inl (True, count_dup s)
      else if expired pf d env then Inl (True, count_expired s)
      else if e_from env = agentId cfg then
        (if d_kind d = Topic then Inl (True, count_self s) else Inl (True, count_mal s))
      else if \<not> route_ok cfg d env then Inl (True, count_misroute s)
      else if d_kind d = Direct \<and> \<not> d_gate d then Inl (True, s\<lparr>throttled := Suc (throttled s)\<rparr>)
      else
        (let (stored, s1) = (if d_kind d = Direct then persist_direct pf cfg d env s else (True, s)) in
         if stored then Inr s1 else Inl (False, s1)))"

definition pass :: "'k platform \<Rightarrow> chan_cfg \<Rightarrow> inbound_loop \<Rightarrow> delivery \<Rightarrow> envelope \<Rightarrow> 'k conc \<Rightarrow> 'k conc" where
  "pass pf cfg l d env s =
     (case after_verify pf cfg d env (cc_chan s) of
        Inl (ok, ch) \<Rightarrow> finish l d ok ch s
      | Inr ch \<Rightarrow> put_task l (Injecting d env (length (injected ch))) ch s)"

text \<open>The cache is asked before the first request only.\<close>

definition ask_key :: "'k platform \<Rightarrow> chan_cfg \<Rightarrow> delivery \<Rightarrow> envelope \<Rightarrow> 'k chan \<Rightarrow> 'k task" where
  "ask_key pf cfg d env s =
     (case map_of (keyCache s) (cache_key cfg (e_from env)) of
        Some (k, e) \<Rightarrow> if e > d_clock d 0 then Checking 0 d env k else Fetching 0 d env
      | None \<Rightarrow> Fetching 0 d env)"

definition arrive :: "'k platform \<Rightarrow> chan_cfg \<Rightarrow> nat \<Rightarrow> delivery \<Rightarrow> 'k conc \<Rightarrow> 'k conc" where
  "arrive pf cfg g d s =
     (let l = loop_of g d; ch = cc_chan s in
      if map_of (cc_tasks s) l \<noteq> None then s
      else case d_json d of
        None \<Rightarrow> finish l d True (count_mal ch) s
      | Some v \<Rightarrow>
          (let env = as_envelope v in
           if \<not> is_valid_inbound (\<lambda>x. date_val pf x \<noteq> None) v then finish l d True (count_mal ch) s
           else if signingOff cfg then pass pf cfg l d env s
           else if e_alg env \<noteq> Some (alg_str (sigAlg cfg)) then finish l d True (count_downgrade ch) s
           else if e_sig env = None \<or> e_sig env = Some [] then finish l d True (count_badsig ch) s
           else put_task l (ask_key pf cfg d env ch) ch s))"

text \<open>A key that is missing or does not accept is asked for once more.\<close>

definition try_again :: "inbound_loop \<Rightarrow> nat \<Rightarrow> delivery \<Rightarrow> envelope \<Rightarrow> 'k conc \<Rightarrow> 'k conc" where
  "try_again l n d env s =
     (if n = 0 then put_task l (Fetching 1 d env) (cc_chan s) s else finish l d True (count_badsig (cc_chan s)) s)"

definition fetched :: "'k platform \<Rightarrow> chan_cfg \<Rightarrow> inbound_loop \<Rightarrow> nat \<Rightarrow> delivery \<Rightarrow> envelope \<Rightarrow> 'k conc \<Rightarrow> 'k conc" where
  "fetched pf cfg l n d env s =
     (case key_of_reply pf (sigAlg cfg) (d_redis d n (key_name cfg (e_from env))) of
        None \<Rightarrow> try_again l n d env s
      | Some k \<Rightarrow>
          (let ch = cc_chan s in
           put_task l (Checking n d env k)
             (ch\<lparr>keyCache := tracked_put (cache_key cfg (e_from env)) (k, d_clock d (2 * n + 1) + keyCacheTtlS cfg * 1000) (keyCache ch)\<rparr>) s))"

definition checked :: "'k platform \<Rightarrow> chan_cfg \<Rightarrow> inbound_loop \<Rightarrow> nat \<Rightarrow> delivery \<Rightarrow> envelope \<Rightarrow> 'k \<Rightarrow> 'k conc \<Rightarrow> 'k conc" where
  "checked pf cfg l n d env k s =
     (if verify_envelope (cryp pf) env k (sigAlg cfg) then pass pf cfg l d env s else try_again l n d env s)"

definition settled :: "chan_cfg \<Rightarrow> inbound_loop \<Rightarrow> delivery \<Rightarrow> envelope \<Rightarrow> nat \<Rightarrow> 'k conc \<Rightarrow> 'k conc" where
  "settled cfg l d env c s =
     (let ch = cc_chan s in
      if \<not> d_inject_ok d then finish l d False ch s
      else (finish l d True (record_dedup cfg (e_id env) (ch\<lparr>injected := injected ch @ [(d_kind d, d_subject d, env)]\<rparr>)) s)
             \<lparr>cc_log := cc_log s @ [(l, c)]\<rparr>)"

definition proceed :: "'k platform \<Rightarrow> chan_cfg \<Rightarrow> inbound_loop \<Rightarrow> 'k conc \<Rightarrow> 'k conc" where
  "proceed pf cfg l s =
     (case map_of (cc_tasks s) l of
        None \<Rightarrow> s
      | Some (Fetching n d env) \<Rightarrow> fetched pf cfg l n d env s
      | Some (Checking n d env k) \<Rightarrow> checked pf cfg l n d env k s
      | Some (Injecting d env c) \<Rightarrow> settled cfg l d env c s)"

datatype conc_event = Arrive nat delivery | Proceed inbound_loop

fun conc_step :: "'k platform \<Rightarrow> chan_cfg \<Rightarrow> 'k conc \<Rightarrow> conc_event \<Rightarrow> 'k conc" where
  "conc_step pf cfg s (Arrive g d) = arrive pf cfg g d s"
| "conc_step pf cfg s (Proceed l) = proceed pf cfg l s"

definition arrived :: "conc_event list \<Rightarrow> delivery list" where
  "arrived es = concat (map (\<lambda>e. case e of Arrive g d \<Rightarrow> [d] | Proceed l \<Rightarrow> []) es)"

subsection \<open>One handling without interruption\<close>

lemma run_replicate_idle: "map_of (cc_tasks s) l = None \<Longrightarrow> run (conc_step pf cfg) s (replicate n (Proceed l)) = s"
  by (induction n) (simp_all add: proceed_def)

lemma finish_fields [simp]: "cc_chan (finish l d ok ch s) = ch" "map_of (cc_tasks (finish l d ok ch s)) l = None"
  by (simp_all add: finish_def)

lemma put_fields [simp]: "cc_chan (put_task l t ch s) = ch" "map_of (cc_tasks (put_task l t ch s)) l = Some t"
  by (simp_all add: put_task_def)

definition settles :: "'k platform \<Rightarrow> chan_cfg \<Rightarrow> inbound_loop \<Rightarrow> nat \<Rightarrow> 'k conc \<Rightarrow> 'k chan \<Rightarrow> bool" where
  "settles pf cfg l n s ch \<longleftrightarrow>
     (let s' = run (conc_step pf cfg) s (replicate n (Proceed l)) in cc_chan s' = ch \<and> map_of (cc_tasks s') l = None)"

lemma settles_finish: "settles pf cfg l n (finish l d ok ch s) ch"
  by (simp add: settles_def Let_def run_replicate_idle)

lemma settles_Suc: "settles pf cfg l n (proceed pf cfg l s) ch \<Longrightarrow> settles pf cfg l (Suc n) s ch"
  by (simp add: settles_def)

definition after_ok :: "'k platform \<Rightarrow> chan_cfg \<Rightarrow> delivery \<Rightarrow> envelope \<Rightarrow> 'k chan \<Rightarrow> 'k chan" where
  "after_ok pf cfg d env s =
     (case after_verify pf cfg d env s of
        Inl (ok, ch) \<Rightarrow> ch
      | Inr ch \<Rightarrow> if \<not> d_inject_ok d then ch else record_dedup cfg (e_id env) (ch\<lparr>injected := injected ch @ [(d_kind d, d_subject d, env)]\<rparr>))"

lemma settles_pass: "settles pf cfg l (Suc n) (pass pf cfg l d env s) (after_ok pf cfg d env (cc_chan s))"
proof (cases "after_verify pf cfg d env (cc_chan s)")
  case (Inl p)
  obtain ok ch where "p = (ok, ch)" by (cases p)
  then show ?thesis using Inl settles_finish by (simp add: pass_def after_ok_def)
next
  case (Inr ch)
  have "settles pf cfg l n (proceed pf cfg l (pass pf cfg l d env s)) (after_ok pf cfg d env (cc_chan s))"
    by (simp add: pass_def after_ok_def Inr proceed_def settled_def Let_def settles_def finish_def run_replicate_idle)
  then show ?thesis by (rule settles_Suc)
qed

lemma deliver_valid_after:
  "snd (deliver_valid pf cfg d env s0) =
     (let (vr, s) = (if signingOff cfg then (VOk, s0) else verify_inbound pf cfg d env s0) in
      if vr = VDowngrade then count_downgrade s else if vr \<noteq> VOk then count_badsig s else after_ok pf cfg d env s)"
  by (auto simp: deliver_valid_def after_ok_def after_verify_def Let_def case_prod_unfold)

definition second_try :: "'k platform \<Rightarrow> chan_cfg \<Rightarrow> delivery \<Rightarrow> envelope \<Rightarrow> 'k chan \<Rightarrow> 'k chan" where
  "second_try pf cfg d env s1 =
     (let (k2, s2) = get_verify_key pf cfg d 1 (e_from env) True s1 in
      if key_accepts pf cfg env k2 then after_ok pf cfg d env s2 else count_badsig s2)"

lemma settles_check1:
  assumes "map_of (cc_tasks s) l = Some (Checking 1 d env k)"
  shows "settles pf cfg l (Suc (Suc n)) s
    (if verify_envelope (cryp pf) env k (sigAlg cfg) then after_ok pf cfg d env (cc_chan s) else count_badsig (cc_chan s))"
  by (rule settles_Suc) (simp add: proceed_def assms checked_def try_again_def settles_pass settles_finish)

lemma settles_fetch1:
  assumes "map_of (cc_tasks s) l = Some (Fetching 1 d env)"
  shows "settles pf cfg l (Suc (Suc (Suc n))) s (second_try pf cfg d env (cc_chan s))"
proof (rule settles_Suc, cases "key_of_reply pf (sigAlg cfg) (d_redis d 1 (key_name cfg (e_from env)))")
  case None
  then show "settles pf cfg l (Suc (Suc n)) (proceed pf cfg l s) (second_try pf cfg d env (cc_chan s))"
    using assms by (simp add: proceed_def fetched_def try_again_def second_try_def get_verify_key_def key_accepts_def settles_finish del: One_nat_def)
next
  case (Some k)
  let ?ch = "(cc_chan s)\<lparr>keyCache := tracked_put (cache_key cfg (e_from env)) (k, d_clock d (2 * 1 + 1) + keyCacheTtlS cfg * 1000) (keyCache (cc_chan s))\<rparr>"
  have A: "proceed pf cfg l s = put_task l (Checking 1 d env k) ?ch s"
    using assms Some by (simp add: proceed_def fetched_def Let_def del: One_nat_def)
  have B: "second_try pf cfg d env (cc_chan s) =
      (if verify_envelope (cryp pf) env k (sigAlg cfg) then after_ok pf cfg d env ?ch else count_badsig ?ch)"
    using Some by (simp add: second_try_def get_verify_key_def key_accepts_def Let_def del: One_nat_def)
  show "settles pf cfg l (Suc (Suc n)) (proceed pf cfg l s) (second_try pf cfg d env (cc_chan s))"
    unfolding A B using settles_check1 [OF put_fields(2) [of l "Checking 1 d env k" ?ch s], of pf cfg n] unfolding put_fields(1) .
qed

lemma settles_check0:
  assumes "map_of (cc_tasks s) l = Some (Checking 0 d env k)"
  shows "settles pf cfg l (Suc (Suc (Suc (Suc n)))) s
    (if verify_envelope (cryp pf) env k (sigAlg cfg) then after_ok pf cfg d env (cc_chan s) else second_try pf cfg d env (cc_chan s))"
proof (rule settles_Suc)
  let ?s = "put_task l (Fetching 1 d env) (cc_chan s) s"
  have "settles pf cfg l (Suc (Suc (Suc n))) ?s (second_try pf cfg d env (cc_chan s))"
    using settles_fetch1 [of ?s l d env pf cfg n] by simp
  then show "settles pf cfg l (Suc (Suc (Suc n))) (proceed pf cfg l s)
    (if verify_envelope (cryp pf) env k (sigAlg cfg) then after_ok pf cfg d env (cc_chan s) else second_try pf cfg d env (cc_chan s))"
    by (simp add: proceed_def assms checked_def try_again_def settles_pass)
qed

lemma settles_ask:
  "settles pf cfg l (Suc (Suc (Suc (Suc (Suc n))))) (put_task l (ask_key pf cfg d env ch) ch s)
    (let (k1, s1) = get_verify_key pf cfg d 0 (e_from env) False ch in
     if key_accepts pf cfg env k1 then after_ok pf cfg d env s1 else second_try pf cfg d env s1)" (is "settles pf cfg l _ ?s ?ch")
proof (cases "case map_of (keyCache ch) (cache_key cfg (e_from env)) of None \<Rightarrow> False | Some (k, e) \<Rightarrow> e > d_clock d 0")
  case True
  then obtain k e where c: "map_of (keyCache ch) (cache_key cfg (e_from env)) = Some (k, e)" "e > d_clock d 0" by (auto split: option.splits)
  then have A: "ask_key pf cfg d env ch = Checking 0 d env k"
    and B: "?ch = (if verify_envelope (cryp pf) env k (sigAlg cfg) then after_ok pf cfg d env ch else second_try pf cfg d env ch)"
    by (simp_all add: ask_key_def get_verify_key_def key_accepts_def)
  show ?thesis unfolding A B using settles_check0 [OF put_fields(2) [of l "Checking 0 d env k" ch s], of pf cfg "Suc n"]
    unfolding put_fields(1) .
next
  case False
  let ?r = "key_of_reply pf (sigAlg cfg) (d_redis d 0 (key_name cfg (e_from env)))"
  have ask: "ask_key pf cfg d env ch = Fetching 0 d env" using False by (auto simp: ask_key_def split: option.splits)
  have get: "get_verify_key pf cfg d 0 (e_from env) False ch = (case ?r of None \<Rightarrow> (None, ch)
      | Some k \<Rightarrow> (Some k, ch\<lparr>keyCache := tracked_put (cache_key cfg (e_from env)) (k, d_clock d 1 + keyCacheTtlS cfg * 1000) (keyCache ch)\<rparr>))"
    using False by (auto simp: get_verify_key_def Let_def split: option.splits)
  show ?thesis
  proof (rule settles_Suc, cases ?r)
    case None
    then show "settles pf cfg l (Suc (Suc (Suc (Suc n)))) (proceed pf cfg l ?s) ?ch"
      using settles_fetch1 [of "put_task l (Fetching 1 d env) ch ?s" l d env pf cfg "Suc n"]
      by (simp add: ask get proceed_def fetched_def try_again_def key_accepts_def)
  next
    case (Some k)
    let ?ch1 = "ch\<lparr>keyCache := tracked_put (cache_key cfg (e_from env)) (k, d_clock d 1 + keyCacheTtlS cfg * 1000) (keyCache ch)\<rparr>"
    have A: "proceed pf cfg l ?s = put_task l (Checking 0 d env k) ?ch1 ?s" using Some by (simp add: ask proceed_def fetched_def Let_def)
    have B: "?ch = (if verify_envelope (cryp pf) env k (sigAlg cfg) then after_ok pf cfg d env ?ch1 else second_try pf cfg d env ?ch1)"
      using Some by (simp add: get key_accepts_def)
    show "settles pf cfg l (Suc (Suc (Suc (Suc n)))) (proceed pf cfg l ?s) ?ch"
      unfolding A B using settles_check0 [OF put_fields(2) [of l "Checking 0 d env k" ?ch1 ?s], of pf cfg n] unfolding put_fields(1) .
  qed
qed

lemma settles_done: "settles pf cfg l n (finish l d ok ch s) ch' \<longleftrightarrow> ch' = ch"
  by (auto simp: settles_def Let_def run_replicate_idle)

text \<open>Run alone, a handling does what \<open>handle_inbound\<close> does: at most five awaits.\<close>

theorem uninterrupted_handling:
  assumes "map_of (cc_tasks s) (loop_of g d) = None"
  shows "settles pf cfg (loop_of g d) 5 (arrive pf cfg g d s) (snd (handle_inbound pf cfg d (cc_chan s)))"
proof -
  have five: "5 = Suc (Suc (Suc (Suc (Suc 0))))" by simp
  show ?thesis
  proof (cases "\<exists>v. d_json d = Some v \<and> is_valid_inbound (\<lambda>x. date_val pf x \<noteq> None) v")
    case False
    then show ?thesis using assms
      by (cases "d_json d") (auto simp: arrive_def handle_inbound_def Let_def settles_done)
  next
    case True
    then obtain v where v: "d_json d = Some v" "is_valid_inbound (\<lambda>x. date_val pf x \<noteq> None) v" by blast
    let ?env = "as_envelope v" and ?ch = "cc_chan s" and ?l = "loop_of g d"
    have h: "snd (handle_inbound pf cfg d ?ch) = snd (deliver_valid pf cfg d ?env ?ch)" using v by (simp add: handle_inbound_def)
    consider (off) "signingOff cfg" | (bad) "\<not> signingOff cfg" "e_alg ?env \<noteq> Some (alg_str (sigAlg cfg)) \<or> e_sig ?env \<in> {None, Some []}"
      | (ask) "\<not> signingOff cfg" "e_alg ?env = Some (alg_str (sigAlg cfg))" "e_sig ?env \<notin> {None, Some []}" by blast
    then show ?thesis
    proof cases
      case off
      then show ?thesis using v assms settles_pass [of pf cfg ?l 4 d ?env s]
        by (simp add: h arrive_def deliver_valid_after)
    next
      case bad
      then show ?thesis using v assms
        by (auto simp: h arrive_def deliver_valid_after verify_inbound_def Let_def settles_done)
    next
      case ask
      then have sig: "e_sig ?env \<noteq> None" "e_sig ?env \<noteq> Some []" by auto
      from ask have "arrive pf cfg g d s = put_task ?l (ask_key pf cfg d ?env ?ch) ?ch s" using v assms sig by (simp add: arrive_def Let_def del: not_None_eq)
      moreover have "snd (deliver_valid pf cfg d ?env ?ch) = (let (k1, s1) = get_verify_key pf cfg d 0 (e_from ?env) False ?ch in
          if key_accepts pf cfg ?env k1 then after_ok pf cfg d ?env s1 else second_try pf cfg d ?env s1)"
        using ask sig by (simp add: deliver_valid_after verify_inbound_def second_try_def case_prod_unfold Let_def del: One_nat_def not_None_eq)
      ultimately show ?thesis using settles_ask [of pf cfg ?l 0 d ?env ?ch s] by (simp add: h five)
    qed
  qed
qed

subsection \<open>The window of remembered ids\<close>

definition push_id :: "nat \<Rightarrow> string list \<Rightarrow> string \<Rightarrow> string list" where
  "push_id lru ord i = (if i \<in> set ord then ord else drop (Suc (length ord) - lru) (ord @ [i]))"

definition window :: "nat \<Rightarrow> string list \<Rightarrow> string list" where
  "window lru ids = foldl (push_id lru) [] ids"

lemma window_Nil [simp]: "window lru [] = []"
  by (simp add: window_def)

lemma window_snoc [simp]: "window lru (ids @ [i]) = push_id lru (window lru ids) i"
  by (simp add: window_def)

lemma distinct_push: "distinct ord \<Longrightarrow> distinct (push_id lru ord i)"
  using distinct_drop [of "ord @ [i]"] by (simp add: push_id_def del: drop_append)

lemma distinct_window [simp]: "distinct (window lru ids)"
  by (induction ids rule: rev_induct) (simp_all add: distinct_push)

lemma set_push: "set (push_id lru ord i) \<subseteq> insert i (set ord)"
  using set_drop_subset [of "Suc (length ord) - lru" "ord @ [i]"] by (auto simp: push_id_def simp del: drop_append)

lemma window_append_subset: "set (window lru (xs @ ys)) \<subseteq> set (window lru xs) \<union> set ys"
proof (induction ys rule: rev_induct)
  case (snoc y ys)
  then have IH: "set (window lru (xs @ ys)) \<subseteq> set (window lru xs) \<union> set ys" .
  show ?case using set_push [of lru "window lru (xs @ ys)" y] IH by (simp flip: append_assoc) blast
qed simp

text \<open>An id that was new when it was recorded stays for the next \<open>lru - 1\<close> injections.\<close>

lemma window_recent:
  assumes "x \<notin> set (window lru xs)"
  shows "length ys < lru \<Longrightarrow> x \<in> set (window lru (xs @ x # ys))"
proof -
  have "length ys < lru \<Longrightarrow> \<exists>as bs. window lru (xs @ x # ys) = as @ x # bs \<and> length bs \<le> length ys"
  proof (induction ys rule: rev_induct)
    case Nil
    then have "window lru (xs @ [x]) = drop (Suc (length (window lru xs)) - lru) (window lru xs) @ [x]"
      using assms by (simp add: push_id_def)
    then show ?case by auto
  next
    case (snoc y ys)
    then obtain as bs where w: "window lru (xs @ x # ys) = as @ x # bs" "length bs \<le> length ys" by auto
    have step: "window lru (xs @ x # ys @ [y]) = push_id lru (as @ x # bs) y" using w(1) window_snoc [of lru "xs @ x # ys" y] by simp
    show ?case
    proof (cases "y \<in> set (as @ x # bs)")
      case True
      then have "window lru (xs @ x # ys @ [y]) = as @ x # bs" by (simp only: step push_id_def if_True)
      then show ?thesis using w(2) by (intro exI [of _ as] exI [of _ bs]) simp
    next
      case False
      let ?k = "Suc (length (as @ x # bs)) - lru"
      have "?k \<le> length as" using w(2) snoc.prems by simp
      then have "drop ?k (as @ x # bs @ [y]) = drop ?k as @ x # bs @ [y]" by simp
      then have "window lru (xs @ x # ys @ [y]) = drop ?k as @ x # bs @ [y]" using False by (simp add: step push_id_def)
      then show ?thesis using w(2) by (intro exI [of _ "drop ?k as"] exI [of _ "bs @ [y]"]) simp
    qed
  qed
  then show "length ys < lru \<Longrightarrow> ?thesis" by auto
qed

lemma record_dedup_push:
  assumes "dedup s = set (dedupOrder s)" "distinct (dedupOrder s)"
  shows "dedupOrder (record_dedup cfg i s) = push_id (dedupLru cfg) (dedupOrder s) i
    \<and> dedup (record_dedup cfg i s) = set (push_id (dedupLru cfg) (dedupOrder s) i)"
proof (cases "i \<in> dedup s")
  case True
  then show ?thesis using assms by (simp add: record_dedup_def push_id_def)
next
  case False
  define ord where "ord = dedupOrder s @ [i]"
  define m where "m = length ord - dedupLru cfg"
  have d: "distinct ord" "i \<notin> set (dedupOrder s)" using False assms by (simp_all add: ord_def)
  have r: "record_dedup cfg i s = s\<lparr>dedup := insert i (dedup s) - set (take m ord), dedupOrder := drop m ord\<rparr>"
    using False by (simp add: record_dedup_def trim_dedup_eq ord_def m_def)
  have "set (take m ord) \<inter> set (drop m ord) = {}" using d(1) by (metis append_take_drop_id distinct_append)
  moreover have "insert i (dedup s) = set (take m ord) \<union> set (drop m ord)"
    unfolding assms(1) by (simp flip: set_append) (simp add: ord_def)
  ultimately have "insert i (dedup s) - set (take m ord) = set (drop m ord)" by blast
  moreover have "push_id (dedupLru cfg) (dedupOrder s) i = drop m ord" using d(2) by (simp add: push_id_def ord_def m_def)
  ultimately show ?thesis by (simp add: r)
qed

subsection \<open>The invariant\<close>

definition ids_of :: "'k conc \<Rightarrow> string list" where
  "ids_of s = injected_ids (cc_chan s)"

definition signed_ok :: "'k platform \<Rightarrow> chan_cfg \<Rightarrow> delivery list \<Rightarrow> envelope \<Rightarrow> bool" where
  "signed_ok pf cfg ds env \<longleftrightarrow>
     (\<not> signingOff cfg \<longrightarrow> (\<exists>k. registered pf cfg ds (e_from env) k \<and> verify_envelope (cryp pf) env k (sigAlg cfg)))"

definition task_base :: "'k platform \<Rightarrow> delivery list \<Rightarrow> inbound_loop \<Rightarrow> delivery \<Rightarrow> envelope \<Rightarrow> bool" where
  "task_base pf ds l d env \<longleftrightarrow> d \<in> set ds \<and> (\<exists>g. loop_of g d = l)
     \<and> (\<exists>v. d_json d = Some v \<and> is_valid_inbound (\<lambda>x. date_val pf x \<noteq> None) v \<and> env = as_envelope v)"

definition check_ok :: "chan_cfg \<Rightarrow> string list \<Rightarrow> (inbound_loop \<times> nat) list \<Rightarrow> inbound_loop \<Rightarrow> nat \<Rightarrow> string \<Rightarrow> bool" where
  "check_ok cfg ids lg l c i \<longleftrightarrow> c \<le> length ids \<and> i \<notin> set (window (dedupLru cfg) (take c ids)) \<and> (\<forall>k < length lg. fst (lg ! k) = l \<longrightarrow> k < c)"

definition task_ok :: "'k platform \<Rightarrow> chan_cfg \<Rightarrow> delivery list \<Rightarrow> string list \<Rightarrow> (inbound_loop \<times> nat) list \<Rightarrow> inbox \<Rightarrow> inbound_loop \<times> 'k task \<Rightarrow> bool" where
  "task_ok pf cfg ds ids lg db lt =
     (case lt of
        (l, Fetching n d env) \<Rightarrow> task_base pf ds l d env
      | (l, Checking n d env k) \<Rightarrow> task_base pf ds l d env \<and> registered pf cfg ds (e_from env) k
      | (l, Injecting d env c) \<Rightarrow> task_base pf ds l d env \<and> signed_ok pf cfg ds env \<and> e_from env \<noteq> agentId cfg \<and> route_ok cfg d env
          \<and> (d_kind d = Direct \<longrightarrow> (agentId cfg, e_id env) \<in> row_id ` set db) \<and> check_ok cfg ids lg l c (e_id env))"

definition entry_ok :: "chan_cfg \<Rightarrow> string list \<Rightarrow> (inbound_loop \<times> nat) list \<Rightarrow> (a2a_kind \<times> string \<times> envelope) list \<Rightarrow> nat \<Rightarrow> bool" where
  "entry_ok cfg ids lg ij i \<longleftrightarrow>
     check_ok cfg (take i ids) (take i lg) (fst (lg ! i)) (snd (lg ! i)) (ids ! i)
     \<and> (\<exists>g. fst (lg ! i) = kind_loop g (fst (ij ! i)) (fst (snd (ij ! i))))"

definition conc_inv :: "'k platform \<Rightarrow> chan_cfg \<Rightarrow> delivery list \<Rightarrow> 'k conc \<Rightarrow> bool" where
  "conc_inv pf cfg ds s \<longleftrightarrow>
     (let ch = cc_chan s; ids = ids_of s in
      cache_ok pf cfg ds ch \<and> inbox_wf (inboxDb ch) \<and> distinct (map fst (cc_tasks s))
      \<and> list_all (task_ok pf cfg ds ids (cc_log s) (inboxDb ch)) (cc_tasks s)
      \<and> list_all (\<lambda>(kind, subj, env). trusted pf cfg ds (inboxDb ch) kind subj env) (injected ch)
      \<and> length (cc_log s) = length ids \<and> (\<forall>i < length ids. entry_ok cfg ids (cc_log s) (injected ch) i)
      \<and> dedup ch = set (dedupOrder ch) \<and> distinct (dedupOrder ch) \<and> dedupOrder ch = window (dedupLru cfg) ids)"

lemma task_ok_mono:
  assumes "task_ok pf cfg ds ids lg db lt" "db_grows db db'"
  shows "task_ok pf cfg (ds @ ds') ids lg db' lt"
proof -
  have b: "task_base pf ds l d env \<Longrightarrow> task_base pf (ds @ ds') l d env" for l d env by (auto simp: task_base_def)
  have s: "signed_ok pf cfg ds env \<Longrightarrow> signed_ok pf cfg (ds @ ds') env" for env by (auto simp: signed_ok_def intro: registered_mono)
  show ?thesis using assms by (auto simp: task_ok_def db_grows_def split: task.splits intro: registered_mono b s)
qed

lemma conc_inv_mono: "conc_inv pf cfg ds s \<Longrightarrow> conc_inv pf cfg (ds @ ds') s"
  using task_ok_mono [OF _ db_grows_refl] trusted_mono [OF _ db_grows_refl] cache_ok_mono
  by (fastforce simp: conc_inv_def Let_def list_all_iff)

text \<open>What a step may do to the channel without touching the history.\<close>

definition calm :: "'k platform \<Rightarrow> chan_cfg \<Rightarrow> delivery list \<Rightarrow> 'k chan \<Rightarrow> 'k chan \<Rightarrow> bool" where
  "calm pf cfg ds ch ch' \<longleftrightarrow> quiet ch ch' \<and> cache_ok pf cfg ds ch' \<and> db_grows (inboxDb ch) (inboxDb ch')"

lemma calm_at_rest: "cache_ok pf cfg ds ch \<Longrightarrow> calm pf cfg ds ch ch"
  by (simp add: calm_def quiet_def)

lemma calm_count:
  "cache_ok pf cfg ds ch \<Longrightarrow> calm pf cfg ds ch (count_mal ch)" "cache_ok pf cfg ds ch \<Longrightarrow> calm pf cfg ds ch (count_downgrade ch)"
  "cache_ok pf cfg ds ch \<Longrightarrow> calm pf cfg ds ch (count_badsig ch)"
  by (simp_all add: calm_def quiet_def cache_ok_def)

lemma conc_inv_change:
  assumes inv: "conc_inv pf cfg ds s" and calm: "calm pf cfg ds (cc_chan s) ch"
    and sub: "\<And>lt. lt \<in> set ts \<Longrightarrow> lt \<in> set (cc_tasks s) \<or> task_ok pf cfg ds (ids_of s) (cc_log s) (inboxDb ch) lt" and d: "distinct (map fst ts)"
  shows "conc_inv pf cfg ds (s\<lparr>cc_chan := ch, cc_tasks := ts, cc_answers := as\<rparr>)"
proof -
  have same: "injected ch = injected (cc_chan s)" "dedup ch = dedup (cc_chan s)" "dedupOrder ch = dedupOrder (cc_chan s)"
    "cache_ok pf cfg ds ch" "db_grows (inboxDb (cc_chan s)) (inboxDb ch)"
    using calm by (simp_all add: calm_def quiet_def)
  have ids: "ids_of (s\<lparr>cc_chan := ch, cc_tasks := ts, cc_answers := as\<rparr>) = ids_of s" by (simp add: ids_of_def injected_ids_def same)
  have t: "task_ok pf cfg ds (ids_of s) (cc_log s) (inboxDb ch) lt" if "lt \<in> set ts" for lt
    using sub [OF that] inv task_ok_mono [OF _ same(5), where ds' = "[]" and lt = lt] by (auto simp: conc_inv_def Let_def list_all_iff)
  have grow: "trusted pf cfg ds (inboxDb (cc_chan s)) kind subj env \<Longrightarrow> trusted pf cfg ds (inboxDb ch) kind subj env" for kind subj env
    using trusted_mono [OF _ same(5), where ds' = "[]"] by simp
  have tr: "list_all (\<lambda>(kind, subj, env). trusted pf cfg ds (inboxDb ch) kind subj env) (injected ch)"
    using inv by (auto simp: conc_inv_def Let_def list_all_iff same(1) intro: grow)
  have wf: "inbox_wf (inboxDb ch)" using inv same(5) by (auto simp: conc_inv_def Let_def db_grows_def)
  show ?thesis using inv t tr wf same d by (simp add: conc_inv_def Let_def ids list_all_iff)
qed

lemma inv_cache: "conc_inv pf cfg ds s \<Longrightarrow> cache_ok pf cfg ds (cc_chan s)"
  by (simp add: conc_inv_def Let_def)

lemma inv_finish: "conc_inv pf cfg ds s \<Longrightarrow> calm pf cfg ds (cc_chan s) ch \<Longrightarrow> conc_inv pf cfg ds (finish l d ok ch s)"
  unfolding finish_def by (rule conc_inv_change) (auto simp: AList.delete_eq conc_inv_def Let_def distinct_map_filter)

lemma inv_put:
  assumes inv: "conc_inv pf cfg ds s" and calm: "calm pf cfg ds (cc_chan s) ch"
    and t: "task_ok pf cfg ds (ids_of s) (cc_log s) (inboxDb ch) (l, t)"
  shows "conc_inv pf cfg ds (put_task l t ch s)"
proof -
  have "conc_inv pf cfg ds (s\<lparr>cc_chan := ch, cc_tasks := AList.update l t (cc_tasks s), cc_answers := cc_answers s\<rparr>)"
  proof (rule conc_inv_change [OF inv calm])
    show "lt \<in> set (cc_tasks s) \<or> task_ok pf cfg ds (ids_of s) (cc_log s) (inboxDb ch) lt" if "lt \<in> set (AList.update l t (cc_tasks s))" for lt
      using that set_update_subset [of l t "cc_tasks s"] t by auto
    show "distinct (map fst (AList.update l t (cc_tasks s)))" using inv by (simp add: conc_inv_def Let_def distinct_update)
  qed
  then show ?thesis by (cases s) (simp add: put_task_def)
qed

lemma after_verify_spec:
  assumes "cache_ok pf cfg ds ch"
  shows "case after_verify pf cfg d env ch of
      Inl (ok, ch') \<Rightarrow> calm pf cfg ds ch ch'
    | Inr ch' \<Rightarrow> calm pf cfg ds ch ch' \<and> e_id env \<notin> dedup ch \<and> e_from env \<noteq> agentId cfg \<and> route_ok cfg d env
        \<and> (d_kind d = Direct \<longrightarrow> (agentId cfg, e_id env) \<in> row_id ` set (inboxDb ch'))"
proof -
  obtain st ch1 where p: "(if d_kind d = Direct then persist_direct pf cfg d env ch else (True, ch)) = (st, ch1)" by fastforce
  have c1: "calm pf cfg ds ch ch1" "st \<longrightarrow> d_kind d = Direct \<longrightarrow> (agentId cfg, e_id env) \<in> row_id ` set (inboxDb ch1)"
  proof -
    have "calm pf cfg ds ch ch1 \<and> (st \<longrightarrow> d_kind d = Direct \<longrightarrow> (agentId cfg, e_id env) \<in> row_id ` set (inboxDb ch1))"
    proof (cases "d_kind d = Direct")
      case True
      then have "persist_direct pf cfg d env ch = (st, ch1)" using p by simp
      from persist_direct_spec [OF this] obtain db where "ch1 = ch\<lparr>inboxDb := db\<rparr>" "db_grows (inboxDb ch) (inboxDb ch1)"
        "st \<longrightarrow> (agentId cfg, e_id env) \<in> row_id ` set (inboxDb ch1)" by blast
      moreover have "cache_ok pf cfg ds (ch\<lparr>inboxDb := db\<rparr>)" using assms by (simp add: cache_ok_def)
      ultimately show ?thesis by (simp add: calm_def quiet_def)
    next
      case False
      then show ?thesis using p calm_at_rest [OF assms] by simp
    qed
    then show "calm pf cfg ds ch ch1" "st \<longrightarrow> d_kind d = Direct \<longrightarrow> (agentId cfg, e_id env) \<in> row_id ` set (inboxDb ch1)" by blast+
  qed
  have counts: "calm pf cfg ds ch (count_dup ch)" "calm pf cfg ds ch (count_expired ch)" "calm pf cfg ds ch (count_self ch)"
    "calm pf cfg ds ch (count_mal ch)" "calm pf cfg ds ch (count_misroute ch)" "calm pf cfg ds ch (ch\<lparr>throttled := Suc (throttled ch)\<rparr>)"
    using assms by (simp_all add: calm_def quiet_def cache_ok_def)
  show ?thesis unfolding after_verify_def p Let_def prod.case using c1 counts by simp
qed

lemma inv_pass:
  assumes inv: "conc_inv pf cfg ds s" and base: "task_base pf ds l d env" "signed_ok pf cfg ds env"
  shows "conc_inv pf cfg ds (pass pf cfg l d env s)"
proof (cases "after_verify pf cfg d env (cc_chan s)")
  case (Inl p)
  obtain ok ch where p: "p = (ok, ch)" by (cases p)
  have "calm pf cfg ds (cc_chan s) ch" using after_verify_spec [OF inv_cache [OF inv], where d = d and env = env] Inl p by simp
  then show ?thesis using inv_finish [OF inv] by (simp add: pass_def Inl p)
next
  case (Inr ch)
  have sp: "calm pf cfg ds (cc_chan s) ch" "e_id env \<notin> dedup (cc_chan s)" "e_from env \<noteq> agentId cfg" "route_ok cfg d env"
      "d_kind d = Direct \<longrightarrow> (agentId cfg, e_id env) \<in> row_id ` set (inboxDb ch)"
    using after_verify_spec [where pf = pf and cfg = cfg and ds = ds and ch = "cc_chan s" and d = d and env = env] inv Inr by (simp_all add: conc_inv_def Let_def)
  then have "injected ch = injected (cc_chan s)" by (simp add: calm_def quiet_def)
  then have "check_ok cfg (ids_of s) (cc_log s) l (length (injected ch)) (e_id env)"
    using inv sp(2) by (auto simp: check_ok_def conc_inv_def Let_def ids_of_def injected_ids_def)
  then show ?thesis unfolding pass_def Inr sum.case using base sp
    by (intro inv_put [OF inv sp(1)]) (simp add: task_ok_def)
qed

lemma entry_ok_append:
  assumes "i < length ids" "length lg = length ids" "length ij = length ids"
  shows "entry_ok cfg (ids @ x) (lg @ y) (ij @ z) i = entry_ok cfg ids lg ij i"
  using assms by (simp add: entry_ok_def nth_append)

lemma inv_settled:
  assumes inv: "conc_inv pf cfg ds s" and t: "(l, Injecting d env c) \<in> set (cc_tasks s)"
  shows "conc_inv pf cfg ds (settled cfg l d env c s)"
proof (cases "d_inject_ok d")
  case False
  then have "settled cfg l d env c s = finish l d False (cc_chan s) s" by (simp add: settled_def Let_def)
  then show ?thesis using inv_finish [OF inv calm_at_rest [OF inv_cache [OF inv]]] by simp
next
  case True
  define ch where "ch = record_dedup cfg (e_id env) ((cc_chan s)\<lparr>injected := injected (cc_chan s) @ [(d_kind d, d_subject d, env)]\<rparr>)"
  define s' where "s' = settled cfg l d env c s"
  let ?ids = "ids_of s" and ?lg = "cc_log s" and ?ij = "injected (cc_chan s)"
  have s': "cc_chan s' = ch" "cc_tasks s' = AList.delete l (cc_tasks s)" "cc_log s' = ?lg @ [(l, c)]"
    using True by (simp_all add: s'_def settled_def finish_def ch_def Let_def)
  have ij: "injected ch = ?ij @ [(d_kind d, d_subject d, env)]" "inboxDb ch = inboxDb (cc_chan s)" "keyCache ch = keyCache (cc_chan s)"
    by (simp_all add: ch_def)
  then have ids: "ids_of s' = ?ids @ [e_id env]" by (simp add: ids_of_def injected_ids_def s')
  have i: "cache_ok pf cfg ds ch" "inbox_wf (inboxDb ch)" "distinct (map fst (cc_tasks s'))" "length (cc_log s') = length (ids_of s')"
    using inv ij by (auto simp: conc_inv_def Let_def cache_ok_def s' ids AList.delete_eq distinct_map_filter)
  have len: "length ?lg = length ?ids" "length ?ij = length ?ids" using inv by (simp_all add: conc_inv_def Let_def ids_of_def injected_ids_def)
  have tk: "task_ok pf cfg ds ?ids ?lg (inboxDb (cc_chan s)) lt" if "lt \<in> set (cc_tasks s)" for lt
    using inv that by (auto simp: conc_inv_def Let_def list_all_iff)
  have chk: "check_ok cfg (?ids @ [e_id env]) (?lg @ [(l, c)]) l' c' j" if "check_ok cfg ?ids ?lg l' c' j" "l' \<noteq> l" for l' c' j
    using that len by (auto simp: check_ok_def nth_append)
  have tasks: "list_all (task_ok pf cfg ds (ids_of s') (cc_log s') (inboxDb ch)) (cc_tasks s')"
  proof (unfold list_all_iff, intro ballI)
    fix lt assume "lt \<in> set (cc_tasks s')"
    then have "lt \<in> set (cc_tasks s)" "fst lt \<noteq> l" by (auto simp: s' AList.delete_eq)
    then show "task_ok pf cfg ds (ids_of s') (cc_log s') (inboxDb ch) lt"
      using tk [of lt] by (auto simp: task_ok_def ids s'(3) ij(2) intro: chk split: task.splits)
  qed
  have this_task: "task_base pf ds l d env" "signed_ok pf cfg ds env" "e_from env \<noteq> agentId cfg" "route_ok cfg d env"
      "d_kind d = Direct \<longrightarrow> (agentId cfg, e_id env) \<in> row_id ` set (inboxDb (cc_chan s))" "check_ok cfg ?ids ?lg l c (e_id env)"
    using tk [OF t] by (simp_all add: task_ok_def)
  then have "is_token (e_from env)" "recipient_ok (e_to env)" using valid_inbound_tokens by (auto simp: task_base_def)
  then have "trusted pf cfg ds (inboxDb ch) (d_kind d) (d_subject d) env"
    using this_task route_ok_topic [of cfg d env] by (cases "d_kind d") (auto simp: trusted_def signed_ok_def ij(2) route_ok_def)
  then have trust: "list_all (\<lambda>(kind, subj, env). trusted pf cfg ds (inboxDb ch) kind subj env) (injected ch)"
    using inv by (auto simp: ij(1,2) conc_inv_def Let_def list_all_iff)
  have "\<exists>g. l = kind_loop g (d_kind d) (d_subject d)" using this_task(1) by (auto simp: task_base_def loop_of_def)
  then have "entry_ok cfg (ids_of s') (cc_log s') (injected ch) (length ?ids)"
    using this_task(6) len by (simp add: entry_ok_def ids s'(3) ij(1) nth_append)
  moreover have "entry_ok cfg (ids_of s') (cc_log s') (injected ch) k" if "k < length ?ids" for k
    using inv that unfolding ids s'(3) ij(1) entry_ok_append [OF that len] by (simp add: conc_inv_def Let_def)
  ultimately have entries: "\<forall>k < length (ids_of s'). entry_ok cfg (ids_of s') (cc_log s') (injected ch) k"
    by (auto simp: ids less_Suc_eq)
  have "dedup (cc_chan s) = set (dedupOrder (cc_chan s))" "dedupOrder (cc_chan s) = window (dedupLru cfg) ?ids"
    using inv by (simp_all add: conc_inv_def Let_def)
  then have "dedupOrder ch = window (dedupLru cfg) (ids_of s')" "dedup ch = set (dedupOrder ch)"
    using record_dedup_push [of "(cc_chan s)\<lparr>injected := injected (cc_chan s) @ [(d_kind d, d_subject d, env)]\<rparr>" cfg "e_id env"]
    by (simp_all add: ch_def ids)
  then show ?thesis using i tasks trust entries unfolding s'_def [symmetric] conc_inv_def s'(1) Let_def by simp
qed

lemma inv_try_again:
  assumes inv: "conc_inv pf cfg ds s" and base: "task_base pf ds l d env"
  shows "conc_inv pf cfg ds (try_again l n d env s)"
proof -
  note ca = inv_cache [OF inv]
  have "conc_inv pf cfg ds (put_task l (Fetching 1 d env) (cc_chan s) s)"
    by (rule inv_put [OF inv calm_at_rest [OF ca]]) (simp add: task_ok_def base)
  then show ?thesis using inv_finish [OF inv calm_count(3) [OF ca]] by (simp add: try_again_def)
qed

lemma inv_proceed:
  assumes inv: "conc_inv pf cfg ds s"
  shows "conc_inv pf cfg ds (proceed pf cfg l s)"
proof (cases "map_of (cc_tasks s) l")
  case None
  then show ?thesis using inv by (simp add: proceed_def)
next
  case (Some t)
  then have mem: "(l, t) \<in> set (cc_tasks s)" by (rule map_of_SomeD)
  then have ok: "task_ok pf cfg ds (ids_of s) (cc_log s) (inboxDb (cc_chan s)) (l, t)"
    using inv by (auto simp: conc_inv_def Let_def list_all_iff)
  note ca = inv_cache [OF inv]
  show ?thesis
  proof (cases t)
    case (Fetching n d env)
    then have base: "task_base pf ds l d env" using ok by (simp add: task_ok_def)
    have "conc_inv pf cfg ds (fetched pf cfg l n d env s)"
    proof (cases "key_of_reply pf (sigAlg cfg) (d_redis d n (key_name cfg (e_from env)))")
      case None
      then show ?thesis using inv_try_again [OF inv base] by (simp add: fetched_def)
    next
      case (Some k)
      then have reg: "registered pf cfg ds (e_from env) k" using base by (auto simp: registered_def task_base_def)
      let ?ch = "(cc_chan s)\<lparr>keyCache := tracked_put (cache_key cfg (e_from env)) (k, d_clock d (2 * n + 1) + keyCacheTtlS cfg * 1000) (keyCache (cc_chan s))\<rparr>"
      have "cache_ok pf cfg ds ?ch"
        using ca reg set_tracked_put [of "cache_key cfg (e_from env)" "(k, d_clock d (2 * n + 1) + keyCacheTtlS cfg * 1000)" "keyCache (cc_chan s)"]
        unfolding cache_ok_def by fastforce
      then have "calm pf cfg ds (cc_chan s) ?ch" by (simp add: calm_def quiet_def)
      from inv_put [OF inv this, of l "Checking n d env k"] show ?thesis
        using base reg by (simp add: fetched_def Some Let_def task_ok_def)
    qed
    then show ?thesis using Some Fetching by (simp add: proceed_def)
  next
    case (Checking n d env k)
    then have base: "task_base pf ds l d env" "registered pf cfg ds (e_from env) k" using ok by (simp_all add: task_ok_def)
    then have "verify_envelope (cryp pf) env k (sigAlg cfg) \<Longrightarrow> signed_ok pf cfg ds env" by (auto simp: signed_ok_def)
    then show ?thesis using Some Checking inv_pass [OF inv base(1)] inv_try_again [OF inv base(1)]
      by (simp add: proceed_def checked_def)
  next
    case (Injecting d env c)
    then show ?thesis using Some inv_settled [OF inv] mem by (simp add: proceed_def)
  qed
qed

lemma inv_arrive:
  assumes inv: "conc_inv pf cfg ds s" and d: "d \<in> set ds"
  shows "conc_inv pf cfg ds (arrive pf cfg g d s)"
proof (cases "map_of (cc_tasks s) (loop_of g d) = None \<and> (\<exists>v. d_json d = Some v \<and> is_valid_inbound (\<lambda>x. date_val pf x \<noteq> None) v)")
  case False
  then show ?thesis using inv inv_finish [OF inv calm_count(1) [OF inv_cache [OF inv]]]
    by (auto simp: arrive_def Let_def split: option.splits)
next
  case True
  then obtain v where v: "d_json d = Some v" "is_valid_inbound (\<lambda>x. date_val pf x \<noteq> None) v" by blast
  let ?env = "as_envelope v" and ?l = "loop_of g d"
  note ca = inv_cache [OF inv]
  have base: "task_base pf ds ?l d ?env" using v d by (auto simp: task_base_def)
  have ask: "task_ok pf cfg ds ids lg db (?l, ask_key pf cfg d ?env (cc_chan s))" for ids lg db
    using ca base by (auto simp: ask_key_def task_ok_def cache_ok_def dest!: map_of_SomeD split: option.splits)
  have "signingOff cfg \<Longrightarrow> conc_inv pf cfg ds (pass pf cfg ?l d ?env s)"
    by (rule inv_pass [OF inv base]) (simp add: signed_ok_def)
  moreover have "conc_inv pf cfg ds (put_task ?l (ask_key pf cfg d ?env (cc_chan s)) (cc_chan s) s)"
    by (rule inv_put [OF inv calm_at_rest [OF ca] ask])
  ultimately show ?thesis
    using True v inv_finish [OF inv calm_count(2) [OF ca]] inv_finish [OF inv calm_count(3) [OF ca]]
    by (simp add: arrive_def Let_def del: not_None_eq)
qed

lemma conc_inv_run: "conc_inv pf cfg (arrived es) (run (conc_step pf cfg) conc_new es)"
proof (induction es rule: rev_induct)
  case Nil
  show ?case by (simp add: conc_inv_def conc_new_def chan_new_def cache_ok_def inbox_wf_def ids_of_def injected_ids_def Let_def)
next
  case (snoc e es)
  have "conc_inv pf cfg (arrived (es @ [e])) (run (conc_step pf cfg) conc_new es)"
    using conc_inv_mono [OF snoc] by (simp add: arrived_def)
  then show ?case using inv_arrive inv_proceed
    by (cases e) (auto simp: run_append arrived_def intro!: inv_arrive)
qed

subsection \<open>What is injected\<close>

lemma toy_after:
  "after_verify toy_platform toy_cfg toy_delivery toy_env ch = (if ''a|1'' \<in> dedup ch then Inl (True, count_dup ch) else Inr ch)"
proof -
  have "\<not> expired toy_platform toy_delivery toy_env" "route_ok toy_cfg toy_delivery toy_env" "agentId toy_cfg = ''me''" "d_kind toy_delivery = Topic"
    by (simp_all add: toy_cfg_def toy_delivery_def expired_def toy_env_fields toy_platform_def route_ok_def starts_with_def Let_def)
  then show ?thesis by (simp add: after_verify_def toy_env_fields)
qed

lemma toy_facts:
  "\<not> signingOff toy_cfg" "sigAlg toy_cfg = Hmac" "agentId toy_cfg = ''me''" "dedupLru toy_cfg = 4" "d_json toy_delivery = Some (envelope_json toy_env)"
  "is_valid_inbound (\<lambda>x. date_val toy_platform x \<noteq> None) (envelope_json toy_env)"
  "loop_of g toy_delivery = TopicLoop g ''alloyium.a2a.topic.ops''" "d_kind toy_delivery = Topic" "d_inject_ok toy_delivery"
  "d_subject toy_delivery = ''alloyium.a2a.topic.ops''" "cryp toy_platform = toy_crypto" "alg_str Hmac = ''hmac''"
  "key_of_reply toy_platform Hmac (d_redis toy_delivery n (key_name toy_cfg ''kai'')) = Some 3"
  "keyCacheTtlS toy_cfg = 300" "d_clock toy_delivery n = 1"
  using valid_inbound_json
  by (simp_all add: toy_cfg_def toy_delivery_def loop_of_def kind_loop_def alg_str_def toy_env_fields toy_platform_def recipient_ok_def
      js_eval key_of_reply_def key_name_def)

lemma toy_arrive:
  "map_of (cc_tasks s) (TopicLoop g ''alloyium.a2a.topic.ops'') = None \<Longrightarrow>
   arrive toy_platform toy_cfg g toy_delivery s =
     put_task (TopicLoop g ''alloyium.a2a.topic.ops'') (ask_key toy_platform toy_cfg toy_delivery toy_env (cc_chan s)) (cc_chan s) s"
  using toy_env_sig by (simp add: arrive_def Let_def toy_facts as_envelope_json toy_env_fields del: not_None_eq)

lemmas toy_steps = toy_arrive ask_key_def proceed_def fetched_def checked_def pass_def settled_def try_again_def toy_after toy_env_verifies toy_facts toy_env_fields
  put_task_def finish_def Let_def conc_new_def chan_new_def cache_key_def tracked_put_def evict_oldest_def record_dedup_def

text \<open>Two loops of one topic, left and joined again, with the same message: both inject it.\<close>

definition toy_events :: "conc_event list" where
  "toy_events = (let a = TopicLoop 0 ''alloyium.a2a.topic.ops''; b = TopicLoop 1 ''alloyium.a2a.topic.ops'' in
     [Arrive 0 toy_delivery, Proceed a, Proceed a, Arrive 1 toy_delivery, Proceed b, Proceed a, Proceed b])"

lemma toy_conc_run:
  "let s = run (conc_step toy_platform toy_cfg) conc_new toy_events in
     injected (cc_chan s) = [(Topic, ''alloyium.a2a.topic.ops'', toy_env), (Topic, ''alloyium.a2a.topic.ops'', toy_env)]
     \<and> cc_log s = [(TopicLoop 0 ''alloyium.a2a.topic.ops'', 0), (TopicLoop 1 ''alloyium.a2a.topic.ops'', 0)]
     \<and> dedupOrder (cc_chan s) = [''a|1'']"
  by (simp add: toy_events_def toy_steps)

lemma take_split_at: "m < c \<Longrightarrow> c \<le> length xs \<Longrightarrow> take c xs = take m xs @ xs ! m # take (c - Suc m) (drop (Suc m) xs)"
  by (metis Cons_nth_drop_Suc Suc_diff_Suc le_add_diff_inverse less_imp_le_nat order_less_le_trans take_Suc_Cons take_add)

text \<open>An id that is not in the window now and is not injected meanwhile is not in the window later.\<close>

lemma window_unseen:
  assumes "c \<le> m" "ids ! m \<notin> set (window lru (take c ids))" "m < length ids" "\<And>k. c \<le> k \<Longrightarrow> k < m \<Longrightarrow> ids ! k \<noteq> ids ! m"
  shows "ids ! m \<notin> set (window lru (take m ids))"
proof -
  have "take m ids = take c ids @ take (m - c) (drop c ids)" using assms(1) by (metis le_add_diff_inverse take_add)
  moreover have "ids ! m \<notin> set (take (m - c) (drop c ids))"
  proof
    assume "ids ! m \<in> set (take (m - c) (drop c ids))"
    then obtain k where "k < m - c" "ids ! (c + k) = ids ! m" using assms(1,3) by (auto simp: in_set_conv_nth)
    then show False using assms(4) [of "c + k"] by simp
  qed
  ultimately show ?thesis using assms(2) window_append_subset [of lru "take c ids" "take (m - c) (drop c ids)"] by auto
qed

lemma finish_log [simp]: "cc_log (finish l d ok ch s) = cc_log s"
  by (simp add: finish_def)

text \<open>
  C2. Authenticity of everything injected, in every interleaving of the loops: with signing on, whatever the network carries and Redis
  answers, a message injected into the agent verifies, under the receiver's algorithm, with a key Redis returned for its sender; it
  does not come from the agent itself; a direct message is addressed to this agent and is in the durable inbox; a broadcast is
  addressed to the very topic it arrived on. The tag that accompanies the body has the route of the delivery and the sender,
  recipient, type, id and time of that verified envelope, whatever attributes the envelope carries, and its correlation and thread id when it
  has them (they are not signed fields in the case of the thread, and an attribute named so survives where the envelope has none).
\<close>

theorem concurrent_injections_authentic:
  assumes "\<not> signingOff cfg" and s: "s = run (conc_step pf cfg) conc_new es" and "(kind, subj, env) \<in> set (injected (cc_chan s))"
    and tag: "injected_tag (kind, subj, env) = (body, attrs)"
  shows "(\<exists>k. registered pf cfg (arrived es) (e_from env) k \<and> verify_envelope (cryp pf) env k (sigAlg cfg))
    \<and> e_from env \<noteq> agentId cfg
    \<and> (case kind of
         Direct \<Rightarrow> e_to env = agentId cfg \<and> inbox_read (inboxDb (cc_chan s)) (agentId cfg) (e_id env) \<noteq> None
       | Topic \<Rightarrow> \<exists>t. is_token t \<and> e_to env = ''topic:'' @ t \<and> subj = topic_subject (chanPrefix cfg) t)
    \<and> body = e_body env
    \<and> list_all (\<lambda>(k, v). map_of attrs k = Some v)
        [(''feed'', ''a2a''), (''kind'', kind_str kind), (''subject'', subj), (''from'', e_from env), (''to'', e_to env),
         (''type'', type_str (e_type env)), (''id'', e_id env), (''ts'', e_ts env)]
    \<and> (\<forall>x. x \<noteq> [] \<longrightarrow> (e_corr env = Some x \<longrightarrow> map_of attrs ''corr'' = Some x)
         \<and> (e_thread env = Some x \<longrightarrow> map_of attrs ''thread'' = Some x))
    \<and> map_of attrs ''notifId'' = None"
proof -
  have inv: "conc_inv pf cfg (arrived es) s" unfolding s by (rule conc_inv_run)
  then have tr: "trusted pf cfg (arrived es) (inboxDb (cc_chan s)) kind subj env" and wf: "inbox_wf (inboxDb (cc_chan s))"
    using assms(3) by (auto simp: conc_inv_def Let_def list_all_iff)
  have "(agentId cfg, e_id env) \<in> row_id ` set (inboxDb (cc_chan s)) \<Longrightarrow> inbox_read (inboxDb (cc_chan s)) (agentId cfg) (e_id env) \<noteq> None"
    using inbox_read_Some [OF wf] by (metis imageE option.distinct(1))
  moreover have "body = e_body env" "attrs = build_a2a_attrs env subj kind" using tag by (simp_all add: injected_tag_def)
  ultimately show ?thesis using tr assms(1) by (cases kind) (auto simp: trusted_def build_attrs_lookup)
qed

theorem concurrent_injections_authentic_witness:
  "(\<exists>k. registered toy_platform toy_cfg [toy_delivery, toy_delivery] ''kai'' k \<and> verify_envelope toy_crypto toy_env k Hmac)
   \<and> (\<exists>t. is_token t \<and> ''topic:ops'' = ''topic:'' @ t)
   \<and> map_of (build_a2a_attrs toy_env ''alloyium.a2a.topic.ops'' Topic) ''from'' = Some ''kai''"
proof -
  have "arrived toy_events = [toy_delivery, toy_delivery]" by (simp add: toy_events_def arrived_def Let_def)
  then show ?thesis
    using concurrent_injections_authentic [OF toy_facts(1) refl, of Topic "''alloyium.a2a.topic.ops''" toy_env toy_platform toy_events]
      toy_conc_run
    by (auto simp: Let_def toy_facts toy_env_fields injected_tag_def)
qed

text \<open>
  C7. How often a message is injected, in every interleaving: take an injection whose id was new when it was recorded (no injection of the id
  between its duplicate check and its record). Among it and the next \<open>dedupLru\<close> injections the same id occurs at most once for each
  loop, and every repetition passed its duplicate check before the first was recorded: the handlings overlapped. The dedup set holds the ids
  of the window. So an id is repeated only by loops that handle it at the same moment; when no handling waits for its injection
  while another injects, it is not repeated within \<open>dedupLru\<close> injections.
\<close>

theorem injected_once_per_loop:
  assumes s: "s = run (conc_step pf cfg) conc_new es"
    and ids: "ids = map (\<lambda>(kind, subj, env). e_id env) (injected (cc_chan s))" and lg: "lg = cc_log s"
  shows "length lg = length ids \<and> dedup (cc_chan s) = set (window (dedupLru cfg) ids)
    \<and> (\<forall>i < length ids. (\<forall>k. snd (lg ! i) \<le> k \<and> k < i \<longrightarrow> ids ! k \<noteq> ids ! i) \<longrightarrow>
         (let again = {j. i < j \<and> j \<le> i + dedupLru cfg \<and> j < length ids \<and> ids ! j = ids ! i} in
            (\<forall>j \<in> again. snd (lg ! j) \<le> i) \<and> inj_on (\<lambda>j. fst (lg ! j)) (insert i again)))
    \<and> ((\<forall>k < length ids. snd (lg ! k) = k) \<longrightarrow> spaced (dedupLru cfg) ids)"
proof -
  let ?n = "dedupLru cfg"
  have inv: "conc_inv pf cfg (arrived es) s" unfolding s by (rule conc_inv_run)
  have i: "ids_of s = ids" by (simp add: ids_of_def injected_ids_def ids)
  have len: "length lg = length ids" "dedup (cc_chan s) = set (window ?n ids)" using inv by (simp_all add: conc_inv_def Let_def i lg)
  have chk: "snd (lg ! j) \<le> j" "ids ! j \<notin> set (window ?n (take (snd (lg ! j)) ids))"
      "\<And>k. k < j \<Longrightarrow> fst (lg ! k) = fst (lg ! j) \<Longrightarrow> k < snd (lg ! j)" if "j < length ids" for j
    using inv that len(1) by (auto simp: conc_inv_def Let_def i entry_ok_def check_ok_def min_def simp flip: lg split: if_splits)
  have over: "snd (lg ! j) \<le> m"
    if m: "m < length ids" "\<And>k. snd (lg ! m) \<le> k \<Longrightarrow> k < m \<Longrightarrow> ids ! k \<noteq> ids ! m"
      and j: "m < j" "j \<le> m + ?n" "j < length ids" "ids ! j = ids ! m" for m j
  proof (rule ccontr)
    assume "\<not> snd (lg ! j) \<le> m"
    then have c: "m < snd (lg ! j)" by simp
    define ys where "ys = take (snd (lg ! j) - Suc m) (drop (Suc m) ids)"
    have "take (snd (lg ! j)) ids = take m ids @ ids ! m # ys"
      using c chk(1) [OF j(3)] j(3) m(1) by (simp add: ys_def take_split_at)
    moreover have "length ys < ?n" using chk(1) [OF j(3)] c j by (simp add: ys_def)
    moreover have "ids ! m \<notin> set (window ?n (take m ids))" by (rule window_unseen [OF chk(1,2) [OF m(1)] m(1) m(2)])
    ultimately show False using window_recent [of "ids ! m" ?n "take m ids" ys] chk(2) [OF j(3)] j(4) by simp
  qed
  have "inj_on (\<lambda>j. fst (lg ! j)) (insert m {j. m < j \<and> j \<le> m + ?n \<and> j < length ids \<and> ids ! j = ids ! m})"
    if m: "m < length ids" "\<And>k. snd (lg ! m) \<le> k \<Longrightarrow> k < m \<Longrightarrow> ids ! k \<noteq> ids ! m" for m
  proof (rule linorder_inj_onI)
    fix a b assume "a < b" and a: "a \<in> insert m {j. m < j \<and> j \<le> m + ?n \<and> j < length ids \<and> ids ! j = ids ! m}"
      and b: "b \<in> insert m {j. m < j \<and> j \<le> m + ?n \<and> j < length ids \<and> ids ! j = ids ! m}"
    then have "m < b" "b < length ids" "snd (lg ! b) \<le> m" "m \<le> a" using over [OF m] by auto
    then show "fst (lg ! a) \<noteq> fst (lg ! b)" using chk(3) [of b a] \<open>a < b\<close> by fastforce
  qed auto
  moreover have "spaced ?n ids" if "\<forall>k < length ids. snd (lg ! k) = k"
  proof (unfold spaced_def, intro allI impI notI)
    fix a b assume ab: "a < b \<and> b < length ids \<and> b - a \<le> ?n" "ids ! a = ids ! b"
    then have "snd (lg ! b) \<le> a" using that by (intro over) auto
    then show False using that ab by simp
  qed
  ultimately show ?thesis using len over by (simp add: Let_def)
qed

theorem injected_once_per_loop_witness:
  "let s = run (conc_step toy_platform toy_cfg) conc_new toy_events in
     map (\<lambda>(kind, subj, env). e_id env) (injected (cc_chan s)) = [''a|1'', ''a|1''] \<and> dedup (cc_chan s) = {''a|1''}
     \<and> fst (cc_log s ! 0) \<noteq> fst (cc_log s ! 1) \<and> snd (cc_log s ! 1) = 0"
proof -
  define s where "s = run (conc_step toy_platform toy_cfg) conc_new toy_events"
  define lg where "lg = cc_log s"
  define ids where "ids = map (\<lambda>(kind, subj, env). e_id env) (injected (cc_chan s))"
  have r: "ids = [''a|1'', ''a|1'']" "lg = [(TopicLoop 0 ''alloyium.a2a.topic.ops'', 0), (TopicLoop 1 ''alloyium.a2a.topic.ops'', 0)]"
    using toy_conc_run by (simp_all add: Let_def s_def ids_def lg_def toy_env_fields)
  note c7 = injected_once_per_loop [OF s_def ids_def lg_def, unfolded toy_facts]
  have "dedup (cc_chan s) = set (window 4 ids)" using c7 by blast
  then have "dedup (cc_chan s) = {''a|1''}" unfolding r by (simp add: window_def push_id_def)
  moreover have "fst (lg ! 0) \<noteq> fst (lg ! 1) \<and> snd (lg ! 1) = 0"
  proof -
    have "0 < length ids" "\<forall>k. snd (lg ! 0) \<le> k \<and> k < 0 \<longrightarrow> ids ! k \<noteq> ids ! 0" by (simp_all add: r)
    then have "inj_on (\<lambda>j. fst (lg ! j)) (insert 0 {j. 0 < j \<and> j \<le> 0 + 4 \<and> j < length ids \<and> ids ! j = ids ! 0})"
      "\<forall>j \<in> {j. 0 < j \<and> j \<le> 0 + 4 \<and> j < length ids \<and> ids ! j = ids ! 0}. snd (lg ! j) \<le> 0"
      using c7 unfolding Let_def by blast+
    moreover have "1 \<in> {j. 0 < j \<and> j \<le> 0 + 4 \<and> j < length ids \<and> ids ! j = ids ! 0}" by (simp add: r)
    ultimately show ?thesis by (fastforce simp: inj_on_def)
  qed
  ultimately show ?thesis by (simp add: Let_def r flip: s_def ids_def lg_def)
qed

end
