(* ===== verification/A2A_Topics.thy ===== *)
theory A2A_Topics
  imports A2A_Subjects
begin

text \<open>
  Topic membership of an agent, src/a2a-channel.ts: the scripts that change its topics key in Redis, the two tools over them,
  \<open>loadTopics\<close>, and the reloads that bring the subscriptions in line, serialized by \<open>reloadChain\<close>.

  A reload is cut at its \<open>await\<close>: it asks Redis, Redis reads the key, and the rest runs when the answer arrives. A
  subscription is a number with its topic; \<open>tp_live\<close> are those open on the connection, \<open>tp_active\<close> is the map of the
  stop closures. Two ghost fields serve the property: \<open>tp_dirty\<close>, the key may have changed after the last call of
  \<open>reload\<close>, and \<open>tp_failed\<close>, the last reload did not get through.
\<close>

subsection \<open>The topics key\<close>

text \<open>
  What Redis holds: nothing, a text that is not JSON, or a value. A Lua table is an array or an object; \<open>ipairs\<close> of an
  object with text keys has no element, and inserting into one adds the key 1.
\<close>

datatype topics_key = Absent | Invalid | Json jsval

definition join_script :: "string \<Rightarrow> topics_key \<Rightarrow> jsval option \<times> topics_key" where
  "join_script t k =
     (let written = (\<lambda>v. (Some v, Json v)) in
      case k of
        Absent \<Rightarrow> written (JArr [JStr t])
      | Invalid \<Rightarrow> (None, k)
      | Json v \<Rightarrow>
          (case v of
             JArr xs \<Rightarrow> if JStr t \<in> set xs then (Some v, k) else written (JArr (xs @ [JStr t]))
           | JObj kvs \<Rightarrow> written (if kvs = [] then JArr [JStr t] else JObj (AList.update ''1'' (JStr t) kvs))
           | _ \<Rightarrow> (None, k)))"

definition leave_script :: "string \<Rightarrow> topics_key \<Rightarrow> jsval option \<times> topics_key" where
  "leave_script t k =
     (let written = (\<lambda>v. (Some v, Json v)) in
      case k of
        Absent \<Rightarrow> (Some (JArr []), k)
      | Invalid \<Rightarrow> (None, k)
      | Json v \<Rightarrow>
          (case v of
             JArr xs \<Rightarrow> written (JArr (filter (\<lambda>x. x \<noteq> JStr t) xs))
           | JObj kvs \<Rightarrow> written (JArr [])
           | _ \<Rightarrow> (None, k)))"

text \<open>\<open>loadTopics\<close>: \<open>None\<close> keeps the current set.\<close>

datatype topics_reply = TopicsDown | TopicsRaw topics_key

definition add_to_set :: "'a \<Rightarrow> 'a list \<Rightarrow> 'a list" where
  "add_to_set x xs = (if x \<in> set xs then xs else xs @ [x])"

definition topic_tokens :: "jsval list \<Rightarrow> string list" where
  "topic_tokens arr = fold (\<lambda>t s. case t of JStr x \<Rightarrow> if is_token x then add_to_set x s else s | _ \<Rightarrow> s) arr []"

definition load_topics :: "topics_reply \<Rightarrow> string list option" where
  "load_topics r =
     (case r of
        TopicsDown \<Rightarrow> None
      | TopicsRaw Absent \<Rightarrow> Some []
      | TopicsRaw (Json (JArr arr)) \<Rightarrow> Some (topic_tokens arr)
      | TopicsRaw _ \<Rightarrow> None)"

text \<open>\<open>joinTopic\<close> and \<open>leaveTopic\<close>; the reply of the script is its value, or the text of the error.\<close>

datatype topic_answer = TopicError string "string option" | Topics jsval

definition topic_reply :: "string + jsval \<Rightarrow> topic_answer" where
  "topic_reply r =
     (case r of
        Inl msg \<Rightarrow> if contains ''bad_json'' msg then TopicError ''topics_bad_json'' None
                   else TopicError ''redis_unavailable'' (Some msg)
      | Inr v \<Rightarrow> Topics v)"

definition topic_tool :: "string \<Rightarrow> string + jsval \<Rightarrow> topic_answer" where
  "topic_tool topic r = (if \<not> is_token topic then TopicError ''bad_topic'' None else topic_reply r)"

subsection \<open>Reloading\<close>

datatype conn_state = NoConn | ConnOpen | ConnClosed

datatype load_pc = NotLoading | Asking | Answered topics_reply

record topics =
  tp_key :: topics_key
  tp_active :: "(string \<times> nat) list"
  tp_live :: "(nat \<times> string) list"
  tp_next :: nat
  tp_chain :: nat
  tp_load :: load_pc
  tp_conn :: conn_state
  tp_stopped :: bool
  tp_dirty :: bool
  tp_failed :: bool

text \<open>A channel of a runtime (not tool-only) whose connections have just been opened.\<close>

definition tp_new :: "topics_key \<Rightarrow> topics" where
  "tp_new k = \<lparr>tp_key = k, tp_active = [], tp_live = [], tp_next = 0, tp_chain = 0, tp_load = NotLoading, tp_conn = ConnOpen,
     tp_stopped = False, tp_dirty = True, tp_failed = False\<rparr>"

definition subscribe_topic :: "string \<Rightarrow> topics \<Rightarrow> topics" where
  "subscribe_topic t s = s\<lparr>tp_active := tp_active s @ [(t, tp_next s)], tp_live := tp_live s @ [(tp_next s, t)], tp_next := Suc (tp_next s)\<rparr>"

text \<open>The loop over the desired topics; a subscription on a connection that is gone throws and ends the reload.\<close>

fun subscribe_missing :: "string list \<Rightarrow> topics \<Rightarrow> bool \<times> topics" where
  "subscribe_missing [] s = (True, s)"
| "subscribe_missing (t # ts) s =
     (if t \<in> fst ` set (tp_active s) then subscribe_missing ts s
      else if tp_conn s \<noteq> ConnOpen then (False, s)
      else subscribe_missing ts (subscribe_topic t s))"

text \<open>The loop over the active topics.\<close>

definition unsubscribe_topic :: "string \<times> nat \<Rightarrow> topics \<Rightarrow> topics" where
  "unsubscribe_topic a s = s\<lparr>tp_active := AList.delete (fst a) (tp_active s), tp_live := AList.delete (snd a) (tp_live s)\<rparr>"

definition unsubscribe_others :: "string list \<Rightarrow> topics \<Rightarrow> topics" where
  "unsubscribe_others desired s = fold unsubscribe_topic (filter (\<lambda>a. fst a \<notin> set desired) (tp_active s)) s"

definition reload :: "topics \<Rightarrow> topics" where
  "reload s = s\<lparr>tp_chain := Suc (tp_chain s), tp_dirty := False\<rparr>"

text \<open>The next link of the chain: the guards of \<open>reloadTopics\<close>, then the request.\<close>

definition reload_turn :: "topics \<Rightarrow> topics" where
  "reload_turn s =
     (if tp_load s \<noteq> NotLoading \<or> tp_chain s = 0 then s
      else
        (let s1 = s\<lparr>tp_chain := tp_chain s - 1\<rparr> in
         if tp_stopped s \<or> tp_conn s = NoConn then s1\<lparr>tp_failed := True\<rparr> else s1\<lparr>tp_load := Asking\<rparr>))"

definition reload_read :: "bool \<Rightarrow> topics \<Rightarrow> topics" where
  "reload_read down s = (if tp_load s = Asking then s\<lparr>tp_load := Answered (if down then TopicsDown else TopicsRaw (tp_key s))\<rparr> else s)"

definition apply_topics :: "string list \<Rightarrow> topics \<Rightarrow> topics" where
  "apply_topics desired s =
     (let (ok, s1) = subscribe_missing desired s in
      if ok then (unsubscribe_others desired s1)\<lparr>tp_failed := False\<rparr> else s1\<lparr>tp_failed := True\<rparr>)"

definition reload_continue :: "topics \<Rightarrow> topics" where
  "reload_continue s =
     (case tp_load s of
        Answered r \<Rightarrow>
          (let s1 = s\<lparr>tp_load := NotLoading\<rparr> in
           case load_topics r of None \<Rightarrow> s1\<lparr>tp_failed := True\<rparr> | Some desired \<Rightarrow> apply_topics desired s1)
      | _ \<Rightarrow> s)"

text \<open>
  What \<open>stop\<close> and a failed \<open>start\<close> do to the topics. \<open>shared\<close>: the connection is the core's and stays open; an own
  one is drained, which ends its subscriptions.
\<close>

definition topics_stop :: "bool \<Rightarrow> topics \<Rightarrow> topics" where
  "topics_stop shared s =
     (let s1 = (fold unsubscribe_topic (tp_active s) s)\<lparr>tp_active := [], tp_stopped := True\<rparr> in
      if shared then s1 else s1\<lparr>tp_live := [], tp_conn := (if tp_conn s = NoConn then NoConn else ConnClosed)\<rparr>)"

definition topics_start_failed :: "bool \<Rightarrow> topics \<Rightarrow> topics" where
  "topics_start_failed shared s =
     (if shared then (fold unsubscribe_topic (tp_active s) s)\<lparr>tp_active := [], tp_conn := NoConn\<rparr>
      else s\<lparr>tp_live := [], tp_conn := NoConn\<rparr>)"

datatype topics_event =
    ScriptJoin string | ScriptLeave string | KeyWritten topics_key | Reload
  | Turn | KeyRead bool | Continue | StopTopics bool | StartFailed bool | Reconnected

fun topics_step :: "topics \<Rightarrow> topics_event \<Rightarrow> topics" where
  "topics_step s (ScriptJoin t) = s\<lparr>tp_key := snd (join_script t (tp_key s)), tp_dirty := True\<rparr>"
| "topics_step s (ScriptLeave t) = s\<lparr>tp_key := snd (leave_script t (tp_key s)), tp_dirty := True\<rparr>"
| "topics_step s (KeyWritten k) = s\<lparr>tp_key := k, tp_dirty := True\<rparr>"
| "topics_step s Reload = reload s"
| "topics_step s Turn = reload_turn s"
| "topics_step s (KeyRead down) = reload_read down s"
| "topics_step s Continue = reload_continue s"
| "topics_step s (StopTopics shared) = topics_stop shared s"
| "topics_step s (StartFailed shared) = topics_start_failed shared s"
| "topics_step s Reconnected = s\<lparr>tp_conn := (if tp_stopped s then tp_conn s else ConnOpen)\<rparr>"

subsection \<open>The invariant\<close>

definition subs_ok :: "topics \<Rightarrow> bool" where
  "subs_ok s \<longleftrightarrow> tp_live s = map (\<lambda>(t, i). (i, t)) (tp_active s) \<and> distinct (map fst (tp_active s)) \<and> distinct (map snd (tp_active s))
     \<and> (\<forall>a \<in> set (tp_active s). is_token (fst a) \<and> snd a < tp_next s)"

definition in_sync :: "topics \<Rightarrow> bool" where
  "in_sync s \<longleftrightarrow> (\<exists>desired. load_topics (TopicsRaw (tp_key s)) = Some desired \<and> fst ` set (tp_active s) = set desired)"

definition reload_due :: "topics \<Rightarrow> bool" where
  "reload_due s \<longleftrightarrow> 0 < tp_chain s \<or> tp_load s = Asking \<or> tp_load s = Answered TopicsDown \<or> tp_load s = Answered (TopicsRaw (tp_key s))"

definition topics_inv :: "topics \<Rightarrow> bool" where
  "topics_inv s \<longleftrightarrow> subs_ok s \<and> tp_conn s = ConnOpen \<and> \<not> tp_stopped s
     \<and> (tp_dirty s \<or> reload_due s \<or> (tp_load s = NotLoading \<and> (tp_failed s \<or> in_sync s)))"

fun calm_event :: "topics_event \<Rightarrow> bool" where
  "calm_event (StopTopics _) = False"
| "calm_event (StartFailed _) = False"
| "calm_event _ = True"

lemma topic_tokens_fold:
  "list_all is_token s \<Longrightarrow> list_all is_token (fold (\<lambda>t s. case t of JStr x \<Rightarrow> if is_token x then add_to_set x s else s | _ \<Rightarrow> s) arr s)"
  by (induction arr arbitrary: s) (auto simp: add_to_set_def split: jsval.split)

lemma load_topics_tokens: "load_topics r = Some ds \<Longrightarrow> list_all is_token ds"
  using topic_tokens_fold [of "[]"]
  by (auto simp: load_topics_def topic_tokens_def split: topics_reply.splits topics_key.splits jsval.splits)

definition same_rest :: "topics \<Rightarrow> topics \<Rightarrow> bool" where
  "same_rest s s' \<longleftrightarrow> tp_key s' = tp_key s \<and> tp_chain s' = tp_chain s \<and> tp_load s' = tp_load s \<and> tp_conn s' = tp_conn s
     \<and> tp_stopped s' = tp_stopped s \<and> tp_dirty s' = tp_dirty s"

lemma same_rest_trans: "same_rest a b \<Longrightarrow> same_rest b c \<Longrightarrow> same_rest a c"
  by (simp add: same_rest_def)

lemma subscribe_missing_ok:
  assumes "subs_ok s" "tp_conn s = ConnOpen" "list_all is_token ds" "subscribe_missing ds s = (ok, s')"
  shows "ok \<and> subs_ok s' \<and> fst ` set (tp_active s') = fst ` set (tp_active s) \<union> set ds \<and> same_rest s s'"
  using assms
proof (induction ds s rule: subscribe_missing.induct)
  case (1 s)
  then show ?case by (auto simp: same_rest_def)
next
  case (2 t ts s)
  show ?case
  proof (cases "t \<in> fst ` set (tp_active s)")
    case True
    then show ?thesis using 2 by (auto simp: insert_absorb)
  next
    case False
    have "subs_ok (subscribe_topic t s)"
      using 2 False by (fastforce simp: subs_ok_def subscribe_topic_def image_iff)
    then have "ok \<and> subs_ok s' \<and> fst ` set (tp_active s') = fst ` set (tp_active (subscribe_topic t s)) \<union> set ts
        \<and> same_rest (subscribe_topic t s) s'"
      using 2 False by (intro "2.IH"(2)) (simp_all add: subscribe_topic_def)
    then show ?thesis by (auto simp: subscribe_topic_def same_rest_def)
  qed
qed

lemma delete_pairs:
  "distinct (map fst xs) \<Longrightarrow> distinct (map snd xs) \<Longrightarrow> (t, i) \<in> set xs \<Longrightarrow>
   AList.delete i (map (\<lambda>(t, i). (i, t)) xs) = map (\<lambda>(t, i). (i, t)) (AList.delete t xs)"
  by (force simp: AList.delete_eq filter_map o_def case_prod_unfold intro!: arg_cong [where f = "map _"] filter_cong
      dest: distinct_snd_unique distinct_fst_unique)

lemma unsubscribe_ok:
  assumes "subs_ok s" "a \<in> set (tp_active s)"
  shows "subs_ok (unsubscribe_topic a s)"
proof -
  obtain t i where a: "a = (t, i)" by fastforce
  have "AList.delete i (tp_live s) = map (\<lambda>(t, i). (i, t)) (AList.delete t (tp_active s))"
    using assms delete_pairs a by (auto simp: subs_ok_def)
  then show ?thesis
    using assms(1) by (auto simp: subs_ok_def unsubscribe_topic_def a distinct_delete distinct_snd_delete set_delete)
qed

lemma unsubscribe_fold:
  assumes "subs_ok s" "distinct (map fst xs)" "set xs \<subseteq> set (tp_active s)"
  shows "subs_ok (fold unsubscribe_topic xs s) \<and> fst ` set (tp_active (fold unsubscribe_topic xs s)) = fst ` set (tp_active s) - fst ` set xs
    \<and> same_rest s (fold unsubscribe_topic xs s)"
  using assms
proof (induction xs arbitrary: s)
  case Nil
  then show ?case by (simp add: same_rest_def)
next
  case (Cons a xs)
  let ?s = "unsubscribe_topic a s"
  have act: "tp_active ?s = AList.delete (fst a) (tp_active s)" by (simp add: unsubscribe_topic_def)
  have "subs_ok ?s" using Cons.prems by (intro unsubscribe_ok) auto
  moreover have "set xs \<subseteq> set (tp_active ?s)" using Cons.prems by (auto simp: act set_delete image_iff)
  ultimately have "subs_ok (fold unsubscribe_topic xs ?s)
      \<and> fst ` set (tp_active (fold unsubscribe_topic xs ?s)) = fst ` set (tp_active ?s) - fst ` set xs
      \<and> same_rest ?s (fold unsubscribe_topic xs ?s)"
    using Cons.prems(2) by (intro Cons.IH) auto
  moreover have "fst ` set (tp_active ?s) = fst ` set (tp_active s) - {fst a}" by (force simp: act set_delete image_iff)
  moreover have "same_rest s ?s" by (simp add: same_rest_def unsubscribe_topic_def)
  ultimately show ?case by (auto intro: same_rest_trans)
qed

lemma apply_topics_ok:
  assumes "subs_ok s" "tp_conn s = ConnOpen" "list_all is_token ds"
  shows "subs_ok (apply_topics ds s) \<and> fst ` set (tp_active (apply_topics ds s)) = set ds
    \<and> same_rest s (apply_topics ds s) \<and> \<not> tp_failed (apply_topics ds s)"
proof -
  obtain ok s1 where sub: "subscribe_missing ds s = (ok, s1)" by fastforce
  have ok: "ok" "subs_ok s1" "fst ` set (tp_active s1) = fst ` set (tp_active s) \<union> set ds" "same_rest s s1"
    using subscribe_missing_ok [OF assms sub] by auto
  let ?xs = "filter (\<lambda>a. fst a \<notin> set ds) (tp_active s1)"
  let ?s2 = "unsubscribe_others ds s1"
  have "distinct (map fst ?xs)" using ok(2) by (simp add: subs_ok_def distinct_map_filter)
  from unsubscribe_fold [OF ok(2) this]
  have un: "subs_ok ?s2" "fst ` set (tp_active ?s2) = fst ` set (tp_active s1) - fst ` set ?xs" "same_rest s1 ?s2"
    by (auto simp: unsubscribe_others_def)
  have "fst ` set ?xs = fst ` set (tp_active s1) - set ds" by auto
  then have "fst ` set (tp_active ?s2) = set ds" using un(2) ok(3) by auto
  moreover have "apply_topics ds s = ?s2\<lparr>tp_failed := False\<rparr>" by (simp add: apply_topics_def sub ok(1))
  ultimately show ?thesis
    using un(1) same_rest_trans [OF ok(4) un(3)] by (auto simp: subs_ok_def same_rest_def)
qed

lemma topics_inv_new: "topics_inv (tp_new k)"
  by (simp add: topics_inv_def tp_new_def subs_ok_def)

lemma topics_inv_continue:
  assumes "topics_inv s"
  shows "topics_inv (reload_continue s)"
proof (cases "tp_load s")
  case (Answered r)
  let ?s = "s\<lparr>tp_load := NotLoading\<rparr>"
  have s: "subs_ok ?s" "tp_conn ?s = ConnOpen" "\<not> tp_stopped ?s"
    using assms by (auto simp: topics_inv_def subs_ok_def)
  have due: "tp_dirty s \<or> 0 < tp_chain s \<or> r = TopicsDown \<or> r = TopicsRaw (tp_key s)"
    using assms Answered by (auto simp: topics_inv_def reload_due_def)
  show ?thesis
  proof (cases "load_topics r")
    case None
    then show ?thesis
      using s due Answered by (auto simp: reload_continue_def topics_inv_def subs_ok_def)
  next
    case (Some ds)
    have "subs_ok (apply_topics ds ?s) \<and> fst ` set (tp_active (apply_topics ds ?s)) = set ds
        \<and> same_rest ?s (apply_topics ds ?s) \<and> \<not> tp_failed (apply_topics ds ?s)"
      using s load_topics_tokens [OF Some] by (intro apply_topics_ok) auto
    then show ?thesis
      using s due Answered Some
      by (auto simp: reload_continue_def topics_inv_def same_rest_def reload_due_def in_sync_def load_topics_def)
  qed
qed (use assms in \<open>simp_all add: reload_continue_def\<close>)

lemma topics_inv_step:
  assumes "topics_inv s" "calm_event e"
  shows "topics_inv (topics_step s e)"
proof (cases e)
  case Continue
  then show ?thesis using topics_inv_continue [OF assms(1)] by simp
qed (use assms in \<open>auto simp: topics_inv_def subs_ok_def reload_due_def reload_def reload_turn_def reload_read_def Let_def in_sync_def\<close>)

lemma topics_inv_run: "list_all calm_event es \<Longrightarrow> topics_inv s \<Longrightarrow> topics_inv (run topics_step s es)"
  by (induction es arbitrary: s) (auto simp: topics_inv_step)

subsection \<open>Convergence\<close>

definition reload_round :: "topics_event list" where
  "reload_round = [Turn, KeyRead False, Continue]"

definition backlog :: "topics \<Rightarrow> nat" where
  "backlog s = tp_chain s + (if tp_load s = NotLoading then 0 else 1)"

definition readable :: "topics \<Rightarrow> bool" where
  "readable s \<longleftrightarrow> topics_inv s \<and> \<not> tp_dirty s \<and> load_topics (TopicsRaw (tp_key s)) \<noteq> None
     \<and> (\<forall>r. tp_load s = Answered r \<longrightarrow> 0 < tp_chain s) \<and> (backlog s = 0 \<longrightarrow> \<not> tp_failed s)"

lemma applied:
  assumes "topics_inv s" "load_topics r = Some ds"
  shows "same_rest s (apply_topics ds (s\<lparr>tp_load := NotLoading\<rparr>)\<lparr>tp_load := tp_load s\<rparr>)
    \<and> tp_load (apply_topics ds (s\<lparr>tp_load := NotLoading\<rparr>)) = NotLoading \<and> \<not> tp_failed (apply_topics ds (s\<lparr>tp_load := NotLoading\<rparr>))"
proof -
  let ?s = "s\<lparr>tp_load := NotLoading\<rparr>"
  have "subs_ok ?s" "tp_conn ?s = ConnOpen" using assms(1) by (auto simp: topics_inv_def subs_ok_def)
  from apply_topics_ok [OF this load_topics_tokens [OF assms(2)]]
  show ?thesis by (simp add: same_rest_def)
qed

lemma continue_readable:
  assumes "topics_inv s" "\<not> tp_dirty s" "tp_load s = Answered r" "load_topics (TopicsRaw (tp_key s)) = Some ds"
    and "r = TopicsRaw (tp_key s) \<or> 0 < tp_chain s"
  shows "readable (reload_continue s) \<and> tp_key (reload_continue s) = tp_key s \<and> backlog (reload_continue s) = tp_chain s"
proof (cases "load_topics r")
  case None
  then show ?thesis
    using assms topics_inv_continue [OF assms(1)] by (auto simp: readable_def reload_continue_def backlog_def)
next
  case (Some ds')
  then show ?thesis
    using assms applied [OF assms(1) Some] topics_inv_continue [OF assms(1)]
    by (auto simp: readable_def reload_continue_def backlog_def same_rest_def)
qed

lemma round_readable:
  assumes "readable s"
  shows "readable (run topics_step s reload_round) \<and> tp_key (run topics_step s reload_round) = tp_key s
    \<and> backlog (run topics_step s reload_round) = backlog s - 1"
proof -
  obtain ds where ds: "load_topics (TopicsRaw (tp_key s)) = Some ds" using assms by (auto simp: readable_def)
  have inv: "topics_inv s" "\<not> tp_dirty s" "tp_conn s = ConnOpen" "\<not> tp_stopped s" using assms by (auto simp: readable_def topics_inv_def)
  have "topics_inv (topics_step (topics_step s Turn) (KeyRead False))" using inv(1) by (intro topics_inv_step) auto
  then have inv': "topics_inv (reload_read False (reload_turn s))" by simp
  have run: "run topics_step s reload_round = reload_continue (reload_read False (reload_turn s))" by (simp add: reload_round_def)
  show ?thesis
  proof (cases "tp_load s")
    case NotLoading
    show ?thesis
    proof (cases "tp_chain s")
      case 0
      then show ?thesis
        using assms NotLoading unfolding run
        by (simp add: reload_turn_def reload_read_def reload_continue_def backlog_def)
    next
      case (Suc n)
      then have "readable (reload_continue (reload_read False (reload_turn s))) \<and> tp_key (reload_continue (reload_read False (reload_turn s))) = tp_key s
          \<and> backlog (reload_continue (reload_read False (reload_turn s))) = n"
        using continue_readable [OF inv', of "TopicsRaw (tp_key s)" ds] inv ds NotLoading
        by (simp add: reload_turn_def reload_read_def Let_def)
      then show ?thesis using Suc NotLoading by (simp add: run backlog_def)
    qed
  next
    case Asking
    then show ?thesis
      using continue_readable [OF inv', of "TopicsRaw (tp_key s)" ds] inv ds
      by (simp add: run reload_turn_def reload_read_def backlog_def)
  next
    case (Answered r)
    then show ?thesis
      using continue_readable [OF inv', of r ds] inv ds assms
      by (simp add: run reload_turn_def reload_read_def backlog_def readable_def)
  qed
qed

lemma rounds_readable:
  "readable s \<Longrightarrow> readable (run topics_step s (concat (replicate n reload_round)))
     \<and> tp_key (run topics_step s (concat (replicate n reload_round))) = tp_key s
     \<and> backlog (run topics_step s (concat (replicate n reload_round))) = backlog s - n"
  by (induction n arbitrary: s) (auto simp: run_append round_readable)

lemma settled_in_sync:
  assumes "topics_inv s" "\<not> tp_dirty s" "backlog s = 0" "\<not> tp_failed s"
  shows "in_sync s"
  using assms by (auto simp: topics_inv_def reload_due_def backlog_def split: if_splits)

lemma topics_inv_subs:
  assumes "topics_inv s"
  shows "distinct (map snd (tp_live s)) \<and> list_all is_token (map snd (tp_live s)) \<and> set (map snd (tp_live s)) = fst ` set (tp_active s)"
proof -
  have s: "subs_ok s" using assms by (simp add: topics_inv_def)
  have "map snd (tp_live s) = map fst (tp_active s)" using s by (simp add: subs_ok_def case_prod_unfold o_def)
  then show ?thesis using s by (auto simp: subs_ok_def list_all_iff simp del: map_map)
qed

lemma distinct_singleton_list: "distinct xs \<Longrightarrow> set xs = {a} \<Longrightarrow> xs = [a]"
  by (cases xs) (auto simp: subset_singleton_iff dest: equalityD1)

subsection \<open>Overtaking\<close>

text \<open>
  A stop that overtakes a reload on a shared connection: the reload goes on after the answer of Redis and opens
  subscriptions that nothing closes any more.
\<close>

lemma stop_overtakes_reload:
  "let s = run topics_step (tp_new (Json (JArr [JStr ''ops'']))) [Reload, Turn, KeyRead False, StopTopics True, Continue]
   in tp_stopped s \<and> tp_live s = [(0, ''ops'')]"
  by (simp add: tp_new_def reload_def reload_turn_def reload_read_def reload_continue_def topics_stop_def load_topics_def
      topic_tokens_def add_to_set_def apply_topics_def subscribe_topic_def unsubscribe_others_def js_eval)

text \<open>
  A start that fails on an own connection after the first reload keeps the map of its topics; the next start finds
  them active and does not subscribe them on the new connection.
\<close>

lemma failed_start_loses_topics:
  "let s = run topics_step (tp_new (Json (JArr [JStr ''ops'']))) (Reload # reload_round @ [StartFailed False, Reconnected, Reload] @ reload_round)
   in tp_conn s = ConnOpen \<and> \<not> tp_failed s \<and> map fst (tp_active s) = [''ops''] \<and> tp_live s = []"
  by (simp add: tp_new_def reload_def reload_turn_def reload_read_def reload_continue_def topics_start_failed_def load_topics_def
      topic_tokens_def add_to_set_def apply_topics_def subscribe_topic_def unsubscribe_others_def reload_round_def js_eval)

subsection \<open>Property\<close>

text \<open>
  C13. The subscriptions follow the topics key: after any run of joins, leaves, outside writes, reloads and answers of
  Redis, failures included, each active topic is a token with exactly one open subscription; and when a
  reload is called while the key is readable, and it and the reloads queued before it have run with Redis
  answering, the topics subscribed are exactly those of the key.
\<close>

theorem topics_follow_key:
  assumes "list_all calm_event es" "s = run topics_step (tp_new k) es" "load_topics (TopicsRaw (tp_key s)) = Some desired"
    and "s' = run topics_step s (Reload # concat (replicate (tp_chain s + 2) reload_round))"
  shows "distinct (map snd (tp_live s)) \<and> list_all is_token (map snd (tp_live s))
    \<and> distinct (map snd (tp_live s')) \<and> set (map snd (tp_live s')) = set desired"
proof -
  have inv: "topics_inv s" using assms(1,2) topics_inv_run topics_inv_new by blast
  then have "topics_inv (reload s)" using topics_inv_step [OF inv, of Reload] by simp
  then have r: "readable (reload s)" using assms(3) by (auto simp: readable_def reload_def backlog_def)
  have s': "s' = run topics_step (reload s) (concat (replicate (tp_chain s + 2) reload_round))" by (simp add: assms(4))
  have "backlog (reload s) \<le> tp_chain s + 2" by (simp add: backlog_def reload_def)
  then have "readable s'" "backlog s' = 0" "tp_key s' = tp_key s"
    using rounds_readable [OF r, of "tp_chain s + 2"] by (simp_all add: s' reload_def)
  moreover from this have "in_sync s'" by (intro settled_in_sync) (auto simp: readable_def)
  moreover have "distinct (map snd (tp_live s)) \<and> list_all is_token (map snd (tp_live s))"
    using topics_inv_subs [OF inv] by simp
  moreover have "distinct (map snd (tp_live s'))" "set (map snd (tp_live s')) = fst ` set (tp_active s')"
    using \<open>readable s'\<close> topics_inv_subs [of s'] by (auto simp: readable_def)
  ultimately show ?thesis using assms(3) by (auto simp: in_sync_def)
qed

theorem topics_follow_key_witness:
  "map snd (tp_live (run topics_step (tp_new Absent) ([ScriptJoin ''ops''] @ Reload # concat (replicate 2 reload_round)))) = [''ops'']"
proof -
  let ?s = "run topics_step (tp_new Absent) [ScriptJoin ''ops'']"
  let ?s' = "run topics_step ?s (Reload # concat (replicate (tp_chain ?s + 2) reload_round))"
  have "distinct (map snd (tp_live ?s')) \<and> set (map snd (tp_live ?s')) = {''ops''}"
    using topics_follow_key [of "[ScriptJoin ''ops'']" ?s Absent "[''ops'']" ?s']
    by (simp add: load_topics_def topic_tokens_def join_script_def tp_new_def js_eval add_to_set_def)
  then have "map snd (tp_live ?s') = [''ops'']" by (intro distinct_singleton_list) auto
  moreover have "tp_chain ?s = 0" by (simp add: tp_new_def)
  ultimately show ?thesis by (simp only: run_append add_0)
qed

end
