(* ===== verification/A2A_Presence.thy ===== *)
theory A2A_Presence
  imports Prelude
begin

text \<open>
  Presence of agents, src/a2a-channel.ts: the claim of an agent's presence key, the two token-guarded scripts that
  refresh and release it, and the peers tool.

  The key of one agent id is the value Redis holds with the time of its expiry. Several instances of the agent, each with
  its own token, run their commands against it in any order; each command is one step at the server's time.
\<close>

subsection \<open>The presence key\<close>

text \<open>\<open>None\<close> as the value: a text that is not JSON.\<close>

type_synonym presence_key = "(jsval option \<times> rat) option"

definition live_key :: "rat \<Rightarrow> presence_key \<Rightarrow> jsval option option" where
  "live_key now k = (case k of Some (v, e) \<Rightarrow> if now < e then Some v else None | None \<Rightarrow> None)"

definition presence_value :: "string \<Rightarrow> string \<Rightarrow> string \<Rightarrow> string \<Rightarrow> jsval" where
  "presence_value token host started seen =
     JObj [(''token'', JStr token), (''host'', JStr host), (''started_at'', JStr started), (''last_seen'', JStr seen)]"

definition owned_by :: "string \<Rightarrow> rat \<Rightarrow> presence_key \<Rightarrow> bool" where
  "owned_by token now k \<longleftrightarrow> (case live_key now k of Some (Some v) \<Rightarrow> jget v ''token'' = JStr token | _ \<Rightarrow> False)"

text \<open>\<open>SET key val NX EX ttl\<close>.\<close>

definition set_nx :: "rat \<Rightarrow> rat \<Rightarrow> jsval \<Rightarrow> presence_key \<Rightarrow> bool \<times> presence_key" where
  "set_nx now ttl v k = (if live_key now k = None then (True, Some (Some v, now + ttl)) else (False, k))"

text \<open>\<open>EXPIRE key ttl\<close>: whatever value the key holds.\<close>

definition expire :: "rat \<Rightarrow> rat \<Rightarrow> presence_key \<Rightarrow> presence_key" where
  "expire now ttl k = (case live_key now k of Some v \<Rightarrow> Some (v, now + ttl) | None \<Rightarrow> None)"

definition heartbeat_script :: "string \<Rightarrow> rat \<Rightarrow> rat \<Rightarrow> jsval \<Rightarrow> presence_key \<Rightarrow> nat \<times> presence_key" where
  "heartbeat_script token now ttl v k =
     (case live_key now k of
        None \<Rightarrow> (0, k)
      | Some None \<Rightarrow> (0, k)
      | Some (Some d) \<Rightarrow> if jget d ''token'' \<noteq> JStr token then (0, k) else (1, Some (Some v, now + ttl)))"

definition release_script :: "string \<Rightarrow> rat \<Rightarrow> presence_key \<Rightarrow> nat \<times> presence_key" where
  "release_script token now k =
     (case live_key now k of
        None \<Rightarrow> (0, k)
      | Some None \<Rightarrow> (0, k)
      | Some (Some d) \<Rightarrow> if jget d ''token'' = JStr token then (1, None) else (0, k))"

lemma presence_value_token [simp]: "jget (presence_value t h a b) ''token'' = JStr t"
  by (simp add: presence_value_def jget_def)

subsection \<open>Instances\<close>

text \<open>
  Where an instance is: not claiming, after a refused \<open>SET\<close>, after a \<open>GET\<close> that showed its own token, or with the
  claim. A refused claim and a failed command put it back to the start; \<open>start\<close> tries again later.
\<close>

datatype claim_pc = Unclaimed | SetRefused | SawOwn | Claimed

record presence_sys =
  ps_now :: rat
  ps_key :: presence_key
  ps_pc :: "nat \<Rightarrow> claim_pc"
  ps_started :: "nat \<Rightarrow> string"

text \<open>\<open>lost\<close>: Redis runs the command and the instance does not see the answer in time.\<close>

datatype presence_event =
    ClaimSet nat string bool
  | ClaimGet nat bool
  | ClaimExpire nat bool
  | Heartbeat nat string
  | Release nat
  | Pass rat

definition set_pc :: "nat \<Rightarrow> claim_pc \<Rightarrow> presence_sys \<Rightarrow> presence_sys" where
  "set_pc i p s = s\<lparr>ps_pc := (ps_pc s)(i := p)\<rparr>"

text \<open>What an instance is by: its token, its host and the lifetime of its claims.\<close>

record instance_cfg =
  ic_token :: string
  ic_host :: string
  ic_ttl :: rat

definition claim_set :: "instance_cfg \<Rightarrow> nat \<Rightarrow> string \<Rightarrow> bool \<Rightarrow> presence_sys \<Rightarrow> presence_sys" where
  "claim_set c i ts lost s =
     (if ps_pc s i \<noteq> Unclaimed then s
      else
        (let (ok, k) = set_nx (ps_now s) (ic_ttl c) (presence_value (ic_token c) (ic_host c) ts ts) (ps_key s) in
         set_pc i (if lost then Unclaimed else if ok then Claimed else SetRefused)
           (s\<lparr>ps_key := k, ps_started := (ps_started s)(i := ts)\<rparr>)))"

definition claim_get :: "instance_cfg \<Rightarrow> nat \<Rightarrow> bool \<Rightarrow> presence_sys \<Rightarrow> presence_sys" where
  "claim_get c i lost s =
     (if ps_pc s i \<noteq> SetRefused then s
      else set_pc i (if \<not> lost \<and> owned_by (ic_token c) (ps_now s) (ps_key s) then SawOwn else Unclaimed) s)"

definition claim_expire :: "instance_cfg \<Rightarrow> nat \<Rightarrow> bool \<Rightarrow> presence_sys \<Rightarrow> presence_sys" where
  "claim_expire c i lost s =
     (if ps_pc s i \<noteq> SawOwn then s
      else set_pc i (if lost then Unclaimed else Claimed) (s\<lparr>ps_key := expire (ps_now s) (ic_ttl c) (ps_key s)\<rparr>))"

text \<open>A heartbeat that finds the key lost is only logged.\<close>

definition heartbeat :: "instance_cfg \<Rightarrow> nat \<Rightarrow> string \<Rightarrow> presence_sys \<Rightarrow> presence_sys" where
  "heartbeat c i ts s =
     (if ps_pc s i \<noteq> Claimed then s
      else s\<lparr>ps_key := snd (heartbeat_script (ic_token c) (ps_now s) (ic_ttl c)
             (presence_value (ic_token c) (ic_host c) (ps_started s i) ts) (ps_key s))\<rparr>)"

definition release_presence :: "instance_cfg \<Rightarrow> nat \<Rightarrow> presence_sys \<Rightarrow> presence_sys" where
  "release_presence c i s =
     (if ps_pc s i \<noteq> Claimed then s
      else set_pc i Unclaimed (s\<lparr>ps_key := snd (release_script (ic_token c) (ps_now s) (ps_key s))\<rparr>))"

fun presence_step :: "(nat \<Rightarrow> instance_cfg) \<Rightarrow> presence_sys \<Rightarrow> presence_event \<Rightarrow> presence_sys" where
  "presence_step cfg s (ClaimSet i ts lost) = claim_set (cfg i) i ts lost s"
| "presence_step cfg s (ClaimGet i lost) = claim_get (cfg i) i lost s"
| "presence_step cfg s (ClaimExpire i lost) = claim_expire (cfg i) i lost s"
| "presence_step cfg s (Heartbeat i ts) = heartbeat (cfg i) i ts s"
| "presence_step cfg s (Release i) = release_presence (cfg i) i s"
| "presence_step cfg s (Pass d) = s\<lparr>ps_now := ps_now s + d\<rparr>"

definition presence_new :: presence_sys where
  "presence_new = \<lparr>ps_now = 0, ps_key = None, ps_pc = (\<lambda>_. Unclaimed), ps_started = (\<lambda>_. [])\<rparr>"

subsection \<open>Ownership\<close>

text \<open>
  The commands compare the token before they change the key, all but \<open>EXPIRE\<close>. A run is prompt when time never passes the
  expiry of a key whose owner has claimed it or is about to refresh it: the heartbeats are in time, and the refresh
  comes before the key it saw expires.
\<close>

definition holds_or_refreshes :: "presence_sys \<Rightarrow> nat \<Rightarrow> bool" where
  "holds_or_refreshes s i \<longleftrightarrow> ps_pc s i = Claimed \<or> ps_pc s i = SawOwn"



lemma owned_unique: "owned_by a now k \<Longrightarrow> owned_by b now k \<Longrightarrow> a = b"
  by (auto simp: owned_by_def split: option.splits)

lemma owned_by_iff: "owned_by tok now k \<longleftrightarrow> (\<exists>v t. k = Some (Some v, t) \<and> now < t \<and> jget v ''token'' = JStr tok)"
  by (auto simp: owned_by_def live_key_def split: option.splits if_splits)

lemma heartbeat_keeps_owner:
  assumes "owned_by tok now k" "0 < ttl" "jget v ''token'' = JStr tok'"
  shows "owned_by tok now (snd (heartbeat_script tok' now ttl v k))"
  using assms by (cases "tok' = tok") (auto simp: owned_by_iff heartbeat_script_def live_key_def)





lemma scripts_spare_successor:
  assumes "owned_by tok now k" "tok' \<noteq> tok"
  shows "heartbeat_script tok' now ttl v k = (0, k) \<and> release_script tok' now k = (0, k)"
  using assms by (auto simp: owned_by_iff heartbeat_script_def release_script_def live_key_def)

subsection \<open>The peers tool\<close>

text \<open>
  \<open>replies\<close> are the answers of \<open>SCAN\<close> in turn, \<open>None\<close> a failure; \<open>get\<close> is what \<open>GET\<close> of a key answers: a failure, no
  value, a text that is not JSON, or its value. \<open>None\<close> as the result: the cursor has not come back to 0 yet.
\<close>

datatype get_reply = GetFailed | GetEmpty | GetText | GetJson jsval

datatype peers_answer = PeersDown | Peers "(string \<times> jsval \<times> jsval) list"

fun peers_of_keys :: "string \<Rightarrow> string \<Rightarrow> (string \<Rightarrow> get_reply) \<Rightarrow> string list \<Rightarrow> (string \<times> jsval \<times> jsval) list option" where
  "peers_of_keys pfx self get [] = Some []"
| "peers_of_keys pfx self get (k # ks) =
     (let i = drop (length pfx) k; rest = peers_of_keys pfx self get ks in
      if i = self then rest
      else
        (case get k of
           GetFailed \<Rightarrow> None
         | GetJson p \<Rightarrow> if is_nullish p then rest else map_option ((#) (i, jget p ''last_seen'', jget p ''host'')) rest
         | _ \<Rightarrow> rest))"

fun peers :: "string \<Rightarrow> string \<Rightarrow> (string \<Rightarrow> get_reply) \<Rightarrow> (string \<times> string list) option list \<Rightarrow> peers_answer option" where
  "peers pfx self get [] = None"
| "peers pfx self get (None # _) = Some PeersDown"
| "peers pfx self get (Some (cursor, ks) # replies) =
     (case peers_of_keys pfx self get ks of
        None \<Rightarrow> Some PeersDown
      | Some out \<Rightarrow>
          if cursor = ''0'' then Some (Peers out)
          else
            (case peers pfx self get replies of
               Some (Peers out') \<Rightarrow> Some (Peers (out @ out'))
             | r \<Rightarrow> r))"

lemma peers_of_keys_entries:
  "peers_of_keys pfx self get ks = Some out \<Longrightarrow> (i, seen, host) \<in> set out \<Longrightarrow>
   i \<noteq> self \<and> (\<exists>k \<in> set ks. \<exists>p. i = drop (length pfx) k \<and> get k = GetJson p \<and> seen = jget p ''last_seen'' \<and> host = jget p ''host'')"
proof (induction ks arbitrary: out)
  case (Cons k ks)
  let ?rest = "peers_of_keys pfx self get ks"
  consider "?rest = Some out"
    | p out' where "drop (length pfx) k \<noteq> self" "get k = GetJson p" "?rest = Some out'"
        "out = (drop (length pfx) k, jget p ''last_seen'', jget p ''host'') # out'"
    using Cons.prems(1) by (auto simp: Let_def split: if_splits get_reply.splits)
  then show ?case
  proof cases
    case 1
    then show ?thesis using Cons.IH Cons.prems(2) by auto
  next
    case 2
    then show ?thesis using Cons.IH [OF 2(3)] Cons.prems(2) by auto
  qed
qed simp

text \<open>The peers listed are other agents, each with what its presence key says.\<close>

lemma peers_entries:
  "peers pfx self get replies = Some (Peers out) \<Longrightarrow> (i, seen, host) \<in> set out \<Longrightarrow>
   i \<noteq> self \<and> (\<exists>c ks k p. Some (c, ks) \<in> set replies \<and> k \<in> set ks \<and> i = drop (length pfx) k \<and> get k = GetJson p
     \<and> seen = jget p ''last_seen'' \<and> host = jget p ''host'')"
proof (induction pfx self get replies arbitrary: out rule: peers.induct)
  case (3 pfx self get cursor ks replies)
  obtain out1 where out1: "peers_of_keys pfx self get ks = Some out1"
    using "3.prems"(1) by (auto split: option.splits)
  show ?case
  proof (cases "(i, seen, host) \<in> set out1")
    case True
    then show ?thesis using peers_of_keys_entries [OF out1] by (metis list.set_intros(1))
  next
    case False
    then obtain out2 where "peers pfx self get replies = Some (Peers out2)" "(i, seen, host) \<in> set out2" "cursor \<noteq> ''0''"
      using "3.prems" out1 by (auto split: option.splits peers_answer.splits if_splits)
    then show ?thesis using "3.IH" [OF out1] by (metis list.set_intros(2))
  qed
qed auto

subsection \<open>Property\<close>

text \<open>
  Without promptness two instances can both have the claim: one that finds its own token, loses the key by expiry to
  another and then refreshes it, since \<open>EXPIRE\<close> does not compare the token.
\<close>

definition toy_cfg :: "nat \<Rightarrow> instance_cfg" where
  "toy_cfg i = \<lparr>ic_token = replicate (Suc i) CHR ''a'', ic_host = ''h'', ic_ttl = 90\<rparr>"

lemma late_refresh_splits_ownership:
  "let s = run (presence_step toy_cfg) presence_new
       [ClaimSet 0 ''t0'' True, Pass 80, ClaimSet 0 ''t1'' False, ClaimGet 0 False, Pass 20, ClaimSet 1 ''t2'' False, ClaimExpire 0 False]
   in ps_pc s 0 = Claimed \<and> ps_pc s 1 = Claimed"
  by (simp add: presence_new_def toy_cfg_def claim_set_def claim_get_def claim_expire_def set_pc_def set_nx_def live_key_def
      owned_by_def expire_def Let_def)



subsection \<open>The owner is protected\<close>

text \<open>
  Instances may be late here: one whose key expired still believes it has the claim, and its heartbeats and its release meet the key of
  a successor. A run is in time for an instance when the key does not expire during it and the instance does not release it.
\<close>

fun in_time :: "(nat \<Rightarrow> instance_cfg) \<Rightarrow> nat \<Rightarrow> presence_sys \<Rightarrow> presence_event list \<Rightarrow> bool" where
  "in_time cfg i s [] \<longleftrightarrow> True"
| "in_time cfg i s (e # es) \<longleftrightarrow>
     (case e of Pass d \<Rightarrow> (case ps_key s of Some (v, t) \<Rightarrow> ps_now s + d < t | None \<Rightarrow> True) | Release j \<Rightarrow> j \<noteq> i | _ \<Rightarrow> True)
     \<and> in_time cfg i (presence_step cfg s e) es"

definition key_value :: "presence_sys \<Rightarrow> jsval option option" where
  "key_value s = map_option fst (ps_key s)"

definition may_claim :: "presence_sys \<Rightarrow> nat set" where
  "may_claim s = {j. holds_or_refreshes s j}"

lemma protected_step:
  assumes own: "owned_by (ic_token (cfg i)) (ps_now s) (ps_key s)" and inj: "inj (\<lambda>i. ic_token (cfg i))" and ttl: "\<And>i. 0 < ic_ttl (cfg i)"
    and time: "in_time cfg i s [e]"
  shows "owned_by (ic_token (cfg i)) (ps_now (presence_step cfg s e)) (ps_key (presence_step cfg s e))
    \<and> may_claim (presence_step cfg s e) \<subseteq> insert i (may_claim s)
    \<and> ((\<forall>ts. e \<noteq> Heartbeat i ts) \<longrightarrow> key_value (presence_step cfg s e) = key_value s)"
proof -
  obtain v t where k: "ps_key s = Some (Some v, t)" "ps_now s < t" "jget v ''token'' = JStr (ic_token (cfg i))"
    using own by (auto simp: owned_by_iff)
  have live: "live_key (ps_now s) (ps_key s) = Some (Some v)" using k by (simp add: live_key_def)
  have tok: "ic_token (cfg j) = ic_token (cfg i) \<longleftrightarrow> j = i" for j using inj by (auto dest: injD)
  note ev = may_claim_def holds_or_refreshes_def set_pc_def key_value_def Let_def
  show ?thesis
  proof (cases e)
    case (ClaimSet j ts lost)
    then show ?thesis using live own by (auto simp: ev claim_set_def set_nx_def)
  next
    case (ClaimGet j lost)
    have "owned_by (ic_token (cfg j)) (ps_now s) (ps_key s) \<longleftrightarrow> j = i" using owned_unique [OF own] own tok by metis
    then show ?thesis using ClaimGet own by (auto simp: ev claim_get_def)
  next
    case (ClaimExpire j lost)
    have "expire (ps_now s) (ic_ttl (cfg j)) (ps_key s) = Some (Some v, ps_now s + ic_ttl (cfg j))" using live by (simp add: expire_def)
    then show ?thesis using ClaimExpire own k ttl [of j] by (auto simp: ev claim_expire_def owned_by_iff)
  next
    case (Heartbeat j ts)
    show ?thesis
    proof (cases "j = i")
      case True
      have "owned_by (ic_token (cfg i)) (ps_now s)
          (snd (heartbeat_script (ic_token (cfg i)) (ps_now s) (ic_ttl (cfg i)) (presence_value (ic_token (cfg i)) h a b) (ps_key s)))" for h a b
        by (rule heartbeat_keeps_owner [OF own ttl]) simp
      then show ?thesis using Heartbeat True own by (auto simp: ev heartbeat_def)
    next
      case False
      then have "snd (heartbeat_script (ic_token (cfg j)) (ps_now s) ttl' v' (ps_key s)) = ps_key s" for ttl' v'
        using scripts_spare_successor [OF own] tok by auto
      then show ?thesis using Heartbeat False own by (auto simp: ev heartbeat_def)
    qed
  next
    case (Release j)
    then have "j \<noteq> i" using time by simp
    then have "snd (release_script (ic_token (cfg j)) (ps_now s) (ps_key s)) = ps_key s"
      using scripts_spare_successor [OF own] tok by auto
    then show ?thesis using Release own by (auto simp: ev release_presence_def)
  next
    case (Pass d)
    then have "ps_now s + d < t" using time k by simp
    then show ?thesis using Pass k by (auto simp: ev owned_by_iff)
  qed
qed

text \<open>
  C12. The owner of a presence key is protected: take any moment of any run, late heartbeats, releases and refreshes included, at which the
  key is live and carries the token of an instance. From then on, as long as the key does not expire and the instance does not release
  it, the key stays live with its token; no other instance gets the claim or comes to refresh the key, but those that believed to
  have it already; and no other instance changes the value of the key, not even one that lost the key by expiry and does not know.
\<close>

theorem presence_owner_protected:
  assumes inj: "inj (\<lambda>i. ic_token (cfg i))" and ttl: "\<And>i. 0 < ic_ttl (cfg i)"
    and "s = run (presence_step cfg) presence_new before" and own: "owned_by (ic_token (cfg i)) (ps_now s) (ps_key s)"
    and time: "in_time cfg i s after" and "s' = run (presence_step cfg) s after"
  shows "owned_by (ic_token (cfg i)) (ps_now s') (ps_key s')
    \<and> (\<forall>j. j \<noteq> i \<and> ps_pc s' j \<in> {SawOwn, Claimed} \<longrightarrow> ps_pc s j \<in> {SawOwn, Claimed})
    \<and> ((\<forall>ts. Heartbeat i ts \<notin> set after) \<longrightarrow> ps_key s' \<noteq> None \<and> map_option fst (ps_key s') = map_option fst (ps_key s))"
proof -
  have "owned_by (ic_token (cfg i)) (ps_now (run (presence_step cfg) s es)) (ps_key (run (presence_step cfg) s es))
      \<and> may_claim (run (presence_step cfg) s es) \<subseteq> insert i (may_claim s)
      \<and> ((\<forall>ts. Heartbeat i ts \<notin> set es) \<longrightarrow> key_value (run (presence_step cfg) s es) = key_value s)"
    if "owned_by (ic_token (cfg i)) (ps_now s) (ps_key s)" "in_time cfg i s es" for es s
    using that
  proof (induction es arbitrary: s)
    case (Cons e es)
    then have t: "in_time cfg i s [e]" "in_time cfg i (presence_step cfg s e) es" by auto
    note one = protected_step [OF Cons.prems(1) inj ttl t(1)]
    show ?case using Cons.IH [of "presence_step cfg s e"] one t(2) by auto
  qed auto
  from this [OF own time] show ?thesis using own unfolding assms(6)
    by (auto simp: may_claim_def holds_or_refreshes_def key_value_def owned_by_iff)
qed

text \<open>Instance 0 is late: instance 1 has taken the key when 0 sends its heartbeat and releases, and 2 claims as well.\<close>

theorem presence_owner_protected_witness:
  "let s = run (presence_step toy_cfg) presence_new [ClaimSet 0 ''t0'' False, Pass 100, ClaimSet 1 ''t1'' False];
       s' = run (presence_step toy_cfg) s [Heartbeat 0 ''t2'', Release 0, ClaimSet 2 ''t3'' False, Pass 60]
   in owned_by ''aa'' 160 (ps_key s') \<and> map_option fst (ps_key s') = map_option fst (ps_key s) \<and> ps_pc s' 2 \<notin> {SawOwn, Claimed}"
proof -
  let ?s = "run (presence_step toy_cfg) presence_new [ClaimSet 0 ''t0'' False, Pass 100, ClaimSet 1 ''t1'' False]"
  let ?es = "[Heartbeat 0 ''t2'', Release 0, ClaimSet 2 ''t3'' False, Pass 60]"
  note ev = presence_new_def claim_set_def heartbeat_def release_presence_def set_pc_def set_nx_def live_key_def heartbeat_script_def
    release_script_def Let_def
  have t: "ic_token (toy_cfg 1) = ''aa''" "ic_token (toy_cfg 0) = ''a''" "ic_ttl (toy_cfg i) = 90" for i
    by (simp_all add: toy_cfg_def eval_nat_numeral)
  have inj: "inj (\<lambda>i. ic_token (toy_cfg i))" by (auto simp: toy_cfg_def inj_def dest: arg_cong [where f = length])
  have ttl: "0 < ic_ttl (toy_cfg i)" for i by (simp add: toy_cfg_def)
  have own: "owned_by (ic_token (toy_cfg 1)) (ps_now ?s) (ps_key ?s)" and time: "in_time toy_cfg 1 ?s ?es"
    by (simp_all add: ev t owned_by_def)
  note g = presence_owner_protected [OF inj ttl refl own time refl, unfolded t(1)]
  have now: "ps_now (run (presence_step toy_cfg) ?s ?es) = 160" and two: "ps_pc ?s 2 \<notin> {SawOwn, Claimed}" by (simp_all add: ev t)
  have ne: "(2::nat) \<noteq> 1" by simp
  have "ps_pc (run (presence_step toy_cfg) ?s ?es) 2 \<notin> {SawOwn, Claimed}" using g two ne by blast
  moreover have "\<forall>ts. Heartbeat 1 ts \<notin> set ?es" by simp
  ultimately show ?thesis using g unfolding now Let_def by blast
qed

end
