(* ===== verification/A2A_Skills.thy ===== *)
theory A2A_Skills
  imports A2A_Send
begin

text \<open>
  The announcement of saved skills, src/a2a-channel.ts: the scope and the summary read from a skill's body, the scrubbing of
  secrets, the tags, the event, and \<open>broadcastSkillCreated\<close>.

  The regular expressions are written out as matchers: at a position, with the character before it, the length of the
  match. \<open>normalizeBody\<close> has no byte-order mark to drop, since characters are below 256.
\<close>

subsection \<open>Scrubbing\<close>

definition alnum :: "char \<Rightarrow> bool" where
  "alnum c \<longleftrightarrow> is_lower c \<or> is_upper c \<or> is_digit c"

definition word_char :: "char \<Rightarrow> bool" where
  "word_char c \<longleftrightarrow> alnum c \<or> c = CHR ''_''"

text \<open>\<open>\b\<close> between two neighbours, either of which may be missing.\<close>

definition boundary :: "char option \<Rightarrow> char option \<Rightarrow> bool" where
  "boundary a b \<longleftrightarrow> (case a of Some c \<Rightarrow> word_char c | None \<Rightarrow> False) \<noteq> (case b of Some c \<Rightarrow> word_char c | None \<Rightarrow> False)"

definition char_at :: "string \<Rightarrow> nat \<Rightarrow> char option" where
  "char_at s n = (if n < length s then Some (s ! n) else None)"

type_synonym matcher = "char option \<Rightarrow> string \<Rightarrow> nat option"

text \<open>\<open>-----BEGIN[\s\S]*?-----END[A-Z0-9 ]*-----\<close>\<close>

definition pem_char :: "char \<Rightarrow> bool" where
  "pem_char c \<longleftrightarrow> is_upper c \<or> is_digit c \<or> c = CHR '' ''"

fun pem_end :: "string \<Rightarrow> nat option" where
  "pem_end s =
     (let label = takeWhile pem_char (drop 8 s) in
      if starts_with ''-----END'' s \<and> starts_with ''-----'' (drop (8 + length label) s) then Some (13 + length label)
      else (case s of [] \<Rightarrow> None | c # cs \<Rightarrow> map_option Suc (pem_end cs)))"

declare pem_end.simps [simp del]

definition match_pem :: matcher where
  "match_pem prev s = (if starts_with ''-----BEGIN'' s then map_option ((+) 10) (pem_end (drop 10 s)) else None)"

text \<open>\<open>\b(?:sk|rk|pk|ghp|gho|xox[baprs])[-_][A-Za-z0-9-]{12,}\b\<close>\<close>

definition KEY_PREFIXES :: "string list" where
  "KEY_PREFIXES = [''sk'', ''rk'', ''pk'', ''ghp'', ''gho'', ''xoxb'', ''xoxa'', ''xoxp'', ''xoxr'', ''xoxs'']"

definition key_tail :: "string \<Rightarrow> nat option" where
  "key_tail s =
     (let n = length (takeWhile (\<lambda>c. alnum c \<or> c = CHR ''-'') s) in
      find (\<lambda>m. boundary (char_at s (m - 1)) (char_at s m)) (rev [12..<Suc n]))"

definition match_key :: matcher where
  "match_key prev s =
     (case find (\<lambda>p. starts_with p s \<and> (char_at s (length p) = Some CHR ''-'' \<or> char_at s (length p) = Some CHR ''_'')) KEY_PREFIXES of
        None \<Rightarrow> None
      | Some p \<Rightarrow> if boundary prev (char_at s 0) then map_option ((+) (Suc (length p))) (key_tail (drop (Suc (length p)) s)) else None)"

text \<open>\<open>\bAKIA[0-9A-Z]{16}\b\<close>\<close>

definition match_akia :: matcher where
  "match_akia prev s =
     (if starts_with ''AKIA'' s \<and> 20 \<le> length s \<and> list_all (\<lambda>c. is_digit c \<or> is_upper c) (take 16 (drop 4 s))
        \<and> boundary prev (char_at s 0) \<and> boundary (char_at s 19) (char_at s 20) then Some 20 else None)"

text \<open>\<open>[A-Za-z0-9_-]{40,}\<close>\<close>

definition long_char :: "char \<Rightarrow> bool" where
  "long_char c \<longleftrightarrow> word_char c \<or> c = CHR ''-''"

definition match_long :: matcher where
  "match_long prev s = (let n = length (takeWhile long_char s) in if 40 \<le> n then Some n else None)"

text \<open>\<open>String.replace\<close> with a global pattern whose matches are not empty.\<close>

definition REDACTED :: string where "REDACTED = ''[redacted]''"

function replace_all :: "matcher \<Rightarrow> char option \<Rightarrow> string \<Rightarrow> string" where
  "replace_all m prev [] = []"
| "replace_all m prev (c # cs) =
     (case m prev (c # cs) of
        None \<Rightarrow> c # replace_all m (Some c) cs
      | Some n \<Rightarrow> REDACTED @ replace_all m (Some ((c # cs) ! (min n (length (c # cs)) - 1))) (drop (n - 1) cs))"
  by pat_completeness auto
termination by (relation "measure (\<lambda>(m, prev, s). length s)") auto

definition SECRET_PATTERNS :: "matcher list" where
  "SECRET_PATTERNS = [match_pem, match_key, match_akia, match_long]"

definition scrub_secrets :: "string \<Rightarrow> string" where
  "scrub_secrets s = fold (\<lambda>m out. replace_all m None out) SECRET_PATTERNS s"

subsection \<open>Body, tags and scope\<close>

definition nl :: char where "nl = CHR 0x0A"

fun normalize_body :: "string \<Rightarrow> string" where
  "normalize_body [] = []"
| "normalize_body [c] = [if c = CHR 0x0D then nl else c]"
| "normalize_body (c # d # s) =
     (if c = CHR 0x0D then nl # (if d = nl then normalize_body s else normalize_body (d # s))
      else c # normalize_body (d # s))"












definition skill_summary :: "string \<Rightarrow> string" where
  "skill_summary body =
     (let lines = split_on nl (normalize_body body);
          closed = (case lines of l # ls \<Rightarrow> js_trim l = ''---'' \<and> list_ex (\<lambda>x. js_trim x = ''---'') ls | [] \<Rightarrow> False);
          rest = (if closed then tl (dropWhile (\<lambda>x. js_trim x \<noteq> ''---'') (tl lines)) else lines);
          line = (case find (\<lambda>t. \<not> (t = [] \<or> t = ''---'' \<or> starts_with ''#'' t)) (map js_trim rest) of Some t \<Rightarrow> t | None \<Rightarrow> [])
      in scrub_secrets (take 280 line))"

subsection \<open>The event and its broadcast\<close>















subsection \<open>Lemmas\<close>

text \<open>After the last pattern no run of forty characters of a token is left.\<close>

definition no_long_run :: "string \<Rightarrow> bool" where
  "no_long_run s \<longleftrightarrow> list_all (\<lambda>t. length (takeWhile long_char t) < 40) (suffixes s)"

lemma no_long_run_Cons: "no_long_run (c # s) \<longleftrightarrow> length (takeWhile long_char (c # s)) < 40 \<and> no_long_run s"
  by (auto simp: no_long_run_def)

lemma no_long_run_Nil [simp]: "no_long_run []"
  by (simp add: no_long_run_def)


lemma takeWhile_redacted [simp]: "takeWhile long_char (REDACTED @ t) = []"
  by (simp add: REDACTED_def long_char_def word_char_def alnum_def is_lower_def is_upper_def is_digit_def char_in_def)








subsection \<open>A token cut by the length limit\<close>

text \<open>
  The summary is cut to 280 characters before it is scrubbed: of a token of 64 characters that crosses the cut, 39 stay in the
  summary, one less than the pattern asks for.
\<close>

lemma replace_all_id: "(\<And>p t. suffix t s \<Longrightarrow> m p t = None) \<Longrightarrow> replace_all m prev s = s"
  by (induction s arbitrary: prev) (auto simp: suffix_ConsI)

lemma starts_with_hd: "starts_with (p # ps) s \<Longrightarrow> s \<noteq> [] \<and> hd s = p"
  by (cases s) (auto simp: starts_with_def)

lemma scrub_plain:
  assumes "set s \<subseteq> {CHR ''.'', CHR ''b''}" "no_long_run s"
  shows "scrub_secrets s = s"
proof -
  have hd: "t = [] \<or> hd t = CHR ''.'' \<or> hd t = CHR ''b''" if "suffix t s" for t
    using assms(1) set_mono_suffix [OF that] by (cases t) auto
  have "\<not> starts_with (c # cs) t" if "suffix t s" "c \<noteq> CHR ''.''" "c \<noteq> CHR ''b''" for c cs t
    using hd [OF that(1)] that starts_with_hd by metis
  then have "match_pem p t = None" "match_key p t = None" "match_akia p t = None" if "suffix t s" for p t
    using that by (auto simp: match_pem_def match_key_def match_akia_def KEY_PREFIXES_def)
  moreover have "match_long p t = None" if "suffix t s" for p t
  proof -
    have "length (takeWhile long_char t) < 40" using assms(2) that unfolding no_long_run_def list_all_iff by simp
    then show ?thesis by (simp add: match_long_def Let_def)
  qed
  ultimately show ?thesis by (simp add: scrub_secrets_def SECRET_PATTERNS_def replace_all_id)
qed

lemma no_long_run_dots: "no_long_run s \<Longrightarrow> no_long_run (replicate n CHR ''.'' @ s)"
  by (induction n) (auto simp: no_long_run_Cons long_char_def word_char_def alnum_def is_lower_def is_upper_def is_digit_def char_in_def)

lemma no_long_run_short: "length s < 40 \<Longrightarrow> no_long_run s"
proof (induction s)
  case (Cons c s)
  then show ?case using length_takeWhile_le [of long_char "c # s"] by (simp add: no_long_run_Cons del: takeWhile.simps)
qed simp

lemma split_on_none: "c \<notin> set s \<Longrightarrow> split_on c s = [s]"
  by (induction s) auto

lemma normalize_body_id: "CHR 0x0D \<notin> set s \<Longrightarrow> normalize_body s = s"
  by (induction s rule: normalize_body.induct) auto

lemma js_trim_id: "s \<noteq> [] \<Longrightarrow> \<not> js_ws (hd s) \<Longrightarrow> \<not> js_ws (last s) \<Longrightarrow> js_trim s = s"
proof -
  assume a: "s \<noteq> []" "\<not> js_ws (hd s)" "\<not> js_ws (last s)"
  have "dropWhile js_ws s = s" using a(1,2) by (cases s) auto
  moreover have "dropWhile js_ws (rev s) = rev s" using a(1,3) by (cases "rev s") (auto simp flip: hd_rev)
  ultimately show "js_trim s = s" by (simp add: js_trim_def)
qed

lemma cut_token_survives:
  "skill_summary (replicate 241 CHR ''.'' @ replicate 64 CHR ''b'') = replicate 241 CHR ''.'' @ replicate 39 CHR ''b''"
proof -
  let ?s = "replicate 241 CHR ''.'' @ replicate 64 CHR ''b''"
  have "normalize_body ?s = ?s" by (rule normalize_body_id) auto
  moreover have "split_on nl ?s = [?s]" by (rule split_on_none) (auto simp: nl_def)
  moreover have "js_trim ?s = ?s" by (rule js_trim_id) (auto simp: js_ws_def char_in_def last_append)
  moreover have "?s \<noteq> ''---''" "\<not> starts_with ''#'' ?s" by (auto simp: numeral_eq_Suc starts_with_def)
  ultimately have "skill_summary ?s = scrub_secrets (take 280 ?s)" by (simp add: skill_summary_def Let_def)
  moreover have "take 280 ?s = replicate 241 CHR ''.'' @ replicate 39 CHR ''b''" by simp
  moreover have "scrub_secrets (replicate 241 CHR ''.'' @ replicate 39 CHR ''b'') = replicate 241 CHR ''.'' @ replicate 39 CHR ''b''"
  proof (rule scrub_plain)
    show "no_long_run (replicate 241 CHR ''.'' @ replicate 39 CHR ''b'')"
      by (rule no_long_run_dots, rule no_long_run_short) simp
  qed auto
  ultimately show ?thesis by simp
qed

subsection \<open>Property\<close>










end
