(* ===== verification/Output_Transport.thy ===== *)
theory Output_Transport
  imports Prelude
begin

text \<open>
  The transport of large outputs and inputs, src/output_transport.ts: byte-exact truncation, the blobs in Redis, and the plans
  that make a message fit the send limit.

  A text here is a list of Unicode scalar values, since the truncation is about the bytes of UTF-8. SHA-256 and the
  size of the assembled body are parameters: \<open>wrap\<close> builds the body from a text and the extra fields, \<open>size\<close> is the length of
  its JSON in bytes. Lengths are below \<open>2 ^ 30\<close>, so the shift of the binary search does not overflow.
\<close>

subsection \<open>UTF-8\<close>

type_synonym utext = "nat list"

definition scalar :: "nat \<Rightarrow> bool" where
  "scalar c \<longleftrightarrow> c < 1114112 \<and> \<not> (55296 \<le> c \<and> c \<le> 57343)"

definition utf8_cp :: "nat \<Rightarrow> nat list" where
  "utf8_cp c =
     (if c < 128 then [c]
      else if c < 2048 then [192 + c div 64, 128 + c mod 64]
      else if c < 65536 then [224 + c div 4096, 128 + c div 64 mod 64, 128 + c mod 64]
      else [240 + c div 262144, 128 + c div 4096 mod 64, 128 + c div 64 mod 64, 128 + c mod 64])"

definition utf8_bytes :: "utext \<Rightarrow> nat list" where
  "utf8_bytes s = concat (map utf8_cp s)"

definition utf8_byte_length :: "utext \<Rightarrow> nat" where
  "utf8_byte_length s = length (utf8_bytes s)"

text \<open>\<open>10xxxxxx\<close>\<close>

definition continuation :: "nat \<Rightarrow> bool" where
  "continuation b \<longleftrightarrow> 128 \<le> b \<and> b < 192"

text \<open>\<open>Buffer.toString('utf8')\<close> of well-formed bytes; \<open>None\<close> for others, which do not arise.\<close>

fun utf8_decode :: "nat list \<Rightarrow> utext option" where
  "utf8_decode [] = Some []"
| "utf8_decode (a # bs) =
     (if a < 128 then map_option ((#) a) (utf8_decode bs)
      else if a < 224 then
        (case bs of b # r \<Rightarrow> map_option ((#) ((a - 192) * 64 + (b - 128))) (utf8_decode r) | _ \<Rightarrow> None)
      else if a < 240 then
        (case bs of b # c # r \<Rightarrow> map_option ((#) ((a - 224) * 4096 + (b - 128) * 64 + (c - 128))) (utf8_decode r) | _ \<Rightarrow> None)
      else
        (case bs of b # c # d # r \<Rightarrow>
           map_option ((#) ((a - 240) * 262144 + (b - 128) * 4096 + (c - 128) * 64 + (d - 128))) (utf8_decode r) | _ \<Rightarrow> None))"

lemma utf8_bytes_append: "utf8_bytes (a @ b) = utf8_bytes a @ utf8_bytes b"
  by (simp add: utf8_bytes_def)

lemma utf8_bytes_Cons: "utf8_bytes (c # s) = utf8_cp c @ utf8_bytes s"
  by (simp add: utf8_bytes_def)

lemma utf8_bytes_Nil [simp]: "utf8_bytes [] = []"
  by (simp add: utf8_bytes_def)

lemma utf8_cp_cases:
  assumes "c < 1114112"
  obtains "c < 128" "utf8_cp c = [c]"
  | x y where "x < 32" "y < 64" "utf8_cp c = [192 + x, 128 + y]" "c = x * 64 + y"
  | x y z where "x < 16" "y < 64" "z < 64" "utf8_cp c = [224 + x, 128 + y, 128 + z]" "c = x * 4096 + y * 64 + z"
  | x y z w where "x < 5" "y < 64" "z < 64" "w < 64" "utf8_cp c = [240 + x, 128 + y, 128 + z, 128 + w]"
      "c = x * 262144 + y * 4096 + z * 64 + w"
proof -
  have d: "c div 4096 = c div 64 div 64" "c div 262144 = c div 64 div 64 div 64" by (simp_all flip: div_mult2_eq)
  have e: "c = c div 64 * 64 + c mod 64" "c div 64 = c div 64 div 64 * 64 + c div 64 mod 64"
    "c div 64 div 64 = c div 64 div 64 div 64 * 64 + c div 64 div 64 mod 64" by simp_all
  consider "c < 128" | "128 \<le> c" "c < 2048" | "2048 \<le> c" "c < 65536" | "65536 \<le> c" by linarith
  then show ?thesis
  proof cases
    case 1
    then show ?thesis using that(1) by (simp add: utf8_cp_def)
  next
    case 2
    then have "c div 64 < 32" by (simp add: div_less_iff_less_mult)
    then show ?thesis using that(2) [of "c div 64" "c mod 64"] 2 by (simp add: utf8_cp_def)
  next
    case 3
    then have "c div 4096 < 16" by (simp add: div_less_iff_less_mult)
    moreover have "c = c div 4096 * 4096 + c div 64 mod 64 * 64 + c mod 64" unfolding d using e by linarith
    ultimately show ?thesis using that(3) [of "c div 4096" "c div 64 mod 64" "c mod 64"] 3 by (simp add: utf8_cp_def)
  next
    case 4
    then have "c div 262144 < 5" using assms by (simp add: div_less_iff_less_mult)
    moreover have "c = c div 262144 * 262144 + c div 4096 mod 64 * 4096 + c div 64 mod 64 * 64 + c mod 64"
      unfolding d using e by linarith
    ultimately show ?thesis
      using that(4) [of "c div 262144" "c div 4096 mod 64" "c div 64 mod 64" "c mod 64"] 4 by (simp add: utf8_cp_def)
  qed
qed

lemma utf8_decode_cp: "c < 1114112 \<Longrightarrow> utf8_decode (utf8_cp c @ bs) = map_option ((#) c) (utf8_decode bs)"
  by (erule utf8_cp_cases) simp_all

lemma utf8_decode_bytes: "list_all scalar s \<Longrightarrow> utf8_decode (utf8_bytes s) = Some s"
  by (induction s) (auto simp: utf8_bytes_Cons utf8_decode_cp scalar_def)

lemma utf8_bytes_inject: "list_all scalar a \<Longrightarrow> list_all scalar b \<Longrightarrow> utf8_bytes a = utf8_bytes b \<longleftrightarrow> a = b"
  by (metis option.inject utf8_decode_bytes)

text \<open>The first byte of a character is not a continuation byte and all others are.\<close>

lemma utf8_cp_shape:
  assumes "c < 1114112"
  obtains b bs where "utf8_cp c = b # bs" "\<not> continuation b" "list_all continuation bs"
  using assms by (rule utf8_cp_cases) (auto simp: continuation_def)

subsection \<open>Truncation\<close>

record truncation =
  tr_text :: utext
  tr_truncated :: bool
  tr_originalBytes :: nat
  tr_emittedBytes :: nat

text \<open>The loop that backs off to a character boundary; \<open>buf ! end\<close> is the first byte left out.\<close>

fun back_off :: "nat list \<Rightarrow> nat \<Rightarrow> nat" where
  "back_off buf 0 = 0"
| "back_off buf (Suc n) = (if continuation (buf ! Suc n) then back_off buf n else Suc n)"

definition truncate_to_bytes :: "utext \<Rightarrow> int \<Rightarrow> truncation" where
  "truncate_to_bytes s maxBytes =
     (let original = utf8_byte_length s in
      if int original \<le> maxBytes then \<lparr>tr_text = s, tr_truncated = False, tr_originalBytes = original, tr_emittedBytes = original\<rparr>
      else if maxBytes \<le> 0 then \<lparr>tr_text = [], tr_truncated = True, tr_originalBytes = original, tr_emittedBytes = 0\<rparr>
      else
        (let buf = utf8_bytes s; e = back_off buf (nat maxBytes);
             text = (case utf8_decode (take e buf) of Some t \<Rightarrow> t | None \<Rightarrow> []) in
         \<lparr>tr_text = text, tr_truncated = True, tr_originalBytes = original, tr_emittedBytes = utf8_byte_length text\<rparr>))"

text \<open>What it is to compute: the longest prefix that fits.\<close>

fun fit_prefix :: "nat \<Rightarrow> utext \<Rightarrow> utext" where
  "fit_prefix n [] = []"
| "fit_prefix n (c # s) = (let k = length (utf8_cp c) in if k \<le> n then c # fit_prefix (n - k) s else [])"

lemma back_off_le: "back_off buf n \<le> n"
  by (induction n) auto


lemma fit_prefix_prefix: "prefix (fit_prefix n s) s"
  by (induction n s rule: fit_prefix.induct) (auto simp: Let_def)

lemma fit_prefix_bytes: "length (utf8_bytes (fit_prefix n s)) \<le> n"
  by (induction n s rule: fit_prefix.induct) (auto simp: Let_def utf8_bytes_Cons)

lemma fit_prefix_all: "length (utf8_bytes s) \<le> n \<Longrightarrow> fit_prefix n s = s"
  by (induction n s rule: fit_prefix.induct) (auto simp: Let_def utf8_bytes_Cons)

lemma fit_prefix_maximal: "prefix t s \<Longrightarrow> length (utf8_bytes t) \<le> n \<Longrightarrow> prefix t (fit_prefix n s)"
proof (induction n s arbitrary: t rule: fit_prefix.induct)
  case (2 n c s)
  then show ?case by (cases t) (auto simp: Let_def utf8_bytes_Cons)
qed simp

lemma back_off_append:
  assumes "length p \<le> n" "n < length p + length buf" "\<not> continuation (buf ! 0)"
  shows "back_off (p @ buf) n = length p + back_off buf (n - length p)"
  using assms
proof (induction n)
  case (Suc n)
  show ?case
  proof (cases "length p = Suc n")
    case True
    then show ?thesis using Suc.prems by (simp add: nth_append)
  next
    case False
    then have "length p \<le> n" using Suc.prems by simp
    moreover from this have "Suc n - length p = Suc (n - length p)" by simp
    ultimately show ?thesis using Suc by (simp add: nth_append)
  qed
qed simp

lemma back_off_inside: "n < length (b # bs) \<Longrightarrow> list_all continuation bs \<Longrightarrow> back_off ((b # bs) @ r) n = 0"
  by (induction n) (auto simp: nth_append list_all_length)

lemma back_off_fits:
  "list_all scalar s \<Longrightarrow> n < length (utf8_bytes s) \<Longrightarrow> back_off (utf8_bytes s) n = length (utf8_bytes (fit_prefix n s))"
proof (induction s arbitrary: n)
  case (Cons c s)
  have "c < 1114112" using Cons.prems(1) by (simp add: scalar_def)
  then obtain b bs where c: "utf8_cp c = b # bs" "\<not> continuation b" "list_all continuation bs" by (rule utf8_cp_shape)
  show ?case
  proof (cases "n < length (utf8_cp c)")
    case True
    then show ?thesis using back_off_inside [OF _ c(3), of n b "utf8_bytes s"] by (simp add: utf8_bytes_Cons c Let_def)
  next
    case False
    then obtain d s' where s: "s = d # s'" using Cons.prems(2) by (cases s) (auto simp: utf8_bytes_Cons)
    then have "d < 1114112" using Cons.prems(1) by (simp add: scalar_def)
    then have "\<not> continuation (utf8_bytes s ! 0)" by (rule utf8_cp_shape) (simp add: s utf8_bytes_Cons nth_append)
    moreover have "n < length (utf8_cp c) + length (utf8_bytes s)" using Cons.prems(2) by (simp add: utf8_bytes_Cons)
    ultimately have "back_off (utf8_cp c @ utf8_bytes s) n = length (utf8_cp c) + back_off (utf8_bytes s) (n - length (utf8_cp c))"
      using False by (intro back_off_append) auto
    moreover have "back_off (utf8_bytes s) (n - length (utf8_cp c)) = length (utf8_bytes (fit_prefix (n - length (utf8_cp c)) s))"
      using Cons False by (intro Cons.IH) (auto simp: utf8_bytes_Cons)
    ultimately show ?thesis using False by (simp add: utf8_bytes_Cons Let_def)
  qed
qed simp

lemma prefix_scalar: "prefix t s \<Longrightarrow> list_all scalar s \<Longrightarrow> list_all scalar t"
  by (auto simp: prefix_def)

theorem truncation_is_longest_prefix:
  assumes "list_all scalar s"
  shows "tr_text (truncate_to_bytes s m) = fit_prefix (nat m) s
    \<and> tr_originalBytes (truncate_to_bytes s m) = utf8_byte_length s
    \<and> tr_emittedBytes (truncate_to_bytes s m) = utf8_byte_length (fit_prefix (nat m) s)
    \<and> (tr_truncated (truncate_to_bytes s m) \<longleftrightarrow> fit_prefix (nat m) s \<noteq> s \<or> m < 0)"
proof -
  let ?t = "fit_prefix (nat m) s"
  consider "int (utf8_byte_length s) \<le> m" | "\<not> int (utf8_byte_length s) \<le> m" "m \<le> 0" | "\<not> int (utf8_byte_length s) \<le> m" "0 < m" by linarith
  then show ?thesis
  proof cases
    case 1
    then have "?t = s" by (intro fit_prefix_all) (simp add: utf8_byte_length_def)
    then show ?thesis using 1 by (auto simp: truncate_to_bytes_def Let_def)
  next
    case 2
    have "?t = []" using 2 fit_prefix_bytes [of 0 s] fit_prefix_prefix [of 0 s] assms
      by (cases s) (auto simp: Let_def utf8_cp_def)
    moreover have "s \<noteq> []" if "0 \<le> m" using 2 that by (auto simp: utf8_byte_length_def)
    ultimately show ?thesis using 2 by (auto simp: truncate_to_bytes_def utf8_byte_length_def Let_def)
  next
    case 3
    let ?e = "back_off (utf8_bytes s) (nat m)"
    have "?e = length (utf8_bytes ?t)" using assms 3 by (intro back_off_fits) (auto simp: utf8_byte_length_def)
    moreover obtain u where u: "s = ?t @ u" using fit_prefix_prefix [of "nat m" s] by (auto simp: prefix_def)
    ultimately have "take ?e (utf8_bytes s) = utf8_bytes ?t" by (metis append_eq_conv_conj utf8_bytes_append)
    then have "utf8_decode (take ?e (utf8_bytes s)) = Some ?t"
      using utf8_decode_bytes prefix_scalar [OF fit_prefix_prefix assms] by simp
    moreover have "?t \<noteq> s" using fit_prefix_bytes [of "nat m" s] 3 by (auto simp: utf8_byte_length_def)
    ultimately show ?thesis using 3 by (simp add: truncate_to_bytes_def Let_def)
  qed
qed

subsection \<open>Blobs\<close>

text \<open>\<open>Number(x)\<close> of the environment variables is given; a value that is NaN or zero falls back by \<open>||\<close>.\<close>

definition blob_ttl_s :: "jsnum \<Rightarrow> jsnum \<Rightarrow> jsnum" where
  "blob_ttl_s env ageH =
     (let age = (case ageH of Fin q \<Rightarrow> Fin (if q = 0 then 24 * 3600 else q * 3600) | NaN \<Rightarrow> Fin (24 * 3600) | n \<Rightarrow> n);
          e = (case env of Fin q \<Rightarrow> q | _ \<Rightarrow> 0) in
      case age of Fin a \<Rightarrow> Fin (max e (max (a + 21600) 90000)) | PosInf \<Rightarrow> PosInf | _ \<Rightarrow> Fin (max e 90000))"

record blob_ref =
  rf_result_ref :: string
  rf_sha256 :: string
  rf_len :: nat
  rf_expires_at :: string

type_synonym blobs = "(string \<times> utext) list"

text \<open>
  \<open>putBlob\<close>: at most two fresh ids; \<open>down i\<close> says that Redis fails at the i-th \<open>SET\<close>. \<open>sha\<close> is the hex digest, \<open>expires\<close>
  the time of expiry as text.
\<close>

fun put_attempts :: "(utext \<Rightarrow> string) \<Rightarrow> string \<Rightarrow> utext \<Rightarrow> (string \<times> bool) list \<Rightarrow> string \<Rightarrow> blobs \<Rightarrow> (string + blob_ref) \<times> blobs" where
  "put_attempts sha expires text [] pfx db = (Inl ''putBlob: NX collision after retries'', db)"
| "put_attempts sha expires text ((i, down) # attempts) pfx db =
     (let ref = pfx @ i in
      if down then (Inl ''blob.put'', db)
      else if map_of db ref = None then
        (Inr \<lparr>rf_result_ref = ref, rf_sha256 = sha text, rf_len = utf8_byte_length text, rf_expires_at = expires\<rparr>, db @ [(ref, text)])
      else put_attempts sha expires text attempts pfx db)"

definition BLOB_KEY_PREFIX :: string where "BLOB_KEY_PREFIX = ''alloyium:a2a:blob:''"

definition put_blob :: "(utext \<Rightarrow> string) \<Rightarrow> string \<Rightarrow> (nat \<Rightarrow> string) \<Rightarrow> (nat \<Rightarrow> bool) \<Rightarrow> utext \<Rightarrow> blobs \<Rightarrow> (string + blob_ref) \<times> blobs" where
  "put_blob sha expires gen down text db = put_attempts sha expires text [(gen 0, down 0), (gen 1, down 1)] BLOB_KEY_PREFIX db"

text \<open>The reply of \<open>GET\<close>: \<open>None\<close> a failure, \<open>Some None\<close> no value.\<close>

definition get_blob :: "(utext \<Rightarrow> string) \<Rightarrow> utext option option \<Rightarrow> string option \<Rightarrow> jsnum option \<Rightarrow> string + utext" where
  "get_blob sha reply digest expected =
     (if digest = None \<or> digest = Some [] then Inl ''no_sha''
      else
        (case reply of
           None \<Rightarrow> Inl ''error''
         | Some None \<Rightarrow> Inl ''missing''
         | Some (Some v) \<Rightarrow>
             if expected \<noteq> None \<and> expected \<noteq> Some (Fin (of_nat (utf8_byte_length v))) then Inl ''len''
             else if Some (sha v) \<noteq> digest then Inl ''checksum''
             else Inr v))"

definition codes :: "string \<Rightarrow> utext" where
  "codes s = map of_char s"

record result_msg =
  ms_result_ref :: "string option"
  ms_sha256 :: "string option"
  ms_len :: "jsnum option"
  ms_output :: "utext option"

text \<open>The result and the reason passed to \<open>onMiss\<close>.\<close>

definition resolve_ref :: "(utext \<Rightarrow> string) \<Rightarrow> (string \<Rightarrow> utext option option) \<Rightarrow> result_msg \<Rightarrow> utext \<times> string option" where
  "resolve_ref sha get m =
     (case ms_result_ref m of
        Some (c # r) \<Rightarrow>
          (case get_blob sha (get (c # r)) (Some (case ms_sha256 m of None \<Rightarrow> [] | Some s \<Rightarrow> s)) (ms_len m) of
             Inr text \<Rightarrow> (text, None)
           | Inl reason \<Rightarrow> ((case ms_output m of Some t \<Rightarrow> t | None \<Rightarrow> codes (''(blob '' @ reason @ '')'')), Some reason))
      | _ \<Rightarrow> ((case ms_output m of Some t \<Rightarrow> t | None \<Rightarrow> []), None))"

text \<open>\<open>inline\<close> is the join of the input's texts, trimmed.\<close>

definition resolve_job_input :: "(utext \<Rightarrow> string) \<Rightarrow> (string \<Rightarrow> utext option option) \<Rightarrow> utext \<Rightarrow> result_msg option \<Rightarrow> utext \<times> string option" where
  "resolve_job_input sha get inline ref =
     (case ref of
        None \<Rightarrow> (inline, None)
      | Some m \<Rightarrow>
          (case ms_result_ref m of
             Some (c # r) \<Rightarrow>
               (case get_blob sha (get (c # r)) (Some (case ms_sha256 m of None \<Rightarrow> [] | Some s \<Rightarrow> s)) (ms_len m) of
                  Inr text \<Rightarrow> (text, None)
                | Inl reason \<Rightarrow> (inline, Some reason))
           | _ \<Rightarrow> (inline, None)))"

text \<open>The parsed text of a send's result, \<open>None\<close> when it does not parse.\<close>

definition sent_ok :: "jsval option \<Rightarrow> bool" where
  "sent_ok r = (case r of Some v \<Rightarrow> jget v ''ok'' = JBool True | None \<Rightarrow> False)"

definition send_error :: "js_env \<Rightarrow> jsval option \<Rightarrow> string" where
  "send_error je r =
     (case r of
        None \<Rightarrow> ''unparseable''
      | Some v \<Rightarrow> if jget v ''ok'' = JBool True then ''''
          else if is_nullish (jget v ''error'') then ''unknown'' else js_string je (jget v ''error''))"

lemma put_attempts_ok:
  "put_attempts sha expires text attempts pfx db = (Inr ref, db') \<Longrightarrow>
   rf_sha256 ref = sha text \<and> rf_len ref = utf8_byte_length text \<and> prefix pfx (rf_result_ref ref)
   \<and> map_of db (rf_result_ref ref) = None \<and> db' = db @ [(rf_result_ref ref, text)]"
  by (induction attempts) (auto simp: Let_def split: if_splits prod.splits)

text \<open>A blob resolved is one whose digest is the one of the message, whatever Redis holds.\<close>

lemma get_blob_digest: "get_blob sha reply digest expected = Inr v \<Longrightarrow> digest = Some (sha v)"
  by (auto simp: get_blob_def split: if_splits option.splits)

subsection \<open>Planning\<close>

text \<open>\<open>{truncated, original_bytes, emitted_bytes}\<close>, the fields of a claim check, and those of an input's claim check.\<close>

datatype extra = NoExtra | TruncatedExtra nat nat | ClaimExtra blob_ref | InputExtra string string nat

definition TRUNCATE_MARKER :: "nat \<Rightarrow> utext" where
  "TRUNCATE_MARKER n = [10, 8230] @ codes ''[truncated for transport '' @ [8212] @ codes ('' full '' @ nat_str n @ ''B via result_ref]'')"

definition preview_marked :: "utext \<Rightarrow> int \<Rightarrow> nat \<Rightarrow> utext" where
  "preview_marked full previewBytes n =
     (let head = tr_text (truncate_to_bytes full previewBytes) in
      if length head < length full then head @ TRUNCATE_MARKER n else full)"

definition SENTINEL_EXTRA :: extra where
  "SENTINEL_EXTRA = ClaimExtra \<lparr>rf_result_ref = BLOB_KEY_PREFIX @ ''00000000-0000-0000-0000-000000000000'',
     rf_sha256 = replicate 64 CHR ''f'', rf_len = 9999999999, rf_expires_at = ''2026-06-15T00:00:00.000Z''\<rparr>"

text \<open>The binary search of the three fits: the last candidate that was accepted.\<close>

function search :: "(int \<Rightarrow> 'a) \<Rightarrow> ('a \<Rightarrow> bool) \<Rightarrow> int \<Rightarrow> int \<Rightarrow> 'a option \<Rightarrow> 'a option" where
  "search cand ok lo hi best =
     (if lo \<le> hi then
        (let m = (lo + hi) div 2; c = cand m in
         if ok c then search cand ok (m + 1) hi (Some c) else search cand ok lo (m - 1) best)
      else best)"
  by pat_completeness auto
termination by (relation "measure (\<lambda>(cand, ok, lo, hi, best). nat (hi + 1 - lo))") auto

declare search.simps [simp del]

type_synonym 'b wrapper = "utext \<Rightarrow> extra \<Rightarrow> 'b"

definition fit_preview :: "'b wrapper \<Rightarrow> ('b \<Rightarrow> nat) \<Rightarrow> nat \<Rightarrow> nat \<Rightarrow> nat \<Rightarrow> utext \<Rightarrow> utext option" where
  "fit_preview wrap bsize cap previewBytes n full =
     search (\<lambda>m. tr_text (truncate_to_bytes full m) @ TRUNCATE_MARKER n) (\<lambda>t. bsize (wrap t SENTINEL_EXTRA) \<le> cap)
       0 (int (min previewBytes (utf8_byte_length full))) None"

datatype reply_plan = Inline utext | ClaimCheck utext nat | Truncate utext nat nat

definition fit_truncate :: "'b wrapper \<Rightarrow> ('b \<Rightarrow> nat) \<Rightarrow> nat \<Rightarrow> utext \<Rightarrow> reply_plan" where
  "fit_truncate wrap bsize cap full =
     (let original = utf8_byte_length full;
          best = (case search (\<lambda>m. tr_text (truncate_to_bytes full m))
                    (\<lambda>t. bsize (wrap t (TruncatedExtra original (utf8_byte_length t))) \<le> cap) 0 (int original) None of
                    Some t \<Rightarrow> t | None \<Rightarrow> []) in
      Truncate best original (utf8_byte_length best))"

definition PREVIEW_BYTES :: nat where "PREVIEW_BYTES = 1024"

definition plan_reply :: "'b wrapper \<Rightarrow> ('b \<Rightarrow> nat) \<Rightarrow> nat \<Rightarrow> nat \<Rightarrow> bool \<Rightarrow> utext \<Rightarrow> reply_plan" where
  "plan_reply wrap bsize cap previewBytes allowClaimcheck full =
     (if bsize (wrap full NoExtra) \<le> cap then Inline full
      else
        (case (if allowClaimcheck then fit_preview wrap bsize cap previewBytes (utf8_byte_length full) full else None) of
           Some p \<Rightarrow> ClaimCheck p (utf8_byte_length full)
         | None \<Rightarrow> fit_truncate wrap bsize cap full))"

definition MAX_INPUT_BYTES :: nat where "MAX_INPUT_BYTES = 16 * 1024 * 1024"

text \<open>\<open>buildClaimCheckedInput\<close>: the body and the key of the blob, or the error it throws.\<close>

definition build_claim_checked_input ::
  "(utext \<Rightarrow> string) \<Rightarrow> string \<Rightarrow> (nat \<Rightarrow> string) \<Rightarrow> (nat \<Rightarrow> bool) \<Rightarrow> 'b wrapper \<Rightarrow> ('b \<Rightarrow> nat) \<Rightarrow> nat \<Rightarrow> nat \<Rightarrow> nat \<Rightarrow> utext \<Rightarrow> blobs
   \<Rightarrow> (string + 'b \<times> blob_ref option) \<times> blobs" where
  "build_claim_checked_input sha expires gen down wrap bsize cap previewBytes maxInput prompt db =
     (if bsize (wrap prompt NoExtra) \<le> cap then (Inr (wrap prompt NoExtra, None), db)
      else if utf8_byte_length prompt > maxInput then (Inl ''input exceeds max'', db)
      else
        (case put_blob sha expires gen down prompt db of
           (Inl err, db') \<Rightarrow> (Inl err, db')
         | (Inr ref, db') \<Rightarrow>
             (let x = InputExtra (rf_result_ref ref) (rf_sha256 ref) (rf_len ref); n = utf8_byte_length prompt;
                  best = (case search (\<lambda>m. tr_text (truncate_to_bytes prompt m) @ TRUNCATE_MARKER n)
                            (\<lambda>t. bsize (wrap t x) \<le> cap) 0 (int (min previewBytes n)) None of
                            Some t \<Rightarrow> t | None \<Rightarrow> []);
                  body = wrap best x in
              if bsize body > cap then (Inl ''ref-only body exceeds cap'', db') else (Inr (body, Some ref), db'))))"

subsection \<open>The search\<close>

lemma search_accepts:
  "search cand ok lo hi best = Some c \<Longrightarrow> best = Some c \<or> (\<exists>m. lo \<le> m \<and> m \<le> hi \<and> c = cand m \<and> ok c)"
proof (induction cand ok lo hi best rule: search.induct)
  case (1 cand ok lo hi best)
  show ?case
  proof (cases "lo \<le> hi")
    case True
    let ?m = "(lo + hi) div 2"
    have m: "lo \<le> ?m" "?m \<le> hi" using True by auto
    show ?thesis
    proof (cases "ok (cand ?m)")
      case ok: True
      then have "search cand ok (?m + 1) hi (Some (cand ?m)) = Some c" using 1(3) True by (subst (asm) search.simps) (simp add: Let_def)
      from 1(1) [OF True refl refl ok this] consider "c = cand ?m" | k where "?m + 1 \<le> k" "k \<le> hi" "c = cand k" "ok c" by auto
      then show ?thesis
      proof cases
        case 1
        then show ?thesis using m ok by auto
      next
        case 2
        then have "lo \<le> k" using m by linarith
        then show ?thesis using 2 by auto
      qed
    next
      case no: False
      then have "search cand ok lo (?m - 1) best = Some c" using 1(3) True by (subst (asm) search.simps) (simp add: Let_def)
      from 1(2) [OF True refl refl no this] consider "best = Some c" | k where "lo \<le> k" "k \<le> ?m - 1" "c = cand k" "ok c" by auto
      then show ?thesis
      proof cases
        case 2
        then have "k \<le> hi" using m by linarith
        then show ?thesis using 2 by auto
      qed simp
    qed
  next
    case False
    then show ?thesis using 1(3) by (subst (asm) search.simps) simp
  qed
qed

text \<open>When what is accepted is downward closed the search finds the greatest accepted candidate.\<close>

lemma search_greatest:
  assumes "\<And>k m. lo \<le> k \<Longrightarrow> k \<le> m \<Longrightarrow> m \<le> hi \<Longrightarrow> ok (cand m) \<Longrightarrow> ok (cand k)" "lo \<le> hi + 1"
  shows "\<exists>M. lo - 1 \<le> M \<and> M \<le> hi \<and> (\<forall>m. lo \<le> m \<longrightarrow> m \<le> hi \<longrightarrow> ok (cand m) = (m \<le> M))
    \<and> search cand ok lo hi best = (if M = lo - 1 then best else Some (cand M))"
  using assms
proof (induction cand ok lo hi best rule: search.induct)
  case (1 cand ok lo hi best)
  show ?case
  proof (cases "lo \<le> hi")
    case True
    let ?m = "(lo + hi) div 2"
    have m: "lo \<le> ?m" "?m \<le> hi" using True by auto
    show ?thesis
    proof (cases "ok (cand ?m)")
      case ok: True
      have "\<exists>M. ?m + 1 - 1 \<le> M \<and> M \<le> hi \<and> (\<forall>m. ?m + 1 \<le> m \<longrightarrow> m \<le> hi \<longrightarrow> ok (cand m) = (m \<le> M))
          \<and> search cand ok (?m + 1) hi (Some (cand ?m)) = (if M = ?m + 1 - 1 then Some (cand ?m) else Some (cand M))"
        by (rule 1(1) [OF True refl refl ok]) (use 1(3) m in \<open>force+\<close>)
      then obtain M where M: "?m \<le> M" "M \<le> hi" "\<forall>m. ?m + 1 \<le> m \<longrightarrow> m \<le> hi \<longrightarrow> ok (cand m) = (m \<le> M)"
        "search cand ok (?m + 1) hi (Some (cand ?m)) = (if M = ?m + 1 - 1 then Some (cand ?m) else Some (cand M))" by auto
      then have found: "search cand ok (?m + 1) hi (Some (cand ?m)) = Some (cand M)" by (simp split: if_splits)
      have "ok (cand k) = (k \<le> M)" if "lo \<le> k" "k \<le> hi" for k
        using M(1,3) that 1(3) [of k ?m] m(2) ok by (cases "k \<le> ?m") auto
      moreover have "search cand ok lo hi best = Some (cand M)" using True ok found by (subst search.simps) (simp add: Let_def)
      ultimately show ?thesis using M(1,2) m(1) by (intro exI [of _ M]) auto
    next
      case no: False
      have "\<exists>M. lo - 1 \<le> M \<and> M \<le> ?m - 1 \<and> (\<forall>m. lo \<le> m \<longrightarrow> m \<le> ?m - 1 \<longrightarrow> ok (cand m) = (m \<le> M))
          \<and> search cand ok lo (?m - 1) best = (if M = lo - 1 then best else Some (cand M))"
        by (rule 1(2) [OF True refl refl no]) (use 1(3) m in \<open>force+\<close>)
      then obtain M where M: "lo - 1 \<le> M" "M \<le> ?m - 1" "\<forall>m. lo \<le> m \<longrightarrow> m \<le> ?m - 1 \<longrightarrow> ok (cand m) = (m \<le> M)"
        "search cand ok lo (?m - 1) best = (if M = lo - 1 then best else Some (cand M))" by auto
      have "ok (cand k) = (k \<le> M)" if "lo \<le> k" "k \<le> hi" for k
        using M(2,3) that 1(3) [of ?m k] m(1) no by (cases "k \<le> ?m - 1") auto
      moreover have "search cand ok lo hi best = (if M = lo - 1 then best else Some (cand M))"
        using True no M(4) by (subst search.simps) (simp add: Let_def)
      ultimately show ?thesis using M(1,2) m(2) by (intro exI [of _ M]) auto
    qed
  next
    case False
    then show ?thesis using 1(4) by (subst search.simps) (auto intro: exI [of _ hi])
  qed
qed

subsection \<open>What the plans promise\<close>

text \<open>A body with more text and a larger count is not shorter.\<close>

definition grows :: "'b wrapper \<Rightarrow> ('b \<Rightarrow> nat) \<Rightarrow> bool" where
  "grows wrap bsize \<longleftrightarrow> (\<forall>t t' n e e'. prefix t t' \<longrightarrow> e \<le> e' \<longrightarrow> bsize (wrap t (TruncatedExtra n e)) \<le> bsize (wrap t' (TruncatedExtra n e')))"

definition truncated_size :: "'b wrapper \<Rightarrow> ('b \<Rightarrow> nat) \<Rightarrow> utext \<Rightarrow> utext \<Rightarrow> nat" where
  "truncated_size wrap bsize full t = bsize (wrap t (TruncatedExtra (utf8_byte_length full) (utf8_byte_length t)))"

lemma prefix_bytes: "prefix t t' \<Longrightarrow> utf8_byte_length t \<le> utf8_byte_length t'"
  by (auto simp: prefix_def utf8_byte_length_def utf8_bytes_append)

lemma truncated_size_mono: "grows wrap bsize \<Longrightarrow> prefix t t' \<Longrightarrow> truncated_size wrap bsize full t \<le> truncated_size wrap bsize full t'"
  unfolding grows_def truncated_size_def using prefix_bytes by blast

lemma fit_prefix_mono: "m \<le> n \<Longrightarrow> prefix (fit_prefix m s) (fit_prefix n s)"
  using fit_prefix_bytes [of m s] by (intro fit_prefix_maximal fit_prefix_prefix) simp

lemma truncate_text: "list_all scalar s \<Longrightarrow> tr_text (truncate_to_bytes s m) = fit_prefix (nat m) s"
  by (simp add: truncation_is_longest_prefix)

lemma fit_prefix_0: "fit_prefix 0 s = []"
  by (cases s) (auto simp: Let_def utf8_cp_def)

lemma fit_preview_ok:
  assumes "list_all scalar full" "fit_preview wrap bsize cap pb n full = Some p"
  shows "\<exists>h. prefix h full \<and> p = h @ TRUNCATE_MARKER n \<and> utf8_byte_length h \<le> pb \<and> bsize (wrap p SENTINEL_EXTRA) \<le> cap"
proof -
  obtain m where m: "0 \<le> m" "m \<le> int (min pb (utf8_byte_length full))" "bsize (wrap p SENTINEL_EXTRA) \<le> cap"
    "p = tr_text (truncate_to_bytes full m) @ TRUNCATE_MARKER n"
    using search_accepts [OF assms(2) [unfolded fit_preview_def]] by auto
  then have "utf8_byte_length (fit_prefix (nat m) full) \<le> pb"
    using fit_prefix_bytes [of "nat m" full] by (simp add: utf8_byte_length_def)
  then show ?thesis using m(3,4) fit_prefix_prefix truncate_text [OF assms(1)] by auto
qed

lemma fit_truncate_ok:
  assumes full: "list_all scalar full" and g: "grows wrap bsize" and t: "fit_truncate wrap bsize cap full = Truncate t n e"
  shows "n = utf8_byte_length full \<and> e = utf8_byte_length t \<and> prefix t full
    \<and> (if truncated_size wrap bsize full [] \<le> cap
       then truncated_size wrap bsize full t \<le> cap \<and> (\<forall>t'. prefix t' full \<longrightarrow> truncated_size wrap bsize full t' \<le> cap \<longrightarrow> prefix t' t)
       else t = [])"
proof -
  let ?n = "utf8_byte_length full"
  let ?cand = "\<lambda>m. tr_text (truncate_to_bytes full m)"
  let ?ok = "\<lambda>t. bsize (wrap t (TruncatedExtra ?n (utf8_byte_length t))) \<le> cap"
  have ok: "?ok s \<longleftrightarrow> truncated_size wrap bsize full s \<le> cap" for s by (simp add: truncated_size_def)
  have "?ok (?cand k)" if "k \<le> m" "?ok (?cand m)" for k m
  proof -
    have "nat k \<le> nat m" using that by simp
    from truncated_size_mono [OF g fit_prefix_mono [OF this], of full full] that show ?thesis by (simp add: ok truncate_text [OF full])
  qed
  then obtain M where M: "- 1 \<le> M" "M \<le> int ?n" "\<forall>m. 0 \<le> m \<longrightarrow> m \<le> int ?n \<longrightarrow> ?ok (?cand m) = (m \<le> M)"
    "search ?cand ?ok 0 (int ?n) None = (if M = - 1 then None else Some (?cand M))"
    using search_greatest [of 0 "int ?n" ?ok ?cand None] by auto
  have def: "t = (if M = - 1 then [] else fit_prefix (nat M) full)" "n = ?n" "e = utf8_byte_length t"
    using t unfolding fit_truncate_def Let_def M(4) by (auto simp: truncate_text [OF full])
  have zero: "truncated_size wrap bsize full [] \<le> cap \<longleftrightarrow> 0 \<le> M"
    using M(3) [rule_format, of 0] by (simp add: ok truncate_text [OF full] fit_prefix_0)
  have "prefix t' t" if t': "prefix t' full" "truncated_size wrap bsize full t' \<le> cap" "0 \<le> M" for t'
  proof -
    let ?k = "utf8_byte_length t'"
    have "fit_prefix ?k full = t'"
    proof -
      have "prefix t' (fit_prefix ?k full)" by (rule fit_prefix_maximal [OF t'(1)]) (simp add: utf8_byte_length_def)
      then obtain u where u: "fit_prefix ?k full = t' @ u" by (auto simp: prefix_def)
      then have "utf8_bytes u = []" using fit_prefix_bytes [of ?k full] by (simp add: utf8_bytes_append utf8_byte_length_def)
      then have "u = []" by (cases u) (auto simp: utf8_bytes_Cons utf8_cp_def split: if_splits)
      then show ?thesis using u by simp
    qed
    then have "int ?k \<le> M" using M(3) [rule_format, of "int ?k"] t'(2) prefix_bytes [OF t'(1)] by (simp add: ok truncate_text [OF full])
    then have "prefix (fit_prefix ?k full) (fit_prefix (nat M) full)" by (intro fit_prefix_mono) simp
    then show ?thesis using \<open>fit_prefix ?k full = t'\<close> t'(3) def(1) by simp
  qed
  moreover have "truncated_size wrap bsize full t \<le> cap" if "0 \<le> M"
    using M(3) [rule_format, of M] M(2) that def(1) by (simp add: ok truncate_text [OF full])
  ultimately show ?thesis using def zero M(1) fit_prefix_prefix [of "nat M" full] by auto
qed

text \<open>
  The plan of a reply keeps its promise: an inline body and a claim-check body with fields of the largest width fit the
  limit, the preview is a prefix of the output within the preview limit followed by the marker; a truncated output is
  the longest prefix whose body fits, cut at a character and with exact counts, and empty when not even
  the empty body fits, the one case in which the plan exceeds the limit.
\<close>

theorem reply_plan_fits:
  assumes "list_all scalar full" "grows wrap bsize"
  shows "case plan_reply wrap bsize cap pb allow full of
      Inline t \<Rightarrow> t = full \<and> bsize (wrap t NoExtra) \<le> cap
    | ClaimCheck p n \<Rightarrow> allow \<and> n = utf8_byte_length full \<and> bsize (wrap p SENTINEL_EXTRA) \<le> cap
        \<and> (\<exists>h. prefix h full \<and> p = h @ TRUNCATE_MARKER n \<and> utf8_byte_length h \<le> pb)
    | Truncate t n e \<Rightarrow> n = utf8_byte_length full \<and> e = utf8_byte_length t \<and> prefix t full
        \<and> (if truncated_size wrap bsize full [] \<le> cap
           then truncated_size wrap bsize full t \<le> cap \<and> (\<forall>t'. prefix t' full \<longrightarrow> truncated_size wrap bsize full t' \<le> cap \<longrightarrow> prefix t' t)
           else t = [])"
proof (cases "bsize (wrap full NoExtra) \<le> cap")
  case False
  show ?thesis
  proof (cases "if allow then fit_preview wrap bsize cap pb (utf8_byte_length full) full else None")
    case None
    moreover obtain t n e where "fit_truncate wrap bsize cap full = Truncate t n e" by (simp add: fit_truncate_def Let_def)
    ultimately show ?thesis using False fit_truncate_ok [OF assms] by (simp add: plan_reply_def)
  next
    case (Some p)
    then have "allow" "fit_preview wrap bsize cap pb (utf8_byte_length full) full = Some p" by (auto split: if_splits)
    then show ?thesis using False fit_preview_ok [OF assms(1)] by (fastforce simp: plan_reply_def)
  qed
qed (simp add: plan_reply_def)

definition toy_wrap :: "(utext \<times> extra) wrapper" where
  "toy_wrap t x = (t, x)"

definition toy_size :: "utext \<times> extra \<Rightarrow> nat" where
  "toy_size b = utf8_byte_length (fst b) + (if snd b = NoExtra then 0 else 100)"

theorem reply_plan_fits_witness:
  "\<exists>t e. plan_reply toy_wrap toy_size 104 1024 False (replicate 35 8364) = Truncate t 105 e
     \<and> prefix t (replicate 35 8364) \<and> truncated_size toy_wrap toy_size (replicate 35 8364) t \<le> 104"
proof -
  let ?full = "replicate 35 8364 :: utext"
  have bytes: "utf8_byte_length (replicate n 8364) = 3 * n" for n
    by (induction n) (simp_all add: utf8_byte_length_def utf8_bytes_Cons utf8_cp_def)
  have "list_all scalar ?full" "grows toy_wrap toy_size"
    by (auto simp: scalar_def list_all_iff grows_def toy_wrap_def toy_size_def prefix_bytes)
  note fits = reply_plan_fits [OF this, where cap = 104 and pb = 1024 and allow = False]
  obtain t e where "plan_reply toy_wrap toy_size 104 1024 False ?full = Truncate t 105 e"
    using bytes [of 35] by (simp add: plan_reply_def fit_truncate_def toy_wrap_def toy_size_def Let_def)
  moreover have "truncated_size toy_wrap toy_size ?full [] \<le> 104"
    by (simp add: truncated_size_def toy_wrap_def toy_size_def utf8_byte_length_def)
  ultimately show ?thesis using fits by auto
qed

text \<open>
  C37. A prompt sent by claim check comes back whole: when \<open>buildClaimCheckedInput\<close> returns a body, the body fits the limit;
  without a reference it carries the prompt, and with one the receiver that gets what the sender stored resolves
  the input to the very prompt, while nothing that Redis may answer makes it accept a text with another digest.
\<close>

theorem claim_checked_input_recovered:
  assumes "build_claim_checked_input sha expires gen down wrap bsize cap pb maxInput prompt db = (Inr (body, r), db')"
    and "sha prompt \<noteq> []"
  shows "bsize body \<le> cap
    \<and> (case r of
        None \<Rightarrow> body = wrap prompt NoExtra \<and> db' = db
      | Some ref \<Rightarrow>
          (\<exists>head. body = wrap head (InputExtra (rf_result_ref ref) (rf_sha256 ref) (rf_len ref)))
          \<and> resolve_job_input sha (\<lambda>k. Some (map_of db' k)) inline
              (Some \<lparr>ms_result_ref = Some (rf_result_ref ref), ms_sha256 = Some (rf_sha256 ref), ms_len = Some (Fin (of_nat (rf_len ref))), ms_output = None\<rparr>)
            = (prompt, None)
          \<and> (\<forall>get text. resolve_job_input sha get inline
              (Some \<lparr>ms_result_ref = Some (rf_result_ref ref), ms_sha256 = Some (rf_sha256 ref), ms_len = Some (Fin (of_nat (rf_len ref))), ms_output = None\<rparr>)
            = (text, None) \<longrightarrow> sha text = sha prompt))"
proof (cases "bsize (wrap prompt NoExtra) \<le> cap")
  case True
  then show ?thesis using assms(1) by (auto simp: build_claim_checked_input_def)
next
  case False
  note def = assms(1) [unfolded build_claim_checked_input_def Let_def]
  obtain ref db1 where put: "put_blob sha expires gen down prompt db = (Inr ref, db1)"
    using def False by (auto split: if_splits prod.splits sum.splits)
  have r: "r = Some ref" "db' = db1" "bsize body \<le> cap"
    "\<exists>head. body = wrap head (InputExtra (rf_result_ref ref) (rf_sha256 ref) (rf_len ref))"
    using def False put by (auto split: if_splits)
  have ref: "rf_sha256 ref = sha prompt" "rf_len ref = utf8_byte_length prompt" "prefix BLOB_KEY_PREFIX (rf_result_ref ref)"
    "map_of db (rf_result_ref ref) = None" "db1 = db @ [(rf_result_ref ref, prompt)]"
    using put_attempts_ok [OF put [unfolded put_blob_def]] by auto
  have look: "map_of db1 (rf_result_ref ref) = Some prompt" using ref(4,5) by (simp add: map_add_def)
  obtain c k where key: "rf_result_ref ref = c # k" using ref(3) by (cases "rf_result_ref ref") (auto simp: BLOB_KEY_PREFIX_def)
  have "sha v = sha prompt" if "get_blob sha reply (Some (sha prompt)) n = Inr v" for reply n v
    using get_blob_digest [OF that] by simp
  then show ?thesis
    using r ref(1,2) key look assms(2) by (auto simp: resolve_job_input_def get_blob_def split: sum.splits)
qed

theorem claim_checked_input_recovered_witness:
  "\<exists>ref db' body. build_claim_checked_input (\<lambda>t. ''d'') ''e'' (\<lambda>_. ''u'') (\<lambda>_. False) toy_wrap toy_size 200 1024 1000 (replicate 210 65) []
       = (Inr (body, Some ref), db') \<and> toy_size body \<le> 200
     \<and> resolve_job_input (\<lambda>t. ''d'') (\<lambda>k. Some (map_of db' k)) []
         (Some \<lparr>ms_result_ref = Some (rf_result_ref ref), ms_sha256 = Some (rf_sha256 ref), ms_len = Some (Fin (of_nat (rf_len ref))), ms_output = None\<rparr>)
       = (replicate 210 65, None)"
proof -
  let ?p = "replicate 210 65 :: utext"
  let ?run = "build_claim_checked_input (\<lambda>t. ''d'') ''e'' (\<lambda>_. ''u'') (\<lambda>_. False) toy_wrap toy_size 200 1024 1000 ?p []"
  let ?ref = "\<lparr>rf_result_ref = BLOB_KEY_PREFIX @ ''u'', rf_sha256 = ''d'', rf_len = 210, rf_expires_at = ''e''\<rparr>"
  let ?x = "InputExtra (BLOB_KEY_PREFIX @ ''u'') ''d'' 210"
  let ?found = "search (\<lambda>m. tr_text (truncate_to_bytes ?p m) @ TRUNCATE_MARKER 210) (\<lambda>t. toy_size (toy_wrap t ?x) \<le> 200) 0 210 None"
  have bytes: "utf8_byte_length (replicate n 65) = n" for n
    by (induction n) (simp_all add: utf8_byte_length_def utf8_bytes_Cons utf8_cp_def)
  have "toy_size (toy_wrap (case ?found of Some t \<Rightarrow> t | None \<Rightarrow> []) ?x) \<le> 200"
  proof (cases ?found)
    case (Some t)
    then show ?thesis using search_accepts [OF Some] by auto
  qed (simp add: toy_size_def toy_wrap_def utf8_byte_length_def)
  then obtain body db' where run: "?run = (Inr (body, Some ?ref), db')"
    using bytes [of 210] by (simp add: build_claim_checked_input_def put_blob_def toy_size_def toy_wrap_def Let_def)
  have "(\<lambda>t. ''d'') ?p \<noteq> []" by simp
  from claim_checked_input_recovered [OF run this, of "[]"] show ?thesis
    using run by (intro exI [of _ ?ref] exI [of _ db'] exI [of _ body]) simp
qed

end
