(* ===== verification/Codex_Realtime.thy ===== *)
theory Codex_Realtime
  imports Prelude
begin

text \<open>
  The sessions of the Codex gateway, src/codex_realtime.ts: the registry with its three maps, the session ids, and the
  small builders. A session is the record the maps share; a change of it is an update of its entry. Each operation is given the
  time as text; \<open>None\<close> is the error \<open>session_not_found\<close>.
\<close>

subsection \<open>Schemas and builders\<close>

definition REALTIME_SCHEMAS :: "string list" where
  "REALTIME_SCHEMAS = [''codex.session.create.v1'', ''codex.session.input.v1'', ''codex.session.state.v1'', ''codex.turn.start.v1'',
     ''codex.turn.steer.v1'', ''codex.turn.interrupt.v1'', ''codex.thread.inject_items.v1'']"

definition is_codex_realtime_schema :: "jsval \<Rightarrow> bool" where
  "is_codex_realtime_schema v = (case v of JStr s \<Rightarrow> s \<in> set REALTIME_SCHEMAS | _ \<Rightarrow> False)"

definition session_id_char :: "char \<Rightarrow> bool" where
  "session_id_char c \<longleftrightarrow> is_lower c \<or> is_upper c \<or> is_digit c \<or> c \<in> set '':_@./-''"

definition valid_session_id :: "string \<Rightarrow> bool" where
  "valid_session_id s \<longleftrightarrow> 1 \<le> length s \<and> length s \<le> 160 \<and> list_all session_id_char s"

text \<open>\<open>None\<close>: throws \<open>bad_session_id\<close>.\<close>

definition normalize_session_id :: "string \<Rightarrow> string option" where
  "normalize_session_id value = (let t = js_trim value in if valid_session_id t then Some t else None)"

definition item_text :: "jsval \<Rightarrow> string" where
  "item_text item = (case jget item ''text'' of JStr t \<Rightarrow> t | _ \<Rightarrow> [])"

definition extract_realtime_text :: "jsval \<Rightarrow> string" where
  "extract_realtime_text req =
     (case jget req ''text'' of
        JStr t \<Rightarrow> t
      | _ \<Rightarrow>
          join_with [CHR 0x0A] (filter (\<lambda>t. t \<noteq> []) (map item_text (case jget req ''input'' of JArr xs \<Rightarrow> xs | _ \<Rightarrow> []))))"

definition build_user_text_input :: "string \<Rightarrow> jsval" where
  "build_user_text_input t = JArr [JObj [(''type'', JStr ''text''), (''text'', JStr t), (''text_elements'', JArr [])]]"

definition build_injected_text_item :: "string \<Rightarrow> bool \<Rightarrow> jsval" where
  "build_injected_text_item t assistant =
     JObj [(''type'', JStr ''message''), (''role'', JStr (if assistant then ''assistant'' else ''user'')),
       (''content'', JArr [JObj [(''type'', JStr (if assistant then ''output_text'' else ''input_text'')), (''text'', JStr t)]])]"

subsection \<open>The registry\<close>

datatype session_status = Ready | Running | Steering | InjectingContext | Interrupting | Completed | Failed | Interrupted

record rt_session =
  rs_session_id :: string
  rs_thread_id :: string
  rs_thread_key :: "string option"
  rs_owner :: "string option"
  rs_cwd :: string
  rs_sandbox :: string
  rs_approval_policy :: string
  rs_stream_topic :: "string option"
  rs_status :: session_status
  rs_active_turn_id :: "string option"
  rs_seq :: nat
  rs_created_at :: string
  rs_updated_at :: string

text \<open>\<open>rg_events\<close> logs the events built, as session and number.\<close>

record registry =
  rg_sessions :: "(string \<times> rt_session) list"
  rg_by_thread :: "(string \<times> string) list"
  rg_by_turn :: "(string \<times> string) list"
  rg_events :: "(string \<times> nat) list"

definition registry_new :: registry where
  "registry_new = \<lparr>rg_sessions = [], rg_by_thread = [], rg_by_turn = [], rg_events = []\<rparr>"

definition truthy_opt :: "string option \<Rightarrow> string option" where
  "truthy_opt x = (if x = Some [] then None else x)"

record create_args =
  ca_session_id :: "string option"
  ca_thread_id :: string
  ca_thread_key :: "string option"
  ca_owner :: "string option"
  ca_cwd :: string
  ca_sandbox :: string
  ca_approval_policy :: string
  ca_stream_topic :: "string option"

definition or_else :: "'a option \<Rightarrow> 'a option \<Rightarrow> 'a option" where
  "or_else a b = (case a of None \<Rightarrow> b | _ \<Rightarrow> a)"

definition put_rt_session :: "rt_session \<Rightarrow> registry \<Rightarrow> registry" where
  "put_rt_session s r = r\<lparr>rg_sessions := AList.update (rs_session_id s) s (rg_sessions r)\<rparr>"

definition same_context :: "create_args \<Rightarrow> rt_session \<Rightarrow> bool" where
  "same_context a s \<longleftrightarrow> rs_thread_id s = ca_thread_id a \<and> rs_cwd s = ca_cwd a \<and> rs_sandbox s = ca_sandbox a
     \<and> rs_approval_policy s = ca_approval_policy a"

text \<open>\<open>fresh\<close> is the generated id.\<close>

definition create_session :: "string \<Rightarrow> string \<Rightarrow> create_args \<Rightarrow> registry \<Rightarrow> (string + rt_session) \<times> registry" where
  "create_session fresh now a r =
     (case normalize_session_id (case or_else (ca_session_id a) (ca_thread_key a) of Some i \<Rightarrow> i | None \<Rightarrow> ''session-'' @ fresh) of
        None \<Rightarrow> (Inl ''bad_session_id'', r)
      | Some i \<Rightarrow>
          (case map_of (rg_sessions r) i of
             Some s \<Rightarrow>
               if \<not> same_context a s then (Inl ''session_context_mismatch'', r)
               else
                 (let s' = s\<lparr>rs_thread_key := or_else (ca_thread_key a) (rs_thread_key s), rs_owner := or_else (ca_owner a) (rs_owner s),
                         rs_stream_topic := or_else (ca_stream_topic a) (rs_stream_topic s), rs_updated_at := now\<rparr> in
                  (Inr s', put_rt_session s' r))
           | None \<Rightarrow>
               (let s = \<lparr>rs_session_id = i, rs_thread_id = ca_thread_id a, rs_thread_key = truthy_opt (ca_thread_key a),
                      rs_owner = truthy_opt (ca_owner a), rs_cwd = ca_cwd a, rs_sandbox = ca_sandbox a,
                      rs_approval_policy = ca_approval_policy a, rs_stream_topic = truthy_opt (ca_stream_topic a), rs_status = Ready,
                      rs_active_turn_id = None, rs_seq = 0, rs_created_at = now, rs_updated_at = now\<rparr> in
                (Inr s, (put_rt_session s r)\<lparr>rg_by_thread := AList.update (ca_thread_id a) i (rg_by_thread r)\<rparr>))))"

definition get_session :: "string \<Rightarrow> registry \<Rightarrow> rt_session option" where
  "get_session i r = map_of (rg_sessions r) i"

definition get_by_thread_id :: "string \<Rightarrow> registry \<Rightarrow> rt_session option" where
  "get_by_thread_id t r =
     (case map_of (rg_by_thread r) t of Some i \<Rightarrow> if i = [] then None else get_session i r | None \<Rightarrow> None)"

definition get_by_turn_id :: "string \<Rightarrow> registry \<Rightarrow> rt_session option" where
  "get_by_turn_id t r =
     (case map_of (rg_by_turn r) t of Some i \<Rightarrow> if i = [] then None else get_session i r | None \<Rightarrow> None)"

definition drop_turn :: "rt_session \<Rightarrow> registry \<Rightarrow> registry" where
  "drop_turn s r =
     (case truthy_opt (rs_active_turn_id s) of None \<Rightarrow> r | Some t \<Rightarrow> r\<lparr>rg_by_turn := AList.delete t (rg_by_turn r)\<rparr>)"

definition set_active_turn :: "string \<Rightarrow> string \<Rightarrow> session_status \<Rightarrow> string \<Rightarrow> registry \<Rightarrow> registry option" where
  "set_active_turn i turn status now r =
     (case get_session i r of
        None \<Rightarrow> None
      | Some s \<Rightarrow>
          (let r1 = (if rs_active_turn_id s = Some turn then r else drop_turn s r);
               r2 = put_rt_session (s\<lparr>rs_active_turn_id := Some turn, rs_status := status, rs_updated_at := now\<rparr>) r1 in
           Some (r2\<lparr>rg_by_turn := AList.update turn i (rg_by_turn r2)\<rparr>)))"

definition clear_active_turn :: "string \<Rightarrow> session_status \<Rightarrow> string \<Rightarrow> registry \<Rightarrow> registry option" where
  "clear_active_turn i status now r =
     (case get_session i r of
        None \<Rightarrow> None
      | Some s \<Rightarrow> Some (put_rt_session (s\<lparr>rs_active_turn_id := None, rs_status := status, rs_updated_at := now\<rparr>) (drop_turn s r)))"

definition update_status :: "string \<Rightarrow> session_status \<Rightarrow> string \<Rightarrow> registry \<Rightarrow> registry option" where
  "update_status i status now r =
     (case get_session i r of
        None \<Rightarrow> None
      | Some s \<Rightarrow> Some (put_rt_session (s\<lparr>rs_status := status, rs_updated_at := now\<rparr>) r))"

text \<open>Logs the number it hands out.\<close>

definition next_seq :: "string \<Rightarrow> string \<Rightarrow> registry \<Rightarrow> (nat \<times> registry) option" where
  "next_seq i now r =
     (case get_session i r of
        None \<Rightarrow> None
      | Some s \<Rightarrow>
          (let n = Suc (rs_seq s); r1 = put_rt_session (s\<lparr>rs_seq := n, rs_updated_at := now\<rparr>) r in
           Some (n, r1\<lparr>rg_events := rg_events r1 @ [(i, n)]\<rparr>)))"

definition opt_field :: "string \<Rightarrow> string option \<Rightarrow> (string \<times> jsval) list" where
  "opt_field k x = (case truthy_opt x of None \<Rightarrow> [] | Some v \<Rightarrow> [(k, JStr v)])"

fun status_name :: "session_status \<Rightarrow> string" where
  "status_name Ready = ''ready''"
| "status_name Running = ''running''"
| "status_name Steering = ''steering''"
| "status_name InjectingContext = ''injecting_context''"
| "status_name Interrupting = ''interrupting''"
| "status_name Completed = ''completed''"
| "status_name Failed = ''failed''"
| "status_name Interrupted = ''interrupted''"

definition session_public_state :: "rt_session \<Rightarrow> jsval" where
  "session_public_state s = JObj ([(''session_id'', JStr (rs_session_id s)), (''thread_id'', JStr (rs_thread_id s))]
     @ opt_field ''thread_key'' (rs_thread_key s)
     @ [(''cwd'', JStr (rs_cwd s)), (''sandbox'', JStr (rs_sandbox s)), (''approval_policy'', JStr (rs_approval_policy s))]
     @ opt_field ''stream_topic'' (rs_stream_topic s)
     @ [(''status'', JStr (status_name (rs_status s)))]
     @ opt_field ''active_turn_id'' (rs_active_turn_id s)
     @ [(''seq'', JNum (Fin (of_nat (rs_seq s)))), (''created_at'', JStr (rs_created_at s)), (''updated_at'', JStr (rs_updated_at s))])"

text \<open>\<open>buildCodexRealtimeEvent\<close>: \<open>opts\<close> are the optional fields.\<close>

definition build_realtime_event :: "rt_session \<Rightarrow> string \<Rightarrow> (string \<times> jsval) list \<Rightarrow> string \<Rightarrow> registry \<Rightarrow> (jsval \<times> registry) option" where
  "build_realtime_event s ev opts now r =
     (case next_seq (rs_session_id s) now r of
        None \<Rightarrow> None
      | Some (n, r') \<Rightarrow>
          Some (JObj ([(''schema'', JStr ''codex.session.event.v1''), (''session_id'', JStr (rs_session_id s)),
              (''thread_id'', JStr (rs_thread_id s)), (''seq'', JNum (Fin (of_nat n))), (''event'', JStr ev)]
              @ opts @ [(''ts'', JStr now)]), r'))"

datatype registry_event =
    CreateSession string create_args
  | SetActiveTurn string string session_status
  | ClearActiveTurn string session_status
  | UpdateStatus string session_status
  | BuildEvent rt_session string "(string \<times> jsval) list"

definition or_same :: "registry \<Rightarrow> registry option \<Rightarrow> registry" where
  "or_same r x = (case x of None \<Rightarrow> r | Some r' \<Rightarrow> r')"

fun registry_step :: "registry \<Rightarrow> registry_event \<times> string \<Rightarrow> registry" where
  "registry_step r (CreateSession fresh a, now) = snd (create_session fresh now a r)"
| "registry_step r (SetActiveTurn i t st, now) = or_same r (set_active_turn i t st now r)"
| "registry_step r (ClearActiveTurn i st, now) = or_same r (clear_active_turn i st now r)"
| "registry_step r (UpdateStatus i st, now) = or_same r (update_status i st now r)"
| "registry_step r (BuildEvent s ev opts, now) = or_same r (map_option snd (build_realtime_event s ev opts now r))"

subsection \<open>Invariant\<close>

definition registry_inv :: "registry \<Rightarrow> bool" where
  "registry_inv r \<longleftrightarrow>
     (\<forall>i s. map_of (rg_sessions r) i = Some s \<longrightarrow> rs_session_id s = i \<and> valid_session_id i
        \<and> map snd (filter (\<lambda>e. fst e = i) (rg_events r)) = [1..<Suc (rs_seq s)])
     \<and> (\<forall>t i. map_of (rg_by_thread r) t = Some i \<longrightarrow> (\<exists>s. map_of (rg_sessions r) i = Some s \<and> rs_thread_id s = t))
     \<and> (\<forall>i. map_of (rg_sessions r) i = None \<longrightarrow> i \<notin> fst ` set (rg_events r))"

text \<open>What a later registry keeps of an earlier one: every session, its context and its numbering.\<close>

definition keeps_context :: "rt_session \<Rightarrow> rt_session \<Rightarrow> bool" where
  "keeps_context s s' \<longleftrightarrow> rs_session_id s' = rs_session_id s \<and> rs_thread_id s' = rs_thread_id s \<and> rs_cwd s' = rs_cwd s
     \<and> rs_sandbox s' = rs_sandbox s \<and> rs_approval_policy s' = rs_approval_policy s \<and> rs_created_at s' = rs_created_at s
     \<and> rs_seq s \<le> rs_seq s'"

definition registry_later :: "registry \<Rightarrow> registry \<Rightarrow> bool" where
  "registry_later r r' \<longleftrightarrow>
     (\<forall>i s. map_of (rg_sessions r) i = Some s \<longrightarrow> (\<exists>s'. map_of (rg_sessions r') i = Some s' \<and> keeps_context s s'))"

lemma keeps_context_refl [simp]: "keeps_context s s"
  by (simp add: keeps_context_def)

lemma keeps_context_trans: "keeps_context a b \<Longrightarrow> keeps_context b c \<Longrightarrow> keeps_context a c"
  by (simp add: keeps_context_def)

lemma registry_later_refl: "registry_later r r"
  by (simp add: registry_later_def)

lemma registry_later_trans: "registry_later a b \<Longrightarrow> registry_later b c \<Longrightarrow> registry_later a c"
  unfolding registry_later_def by (metis keeps_context_trans)

text \<open>An update of one session that keeps its context and number keeps the invariant.\<close>

lemma update_session:
  assumes inv: "registry_inv r" and s: "map_of (rg_sessions r) i = Some s"
    and s': "keeps_context s s'" "rs_seq s' = rs_seq s"
  shows "registry_inv (put_rt_session s' r) \<and> registry_later r (put_rt_session s' r)"
proof -
  have i: "rs_session_id s' = i" using inv s s' by (auto simp: registry_inv_def keeps_context_def)
  have "registry_later r (put_rt_session s' r)" using s s' i by (auto simp: registry_later_def put_rt_session_def)
  moreover have "rs_session_id u = j \<and> valid_session_id j
      \<and> map snd (filter (\<lambda>e. fst e = j) (rg_events r)) = [1..<Suc (rs_seq u)]"
    if "map_of (AList.update i s' (rg_sessions r)) j = Some u" for j u
    using that inv s s' i by (cases "j = i") (auto simp: registry_inv_def update_conv)
  moreover have "\<exists>u. map_of (AList.update i s' (rg_sessions r)) j = Some u \<and> rs_thread_id u = t"
    if t: "map_of (rg_by_thread r) t = Some j" for t j
  proof -
    obtain u where "map_of (rg_sessions r) j = Some u" "rs_thread_id u = t" using inv t unfolding registry_inv_def by blast
    then show ?thesis using s s' by (cases "j = i") (auto simp: update_conv keeps_context_def)
  qed
  moreover have "j \<notin> fst ` set (rg_events r)" if "map_of (AList.update i s' (rg_sessions r)) j = None" for j
    using that inv by (cases "j = i") (auto simp: registry_inv_def update_conv)
  ultimately show ?thesis by (simp add: registry_inv_def put_rt_session_def i)
qed

lemma inv_by_turn [simp]: "registry_inv (r\<lparr>rg_by_turn := x\<rparr>) = registry_inv r"
  by (simp add: registry_inv_def)

lemma later_by_turn [simp]: "registry_later a (b\<lparr>rg_by_turn := x\<rparr>) = registry_later a b"
  by (simp add: registry_later_def)

lemma drop_turn_eq: "\<exists>x. drop_turn s r = r\<lparr>rg_by_turn := x\<rparr>"
  by (cases "truthy_opt (rs_active_turn_id s)") (auto simp: drop_turn_def intro: exI [of _ "rg_by_turn r"])

lemma put_rt_by_turn: "put_rt_session s (r\<lparr>rg_by_turn := x\<rparr>) = (put_rt_session s r)\<lparr>rg_by_turn := x\<rparr>"
  by (simp add: put_rt_session_def)

lemma set_active_ok:
  assumes "registry_inv r" "set_active_turn i t st now r = Some r'"
  shows "registry_inv r' \<and> registry_later r r'"
proof -
  obtain s where s: "map_of (rg_sessions r) i = Some s"
    using assms(2) by (auto simp: set_active_turn_def get_session_def split: option.splits)
  obtain x where "drop_turn s r = r\<lparr>rg_by_turn := x\<rparr>" using drop_turn_eq by blast
  then have "\<exists>x. r' = (put_rt_session (s\<lparr>rs_active_turn_id := Some t, rs_status := st, rs_updated_at := now\<rparr>) r)\<lparr>rg_by_turn := x\<rparr>"
    using assms(2) s by (auto simp: set_active_turn_def get_session_def Let_def put_rt_by_turn)
  then show ?thesis
    using update_session [OF assms(1) s, of "s\<lparr>rs_active_turn_id := Some t, rs_status := st, rs_updated_at := now\<rparr>"]
    by (auto simp: keeps_context_def)
qed

lemma clear_active_ok:
  assumes "registry_inv r" "clear_active_turn i st now r = Some r'"
  shows "registry_inv r' \<and> registry_later r r'"
proof -
  obtain s where s: "map_of (rg_sessions r) i = Some s"
    using assms(2) by (auto simp: clear_active_turn_def get_session_def split: option.splits)
  obtain x where "drop_turn s r = r\<lparr>rg_by_turn := x\<rparr>" using drop_turn_eq by blast
  then have "r' = (put_rt_session (s\<lparr>rs_active_turn_id := None, rs_status := st, rs_updated_at := now\<rparr>) r)\<lparr>rg_by_turn := x\<rparr>"
    using assms(2) s by (auto simp: clear_active_turn_def get_session_def put_rt_by_turn)
  then show ?thesis
    using update_session [OF assms(1) s, of "s\<lparr>rs_active_turn_id := None, rs_status := st, rs_updated_at := now\<rparr>"]
    by (auto simp: keeps_context_def)
qed

lemma update_status_ok:
  assumes "registry_inv r" "update_status i st now r = Some r'"
  shows "registry_inv r' \<and> registry_later r r'"
proof -
  obtain s where s: "map_of (rg_sessions r) i = Some s" "r' = put_rt_session (s\<lparr>rs_status := st, rs_updated_at := now\<rparr>) r"
    using assms(2) by (auto simp: update_status_def get_session_def split: option.splits)
  then show ?thesis
    using update_session [OF assms(1) s(1), of "s\<lparr>rs_status := st, rs_updated_at := now\<rparr>"] by (auto simp: keeps_context_def)
qed

lemma next_seq_ok:
  assumes inv: "registry_inv r" and n: "next_seq i now r = Some (n, r')"
  shows "registry_inv r' \<and> registry_later r r'"
proof -
  obtain s where s: "map_of (rg_sessions r) i = Some s" and id: "rs_session_id s = i" and n': "n = Suc (rs_seq s)"
    and r': "rg_sessions r' = AList.update i (s\<lparr>rs_seq := n, rs_updated_at := now\<rparr>) (rg_sessions r)"
      "rg_by_thread r' = rg_by_thread r" "rg_events r' = rg_events r @ [(i, n)]"
    using n inv by (auto simp: next_seq_def get_session_def put_rt_session_def Let_def registry_inv_def split: option.splits)
  have "registry_later r r'" using s r' n' by (auto simp: registry_later_def keeps_context_def update_conv)
  moreover have "rs_session_id u = j \<and> valid_session_id j
      \<and> map snd (filter (\<lambda>e. fst e = j) (rg_events r')) = [1..<Suc (rs_seq u)]"
    if "map_of (rg_sessions r') j = Some u" for j u
    using that inv s r' id n' by (cases "j = i") (auto simp: registry_inv_def update_conv)
  moreover have "\<exists>u. map_of (rg_sessions r') j = Some u \<and> rs_thread_id u = t"
    if t: "map_of (rg_by_thread r') t = Some j" for t j
  proof -
    have "map_of (rg_by_thread r) t = Some j" using t r' by simp
    then obtain u where "map_of (rg_sessions r) j = Some u" "rs_thread_id u = t" using inv unfolding registry_inv_def by blast
    then show ?thesis using s r' by (cases "j = i") (auto simp: update_conv)
  qed
  moreover have "j \<notin> fst ` set (rg_events r')" if "map_of (rg_sessions r') j = None" for j
    using that inv r' by (cases "j = i") (auto simp: registry_inv_def update_conv)
  ultimately show ?thesis by (simp add: registry_inv_def)
qed

lemma create_new_ok:
  assumes inv: "registry_inv r" and new: "map_of (rg_sessions r) i = None" and i: "valid_session_id i"
    and s: "rs_session_id s = i" "rs_thread_id s = t" "rs_seq s = 0"
  shows "registry_inv ((put_rt_session s r)\<lparr>rg_by_thread := AList.update t i (rg_by_thread r)\<rparr>)
    \<and> registry_later r ((put_rt_session s r)\<lparr>rg_by_thread := AList.update t i (rg_by_thread r)\<rparr>)"
proof -
  let ?r = "(put_rt_session s r)\<lparr>rg_by_thread := AList.update t i (rg_by_thread r)\<rparr>"
  have r': "rg_sessions ?r = AList.update i s (rg_sessions r)" "rg_by_thread ?r = AList.update t i (rg_by_thread r)"
    "rg_events ?r = rg_events r" using s by (auto simp: put_rt_session_def)
  have none: "filter (\<lambda>e. fst e = i) (rg_events r) = []"
  proof -
    have "i \<notin> fst ` set (rg_events r)" using inv new unfolding registry_inv_def by blast
    then show ?thesis by (force simp: filter_empty_conv)
  qed
  have "registry_later r ?r" using new r' by (auto simp: registry_later_def update_conv)
  moreover have "rs_session_id u = j \<and> valid_session_id j
      \<and> map snd (filter (\<lambda>e. fst e = j) (rg_events ?r)) = [1..<Suc (rs_seq u)]"
    if "map_of (rg_sessions ?r) j = Some u" for j u
    using that inv s r' i none by (cases "j = i") (auto simp: registry_inv_def update_conv)
  moreover have "\<exists>u. map_of (rg_sessions ?r) j = Some u \<and> rs_thread_id u = t'"
    if t: "map_of (rg_by_thread ?r) t' = Some j" for t' j
  proof (cases "t' = t")
    case True
    then show ?thesis using t r' s by (simp add: update_conv)
  next
    case False
    then have "map_of (rg_by_thread r) t' = Some j" using t r' by (simp add: update_conv)
    then obtain u where "map_of (rg_sessions r) j = Some u" "rs_thread_id u = t'" using inv unfolding registry_inv_def by blast
    then show ?thesis using new r' by (cases "j = i") (auto simp: update_conv)
  qed
  moreover have "j \<notin> fst ` set (rg_events ?r)" if "map_of (rg_sessions ?r) j = None" for j
    using that inv r' by (cases "j = i") (auto simp: registry_inv_def update_conv)
  ultimately show ?thesis by (simp add: registry_inv_def)
qed

lemma normalized_valid: "normalize_session_id v = Some i \<Longrightarrow> valid_session_id i"
  by (auto simp: normalize_session_id_def Let_def split: if_splits)

lemma create_ok:
  assumes inv: "registry_inv r"
  shows "registry_inv (snd (create_session fresh now a r)) \<and> registry_later r (snd (create_session fresh now a r))"
proof (cases "normalize_session_id (case or_else (ca_session_id a) (ca_thread_key a) of Some i \<Rightarrow> i | None \<Rightarrow> ''session-'' @ fresh)")
  case None
  then show ?thesis using inv by (simp add: create_session_def registry_later_refl)
next
  case (Some i)
  show ?thesis
  proof (cases "map_of (rg_sessions r) i")
    case None
    then show ?thesis using create_new_ok [OF inv None normalized_valid [OF Some]] Some by (simp add: create_session_def Let_def)
  next
    case (Some s)
    then show ?thesis
      using \<open>normalize_session_id _ = _\<close> inv
        update_session [OF inv Some, of "s\<lparr>rs_thread_key := or_else (ca_thread_key a) (rs_thread_key s), rs_owner := or_else (ca_owner a) (rs_owner s),
           rs_stream_topic := or_else (ca_stream_topic a) (rs_stream_topic s), rs_updated_at := now\<rparr>"]
      by (simp add: create_session_def Let_def keeps_context_def registry_later_refl)
  qed
qed

lemma registry_step_ok:
  assumes "registry_inv r"
  shows "registry_inv (registry_step r e) \<and> registry_later r (registry_step r e)"
proof (cases e rule: prod.exhaust)
  case (Pair ev now)
  note oks = set_active_ok [OF assms] clear_active_ok [OF assms] update_status_ok [OF assms] next_seq_ok [OF assms]
  show ?thesis
  proof (cases ev)
    case (BuildEvent s n opts)
    then show ?thesis
      using oks(4) [of "rs_session_id s" now] assms Pair
      by (auto simp: or_same_def build_realtime_event_def registry_later_refl split: option.splits)
  qed (use create_ok [OF assms] oks assms Pair in \<open>auto simp: or_same_def registry_later_refl split: option.split\<close>)
qed

interpretation rgi: step_invariant registry_step registry_inv
  by unfold_locales (simp add: registry_step_ok)

lemma registry_new_inv: "registry_inv registry_new"
  by (simp add: registry_inv_def registry_new_def)

lemma run_later: "registry_inv r \<Longrightarrow> registry_later r (run registry_step r es)"
  by (induction es arbitrary: r) (auto simp: registry_later_refl intro: registry_later_trans dest: registry_step_ok)

text \<open>A realtime session keeps what it was created under: once the registry holds a session, whatever creations, turns, status
  changes and events follow, the session is still there with the same id, thread, working directory, sandbox and approval policy
  (a creation with other ones answers \<open>session_context_mismatch\<close>), and the events built for it are numbered 1, 2, 3, ...
  without a gap or a repetition.\<close>

theorem session_context_fixed:
  assumes "get_session i (run registry_step registry_new es) = Some s"
  shows "\<exists>s'. get_session i (run registry_step registry_new (es @ fs)) = Some s' \<and> rs_session_id s' = i
    \<and> rs_thread_id s' = rs_thread_id s \<and> rs_cwd s' = rs_cwd s \<and> rs_sandbox s' = rs_sandbox s
    \<and> rs_approval_policy s' = rs_approval_policy s
    \<and> map snd (filter (\<lambda>e. fst e = i) (rg_events (run registry_step registry_new (es @ fs)))) = [1..<Suc (rs_seq s')]"
proof -
  let ?r = "run registry_step registry_new es" let ?r' = "run registry_step registry_new (es @ fs)"
  have inv: "registry_inv ?r" "registry_inv ?r'" by (simp_all add: rgi.run_inv registry_new_inv del: run_append)
  have "registry_later ?r ?r'" using run_later [OF inv(1)] by (simp add: run_append)
  then obtain s' where s': "map_of (rg_sessions ?r') i = Some s'" "keeps_context s s'"
    using assms unfolding registry_later_def get_session_def by blast
  have "rs_session_id s' = i" "map snd (filter (\<lambda>e. fst e = i) (rg_events ?r')) = [1..<Suc (rs_seq s')]"
    using inv(2) s'(1) unfolding registry_inv_def by blast+
  then show ?thesis using s' by (simp add: get_session_def keeps_context_def)
qed

definition toy_create :: create_args where
  "toy_create = \<lparr>ca_session_id = Some ''s1'', ca_thread_id = ''t1'', ca_thread_key = None, ca_owner = None, ca_cwd = ''/w'',
     ca_sandbox = ''read-only'', ca_approval_policy = ''never'', ca_stream_topic = None\<rparr>"

lemma toy_create_session: "fst (create_session [] ''now'' toy_create registry_new) = Inr
   \<lparr>rs_session_id = ''s1'', rs_thread_id = ''t1'', rs_thread_key = None, rs_owner = None, rs_cwd = ''/w'', rs_sandbox = ''read-only'',
      rs_approval_policy = ''never'', rs_stream_topic = None, rs_status = Ready, rs_active_turn_id = None, rs_seq = 0,
      rs_created_at = ''now'', rs_updated_at = ''now''\<rparr>"
  by code_simp

theorem session_context_fixed_witness:
  "\<exists>s'. get_session ''s1'' (run registry_step registry_new ([(CreateSession [] toy_create, ''now'')]
      @ [(CreateSession [] (toy_create\<lparr>ca_cwd := ''/x''\<rparr>), ''later''), (SetActiveTurn ''s1'' ''u'' Running, ''then'')])) = Some s'
    \<and> rs_cwd s' = ''/w''"
proof -
  have "map_option rs_cwd (get_session ''s1'' (run registry_step registry_new [(CreateSession [] toy_create, ''now'')])) = Some ''/w''"
    by code_simp
  then obtain s where "get_session ''s1'' (run registry_step registry_new [(CreateSession [] toy_create, ''now'')]) = Some s"
    "rs_cwd s = ''/w''" by auto
  then show ?thesis using session_context_fixed by fastforce
qed

text \<open>A lookup by thread id finds a session of that thread.\<close>

lemma get_by_thread_id_sound:
  assumes "get_by_thread_id t (run registry_step registry_new es) = Some s"
  shows "rs_thread_id s = t"
proof -
  obtain i where i: "map_of (rg_by_thread (run registry_step registry_new es)) t = Some i"
      "map_of (rg_sessions (run registry_step registry_new es)) i = Some s"
    using assms by (auto simp: get_by_thread_id_def get_session_def split: option.splits if_splits)
  have "registry_inv (run registry_step registry_new es)" by (simp add: rgi.run_inv registry_new_inv)
  then have "\<exists>u. map_of (rg_sessions (run registry_step registry_new es)) i = Some u \<and> rs_thread_id u = t"
    using i(1) unfolding registry_inv_def by blast
  then show ?thesis using i(2) by simp
qed

end
