(* ===== verification/Codex_Threads.thy ===== *)
theory Codex_Threads
  imports Prelude
begin

text \<open>
  The sandbox names and the thread cache of the Codex gateway, src/codex_gateway.ts. The cache is a map in insertion order, the
  oldest entry first; an operation reads the clock (ms) once. The limits are numbers of the language, since the environment
  may set them to any.
\<close>

subsection \<open>Sandbox modes\<close>

datatype sandbox_mode = ReadOnly | WorkspaceWrite | DangerFullAccess

fun mode_name :: "sandbox_mode \<Rightarrow> string" where
  "mode_name ReadOnly = ''read-only''"
| "mode_name WorkspaceWrite = ''workspace-write''"
| "mode_name DangerFullAccess = ''danger-full-access''"

definition normalize_codex_sandbox_mode :: "jsval \<Rightarrow> sandbox_mode option" where
  "normalize_codex_sandbox_mode value =
     (case value of
        JStr s \<Rightarrow>
          (let v = js_lower (js_trim s) in
           if v = [] then None
           else if v = ''read-only'' \<or> v = ''readonly'' then Some ReadOnly
           else if v = ''workspace-write'' \<or> v = ''workspace'' \<or> v = ''write'' then Some WorkspaceWrite
           else if v \<in> set [''danger-full-access'', ''full-access'', ''danger'', ''dangerous'', ''yolo'', ''no-sandbox'', ''none'']
             then Some DangerFullAccess
           else None)
      | _ \<Rightarrow> None)"

definition default_to :: "'a option \<Rightarrow> 'a \<Rightarrow> 'a" where
  "default_to x d = (case x of Some v \<Rightarrow> v | None \<Rightarrow> d)"

definition resolve_codex_execution_sandbox :: "string \<Rightarrow> jsval \<Rightarrow> jsval \<Rightarrow> sandbox_mode" where
  "resolve_codex_execution_sandbox requestSandbox defaultSandbox workspaceWriteSandbox =
     (let requested = default_to (normalize_codex_sandbox_mode (JStr requestSandbox)) ReadOnly;
          dflt = normalize_codex_sandbox_mode defaultSandbox;
          ww = normalize_codex_sandbox_mode workspaceWriteSandbox in
      if requested = WorkspaceWrite then default_to ww (default_to dflt WorkspaceWrite)
      else default_to dflt ReadOnly)"

subsection \<open>The cache\<close>

record thread_ctx =
  tx_sandbox :: string
  tx_cwd :: string

record cached_thread =
  ct_ctx :: thread_ctx
  ct_threadId :: string
  ct_lastUsedMs :: rat

record thread_cache =
  tc_entries :: "(string \<times> cached_thread) list"
  tc_maxEntries :: jsnum
  tc_ttlMs :: jsnum

text \<open>\<open>Math.max(lo, Number(env ?? d) || d)\<close>, given \<open>Number(env ?? d)\<close>.\<close>

definition env_limit :: "rat \<Rightarrow> rat \<Rightarrow> jsnum \<Rightarrow> jsnum" where
  "env_limit lo d n = (case n of Fin q \<Rightarrow> Fin (max lo (if q = 0 then d else q)) | NaN \<Rightarrow> Fin (max lo d) | PosInf \<Rightarrow> PosInf | NegInf \<Rightarrow> Fin lo)"

text \<open>The constructor: \<open>dm\<close> and \<open>dt\<close> are the defaults from the environment.\<close>

definition positive_finite :: "jsnum \<Rightarrow> bool" where
  "positive_finite n \<longleftrightarrow> (case n of Fin q \<Rightarrow> 0 < q | _ \<Rightarrow> False)"

definition cache_new :: "jsnum \<Rightarrow> jsnum \<Rightarrow> jsnum option \<Rightarrow> jsnum option \<Rightarrow> thread_cache" where
  "cache_new dm dt maxEntries ttlMs =
     (let m = default_to maxEntries dm; t = default_to ttlMs dt in
      \<lparr>tc_entries = [], tc_maxEntries = (if positive_finite m then num_floor m else dm), tc_ttlMs = (if positive_finite t then t else dt)\<rparr>)"

fun drop_oldest :: "jsnum \<Rightarrow> (string \<times> cached_thread) list \<Rightarrow> (string \<times> cached_thread) list" where
  "drop_oldest m [] = []"
| "drop_oldest m (e # es) = (if num_less m (Fin (of_nat (length (e # es)))) then drop_oldest m es else e # es)"

definition cache_cleanup :: "rat \<Rightarrow> thread_cache \<Rightarrow> thread_cache" where
  "cache_cleanup now c = c\<lparr>tc_entries := drop_oldest (tc_maxEntries c)
     (filter (\<lambda>(k, e). \<not> num_less (tc_ttlMs c) (Fin (now - ct_lastUsedMs e))) (tc_entries c))\<rparr>"

definition cache_get :: "string option \<Rightarrow> thread_ctx \<Rightarrow> rat \<Rightarrow> thread_cache \<Rightarrow> string option \<times> thread_cache" where
  "cache_get threadKey ctx now c0 =
     (case threadKey of
        Some (ch # rest) \<Rightarrow>
          (let k = ch # rest; c = cache_cleanup now c0 in
           case map_of (tc_entries c) k of
             None \<Rightarrow> (None, c)
           | Some e \<Rightarrow>
               if ct_ctx e \<noteq> ctx then (None, c\<lparr>tc_entries := AList.delete k (tc_entries c)\<rparr>)
               else (Some (ct_threadId e), c\<lparr>tc_entries := AList.delete k (tc_entries c) @ [(k, e\<lparr>ct_lastUsedMs := now\<rparr>)]\<rparr>))
      | _ \<Rightarrow> (None, c0))"

definition cache_set :: "string option \<Rightarrow> string \<Rightarrow> thread_ctx \<Rightarrow> rat \<Rightarrow> thread_cache \<Rightarrow> thread_cache" where
  "cache_set threadKey threadId ctx now c0 =
     (case threadKey of
        Some (ch # rest) \<Rightarrow>
          (let k = ch # rest; c = cache_cleanup now c0 in
           cache_cleanup now (c\<lparr>tc_entries := AList.delete k (tc_entries c)
             @ [(k, \<lparr>ct_ctx = ctx, ct_threadId = threadId, ct_lastUsedMs = now\<rparr>)]\<rparr>))
      | _ \<Rightarrow> c0)"

definition cache_delete :: "string option \<Rightarrow> thread_cache \<Rightarrow> bool \<times> thread_cache" where
  "cache_delete threadKey c =
     (case threadKey of
        Some (ch # rest) \<Rightarrow>
          (map_of (tc_entries c) (ch # rest) \<noteq> None, c\<lparr>tc_entries := AList.delete (ch # rest) (tc_entries c)\<rparr>)
      | _ \<Rightarrow> (False, c))"

definition cache_size :: "rat \<Rightarrow> thread_cache \<Rightarrow> nat \<times> thread_cache" where
  "cache_size now c0 = (let c = cache_cleanup now c0 in (length (tc_entries c), c))"

datatype cache_op =
    CacheGet "string option" thread_ctx
  | CacheSet "string option" string thread_ctx
  | CacheDelete "string option"
  | CacheSize

fun cache_step :: "thread_cache \<Rightarrow> cache_op \<times> rat \<Rightarrow> thread_cache" where
  "cache_step c (CacheGet k ctx, now) = snd (cache_get k ctx now c)"
| "cache_step c (CacheSet k i ctx, now) = cache_set k i ctx now c"
| "cache_step c (CacheDelete k, now) = snd (cache_delete k c)"
| "cache_step c (CacheSize, now) = snd (cache_size now c)"

subsection \<open>The cache against an ideal one\<close>

text \<open>The ideal cache never evicts: a key holds what was last set for it until it is deleted, asked for under another context, or too old.\<close>

type_synonym ideal = "string \<Rightarrow> cached_thread option"

definition still_good :: "jsnum \<Rightarrow> rat \<Rightarrow> thread_ctx \<Rightarrow> cached_thread \<Rightarrow> bool" where
  "still_good ttl now ctx e \<longleftrightarrow> ct_ctx e = ctx \<and> \<not> num_less ttl (Fin (now - ct_lastUsedMs e))"

fun ideal_step :: "jsnum \<Rightarrow> ideal \<Rightarrow> cache_op \<times> rat \<Rightarrow> ideal" where
  "ideal_step ttl m (CacheSet (Some (ch # k)) i ctx, now) = m(ch # k \<mapsto> \<lparr>ct_ctx = ctx, ct_threadId = i, ct_lastUsedMs = now\<rparr>)"
| "ideal_step ttl m (CacheGet (Some (ch # k)) ctx, now) =
     (case m (ch # k) of
        Some e \<Rightarrow> if still_good ttl now ctx e then m(ch # k \<mapsto> e\<lparr>ct_lastUsedMs := now\<rparr>) else m(ch # k := None)
      | None \<Rightarrow> m)"
| "ideal_step ttl m (CacheDelete (Some (ch # k)), now) = m(ch # k := None)"
| "ideal_step ttl m _ = m"

definition cache_refines :: "jsnum \<Rightarrow> jsnum \<Rightarrow> thread_cache \<times> ideal \<Rightarrow> bool" where
  "cache_refines mx ttl p \<longleftrightarrow> (let (c, m) = p in
     tc_maxEntries c = mx \<and> tc_ttlMs c = ttl \<and> distinct (map fst (tc_entries c)) \<and> map_of (tc_entries c) \<subseteq>\<^sub>m m
     \<and> \<not> num_less mx (Fin (of_nat (length (tc_entries c)))))"

lemma drop_oldest_drop: "\<exists>n. drop_oldest m es = drop n es"
proof (induction es)
  case (Cons e es)
  then obtain n where "drop_oldest m es = drop n es" by blast
  then show ?case by (auto intro: exI [of _ "Suc n"] exI [of _ 0])
qed simp

lemma drop_oldest_bound: "\<not> num_less m (Fin 0) \<Longrightarrow> \<not> num_less m (Fin (of_nat (length (drop_oldest m es))))"
  by (induction es) auto

lemma distinct_map_of_sub: "distinct (map fst es) \<Longrightarrow> set fs \<subseteq> set es \<Longrightarrow> distinct (map fst fs) \<Longrightarrow> map_of fs \<subseteq>\<^sub>m map_of es"
  by (auto simp: map_le_def)

lemma cleanup_refines:
  assumes "tc_maxEntries c = mx" "tc_ttlMs c = ttl" "distinct (map fst (tc_entries c))" "map_of (tc_entries c) \<subseteq>\<^sub>m m" "\<not> num_less mx (Fin 0)"
  shows "cache_refines mx ttl (cache_cleanup now c, m)"
proof -
  let ?f = "filter (\<lambda>(k, e). \<not> num_less (tc_ttlMs c) (Fin (now - ct_lastUsedMs e))) (tc_entries c)"
  obtain n where n: "drop_oldest (tc_maxEntries c) ?f = drop n ?f" using drop_oldest_drop by blast
  have "set (drop n ?f) \<subseteq> set (tc_entries c)" by (auto dest: in_set_dropD)
  moreover have "distinct (map fst (drop n ?f))" using assms(3) by (metis distinct_drop distinct_map_filter drop_map)
  ultimately have "map_of (drop n ?f) \<subseteq>\<^sub>m m" "distinct (map fst (drop n ?f))"
    using assms(3,4) distinct_map_of_sub map_le_trans by blast+
  then show ?thesis using assms n drop_oldest_bound [OF assms(5), of ?f] by (auto simp: cache_refines_def cache_cleanup_def)
qed

lemma cleanup_fresh:
  assumes "(k, e) \<in> set (tc_entries (cache_cleanup now c))"
  shows "\<not> num_less (tc_ttlMs c) (Fin (now - ct_lastUsedMs e))"
proof -
  let ?f = "filter (\<lambda>(k, e). \<not> num_less (tc_ttlMs c) (Fin (now - ct_lastUsedMs e))) (tc_entries c)"
  obtain n where "drop_oldest (tc_maxEntries c) ?f = drop n ?f" using drop_oldest_drop by blast
  then have "(k, e) \<in> set ?f" using assms by (auto simp: cache_cleanup_def dest: in_set_dropD)
  then show ?thesis by simp
qed

lemma num_less_mono: "num_less m (Fin a) \<Longrightarrow> a \<le> b \<Longrightarrow> num_less m (Fin b)"
  by (cases m) auto

lemma refines_shrink:
  assumes "cache_refines mx ttl (c, m)" "distinct (map fst es)" "length es \<le> length (tc_entries c)" "map_of es \<subseteq>\<^sub>m m'"
  shows "cache_refines mx ttl (c\<lparr>tc_entries := es\<rparr>, m')"
  using assms num_less_mono [of mx "of_nat (length es)" "of_nat (length (tc_entries c))"] by (auto simp: cache_refines_def)

lemma delete_append_entries:
  "distinct (map fst es) \<Longrightarrow> distinct (map fst (AList.delete k es @ [(k, v)]))
   \<and> map_of (AList.delete k es @ [(k, v)]) = (map_of es)(k \<mapsto> v)"
  by (auto simp: distinct_delete delete_keys distinct_removeAll map_of_append fun_eq_iff map_add_def split: option.splits)

lemma delete_map_le: "map_of es \<subseteq>\<^sub>m m \<Longrightarrow> map_of (AList.delete k es) \<subseteq>\<^sub>m m(k := None)"
  by (auto simp: map_le_def)

lemma get_refines:
  assumes r: "cache_refines mx ttl (c0, m)" and mx: "\<not> num_less mx (Fin 0)"
  shows "cache_refines mx ttl (snd (cache_get k ctx now c0), ideal_step ttl m (CacheGet k ctx, now))
    \<and> (case fst (cache_get k ctx now c0) of
          Some i \<Rightarrow> \<exists>ch rest e. k = Some (ch # rest) \<and> m (ch # rest) = Some e \<and> still_good ttl now ctx e \<and> ct_threadId e = i
        | None \<Rightarrow> True)"
proof (cases k)
  case (Some key)
  show ?thesis
  proof (cases key)
    case (Cons ch rest)
    let ?k = "ch # rest" let ?c = "cache_cleanup now c0"
    have c: "cache_refines mx ttl (?c, m)" using r mx by (intro cleanup_refines) (auto simp: cache_refines_def)
    then have d: "distinct (map fst (tc_entries ?c))" and le: "map_of (tc_entries ?c) \<subseteq>\<^sub>m m" by (auto simp: cache_refines_def)
    show ?thesis
    proof (cases "map_of (tc_entries ?c) ?k")
      case None
      have "map_of (tc_entries ?c) \<subseteq>\<^sub>m ideal_step ttl m (CacheGet k ctx, now)"
        using le None Some Cons by (auto simp: map_le_def split: option.split)
      then show ?thesis using c None Some Cons by (simp add: cache_get_def Let_def cache_refines_def)
    next
      case e: (Some e)
      then have me: "m ?k = Some e" using le by (auto simp: map_le_def dom_def)
      have "\<not> num_less ttl (Fin (now - ct_lastUsedMs e))"
        using cleanup_fresh [OF map_of_SomeD [OF e]] r by (simp add: cache_refines_def)
      then have good: "still_good ttl now ctx e \<longleftrightarrow> ct_ctx e = ctx" by (simp add: still_good_def)
      have len: "length (AList.delete ?k (tc_entries ?c)) < length (tc_entries ?c)"
        using map_of_SomeD [OF e] by (intro length_delete_less) force
      show ?thesis
      proof (cases "ct_ctx e = ctx")
        case True
        have "cache_refines mx ttl (?c\<lparr>tc_entries := AList.delete ?k (tc_entries ?c) @ [(?k, e\<lparr>ct_lastUsedMs := now\<rparr>)]\<rparr>, m(?k \<mapsto> e\<lparr>ct_lastUsedMs := now\<rparr>))"
          using delete_append_entries [OF d, of ?k "e\<lparr>ct_lastUsedMs := now\<rparr>"] le len
          by (intro refines_shrink [OF c]) (auto simp: map_le_def)
        then show ?thesis using True good me e Some Cons by (simp add: cache_get_def Let_def)
      next
        case False
        have "cache_refines mx ttl (?c\<lparr>tc_entries := AList.delete ?k (tc_entries ?c)\<rparr>, m(?k := None))"
          using d le len by (intro refines_shrink [OF c]) (auto simp: delete_keys distinct_removeAll map_le_def)
        then show ?thesis using False good me e Some Cons by (simp add: cache_get_def Let_def)
      qed
    qed
  qed (use r Some in \<open>simp add: cache_get_def\<close>)
qed (use r in \<open>simp add: cache_get_def\<close>)

lemma set_refines:
  assumes r: "cache_refines mx ttl (c0, m)" and mx: "\<not> num_less mx (Fin 0)"
  shows "cache_refines mx ttl (cache_set k i ctx now c0, ideal_step ttl m (CacheSet k i ctx, now))"
proof (cases k)
  case (Some key)
  show ?thesis
  proof (cases key)
    case (Cons ch rest)
    let ?c = "cache_cleanup now c0" let ?e = "\<lparr>ct_ctx = ctx, ct_threadId = i, ct_lastUsedMs = now\<rparr>"
    have "cache_refines mx ttl (?c, m)" using r mx by (intro cleanup_refines) (auto simp: cache_refines_def)
    then have d: "distinct (map fst (tc_entries ?c))" and le: "map_of (tc_entries ?c) \<subseteq>\<^sub>m m"
      and f: "tc_maxEntries ?c = mx" "tc_ttlMs ?c = ttl" by (auto simp: cache_refines_def)
    have "cache_refines mx ttl (cache_cleanup now (?c\<lparr>tc_entries := AList.delete (ch # rest) (tc_entries ?c) @ [(ch # rest, ?e)]\<rparr>), m(ch # rest \<mapsto> ?e))"
      using delete_append_entries [OF d, of "ch # rest" ?e] le f mx by (intro cleanup_refines) (auto simp: map_le_def)
    then show ?thesis using Some Cons by (simp add: cache_set_def Let_def)
  qed (use r Some in \<open>simp add: cache_set_def\<close>)
qed (use r in \<open>simp add: cache_set_def\<close>)

lemma delete_refines:
  assumes r: "cache_refines mx ttl (c, m)"
  shows "cache_refines mx ttl (snd (cache_delete k c), ideal_step ttl m (CacheDelete k, now))"
proof (cases k)
  case (Some key)
  show ?thesis
  proof (cases key)
    case (Cons ch rest)
    have "cache_refines mx ttl (c\<lparr>tc_entries := AList.delete (ch # rest) (tc_entries c)\<rparr>, m(ch # rest := None))"
      using r by (intro refines_shrink [OF r]) (auto simp: cache_refines_def delete_keys distinct_removeAll map_le_def length_delete_le)
    then show ?thesis using Some Cons by (simp add: cache_delete_def)
  qed (use r Some in \<open>simp add: cache_delete_def\<close>)
qed (use r in \<open>simp add: cache_delete_def\<close>)

lemma step_refines:
  assumes "cache_refines mx ttl (c, m)" "\<not> num_less mx (Fin 0)"
  shows "cache_refines mx ttl (cache_step c e, ideal_step ttl m e)"
proof (cases "(c, e)" rule: cache_step.cases)
  case (1 c k ctx now)
  then show ?thesis using get_refines [OF assms] by simp
next
  case (2 c k i ctx now)
  then show ?thesis using set_refines [OF assms] by simp
next
  case (3 c k now)
  then show ?thesis using delete_refines [OF assms(1)] by simp
next
  case (4 d now)
  have "cache_refines mx ttl (cache_cleanup now c, m)" using assms by (intro cleanup_refines) (auto simp: cache_refines_def)
  then show ?thesis using 4 by (simp add: cache_size_def Let_def)
qed

lemma run_refines:
  "cache_refines mx ttl (c, m) \<Longrightarrow> \<not> num_less mx (Fin 0) \<Longrightarrow> cache_refines mx ttl (run cache_step c es, run (ideal_step ttl) m es)"
  by (induction es arbitrary: c m) (auto simp: step_refines)

definition touches :: "string \<Rightarrow> thread_ctx \<Rightarrow> cache_op \<Rightarrow> bool" where
  "touches k ctx op = (case op of CacheSet k' _ _ \<Rightarrow> k' = Some k | CacheDelete k' \<Rightarrow> k' = Some k
     | CacheGet k' ctx' \<Rightarrow> k' = Some k \<and> ctx' \<noteq> ctx | CacheSize \<Rightarrow> False)"

lemma ideal_no_empty_key: "m [] = None \<Longrightarrow> run (ideal_step ttl) m ops [] = None"
proof (induction ops arbitrary: m)
  case (Cons op ops)
  have "ideal_step ttl m op [] = None"
    using Cons.prems by (cases "(ttl, m, op)" rule: ideal_step.cases) (auto split: option.split)
  then show ?case by (simp add: Cons.IH)
qed simp

lemma ideal_last_set:
  "run (ideal_step ttl) Map.empty ops k = Some e \<Longrightarrow>
   \<exists>pre t post. ops = pre @ (CacheSet (Some k) (ct_threadId e) (ct_ctx e), t) # post
     \<and> list_all (\<lambda>op. \<not> touches k (ct_ctx e) (fst op)) post"
proof (induction ops arbitrary: e rule: rev_induct)
  case Nil
  then show ?case by simp
next
  case (snoc op ops)
  let ?m = "run (ideal_step ttl) Map.empty ops"
  have now: "ideal_step ttl ?m op k = Some e" using snoc.prems by (simp add: run_append)
  have keep: ?case if k: "?m k = Some e'" "ct_threadId e' = ct_threadId e" "ct_ctx e' = ct_ctx e" "\<not> touches k (ct_ctx e) (fst op)" for e'
  proof -
    from snoc.IH [OF k(1)] obtain pre t post where "ops = pre @ (CacheSet (Some k) (ct_threadId e) (ct_ctx e), t) # post"
      "list_all (\<lambda>op. \<not> touches k (ct_ctx e) (fst op)) post" using k(2,3) by auto
    then show ?thesis using k(4) by (intro exI [of _ pre] exI [of _ t] exI [of _ "post @ [op]"]) auto
  qed
  have ne: "k \<noteq> []" using snoc.prems ideal_no_empty_key [of Map.empty] by auto
  show ?case
  proof (cases "(ttl, ?m, op)" rule: ideal_step.cases)
    case (1 tt m ch r i ctx t)
    show ?thesis
    proof (cases "k = ch # r")
      case True
      then show ?thesis using 1 now by (intro exI [of _ ops] exI [of _ t] exI [of _ "[]"]) auto
    qed (use 1 now keep in \<open>auto simp: touches_def\<close>)
  next
    case (2 tt m ch r ctx t)
    then show ?thesis using now keep
      by (cases "k = ch # r") (auto simp: touches_def still_good_def split: option.splits if_splits)
  next
    case (3 tt m ch r t)
    then show ?thesis using now keep by (auto simp: touches_def split: if_splits)
  qed (use now keep ne in \<open>auto simp: touches_def split: if_splits\<close>)
qed

definition cache_limit_ok :: "jsnum \<Rightarrow> bool" where
  "cache_limit_ok dm \<longleftrightarrow> \<not> num_less dm (Fin 0)"

lemma env_limit_ok: "0 \<le> lo \<Longrightarrow> cache_limit_ok (env_limit lo d n)"
  by (cases n) (auto simp: env_limit_def cache_limit_ok_def)

lemma new_refines: "cache_limit_ok dm \<Longrightarrow> cache_refines (tc_maxEntries (cache_new dm dt mx ttl)) (tc_ttlMs (cache_new dm dt mx ttl)) (cache_new dm dt mx ttl, Map.empty)
    \<and> \<not> num_less (tc_maxEntries (cache_new dm dt mx ttl)) (Fin 0)"
  by (auto simp: cache_refines_def cache_new_def Let_def cache_limit_ok_def positive_finite_def num_floor_def split: jsnum.splits)

text \<open>C36. A warm thread is reused fail-closed: whatever was set, asked for, deleted and evicted, a thread id that the cache answers for a
  key and a context (sandbox and working directory) is the one set last for that key, it was set under exactly that context, and
  since then nothing deleted the key or asked for it under another context; so a read-only job never inherits a thread
  of a workspace-write one. And the cache never holds more than its limit.\<close>

theorem thread_reuse_fail_closed:
  assumes "fst (cache_get k ctx now (run cache_step (cache_new (env_limit 1 256 n) dt mx ttl) ops)) = Some i"
  shows "\<exists>key pre t post. k = Some key \<and> ops = pre @ (CacheSet (Some key) i ctx, t) # post
      \<and> list_all (\<lambda>op. \<not> touches key ctx (fst op)) post
    \<and> \<not> num_less (tc_maxEntries (cache_new (env_limit 1 256 n) dt mx ttl))
        (Fin (of_nat (length (tc_entries (run cache_step (cache_new (env_limit 1 256 n) dt mx ttl) ops)))))"
proof -
  let ?c = "cache_new (env_limit 1 256 n) dt mx ttl"
  let ?m = "run (ideal_step (tc_ttlMs ?c)) Map.empty ops"
  have new: "cache_refines (tc_maxEntries ?c) (tc_ttlMs ?c) (?c, Map.empty)" "\<not> num_less (tc_maxEntries ?c) (Fin 0)"
    using new_refines [OF env_limit_ok] by simp_all
  have r: "cache_refines (tc_maxEntries ?c) (tc_ttlMs ?c) (run cache_step ?c ops, ?m)" by (rule run_refines [OF new])
  obtain ch rest e where e: "k = Some (ch # rest)" "?m (ch # rest) = Some e" "still_good (tc_ttlMs ?c) now ctx e" "ct_threadId e = i"
    using get_refines [OF r new(2), of k ctx now] assms by auto
  obtain pre t post where "ops = pre @ (CacheSet (Some (ch # rest)) i ctx, t) # post"
    "list_all (\<lambda>op. \<not> touches (ch # rest) ctx (fst op)) post"
    using ideal_last_set [OF e(2)] e by (auto simp: still_good_def)
  then show ?thesis using e(1) r by (auto simp: cache_refines_def)
qed

definition ro_ctx :: thread_ctx where "ro_ctx = \<lparr>tx_sandbox = ''read-only->read-only'', tx_cwd = ''/w''\<rparr>"
definition rw_ctx :: thread_ctx where "rw_ctx = \<lparr>tx_sandbox = ''workspace-write->workspace-write'', tx_cwd = ''/w''\<rparr>"

theorem thread_reuse_fail_closed_witness:
  "fst (cache_get (Some ''k'') ro_ctx 9 (run cache_step (cache_new (env_limit 1 256 (Fin 2)) (Fin 100) None None)
      [(CacheSet (Some ''k'') ''t1'' rw_ctx, 1), (CacheGet (Some ''k'') ro_ctx, 2), (CacheSet (Some ''k'') ''t2'' ro_ctx, 3)])) = Some ''t2''
   \<and> (\<exists>pre t post. [(CacheSet (Some ''k'') ''t1'' rw_ctx, 1 :: rat), (CacheGet (Some ''k'') ro_ctx, 2), (CacheSet (Some ''k'') ''t2'' ro_ctx, 3)]
       = pre @ (CacheSet (Some ''k'') ''t2'' ro_ctx, t) # post)"
proof -
  have "fst (cache_get (Some ''k'') ro_ctx 9 (run cache_step (cache_new (env_limit 1 256 (Fin 2)) (Fin 100) None None)
      [(CacheSet (Some ''k'') ''t1'' rw_ctx, 1), (CacheGet (Some ''k'') ro_ctx, 2), (CacheSet (Some ''k'') ''t2'' ro_ctx, 3)])) = Some ''t2''"
    by code_simp
  then show ?thesis using thread_reuse_fail_closed by blast
qed

end
