(* ===== verification/Codex_Approvals.thy ===== *)
theory Codex_Approvals
  imports Prelude
begin

text \<open>
  Permissions of the Codex gateway, src/codex_gateway.ts: the policies a request may ask for, the tool permissions answered
  in-process, and the approvals routed to a person over the bus. Approvals are a machine: an approval asked for by the app-server is
  a promise with a number, its decision and its timer are events.
\<close>

subsection \<open>Policies\<close>

text \<open>\<open>validateWorkspaceWriteJob\<close>: the detail of the refusal, or the thread key.\<close>

definition validate_workspace_write_job :: "jsval \<Rightarrow> string \<Rightarrow> bool \<Rightarrow> string + string" where
  "validate_workspace_write_job thread_key approvalPolicy signingEnabled =
     (if \<not> signingEnabled then Inl ''signing-off''
      else if approvalPolicy \<noteq> ''never'' then Inl ''write-approval-policy-not-never''
      else
        (case thread_key of
           JStr k \<Rightarrow> if js_trim k = [] then Inl ''write-thread-key-required'' else Inr (js_trim k)
         | _ \<Rightarrow> Inl ''write-thread-key-required''))"

definition approval_policy_allowed :: "string \<Rightarrow> bool \<Rightarrow> bool" where
  "approval_policy_allowed approvalPolicy writeEnabled \<longleftrightarrow> \<not> writeEnabled \<or> approvalPolicy = ''never''"

definition default_plain_request_approval_policy :: "bool \<Rightarrow> string" where
  "default_plain_request_approval_policy writeEnabled = (if writeEnabled then ''never'' else ''on-request'')"

definition object_or_empty :: "jsval \<Rightarrow> jsval" where
  "object_or_empty v = (case v of JObj _ \<Rightarrow> v | JArr _ \<Rightarrow> v | _ \<Rightarrow> JObj [])"

definition accept_elicitation :: jsval where
  "accept_elicitation = JObj [(''action'', JStr ''accept''), (''content'', JObj [])]"

definition codex_mcp_elicitation_result :: "jsval \<Rightarrow> jsval" where
  "codex_mcp_elicitation_result m =
     (let params = object_or_empty (jget (object_or_empty m) ''params''); meta = object_or_empty (jget params ''_meta'') in
      if jget params ''serverName'' = JStr ''a2a_tools'' \<and> jget meta ''codex_approval_kind'' = JStr ''mcp_tool_call''
      then accept_elicitation
      else JObj [(''action'', JStr ''decline'')])"

subsection \<open>Approvals over the bus\<close>

fun base36 :: "nat \<Rightarrow> string" where
  "base36 n = (let d = [if n mod 36 < 10 then digit_char (n mod 36) else char_of (87 + n mod 36)] in if n < 36 then d else base36 (n div 36) @ d)"

declare base36.simps [simp del]

definition approval_id :: "nat \<Rightarrow> nat \<Rightarrow> string" where
  "approval_id ms jobseq = ''ap-'' @ base36 (ms mod 10000000) @ ''-'' @ base36 jobseq"

definition approver_of :: "string \<Rightarrow> string \<Rightarrow> string \<Rightarrow> string" where
  "approver_of APPROVER lastRequester AGENT_ID = (if APPROVER \<noteq> [] then APPROVER else if lastRequester \<noteq> [] then lastRequester else AGENT_ID)"

text \<open>\<open>ap_ids\<close> lists the ids of the promises by number, \<open>ap_answers\<close> what the app-server was answered.\<close>

record approvals =
  ap_pending :: "(string \<times> nat) list"
  ap_ids :: "string list"
  ap_answers :: "(nat \<times> bool) list"

definition approvals_new :: approvals where
  "approvals_new = \<lparr>ap_pending = [], ap_ids = [], ap_answers = []\<rparr>"

definition resolve_approval :: "nat \<Rightarrow> bool \<Rightarrow> approvals \<Rightarrow> approvals" where
  "resolve_approval n d s = (if n \<in> fst ` set (ap_answers s) then s else s\<lparr>ap_answers := ap_answers s @ [(n, d)]\<rparr>)"

datatype approval_event = Ask nat nat | Decision string jsval | Timer nat

fun approval_step :: "approvals \<Rightarrow> approval_event \<Rightarrow> approvals" where
  "approval_step s (Ask ms jobseq) =
     (let i = approval_id ms jobseq in
      s\<lparr>ap_pending := AList.update i (length (ap_ids s)) (ap_pending s), ap_ids := ap_ids s @ [i]\<rparr>)"
| "approval_step s (Decision i d) =
     (case map_of (ap_pending s) i of
        None \<Rightarrow> s
      | Some n \<Rightarrow> resolve_approval n (d = JStr ''accept'') (s\<lparr>ap_pending := AList.delete i (ap_pending s)\<rparr>))"
| "approval_step s (Timer n) =
     (if n < length (ap_ids s) \<and> map_of (ap_pending s) (ap_ids s ! n) \<noteq> None
      then resolve_approval n False (s\<lparr>ap_pending := AList.delete (ap_ids s ! n) (ap_pending s)\<rparr>)
      else s)"

definition asked_ids :: "approval_event list \<Rightarrow> string list" where
  "asked_ids es = concat (map (\<lambda>e. case e of Ask ms j \<Rightarrow> [approval_id ms j] | _ \<Rightarrow> []) es)"

lemma asked_ids_simps [simp]: "asked_ids [] = []" "asked_ids (xs @ ys) = asked_ids xs @ asked_ids ys"
  "asked_ids (Ask ms j # es) = approval_id ms j # asked_ids es" "asked_ids (Decision i d # es) = asked_ids es" "asked_ids (Timer n # es) = asked_ids es"
  by (simp_all add: asked_ids_def)

text \<open>An accepting decision for promise \<open>n\<close>: it names its id and comes after it was asked.\<close>

definition accepted_by :: "approval_event list \<Rightarrow> nat \<Rightarrow> bool" where
  "accepted_by es n \<longleftrightarrow> (\<exists>pre mid. \<exists>post ms j. es = pre @ Ask ms j # mid @ Decision (approval_id ms j) (JStr ''accept'') # post
     \<and> length (asked_ids pre) = n)"

lemma accepted_byI: "accepted_by ((pre @ Ask ms j # mid) @ [Decision (approval_id ms j) (JStr ''accept'')]) (length (asked_ids pre))"
  unfolding accepted_by_def append_assoc append_Cons by blast

lemma accepted_by_snoc: "accepted_by es n \<Longrightarrow> accepted_by (es @ [e]) n"
proof -
  assume "accepted_by es n"
  then obtain pre mid post ms j where "es = pre @ Ask ms j # mid @ Decision (approval_id ms j) (JStr ''accept'') # post"
    "length (asked_ids pre) = n" unfolding accepted_by_def by blast
  then have "es @ [e] = pre @ Ask ms j # mid @ Decision (approval_id ms j) (JStr ''accept'') # (post @ [e]) \<and> length (asked_ids pre) = n" by simp
  then show ?thesis unfolding accepted_by_def by blast
qed

lemma asked_split: "n < length (asked_ids es) \<Longrightarrow>
  \<exists>pre post ms j. es = pre @ Ask ms j # post \<and> length (asked_ids pre) = n \<and> asked_ids es ! n = approval_id ms j"
proof (induction es rule: rev_induct)
  case (snoc e es)
  show ?case
  proof (cases "n < length (asked_ids es)")
    case True
    from snoc.IH [OF True] obtain pre post ms j where "es = pre @ Ask ms j # post" "length (asked_ids pre) = n" "asked_ids es ! n = approval_id ms j" by blast
    then have "es @ [e] = pre @ Ask ms j # (post @ [e]) \<and> length (asked_ids pre) = n \<and> asked_ids (es @ [e]) ! n = approval_id ms j"
      using True by (simp add: nth_append)
    then show ?thesis by blast
  next
    case False
    then obtain ms j where "e = Ask ms j" using snoc.prems by (cases e) auto
    then have "es @ [e] = es @ Ask ms j # [] \<and> length (asked_ids es) = n \<and> asked_ids (es @ [e]) ! n = approval_id ms j"
      using False snoc.prems by (auto simp: nth_append less_Suc_eq)
    then show ?thesis by blast
  qed
qed simp

definition approvals_inv :: "approval_event list \<Rightarrow> approvals \<Rightarrow> bool" where
  "approvals_inv es s \<longleftrightarrow> ap_ids s = asked_ids es \<and> distinct (map fst (ap_answers s))
     \<and> (\<forall>i n. map_of (ap_pending s) i = Some n \<longrightarrow> n < length (ap_ids s) \<and> ap_ids s ! n = i)
     \<and> (\<forall>n. (n, True) \<in> set (ap_answers s) \<longrightarrow> accepted_by es n)
     \<and> (distinct (asked_ids es) \<longrightarrow>
         (\<forall>n < length (ap_ids s). n \<in> fst ` set (ap_answers s) \<or> map_of (ap_pending s) (ap_ids s ! n) = Some n))"

lemma approvals_inv_new: "approvals_inv [] approvals_new"
  by (simp add: approvals_inv_def approvals_new_def)

lemma ask_inv:
  assumes "approvals_inv es s"
  shows "approvals_inv (es @ [Ask ms j]) (approval_step s (Ask ms j))"
proof -
  let ?i = "approval_id ms j"
  have ids: "ap_ids s = asked_ids es" using assms by (simp add: approvals_inv_def)
  have "n < length (ap_ids s @ [?i]) \<and> (ap_ids s @ [?i]) ! n = k"
    if "map_of (AList.update ?i (length (ap_ids s)) (ap_pending s)) k = Some n" for k n
    using that assms by (auto simp: approvals_inv_def nth_append split: if_splits dest: spec)
  moreover have "n \<in> fst ` set (ap_answers s) \<or> map_of (AList.update ?i (length (ap_ids s)) (ap_pending s)) ((ap_ids s @ [?i]) ! n) = Some n"
    if "distinct (asked_ids es @ [?i])" "n < length (ap_ids s @ [?i])" for n
  proof (cases "n = length (ap_ids s)")
    case False
    then have n: "n < length (asked_ids es)" using that ids by simp
    then have "asked_ids es ! n \<noteq> ?i" using that(1) unfolding distinct_append by (metis disjoint_iff list.set_intros(1) nth_mem)
    moreover have "n \<in> fst ` set (ap_answers s) \<or> map_of (ap_pending s) (ap_ids s ! n) = Some n"
      using assms n that(1) unfolding approvals_inv_def by auto
    ultimately show ?thesis using n ids by (auto simp: nth_append)
  qed simp
  ultimately show ?thesis using assms accepted_by_snoc unfolding approvals_inv_def by (auto simp: Let_def)
qed

lemma settle_inv:
  assumes inv: "approvals_inv es s" and n: "map_of (ap_pending s) i = Some m" and k: "k < length (ap_ids s)" "ap_ids s ! k = i"
    and d: "d \<longrightarrow> accepted_by (es @ [e]) k" and e: "asked_ids [e] = []" and mk: "distinct (asked_ids es) \<Longrightarrow> m = k"
  shows "approvals_inv (es @ [e]) (resolve_approval k d (s\<lparr>ap_pending := AList.delete i (ap_pending s)\<rparr>))"
proof -
  let ?s = "resolve_approval k d (s\<lparr>ap_pending := AList.delete i (ap_pending s)\<rparr>)"
  have ids: "ap_ids ?s = ap_ids s" and pend: "ap_pending ?s = AList.delete i (ap_pending s)" by (simp_all add: resolve_approval_def)
  have ans: "fst ` set (ap_answers ?s) = insert k (fst ` set (ap_answers s))"
    "(x, True) \<in> set (ap_answers ?s) \<Longrightarrow> (x, True) \<in> set (ap_answers s) \<or> (x = k \<and> d)" for x
    by (auto simp: resolve_approval_def split: if_splits)
  have "distinct (map fst (ap_answers ?s))" using inv by (auto simp: resolve_approval_def approvals_inv_def)
  moreover have "accepted_by (es @ [e]) x" if "(x, True) \<in> set (ap_answers ?s)" for x
    using ans(2) [OF that] d inv accepted_by_snoc by (auto simp: approvals_inv_def)
  moreover have "x \<in> fst ` set (ap_answers ?s) \<or> map_of (ap_pending ?s) (ap_ids ?s ! x) = Some x"
    if dist: "distinct (asked_ids es)" and x: "x < length (ap_ids ?s)" for x
  proof (cases "x = k")
    case False
    then have "ap_ids s ! x \<noteq> i" using k x dist inv nth_eq_iff_index_eq [of "ap_ids s" x k] unfolding ids by (auto simp: approvals_inv_def)
    moreover have "x \<in> fst ` set (ap_answers s) \<or> map_of (ap_pending s) (ap_ids s ! x) = Some x"
      using inv dist x unfolding ids approvals_inv_def by blast
    ultimately show ?thesis unfolding ids pend ans by auto
  qed (simp add: ans)
  moreover have "x < length (ap_ids ?s) \<and> ap_ids ?s ! x = j" if "map_of (ap_pending ?s) j = Some x" for j x
    using that inv unfolding ids pend by (auto simp: approvals_inv_def split: if_splits)
  ultimately show ?thesis using inv e ids unfolding approvals_inv_def by simp
qed

lemma approval_step_inv:
  assumes inv: "approvals_inv es s"
  shows "approvals_inv (es @ [e]) (approval_step s e)"
proof -
  have skip: "approvals_inv (es @ [e]) s" if "asked_ids [e] = []" using inv that accepted_by_snoc unfolding approvals_inv_def by auto
  show ?thesis
  proof (cases e)
    case (Ask ms j)
    then show ?thesis using ask_inv [OF inv] by simp
  next
    case (Decision i d)
    show ?thesis
    proof (cases "map_of (ap_pending s) i")
      case (Some n)
      have n: "n < length (asked_ids es)" "asked_ids es ! n = i" "ap_ids s = asked_ids es" using inv Some unfolding approvals_inv_def by auto
      obtain pre post ms j where "es = pre @ Ask ms j # post" "length (asked_ids pre) = n" "i = approval_id ms j"
        using asked_split [OF n(1)] n(2) by blast
      then have acc: "d = JStr ''accept'' \<longrightarrow> accepted_by (es @ [e]) n" 
        using Decision accepted_byI [of pre ms j post] by auto
      show ?thesis using settle_inv [OF inv Some _ _ acc] n Decision Some by simp
    qed (use skip Decision in simp)
  next
    case (Timer n)
    show ?thesis
    proof (cases "n < length (ap_ids s) \<and> map_of (ap_pending s) (ap_ids s ! n) \<noteq> None")
      case True
      then obtain m where m: "map_of (ap_pending s) (ap_ids s ! n) = Some m" by blast
      have "m = n" if "distinct (asked_ids es)"
        using m inv that True nth_eq_iff_index_eq [of "ap_ids s" m n] by (auto simp: approvals_inv_def)
      then show ?thesis using settle_inv [OF inv m _ _ _ _, of n False e] True Timer by simp
      qed (use skip Timer in auto)
  qed
qed

lemma approvals_run_inv: "approvals_inv es (run approval_step approvals_new es)"
  by (induction es rule: rev_induct) (simp_all add: approvals_inv_new run_append approval_step_inv)

text \<open>C35. Approvals fail closed: the app-server is told to accept an approval only after a decision message that names the approval's
  id and says accept arrived after it was asked, every approval is answered at most once, and when the ids differ an
  approval whose timer has fired has an answer.\<close>

theorem approvals_fail_closed:
  "list_all (\<lambda>(n, accept). \<not> accept \<or> accepted_by es n) (ap_answers (run approval_step approvals_new es))
   \<and> distinct (map fst (ap_answers (run approval_step approvals_new es)))
   \<and> (distinct (asked_ids es) \<and> n < length (asked_ids es) \<longrightarrow>
        n \<in> fst ` set (ap_answers (run approval_step approvals_new (es @ [Timer n]))))"
proof -
  let ?s = "run approval_step approvals_new es"
  have inv: "approvals_inv es ?s" by (rule approvals_run_inv)
  have "n \<in> fst ` set (ap_answers (approval_step ?s (Timer n)))" if "distinct (asked_ids es)" "n < length (asked_ids es)"
  proof (cases "map_of (ap_pending ?s) (ap_ids ?s ! n)")
    case None
    then have "n \<in> fst ` set (ap_answers ?s)" using inv that unfolding approvals_inv_def by auto
    then show ?thesis using None by simp
  next
    case (Some m)
    have "ap_ids ?s = asked_ids es" using inv by (simp add: approvals_inv_def)
    then show ?thesis using that(2) Some by (simp add: resolve_approval_def)
  qed
  then show ?thesis using inv by (auto simp: approvals_inv_def list_all_iff run_append)
qed

lemma sample_ids: "approval_id 5 (Suc 0) = ''ap-5-1''" "approval_id 6 (Suc 0) = ''ap-6-1''"
  by (simp_all add: approval_id_def base36.simps [of 5] base36.simps [of 6] base36.simps [of "Suc 0"] digit_char_def char_of_def bit_0 Let_def)

theorem approvals_fail_closed_witness:
  "0 \<in> fst ` set (ap_answers (run approval_step approvals_new ([Ask 5 1, Ask 6 1, Decision (approval_id 6 1) (JStr ''accept'')] @ [Timer 0])))
   \<and> ap_answers (run approval_step approvals_new ([Ask 5 1, Ask 6 1, Decision (approval_id 6 1) (JStr ''accept'')] @ [Timer 0]))
       = [(1, True), (0, False)]"
proof -
  let ?es = "[Ask 5 1, Ask 6 1, Decision (approval_id 6 1) (JStr ''accept'')]"
  have "distinct (asked_ids ?es)" "0 < length (asked_ids ?es)" by (simp_all add: sample_ids)
  then have "0 \<in> fst ` set (ap_answers (run approval_step approvals_new (?es @ [Timer 0])))"
    using approvals_fail_closed [of ?es 0] by blast
  moreover have "ap_answers (run approval_step approvals_new (?es @ [Timer 0])) = [(1, True), (0, False)]"
    by (simp add: approvals_new_def resolve_approval_def Let_def sample_ids)
  ultimately show ?thesis by blast
qed

text \<open>Two approvals asked in one millisecond with the same job count get the same id: whatever the timers do, the second is
  never answered once the timer of the first has fired, and the app-server waits for it forever.\<close>

lemma colliding_approval_never_answered:
  "ap_answers (run approval_step approvals_new [Ask ms j, Ask ms j, Timer 0, Timer 1, Decision (approval_id ms j) (JStr ''accept'')]) = [(0, False)]"
  by (simp add: approvals_new_def resolve_approval_def Let_def)

end
