(* ===== verification/Codex_Turns.thy ===== *)
theory Codex_Turns
  imports Codex_Approvals
begin

text \<open>
  The stream of the Codex app-server as the gateway reads it, src/codex_gateway.ts: lines cut out of the chunks, their dispatch, the
  collector of one turn and the texts of errors. \<open>JSON.parse\<close> and \<open>JSON.stringify\<close> are parameters. The app-server writes
  objects whose \<open>method\<close> is text; for other lines the reader throws.
\<close>

subsection \<open>Lines and their dispatch\<close>

text \<open>\<open>readLoop\<close> on one chunk: the lines completed by it, trimmed, and the rest. Empty ones are skipped.\<close>

definition feed_chunk :: "string \<Rightarrow> string \<Rightarrow> string list \<times> string" where
  "feed_chunk buffer chunk =
     (let parts = split_on CHR 0x0A (buffer @ chunk) in (filter (\<lambda>l. l \<noteq> []) (map js_trim (butlast parts)), last parts))"

fun feed_chunks :: "string \<Rightarrow> string list \<Rightarrow> string list \<times> string" where
  "feed_chunks buffer [] = ([], buffer)"
| "feed_chunks buffer (c # cs) =
     (let (ls, rest) = feed_chunk buffer c; (ls', rest') = feed_chunks rest cs in (ls @ ls', rest'))"

datatype line_kind = Response | ApprovalRequest | Elicitation | Notification

definition classify_line :: "jsval \<Rightarrow> line_kind" where
  "classify_line m =
     (if jget m ''id'' \<noteq> JUndef \<and> (jget m ''result'' \<noteq> JUndef \<or> jget m ''error'' \<noteq> JUndef) then Response
      else
        (case jget m ''method'' of
           JStr s \<Rightarrow>
             if contains ''requestApproval'' s \<and> jget m ''id'' \<noteq> JUndef then ApprovalRequest
             else if s = ''mcpServer/elicitation/request'' \<and> jget m ''id'' \<noteq> JUndef then Elicitation
             else Notification
         | _ \<Rightarrow> Notification))"

definition describe_gateway_error :: "js_env \<Rightarrow> (jsval \<Rightarrow> string) \<Rightarrow> jsval \<Rightarrow> string" where
  "describe_gateway_error je stringify e =
     (case e of
        JStr s \<Rightarrow> s
      | JObj _ \<Rightarrow> (case jget e ''message'' of JStr (c # s) \<Rightarrow> c # s | _ \<Rightarrow> stringify e)
      | JArr _ \<Rightarrow> stringify e
      | _ \<Rightarrow> js_string je e)"

text \<open>The requests to the app-server: the next id and the ids that wait; an answer settles the promise of its id.\<close>

record rpc =
  rpc_next :: nat
  rpc_pending :: "nat list"

definition rpc_req :: "rpc \<Rightarrow> nat \<times> rpc" where
  "rpc_req r = (rpc_next r, r\<lparr>rpc_next := Suc (rpc_next r), rpc_pending := rpc_pending r @ [rpc_next r]\<rparr>)"

definition rpc_answer :: "js_env \<Rightarrow> (jsval \<Rightarrow> string) \<Rightarrow> nat \<Rightarrow> jsval \<Rightarrow> rpc \<Rightarrow> (string + jsval) option \<times> rpc" where
  "rpc_answer je stringify i m r =
     (if i \<in> set (rpc_pending r) then
        (Some (if truthy (jget m ''error'') then Inl (describe_gateway_error je stringify (jget m ''error'')) else Inr (jget m ''result'')),
         r\<lparr>rpc_pending := removeAll i (rpc_pending r)\<rparr>)
      else (None, r))"

subsection \<open>Errors of a turn\<close>

definition nullish_or :: "jsval \<Rightarrow> jsval \<Rightarrow> jsval" where
  "nullish_or a b = (if is_nullish a then b else a)"

definition extract_turn_error :: "js_env \<Rightarrow> (jsval \<Rightarrow> string) \<Rightarrow> jsval \<Rightarrow> string" where
  "extract_turn_error je stringify params =
     (if \<not> truthy params then []
      else
        (let e = nullish_or (jget params ''error'') (nullish_or (jget params ''failure'') (nullish_or (jget (jget params ''turn'') ''error'')
               (nullish_or (jget params ''message'') (jget params ''reason'')))) in
         if \<not> truthy e then []
         else
           (case e of
              JStr s \<Rightarrow> take 400 s
            | _ \<Rightarrow>
                take 400 (js_string je (nullish_or (jget e ''message'') (nullish_or (jget e ''detail'') (nullish_or (jget e ''code'') (JStr (stringify e)))))))))"

text \<open>\<open>/error|usage limit|rate.?limit|quota|denied|unauthoriz|forbidden|fail/i\<close>\<close>

definition rate_limit_at :: "string \<Rightarrow> bool" where
  "rate_limit_at s \<longleftrightarrow> starts_with ''rate'' s \<and>
     (starts_with ''limit'' (drop 4 s) \<or> (4 < length s \<and> s ! 4 \<notin> {CHR 0x0A, CHR 0x0D} \<and> starts_with ''limit'' (drop 5 s)))"

definition errish :: "string \<Rightarrow> bool" where
  "errish l = (let s = js_lower l in
     list_ex (\<lambda>w. contains w s) [''error'', ''usage limit'', ''quota'', ''denied'', ''unauthoriz'', ''forbidden'', ''fail'']
     \<or> list_ex rate_limit_at (suffixes s))"

definition push_stderr :: "string \<Rightarrow> string list \<Rightarrow> string list" where
  "push_stderr line ring = (let r = ring @ [line] in if 40 < length r then tl r else r)"

definition last_n :: "nat \<Rightarrow> 'a list \<Rightarrow> 'a list" where
  "last_n n xs = drop (length xs - n) xs"

definition recent_error_context :: "string list \<Rightarrow> string" where
  "recent_error_context ring =
     (let e = filter errish ring in take 400 (join_with '' | '' (last_n 4 (if e \<noteq> [] then e else ring))))"

subsection \<open>The collector of a turn\<close>

record turn =
  tn_text :: string
  tn_status :: jsval
  tn_done :: bool
  tn_error :: string

definition turn_new :: turn where
  "turn_new = \<lparr>tn_text = [], tn_status = JStr ''unknown'', tn_done = False, tn_error = []\<rparr>"

definition method_of :: "jsval \<Rightarrow> string" where
  "method_of m = (case jget m ''method'' of JStr s \<Rightarrow> s | _ \<Rightarrow> [])"

definition or_text :: "string \<Rightarrow> string \<Rightarrow> string" where
  "or_text a b = (if a = [] then b else a)"

text \<open>The handler \<open>h\<close> of \<open>runTurn\<close>, and the delta it passes on.\<close>

definition turn_feed :: "js_env \<Rightarrow> (jsval \<Rightarrow> string) \<Rightarrow> jsval \<Rightarrow> turn \<Rightarrow> turn \<times> string option" where
  "turn_feed je stringify m t =
     (let mm = method_of m; ps = jget m ''params'' in
      if contains ''agentMessage'' mm then
        (case nullish_or (jget ps ''delta'') (jget ps ''text'') of
           JStr d \<Rightarrow> (t\<lparr>tn_text := tn_text t @ d\<rparr>, Some d)
         | _ \<Rightarrow> (t, None))
      else if mm = ''turn/completed'' then
        (t\<lparr>tn_status := nullish_or (jget ps ''status'') (nullish_or (jget (jget ps ''turn'') ''status'') (JStr ''completed'')),
           tn_error := or_text (tn_error t) (extract_turn_error je stringify ps), tn_done := True\<rparr>, None)
      else if mm = ''turn/failed'' then
        (t\<lparr>tn_error := or_text (tn_error t) (extract_turn_error je stringify ps),
           tn_status := (if truthy (jget ps ''status'') then jget ps ''status'' else JStr ''failed''), tn_done := True\<rparr>, None)
      else (t, None))"

record turn_result =
  tres_text :: string
  tres_status :: jsval
  tres_timedOut :: bool
  tres_error :: "string option"

text \<open>The end of \<open>runTurn\<close>: the wait is over because the turn is done or the ceiling passed. The second component: the thread
  is dropped from the cache.\<close>

definition turn_end :: "string list \<Rightarrow> turn \<Rightarrow> turn_result \<times> bool" where
  "turn_end ring t =
     (let status = (if tn_done t then tn_status t else JStr ''timeout'');
          err = (if tn_done t \<and> status \<noteq> JStr ''completed'' \<and> tn_error t = [] then recent_error_context ring else tn_error t) in
      (\<lparr>tres_text = js_trim (tn_text t), tres_status = status, tres_timedOut = \<not> tn_done t, tres_error = (if err = [] then None else Some err)\<rparr>,
       \<not> tn_done t))"

subsection \<open>Lemmas\<close>

lemma split_on_cut: "split_on c (s @ t) = butlast (split_on c s) @ split_on c (last (split_on c s) @ t)"
proof (induction s)
  case (Cons a s)
  have ne: "split_on c s \<noteq> []" by (rule split_on_nonempty)
  show ?case
  proof (cases "a = c")
    case True
    then show ?thesis using Cons ne by simp
  next
    case False
    obtain x xs where "split_on c s = x # xs" using ne by (cases "split_on c s") auto
    then show ?thesis using Cons False by (cases xs) (auto split: list.splits)
  qed
qed simp

lemma split_on_parts: "p \<in> set (split_on c s) \<Longrightarrow> c \<notin> set p"
  by (induction s arbitrary: p) (auto split: list.splits if_splits)

text \<open>The lines do not depend on how the stream is cut.\<close>

lemma feed_chunks_lines:
  "CHR 0x0A \<notin> set buffer \<Longrightarrow> feed_chunks buffer cs =
     (let parts = split_on CHR 0x0A (buffer @ concat cs) in (filter (\<lambda>l. l \<noteq> []) (map js_trim (butlast parts)), last parts))"
proof (induction cs arbitrary: buffer)
  case Nil
  then have "split_on CHR 0x0A buffer = [buffer]" by (induction buffer) auto
  then show ?case by simp
next
  case (Cons c cs)
  let ?p = "split_on CHR 0x0A (buffer @ c)"
  have "CHR 0x0A \<notin> set (last ?p)" using split_on_parts [OF last_in_set [OF split_on_nonempty]] .
  then show ?case
    using Cons.IH [of "last ?p"] split_on_cut [of "CHR 0x0A" "buffer @ c" "concat cs"] split_on_nonempty
    by (simp add: feed_chunk_def Let_def split_beta butlast_append)
qed

fun turn_feeds :: "js_env \<Rightarrow> (jsval \<Rightarrow> string) \<Rightarrow> jsval list \<Rightarrow> turn \<Rightarrow> turn \<times> string list" where
  "turn_feeds je stringify [] t = (t, [])"
| "turn_feeds je stringify (m # ms) t =
     (let (t1, d) = turn_feed je stringify m t; (t2, ds) = turn_feeds je stringify ms t1 in (t2, (case d of Some x \<Rightarrow> x # ds | None \<Rightarrow> ds)))"

text \<open>The text of a turn is what was streamed, and a turn that is done stays done.\<close>

lemma turn_feeds_text: "turn_feeds je stringify ms t = (t', ds) \<Longrightarrow> tn_text t' = tn_text t @ concat ds \<and> (tn_done t \<longrightarrow> tn_done t')"
proof (induction ms arbitrary: t t' ds)
  case (Cons m ms)
  obtain t1 d where f: "turn_feed je stringify m t = (t1, d)" by fastforce
  have one: "tn_text t1 = tn_text t @ (case d of Some x \<Rightarrow> x | None \<Rightarrow> []) \<and> (tn_done t \<longrightarrow> tn_done t1)"
    using f by (auto simp: turn_feed_def Let_def split: if_splits jsval.splits)
  obtain t2 es where r: "turn_feeds je stringify ms t1 = (t2, es)" by fastforce
  show ?case using Cons.IH [OF r] Cons.prems one f r by (auto split: option.splits)
qed simp

text \<open>The collector does not look at the thread: the completion of any turn of the app-server ends it, and the text of any
  other turn that runs meanwhile becomes part of its output.\<close>

lemma foreign_completion_ends_turn:
  "tn_done (fst (turn_feed je stringify (JObj [(''method'', JStr ''turn/completed''), (''params'', JObj [(''threadId'', JStr tid)])]) t))"
  "tn_text (fst (turn_feed je stringify (JObj [(''method'', JStr ''item/agentMessage/delta''),
      (''params'', JObj [(''threadId'', JStr tid), (''delta'', JStr d)])]) t)) = tn_text t @ d"
proof -
  have "contains ''agentMessage'' ''item/agentMessage/delta''" "\<not> contains ''agentMessage'' ''turn/completed''" by code_simp+
  then show "tn_done (fst (turn_feed je stringify (JObj [(''method'', JStr ''turn/completed''), (''params'', JObj [(''threadId'', JStr tid)])]) t))"
    "tn_text (fst (turn_feed je stringify (JObj [(''method'', JStr ''item/agentMessage/delta''),
      (''params'', JObj [(''threadId'', JStr tid), (''delta'', JStr d)])]) t)) = tn_text t @ d"
    by (simp_all add: turn_feed_def Let_def method_of_def jget_def nullish_or_def is_nullish_def)
qed

end
