(* ===== verification/Paths.thy ===== *)
theory Paths
  imports Prelude
begin

text \<open>
  What the program uses of \<open>node:path\<close> (POSIX): \<open>isAbsolute\<close>, \<open>normalize\<close> and \<open>relative\<close>, over the
  segments of a path.
\<close>

definition dot :: string where "dot = ''.''"
definition dotdot :: string where "dotdot = ''..''"

definition is_absolute :: "string \<Rightarrow> bool" where
  "is_absolute p = (case p of [] \<Rightarrow> False | c # _ \<Rightarrow> c = CHR ''/'')"

text \<open>The segments left after \<open>.\<close>, \<open>..\<close> and empty ones are resolved; \<open>up\<close> keeps a leading \<open>..\<close>.\<close>

fun resolve_segs :: "bool \<Rightarrow> string list \<Rightarrow> string list \<Rightarrow> string list" where
  "resolve_segs up acc [] = rev acc"
| "resolve_segs up acc (s # ss) =
     (if s = [] \<or> s = dot then resolve_segs up acc ss
      else if s = dotdot then
        (case acc of
           [] \<Rightarrow> resolve_segs up (if up then [s] else []) ss
         | a # as \<Rightarrow> if a = dotdot then resolve_segs up (s # acc) ss else resolve_segs up as ss)
      else resolve_segs up (s # acc) ss)"

definition segs :: "string \<Rightarrow> string list" where
  "segs p = resolve_segs (\<not> is_absolute p) [] (split_on CHR ''/'' p)"

definition path_normalize :: "string \<Rightarrow> string" where
  "path_normalize p =
     (if p = [] then dot
      else (let trail = (last p = CHR ''/''); body = join_with ''/'' (segs p) in
        if is_absolute p then
          (if body = [] then ''/'' else ''/'' @ body @ (if trail then ''/'' else []))
        else if body = [] then (if trail then ''./'' else dot)
        else body @ (if trail then ''/'' else [])))"

fun strip_common :: "'a list \<Rightarrow> 'a list \<Rightarrow> 'a list \<times> 'a list" where
  "strip_common (x # xs) (y # ys) = (if x = y then strip_common xs ys else (x # xs, y # ys))"
| "strip_common xs ys = (xs, ys)"

text \<open>\<open>path.relative(from, to)\<close> of two absolute paths.\<close>

definition path_relative :: "string \<Rightarrow> string \<Rightarrow> string" where
  "path_relative src dst =
     (let (ups, down) = strip_common (segs src) (segs dst)
      in join_with ''/'' (replicate (length ups) dotdot @ down))"

lemma strip_common_prefix: "fst (strip_common xs ys) = [] \<Longrightarrow> prefix xs ys"
  by (induction xs ys rule: strip_common.induct) (auto split: if_splits)

lemma relative_down_prefix:
  assumes "\<not> starts_with ''..'' (path_relative src dst)"
  shows "prefix (segs src) (segs dst)"
proof -
  obtain ups down where sc: "strip_common (segs src) (segs dst) = (ups, down)" by fastforce
  have "ups = []"
  proof (cases ups)
    case (Cons u us)
    then have "path_relative src dst = join_with ''/'' (dotdot # replicate (length us) dotdot @ down)"
      by (simp add: path_relative_def sc)
    moreover have "starts_with ''..'' (join_with ''/'' (dotdot # xs))" for xs
      by (cases xs) (simp_all add: dotdot_def starts_with_def)
    ultimately show ?thesis using assms by simp
  qed
  then show ?thesis using strip_common_prefix [of "segs src" "segs dst"] sc by simp
qed

end
