(* ===== verification/Build_Authz.thy ===== *)
theory Build_Authz
  imports Paths
begin

text \<open>
  The authorization gate of workspace-write build jobs, \<open>src/codex_build_authz.ts\<close>.

  Redis is modelled with its failures: each command of a call meets a \<open>fault\<close>. \<open>Fine\<close> runs and
  answers; \<open>Down\<close> does not run and rejects; \<open>Lost\<close> runs but the reply is lost (the timeout of
  \<open>redisSend\<close>), so the caller sees a rejection. A \<open>None\<close> result is a thrown error. The file system
  (\<open>realpathSync\<close>, \<open>statSync\<close>) is the record \<open>file_system\<close>, the clock is an argument. The expiry
  of an owner key by its TTL is an event outside the calls.
\<close>

subsection \<open>Redis with faults\<close>

record redis =
  allowSet :: "string set"
  expiryScore :: "string \<Rightarrow> rat option"
  owners :: "string \<Rightarrow> string option"

datatype fault = Fine | Lost | Down

type_synonym rstate = "redis \<times> fault list"

definition redis_send :: "(redis \<Rightarrow> 'a \<times> redis) \<Rightarrow> rstate \<Rightarrow> 'a option \<times> rstate" where
  "redis_send cmd rs =
     (case rs of
        (r, []) \<Rightarrow> (Some (fst (cmd r)), snd (cmd r), [])
      | (r, Fine # fs) \<Rightarrow> (Some (fst (cmd r)), snd (cmd r), fs)
      | (r, Lost # fs) \<Rightarrow> (None, snd (cmd r), fs)
      | (r, Down # fs) \<Rightarrow> (None, r, fs))"

definition zadd :: "string \<Rightarrow> rat \<Rightarrow> redis \<Rightarrow> unit \<times> redis" where
  "zadd m score r = ((), r\<lparr>expiryScore := (expiryScore r)(m \<mapsto> score)\<rparr>)"
definition zrem :: "string \<Rightarrow> redis \<Rightarrow> unit \<times> redis" where
  "zrem m r = ((), r\<lparr>expiryScore := (expiryScore r)(m := None)\<rparr>)"
definition zscore :: "string \<Rightarrow> redis \<Rightarrow> rat option \<times> redis" where
  "zscore m r = (expiryScore r m, r)"
definition sadd :: "string \<Rightarrow> redis \<Rightarrow> unit \<times> redis" where
  "sadd m r = ((), r\<lparr>allowSet := insert m (allowSet r)\<rparr>)"
definition srem :: "string \<Rightarrow> redis \<Rightarrow> unit \<times> redis" where
  "srem m r = ((), r\<lparr>allowSet := allowSet r - {m}\<rparr>)"
definition sismember :: "string \<Rightarrow> redis \<Rightarrow> bool \<times> redis" where
  "sismember m r = (m \<in> allowSet r, r)"
definition set_nx :: "string \<Rightarrow> string \<Rightarrow> redis \<Rightarrow> bool \<times> redis" where
  "set_nx k v r = (if owners r k = None then (True, r\<lparr>owners := (owners r)(k \<mapsto> v)\<rparr>) else (False, r))"
definition get_key :: "string \<Rightarrow> redis \<Rightarrow> string option \<times> redis" where
  "get_key k r = (owners r k, r)"
definition expire_key :: "string \<Rightarrow> redis \<Rightarrow> bool \<times> redis" where
  "expire_key k r = (owners r k \<noteq> None, r)"

subsection \<open>Paths\<close>

record file_system =
  realpath_sync :: "string \<Rightarrow> string option"
  is_directory :: "string \<Rightarrow> bool option"

definition THREAD_OWNER_KEY_PREFIX :: string where
  "THREAD_OWNER_KEY_PREFIX = ''alloyium:a2a:codex-build:thread-owner:''"

definition has_traversal_segment :: "string \<Rightarrow> bool" where
  "has_traversal_segment p =
     (''..'' \<in> set (split_on CHR ''/'' (map (\<lambda>c. if c = CHR 0x5C then CHR ''/'' else c) p)))"

definition is_under_root :: "string \<Rightarrow> string \<Rightarrow> bool" where
  "is_under_root realp rootdir =
     (let rel = path_relative rootdir realp
      in rel = [] \<or> (rel \<noteq> [] \<and> \<not> starts_with ''..'' rel \<and> \<not> is_absolute rel))"

definition canonical_root :: "file_system \<Rightarrow> string \<Rightarrow> string option" where
  "canonical_root fs rootdir =
     (if \<not> is_absolute rootdir \<or> has_traversal_segment rootdir then None
      else let normalized = path_normalize rootdir in
        if has_traversal_segment normalized then None
        else (case realpath_sync fs normalized of
                None \<Rightarrow> None
              | Some rp \<Rightarrow> (let rpath = path_normalize rp in
                  case is_directory fs rpath of None \<Rightarrow> None | Some b \<Rightarrow> if b then Some rpath else None)))"

definition normalize_registered_realpath :: "string \<Rightarrow> string option" where
  "normalize_registered_realpath rp =
     (if \<not> is_absolute rp \<or> has_traversal_segment rp then None
      else let normalized = path_normalize rp
           in if has_traversal_segment normalized then None else Some normalized)"

definition canonicalize_cwd :: "file_system \<Rightarrow> string \<Rightarrow> string list \<Rightarrow> string + string" where
  "canonicalize_cwd fs cwd cwdRoots =
     (if \<not> is_absolute cwd then Inl ''cwd-not-absolute''
      else if has_traversal_segment cwd then Inl ''cwd-traversal''
      else let normalized = path_normalize cwd in
        if has_traversal_segment normalized then Inl ''cwd-traversal''
        else (case realpath_sync fs normalized of
                None \<Rightarrow> Inl ''cwd-missing''
              | Some rp \<Rightarrow> (let rpath = path_normalize rp in
                  case is_directory fs rpath of
                    None \<Rightarrow> Inl ''cwd-missing''
                  | Some b \<Rightarrow>
                      if \<not> b then Inl ''cwd-not-dir''
                      else if \<not> list_ex (\<lambda>rootdir. is_under_root rpath rootdir) (List.map_filter (canonical_root fs) cwdRoots)
                        then Inl ''cwd-symlink-escape''
                      else Inr rpath)))"

subsection \<open>The registry\<close>

definition register_cwd :: "string \<Rightarrow> jsnum option \<Rightarrow> rat \<Rightarrow> rstate \<Rightarrow> bool \<times> rstate" where
  "register_cwd realp ttlS now rs =
     (case normalize_registered_realpath realp of
        None \<Rightarrow> (False, rs)
      | Some rp \<Rightarrow>
          (case (case ttlS of
                   None \<Rightarrow> Some (redis_send (zrem rp) rs)
                 | Some (Fin q) \<Rightarrow> Some (redis_send (zadd rp (now + max 0 q * 1000)) rs)
                 | Some _ \<Rightarrow> None) of
             None \<Rightarrow> (False, rs)
           | Some (None, rs1) \<Rightarrow> (False, rs1)
           | Some (Some _, rs1) \<Rightarrow>
               (case redis_send (sadd rp) rs1 of
                  (None, rs2) \<Rightarrow> (False, rs2)
                | (Some _, rs2) \<Rightarrow> (True, rs2))))"

definition unregister_cwd :: "string \<Rightarrow> rat \<Rightarrow> rstate \<Rightarrow> bool \<times> rstate" where
  "unregister_cwd realp now rs =
     (case normalize_registered_realpath realp of
        None \<Rightarrow> (False, rs)
      | Some rp \<Rightarrow>
          (case redis_send (zadd rp (now - 1)) rs of
             (None, rs1) \<Rightarrow> (False, rs1)
           | (Some _, rs1) \<Rightarrow>
               (case redis_send (srem rp) rs1 of
                  (None, rs2) \<Rightarrow> (False, rs2)
                | (Some _, rs2) \<Rightarrow>
                    (case redis_send (zrem rp) rs2 of
                       (None, rs3) \<Rightarrow> (False, rs3)
                     | (Some _, rs3) \<Rightarrow> (True, rs3)))))"

definition is_cwd_registered :: "string \<Rightarrow> rat \<Rightarrow> rstate \<Rightarrow> bool \<times> rstate" where
  "is_cwd_registered realp now rs =
     (case normalize_registered_realpath realp of
        None \<Rightarrow> (False, rs)
      | Some rp \<Rightarrow>
          (case redis_send (zscore rp) rs of
             (None, rs1) \<Rightarrow> (False, rs1)
           | (Some score, rs1) \<Rightarrow>
               (if (case score of None \<Rightarrow> False | Some e \<Rightarrow> e \<le> now)
                then (False, snd (redis_send (zrem rp) (snd (redis_send (srem rp) rs1))))
                else (case redis_send (sismember rp) rs1 of
                        (None, rs2) \<Rightarrow> (False, rs2)
                      | (Some b, rs2) \<Rightarrow> (b, rs2)))))"

text \<open>Lines 216-218, on the owner read back.\<close>

definition check_owner ::
  "string \<Rightarrow> string \<Rightarrow> string option \<Rightarrow> rstate \<Rightarrow> (string + unit) option \<times> rstate" where
  "check_owner key requester owner rs =
     (if (case owner of None \<Rightarrow> ''null'' | Some s \<Rightarrow> s) \<noteq> requester
      then (Some (Inl ''thread-key-conflict''), rs)
      else (case redis_send (expire_key key) rs of
              (None, rs') \<Rightarrow> (None, rs')
            | (Some b, rs') \<Rightarrow> (Some (if b then Inr () else Inl ''redis-error''), rs')))"

text \<open>\<open>None\<close>: a command rejected; \<open>Some (Inl reason)\<close> and \<open>Some (Inr ())\<close> are the two results.\<close>

definition claim_thread_key :: "string \<Rightarrow> string \<Rightarrow> rstate \<Rightarrow> (string + unit) option \<times> rstate" where
  "claim_thread_key threadKey requesterId rs =
     (let key = THREAD_OWNER_KEY_PREFIX @ threadKey
      in case redis_send (set_nx key requesterId) rs of
           (None, rs1) \<Rightarrow> (None, rs1)
         | (Some claimed, rs1) \<Rightarrow>
             (if claimed then (Some (Inr ()), rs1)
              else (case redis_send (get_key key) rs1 of
                      (None, rs2) \<Rightarrow> (None, rs2)
                    | (Some (Some owner), rs2) \<Rightarrow> check_owner key requesterId (Some owner) rs2
                    | (Some None, rs2) \<Rightarrow>
                        (case redis_send (set_nx key requesterId) rs2 of
                           (None, rs3) \<Rightarrow> (None, rs3)
                         | (Some reclaimed, rs3) \<Rightarrow>
                             (if reclaimed then (Some (Inr ()), rs3)
                              else (case redis_send (get_key key) rs3 of
                                      (None, rs4) \<Rightarrow> (None, rs4)
                                    | (Some owner, rs4) \<Rightarrow> check_owner key requesterId owner rs4))))))"

record write_job =
  requesterId :: string
  job_cwd :: string
  job_threadKey :: "string option"

record write_cfg =
  allowWrite :: bool
  allowlist :: "string list"
  cwdRoots :: "string list"

definition authorize_write_job ::
  "file_system \<Rightarrow> write_job \<Rightarrow> write_cfg \<Rightarrow> rat \<Rightarrow> rstate \<Rightarrow> (string + string) \<times> rstate" where
  "authorize_write_job fs job cfg now rs =
     (if \<not> allowWrite cfg then (Inl ''write-disabled'', rs)
      else if requesterId job \<notin> set (allowlist cfg) then (Inl ''requester-not-allowlisted'', rs)
      else (case canonicalize_cwd fs (job_cwd job) (cwdRoots cfg) of
              Inl reason \<Rightarrow> (Inl reason, rs)
            | Inr rpath \<Rightarrow>
                (case is_cwd_registered rpath now rs of
                   (False, rs1) \<Rightarrow> (Inl ''cwd-not-registered'', rs1)
                 | (True, rs1) \<Rightarrow>
                     (let threadKey = (case job_threadKey job of None \<Rightarrow> [] | Some k \<Rightarrow> js_trim k) in
                      if threadKey = [] then (Inl ''thread-key-required'', rs1)
                      else (case claim_thread_key threadKey (requesterId job) rs1 of
                              (None, rs2) \<Rightarrow> (Inl ''authz-error'', rs2)
                            | (Some (Inl reason), rs2) \<Rightarrow> (Inl reason, rs2)
                            | (Some (Inr _), rs2) \<Rightarrow> (Inr rpath, rs2))))))"

subsection \<open>Lemmas\<close>

lemma redis_send_cases:
  assumes "redis_send cmd (r, fs) = (a, (r', fs'))"
  shows "(a = Some (fst (cmd r)) \<and> r' = snd (cmd r)) \<or> (a = None \<and> (r' = snd (cmd r) \<or> r' = r))"
  using assms by (auto simp: redis_send_def split: list.splits fault.splits)

lemma redis_send_read:
  assumes "redis_send cmd (r, fs) = (a, (r', fs'))" "snd (cmd r) = r"
  shows "r' = r \<and> (a = None \<or> a = Some (fst (cmd r)))"
  using redis_send_cases [OF assms(1)] assms(2) by auto

lemmas redis_cmds = zadd_def zrem_def zscore_def sadd_def srem_def sismember_def set_nx_def get_key_def expire_key_def

definition registered_at :: "rat \<Rightarrow> string \<Rightarrow> redis \<Rightarrow> bool" where
  "registered_at now rp r \<longleftrightarrow> rp \<in> allowSet r \<and> (case expiryScore r rp of None \<Rightarrow> True | Some e \<Rightarrow> now < e)"

text \<open>A check only ever drops a dead registration, and answers yes only for a live one.\<close>

lemma is_cwd_registered_spec:
  assumes "is_cwd_registered realp now (r, fs) = (b, (r', fs'))"
  shows "owners r' = owners r
    \<and> (b \<longrightarrow> r' = r \<and> (\<exists>rp. normalize_registered_realpath realp = Some rp \<and> registered_at now rp r))"
proof (cases "normalize_registered_realpath realp")
  case None
  then show ?thesis using assms by (simp add: is_cwd_registered_def)
next
  case (Some rp)
  obtain sc r1 f1 where sc: "redis_send (zscore rp) (r, fs) = (sc, (r1, f1))" by (metis surj_pair)
  have r1: "r1 = r" "sc = None \<or> sc = Some (expiryScore r rp)"
    using redis_send_read [OF sc] by (simp_all add: redis_cmds)
  show ?thesis
  proof (cases "sc = None \<or> (case expiryScore r rp of None \<Rightarrow> False | Some e \<Rightarrow> e \<le> now)")
    case True
    obtain a2 r2 f2 where s2: "redis_send (srem rp) (r, f1) = (a2, (r2, f2))" by (metis surj_pair)
    obtain a3 r3 f3 where s3: "redis_send (zrem rp) (r2, f2) = (a3, (r3, f3))" by (metis surj_pair)
    have "owners r3 = owners r"
      using redis_send_cases [OF s2] redis_send_cases [OF s3] by (auto simp: redis_cmds)
    then show ?thesis
      using True assms Some sc r1 s2 s3 by (auto simp: is_cwd_registered_def split: option.splits)
  next
    case False
    obtain a2 r2 f2 where s2: "redis_send (sismember rp) (r, f1) = (a2, (r2, f2))" by (metis surj_pair)
    have "r2 = r" "a2 = None \<or> a2 = Some (rp \<in> allowSet r)"
      using redis_send_read [OF s2] by (simp_all add: redis_cmds)
    then show ?thesis
      using False assms Some sc r1 s2
      by (auto simp: is_cwd_registered_def registered_at_def split: option.splits if_splits)
  qed
qed

definition owner_key :: "string \<Rightarrow> string" where
  "owner_key k = THREAD_OWNER_KEY_PREFIX @ k"

text \<open>Claiming a key never takes it from somebody, and grants it only to its owner.\<close>

definition owner_kept :: "redis \<Rightarrow> redis \<Rightarrow> bool" where
  "owner_kept r r' \<longleftrightarrow> (\<forall>k w. owners r k = Some w \<longrightarrow> owners r' k = Some w)"

lemma set_nx_send:
  assumes "redis_send (set_nx k v) (r, fs) = (a, (r', fs'))"
  shows "owner_kept r r' \<and> allowSet r' = allowSet r \<and> expiryScore r' = expiryScore r
    \<and> (a = Some True \<longrightarrow> owners r' k = Some v)"
  using redis_send_cases [OF assms] by (auto simp: set_nx_def owner_kept_def split: if_splits)

lemma check_owner_spec:
  assumes "check_owner k v (owners r k) (r, fs) = (res, (r', fs'))"
  shows "r' = r \<and> (res = Some (Inr ()) \<longrightarrow> owners r k = Some v)"
proof (cases "(case owners r k of None \<Rightarrow> ''null'' | Some s \<Rightarrow> s) \<noteq> v")
  case True
  then show ?thesis using assms by (auto simp: check_owner_def)
next
  case False
  obtain a r2 f2 where e: "redis_send (expire_key k) (r, fs) = (a, (r2, f2))" by (metis surj_pair)
  have "r2 = r" "a = None \<or> a = Some (owners r k \<noteq> None)"
    using redis_send_read [OF e] by (simp_all add: redis_cmds)
  then show ?thesis
    using assms False e by (auto simp: check_owner_def split: option.splits if_splits)
qed

lemma claim_thread_key_spec:
  assumes "claim_thread_key k v (r, fs) = (res, (r', fs'))"
  shows "owner_kept r r' \<and> allowSet r' = allowSet r \<and> expiryScore r' = expiryScore r
    \<and> (res = Some (Inr ()) \<longrightarrow> owners r' (owner_key k) = Some v)"
proof -
  let ?k = "THREAD_OWNER_KEY_PREFIX @ k"
  have refl: "owner_kept x x" for x by (simp add: owner_kept_def)
  obtain a1 r1 f1 where s1: "redis_send (set_nx ?k v) (r, fs) = (a1, (r1, f1))" by (metis surj_pair)
  note n1 = set_nx_send [OF s1]
  show ?thesis
  proof (cases "a1 = Some False")
    case False
    then show ?thesis
      using assms s1 n1 by (cases a1) (auto simp: claim_thread_key_def Let_def owner_key_def split: if_splits)
  next
    case True
    obtain a2 r2 f2 where s2: "redis_send (get_key ?k) (r1, f1) = (a2, (r2, f2))" by (metis surj_pair)
    have r2: "r2 = r1" "a2 = None \<or> a2 = Some (owners r1 ?k)"
      using redis_send_read [OF s2] by (simp_all add: redis_cmds)
    show ?thesis
    proof (cases a2)
      case None
      then show ?thesis using assms s1 n1 True s2 r2 by (simp add: claim_thread_key_def Let_def)
    next
      case (Some ow)
      show ?thesis
      proof (cases ow)
        case (Some w)
        then show ?thesis
          using assms s1 n1 True s2 r2 \<open>a2 = Some ow\<close> check_owner_spec [of ?k v r1 f2 res r' fs']
          by (auto simp: claim_thread_key_def Let_def owner_key_def)
      next
        case None
        obtain a3 r3 f3 where s3: "redis_send (set_nx ?k v) (r1, f2) = (a3, (r3, f3))" by (metis surj_pair)
        note n3 = set_nx_send [OF s3]
        have kept: "owner_kept r r3" "allowSet r3 = allowSet r" "expiryScore r3 = expiryScore r"
          using n1 n3 by (auto simp: owner_kept_def)
        show ?thesis
        proof (cases "a3 = Some False")
          case False
          then show ?thesis
            using assms s1 True s2 r2 \<open>a2 = Some ow\<close> None s3 n3 kept
            by (cases a3) (auto simp: claim_thread_key_def Let_def owner_key_def split: if_splits)
        next
          case F3: True
          obtain a4 r4 f4 where s4: "redis_send (get_key ?k) (r3, f3) = (a4, (r4, f4))" by (metis surj_pair)
          have r4: "r4 = r3" "a4 = None \<or> a4 = Some (owners r3 ?k)"
            using redis_send_read [OF s4] by (simp_all add: redis_cmds)
          show ?thesis
            using assms s1 True s2 r2 \<open>a2 = Some ow\<close> None s3 F3 s4 r4 kept
              check_owner_spec [of ?k v r3 f4 res r' fs']
            by (cases a4) (auto simp: claim_thread_key_def Let_def owner_key_def)
        qed
      qed
    qed
  qed
qed

lemma canonicalize_cwd_ok:
  assumes "canonicalize_cwd fs cwd roots = Inr rp"
  shows "is_directory fs rp = Some True
    \<and> (\<exists>q. realpath_sync fs (path_normalize cwd) = Some q \<and> rp = path_normalize q)
    \<and> (\<exists>rootdir \<in> set roots. \<exists>cr. canonical_root fs rootdir = Some cr \<and> prefix (segs cr) (segs rp))"
proof -
  obtain q where q: "realpath_sync fs (path_normalize cwd) = Some q" "rp = path_normalize q"
    "is_directory fs rp = Some True"
    "list_ex (\<lambda>r. is_under_root rp r) (List.map_filter (canonical_root fs) roots)"
    using assms by (auto simp: canonicalize_cwd_def Let_def split: if_splits option.splits)
  obtain rootdir cr where r: "rootdir \<in> set roots" "canonical_root fs rootdir = Some cr" "is_under_root rp cr"
    using q(4) by (auto simp: list_ex_iff List.map_filter_def)
  then have "\<not> starts_with ''..'' (path_relative cr rp)"
    by (auto simp: is_under_root_def Let_def starts_with_def)
  then show ?thesis using q r relative_down_prefix by blast
qed

lemma authorize_write_job_ok:
  assumes "authorize_write_job fs job cfg now (r, flt) = (Inr rp, (r', flt'))"
  shows "allowWrite cfg \<and> requesterId job \<in> set (allowlist cfg)
    \<and> canonicalize_cwd fs (job_cwd job) (cwdRoots cfg) = Inr rp
    \<and> (\<exists>n. normalize_registered_realpath rp = Some n \<and> registered_at now n r)
    \<and> (\<exists>k. job_threadKey job = Some k \<and> js_trim k \<noteq> [] \<and> owners r' (owner_key (js_trim k)) = Some (requesterId job))
    \<and> owner_kept r r'"
proof -
  have top: "allowWrite cfg" "requesterId job \<in> set (allowlist cfg)"
    "canonicalize_cwd fs (job_cwd job) (cwdRoots cfg) = Inr rp"
    using assms by (auto simp: authorize_write_job_def Let_def
        split: if_splits sum.splits prod.splits bool.splits option.splits)
  obtain b r1 f1 where reg: "is_cwd_registered rp now (r, flt) = (b, (r1, f1))" by (metis surj_pair)
  note g = is_cwd_registered_spec [OF reg]
  define k where "k = (case job_threadKey job of None \<Rightarrow> [] | Some k \<Rightarrow> js_trim k)"
  obtain c r2 f2 where cl: "claim_thread_key k (requesterId job) (r1, f1) = (c, (r2, f2))" by (metis surj_pair)
  have eq: "authorize_write_job fs job cfg now (r, flt) =
     (if \<not> b then (Inl ''cwd-not-registered'', (r1, f1))
      else if k = [] then (Inl ''thread-key-required'', (r1, f1))
      else (case c of None \<Rightarrow> (Inl ''authz-error'', (r2, f2))
            | Some (Inl reason) \<Rightarrow> (Inl reason, (r2, f2)) | Some (Inr _) \<Rightarrow> (Inr rp, (r2, f2))))"
    using top by (cases b) (simp_all add: authorize_write_job_def reg cl Let_def flip: k_def split: option.split sum.split)
  then have b: "b" "k \<noteq> []" "c = Some (Inr ())" "r' = r2"
    using assms by (auto split: if_splits option.splits sum.splits)
  have r1: "r1 = r" using g b(1) by blast
  note cs = claim_thread_key_spec [OF cl]
  obtain kk where "job_threadKey job = Some kk" "js_trim kk = k"
    using b(2) by (cases "job_threadKey job") (auto simp: k_def)
  then show ?thesis
    using top g b cs r1 by auto
qed

text \<open>
  C4. The gate is sound, whatever Redis does: a job is authorized only when writing is enabled,
  the requester is on the allowlist, the directory exists and, after symlinks are resolved, lies
  under one of the configured roots (segment by segment), a registration of that directory was
  live at the time of the check, and the thread key is non-empty and now owned by the requester.
\<close>

theorem authorized_job_is_legitimate:
  assumes "authorize_write_job fs job cfg now (r, flt) = (Inr rp, (r', flt'))"
  shows "allowWrite cfg \<and> requesterId job \<in> set (allowlist cfg)
    \<and> is_directory fs rp = Some True
    \<and> (\<exists>rootdir \<in> set (cwdRoots cfg). \<exists>cr. canonical_root fs rootdir = Some cr \<and> prefix (segs cr) (segs rp))
    \<and> (\<exists>n. normalize_registered_realpath rp = Some n \<and> registered_at now n r)
    \<and> (\<exists>k. job_threadKey job = Some k \<and> js_trim k \<noteq> [] \<and> owners r' (owner_key (js_trim k)) = Some (requesterId job))"
  using authorize_write_job_ok [OF assms] canonicalize_cwd_ok [of fs "job_cwd job" "cwdRoots cfg" rp] by blast

definition sample_fs :: file_system where
  "sample_fs = \<lparr>realpath_sync = Some, is_directory = (\<lambda>p. Some True)\<rparr>"

definition sample_redis :: redis where
  "sample_redis = \<lparr>allowSet = {''/w/a''}, expiryScore = Map.empty, owners = Map.empty\<rparr>"

definition sample_job :: write_job where
  "sample_job = \<lparr>requesterId = ''pm'', job_cwd = ''/w/./a'', job_threadKey = Some '' t1 ''\<rparr>"

definition sample_wcfg :: write_cfg where
  "sample_wcfg = \<lparr>allowWrite = True, allowlist = [''pm''], cwdRoots = [''/w'']\<rparr>"

lemma sample_authorized:
  "fst (authorize_write_job sample_fs sample_job sample_wcfg 0 (sample_redis, [Fine])) = Inr ''/w/a''"
  by (simp add: authorize_write_job_def sample_fs_def sample_job_def sample_wcfg_def sample_redis_def
      canonicalize_cwd_def is_absolute_def has_traversal_segment_def path_normalize_def segs_def dot_def
      dotdot_def canonical_root_def is_under_root_def path_relative_def starts_with_def
      is_cwd_registered_def normalize_registered_realpath_def redis_send_def redis_cmds claim_thread_key_def
      js_eval List.map_filter_def Let_def)

theorem authorized_job_is_legitimate_witness:
  "\<exists>rootdir \<in> set (cwdRoots sample_wcfg). \<exists>cr. canonical_root sample_fs rootdir = Some cr
     \<and> prefix (segs cr) (segs ''/w/a'')"
proof -
  obtain r' flt' where "authorize_write_job sample_fs sample_job sample_wcfg 0 (sample_redis, [Fine]) = (Inr ''/w/a'', (r', flt'))"
    using sample_authorized by (metis prod.exhaust_sel)
  then show ?thesis using authorized_job_is_legitimate by blast
qed

text \<open>
  A thread key belongs to its first requester: while the key is owned, no other requester is
  ever authorized under it, whatever Redis does, and the attempt leaves the owner in place.
\<close>

theorem thread_key_exclusive:
  assumes "job_threadKey job = Some k" and "owners r (owner_key (js_trim k)) = Some w" and "w \<noteq> requesterId job"
  shows "\<not> (\<exists>rp. fst (authorize_write_job fs job cfg now (r, flt)) = Inr rp)
    \<and> owners (fst (snd (authorize_write_job fs job cfg now (r, flt)))) (owner_key (js_trim k)) = Some w"
proof -
  obtain res r' flt' where au: "authorize_write_job fs job cfg now (r, flt) = (res, (r', flt'))" by (metis surj_pair)
  have kept: "owner_kept r r'"
  proof -
    have refl: "owner_kept r r" by (simp add: owner_kept_def)
    show ?thesis
    proof (cases "allowWrite cfg \<and> requesterId job \<in> set (allowlist cfg)
        \<and> (\<exists>rp. canonicalize_cwd fs (job_cwd job) (cwdRoots cfg) = Inr rp)")
      case False
      then show ?thesis using au refl by (auto simp: authorize_write_job_def split: if_splits sum.splits)
    next
      case True
      then obtain rp where top: "allowWrite cfg" "requesterId job \<in> set (allowlist cfg)"
        "canonicalize_cwd fs (job_cwd job) (cwdRoots cfg) = Inr rp" by blast
      obtain b r1 f1 where reg: "is_cwd_registered rp now (r, flt) = (b, (r1, f1))" by (metis surj_pair)
      have o1: "owners r1 = owners r" using is_cwd_registered_spec [OF reg] by blast
      obtain c r2 f2 where cl: "claim_thread_key (js_trim k) (requesterId job) (r1, f1) = (c, (r2, f2))"
        by (metis surj_pair)
      have "owner_kept r1 r2" using claim_thread_key_spec [OF cl] by blast
      moreover have "r' = r1 \<or> r' = r2"
        using au top assms(1) by (auto simp: authorize_write_job_def reg cl Let_def
            split: bool.splits if_splits option.splits sum.splits)
      ultimately show ?thesis using o1 refl by (auto simp: owner_kept_def)
    qed
  qed
  have "\<not> (\<exists>rp. res = Inr rp)"
  proof
    assume "\<exists>rp. res = Inr rp"
    then have "owners r' (owner_key (js_trim k)) = Some (requesterId job)"
      using au authorize_write_job_ok assms(1) by fastforce
    then show False using kept assms(2,3) by (simp add: owner_kept_def)
  qed
  then show ?thesis using au kept assms(2) by (simp add: owner_kept_def)
qed

theorem thread_key_exclusive_witness:
  "\<not> (\<exists>rp. fst (authorize_write_job sample_fs sample_job sample_wcfg 0
      (sample_redis\<lparr>owners := [owner_key ''t1'' \<mapsto> ''other'']\<rparr>, [Fine, Lost])) = Inr rp)"
proof -
  have k: "job_threadKey sample_job = Some '' t1 ''" "js_trim '' t1 '' = ''t1''" "requesterId sample_job = ''pm''"
    by (simp_all add: sample_job_def js_eval)
  show ?thesis
    using thread_key_exclusive [OF k(1), of "sample_redis\<lparr>owners := [owner_key ''t1'' \<mapsto> ''other'']\<rparr>" "''other''"]
    by (simp add: k)
qed

text \<open>
  Revocation fails closed: once the first command of \<open>unregisterCwd\<close> has taken effect,
  whatever happens to the others and to the check itself, the next check of that directory says
  no; and if \<open>unregisterCwd\<close> reports success, nothing of the registration is left.
\<close>

theorem unregister_denies:
  assumes "normalize_registered_realpath p = Some rp" and "hd (flt @ [Fine]) \<noteq> Down" and "now - 1 \<le> t"
    and "unregister_cwd p now (r, flt) = (b, (r', flt'))"
  shows "\<not> fst (is_cwd_registered p t (r', flt2)) \<and> (b \<longrightarrow> rp \<notin> allowSet r' \<and> expiryScore r' rp = None)"
proof -
  obtain a1 r1 f1 where s1: "redis_send (zadd rp (now - 1)) (r, flt) = (a1, (r1, f1))" by (metis surj_pair)
  have r1: "expiryScore r1 rp = Some (now - 1)"
    using s1 assms(2) by (auto simp: redis_send_def redis_cmds split: list.splits fault.splits)
  obtain a2 r2 f2 where s2: "redis_send (srem rp) (r1, f1) = (a2, (r2, f2))" by (metis surj_pair)
  obtain a3 r3 f3 where s3: "redis_send (zrem rp) (r2, f2) = (a3, (r3, f3))" by (metis surj_pair)
  have c2: "expiryScore r2 rp = Some (now - 1)" "a2 \<noteq> None \<longrightarrow> rp \<notin> allowSet r2"
    using redis_send_cases [OF s2] r1 by (auto simp: redis_cmds)
  have c3: "allowSet r3 = allowSet r2" "a3 \<noteq> None \<longrightarrow> expiryScore r3 rp = None"
    using redis_send_cases [OF s3] by (auto simp: redis_cmds)
  have dead: "rp \<notin> allowSet r' \<or> expiryScore r' rp = Some (now - 1)"
    "b \<longrightarrow> rp \<notin> allowSet r' \<and> expiryScore r' rp = None"
    using assms(1,4) s1 s2 s3 r1 c2 c3 by (auto simp: unregister_cwd_def split: option.splits)
  then have "\<not> registered_at t rp r'"
    using assms(3) by (auto simp: registered_at_def)
  moreover obtain b2 r4 f4 where "is_cwd_registered p t (r', flt2) = (b2, (r4, f4))" by (metis surj_pair)
  ultimately have "\<not> fst (is_cwd_registered p t (r', flt2))"
    using is_cwd_registered_spec assms(1) by fastforce
  then show ?thesis using dead(2) by blast
qed

theorem unregister_denies_witness:
  "\<not> fst (is_cwd_registered ''/w/a'' 5 (fst (snd (unregister_cwd ''/w/a'' 5 (sample_redis, [Lost]))), []))"
proof -
  have "normalize_registered_realpath ''/w/a'' = Some ''/w/a''"
    by (simp add: normalize_registered_realpath_def is_absolute_def has_traversal_segment_def path_normalize_def
        segs_def dot_def dotdot_def Let_def)
  moreover obtain b r' flt' where u: "unregister_cwd ''/w/a'' 5 (sample_redis, [Lost]) = (b, (r', flt'))"
    by (metis surj_pair)
  ultimately show ?thesis
    using unregister_denies [OF _ _ _ u] by simp
qed

text \<open>
  C23. The limit of that promise. \<open>isCwdRegistered\<close> drops a dead registration with two commands and
  swallows the failure of each. When the first (\<open>SREM\<close>) does not run and the second (\<open>ZREM\<close>) does, the
  directory stays in the set without its expiry, so from then on every check whose reads succeed says
  yes, at any time: an expired or half-revoked registration has become a permanent one.
\<close>

theorem expired_registration_resurrected:
  assumes "normalize_registered_realpath realp = Some rp" "rp \<in> allowSet r" "expiryScore r rp = Some e" "e \<le> now"
  shows "(let (first, (r1, fs1)) = is_cwd_registered realp now (r, Fine # Down # Fine # fs)
          in \<not> first \<and> (fst (is_cwd_registered realp later (r1, []))))"
  using assms by (simp add: is_cwd_registered_def redis_send_def redis_cmds)

lemma expired_registration_resurrected_witness:
  "(let (first, (r1, fs1)) = is_cwd_registered ''/w/a'' 5
          (sample_redis\<lparr>expiryScore := [''/w/a'' \<mapsto> 3]\<rparr>, [Fine, Down, Fine])
    in \<not> first \<and> (fst (is_cwd_registered ''/w/a'' 1000000 (r1, []))))"
proof -
  have "normalize_registered_realpath ''/w/a'' = Some ''/w/a''"
    by (simp add: normalize_registered_realpath_def is_absolute_def has_traversal_segment_def
        path_normalize_def segs_def dot_def dotdot_def)
  from expired_registration_resurrected
    [OF this, of "sample_redis\<lparr>expiryScore := [''/w/a'' \<mapsto> 3]\<rparr>" 3 5 "[]" 1000000]
  show ?thesis by (simp add: sample_redis_def)
qed

end
