(* ===== verification/Codex_Sessions.thy ===== *)
theory Codex_Sessions
  imports Codex_Realtime Codex_Threads Codex_Turns Codex_Tools Build_Authz
begin

text \<open>
  The realtime sessions of the Codex gateway, src/codex_gateway.ts, as a machine. A request (over the bus or HTTP) runs until it
  waits for the app-server and leaves a task behind; the answer of the app-server is an event that takes the task up again, and
  notifications and other requests come in between. What leaves the gateway is logged: \<open>gw_asked\<close> the requests to the
  app-server, \<open>gw_out\<close> the messages, HTTP replies and frames of event streams.

  Parameters: the conversions \<open>je\<close>, the file system \<open>fs\<close>, Redis with its faults as part of the state, and the
  text \<open>now\<close> and clock of each event. Ids of threads and turns are texts.
\<close>

subsection \<open>Configuration, requests, tasks, state\<close>

record gw_cfg =
  gc_agent :: string
  gc_write :: write_cfg
  gc_signing :: bool
  gc_exec_sandbox :: jsval
  gc_ww_sandbox :: jsval
  gc_effort :: "string option"
  gc_fs :: file_system
  gc_js :: js_env
  gc_tools :: bool

text \<open>The context of a session or a thread request, after authorization.\<close>

record rt_ctx =
  rx_sessionId :: "string option"
  rx_threadKey :: "string option"
  rx_resume :: "string option"
  rx_topic :: "string option"
  rx_sandbox :: string
  rx_policy :: string
  rx_cwd :: string

datatype app_req =
    ThreadStart string sandbox_mode string string
  | ThreadResume string string string
  | TurnStart string "string option" string "string option"
  | TurnSteer string string "string option" string
  | InjectItems string "jsval list"
  | TurnInterrupt string string

datatype dest = Bus string string | Http nat

datatype goal = ForCreate | ForInput jsval

datatype task =
    WaitThread rt_ctx string dest goal
  | WaitTurn string dest
  | WaitSteer string string dest
  | WaitInject string string nat dest
  | WaitInterrupt string string string dest

datatype out = ToAgent string jsval string | ToTopic string jsval | HttpReply nat nat jsval | SseFrame nat jsval

record pending_turn =
  pt_to :: string
  pt_corr :: string
  pt_sessionId :: string
  pt_text :: string

record gw =
  gw_threads :: thread_cache
  gw_reg :: registry
  gw_pending :: "(string \<times> pending_turn) list"
  gw_sse :: "(string \<times> nat list) list"
  gw_tasks :: "(nat \<times> task) list"
  gw_next :: nat
  gw_redis :: rstate
  gw_asked :: "app_req list"
  gw_out :: "out list"

definition send :: "out \<Rightarrow> gw \<Rightarrow> gw" where
  "send x g = g\<lparr>gw_out := gw_out g @ [x]\<rparr>"

definition ask :: "app_req \<Rightarrow> task \<Rightarrow> gw \<Rightarrow> gw" where
  "ask q t g = g\<lparr>gw_asked := gw_asked g @ [q], gw_tasks := gw_tasks g @ [(gw_next g, t)], gw_next := Suc (gw_next g)\<rparr>"


definition text_field :: "jsval \<Rightarrow> string \<Rightarrow> string option" where
  "text_field v k = (case jget v k of JStr s \<Rightarrow> Some s | _ \<Rightarrow> None)"

subsection \<open>Contexts\<close>



subsection \<open>Events and their handlers\<close>

definition session_field :: "(rt_session \<Rightarrow> 'a) \<Rightarrow> string \<Rightarrow> registry \<Rightarrow> 'a option" where
  "session_field f i r = map_option f (get_session i r)"

definition final_schema :: "string \<Rightarrow> string \<times> string" where
  "final_schema ev =
     (if ev = ''turn_failed'' then (''codex.turn.failed.v1'', ''failed'')
      else if ev = ''turn_interrupted'' then (''codex.turn.interrupted.v1'', ''interrupted'')
      else (''codex.turn.completed.v1'', ''completed''))"

text \<open>The reply that ends a turn started over the bus.\<close>

definition final_reply :: "jsval \<Rightarrow> string \<Rightarrow> pending_turn \<Rightarrow> out" where
  "final_reply ev event p =
     ToAgent (pt_to p)
       (JObj ([(''schema'', JStr (fst (final_schema event))), (''session_id'', JStr (pt_sessionId p)), (''thread_id'', jget ev ''thread_id''),
          (''turn_id'', jget ev ''turn_id''), (''status'', nullish_or (jget ev ''status'') (JStr (snd (final_schema event))))]
          @ (if pt_text p = [] then [] else [(''output'', JStr (js_trim (pt_text p)))]) @ [(''seq'', jget ev ''seq'')]))
       (pt_corr p)"

definition add_delta :: "jsval \<Rightarrow> pending_turn \<Rightarrow> pending_turn" where
  "add_delta ev p = (case jget ev ''text'' of JStr t \<Rightarrow> p\<lparr>pt_text := pt_text p @ t\<rparr> | _ \<Rightarrow> p)"

definition bus_relay :: "jsval \<Rightarrow> string option \<Rightarrow> gw \<Rightarrow> gw" where
  "bus_relay ev topic g0 =
     (let g = (case truthy_opt topic of Some t \<Rightarrow> send (ToTopic t ev) g0 | None \<Rightarrow> g0) in
      case (jget ev ''turn_id'', jget ev ''event'') of
        (JStr (ch # rest), JStr event) \<Rightarrow>
          (case map_of (gw_pending g) (ch # rest) of
             None \<Rightarrow> g
           | Some p \<Rightarrow>
               if event = ''agent_text_delta'' then g\<lparr>gw_pending := AList.update (ch # rest) (add_delta ev p) (gw_pending g)\<rparr>
               else if event \<in> set [''turn_completed'', ''turn_failed'', ''turn_interrupted''] then
                 send (final_reply ev event p) (g\<lparr>gw_pending := AList.delete (ch # rest) (gw_pending g)\<rparr>)
               else g)
      | _ \<Rightarrow> g)"

definition sse_relay :: "jsval \<Rightarrow> string \<Rightarrow> gw \<Rightarrow> gw" where
  "sse_relay ev i g = g\<lparr>gw_out := gw_out g @ map (\<lambda>n. SseFrame n ev) (case map_of (gw_sse g) i of Some ns \<Rightarrow> ns | None \<Rightarrow> [])\<rparr>"


definition upd_reg :: "(registry \<Rightarrow> registry option) \<Rightarrow> gw \<Rightarrow> gw" where
  "upd_reg f g = g\<lparr>gw_reg := or_same (gw_reg g) (f (gw_reg g))\<rparr>"

definition opt_str :: "string option \<Rightarrow> jsval" where
  "opt_str x = (case x of Some s \<Rightarrow> JStr s | None \<Rightarrow> JUndef)"





definition text_or :: "js_env \<Rightarrow> jsval list \<Rightarrow> string \<Rightarrow> string" where
  "text_or je vs d = js_string je (foldr nullish_or vs (JStr d))"



subsection \<open>Replies\<close>

definition join_obj :: "(string \<times> jsval) list \<Rightarrow> jsval \<Rightarrow> (string \<times> jsval) list \<Rightarrow> jsval" where
  "join_obj a v b = JObj (a @ (case v of JObj fs \<Rightarrow> fs | _ \<Rightarrow> []) @ b)"

definition reply_ok :: "dest \<Rightarrow> string \<Rightarrow> jsval \<Rightarrow> (string \<times> jsval) list \<Rightarrow> gw \<Rightarrow> gw" where
  "reply_ok d schema v extra g = (case d of
      Bus to corr \<Rightarrow> send (ToAgent to (join_obj [(''schema'', JStr schema)] v extra) corr) g
    | Http n \<Rightarrow> send (HttpReply n 200 (join_obj [(''ok'', JBool True), (''schema'', JStr schema)] v extra)) g)"

definition http_err :: "nat \<Rightarrow> string \<Rightarrow> nat \<Rightarrow> gw \<Rightarrow> gw" where
  "http_err n error status g = send (HttpReply n status (JObj [(''ok'', JBool False), (''error'', JStr error)])) g"

definition turn_failed :: "dest \<Rightarrow> string \<Rightarrow> string \<Rightarrow> gw \<Rightarrow> gw" where
  "turn_failed d sid error g = (case d of
      Bus to corr \<Rightarrow> send (ToAgent to (JObj [(''schema'', JStr ''codex.turn.failed.v1''), (''session_id'', if sid = [] then JNull else JStr sid),
                        (''error'', JStr error)]) corr) g
    | Http n \<Rightarrow> http_err n error 400 g)"

definition session_rejected :: "dest \<Rightarrow> string \<Rightarrow> string option \<Rightarrow> gw \<Rightarrow> gw" where
  "session_rejected d reason detail g = (case d of
      Bus to corr \<Rightarrow> send (ToAgent to (JObj [(''schema'', JStr ''codex.session.rejected.v1''), (''reason'', JStr reason),
                        (''detail'', opt_str detail)]) corr) g
    | Http n \<Rightarrow> send (HttpReply n 403 (JObj ([(''ok'', JBool False), (''error'', JStr reason)]
                  @ (case detail of Some x \<Rightarrow> [(''detail'', JStr x)] | None \<Rightarrow> [])))) g)"


subsection \<open>Operations on the turns of a session, cut where they wait\<close>

text \<open>\<open>this.realtime.get(normalizeSessionId(sessionId))\<close>, or the error.\<close>

definition find_session :: "string \<Rightarrow> registry \<Rightarrow> string + rt_session" where
  "find_session raw r = (case normalize_session_id raw of
      None \<Rightarrow> Inl ''bad_session_id''
    | Some i \<Rightarrow> (case get_session i r of None \<Rightarrow> Inl ''session_not_found'' | Some s \<Rightarrow> Inr s))"

definition start_realtime_turn :: "gw_cfg \<Rightarrow> string \<Rightarrow> string \<Rightarrow> string option \<Rightarrow> dest \<Rightarrow> gw \<Rightarrow> gw" where
  "start_realtime_turn c raw txt clientId d g =
     (case find_session raw (gw_reg g) of
        Inl e \<Rightarrow> turn_failed d raw e g
      | Inr s \<Rightarrow>
          if truthy_opt (rs_active_turn_id s) \<noteq> None then turn_failed d raw ''active_turn_exists'' g
          else ask (TurnStart (rs_thread_id s) (truthy_opt clientId) txt (truthy_opt (gc_effort c))) (WaitTurn (rs_session_id s) d) g)"

definition turn_started :: "js_env \<Rightarrow> string \<Rightarrow> dest \<Rightarrow> string + jsval \<Rightarrow> string \<Rightarrow> gw \<Rightarrow> gw" where
  "turn_started je i d answer now g =
     (case answer of
        Inl e \<Rightarrow> turn_failed d i e g
      | Inr res \<Rightarrow>
          (let turnId = text_or je [jget (jget res ''turn'') ''id'', jget res ''turnId''] [] in
           if turnId = [] then turn_failed d i ''turn_start_missing_id'' g
           else
             (let g1 = upd_reg (set_active_turn i turnId Running now) g;
                  g2 = (case d of
                     Bus to corr \<Rightarrow> g1\<lparr>gw_pending := AList.update turnId \<lparr>pt_to = to, pt_corr = corr, pt_sessionId = i, pt_text = []\<rparr> (gw_pending g1)\<rparr>
                   | Http n \<Rightarrow> g1) in
              case get_session i (gw_reg g2) of
                None \<Rightarrow> g2
              | Some s \<Rightarrow> reply_ok d ''codex.turn.started.v1'' (session_public_state s) [(''turn_id'', JStr turnId)] g2)))"

definition steer_realtime_turn :: "string \<Rightarrow> string \<Rightarrow> string option \<Rightarrow> dest \<Rightarrow> string \<Rightarrow> gw \<Rightarrow> gw" where
  "steer_realtime_turn raw txt clientId d now g =
     (case find_session raw (gw_reg g) of
        Inl e \<Rightarrow> turn_failed d raw e g
      | Inr s \<Rightarrow>
          (case truthy_opt (rs_active_turn_id s) of
             None \<Rightarrow> turn_failed d raw ''no_active_turn'' g
           | Some t \<Rightarrow>
               ask (TurnSteer (rs_thread_id s) t (truthy_opt clientId) txt) (WaitSteer (rs_session_id s) raw d)
                 (upd_reg (update_status (rs_session_id s) Steering now) g)))"


definition inject_realtime_items :: "string \<Rightarrow> jsval list \<Rightarrow> dest \<Rightarrow> string \<Rightarrow> gw \<Rightarrow> gw" where
  "inject_realtime_items raw items d now g =
     (case find_session raw (gw_reg g) of
        Inl e \<Rightarrow> turn_failed d raw e g
      | Inr s \<Rightarrow>
          ask (InjectItems (rs_thread_id s) items) (WaitInject (rs_session_id s) raw (length items) d)
            (upd_reg (update_status (rs_session_id s) InjectingContext now) g))"




subsection \<open>Sessions\<close>


definition input_mode :: "js_env \<Rightarrow> jsval \<Rightarrow> string" where
  "input_mode je req = (if jget req ''schema'' = JStr ''codex.session.input.v1'' then text_or je [jget req ''mode''] ''auto'' else ''start_turn'')"

definition agent_prompt :: "gw_cfg \<Rightarrow> string \<Rightarrow> string \<Rightarrow> string option \<Rightarrow> string option \<Rightarrow> string" where
  "agent_prompt c txt requester jobId topic = build_codex_agent_prompt txt
     \<lparr>pc_agentId = gc_agent c, pc_requester = Some requester, pc_jobId = jobId, pc_streamTopic = topic, pc_toolsEnabled = gc_tools c\<rparr>"

text \<open>The part of \<open>onRealtimeInbound\<close> after the session is there.\<close>

definition with_session :: "gw_cfg \<Rightarrow> goal \<Rightarrow> dest \<Rightarrow> rt_session \<Rightarrow> string \<Rightarrow> gw \<Rightarrow> gw" where
  "with_session c goal d s now g =
     (case goal of
        ForCreate \<Rightarrow> reply_ok d ''codex.session.ready.v1'' (session_public_state s) [] g
      | ForInput req \<Rightarrow>
          (let i = rs_session_id s; txt = extract_realtime_text req; mode = input_mode (gc_js c) req; eid = text_field req ''event_id'' in
           if js_trim txt = [] then turn_failed d i ''empty_input'' g
           else if (mode = ''auto'' \<or> mode = ''steer'') \<and> truthy_opt (rs_active_turn_id s) \<noteq> None then steer_realtime_turn i txt eid d now g
           else if mode = ''steer'' then turn_failed d i ''no_active_turn'' g
           else if mode = ''inject'' then inject_realtime_items i [build_injected_text_item txt True] d now g
           else
             start_realtime_turn c i
               (agent_prompt c txt (case d of Bus to _ \<Rightarrow> to | Http _ \<Rightarrow> ''http'') (text_field req ''job_id'') (rs_stream_topic s)) eid d g))"

definition owner_of :: "dest \<Rightarrow> string" where
  "owner_of d = (case d of Bus to _ \<Rightarrow> to | Http _ \<Rightarrow> ''http'')"

definition create_realtime :: "gw_cfg \<Rightarrow> string \<Rightarrow> rt_ctx \<Rightarrow> string \<Rightarrow> dest \<Rightarrow> goal \<Rightarrow> string \<Rightarrow> gw \<Rightarrow> gw" where
  "create_realtime c fresh x threadId d goal now g =
     (case create_session fresh now \<lparr>ca_session_id = rx_sessionId x, ca_thread_id = threadId, ca_thread_key = rx_threadKey x,
             ca_owner = Some (owner_of d), ca_cwd = rx_cwd x, ca_sandbox = rx_sandbox x, ca_approval_policy = rx_policy x,
             ca_stream_topic = rx_topic x\<rparr> (gw_reg g) of
        (Inl e, r) \<Rightarrow> session_rejected d e None (g\<lparr>gw_reg := r\<rparr>)
      | (Inr s, r) \<Rightarrow> with_session c goal d s now (g\<lparr>gw_reg := r\<rparr>))"

definition exec_sandbox :: "gw_cfg \<Rightarrow> string \<Rightarrow> sandbox_mode" where
  "exec_sandbox c sandbox = resolve_codex_execution_sandbox sandbox (gc_exec_sandbox c) (gc_ww_sandbox c)"

definition thread_context :: "gw_cfg \<Rightarrow> string \<Rightarrow> string \<Rightarrow> thread_ctx" where
  "thread_context c sandbox cwd = \<lparr>tx_sandbox = sandbox @ ''->'' @ mode_name (exec_sandbox c sandbox), tx_cwd = cwd\<rparr>"


definition answered_thread :: "jsval \<Rightarrow> string option \<Rightarrow> string" where
  "answered_thread th d = (case nullish_or (jget th ''threadId'') (nullish_or (jget (jget th ''thread'') ''id'') (nullish_or (jget th ''id'') (opt_str d))) of
     JStr t \<Rightarrow> t | _ \<Rightarrow> [])"

definition thread_opened :: "gw_cfg \<Rightarrow> rt_ctx \<Rightarrow> string \<Rightarrow> dest \<Rightarrow> goal \<Rightarrow> string + jsval \<Rightarrow> rat \<Rightarrow> string \<Rightarrow> gw \<Rightarrow> gw" where
  "thread_opened c x fresh d goal answer clock now g =
     (case answer of
        Inl e \<Rightarrow> session_rejected d e None g
      | Inr th \<Rightarrow>
          (case truthy_opt (rx_resume x) of
             Some t \<Rightarrow> create_realtime c fresh x (answered_thread th (Some t)) d goal now g
           | None \<Rightarrow>
               (let t = answered_thread th None in
                create_realtime c fresh x t d goal now
                  (g\<lparr>gw_threads := cache_set (rx_threadKey x) t (thread_context c (rx_sandbox x) (rx_cwd x)) clock (gw_threads g)\<rparr>))))"





subsection \<open>HTTP\<close>

definition is_codex_http_loopback_bind :: "string \<Rightarrow> bool" where
  "is_codex_http_loopback_bind host \<longleftrightarrow> host \<in> set [''127.0.0.1'', ''localhost'', ''::1'', ''[::1]'']"

definition codex_http_gateway_start_allowed :: "string \<Rightarrow> string \<Rightarrow> bool" where
  "codex_http_gateway_start_allowed bind token \<longleftrightarrow> is_codex_http_loopback_bind bind \<or> token \<noteq> []"










subsection \<open>The machine\<close>






subsection \<open>Write permission\<close>

text \<open>A request that opens a session passed its checks: its sender, the time and the Redis of that moment, and the context it was given.\<close>

record admission =
  ad_who :: string
  ad_req :: jsval
  ad_clock :: rat
  ad_redis :: rstate
  ad_ctx :: rt_ctx





text \<open>A session, and a request to open a thread, in the context of an admission.\<close>

definition session_of :: "admission \<Rightarrow> rt_session \<Rightarrow> bool" where
  "session_of w s \<longleftrightarrow>
     (let x = ad_ctx w in
      rs_sandbox s = rx_sandbox x \<and> rs_approval_policy s = rx_policy x \<and> rs_cwd s = rx_cwd x
      \<and> (ad_who w \<noteq> [] \<longrightarrow> rs_owner s = Some (ad_who w)) \<and> (\<forall>k. rx_threadKey x = Some k \<and> k \<noteq> [] \<longrightarrow> rs_thread_key s = Some k))"

fun thread_of :: "gw_cfg \<Rightarrow> admission \<Rightarrow> app_req \<Rightarrow> bool" where
  "thread_of c w (ThreadStart sandbox mode policy cwd) =
     (sandbox = rx_sandbox (ad_ctx w) \<and> mode = exec_sandbox c sandbox \<and> policy = rx_policy (ad_ctx w) \<and> cwd = rx_cwd (ad_ctx w))"
| "thread_of c w (ThreadResume t cwd policy) = (rx_resume (ad_ctx w) = Some t \<and> cwd = rx_cwd (ad_ctx w) \<and> policy = rx_policy (ad_ctx w))"
| "thread_of c w _ = False"

definition opens_thread :: "app_req \<Rightarrow> bool" where
  "opens_thread q = (case q of ThreadStart sandbox mode policy cwd \<Rightarrow> True | ThreadResume t cwd policy \<Rightarrow> True | _ \<Rightarrow> False)"

text \<open>The invariant, relative to a set \<open>W\<close> of admissions.\<close>

definition session_ok :: "admission set \<Rightarrow> rt_session \<Rightarrow> bool" where
  "session_ok W s \<longleftrightarrow> (\<exists>w \<in> W. session_of w s)"

definition request_ok :: "gw_cfg \<Rightarrow> admission set \<Rightarrow> app_req \<Rightarrow> bool" where
  "request_ok c W q \<longleftrightarrow> (opens_thread q \<longrightarrow> (\<exists>w \<in> W. thread_of c w q))"

definition ctx_ok :: "admission set \<Rightarrow> string \<Rightarrow> rt_ctx \<Rightarrow> bool" where
  "ctx_ok W who x \<longleftrightarrow> (\<exists>w \<in> W. ad_who w = who \<and> ad_ctx w = x)"

fun task_ok :: "admission set \<Rightarrow> task \<Rightarrow> bool" where
  "task_ok W (WaitThread x fresh d goal) = ctx_ok W (owner_of d) x"
| "task_ok W _ = True"

definition reg_ok :: "admission set \<Rightarrow> registry \<Rightarrow> bool" where
  "reg_ok W r \<longleftrightarrow> registry_inv r \<and> (\<forall>i s. map_of (rg_sessions r) i = Some s \<longrightarrow> session_ok W s)"

definition gw_inv :: "gw_cfg \<Rightarrow> admission set \<Rightarrow> gw \<Rightarrow> bool" where
  "gw_inv c W g \<longleftrightarrow> reg_ok W (gw_reg g) \<and> list_all (request_ok c W) (gw_asked g) \<and> list_all (task_ok W \<circ> snd) (gw_tasks g)"

lemma request_ok_simps [simp]:
  "request_ok c W (TurnStart t1 u1 v1 w1)" "request_ok c W (TurnSteer t2 u2 v2 w2)" "request_ok c W (InjectItems t3 xs)" "request_ok c W (TurnInterrupt t4 u4)"
  by (simp_all add: request_ok_def opens_thread_def)

lemma gw_inv_simps [simp]:
  "gw_inv c W (send x g) = gw_inv c W g" "gw_inv c W (g\<lparr>gw_out := o'\<rparr>) = gw_inv c W g" "gw_inv c W (g\<lparr>gw_pending := p\<rparr>) = gw_inv c W g"
  "gw_inv c W (g\<lparr>gw_sse := s\<rparr>) = gw_inv c W g" "gw_inv c W (g\<lparr>gw_redis := rs\<rparr>) = gw_inv c W g" "gw_inv c W (g\<lparr>gw_threads := th\<rparr>) = gw_inv c W g"
  "gw_inv c W (ask q t g) \<longleftrightarrow> gw_inv c W g \<and> request_ok c W q \<and> task_ok W t"
  by (auto simp: gw_inv_def send_def ask_def)






lemma stored_id: "registry_inv r \<Longrightarrow> map_of (rg_sessions r) i = Some s \<Longrightarrow> rs_session_id s = i"
  by (auto simp: registry_inv_def)

lemma sessions_drop_turn [simp]: "rg_sessions (drop_turn s r) = rg_sessions r"
  by (simp add: drop_turn_def split: option.split)




lemma bus_relay_inv [simp]: "gw_inv c W (bus_relay ev topic g) = gw_inv c W g"
  by (auto simp: bus_relay_def Let_def split: option.split jsval.split list.split)

lemma sse_relay_inv [simp]: "gw_inv c W (sse_relay ev i g) = gw_inv c W g"
  by (simp add: sse_relay_def)


lemma reply_inv [simp]:
  "gw_inv c W (reply_ok d schema v extra g) = gw_inv c W g" "gw_inv c W (http_err n e st g) = gw_inv c W g"
  "gw_inv c W (turn_failed d sid e g) = gw_inv c W g" "gw_inv c W (session_rejected d reason detail g) = gw_inv c W g"
  by (auto simp: reply_ok_def http_err_def turn_failed_def session_rejected_def split: dest.split)































subsection \<open>Two flaws\<close>

text \<open>A session outlives its warm thread (evicted, too old, or asked for once under another context): the next input starts a new thread,
  is refused with \<open>session_context_mismatch\<close>, and leaves the new thread in the cache, so that every later input is
  refused as well.\<close>

lemma lost_thread_breaks_session:
  assumes "rx_sessionId x = Some raw" "normalize_session_id raw = Some i" "get_session i (gw_reg g) = Some s" "rx_resume x = None"
    "answered_thread th None = t" "t \<noteq> rs_thread_id s"
  shows "thread_opened c x fresh d goal (Inr th) clock now g = session_rejected d ''session_context_mismatch'' None
    (g\<lparr>gw_threads := cache_set (rx_threadKey x) t (thread_context c (rx_sandbox x) (rx_cwd x)) clock (gw_threads g)\<rparr>)"
proof -
  have "create_session fresh now \<lparr>ca_session_id = rx_sessionId x, ca_thread_id = t, ca_thread_key = rx_threadKey x, ca_owner = Some (owner_of d),
      ca_cwd = rx_cwd x, ca_sandbox = rx_sandbox x, ca_approval_policy = rx_policy x, ca_stream_topic = rx_topic x\<rparr> (gw_reg g)
      = (Inl ''session_context_mismatch'', gw_reg g)"
    using assms by (auto simp: create_session_def or_else_def same_context_def get_session_def)
  then show ?thesis using assms by (simp add: thread_opened_def truthy_opt_def create_realtime_def Let_def)
qed

text \<open>The answer of \<open>turn/start\<close> marks the turn active even when its completion was read before: no completion follows that clears
  it, and the session refuses every further turn.\<close>

lemma late_start_reactivates:
  assumes "registry_inv (gw_reg g)" "get_session i (gw_reg g) = Some s" "text_or je [jget (jget res ''turn'') ''id'', jget res ''turnId''] [] = t" "t \<noteq> []"
  shows "map_option rs_active_turn_id (get_session i (gw_reg (turn_started je i (Http n) (Inr res) now g))) = Some (Some t)"
proof -
  have "rs_session_id s = i" using stored_id [OF assms(1)] assms(2) by (simp add: get_session_def)
  then have "map_option rs_active_turn_id (get_session i (gw_reg (upd_reg (set_active_turn i t Running now) g))) = Some (Some t)"
    using assms(2) by (simp add: upd_reg_def set_active_turn_def or_same_def put_rt_session_def get_session_def Let_def)
  then show ?thesis using assms(3,4) by (auto simp: turn_started_def Let_def reply_ok_def send_def split: option.split)
qed

lemma active_turn_refuses:
  assumes "find_session raw (gw_reg g) = Inr s" "rs_active_turn_id s = Some t" "t \<noteq> []"
  shows "start_realtime_turn c raw txt eid d g = turn_failed d raw ''active_turn_exists'' g"
  using assms by (simp add: start_realtime_turn_def truthy_opt_def)

end
