(* ===== verification/Codex_Jobs.thy ===== *)
theory Codex_Jobs
  imports Output_Transport Codex_Turns Codex_Tools Build_Authz
begin

text \<open>
  The jobs of the Codex gateway, src/codex_gateway.ts: what an inbound message is, the queue of peer messages, the admission of a job and
  the reply after its turn. Prompts and outputs are texts of Unicode scalar values as in the transport; identifiers and errors
  are strings. \<open>JSON.parse\<close> and the size of a body in JSON are parameters, and so are the answers of Redis and of the
  channel.
\<close>

subsection \<open>Inbound messages\<close>

datatype inbound =
    Ignored
  | ApprovalDecision jsval jsval
  | PeerMessage
  | RealtimeRequest jsval
  | JobRequest jsval bool

text \<open>\<open>onInbound\<close> up to the job; \<open>fresh\<close> is the id made for a plain prompt, \<open>schemas\<close> decides on realtime schemas.\<close>

definition classify_inbound :: "(string \<Rightarrow> jsval option) \<Rightarrow> (jsval \<Rightarrow> bool) \<Rightarrow> string \<Rightarrow> string \<Rightarrow> jsval \<Rightarrow> inbound" where
  "classify_inbound parse realtime fresh content attrs =
     (if jget attrs ''feed'' \<noteq> JStr ''a2a'' \<or> jget attrs ''kind'' \<noteq> JStr ''direct'' then Ignored
      else
        (let parsed = (case parse content of Some v \<Rightarrow> v | None \<Rightarrow> JNull); schema = jget parsed ''schema'' in
         if schema = JStr ''codex.approval.decision.v1'' \<and> truthy (jget parsed ''approval_id'') then
           ApprovalDecision (jget parsed ''approval_id'') (jget parsed ''decision'')
         else if jget attrs ''type'' \<noteq> JStr ''request'' then PeerMessage
         else if realtime schema then RealtimeRequest parsed
         else if schema = JStr ''codex.job.request.v1'' then JobRequest parsed True
         else JobRequest (JObj [(''job_id'', JStr fresh), (''input'', JArr [JObj [(''type'', JStr ''text''), (''text'', JStr content)]]),
                (''stream_topic'', JNull), (''sandbox'', JStr ''read-only'')]) False))"

subsection \<open>Peer messages\<close>

record peer_event =
  pe_from :: string
  pe_type :: string
  pe_body :: utext
  pe_id :: "string option"
  pe_corr :: "string option"
  pe_ts :: "string option"

definition opt_text :: "js_env \<Rightarrow> jsval \<Rightarrow> string option" where
  "opt_text je v = (if truthy v then Some (js_string je v) else None)"

definition record_peer_inbox_event :: "js_env \<Rightarrow> nat \<Rightarrow> utext \<Rightarrow> jsval \<Rightarrow> peer_event list \<Rightarrow> peer_event list" where
  "record_peer_inbox_event je maxi content attrs box =
     (if maxi = 0 then box
      else
        (let ev = \<lparr>pe_from = js_string je (nullish_or (jget attrs ''from'') (JStr ''unknown'')),
                   pe_type = js_string je (nullish_or (jget attrs ''type'') (JStr ''msg'')), pe_body = content,
                   pe_id = opt_text je (jget attrs ''id''), pe_corr = opt_text je (jget attrs ''corr''), pe_ts = opt_text je (jget attrs ''ts'')\<rparr> in
         last_n maxi (box @ [ev])))"

definition named :: "string \<Rightarrow> string option \<Rightarrow> string list" where
  "named k v = (case v of Some (c # s) \<Rightarrow> [k @ ''='' @ c # s] | _ \<Rightarrow> [])"

definition nl :: nat where "nl = 10"

definition peer_line :: "int \<Rightarrow> peer_event \<Rightarrow> utext" where
  "peer_line maxBytes ev =
     (let body = truncate_to_bytes (pe_body ev) maxBytes;
          meta = join_with '' '' ([''from='' @ pe_from ev, ''type='' @ pe_type ev] @ named ''id'' (pe_id ev) @ named ''corr'' (pe_corr ev) @ named ''ts'' (pe_ts ev));
          suffix = (if tr_truncated body
            then nl # codes (''  [body truncated '' @ nat_str (tr_originalBytes body) @ ''->'' @ nat_str (tr_emittedBytes body) @ ''B]'') else []) in
      codes (''- '' @ meta) @ [nl] @ codes ''  body: '' @ tr_text body @ suffix)"

fun ujoin :: "utext \<Rightarrow> utext list \<Rightarrow> utext" where
  "ujoin sep [] = []"
| "ujoin sep [x] = x"
| "ujoin sep (x # y # ys) = x @ sep @ ujoin sep (y # ys)"

definition build_peer_inbox_context :: "peer_event list \<Rightarrow> int \<Rightarrow> utext" where
  "build_peer_inbox_context events maxBodyBytes =
     (if events = [] then []
      else ujoin [nl]
        ([codes ''Recent A2A inbox events received asynchronously since the previous turn.'',
          codes ''Treat them as advisory peer context; do not mechanically reply.''] @ map (peer_line maxBodyBytes) events))"

definition drain_peer_inbox_context :: "int \<Rightarrow> peer_event list \<Rightarrow> utext \<times> peer_event list" where
  "drain_peer_inbox_context maxBytes box = (build_peer_inbox_context box maxBytes, [])"

subsection \<open>Admission\<close>

record job_cfg =
  jc_agent :: string
  jc_write :: write_cfg
  jc_signing :: bool
  jc_fs :: file_system
  jc_budget_max :: jsnum
  jc_js :: js_env
  jc_sha :: "utext \<Rightarrow> string"

text \<open>The texts of the input, and the reference; \<open>None\<close> when \<open>input\<close> is truthy and not an array, which throws.\<close>

definition inline_input :: "js_env \<Rightarrow> jsval \<Rightarrow> utext option" where
  "inline_input je job =
     (let item = (\<lambda>i. js_string je (nullish_or (jget i ''text'') (JStr []))) in
      case jget job ''input'' of
        JArr xs \<Rightarrow> Some (codes (js_trim (join_with [CHR 0x0A] (map item xs))))
      | v \<Rightarrow> if truthy v then None else Some [])"

definition input_ref :: "js_env \<Rightarrow> jsval \<Rightarrow> result_msg option" where
  "input_ref je job =
     (let ref = jget job ''input_ref'' in
      if is_nullish ref then None
      else Some \<lparr>ms_result_ref = (case jget ref ''result_ref'' of JStr s \<Rightarrow> Some s | _ \<Rightarrow> None),
        ms_sha256 = (if is_nullish (jget ref ''sha256'') then None else Some (js_string je (jget ref ''sha256''))),
        ms_len = (case jget ref ''len'' of JNum n \<Rightarrow> Some n | _ \<Rightarrow> None), ms_output = None\<rparr>)"

datatype job_body =
    Accepted string "string option" jsval "jsnum option"
  | Rejected string "string option" string string
  | BudgetShed string "string option" jsnum
  | JobFailed string "string option" string
  | TimedOut string "string option" nat utext
  | TurnFailed string "string option" string jsval utext
  | CompletedJob string "string option" utext extra
  | PlainText utext

text \<open>What runs once the job is admitted.\<close>

record job_run =
  jr_threadKey :: "string option"
  jr_sandbox :: string
  jr_policy :: string
  jr_cwd :: string
  jr_prompt :: utext

datatype admission = Crash | Refused job_body | Admitted job_body job_run | Partial job_body job_body

definition num_ge :: "jsnum \<Rightarrow> jsnum \<Rightarrow> bool" where
  "num_ge a b \<longleftrightarrow> a \<noteq> NaN \<and> b \<noteq> NaN \<and> \<not> num_less a b"

definition job_text :: "jsval \<Rightarrow> string \<Rightarrow> string option" where
  "job_text job k = (case jget job k of JStr s \<Rightarrow> Some s | _ \<Rightarrow> None)"

definition budget_max :: "job_cfg \<Rightarrow> jsval \<Rightarrow> jsnum" where
  "budget_max c job = (case jget (jget job ''budget_policy'') ''max_primary_used_percent'' of JNum n \<Rightarrow> n | _ \<Rightarrow> jc_budget_max c)"

definition job_sandbox :: "jsval \<Rightarrow> string" where
  "job_sandbox job = (if jget job ''sandbox'' = JStr ''workspace-write'' then ''workspace-write'' else ''read-only'')"

definition job_policy :: "bool \<Rightarrow> bool \<Rightarrow> jsval \<Rightarrow> string" where
  "job_policy isJob writeEnabled job =
     (if isJob then (case job_text job ''approval_policy'' of Some p \<Rightarrow> p | None \<Rightarrow> ''never'')
      else default_plain_request_approval_policy writeEnabled)"

definition job_cwd_of :: "bool \<Rightarrow> jsval \<Rightarrow> string" where
  "job_cwd_of isJob job = (case job_text job ''cwd'' of Some (c # s) \<Rightarrow> if isJob then c # s else ''/tmp'' | _ \<Rightarrow> ''/tmp'')"

definition job_id_of :: "js_env \<Rightarrow> string \<Rightarrow> jsval \<Rightarrow> string" where
  "job_id_of je fresh job = (if truthy (jget job ''job_id'') then js_string je (jget job ''job_id'') else fresh)"

text \<open>The write gate: the detail of the refusal, or the thread key and the directory.\<close>

definition write_gate :: "job_cfg \<Rightarrow> jsval \<Rightarrow> string \<Rightarrow> string \<Rightarrow> string \<Rightarrow> rat \<Rightarrow> rstate \<Rightarrow> (string + string option \<times> string) \<times> rstate" where
  "write_gate c job sender policy cwd now rs =
     (if job_sandbox job \<noteq> ''workspace-write'' then (Inr (job_text job ''thread_key'', cwd), rs)
      else
        (case validate_workspace_write_job (jget job ''thread_key'') policy (jc_signing c) of
           Inl detail \<Rightarrow> (Inl detail, rs)
         | Inr key \<Rightarrow>
             (case authorize_write_job (jc_fs c) \<lparr>requesterId = sender, job_cwd = cwd, job_threadKey = Some key\<rparr> (jc_write c) now rs of
                (Inl reason, rs') \<Rightarrow> (Inl reason, rs')
              | (Inr realpath, rs') \<Rightarrow> (Inr (Some key, realpath), rs'))))"

definition shed :: "job_cfg \<Rightarrow> jsval \<Rightarrow> jsnum option \<Rightarrow> jsnum option" where
  "shed c job used = (case used of Some u \<Rightarrow> if num_ge u (budget_max c job) then Some u else None | None \<Rightarrow> None)"

text \<open>\<open>get\<close> answers \<open>GET\<close> of a blob, \<open>used\<close> is the used budget if the app-server told it.\<close>

definition admit_job ::
  "job_cfg \<Rightarrow> (string \<Rightarrow> utext option option) \<Rightarrow> string \<Rightarrow> string \<Rightarrow> jsval \<Rightarrow> bool \<Rightarrow> string \<Rightarrow> jsnum option \<Rightarrow> rat \<Rightarrow> rstate \<Rightarrow> admission \<times> rstate" where
  "admit_job c get fresh content job isJob sender used now rs =
     (case inline_input (jc_js c) job of
        None \<Rightarrow> (Crash, rs)
      | Some inline \<Rightarrow>
          (let i = job_id_of (jc_js c) fresh job; tid = job_text job ''triage_id'';
               (resolved, miss) = resolve_job_input (jc_sha c) get inline (input_ref (jc_js c) job);
               prompt = (if resolved = [] then codes content else resolved);
               policy = job_policy isJob (allowWrite (jc_write c)) job;
               accepted = Accepted i tid (nullish_or (jget job ''stream_topic'') JNull) used in
           if \<not> approval_policy_allowed policy (allowWrite (jc_write c)) then
             (Refused (Rejected i tid ''write-unauthorized'' ''approval-policy-not-never''), rs)
           else
             (case write_gate c job sender policy (job_cwd_of isJob job) now rs of
                (Inl detail, rs') \<Rightarrow> (Refused (Rejected i tid ''write-unauthorized'' detail), rs')
              | (Inr (key, dir), rs') \<Rightarrow>
                  (case (shed c job used, miss) of
                     (Some u, _) \<Rightarrow> (Refused (BudgetShed i tid u), rs')
                   | (None, Some reason) \<Rightarrow>
                       if isJob then (Partial accepted (JobFailed i tid (''input_blob_'' @ reason)), rs')
                       else (Admitted accepted \<lparr>jr_threadKey = key, jr_sandbox = job_sandbox job, jr_policy = policy, jr_cwd = dir, jr_prompt = prompt\<rparr>, rs')
                   | (None, None) \<Rightarrow>
                       (Admitted accepted \<lparr>jr_threadKey = key, jr_sandbox = job_sandbox job, jr_policy = policy, jr_cwd = dir, jr_prompt = prompt\<rparr>, rs')))))"

definition job_prompt :: "string \<Rightarrow> bool \<Rightarrow> utext \<Rightarrow> utext \<Rightarrow> utext \<Rightarrow> jsval \<Rightarrow> string \<Rightarrow> string \<Rightarrow> utext" where
  "job_prompt agent tools preamble inbox prompt job i sender =
     (let full = ujoin [nl, nl] (filter (\<lambda>t. t \<noteq> []) [preamble, inbox, prompt]);
          ctx = \<lparr>pc_agentId = agent, pc_requester = Some sender, pc_jobId = Some i, pc_streamTopic = job_text job ''stream_topic'', pc_toolsEnabled = tools\<rparr> in
      if tools then codes (prompt_header ctx) @ full else full)"

subsection \<open>The reply after the turn\<close>

definition partial_output :: "nat \<Rightarrow> utext \<Rightarrow> utext" where
  "partial_output cap txt =
     (let budget = max 0 (min 2048 (int cap - 512)) in if 0 < budget then tr_text (truncate_to_bytes txt budget) else [])"

definition TRUNCATED_MARK :: utext where
  "TRUNCATED_MARK = [nl, 8230] @ codes ''[truncated]''"

text \<open>The reply to a plain prompt: the text itself, cut to the limit.\<close>

definition plain_reply :: "nat \<Rightarrow> utext \<Rightarrow> utext" where
  "plain_reply cap full =
     (if utf8_byte_length full \<le> cap then full
      else
        (let mb = utf8_byte_length TRUNCATED_MARK in
         if mb \<le> cap then tr_text (truncate_to_bytes full (int cap - int mb)) @ TRUNCATED_MARK else tr_text (truncate_to_bytes full (int cap))))"

text \<open>The body of a completed job; \<open>gen\<close>, \<open>down\<close>, \<open>expires\<close> are those of \<open>putBlob\<close>. The third component: the blob put.\<close>

definition completed_body ::
  "(job_body \<Rightarrow> nat) \<Rightarrow> (utext \<Rightarrow> string) \<Rightarrow> string \<Rightarrow> (nat \<Rightarrow> string) \<Rightarrow> (nat \<Rightarrow> bool) \<Rightarrow> nat \<Rightarrow> string \<Rightarrow> string option \<Rightarrow> utext \<Rightarrow> blobs
   \<Rightarrow> job_body \<times> blobs \<times> blob_ref option" where
  "completed_body bsize sha expires gen down cap i tid txt db =
     (let wrap = CompletedJob i tid;
          truncated = (\<lambda>pl. case pl of Truncate t n e \<Rightarrow> wrap t (TruncatedExtra n e) | _ \<Rightarrow> wrap [] NoExtra) in
      case plan_reply wrap bsize cap PREVIEW_BYTES True txt of
        Inline t \<Rightarrow> (wrap t NoExtra, db, None)
      | ClaimCheck p n \<Rightarrow>
          (case put_blob sha expires gen down txt db of
             (Inr ref, db') \<Rightarrow> (wrap p (ClaimExtra ref), db', Some ref)
           | (Inl e, db') \<Rightarrow> (truncated (fit_truncate wrap bsize cap txt), db', None))
      | Truncate t n e \<Rightarrow> (wrap t (TruncatedExtra n e), db, None))"

record reply_env =
  re_bsize :: "job_body \<Rightarrow> nat"
  re_sha :: "utext \<Rightarrow> string"
  re_expires :: string
  re_gen :: "nat \<Rightarrow> string"
  re_down :: "nat \<Rightarrow> bool"
  re_cap :: nat
  re_js :: js_env
  re_timeout_ms :: nat

text \<open>What is sent after the turn or the error that ended it, \<open>sent\<close> being the channel's answer to each body, and the blobs left. A refused reply takes its
  blob with it.\<close>

definition finish_job :: "reply_env \<Rightarrow> (job_body \<Rightarrow> bool) \<Rightarrow> bool \<Rightarrow> string \<Rightarrow> string option \<Rightarrow> string + turn_result \<Rightarrow> blobs \<Rightarrow> job_body list \<times> blobs" where
  "finish_job e sent isJob i tid outcome db =
     (case outcome of
        Inl err \<Rightarrow> ([JobFailed i tid err], db)
      | Inr r \<Rightarrow>
     (let txt = codes (tres_text r); cap = re_cap e; part = partial_output cap txt in
      if tres_timedOut r then
        (if isJob then ([TimedOut i tid (re_timeout_ms e) part], db)
         else ([PlainText (codes (''(error: turn_timeout after '' @ nat_str (re_timeout_ms e) @ ''ms)'') @ (if part = [] then [] else [nl, nl] @ part))], db))
      else if tres_status r \<noteq> JStr ''completed'' then
        (let detail = (case tres_error r of Some d \<Rightarrow> d | None \<Rightarrow> ''codex_turn_'' @ js_string (re_js e) (tres_status r)) in
         if isJob then ([TurnFailed i tid detail (tres_status r) part], db)
         else ([PlainText (codes (''(error: '' @ detail @ '')'') @ (if txt = [] then [] else [nl, nl] @ txt))], db))
      else if isJob then
        (case completed_body (re_bsize e) (re_sha e) (re_expires e) (re_gen e) (re_down e) cap i tid txt db of
           (b, db', ref) \<Rightarrow>
             if sent b then ([b], db')
             else ([b, JobFailed i tid ''reply_too_large''], (case ref of Some x \<Rightarrow> AList.delete (rf_result_ref x) db' | None \<Rightarrow> db')))
      else
        (let b = PlainText (plain_reply cap (if txt = [] then codes ''(no output, status=completed)'' else txt)) in
         if sent b then ([b], db) else ([b, PlainText (codes ''(error: reply_too_large)'')], db))))"

text \<open>The deltas sent to the topic of a job, numbered, with the marker of the end.\<close>

definition job_deltas :: "string list \<Rightarrow> (nat \<times> string \<times> bool) list" where
  "job_deltas ds = zip [0..<length ds] (map (\<lambda>d. (d, False)) ds) @ [(length ds, [], True)]"

subsection \<open>Properties\<close>

lemma write_gate_ok:
  assumes "write_gate c job sender policy cwd now (r, flt) = (Inr (key, dir), rs')"
  shows "if job_sandbox job = ''workspace-write''
    then jc_signing c \<and> policy = ''never'' \<and> allowWrite (jc_write c) \<and> sender \<in> set (allowlist (jc_write c))
      \<and> canonicalize_cwd (jc_fs c) cwd (cwdRoots (jc_write c)) = Inr dir
      \<and> (\<exists>n. normalize_registered_realpath dir = Some n \<and> registered_at now n r)
      \<and> (\<exists>k. key = Some k \<and> owners (fst rs') (owner_key (js_trim k)) = Some sender)
    else key = job_text job ''thread_key'' \<and> dir = cwd"
proof (cases "job_sandbox job = ''workspace-write''")
  case True
  obtain k where v: "validate_workspace_write_job (jget job ''thread_key'') policy (jc_signing c) = Inr k" "key = Some k"
    and auth: "authorize_write_job (jc_fs c) \<lparr>requesterId = sender, job_cwd = cwd, job_threadKey = Some k\<rparr> (jc_write c) now (r, flt) = (Inr dir, rs')"
    using assms True by (auto simp: write_gate_def split: sum.splits prod.splits)
  obtain r' flt' where rs': "rs' = (r', flt')" by fastforce
  have "jc_signing c" "policy = ''never''" using v(1) by (auto simp: validate_workspace_write_job_def split: if_splits)
  then show ?thesis using True v(2) authorize_write_job_ok [OF auth [unfolded rs']] rs' by auto
qed (use assms in \<open>simp add: write_gate_def\<close>)

text \<open>C5. The gateway runs a job only as far as it is allowed to: an admitted workspace-write job comes signed, with policy never, from a
  requester on the allowlist, in a registered directory below an allowed root and under a thread key the requester owns; on a
  write-enabled gateway every admitted job has policy never; the used budget was below the job's limit; and a prompt
  sent by reference is the blob whose digest the request names, never the preview in its place.\<close>

theorem admitted_job_is_authorized:
  assumes "admit_job c get fresh content job isJob sender used now (r, flt) = (Admitted a j, rs')"
  shows "(allowWrite (jc_write c) \<longrightarrow> jr_policy j = ''never'')
    \<and> (jr_sandbox j = ''workspace-write'' \<longrightarrow>
        jc_signing c \<and> jr_policy j = ''never'' \<and> sender \<in> set (allowlist (jc_write c))
        \<and> canonicalize_cwd (jc_fs c) (job_cwd_of isJob job) (cwdRoots (jc_write c)) = Inr (jr_cwd j)
        \<and> (\<exists>n. normalize_registered_realpath (jr_cwd j) = Some n \<and> registered_at now n r)
        \<and> (\<exists>k. jr_threadKey j = Some k \<and> owners (fst rs') (owner_key (js_trim k)) = Some sender))
    \<and> (case used of Some u \<Rightarrow> \<not> num_ge u (budget_max c job) | None \<Rightarrow> True)
    \<and> (isJob \<longrightarrow> (case input_ref (jc_js c) job of
          Some m \<Rightarrow> ms_result_ref m \<in> {None, Some []}
            \<or> (\<exists>txt. ms_sha256 m = Some (jc_sha c txt) \<and> jr_prompt j = (if txt = [] then codes content else txt))
        | None \<Rightarrow> True))"
proof -
  let ?pol = "job_policy isJob (allowWrite (jc_write c)) job"
  obtain inline where inl: "inline_input (jc_js c) job = Some inline" using assms by (auto simp: admit_job_def split: option.splits)
  obtain resolved miss where res: "resolve_job_input (jc_sha c) get inline (input_ref (jc_js c) job) = (resolved, miss)" by fastforce
  obtain key dir where gate: "write_gate c job sender ?pol (job_cwd_of isJob job) now (r, flt) = (Inr (key, dir), rs')"
    and pol: "approval_policy_allowed ?pol (allowWrite (jc_write c))" and sh: "shed c job used = None" and miss: "miss = None \<or> \<not> isJob"
    and j: "j = \<lparr>jr_threadKey = key, jr_sandbox = job_sandbox job, jr_policy = ?pol, jr_cwd = dir,
              jr_prompt = (if resolved = [] then codes content else resolved)\<rparr>"
    using assms inl res by (auto simp: admit_job_def Let_def split: if_splits sum.splits prod.splits option.splits)
  have "case used of Some u \<Rightarrow> \<not> num_ge u (budget_max c job) | None \<Rightarrow> True" using sh by (auto simp: shed_def split: option.splits if_splits)
  moreover have "isJob \<longrightarrow> (case input_ref (jc_js c) job of
          Some m \<Rightarrow> ms_result_ref m \<in> {None, Some []}
            \<or> (\<exists>txt. ms_sha256 m = Some (jc_sha c txt) \<and> jr_prompt j = (if txt = [] then codes content else txt))
        | None \<Rightarrow> True)"
    using res miss j
    by (auto simp: resolve_job_input_def get_blob_def split: option.splits list.splits sum.splits if_splits)
  ultimately show ?thesis using write_gate_ok [OF gate] pol j by (auto simp: approval_policy_allowed_def)
qed

definition toy_job_cfg :: job_cfg where
  "toy_job_cfg = \<lparr>jc_agent = ''gw'', jc_write = sample_wcfg, jc_signing = True, jc_fs = sample_fs, jc_budget_max = Fin 92,
     jc_js = \<lparr>je_num_text = (\<lambda>_. ''0''), je_to_number = (\<lambda>_. NaN), je_date_parse = (\<lambda>_. None), je_iso = (\<lambda>_. [])\<rparr>, jc_sha = (\<lambda>_. ''d'')\<rparr>"

definition toy_job :: jsval where
  "toy_job = JObj [(''schema'', JStr ''codex.job.request.v1''), (''job_id'', JStr ''j1''), (''sandbox'', JStr ''workspace-write''),
     (''thread_key'', JStr '' t1 ''), (''cwd'', JStr ''/w/./a''), (''input'', JArr [JObj [(''text'', JStr ''fix it'')]])]"

lemma toy_gate:
  "\<exists>rs. authorize_write_job sample_fs \<lparr>requesterId = ''pm'', job_cwd = ''/w/./a'', job_threadKey = Some ''t1''\<rparr> sample_wcfg 0 (sample_redis, [Fine])
     = (Inr ''/w/a'', rs)"
proof -
  have "fst (authorize_write_job sample_fs \<lparr>requesterId = ''pm'', job_cwd = ''/w/./a'', job_threadKey = Some ''t1''\<rparr> sample_wcfg 0 (sample_redis, [Fine]))
     = Inr ''/w/a''"
    by (simp add: authorize_write_job_def sample_fs_def sample_wcfg_def sample_redis_def
        canonicalize_cwd_def is_absolute_def has_traversal_segment_def path_normalize_def segs_def dot_def
        dotdot_def canonical_root_def is_under_root_def path_relative_def starts_with_def
        is_cwd_registered_def normalize_registered_realpath_def redis_send_def redis_cmds claim_thread_key_def
        js_eval List.map_filter_def Let_def)
  then show ?thesis by (metis prod.exhaust_sel)
qed

lemma toy_admitted:
  "\<exists>a j rs. admit_job toy_job_cfg (\<lambda>_. None) ''f'' '''' toy_job True ''pm'' (Some (Fin 10)) 0 (sample_redis, [Fine]) = (Admitted a j, rs)
     \<and> jr_sandbox j = ''workspace-write'' \<and> jr_cwd j = ''/w/a''"
proof -
  obtain rs where rs: "authorize_write_job sample_fs \<lparr>requesterId = ''pm'', job_cwd = ''/w/./a'', job_threadKey = Some ''t1''\<rparr> sample_wcfg 0
      (sample_redis, [Fine]) = (Inr ''/w/a'', rs)" using toy_gate by blast
  have flds: "inline_input (jc_js toy_job_cfg) toy_job = Some (codes ''fix it'')" "input_ref (jc_js toy_job_cfg) toy_job = None"
    "job_sandbox toy_job = ''workspace-write''" "job_policy True True toy_job = ''never''" "job_cwd_of True toy_job = ''/w/./a''"
    "shed toy_job_cfg toy_job (Some (Fin 10)) = None" "validate_workspace_write_job (jget toy_job ''thread_key'') ''never'' True = Inr ''t1''"
    by code_simp+
  have cfg: "jc_write toy_job_cfg = sample_wcfg" "jc_signing toy_job_cfg" "jc_fs toy_job_cfg = sample_fs" "allowWrite sample_wcfg"
    by (simp_all add: toy_job_cfg_def sample_wcfg_def)
  show ?thesis using rs flds cfg
    by (auto simp: admit_job_def resolve_job_input_def approval_policy_allowed_def write_gate_def Let_def)
qed

theorem admitted_job_is_authorized_witness:
  "\<exists>a j rs. admit_job toy_job_cfg (\<lambda>_. None) ''f'' '''' toy_job True ''pm'' (Some (Fin 10)) 0 (sample_redis, [Fine]) = (Admitted a j, rs)
     \<and> jr_policy j = ''never'' \<and> canonicalize_cwd sample_fs ''/w/./a'' (cwdRoots sample_wcfg) = Inr (jr_cwd j)"
proof -
  obtain a j rs where adm: "admit_job toy_job_cfg (\<lambda>_. None) ''f'' '''' toy_job True ''pm'' (Some (Fin 10)) 0 (sample_redis, [Fine]) = (Admitted a j, rs)"
    "jr_sandbox j = ''workspace-write''" using toy_admitted by blast
  have cfg: "jc_write toy_job_cfg = sample_wcfg" "jc_fs toy_job_cfg = sample_fs" "job_cwd_of True toy_job = ''/w/./a''"
    by (simp_all add: toy_job_cfg_def) code_simp
  show ?thesis using adm admitted_job_is_authorized [OF adm(1)] cfg by auto
qed











text \<open>A failed turn of a plain prompt is answered with the error and the whole text, of whatever length: the channel refuses what is over
  its limit, nothing else is sent, and the requester never hears of it.\<close>

lemma long_plain_failure_is_lost:
  assumes "\<not> tres_timedOut r" "tres_status r = JStr ''failed''" "tres_error r = Some d" "tres_text r \<noteq> []"
  shows "fst (finish_job e sent False i tid (Inr r) db) = [PlainText (codes (''(error: '' @ d @ '')'') @ [nl, nl] @ codes (tres_text r))]"
  using assms by (simp add: finish_job_def Let_def codes_def)

text \<open>What was streamed is the output of the turn, and the deltas are numbered from 0.\<close>

lemma deltas_make_output:
  assumes "turn_feeds je stringify ms turn_new = (t, ds)"
  shows "concat (map (fst \<circ> snd) (job_deltas ds)) = tn_text t \<and> map fst (job_deltas ds) = [0..<Suc (length ds)]"
proof -
  have "map (fst \<circ> snd) (zip [0..<length ds] (map (\<lambda>d. (d, False)) ds)) = ds"
    by (metis (no_types, lifting) comp_apply length_map list.map_comp map_fst_zip map_idI map_snd_zip length_upt diff_zero fst_conv map_map)
  then show ?thesis using turn_feeds_text [OF assms] by (simp add: job_deltas_def turn_new_def)
qed

end
