(* ===== verification/Fleet_Spec.thy ===== *)
theory Fleet_Spec
  imports Paths
begin

text \<open>
  The fleet specification of the orchestrator, src/a2a_fleet_orchestrator.ts: topic tokens, validation, the run plan, the canary slice and
  the conversion of legacy files. A specification is a JSON value, since the code checks and then casts it. The root of the
  work trees is a parameter, and so are \<open>String(v)\<close> and \<open>JSON.stringify\<close>.
\<close>

subsection \<open>Topic tokens\<close>

definition dash :: char where "dash = CHR ''-''"

text \<open>Runs of characters outside \<open>[a-z0-9-]\<close> and runs of dashes both become one dash.\<close>

fun collapse :: "string \<Rightarrow> string" where
  "collapse [] = []"
| "collapse (c # cs) =
     (let d = (if token_char c then c else dash) in
      case collapse cs of
        [] \<Rightarrow> [d]
      | e # es \<Rightarrow> if d = dash \<and> e = dash then e # es else d # e # es)"

definition strip_head_dash :: "string \<Rightarrow> string" where
  "strip_head_dash s = (case s of c # cs \<Rightarrow> if c = dash then cs else s | [] \<Rightarrow> [])"

definition strip_last_dash :: "string \<Rightarrow> string" where
  "strip_last_dash s = (if s \<noteq> [] \<and> last s = dash then butlast s else s)"

definition topic_token :: "string list \<Rightarrow> string" where
  "topic_token parts =
     (let joined = js_lower (join_with ''-'' (filter (\<lambda>p. p \<noteq> []) parts));
          t = strip_last_dash (take 64 (strip_last_dash (strip_head_dash (collapse joined)))) in
      if t = [] then ''fleet'' else t)"

subsection \<open>Validation\<close>

type_synonym issue = "string \<times> string"

definition as_record :: "jsval \<Rightarrow> jsval option" where
  "as_record v = (case v of JObj _ \<Rightarrow> Some v | _ \<Rightarrow> None)"

definition non_empty_string :: "jsval \<Rightarrow> bool" where
  "non_empty_string v = (case v of JStr s \<Rightarrow> js_trim s \<noteq> [] | _ \<Rightarrow> False)"

definition string_value :: "jsval \<Rightarrow> string option" where
  "string_value v = (case v of JStr s \<Rightarrow> Some s | _ \<Rightarrow> None)"

definition absolute_path :: "jsval \<Rightarrow> bool" where
  "absolute_path v = (case v of JStr s \<Rightarrow> starts_with ''/'' s \<and> 1 < length s | _ \<Rightarrow> False)"

definition parse_runtime :: "jsval \<Rightarrow> string option" where
  "parse_runtime v = (if v = JStr ''codex'' \<or> v = JStr ''claude-live'' then string_value v else None)"

definition parse_provider :: "jsval \<Rightarrow> string option" where
  "parse_provider v = (if v \<in> {JStr ''docker-codex'', JStr ''tmux-codex'', JStr ''tmux-claude-live''} then string_value v else None)"

definition provider_for_runtime :: "string \<Rightarrow> string" where
  "provider_for_runtime r = (if r = ''claude-live'' then ''tmux-claude-live'' else ''tmux-codex'')"

definition provider_matches_runtime :: "string \<Rightarrow> string \<Rightarrow> bool" where
  "provider_matches_runtime p r \<longleftrightarrow> (if r = ''claude-live'' then p = ''tmux-claude-live'' else p = ''tmux-codex'' \<or> p = ''docker-codex'')"

definition issue_if :: "bool \<Rightarrow> string \<Rightarrow> string \<Rightarrow> issue list" where
  "issue_if b path msg = (if b then [(path, msg)] else [])"

definition mismatch_issue :: "string \<Rightarrow> string option \<Rightarrow> string option \<Rightarrow> issue list" where
  "mismatch_issue path runtime provider =
     (case (runtime, provider) of
        (Some r, Some p) \<Rightarrow> issue_if (\<not> provider_matches_runtime p r) path (''provider '' @ p @ '' does not match runtime '' @ r)
      | _ \<Rightarrow> [])"

definition base_issues :: "jsval option \<Rightarrow> issue list" where
  "base_issues base =
     (case base of
        None \<Rightarrow> [(''base'', ''must be an object'')]
      | Some b \<Rightarrow>
          issue_if (\<not> non_empty_string (jget b ''repo'')) ''base.repo'' ''must be a non-empty string''
          @ issue_if (\<not> absolute_path (jget b ''cwd'')) ''base.cwd'' ''must be an absolute path''
          @ issue_if (jget b ''cwd'' = JStr ''/tmp'') ''base.cwd'' ''must not default to /tmp'')"

definition topic_issue :: "js_env \<Rightarrow> jsval \<Rightarrow> string \<Rightarrow> issue list" where
  "topic_issue je d field =
     issue_if (\<not> is_nullish (jget d field) \<and> \<not> is_token (js_string je (jget d field))) (''defaults.'' @ field) ''must be a valid A2A topic token''"

definition defaults_issues :: "js_env \<Rightarrow> jsval option \<Rightarrow> issue list" where
  "defaults_issues je defaults =
     (case defaults of
        None \<Rightarrow> [(''defaults'', ''must be an object'')]
      | Some d \<Rightarrow>
          (let r = parse_runtime (jget d ''runtime''); p = parse_provider (jget d ''provider'') in
           issue_if (r = None) ''defaults.runtime'' ''must be codex or claude-live''
           @ issue_if (\<not> is_nullish (jget d ''provider'') \<and> p = None) ''defaults.provider'' ''must be docker-codex, tmux-codex, or tmux-claude-live''
           @ mismatch_issue ''defaults.provider'' r p
           @ issue_if (\<not> is_nullish (jget d ''approval_policy'') \<and> jget d ''approval_policy'' \<noteq> JStr ''never'') ''defaults.approval_policy'' ''must be never''
           @ issue_if (\<not> is_nullish (jget d ''sandbox'') \<and> jget d ''sandbox'' \<noteq> JStr ''read-only'' \<and> jget d ''sandbox'' \<noteq> JStr ''workspace-write'')
               ''defaults.sandbox'' ''must be read-only or workspace-write''
           @ topic_issue je d ''status_topic'' @ topic_issue je d ''result_topic''))"

definition or_opt :: "'a option \<Rightarrow> 'a option \<Rightarrow> 'a option" where
  "or_opt a b = (case a of Some x \<Rightarrow> Some x | None \<Rightarrow> b)"

text \<open>One agent: the issues, given the ids seen before it.\<close>

definition agent_issues :: "string option \<Rightarrow> string option \<Rightarrow> jsval option \<Rightarrow> string list \<Rightarrow> string \<Rightarrow> jsval \<Rightarrow> issue list" where
  "agent_issues dr dp base seen pfx agent =
     (let i = string_value (jget agent ''id'');
          runtime = or_opt (parse_runtime (jget agent ''runtime'')) dr;
          provider = or_opt (parse_provider (jget agent ''provider'')) (or_opt dp (map_option provider_for_runtime runtime));
          cwd = or_opt (string_value (jget agent ''cwd'')) (case base of Some b \<Rightarrow> string_value (jget b ''cwd'') | None \<Rightarrow> None);
          ok_id = (case i of Some s \<Rightarrow> is_token s | None \<Rightarrow> False);
          dup = (case i of Some s \<Rightarrow> s \<noteq> [] \<and> s \<in> set seen | None \<Rightarrow> False) in
      issue_if (\<not> ok_id) (pfx @ ''.id'') ''must match /^[a-z0-9-]{1,64}$/''
      @ issue_if dup (pfx @ ''.id'') (''duplicate agent id '' @ (case i of Some s \<Rightarrow> s | None \<Rightarrow> []))
      @ issue_if (runtime = None) (pfx @ ''.runtime'') ''must be codex or claude-live, or inherit a valid default''
      @ issue_if (provider = None) (pfx @ ''.provider'') ''must be valid, or inherit a valid default''
      @ mismatch_issue (pfx @ ''.provider'') runtime provider
      @ issue_if (\<not> non_empty_string (jget agent ''task'')) (pfx @ ''.task'') ''must be a non-empty string''
      @ issue_if (\<not> (case cwd of Some c \<Rightarrow> absolute_path (JStr c) | None \<Rightarrow> False)) (pfx @ ''.cwd'') ''must inherit or set an absolute cwd''
      @ issue_if (cwd = Some ''/tmp'') (pfx @ ''.cwd'') ''must not default to /tmp''
      @ issue_if (string_value (jget agent ''thread_key'') \<in> {None, Some []}) (pfx @ ''.thread_key'') ''must be a non-empty string'')"

fun agents_issues :: "string option \<Rightarrow> string option \<Rightarrow> jsval option \<Rightarrow> string list \<Rightarrow> nat \<Rightarrow> jsval list \<Rightarrow> issue list" where
  "agents_issues dr dp base seen k [] = []"
| "agents_issues dr dp base seen k (raw # rest) =
     (let pfx = ''agents['' @ nat_str k @ '']'' in
      case as_record raw of
        None \<Rightarrow> (pfx, ''must be an object'') # agents_issues dr dp base seen (Suc k) rest
      | Some agent \<Rightarrow>
          agent_issues dr dp base seen pfx agent
          @ agents_issues dr dp base (case string_value (jget agent ''id'') of Some (c # s) \<Rightarrow> (c # s) # seen | _ \<Rightarrow> seen) (Suc k) rest)"

definition spec_agents :: "jsval \<Rightarrow> jsval list" where
  "spec_agents spec = (case jget spec ''agents'' of JArr xs \<Rightarrow> xs | _ \<Rightarrow> [])"

definition validate_fleet_spec :: "js_env \<Rightarrow> jsval \<Rightarrow> issue list" where
  "validate_fleet_spec je input =
     (case as_record input of
        None \<Rightarrow> [(''$'', ''spec must be a JSON object'')]
      | Some obj \<Rightarrow>
          (let base = as_record (jget obj ''base''); defaults = as_record (jget obj ''defaults'');
               dr = (case defaults of Some d \<Rightarrow> parse_runtime (jget d ''runtime'') | None \<Rightarrow> None);
               dp = (case defaults of Some d \<Rightarrow> parse_provider (jget d ''provider'') | None \<Rightarrow> None) in
           issue_if (jget obj ''schema'' \<noteq> JStr ''a2a.fleet.spec.v2'') ''schema'' ''must equal a2a.fleet.spec.v2''
           @ issue_if (jget obj ''kind'' \<noteq> JStr ''a2a-fleet'') ''kind'' ''must equal a2a-fleet''
           @ issue_if (\<not> non_empty_string (jget obj ''fleet_id'')) ''fleet_id'' ''must be a non-empty string''
           @ base_issues base @ defaults_issues je defaults
           @ (if spec_agents obj = [] then [(''agents'', ''must be a non-empty array'')] else agents_issues dr dp base [] 0 (spec_agents obj))))"

definition valid_spec :: "js_env \<Rightarrow> jsval \<Rightarrow> bool" where
  "valid_spec je spec \<longleftrightarrow> validate_fleet_spec je spec = []"

subsection \<open>The run plan\<close>

definition nullish_or :: "jsval \<Rightarrow> jsval \<Rightarrow> jsval" where
  "nullish_or a b = (if is_nullish a then b else a)"

record plan_agent =
  pa_id :: string
  pa_role :: jsval
  pa_runtime :: jsval
  pa_provider :: jsval
  pa_cwd :: jsval
  pa_launch :: jsval
  pa_job_id :: string
  pa_envelope :: jsval

definition str_of :: "jsval \<Rightarrow> string" where
  "str_of v = (case v of JStr s \<Rightarrow> s | _ \<Rightarrow> [])"

definition default_of :: "jsval \<Rightarrow> string \<Rightarrow> jsval" where
  "default_of spec k = jget (jget spec ''defaults'') k"

definition agent_runtime :: "jsval \<Rightarrow> jsval \<Rightarrow> jsval" where
  "agent_runtime spec agent = nullish_or (jget agent ''runtime'') (default_of spec ''runtime'')"

definition agent_provider :: "jsval \<Rightarrow> jsval \<Rightarrow> jsval" where
  "agent_provider spec agent = nullish_or (jget agent ''provider'') (nullish_or (default_of spec ''provider'')
     (JStr (provider_for_runtime (str_of (agent_runtime spec agent)))))"

definition spec_sandbox :: "jsval \<Rightarrow> jsval" where
  "spec_sandbox spec = nullish_or (default_of spec ''sandbox'') (JStr ''read-only'')"

definition path_join :: "string list \<Rightarrow> string" where
  "path_join ps = path_normalize (join_with ''/'' (filter (\<lambda>p. p \<noteq> []) ps))"

definition resolve_agent_cwd :: "string \<Rightarrow> jsval \<Rightarrow> jsval \<Rightarrow> jsval" where
  "resolve_agent_cwd rootdir spec agent =
     (if truthy (jget agent ''cwd'') then jget agent ''cwd''
      else if spec_sandbox spec = JStr ''workspace-write'' \<and> agent_provider spec agent \<noteq> JStr ''docker-codex''
      then JStr (path_join [rootdir, str_of (jget agent ''id''), ''wt''])
      else jget (jget spec ''base'') ''cwd'')"

definition worktree_of :: "js_env \<Rightarrow> jsval \<Rightarrow> string" where
  "worktree_of je spec =
     (let b = jget spec ''base'' in
      if truthy (jget b ''ref'') then js_string je (jget b ''repo'') @ ''@'' @ js_string je (jget b ''ref'') else str_of (jget b ''repo''))"

definition build_launch_plan :: "string \<Rightarrow> jsval \<Rightarrow> string \<Rightarrow> jsval" where
  "build_launch_plan agentId provider worktree =
     (if provider = JStr ''docker-codex'' then
        JObj [(''provider'', provider), (''mode'', JStr ''shim''),
          (''request'', JObj [(''method'', JStr ''POST''), (''path'', JStr ''/v1/agents/codex''),
             (''body'', JObj [(''agent_id'', JStr agentId), (''label'', JStr (if take 48 agentId = [] then ''fleet'' else take 48 agentId)),
                (''mode'', JStr ''shim''), (''worktree'', JStr worktree), (''dry_run'', JBool True)])])]
      else
        JObj [(''provider'', provider), (''mode'', JStr ''shim''),
          (''command'', JArr (map JStr [''bash'', ''a2a-launch.sh'', agentId, if provider = JStr ''tmux-claude-live'' then ''claude'' else ''codex'',
             ''--shim'', ''--worktree'', worktree]))])"

text \<open>\<open>replace(/[^a-zA-Z0-9_.-]+/g, '-')\<close>\<close>

definition job_char :: "char \<Rightarrow> bool" where
  "job_char c \<longleftrightarrow> is_lower c \<or> is_upper c \<or> is_digit c \<or> c \<in> set ''_.-''"

fun squash :: "bool \<Rightarrow> string \<Rightarrow> string" where
  "squash bad [] = []"
| "squash bad (c # cs) = (if job_char c then c # squash False cs else if bad then squash True cs else dash # squash True cs)"

definition job_id_for :: "string \<Rightarrow> string \<Rightarrow> string" where
  "job_id_for fleetId agentId = squash False (''fleet-'' @ fleetId @ ''-'' @ agentId @ ''-001'')"

definition fleet_topic :: "jsval \<Rightarrow> string \<Rightarrow> string \<Rightarrow> jsval" where
  "fleet_topic spec field sfx = nullish_or (default_of spec field) (JStr (topic_token [''fleet'', str_of (jget spec ''fleet_id''), sfx]))"

definition thread_key_of :: "jsval \<Rightarrow> jsval \<Rightarrow> jsval" where
  "thread_key_of spec agent = nullish_or (jget agent ''thread_key'')
     (JStr (''fleet:'' @ str_of (jget spec ''fleet_id'') @ '':'' @ str_of (jget agent ''id'')))"

definition fleet_context :: "jsval \<Rightarrow> jsval \<Rightarrow> jsval" where
  "fleet_context spec agent = JObj [(''fleet_id'', jget spec ''fleet_id''), (''agent_id'', jget agent ''id''),
     (''role'', nullish_or (jget agent ''role'') (JStr ''worker'')), (''result_topic'', fleet_topic spec ''result_topic'' ''results''),
     (''metadata'', nullish_or (jget agent ''metadata'') (JObj [])), (''expects'', nullish_or (jget agent ''expects'') (JObj []))]"

definition build_dispatch_plan :: "string \<Rightarrow> jsval \<Rightarrow> jsval \<Rightarrow> jsval" where
  "build_dispatch_plan rootdir spec agent =
     (let i = str_of (jget agent ''id''); fid = str_of (jget spec ''fleet_id''); cwd = resolve_agent_cwd rootdir spec agent;
          policy = nullish_or (default_of spec ''approval_policy'') (JStr ''never'') in
      if agent_runtime spec agent = JStr ''codex'' then
        JObj [(''schema'', JStr ''codex.job.request.v1''), (''job_id'', JStr (job_id_for fid i)), (''thread_key'', thread_key_of spec agent),
          (''input'', JArr [JObj [(''type'', JStr ''text''), (''text'', jget agent ''task'')]]), (''sandbox'', spec_sandbox spec),
          (''approval_policy'', policy), (''cwd'', cwd), (''stream_topic'', JStr (topic_token [''fleet'', fid, i, ''stream''])),
          (''budget_policy'', JObj [(''max_primary_used_percent'',
             nullish_or (jget (default_of spec ''budget_policy'') ''max_primary_used_percent'') (JNum (Fin 99)))]),
          (''fleet'', fleet_context spec agent)]
      else
        JObj [(''schema'', JStr ''fleet.task.assigned.v1''), (''fleet_id'', jget spec ''fleet_id''), (''agent_id'', jget agent ''id''),
          (''job_id'', JStr (job_id_for fid i)), (''thread_key'', thread_key_of spec agent), (''task'', jget agent ''task''), (''cwd'', cwd),
          (''sandbox'', spec_sandbox spec), (''approval_policy'', policy), (''status_topic'', fleet_topic spec ''status_topic'' ''status''),
          (''result_topic'', fleet_topic spec ''result_topic'' ''results''), (''metadata'', nullish_or (jget agent ''metadata'') (JObj [])),
          (''expects'', nullish_or (jget agent ''expects'') (JObj []))])"

definition build_plan_agent :: "js_env \<Rightarrow> string \<Rightarrow> jsval \<Rightarrow> jsval \<Rightarrow> plan_agent" where
  "build_plan_agent je rootdir spec agent =
     \<lparr>pa_id = str_of (jget agent ''id''), pa_role = nullish_or (jget agent ''role'') (JStr ''worker''), pa_runtime = agent_runtime spec agent,
      pa_provider = agent_provider spec agent, pa_cwd = resolve_agent_cwd rootdir spec agent,
      pa_launch = build_launch_plan (str_of (jget agent ''id'')) (agent_provider spec agent) (worktree_of je spec),
      pa_job_id = job_id_for (str_of (jget spec ''fleet_id'')) (str_of (jget agent ''id'')),
      pa_envelope = build_dispatch_plan rootdir spec agent\<rparr>"

definition build_fleet_run_plan :: "js_env \<Rightarrow> string \<Rightarrow> jsval \<Rightarrow> plan_agent list" where
  "build_fleet_run_plan je rootdir spec = map (build_plan_agent je rootdir spec) (spec_agents spec)"

definition plan_summary :: "js_env \<Rightarrow> plan_agent list \<Rightarrow> nat \<times> nat \<times> nat \<times> (string \<times> nat) list" where
  "plan_summary je plan =
     (let ps = map (\<lambda>a. js_string je (pa_provider a)) plan in
      (length plan, length (filter (\<lambda>a. pa_runtime a = JStr ''codex'') plan), length (filter (\<lambda>a. pa_runtime a = JStr ''claude-live'') plan),
       map (\<lambda>p. (p, length (filter (\<lambda>q. q = p) ps))) (rev (remdups (rev ps)))))"

fun add_topic :: "string list \<Rightarrow> string \<Rightarrow> string list" where
  "add_topic ts t = (if t \<in> set ts then ts else ts @ [t])"

definition raw_topics :: "js_env \<Rightarrow> jsval \<Rightarrow> plan_agent list \<Rightarrow> string list" where
  "raw_topics je spec plan =
     [js_string je (fleet_topic spec ''status_topic'' ''status''), js_string je (fleet_topic spec ''result_topic'' ''results'')]
     @ filter (\<lambda>t. t \<noteq> []) (map (\<lambda>a. str_of (jget (pa_envelope a) ''stream_topic'')) plan)"

definition fleet_execution_topics :: "js_env \<Rightarrow> jsval \<Rightarrow> plan_agent list \<Rightarrow> string list" where
  "fleet_execution_topics je spec plan = filter is_token (foldl add_topic [] (raw_topics je spec plan))"

subsection \<open>The canary slice\<close>

text \<open>\<open>{...o, k: v}\<close>.\<close>

fun put_field :: "string \<Rightarrow> jsval \<Rightarrow> (string \<times> jsval) list \<Rightarrow> (string \<times> jsval) list" where
  "put_field k v [] = [(k, v)]"
| "put_field k v ((j, w) # fs) = (if j = k then (k, v) # fs else (j, w) # put_field k v fs)"

definition spread :: "jsval \<Rightarrow> (string \<times> jsval) list \<Rightarrow> jsval" where
  "spread o1 kvs = JObj (foldl (\<lambda>fs (k, v). put_field k v fs) (case o1 of JObj fs \<Rightarrow> fs | _ \<Rightarrow> []) kvs)"

definition role_is :: "string \<Rightarrow> jsval \<Rightarrow> jsval \<Rightarrow> bool" where
  "role_is d agent r \<longleftrightarrow> nullish_or (jget agent ''role'') (JStr d) = r"

text \<open>The manager and the worker by their place in the list, since the code compares the objects.\<close>

definition canary_manager :: "jsval list \<Rightarrow> nat" where
  "canary_manager xs = (case find (\<lambda>i. role_is [] (xs ! i) (JStr ''manager'')) [0..<length xs] of Some i \<Rightarrow> i | None \<Rightarrow> 0)"

definition canary_worker :: "jsval list \<Rightarrow> nat option" where
  "canary_worker xs =
     (let m = canary_manager xs in
      or_opt (find (\<lambda>i. i \<noteq> m \<and> \<not> role_is ''worker'' (xs ! i) (JStr ''manager'')) [0..<length xs]) (find (\<lambda>i. i \<noteq> m) [0..<length xs]))"

definition canary_suffix :: "string \<Rightarrow> string" where
  "canary_suffix raw =
     (let t = filter token_char raw; u = drop (length t - 10) t in if u = [] then ''canary'' else u)"

definition canary_smoke_task :: "(jsval \<Rightarrow> string) \<Rightarrow> jsval \<Rightarrow> jsval \<Rightarrow> string \<Rightarrow> string \<Rightarrow> string" where
  "canary_smoke_task stringify spec source agentId role =
     join_with '' '' (filter (\<lambda>p. p \<noteq> [])
       [''A2A Fleet v2 canary for '' @ str_of (jget spec ''fleet_id'') @ ''. You are '' @ agentId @ '' ('' @ role @ '').'',
        ''This is a smoke test only. Do not modify files, do not run git commit, and do not touch fire/order/executor paths.'',
        ''Use your A2A tools if available to list peers, then reply with a concise status summary containing your agent id, cwd, runtime/tool availability, and one observed peer count.'',
        if truthy (jget source ''metadata'') then '' Source metadata: '' @ stringify (jget source ''metadata'') @ ''.'' else []])"

definition canary_agent :: "(jsval \<Rightarrow> string) \<Rightarrow> bool \<Rightarrow> jsval \<Rightarrow> string \<Rightarrow> string \<Rightarrow> jsval \<Rightarrow> jsval" where
  "canary_agent stringify smoke spec i role agent =
     spread agent [(''id'', JStr i), (''role'', JStr role),
       (''thread_key'', JStr (take 128 (''fleet:'' @ str_of (jget spec ''fleet_id'') @ '':canary:'' @ i))),
       (''task'', if smoke then JStr (canary_smoke_task stringify spec agent i role) else jget agent ''task''),
       (''expects'', if smoke then JObj [(''artifacts'', JArr [])] else jget agent ''expects'')]"

definition build_canary :: "(jsval \<Rightarrow> string) \<Rightarrow> bool \<Rightarrow> string \<Rightarrow> jsval \<Rightarrow> jsval" where
  "build_canary stringify smoke raw spec =
     (let sfx = canary_suffix raw; fid = str_of (jget spec ''fleet_id''); xs = spec_agents spec in
      spread spec
        [(''fleet_id'', JStr (take 64 (fid @ ''-canary-'' @ sfx))),
         (''defaults'', spread (jget spec ''defaults'')
            [(''status_topic'', JStr (topic_token [''fleet'', fid, ''canary'', sfx, ''status''])),
             (''result_topic'', JStr (topic_token [''fleet'', fid, ''canary'', sfx, ''results'']))]),
         (''agents'', JArr (canary_agent stringify smoke spec (''mgr-'' @ sfx) ''manager'' (xs ! canary_manager xs)
            # (case canary_worker xs of None \<Rightarrow> [] | Some w \<Rightarrow> [canary_agent stringify smoke spec (''wkr-'' @ sfx) ''worker'' (xs ! w)])))])"

text \<open>What \<open>executeCanary\<close> runs: in a smoke test the sandbox is read-only.\<close>

definition canary_to_run :: "(jsval \<Rightarrow> string) \<Rightarrow> bool \<Rightarrow> string \<Rightarrow> jsval \<Rightarrow> jsval" where
  "canary_to_run stringify smoke raw spec =
     (let c = build_canary stringify smoke raw spec in
      if smoke then spread c [(''defaults'', spread (jget c ''defaults'') [(''sandbox'', JStr ''read-only'')])] else c)"

subsection \<open>Tokens are tokens\<close>

lemma dash_token [simp]: "token_char dash"
  by (simp add: dash_def token_char_def)

lemma collapse_chars: "list_all token_char (collapse s)"
  by (induction s) (auto split: list.split)

lemma strip_chars: "list_all P s \<Longrightarrow> list_all P (strip_head_dash s)" "list_all P s \<Longrightarrow> list_all P (strip_last_dash s)"
  by (auto simp: strip_head_dash_def strip_last_dash_def list_all_iff dest: in_set_butlastD split: list.split)

lemma strip_last_length: "length (strip_last_dash s) \<le> length s"
  by (simp add: strip_last_dash_def)

lemma topic_token_ok: "is_token (topic_token parts)"
proof -
  let ?j = "js_lower (join_with ''-'' (filter (\<lambda>p. p \<noteq> []) parts))"
  let ?t = "strip_last_dash (take 64 (strip_last_dash (strip_head_dash (collapse ?j))))"
  have "list_all token_char (strip_last_dash (strip_head_dash (collapse ?j)))" by (intro strip_chars collapse_chars)
  then have "list_all token_char (take 64 (strip_last_dash (strip_head_dash (collapse ?j))))" by (auto simp: list_all_iff dest: in_set_takeD)
  then have "list_all token_char ?t" by (rule strip_chars)
  moreover have "length ?t \<le> 64" using strip_last_length [of "take 64 (strip_last_dash (strip_head_dash (collapse ?j)))"] by simp
  moreover have "is_token ''fleet''" by code_simp
  ultimately show ?thesis by (cases "?t = []") (auto simp: topic_token_def is_token_def Let_def Suc_le_eq)
qed

subsection \<open>Job ids\<close>

lemma squash_good: "list_all job_char s \<Longrightarrow> squash b s = s"
  by (induction s arbitrary: b) auto

lemma token_job_char: "token_char c \<Longrightarrow> job_char c"
  by (auto simp: token_char_def job_char_def)

fun squash_state :: "bool \<Rightarrow> string \<Rightarrow> bool" where
  "squash_state b [] = b"
| "squash_state b (c # cs) = squash_state (\<not> job_char c) cs"

lemma squash_append: "squash b (s @ t) = squash b s @ squash (squash_state b s) t"
  by (induction s arbitrary: b) auto

lemma job_id_eq: "is_token a \<Longrightarrow> job_id_for f a = squash False (''fleet-'' @ f @ ''-'') @ a @ ''-001''"
proof -
  assume a: "is_token a"
  have "squash_state b (''fleet-'' @ f @ ''-'') = False" for b
  proof -
    have "squash_state b (x @ ''-'') = False" for x b by (induction x arbitrary: b) (auto simp: job_char_def)
    from this [of b "''fleet-'' @ f"] show ?thesis by simp
  qed
  moreover have "list_all job_char (a @ ''-001'')"
    using a token_job_char by (auto simp: is_token_def list_all_iff job_char_def is_digit_def char_in_def)
  ultimately show ?thesis using squash_append [of False "''fleet-'' @ f @ ''-''" "a @ ''-001''"] squash_good by (simp add: job_id_for_def)
qed

lemma job_ids_distinct: "is_token a \<Longrightarrow> is_token b \<Longrightarrow> job_id_for f a = job_id_for f b \<longleftrightarrow> a = b"
  by (simp add: job_id_eq)

subsection \<open>The plan of a valid specification\<close>

definition agent_id :: "jsval \<Rightarrow> string" where
  "agent_id a = str_of (jget a ''id'')"

lemma issue_if_nil [simp]: "issue_if b p m = [] \<longleftrightarrow> \<not> b"
  by (simp add: issue_if_def)

lemma agent_issues_id:
  assumes "agent_issues dr dp base seen pfx a = []"
  shows "string_value (jget a ''id'') = Some (agent_id a) \<and> is_token (agent_id a) \<and> agent_id a \<noteq> [] \<and> agent_id a \<notin> set seen"
proof -
  obtain s where s: "string_value (jget a ''id'') = Some s" "is_token s"
    using assms by (auto simp: agent_issues_def Let_def split: option.splits)
  then have "agent_id a = s" by (auto simp: agent_id_def str_of_def string_value_def split: jsval.splits)
  moreover have "s \<noteq> []" using s(2) by (rule is_token_nonempty)
  ultimately show ?thesis using assms s by (auto simp: agent_issues_def Let_def)
qed

lemma agents_issues_ids:
  "agents_issues dr dp base seen k xs = [] \<Longrightarrow>
   list_all (\<lambda>a. is_token (agent_id a)) xs \<and> distinct (map agent_id xs) \<and> set (map agent_id xs) \<inter> set seen = {}"
proof (induction xs arbitrary: seen k)
  case (Cons raw xs)
  then have raw: "as_record raw = Some raw" by (auto simp: as_record_def Let_def split: option.splits jsval.splits)
  let ?pfx = "''agents['' @ nat_str k @ '']''"
  have iss: "agent_issues dr dp base seen ?pfx raw = []" using Cons.prems raw by (simp add: Let_def)
  obtain c s where i: "agent_id raw = c # s" "string_value (jget raw ''id'') = Some (c # s)" "is_token (c # s)" "c # s \<notin> set seen"
    using agent_issues_id [OF iss] by (cases "agent_id raw") auto
  then have "agents_issues dr dp base ((c # s) # seen) (Suc k) xs = []" using Cons.prems raw by (simp add: Let_def)
  from Cons.IH [OF this] show ?case using i by auto
qed simp

lemma valid_parts:
  assumes "valid_spec je spec"
  shows "spec_agents spec \<noteq> [] \<and> list_all (\<lambda>a. is_token (agent_id a)) (spec_agents spec) \<and> distinct (map agent_id (spec_agents spec))
    \<and> (is_nullish (default_of spec ''approval_policy'') \<or> default_of spec ''approval_policy'' = JStr ''never'')
    \<and> (is_nullish (default_of spec ''sandbox'') \<or> default_of spec ''sandbox'' \<in> {JStr ''read-only'', JStr ''workspace-write''})
    \<and> (is_nullish (default_of spec ''status_topic'') \<or> is_token (js_string je (default_of spec ''status_topic'')))
    \<and> (is_nullish (default_of spec ''result_topic'') \<or> is_token (js_string je (default_of spec ''result_topic'')))"
proof -
  have rec: "as_record v = None \<or> as_record v = Some v" for v by (simp add: as_record_def split: jsval.split)
  have "as_record spec \<noteq> None" using assms by (cases "as_record spec") (auto simp: valid_spec_def validate_fleet_spec_def)
  then have obj: "as_record spec = Some spec" using rec [of spec] by auto
  obtain d where d: "as_record (jget spec ''defaults'') = Some d" "defaults_issues je (Some d) = []"
    using assms obj by (cases "as_record (jget spec ''defaults'')") (auto simp: valid_spec_def validate_fleet_spec_def Let_def defaults_issues_def)
  have dd: "default_of spec k = jget d k" for k using d(1) rec [of "jget spec ''defaults''"] by (simp add: default_of_def)
  obtain dr dp base where ag: "spec_agents spec \<noteq> []" "agents_issues dr dp base [] 0 (spec_agents spec) = []"
    using assms obj by (auto simp: valid_spec_def validate_fleet_spec_def Let_def split: if_splits)
  show ?thesis using ag agents_issues_ids [OF ag(2)] d(2) by (auto simp: dd defaults_issues_def topic_issue_def Let_def)
qed

lemma foldl_add_topic: "set (foldl add_topic ts xs) = set ts \<union> set xs" "distinct ts \<Longrightarrow> distinct (foldl add_topic ts xs)"
  by (induction xs arbitrary: ts) auto

lemma stream_topic_token: "t = str_of (jget (build_dispatch_plan rootdir spec a) ''stream_topic'') \<Longrightarrow> t = [] \<or> is_token t"
  by (auto simp: build_dispatch_plan_def Let_def jget_def str_of_def topic_token_ok)

text \<open>C39. The plan of a specification that validates is well formed: one entry per agent, with pairwise different token ids and pairwise
  different job ids; every envelope carries its job id, approval policy never and a sandbox of the two known, a codex agent
  gets a job request; and every topic of the run is a topic token, so that none is dropped.\<close>

theorem valid_plan_wellformed:
  assumes "valid_spec je spec" and plan_def: "plan = build_fleet_run_plan je rootdir spec"
  shows "plan \<noteq> [] \<and> distinct (map pa_id plan) \<and> distinct (map pa_job_id plan)
    \<and> list_all (\<lambda>a. is_token (pa_id a) \<and> jget (pa_envelope a) ''job_id'' = JStr (pa_job_id a)
        \<and> jget (pa_envelope a) ''approval_policy'' = JStr ''never''
        \<and> jget (pa_envelope a) ''sandbox'' \<in> {JStr ''read-only'', JStr ''workspace-write''}
        \<and> (pa_runtime a = JStr ''codex'' \<longrightarrow> jget (pa_envelope a) ''schema'' = JStr ''codex.job.request.v1'')) plan
    \<and> set (fleet_execution_topics je spec plan) = set (raw_topics je spec plan)"
proof -
  note v = valid_parts [OF assms(1)]
  let ?fid = "str_of (jget spec ''fleet_id'')"
  have ids: "map pa_id plan = map agent_id (spec_agents spec)"
    by (simp add: plan_def build_fleet_run_plan_def build_plan_agent_def agent_id_def)
  have jobs: "map pa_job_id plan = map (job_id_for ?fid) (map agent_id (spec_agents spec))"
    by (simp add: plan_def build_fleet_run_plan_def build_plan_agent_def agent_id_def)
  have "inj_on (job_id_for ?fid) (set (map agent_id (spec_agents spec)))"
    using v by (auto simp: inj_on_def list_all_iff job_ids_distinct)
  then have dj: "distinct (map pa_job_id plan)" using v unfolding jobs by (simp only: distinct_map [of "job_id_for ?fid"])
  have pol: "nullish_or (default_of spec ''approval_policy'') (JStr ''never'') = JStr ''never''"
    and sb: "spec_sandbox spec \<in> {JStr ''read-only'', JStr ''workspace-write''}"
    using v by (auto simp: nullish_or_def spec_sandbox_def)
  have env: "jget (build_dispatch_plan rootdir spec a) ''job_id'' = JStr (job_id_for ?fid (agent_id a))
      \<and> jget (build_dispatch_plan rootdir spec a) ''approval_policy'' = JStr ''never''
      \<and> jget (build_dispatch_plan rootdir spec a) ''sandbox'' = spec_sandbox spec
      \<and> (agent_runtime spec a = JStr ''codex'' \<longrightarrow> jget (build_dispatch_plan rootdir spec a) ''schema'' = JStr ''codex.job.request.v1'')" for a
    using pol by (simp add: build_dispatch_plan_def Let_def jget_def agent_id_def)
  have "is_token (js_string je (fleet_topic spec ''status_topic'' ''status''))" "is_token (js_string je (fleet_topic spec ''result_topic'' ''results''))"
    using v by (auto simp: fleet_topic_def nullish_or_def topic_token_ok)
  moreover have "t \<noteq> [] \<Longrightarrow> t \<in> set (map (\<lambda>a. str_of (jget (pa_envelope a) ''stream_topic'')) plan) \<Longrightarrow> is_token t" for t
    using stream_topic_token [OF refl] unfolding plan_def build_fleet_run_plan_def build_plan_agent_def by auto
  ultimately have topics: "list_all is_token (raw_topics je spec plan)"
    unfolding raw_topics_def list_all_iff by (simp only: set_append set_simps set_filter ball_Un ball_simps) blast
  have "set (fleet_execution_topics je spec plan) = set (raw_topics je spec plan)"
    using topics foldl_add_topic(1) [of "[]" "raw_topics je spec plan"]
    by (auto simp: fleet_execution_topics_def list_all_iff)
  moreover have "plan \<noteq> []" using v by (simp add: plan_def build_fleet_run_plan_def)
  moreover have "distinct (map pa_id plan)" using v unfolding ids by simp
  moreover have "list_all (\<lambda>a. is_token (pa_id a) \<and> jget (pa_envelope a) ''job_id'' = JStr (pa_job_id a)
        \<and> jget (pa_envelope a) ''approval_policy'' = JStr ''never''
        \<and> jget (pa_envelope a) ''sandbox'' \<in> {JStr ''read-only'', JStr ''workspace-write''}
        \<and> (pa_runtime a = JStr ''codex'' \<longrightarrow> jget (pa_envelope a) ''schema'' = JStr ''codex.job.request.v1'')) plan"
    using v sb env by (simp add: list_all_iff plan_def build_fleet_run_plan_def build_plan_agent_def agent_id_def)
  ultimately show ?thesis using dj by simp
qed

text \<open>A small specification: two agents, the second one names a runtime the code does not know.\<close>

definition sample_fleet :: jsval where
  "sample_fleet = JObj [(''schema'', JStr ''a2a.fleet.spec.v2''), (''kind'', JStr ''a2a-fleet''), (''fleet_id'', JStr ''f''),
     (''base'', JObj [(''repo'', JStr ''/r''), (''cwd'', JStr ''/r'')]), (''defaults'', JObj [(''runtime'', JStr ''codex'')]),
     (''agents'', JArr [JObj [(''id'', JStr ''m''), (''role'', JStr ''manager''), (''task'', JStr ''t''), (''thread_key'', JStr ''k'')],
        JObj [(''id'', JStr ''w''), (''runtime'', JStr ''Codex''), (''task'', JStr ''u''), (''thread_key'', JStr ''l'')]])]"

definition plain_env :: js_env where
  "plain_env = \<lparr>je_num_text = (\<lambda>_. ''0''), je_to_number = (\<lambda>_. NaN), je_date_parse = (\<lambda>_. None), je_iso = (\<lambda>_. [])\<rparr>"

lemma sample_fleet_valid: "valid_spec plain_env sample_fleet"
  by code_simp

theorem valid_plan_wellformed_witness:
  "distinct (map pa_job_id (build_fleet_run_plan plain_env ''/a'' sample_fleet))"
  using valid_plan_wellformed [OF sample_fleet_valid refl, of "''/a''"] by simp

text \<open>The validation replaces a runtime it does not know by the default, the plan does not: the agent passes as a codex agent and
  is dispatched a Claude assignment.\<close>

lemma unknown_runtime_passes:
  "valid_spec plain_env sample_fleet
   \<and> map pa_runtime (build_fleet_run_plan plain_env ''/a'' sample_fleet) = [JStr ''codex'', JStr ''Codex'']
   \<and> map (\<lambda>a. jget (pa_envelope a) ''schema'') (build_fleet_run_plan plain_env ''/a'' sample_fleet)
       = [JStr ''codex.job.request.v1'', JStr ''fleet.task.assigned.v1'']"
  using sample_fleet_valid
  by (simp add: build_fleet_run_plan_def build_plan_agent_def spec_agents_def sample_fleet_def jget_def [of "JObj _"] agent_runtime_def nullish_or_def
      is_nullish_def default_of_def build_dispatch_plan_def Let_def)

subsection \<open>The canary is valid\<close>

lemma jget_put [simp]: "jget (JObj (put_field k v fs)) j = (if j = k then v else jget (JObj fs) j)"
  by (induction fs) (auto simp: jget_def split: if_splits)

lemma jget_spread_nil [simp]: "jget (spread o1 []) j = jget o1 j"
  by (cases o1) (auto simp: spread_def jget_def)

lemma jget_spread_one [simp]: "jget (spread o1 [(k, v)]) j = (if j = k then v else jget o1 j)"
  by (cases o1) (simp_all add: spread_def jget_put, auto simp: jget_def)

lemma jget_spread:
  "jget (spread o1 kvs) j = (case map_of (rev kvs) j of Some v \<Rightarrow> v | None \<Rightarrow> jget o1 j)"
proof (induction kvs arbitrary: o1)
  case (Cons a kvs)
  obtain k v where a: "a = (k, v)" by (cases a)
  have "jget (spread o1 (a # kvs)) j = jget (spread (spread o1 [(k, v)]) kvs) j" by (simp add: spread_def a)
  then show ?case by (simp add: Cons.IH a map_add_def jget_spread_one split: option.split)
qed simp

lemma trim_blank: "js_trim s = [] \<longleftrightarrow> list_all js_ws s"
proof -
  have "x \<in> set s \<Longrightarrow> x \<in> set (takeWhile js_ws s) \<or> x \<in> set (dropWhile js_ws s)" for x
    by (metis Un_iff set_append takeWhile_dropWhile_id)
  then show ?thesis by (auto simp: js_trim_def list_all_iff dropWhile_eq_Nil_conv dest: set_dropWhileD set_takeWhileD)
qed

text \<open>What is asked of one agent besides its id.\<close>

definition agent_rest :: "string option \<Rightarrow> string option \<Rightarrow> jsval option \<Rightarrow> jsval \<Rightarrow> bool" where
  "agent_rest dr dp base a \<longleftrightarrow>
     (let runtime = or_opt (parse_runtime (jget a ''runtime'')) dr;
          provider = or_opt (parse_provider (jget a ''provider'')) (or_opt dp (map_option provider_for_runtime runtime));
          cwd = or_opt (string_value (jget a ''cwd'')) (case base of Some b \<Rightarrow> string_value (jget b ''cwd'') | None \<Rightarrow> None) in
      runtime \<noteq> None \<and> provider \<noteq> None \<and> mismatch_issue [] runtime provider = [] \<and> (case cwd of Some c \<Rightarrow> absolute_path (JStr c) | None \<Rightarrow> False)
      \<and> cwd \<noteq> Some ''/tmp'')"

lemma mismatch_nil: "mismatch_issue p r q = [] \<longleftrightarrow> mismatch_issue [] r q = []"
  by (auto simp: mismatch_issue_def split: option.split)

lemma agent_issues_nil:
  "agent_issues dr dp base seen pfx a = [] \<longleftrightarrow>
     (case string_value (jget a ''id'') of Some s \<Rightarrow> is_token s \<and> s \<notin> set seen | None \<Rightarrow> False)
     \<and> agent_rest dr dp base a \<and> non_empty_string (jget a ''task'') \<and> string_value (jget a ''thread_key'') \<notin> {None, Some []}"
  using is_token_nonempty
  by (auto simp: agent_issues_def agent_rest_def Let_def mismatch_nil [of "pfx @ ''.provider''"] split: option.split)

lemma agents_issues_each:
  "agents_issues dr dp base seen k xs = [] \<Longrightarrow> a \<in> set xs \<Longrightarrow>
   is_obj a \<and> agent_rest dr dp base a \<and> non_empty_string (jget a ''task'') \<and> string_value (jget a ''thread_key'') \<notin> {None, Some []}"
proof (induction xs arbitrary: seen k)
  case (Cons raw xs)
  then have raw: "as_record raw = Some raw" "is_obj raw" by (auto simp: as_record_def is_obj_def Let_def split: option.splits jsval.splits)
  show ?case using Cons raw by (auto simp: Let_def agent_issues_nil)
qed simp

lemma canary_agent_fields:
  "jget (canary_agent str smoke spec i role a) ''id'' = JStr i"
  "jget (canary_agent str smoke spec i role a) ''runtime'' = jget a ''runtime''"
  "jget (canary_agent str smoke spec i role a) ''provider'' = jget a ''provider''"
  "jget (canary_agent str smoke spec i role a) ''cwd'' = jget a ''cwd''"
  "string_value (jget (canary_agent str smoke spec i role a) ''thread_key'') \<notin> {None, Some []}"
  "as_record (canary_agent str smoke spec i role a) = Some (canary_agent str smoke spec i role a)"
  by (simp_all add: canary_agent_def jget_spread string_value_def) (simp add: spread_def as_record_def)

lemma canary_task: "non_empty_string (jget a ''task'') \<Longrightarrow> non_empty_string (jget (canary_agent str smoke spec i role a) ''task'')"
proof -
  have "\<not> js_ws (CHR ''A'')" by code_simp
  then have "\<not> list_all js_ws (join_with '' '' (filter (\<lambda>p. p \<noteq> []) ((CHR ''A'' # x) # ys)))" for x ys
    by (cases "filter (\<lambda>p. p \<noteq> []) ys") simp_all
  then have "js_trim (canary_smoke_task str spec a i role) \<noteq> []" for i role
    unfolding trim_blank canary_smoke_task_def append_Cons by blast
  then show "non_empty_string (jget a ''task'') \<Longrightarrow> ?thesis" by (simp add: canary_agent_def jget_spread non_empty_string_def)
qed

lemma canary_agent_ok:
  assumes "agent_rest dr dp base a" "non_empty_string (jget a ''task'')" "is_token i" "i \<notin> set seen"
  shows "agent_issues dr dp base seen pfx (canary_agent str smoke spec i role a) = []"
proof -
  have "agent_rest dr dp base (canary_agent str smoke spec i role a)"
    using assms(1) by (simp add: agent_rest_def canary_agent_fields)
  then show ?thesis using canary_task [OF assms(2)] assms(3,4) canary_agent_fields
    by (simp add: agent_issues_nil string_value_def)
qed

lemma canary_suffix_ok: "list_all token_char (canary_suffix raw) \<and> length (canary_suffix raw) \<le> 10"
proof -
  have "list_all token_char ''canary''" by code_simp
  then show ?thesis by (auto simp: canary_suffix_def Let_def list_all_iff dest: in_set_dropD)
qed

lemma canary_ids: "is_token (''mgr-'' @ canary_suffix raw)" "is_token (''wkr-'' @ canary_suffix raw)"
  using canary_suffix_ok [of raw] by (auto simp: is_token_def token_char_def is_lower_def char_in_def)

lemma find_member: "find P xs = Some x \<Longrightarrow> x \<in> set xs \<and> P x"
  by (auto simp: find_Some_iff)

lemma canary_pick_manager: "xs \<noteq> [] \<Longrightarrow> canary_manager xs < length xs"
  by (auto simp: canary_manager_def split: option.split dest: find_member)

lemma canary_pick_worker: "canary_worker xs = Some w \<Longrightarrow> w < length xs \<and> w \<noteq> canary_manager xs"
  by (auto simp: canary_worker_def or_opt_def Let_def split: option.splits dest: find_member)

definition default_runtime :: "jsval \<Rightarrow> string option" where
  "default_runtime spec = (case as_record (jget spec ''defaults'') of Some d \<Rightarrow> parse_runtime (jget d ''runtime'') | None \<Rightarrow> None)"

definition default_provider :: "jsval \<Rightarrow> string option" where
  "default_provider spec = (case as_record (jget spec ''defaults'') of Some d \<Rightarrow> parse_provider (jget d ''provider'') | None \<Rightarrow> None)"

lemma as_record_cases: "as_record v = (if is_obj v then Some v else None)"
  by (simp add: as_record_def is_obj_def split: jsval.split)

lemma valid_spec_iff:
  "valid_spec je spec \<longleftrightarrow>
     is_obj spec \<and> jget spec ''schema'' = JStr ''a2a.fleet.spec.v2'' \<and> jget spec ''kind'' = JStr ''a2a-fleet''
     \<and> non_empty_string (jget spec ''fleet_id'') \<and> base_issues (as_record (jget spec ''base'')) = []
     \<and> defaults_issues je (as_record (jget spec ''defaults'')) = [] \<and> spec_agents spec \<noteq> []
     \<and> agents_issues (default_runtime spec) (default_provider spec) (as_record (jget spec ''base'')) [] 0 (spec_agents spec) = []"
proof (cases "as_record spec")
  case None
  then show ?thesis by (simp add: valid_spec_def validate_fleet_spec_def as_record_cases split: if_splits)
next
  case (Some x)
  then have "x = spec" "is_obj spec" by (auto simp: as_record_cases split: if_splits)
  then show ?thesis using Some
    by (simp add: valid_spec_def validate_fleet_spec_def Let_def default_runtime_def default_provider_def)
qed

lemma topic_issue_token: "topic_issue je d f = [] \<longleftrightarrow> is_nullish (jget d f) \<or> is_token (js_string je (jget d f))"
  by (auto simp: topic_issue_def)

lemma is_obj_spread [simp]: "is_obj (spread v kvs)"
  by (simp add: spread_def is_obj_def)

lemma canary_fleet_id:
  assumes "non_empty_string (JStr fid)" "length fid < 64 \<or> js_trim (take 64 fid) \<noteq> []"
  shows "non_empty_string (JStr (take 64 (fid @ ''-canary-'' @ sfx)))"
proof -
  have "\<not> list_all js_ws (take 64 (fid @ ''-canary-'' @ sfx))"
  proof (cases "length fid < 64")
    case True
    then obtain n where "64 - length fid = Suc n" by (cases "64 - length fid") auto
    with True show ?thesis by (simp add: js_ws_def char_in_def)
  next
    case False
    then show ?thesis using assms(2) by (simp add: trim_blank)
  qed
  then show ?thesis by (simp add: non_empty_string_def trim_blank)
qed

text \<open>C40. The canary of a valid specification is valid again, as long as the first 64 characters of the fleet id are not blank (a fleet id of fewer
  characters never is): at most two agents, the first of them the manager; and the smoke run asks every agent for a read-only
  sandbox.\<close>

theorem canary_is_valid_slice:
  assumes "valid_spec je spec"
    and "length (str_of (jget spec ''fleet_id'')) < 64 \<or> js_trim (take 64 (str_of (jget spec ''fleet_id''))) \<noteq> []"
    and c_def: "c = canary_to_run stringify smoke raw spec"
  shows "valid_spec je c \<and> length (spec_agents c) \<le> 2 \<and> role_is [] (hd (spec_agents c)) (JStr ''manager'')
    \<and> (smoke \<longrightarrow> list_all (\<lambda>a. jget (pa_envelope a) ''sandbox'' = JStr ''read-only'') (build_fleet_run_plan je rootdir c))"
proof -
  let ?fid = "str_of (jget spec ''fleet_id'')" and ?xs = "spec_agents spec" and ?s = "canary_suffix raw"
  let ?m = "canary_agent stringify smoke spec (''mgr-'' @ ?s) ''manager'' (?xs ! canary_manager ?xs)"
  let ?w = "\<lambda>w. canary_agent stringify smoke spec (''wkr-'' @ ?s) ''worker'' (?xs ! w)"
  let ?dr = "default_runtime spec" and ?dp = "default_provider spec" and ?base = "as_record (jget spec ''base'')"
  note v = assms(1) [unfolded valid_spec_iff]
  have fid: "jget spec ''fleet_id'' = JStr ?fid" using v by (auto simp: non_empty_string_def str_of_def split: jsval.splits)
  have f: "jget c k = (if k = ''fleet_id'' then JStr (take 64 (?fid @ ''-canary-'' @ ?s))
      else if k = ''agents'' then JArr (?m # (case canary_worker ?xs of None \<Rightarrow> [] | Some w \<Rightarrow> [?w w]))
      else if k = ''defaults'' then jget c ''defaults'' else jget spec k)" for k
    by (simp add: c_def canary_to_run_def build_canary_def Let_def jget_spread split: option.split)
  have d: "is_obj (jget c ''defaults'')"
      "jget (jget c ''defaults'') k = (if k = ''status_topic'' then JStr (topic_token [''fleet'', ?fid, ''canary'', ?s, ''status''])
         else if k = ''result_topic'' then JStr (topic_token [''fleet'', ?fid, ''canary'', ?s, ''results''])
         else if k = ''sandbox'' \<and> smoke then JStr ''read-only'' else jget (jget spec ''defaults'') k)" for k
    by (simp_all add: c_def canary_to_run_def build_canary_def Let_def jget_spread split: option.split)
  have dd: "is_obj (jget spec ''defaults'')" "defaults_issues je (Some (jget spec ''defaults'')) = []"
    using v by (auto simp: as_record_cases defaults_issues_def split: if_splits)
  have defs: "default_runtime c = ?dr" "default_provider c = ?dp"
    using d dd by (simp_all add: default_runtime_def default_provider_def as_record_cases)
  have di: "defaults_issues je (as_record (jget c ''defaults'')) = []"
    using d dd(2) topic_token_ok by (simp add: defaults_issues_def as_record_cases Let_def topic_issue_token)
  have each: "a \<in> set ?xs \<Longrightarrow> agent_rest ?dr ?dp ?base a \<and> non_empty_string (jget a ''task'')" for a
    using v agents_issues_each by blast
  have ag: "spec_agents c = ?m # (case canary_worker ?xs of None \<Rightarrow> [] | Some w \<Rightarrow> [?w w])"
    by (simp add: spec_agents_def f)
  have ai: "agents_issues ?dr ?dp ?base [] 0 (spec_agents c) = []"
    unfolding ag using v each canary_pick_manager [of ?xs] canary_pick_worker [of ?xs] canary_ids
    by (auto simp: Let_def canary_agent_fields string_value_def intro!: canary_agent_ok split: option.split)
  have "is_obj c" by (simp add: c_def canary_to_run_def build_canary_def Let_def)
  then have valid: "valid_spec je c"
    unfolding valid_spec_iff using v f [of "''schema''"] f [of "''kind''"] f [of "''base''"] f [of "''fleet_id''"] di ai defs ag
      canary_fleet_id [of ?fid] assms(2) fid by simp
  have "role_is [] ?m (JStr ''manager'')" by (simp add: role_is_def canary_agent_def jget_spread nullish_or_def is_nullish_def)
  moreover have "smoke \<Longrightarrow> jget (build_dispatch_plan rootdir c a) ''sandbox'' = JStr ''read-only''" for a
    using d(2) [of "''sandbox''"]
    by (simp add: build_dispatch_plan_def Let_def jget_def [of "JObj _"] spec_sandbox_def default_of_def nullish_or_def is_nullish_def)
  ultimately show ?thesis using valid
    by (auto simp: ag build_fleet_run_plan_def build_plan_agent_def list_all_iff split: option.split)
qed

theorem canary_is_valid_slice_witness:
  "valid_spec plain_env (canary_to_run (\<lambda>_. []) True ''x9'' sample_fleet)"
  using canary_is_valid_slice [OF sample_fleet_valid _ refl, of "\<lambda>_. []" True "''x9''"]
  by (simp add: sample_fleet_def jget_def str_of_def)

subsection \<open>Legacy fleet files\<close>

definition word_char :: "char \<Rightarrow> bool" where
  "word_char c \<longleftrightarrow> is_lower c \<or> is_upper c \<or> is_digit c \<or> c = CHR ''_''"

definition is_cr :: "char \<Rightarrow> bool" where
  "is_cr c \<longleftrightarrow> (of_char c :: nat) = 13"

text \<open>\<open>split(/\r?\n/)\<close>, then \<open>trim\<close>, which takes off the carriage return as well.\<close>

definition legacy_lines :: "string \<Rightarrow> string list" where
  "legacy_lines s = map js_trim (split_on (char_of (10 :: nat)) s)"

text \<open>\<open>^(\S+)(?:\s+(.*))?$\<close> on a trimmed line: a carriage return in the rest does not match.\<close>

definition legacy_key_rest :: "string \<Rightarrow> (string \<times> string) option" where
  "legacy_key_rest line =
     (let key = takeWhile (\<lambda>c. \<not> js_ws c) line; r = dropWhile js_ws (dropWhile (\<lambda>c. \<not> js_ws c) line) in
      if key = [] \<or> list_ex is_cr r then None else Some (key, js_trim r))"

definition drop_command :: "string \<Rightarrow> string \<Rightarrow> string option" where
  "drop_command w s =
     (if starts_with w s \<and> (drop (length w) s = [] \<or> js_ws (drop (length w) s ! 0)) then Some (dropWhile js_ws (drop (length w) s)) else None)"

definition normalize_legacy_task :: "string \<Rightarrow> string" where
  "normalize_legacy_task rest =
     js_trim (case or_opt (drop_command ''/goal'' rest) (drop_command ''/loop'' rest) of Some r \<Rightarrow> r | None \<Rightarrow> rest)"

definition iso_date :: "string \<Rightarrow> bool" where
  "iso_date s \<longleftrightarrow> length s = 10 \<and> list_all is_digit (take 4 s) \<and> s ! 4 = dash \<and> list_all is_digit (take 2 (drop 5 s)) \<and> s ! 7 = dash
     \<and> list_all is_digit (drop 8 s)"

text \<open>The first date after a free-standing \<open>on\<close>; \<open>w\<close>: the character before is a word character.\<close>

fun on_date :: "bool \<Rightarrow> string \<Rightarrow> string option" where
  "on_date w [] = None"
| "on_date w (c # cs) =
     (let r = dropWhile js_ws (drop 1 cs) in
      if \<not> w \<and> starts_with ''on'' (c # cs) \<and> drop 1 cs \<noteq> [] \<and> js_ws (drop 1 cs ! 0) \<and> iso_date (take 10 r) \<and> \<not> (drop 10 r \<noteq> [] \<and> word_char (r ! 10))
      then Some (take 10 r) else on_date (word_char c) cs)"

definition artifact_char :: "char \<Rightarrow> bool" where
  "artifact_char c \<longleftrightarrow> \<not> js_ws c \<and> c \<noteq> CHR '',''"

fun write_path :: "bool \<Rightarrow> string \<Rightarrow> string option" where
  "write_path w [] = None"
| "write_path w (c # cs) =
     (let r = dropWhile js_ws (drop 4 cs); p = takeWhile artifact_char r in
      if \<not> w \<and> js_lower (take 5 (c # cs)) = ''write'' \<and> drop 4 cs \<noteq> [] \<and> js_ws (drop 4 cs ! 0) \<and> p \<noteq> []
      then Some p else write_path (word_char c) cs)"

definition clean_artifact :: "string \<Rightarrow> string" where
  "clean_artifact p = rev (dropWhile (\<lambda>c. c = CHR '')'' \<or> c = CHR ''.'') (rev p))"

definition legacy_agent :: "jsval \<Rightarrow> jsval \<Rightarrow> string \<Rightarrow> string \<Rightarrow> string \<Rightarrow> jsval" where
  "legacy_agent runtime provider fleetId key rest =
     (let task = normalize_legacy_task rest in
      JObj ([(''id'', JStr key), (''role'', JStr (if starts_with (rev ''-manager'') (rev key) then ''manager'' else ''worker'')),
         (''runtime'', runtime), (''provider'', provider), (''thread_key'', JStr (''fleet:'' @ fleetId @ '':'' @ key)), (''task'', JStr task)]
        @ (case on_date False task of Some d \<Rightarrow> [(''metadata'', JObj [(''date'', JStr d)])] | None \<Rightarrow> [])
        @ (case write_path False task of Some p \<Rightarrow> [(''expects'', JObj [(''artifacts'', JArr [JStr (clean_artifact p)])])] | None \<Rightarrow> [])))"

record legacy_state =
  lg_fleet :: string
  lg_base :: string
  lg_needs :: "string list"
  lg_agents :: "jsval list"

definition legacy_line :: "jsval \<Rightarrow> jsval \<Rightarrow> legacy_state \<Rightarrow> string \<Rightarrow> legacy_state" where
  "legacy_line runtime provider st line =
     (if line = [] \<or> starts_with ''#'' line then st
      else case legacy_key_rest line of
        None \<Rightarrow> st
      | Some (key, rest) \<Rightarrow>
          if key = ''FLEET'' then (if rest = [] then st else st\<lparr>lg_fleet := rest\<rparr>)
          else if key = ''BASE'' then st\<lparr>lg_base := rest\<rparr>
          else if key = ''NEEDS'' then (if rest = [] then st else st\<lparr>lg_needs := lg_needs st @ [rest]\<rparr>)
          else st\<lparr>lg_agents := lg_agents st @ [legacy_agent runtime provider (lg_fleet st) key rest]\<rparr>)"

definition parse_base :: "string \<Rightarrow> jsval" where
  "parse_base raw =
     (let r = rev raw; ref = rev (takeWhile (\<lambda>c. c \<noteq> CHR ''@'') r); repo = rev (drop 1 (dropWhile (\<lambda>c. c \<noteq> CHR ''@'') r)) in
      if CHR ''@'' \<in> set raw \<and> repo \<noteq> [] then JObj [(''repo'', JStr repo), (''ref'', JStr ref), (''cwd'', JStr repo)]
      else JObj [(''repo'', JStr raw), (''cwd'', JStr raw)])"

definition legacy_spec :: "jsval \<Rightarrow> jsval \<Rightarrow> jsval \<Rightarrow> string \<Rightarrow> legacy_state \<Rightarrow> jsval" where
  "legacy_spec runtime provider sandbox createdAt st = JObj
     [(''schema'', JStr ''a2a.fleet.spec.v2''), (''fleet_id'', JStr (lg_fleet st)), (''created_at'', JStr createdAt), (''kind'', JStr ''a2a-fleet''),
      (''base'', parse_base (lg_base st)),
      (''placement'', JObj [(''strategy'', JStr ''local''), (''hosts'', JArr [JStr ''localhost'']), (''needs'', JArr (map JStr (lg_needs st)))]),
      (''defaults'', JObj [(''runtime'', runtime), (''provider'', provider), (''effort'', JStr ''xhigh''), (''sandbox'', sandbox),
         (''approval_policy'', JStr ''never''), (''a2a_tools_required'', JBool True), (''brain_required'', JBool True), (''kai_required'', JBool False),
         (''status_topic'', JStr (topic_token [''fleet'', lg_fleet st, ''status''])),
         (''result_topic'', JStr (topic_token [''fleet'', lg_fleet st, ''results''])), (''turn_timeout_ms'', JNum (Fin 28800000)),
         (''budget_policy'', JObj [(''max_primary_used_percent'', JNum (Fin 99))])]),
      (''agents'', JArr (lg_agents st))]"

definition parse_legacy_fleet_spec :: "string option \<Rightarrow> string option \<Rightarrow> string option \<Rightarrow> string \<Rightarrow> string \<Rightarrow> jsval" where
  "parse_legacy_fleet_spec runtime provider sandbox createdAt s =
     (let r = (case runtime of Some x \<Rightarrow> x | None \<Rightarrow> ''codex''); p = (case provider of Some x \<Rightarrow> x | None \<Rightarrow> provider_for_runtime r);
          b = (case sandbox of Some x \<Rightarrow> x | None \<Rightarrow> ''read-only'') in
      legacy_spec (JStr r) (JStr p) (JStr b) createdAt
        (foldl (legacy_line (JStr r) (JStr p)) \<lparr>lg_fleet = ''legacy-fleet'', lg_base = [], lg_needs = [], lg_agents = []\<rparr> (legacy_lines s)))"

lemma jget_Cons: "jget (JObj ((k, v) # fs)) j = (if j = k then v else jget (JObj fs) j)"
  by (simp add: jget_def)

lemma legacy_agent_fields:
  "jget (legacy_agent rt pv f k r) ''id'' = JStr k" "jget (legacy_agent rt pv f k r) ''runtime'' = rt"
  "jget (legacy_agent rt pv f k r) ''provider'' = pv" "jget (legacy_agent rt pv f k r) ''thread_key'' = JStr (''fleet:'' @ f @ '':'' @ k)"
  "jget (legacy_agent rt pv f k r) ''task'' = JStr (normalize_legacy_task r)" "jget (legacy_agent rt pv f k r) ''cwd'' = JUndef"
  "is_obj (legacy_agent rt pv f k r)"
  by (auto simp: legacy_agent_def Let_def jget_def is_obj_def split: option.split)

text \<open>The agents in the order of their lines, each with the fleet id in force there.\<close>

type_synonym legacy_item = "string \<times> string \<times> string"

definition item_agent :: "jsval \<Rightarrow> jsval \<Rightarrow> legacy_item \<Rightarrow> jsval" where
  "item_agent rt pv = (\<lambda>(f, k, r). legacy_agent rt pv f k r)"

lemma legacy_items: "\<exists>items. lg_agents (foldl (legacy_line rt pv) st ls) = lg_agents st @ map (item_agent rt pv) items"
proof (induction ls arbitrary: st)
  case (Cons l ls)
  obtain items where step: "lg_agents (legacy_line rt pv st l) = lg_agents st @ map (item_agent rt pv) items"
  proof -
    have "\<exists>items. lg_agents (legacy_line rt pv st l) = lg_agents st @ map (item_agent rt pv) items"
    proof (cases "lg_agents (legacy_line rt pv st l) = lg_agents st")
      case False
      then obtain f k r where "lg_agents (legacy_line rt pv st l) = lg_agents st @ [legacy_agent rt pv f k r]"
        by (auto simp: legacy_line_def split: if_splits option.splits)
      then have "lg_agents (legacy_line rt pv st l) = lg_agents st @ map (item_agent rt pv) [(f, k, r)]" by (simp add: item_agent_def)
      then show ?thesis by blast
    qed (intro exI [of _ "[]"], simp)
    then show thesis using that by blast
  qed
  obtain more_items where "lg_agents (foldl (legacy_line rt pv) (legacy_line rt pv st l) ls)
      = lg_agents (legacy_line rt pv st l) @ map (item_agent rt pv) more_items" using Cons.IH by blast
  then have "lg_agents (foldl (legacy_line rt pv) st (l # ls)) = lg_agents st @ map (item_agent rt pv) (items @ more_items)" using step by simp
  then show ?case by blast
qed (intro exI [of _ "[]"], simp)

lemma legacy_agents_valid:
  assumes "rt = ''codex'' \<or> rt = ''claude-live''" "pv \<in> {''docker-codex'', ''tmux-codex'', ''tmux-claude-live''}" "provider_matches_runtime pv rt"
    and "absolute_path (jget b ''cwd'')" "jget b ''cwd'' \<noteq> JStr ''/tmp''"
  shows "agents_issues dr dp (Some b) seen n (map (item_agent (JStr rt) (JStr pv)) items) = [] \<longleftrightarrow>
    list_all (\<lambda>(f, k, r). is_token k \<and> js_trim (normalize_legacy_task r) \<noteq> []) items
    \<and> distinct (map (fst \<circ> snd) items) \<and> set (map (fst \<circ> snd) items) \<inter> set seen = {}"
proof (induction items arbitrary: seen n)
  case (Cons x items)
  obtain f k r where x: "x = (f, k, r)" by (cases x)
  let ?a = "legacy_agent (JStr rt) (JStr pv) f k r"
  have "agent_rest dr dp (Some b) ?a"
    using assms by (auto simp: agent_rest_def legacy_agent_fields parse_runtime_def parse_provider_def string_value_def or_opt_def mismatch_issue_def
      absolute_path_def split: jsval.splits)
  then have one: "agent_issues dr dp (Some b) seen pfx ?a = [] \<longleftrightarrow> is_token k \<and> k \<notin> set seen \<and> js_trim (normalize_legacy_task r) \<noteq> []" for pfx
    by (auto simp: agent_issues_nil legacy_agent_fields string_value_def non_empty_string_def)
  have rec: "as_record ?a = Some ?a" by (simp add: as_record_cases legacy_agent_fields)
  have seen: "(case k of [] \<Rightarrow> seen | c # s \<Rightarrow> (c # s) # seen) = (if k = [] then seen else k # seen)" by (cases k) simp_all
  have "agents_issues dr dp (Some b) seen n (map (item_agent (JStr rt) (JStr pv)) (x # items)) = [] \<longleftrightarrow>
      is_token k \<and> k \<notin> set seen \<and> js_trim (normalize_legacy_task r) \<noteq> []
      \<and> agents_issues dr dp (Some b) (if k = [] then seen else k # seen) (Suc n) (map (item_agent (JStr rt) (JStr pv)) items) = []"
    by (simp add: x item_agent_def rec one Let_def legacy_agent_fields string_value_def seen)
  then show ?case using is_token_nonempty [of k] Cons.IH [of "k # seen" "Suc n"] by (auto simp: x)
qed simp

lemma trim_idem: "js_trim (js_trim s) = js_trim s"
proof -
  have hd: "dropWhile P (dropWhile P xs) = dropWhile P xs" for P and xs :: string by (induction xs) auto
  have "dropWhile js_ws (js_trim s) = js_trim s"
  proof (cases "dropWhile js_ws s")
    case (Cons x xs)
    then have x: "\<not> js_ws x" by (metis dropWhile_eq_Cons_conv)
    then have "js_trim s = x # rev (dropWhile js_ws (rev xs))"
      by (cases "dropWhile js_ws (rev xs) = []") (auto simp: js_trim_def Cons dropWhile_append dropWhile_eq_Nil_conv)
    then show ?thesis using x by simp
  next
    case Nil
    then have "js_trim s = []" unfolding js_trim_def by (simp only: dropWhile.simps rev.simps)
    then show ?thesis by simp
  qed
  then show ?thesis by (simp add: js_trim_def [of "js_trim s"]) (simp add: js_trim_def hd)
qed

definition fleet_named :: "string \<Rightarrow> bool" where
  "fleet_named f \<longleftrightarrow> js_trim f \<noteq> []"

lemma legacy_fleet_named: "fleet_named (lg_fleet st) \<Longrightarrow> fleet_named (lg_fleet (foldl (legacy_line rt pv) st ls))"
proof (induction ls arbitrary: st)
  case (Cons l ls)
  have "fleet_named (lg_fleet (legacy_line rt pv st l))"
    using Cons.prems by (auto simp: legacy_line_def legacy_key_rest_def Let_def fleet_named_def trim_idem split: option.split)
  then show ?case using Cons.IH by simp
qed simp

text \<open>A legacy file converts exactly when its base is an absolute directory other than \<open>/tmp\<close> and its agent lines, one at least, have pairwise
  different ids and a task each.\<close>

theorem legacy_conversion_exact:
  assumes "rt = ''codex'' \<or> rt = ''claude-live''" "pv \<in> {''docker-codex'', ''tmux-codex'', ''tmux-claude-live''}" "provider_matches_runtime pv rt"
    and "sb = ''read-only'' \<or> sb = ''workspace-write''"
    and st: "st = foldl (legacy_line (JStr rt) (JStr pv)) \<lparr>lg_fleet = ''legacy-fleet'', lg_base = [], lg_needs = [], lg_agents = []\<rparr> (legacy_lines s)"
  obtains items where "lg_agents st = map (item_agent (JStr rt) (JStr pv)) items"
    "valid_spec je (parse_legacy_fleet_spec (Some rt) (Some pv) (Some sb) createdAt s) \<longleftrightarrow>
       base_issues (Some (parse_base (lg_base st))) = [] \<and> items \<noteq> [] \<and> distinct (map (fst \<circ> snd) items)
       \<and> list_all (\<lambda>(f, k, r). is_token k \<and> js_trim (normalize_legacy_task r) \<noteq> []) items"
proof -
  let ?spec = "legacy_spec (JStr rt) (JStr pv) (JStr sb) createdAt st"
  obtain items where it: "lg_agents st = map (item_agent (JStr rt) (JStr pv)) items" using legacy_items st by (metis append_Nil legacy_state.select_convs(4))
  have "fleet_named ''legacy-fleet''" by code_simp
  then have "fleet_named (lg_fleet st)" unfolding st by (intro legacy_fleet_named) simp
  then have fid: "non_empty_string (jget ?spec ''fleet_id'')" by (simp add: legacy_spec_def jget_Cons non_empty_string_def fleet_named_def)
  have fields: "jget ?spec ''base'' = parse_base (lg_base st)" "spec_agents ?spec = lg_agents st" "is_obj ?spec"
    "jget ?spec ''schema'' = JStr ''a2a.fleet.spec.v2''" "jget ?spec ''kind'' = JStr ''a2a-fleet''"
    by (simp_all add: legacy_spec_def jget_Cons spec_agents_def is_obj_def)
  have base: "as_record (parse_base raw) = Some (parse_base raw)" for raw by (simp add: as_record_def parse_base_def Let_def)
  have defs: "is_obj (jget ?spec ''defaults'')" by (simp add: legacy_spec_def jget_Cons is_obj_def)
  have di: "defaults_issues je (as_record (jget ?spec ''defaults'')) = []"
    using assms(1-4) topic_token_ok
    by (auto simp: legacy_spec_def jget_Cons as_record_def defaults_issues_def parse_runtime_def parse_provider_def string_value_def
        topic_issue_token mismatch_issue_def jget_def [of "JObj []"] Let_def)
  have bc: "base_issues (Some b) = [] \<Longrightarrow> absolute_path (jget b ''cwd'') \<and> jget b ''cwd'' \<noteq> JStr ''/tmp''" for b by (simp add: base_issues_def)
  have "valid_spec je ?spec \<longleftrightarrow>
       base_issues (Some (parse_base (lg_base st))) = [] \<and> items \<noteq> [] \<and> distinct (map (fst \<circ> snd) items)
       \<and> list_all (\<lambda>(f, k, r). is_token k \<and> js_trim (normalize_legacy_task r) \<noteq> []) items"
    unfolding valid_spec_iff fields base it
    using fid di bc fields(3) legacy_agents_valid [OF assms(1-3), of "parse_base (lg_base st)" _ _ "[]" 0 items] by auto
  then show thesis using that it st by (simp add: parse_legacy_fleet_spec_def Let_def)
qed

end
