(* ===== verification/Fleet_Run.thy ===== *)
theory Fleet_Run
  imports Fleet_Spec Build_Authz
begin

text \<open>
  The execution of a fleet, src/a2a_fleet_orchestrator.ts: the classification of replies, the launch and stop back ends, the run of
  \<open>executeFleetSpec\<close> cut at its awaits, and the decisions of the command line.
  What the bus tools, the launcher, a spawned command and Redis answer comes with the event; \<open>JSON.parse\<close> and \<open>JSON.stringify\<close>
  are parameters.
\<close>

subsection \<open>Replies\<close>

record reply_common =
  rc_job :: string
  rc_from :: "string option"
  rc_corr :: "string option"
  rc_msg :: jsval

datatype job_reply =
    RIgnore string
  | RAccepted reply_common
  | RCompleted reply_common "string option" "string option" "string option"
  | RFailed reply_common string
  | RRejected reply_common string "string option"

record reply_ctx =
  cx_job :: string
  cx_target :: string
  cx_self :: string
  cx_request :: jsval

definition or_str :: "string option \<Rightarrow> string \<Rightarrow> string" where
  "or_str x d = (case x of Some s \<Rightarrow> s | None \<Rightarrow> d)"

text \<open>The part of the code before the \<open>switch\<close>: the message when it answers the job.\<close>

definition reply_message :: "(string \<Rightarrow> jsval option) \<Rightarrow> string \<Rightarrow> jsval \<Rightarrow> reply_ctx \<Rightarrow> string + jsval" where
  "reply_message parse content attrs cx =
     (if jget attrs ''feed'' \<noteq> JStr ''a2a'' \<or> jget attrs ''kind'' \<noteq> JStr ''direct'' then Inl ''not_a2a_direct''
      else if jget attrs ''from'' \<noteq> JStr (cx_target cx) \<or> jget attrs ''to'' \<noteq> JStr (cx_self cx) then Inl ''wrong_peer''
      else if jget attrs ''type'' \<noteq> JStr ''reply'' \<and> jget attrs ''type'' \<noteq> JStr ''msg'' then Inl ''wrong_type''
      else if jget attrs ''type'' = JStr ''reply'' \<and> truthy (cx_request cx) \<and> jget attrs ''corr'' \<noteq> cx_request cx then Inl ''wrong_corr''
      else case parse content of
        None \<Rightarrow> Inl ''bad_json''
      | Some msg \<Rightarrow>
          if \<not> is_obj msg then Inl ''bad_body''
          else if string_value (jget msg ''job_id'') \<noteq> Some (cx_job cx) then Inl ''wrong_job''
          else Inr msg)"

definition accepted_schemas :: "jsval list" where
  "accepted_schemas = map JStr [''codex.job.accepted.v1'', ''fleet.task.accepted.v1'']"

definition completed_schemas :: "jsval list" where
  "completed_schemas = map JStr [''codex.job.completed.v1'', ''fleet.task.completed.v1'', ''fleet.worker.completed.v1'']"

definition failed_schemas :: "jsval list" where
  "failed_schemas = map JStr [''codex.job.failed.v1'', ''fleet.task.failed.v1'']"

definition rejected_schemas :: "jsval list" where
  "rejected_schemas = map JStr [''codex.job.rejected.v1'', ''fleet.task.rejected.v1'']"

definition classify_job_reply :: "(string \<Rightarrow> jsval option) \<Rightarrow> string \<Rightarrow> jsval \<Rightarrow> reply_ctx \<Rightarrow> job_reply" where
  "classify_job_reply parse content attrs cx =
     (case reply_message parse content attrs cx of
        Inl why \<Rightarrow> RIgnore why
      | Inr msg \<Rightarrow>
          (let common = \<lparr>rc_job = cx_job cx, rc_from = string_value (jget attrs ''from''), rc_corr = string_value (jget attrs ''corr''), rc_msg = msg\<rparr>;
               schema = jget msg ''schema'' in
           if schema \<in> set accepted_schemas then RAccepted common
           else if schema \<in> set completed_schemas then
             RCompleted common (string_value (jget msg ''status'')) (or_opt (string_value (jget msg ''output'')) (string_value (jget msg ''summary'')))
               (string_value (jget msg ''result_ref''))
           else if schema \<in> set failed_schemas then RFailed common (or_str (string_value (jget msg ''error'')) ''job failed'')
           else if schema \<in> set rejected_schemas then
             RRejected common (or_str (string_value (jget msg ''reason'')) ''job rejected'') (string_value (jget msg ''detail''))
           else RIgnore ''unsupported_schema''))"

text \<open>\<open>/\.topic\.([a-z0-9-]+)$/\<close>: the token after the last dot, when \<open>.topic\<close> stands before that dot.\<close>

definition subject_topic :: "string \<Rightarrow> string option" where
  "subject_topic s =
     (let r = rev s; t = rev (takeWhile token_char r); before = rev (dropWhile token_char r) in
      if t \<noteq> [] \<and> starts_with (rev ''.topic.'') (rev before) then Some t else None)"

definition topic_from_attrs :: "jsval \<Rightarrow> string option" where
  "topic_from_attrs attrs =
     (case string_value (jget attrs ''to'') of
        Some t \<Rightarrow> if starts_with ''topic:'' t then Some (drop 6 t)
                  else (case string_value (jget attrs ''subject'') of Some s \<Rightarrow> subject_topic s | None \<Rightarrow> None)
      | None \<Rightarrow> (case string_value (jget attrs ''subject'') of Some s \<Rightarrow> subject_topic s | None \<Rightarrow> None))"

subsection \<open>Environment\<close>

type_synonym envmap = "string \<Rightarrow> string option"

definition env_or :: "envmap \<Rightarrow> string \<Rightarrow> string \<Rightarrow> string" where
  "env_or env k d = or_str (env k) d"

text \<open>One line of an environment file; \<open>None\<close>: skipped.\<close>

definition strip_quotes :: "string \<Rightarrow> string" where
  "strip_quotes v =
     (let q = (\<lambda>c. c = CHR ''\"'' \<or> (of_char c :: nat) = 39); a = (case v of c # cs \<Rightarrow> if q c then cs else v | [] \<Rightarrow> []) in
      if a \<noteq> [] \<and> q (last a) then butlast a else a)"

definition env_line :: "string \<Rightarrow> (string \<times> string) option" where
  "env_line raw =
     (let line = js_trim raw; k = takeWhile (\<lambda>c. c \<noteq> CHR ''='') line; r = dropWhile (\<lambda>c. c \<noteq> CHR ''='') line in
      if line = [] \<or> starts_with ''#'' line \<or> r = [] \<or> k = [] then None else Some (js_trim k, strip_quotes (js_trim (drop 1 r))))"

definition load_env :: "string \<Rightarrow> envmap" where
  "load_env txt = foldl (\<lambda>m raw. case env_line raw of Some (k, v) \<Rightarrow> m(k \<mapsto> v) | None \<Rightarrow> m) (\<lambda>_. None) (split_on (char_of (10 :: nat)) txt)"

definition worker_worktree_root :: "envmap \<Rightarrow> string \<Rightarrow> string" where
  "worker_worktree_root env home = or_str (or_opt (env ''WORKER_WORKTREE_ROOT'') (env ''AGENTS_ROOT'')) (path_join [home, ''a2a-agents''])"

definition write_cwd_roots :: "envmap \<Rightarrow> string \<Rightarrow> string list" where
  "write_cwd_roots env home =
     filter (\<lambda>s. s \<noteq> []) (map js_trim (split_on (CHR '','') (or_str (env ''CODEX_BUILD_CWD_ROOTS'') (worker_worktree_root env home))))"

subsection \<open>Launching and stopping\<close>

text \<open>What the launcher answers to the request, or a spawned command; an unanswered request carries the text of the error.\<close>

record http_answer =
  ha_status :: nat
  ha_text :: string

record spawn_result =
  sp_stdout :: string
  sp_stderr :: string
  sp_code :: "int option"

datatype launch_answer = HttpAnswer http_answer | HttpFailed bool string | Spawned spawn_result

record launched =
  la_agent :: string
  la_provider :: jsval
  la_ok :: bool
  la_error :: string
  la_stdout :: string
  la_stderr :: string

datatype backend = ViaHttp string | ViaScript string | NoBackend

definition launch_backend :: "envmap \<Rightarrow> backend" where
  "launch_backend env =
     (let url = js_trim (env_or env ''A2A_LAUNCHER_URL'' []); script = js_trim (env_or env ''A2A_FLEET_LAUNCH_SCRIPT'' []) in
      if url \<noteq> [] then ViaHttp url else if script \<noteq> [] then ViaScript script else NoBackend)"

definition launch_mode :: "plan_agent \<Rightarrow> jsval" where
  "launch_mode a = jget (pa_launch a) ''mode''"

definition opt_field :: "string \<Rightarrow> jsval \<Rightarrow> (string \<times> jsval) list" where
  "opt_field k v = (if truthy v then [(k, v)] else [])"

definition launch_body :: "js_env \<Rightarrow> jsval \<Rightarrow> plan_agent \<Rightarrow> string \<Rightarrow> string \<Rightarrow> jsnum \<Rightarrow> jsval" where
  "launch_body je spec a orchestrator label turnTimeout = JObj
     [(''agent_id'', JStr (pa_id a)), (''created_by'', JStr orchestrator), (''mode'', launch_mode a), (''label'', JStr label),
      (''worktree'', JStr (worktree_of je spec)),
      (''policy'', JObj ([(''allow_write'', JBool (spec_sandbox spec = JStr ''workspace-write'')), (''sandbox'', spec_sandbox spec)]
         @ opt_field ''effort'' (default_of spec ''effort'') @ opt_field ''model'' (default_of spec ''model'') @ [(''turn_timeout_ms'', JNum turnTimeout)]))]"

definition launcher_url :: "string \<Rightarrow> string" where
  "launcher_url url = rev (dropWhile (\<lambda>c. c = CHR ''/'') (rev url)) @ ''/v1/agents/codex''"

definition launcher_headers :: "envmap \<Rightarrow> (string \<times> string) list" where
  "launcher_headers env = (''content-type'', ''application/json'')
     # (case or_opt (env ''A2A_LAUNCHER_TOKEN'') (env ''A2A_LAUNCHER_BEARER_TOKEN'') of
          Some t \<Rightarrow> if t = [] then [] else [(''authorization'', ''Bearer '' @ t)]
        | None \<Rightarrow> [])"

definition gateway_write_env :: "envmap \<Rightarrow> string \<Rightarrow> jsval \<Rightarrow> string \<Rightarrow> (string \<times> string) list" where
  "gateway_write_env env home spec orchestrator =
     (if spec_sandbox spec \<noteq> JStr ''workspace-write'' then []
      else [(''CODEX_GW_ALLOW_WRITE'', ''1''), (''CODEX_GW_WRITE_ALLOWLIST'', env_or env ''A2A_FLEET_WRITE_ALLOWLIST'' orchestrator),
        (''CODEX_BUILD_CWD_ROOTS'', env_or env ''CODEX_BUILD_CWD_ROOTS'' (worker_worktree_root env home)),
        (''CODEX_GW_WORKSPACE_WRITE_CODEX_SANDBOX'', env_or env ''CODEX_GW_WORKSPACE_WRITE_CODEX_SANDBOX'' ''workspace-write'')])"

definition script_command :: "js_env \<Rightarrow> string \<Rightarrow> jsval \<Rightarrow> plan_agent \<Rightarrow> string list" where
  "script_command je script spec a =
     [''bash'', script, pa_id a, if pa_provider a = JStr ''tmux-claude-live'' then ''claude'' else ''codex'', ''--'' @ js_string je (launch_mode a),
      ''--worktree'', worktree_of je spec]"

definition env_field :: "js_env \<Rightarrow> string \<Rightarrow> jsval \<Rightarrow> (string \<times> string) list" where
  "env_field je k v = (if truthy v then [(k, js_string je v)] else [])"

definition script_env :: "js_env \<Rightarrow> envmap \<Rightarrow> string \<Rightarrow> jsval \<Rightarrow> plan_agent \<Rightarrow> string \<Rightarrow> string \<Rightarrow> string \<Rightarrow> jsnum \<Rightarrow> jsnum \<Rightarrow> (string \<times> string) list" where
  "script_env je env home spec a orchestrator label dir turnTimeout toolTimeout =
     [(''CHANNELS'', dir), (''A2A_MODE'', js_string je (launch_mode a)), (''A2A_PARENT_AGENT_ID'', orchestrator), (''A2A_LAUNCH_AGENT_LABEL'', label),
      (''A2A_FLEET_ID'', js_string je (jget spec ''fleet_id'')), (''A2A_FLEET_MODE'', label),
      (''CODEX_GW_A2A_TOOLS_REQUIRED'', if default_of spec ''a2a_tools_required'' = JBool False then ''0'' else ''1''),
      (''CODEX_GW_A2A_TOOLS_TOOL_TIMEOUT_SEC'', je_num_text je toolTimeout), (''CODEX_GW_TURN_TIMEOUT_MS'', je_num_text je turnTimeout)]
     @ gateway_write_env env home spec orchestrator
     @ env_field je ''CODEX_GW_MODEL'' (default_of spec ''model'') @ env_field je ''CODEX_GW_EFFORT'' (default_of spec ''effort'')"

definition exit_text :: "js_env \<Rightarrow> string \<Rightarrow> spawn_result \<Rightarrow> string" where
  "exit_text je what r = what @ (case sp_code r of Some c \<Rightarrow> je_num_text je (Fin (of_int c)) | None \<Rightarrow> ''null_timeout'')"

text \<open>The outcome of \<open>launchFleetAgent\<close>. An answer of the other back end does not occur; it counts as no launch.\<close>

definition launch_result :: "js_env \<Rightarrow> (string \<Rightarrow> jsval option) \<Rightarrow> envmap \<Rightarrow> jsnum \<Rightarrow> plan_agent \<Rightarrow> launch_answer \<Rightarrow> launched" where
  "launch_result je parse env launchTimeout a ans =
     (let failed = (\<lambda>e. \<lparr>la_agent = pa_id a, la_provider = pa_provider a, la_ok = False, la_error = e, la_stdout = [], la_stderr = []\<rparr>) in
      case (launch_backend env, ans) of
        (ViaHttp url, HttpAnswer h) \<Rightarrow>
          (let parsed = (if ha_text h = [] then JNull else case parse (ha_text h) of Some v \<Rightarrow> v | None \<Rightarrow> JNull);
               ok = (200 \<le> ha_status h \<and> ha_status h \<le> 299 \<and> jget parsed ''ok'' = JBool True) in
           \<lparr>la_agent = pa_id a, la_provider = pa_provider a, la_ok = ok,
            la_error = (if ok then [] else ''launcher_http_'' @ nat_str (ha_status h) @ '':'' @ js_string je (nullish_or (jget parsed ''error'') (JStr ''launch_failed''))),
            la_stdout = take 4000 (js_trim (ha_text h)), la_stderr = []\<rparr>)
      | (ViaHttp url, HttpFailed aborted e) \<Rightarrow>
          failed (''launcher_unreachable:'' @ (if aborted then ''timeout_after_'' @ je_num_text je launchTimeout @ ''ms'' else e))
      | (ViaScript script, Spawned r) \<Rightarrow>
          \<lparr>la_agent = pa_id a, la_provider = pa_provider a, la_ok = (sp_code r = Some 0),
           la_error = (if sp_code r = Some 0 then [] else exit_text je ''launch_exit_'' r),
           la_stdout = take 4000 (js_trim (sp_stdout r)), la_stderr = take 4000 (js_trim (sp_stderr r))\<rparr>
      | (NoBackend, _) \<Rightarrow>
          failed ''no_launch_backend: set A2A_LAUNCHER_URL (a2a-launcher control-plane) or A2A_FLEET_LAUNCH_SCRIPT (custom launch script)''
      | _ \<Rightarrow> failed [])"

text \<open>\<open>stopFleetSessions\<close>; \<open>runs\<close> answers each command.\<close>

definition blank_split :: "string \<Rightarrow> string list" where
  "blank_split s = filter (\<lambda>w. w \<noteq> []) (foldr (\<lambda>c ws. if js_ws c then [] # ws else (c # hd ws) # tl ws) s [[]])"

record stopped =
  st_agent :: string
  st_ok :: bool
  st_stderr :: string
  st_error :: string

definition stop_command :: "envmap \<Rightarrow> string \<Rightarrow> string list option" where
  "stop_command env agentId =
     (let template = js_trim (env_or env ''A2A_FLEET_STOP_CMD'' []) in
      if template = [] then None else Some (blank_split template @ [''a2a-'' @ agentId]))"

definition stop_session :: "js_env \<Rightarrow> envmap \<Rightarrow> (string list \<Rightarrow> spawn_result) \<Rightarrow> string \<Rightarrow> stopped" where
  "stop_session je env runs agentId =
     (case stop_command env agentId of
        None \<Rightarrow> \<lparr>st_agent = agentId, st_ok = False, st_stderr = [],
          st_error = ''stop_not_configured: set A2A_FLEET_STOP_CMD (e.g. \"tmux kill-session -t\")''\<rparr>
      | Some cmd \<Rightarrow>
          (let r = runs cmd in
           \<lparr>st_agent = agentId, st_ok = (sp_code r = Some 0), st_stderr = take 1000 (js_trim (sp_stderr r)),
            st_error = (if sp_code r = Some 0 then [] else exit_text je ''stop_exit_'' r)\<rparr>))"

definition stop_fleet_sessions :: "js_env \<Rightarrow> envmap \<Rightarrow> (string list \<Rightarrow> spawn_result) \<Rightarrow> string list \<Rightarrow> stopped list" where
  "stop_fleet_sessions je env runs ids = map (stop_session je env runs) (rev (remdups (rev ids)))"

subsection \<open>The run\<close>

record fleet_cfg =
  fc_je :: js_env
  fc_parse :: "string \<Rightarrow> jsval option"
  fc_env :: envmap
  fc_home :: string
  fc_self :: string
  fc_launch_timeout :: jsnum
  fc_max_events :: jsnum
  fc_stop_after :: bool

record topic_event =
  te_id :: "string option"
  te_topic :: string
  te_from :: "string option"
  te_type :: "string option"
  te_thread :: "string option"
  te_preview :: string

record registered =
  rg_agent :: string
  rg_cwd :: string
  rg_path :: "string option"
  rg_ok :: bool
  rg_error :: string

record pending_job =
  pj_agent :: plan_agent
  pj_request :: jsval
  pj_accepted :: bool
  pj_terminal :: "job_reply option"

record fleet_job =
  fj_agent :: string
  fj_runtime :: jsval
  fj_job :: string
  fj_send :: jsval
  fj_accepted :: bool
  fj_terminal :: "job_reply option"
  fj_error :: string

text \<open>Where the run is: the agents still to be taken in the loop, and for registration those already found dispatchable.\<close>

datatype fleet_phase =
    FStart
  | FJoin string "string list"
  | FLaunch plan_agent "plan_agent list"
  | FPresence plan_agent "plan_agent list"
  | FRegister plan_agent "plan_agent list" "plan_agent list"
  | FSend plan_agent "plan_agent list"
  | FWait
  | FStop
  | FReturned
  | FThrown string

record fleet_state =
  fr_phase :: fleet_phase
  fr_joined :: "(string \<times> bool \<times> jsval) list"
  fr_launched :: "launched list"
  fr_registered :: "registered list"
  fr_pending :: "(string \<times> pending_job) list"
  fr_jobs :: "fleet_job list"
  fr_topic_events :: "topic_event list"
  fr_ok :: bool
  fr_stopped :: "stopped list"
  fr_left :: "string list"

datatype fleet_event =
    Bus_started bool
  | Topic_joined jsval
  | Launch_answered launch_answer
  | Peers_listed jsval
  | Presence_deadline
  | Cwd_checked file_system rat rstate
  | Send_answered jsval
  | All_settled
  | Timed_out
  | Stop_answered "string list \<Rightarrow> spawn_result"
  | Inbound string jsval
  | Raised string

text \<open>The handler the bus calls for every message.\<close>

definition inbound_pending :: "fleet_cfg \<Rightarrow> string \<Rightarrow> jsval \<Rightarrow> string \<times> pending_job \<Rightarrow> string \<times> pending_job" where
  "inbound_pending fc content attrs kp =
     (let (k, pj) = kp in
      (k, case classify_job_reply (fc_parse fc) content attrs
              \<lparr>cx_job = pa_job_id (pj_agent pj), cx_target = pa_id (pj_agent pj), cx_self = fc_self fc, cx_request = pj_request pj\<rparr> of
            RIgnore _ \<Rightarrow> pj
          | RAccepted _ \<Rightarrow> pj\<lparr>pj_accepted := True\<rparr>
          | r \<Rightarrow> pj\<lparr>pj_terminal := Some r\<rparr>))"

definition inbound_topic :: "fleet_cfg \<Rightarrow> string list \<Rightarrow> string \<Rightarrow> jsval \<Rightarrow> topic_event list \<Rightarrow> topic_event list" where
  "inbound_topic fc topics content attrs evs =
     (case topic_from_attrs attrs of
        Some t \<Rightarrow>
          if jget attrs ''kind'' = JStr ''topic'' \<and> t \<noteq> [] \<and> t \<in> set topics \<and> num_less (Fin (of_nat (length evs))) (fc_max_events fc)
          then evs @ [\<lparr>te_id = string_value (jget attrs ''id''), te_topic = t, te_from = string_value (jget attrs ''from''),
             te_type = string_value (jget attrs ''type''), te_thread = string_value (jget attrs ''thread''), te_preview = take 1000 content\<rparr>]
          else evs
      | None \<Rightarrow> evs)"

definition fleet_inbound :: "fleet_cfg \<Rightarrow> string list \<Rightarrow> string \<Rightarrow> jsval \<Rightarrow> fleet_state \<Rightarrow> fleet_state" where
  "fleet_inbound fc topics content attrs st = st\<lparr>fr_topic_events := inbound_topic fc topics content attrs (fr_topic_events st),
     fr_pending := map (inbound_pending fc content attrs) (fr_pending st)\<rparr>"

text \<open>From one await to the next. \<open>pending.set\<close> comes before the send.\<close>

definition enter_send :: "plan_agent list \<Rightarrow> fleet_state \<Rightarrow> fleet_state" where
  "enter_send xs st =
     (case xs of
        [] \<Rightarrow> st\<lparr>fr_phase := FWait\<rparr>
      | a # rest \<Rightarrow> st\<lparr>fr_phase := FSend a rest,
          fr_pending := AList.update (pa_job_id a) \<lparr>pj_agent = a, pj_request = JUndef, pj_accepted = False, pj_terminal = None\<rparr> (fr_pending st)\<rparr>)"

definition dispatch_message :: "fleet_cfg \<Rightarrow> (jsval \<Rightarrow> string) \<Rightarrow> jsnum \<Rightarrow> plan_agent \<Rightarrow> jsval" where
  "dispatch_message fc stringify ttl a = JObj
     [(''to'', JStr (pa_id a)), (''type'', JStr ''request''),
      (''thread'', JStr (js_string (fc_je fc) (nullish_or (jget (pa_envelope a) ''thread_key'') (jget (pa_envelope a) ''job_id'')))),
      (''body'', JStr (stringify (pa_envelope a))), (''ttl_ms'', JNum ttl)]"

definition writable :: "plan_agent \<Rightarrow> bool" where
  "writable a \<longleftrightarrow> jget (pa_envelope a) ''sandbox'' = JStr ''workspace-write''"

fun enter_register :: "plan_agent list \<Rightarrow> plan_agent list \<Rightarrow> fleet_state \<Rightarrow> fleet_state" where
  "enter_register [] disp st = enter_send disp st"
| "enter_register (a # rest) disp st =
     (if writable a then st\<lparr>fr_phase := FRegister a rest disp\<rparr> else enter_register rest (disp @ [a]) st)"

definition runnable :: "plan_agent list \<Rightarrow> launched list \<Rightarrow> plan_agent list" where
  "runnable plan ls = filter (\<lambda>a. list_ex (\<lambda>l. la_agent l = pa_id a \<and> la_ok l) ls) plan"

definition enter_launch :: "plan_agent list \<Rightarrow> plan_agent list \<Rightarrow> fleet_state \<Rightarrow> fleet_state" where
  "enter_launch plan xs st =
     (case xs of [] \<Rightarrow> enter_register (runnable plan (fr_launched st)) [] st | a # rest \<Rightarrow> st\<lparr>fr_phase := FLaunch a rest\<rparr>)"

definition enter_join :: "plan_agent list \<Rightarrow> string list \<Rightarrow> fleet_state \<Rightarrow> fleet_state" where
  "enter_join plan ts st = (case ts of [] \<Rightarrow> enter_launch plan plan st | t # rest \<Rightarrow> st\<lparr>fr_phase := FJoin t rest\<rparr>)"

text \<open>The \<open>finally\<close> block leaves the topics that were joined.\<close>

definition fleet_exit :: "fleet_phase \<Rightarrow> fleet_state \<Rightarrow> fleet_state" where
  "fleet_exit ph st = st\<lparr>fr_phase := ph, fr_left := map fst (filter (\<lambda>(t, ok, e). ok) (fr_joined st))\<rparr>"

definition peers_name :: "jsval \<Rightarrow> string \<Rightarrow> bool" where
  "peers_name v i \<longleftrightarrow> truthy (jget v ''ok'')
     \<and> (case jget v ''peers'' of JArr ps \<Rightarrow> list_ex (\<lambda>p. jget p ''id'' = JStr i) ps | _ \<Rightarrow> False)"

definition no_presence :: "launched list \<Rightarrow> launched list" where
  "no_presence ls = butlast ls @ [(last ls)\<lparr>la_ok := False, la_error := ''presence_timeout''\<rparr>]"

definition register_writable_cwd :: "fleet_cfg \<Rightarrow> file_system \<Rightarrow> rat \<Rightarrow> rstate \<Rightarrow> plan_agent \<Rightarrow> registered" where
  "register_writable_cwd fc fs now rs a =
     (let cwd = js_string (fc_je fc) (nullish_or (jget (pa_envelope a) ''cwd'') (JStr [])) in
      case canonicalize_cwd fs cwd (write_cwd_roots (fc_env fc) (fc_home fc)) of
        Inl reason \<Rightarrow> \<lparr>rg_agent = pa_id a, rg_cwd = cwd, rg_path = None, rg_ok = False, rg_error = reason\<rparr>
      | Inr p \<Rightarrow>
          (let ttl = (case fc_env fc ''A2A_FLEET_CWD_ALLOW_TTL_S'' of Some s \<Rightarrow> je_to_number (fc_je fc) (JStr s) | None \<Rightarrow> Fin 43200);
               ok = fst (register_cwd p (Some ttl) now rs) in
           \<lparr>rg_agent = pa_id a, rg_cwd = cwd, rg_path = Some p, rg_ok = ok, rg_error = (if ok then [] else ''redis_register_failed'')\<rparr>))"

definition job_of_pending :: "string \<times> pending_job \<Rightarrow> fleet_job" where
  "job_of_pending kp =
     (let (k, pj) = kp in
      \<lparr>fj_agent = pa_id (pj_agent pj), fj_runtime = pa_runtime (pj_agent pj), fj_job = k, fj_send = pj_request pj, fj_accepted = pj_accepted pj,
       fj_terminal = pj_terminal pj, fj_error = (if pj_terminal pj = None then ''terminal_timeout'' else [])\<rparr>)"

definition job_completed :: "fleet_job \<Rightarrow> bool" where
  "job_completed j = (case fj_terminal j of Some (RCompleted _ _ _ _) \<Rightarrow> True | _ \<Rightarrow> False)"

text \<open>After the race: the result, then the stop command when it is asked for.\<close>

definition conclude :: "fleet_cfg \<Rightarrow> fleet_state \<Rightarrow> fleet_state" where
  "conclude fc st =
     (let jobs = fr_jobs st @ map job_of_pending (fr_pending st);
          st1 = st\<lparr>fr_jobs := jobs,
             fr_ok := fr_launched st \<noteq> [] \<and> list_all la_ok (fr_launched st) \<and> jobs \<noteq> [] \<and> list_all job_completed jobs\<rparr> in
      if fc_stop_after fc then st1\<lparr>fr_phase := FStop\<rparr> else fleet_exit FReturned st1)"

definition send_answered :: "fleet_cfg \<Rightarrow> plan_agent \<Rightarrow> jsval \<Rightarrow> pending_job \<Rightarrow> pending_job" where
  "send_answered fc a sent pj =
     (let pj1 = pj\<lparr>pj_request := jget sent ''id''\<rparr> in
      if truthy (jget sent ''ok'') then pj1
      else pj1\<lparr>pj_terminal := Some (RFailed
        \<lparr>rc_job = pa_job_id a, rc_from = None, rc_corr = None, rc_msg = nullish_or sent (JObj [])\<rparr>
        (js_string (fc_je fc) (nullish_or (jget sent ''error'') (JStr ''send_failed''))))\<rparr>)"

definition refused_registration :: "plan_agent \<Rightarrow> registered \<Rightarrow> fleet_job" where
  "refused_registration a r = \<lparr>fj_agent = pa_id a, fj_runtime = pa_runtime a, fj_job = pa_job_id a, fj_send = JUndef, fj_accepted = False,
     fj_terminal = None, fj_error = ''cwd_registration_failed:'' @ rg_error r\<rparr>"

definition all_terminal :: "fleet_state \<Rightarrow> bool" where
  "all_terminal st \<longleftrightarrow> list_all (\<lambda>(k, pj). pj_terminal pj \<noteq> None) (fr_pending st)"

text \<open>One event. An event that does not belong to the await the run is at changes nothing.\<close>

definition fleet_step :: "fleet_cfg \<Rightarrow> plan_agent list \<Rightarrow> string list \<Rightarrow> fleet_state \<Rightarrow> fleet_event \<Rightarrow> fleet_state" where
  "fleet_step fc plan topics st ev =
     (case (fr_phase st, ev) of
        (_, Inbound content attrs) \<Rightarrow> fleet_inbound fc topics content attrs st
      | (FReturned, _) \<Rightarrow> st
      | (FThrown _, _) \<Rightarrow> st
      | (FWait, Raised e) \<Rightarrow> st
      | (_, Raised e) \<Rightarrow> fleet_exit (FThrown e) st
      | (FStart, Bus_started b) \<Rightarrow>
          if b then enter_join plan topics st else fleet_exit (FThrown (''could not join A2A bus as '' @ fc_self fc)) st
      | (FJoin t rest, Topic_joined v) \<Rightarrow>
          enter_join plan rest (st\<lparr>fr_joined := fr_joined st
            @ [(t, truthy (jget v ''ok''), if truthy (jget v ''ok'') then JUndef else nullish_or (jget v ''error'') (JStr ''join_failed''))]\<rparr>)
      | (FLaunch a rest, Launch_answered ans) \<Rightarrow>
          (let l = launch_result (fc_je fc) (fc_parse fc) (fc_env fc) (fc_launch_timeout fc) a ans; st1 = st\<lparr>fr_launched := fr_launched st @ [l]\<rparr> in
           if la_ok l then st1\<lparr>fr_phase := FPresence a rest\<rparr> else enter_launch plan rest st1)
      | (FPresence a rest, Peers_listed v) \<Rightarrow> if peers_name v (pa_id a) then enter_launch plan rest st else st
      | (FPresence a rest, Presence_deadline) \<Rightarrow> enter_launch plan rest (st\<lparr>fr_launched := no_presence (fr_launched st)\<rparr>)
      | (FRegister a rest disp, Cwd_checked fs now rs) \<Rightarrow>
          (let r = register_writable_cwd fc fs now rs a; st1 = st\<lparr>fr_registered := fr_registered st @ [r]\<rparr> in
           if rg_ok r then enter_register rest (disp @ [a]) st1
           else enter_register rest disp (st1\<lparr>fr_jobs := fr_jobs st1 @ [refused_registration a r]\<rparr>))
      | (FSend a rest, Send_answered v) \<Rightarrow>
          enter_send rest (st\<lparr>fr_pending := AList.map_entry (pa_job_id a) (send_answered fc a v) (fr_pending st)\<rparr>)
      | (FWait, All_settled) \<Rightarrow> if all_terminal st then conclude fc st else st
      | (FWait, Timed_out) \<Rightarrow> conclude fc st
      | (FStop, Stop_answered runs) \<Rightarrow>
          fleet_exit FReturned (st\<lparr>fr_stopped := stop_fleet_sessions (fc_je fc) (fc_env fc) runs (map la_agent (fr_launched st))\<rparr>)
      | _ \<Rightarrow> st)"




text \<open>The environment after the file is read, and the name under which the run joins the bus.\<close>

definition run_env :: "envmap \<Rightarrow> envmap \<Rightarrow> envmap" where
  "run_env proc file = proc ++ file"

definition orchestrator_id :: "string option \<Rightarrow> envmap \<Rightarrow> string" where
  "orchestrator_id opt env = or_str (or_opt opt (env ''A2A_AGENT_ID'')) ''fleet-orchestrator''"

subsection \<open>What a successful run has seen\<close>

definition saw_presence :: "fleet_event list \<Rightarrow> string \<Rightarrow> bool" where
  "saw_presence evs i \<longleftrightarrow> (\<exists>v. Peers_listed v \<in> set evs \<and> peers_name v i)"

definition saw_registration :: "fleet_cfg \<Rightarrow> fleet_event list \<Rightarrow> plan_agent \<Rightarrow> bool" where
  "saw_registration fc evs a \<longleftrightarrow> (\<exists>fs now rs p ttl. Cwd_checked fs now rs \<in> set evs
     \<and> canonicalize_cwd fs (js_string (fc_je fc) (nullish_or (jget (pa_envelope a) ''cwd'') (JStr []))) (write_cwd_roots (fc_env fc) (fc_home fc)) = Inr p
     \<and> fst (register_cwd p ttl now rs))"

definition completion_body :: "string \<Rightarrow> jsval \<Rightarrow> bool" where
  "completion_body job msg \<longleftrightarrow> is_obj msg \<and> jget msg ''job_id'' = JStr job
     \<and> jget msg ''schema'' \<in> {JStr ''codex.job.completed.v1'', JStr ''fleet.task.completed.v1'', JStr ''fleet.worker.completed.v1''}"

definition saw_completion :: "fleet_cfg \<Rightarrow> fleet_event list \<Rightarrow> plan_agent \<Rightarrow> bool" where
  "saw_completion fc evs a \<longleftrightarrow>
     (\<exists>content attrs msg. Inbound content attrs \<in> set evs \<and> fc_parse fc content = Some msg \<and> completion_body (pa_job_id a) msg
        \<and> jget attrs ''feed'' = JStr ''a2a'' \<and> jget attrs ''kind'' = JStr ''direct''
        \<and> jget attrs ''from'' = JStr (pa_id a) \<and> jget attrs ''to'' = JStr (fc_self fc))"

lemma saw_mono:
  "saw_presence evs i \<Longrightarrow> saw_presence (evs @ es) i" "saw_registration fc evs a \<Longrightarrow> saw_registration fc (evs @ es) a"
  "saw_completion fc evs a \<Longrightarrow> saw_completion fc (evs @ es) a"
  unfolding saw_presence_def saw_registration_def saw_completion_def set_append Un_iff by blast+




text \<open>The invariant: the launches made are those of the agents already taken, and every agent that launched is on its way: to be registered,
  dispatchable, refused, or pending under its job id.\<close>

definition present_ok :: "fleet_event list \<Rightarrow> launched list \<Rightarrow> bool" where
  "present_ok evs ls \<longleftrightarrow> list_all (\<lambda>l. la_ok l \<longrightarrow> saw_presence evs (la_agent l)) ls"

definition pending_ok :: "fleet_cfg \<Rightarrow> plan_agent list \<Rightarrow> fleet_event list \<Rightarrow> string \<times> pending_job \<Rightarrow> bool" where
  "pending_ok fc plan evs kp =
     (let a = pj_agent (snd kp) in
      fst kp = pa_job_id a \<and> a \<in> set plan \<and> (writable a \<longrightarrow> saw_registration fc evs a)
      \<and> (case pj_terminal (snd kp) of Some (RCompleted _ _ _ _) \<Rightarrow> saw_completion fc evs a | _ \<Rightarrow> True))"

definition before_jobs :: "plan_agent list \<Rightarrow> fleet_event list \<Rightarrow> plan_agent list \<Rightarrow> launched list \<Rightarrow> fleet_state \<Rightarrow> bool" where
  "before_jobs plan evs xs ls st \<longleftrightarrow>
     map la_agent ls @ map pa_id xs = map pa_id plan \<and> present_ok evs ls \<and> fr_pending st = [] \<and> fr_jobs st = []"

definition refused :: "fleet_state \<Rightarrow> plan_agent \<Rightarrow> bool" where
  "refused st a \<longleftrightarrow> (\<exists>j \<in> set (fr_jobs st). fj_agent j = pa_id a \<and> fj_terminal j = None)"

definition dispatching :: "fleet_cfg \<Rightarrow> plan_agent list \<Rightarrow> fleet_event list \<Rightarrow> plan_agent list \<Rightarrow> plan_agent list \<Rightarrow> fleet_state \<Rightarrow> bool" where
  "dispatching fc plan evs way disp st \<longleftrightarrow>
     map la_agent (fr_launched st) = map pa_id plan \<and> present_ok evs (fr_launched st)
     \<and> (\<forall>a \<in> set (runnable plan (fr_launched st)). a \<in> set way \<or> a \<in> set disp \<or> refused st a \<or> pa_job_id a \<in> fst ` set (fr_pending st))
     \<and> set way \<subseteq> set plan \<and> (\<forall>a \<in> set disp. a \<in> set plan \<and> (writable a \<longrightarrow> saw_registration fc evs a))
     \<and> list_all (pending_ok fc plan evs) (fr_pending st)"

definition agent_done :: "fleet_cfg \<Rightarrow> fleet_event list \<Rightarrow> plan_agent \<Rightarrow> bool" where
  "agent_done fc evs a \<longleftrightarrow> saw_presence evs (pa_id a) \<and> (writable a \<longrightarrow> saw_registration fc evs a) \<and> saw_completion fc evs a"

definition fleet_inv :: "fleet_cfg \<Rightarrow> plan_agent list \<Rightarrow> fleet_event list \<Rightarrow> fleet_state \<Rightarrow> bool" where
  "fleet_inv fc plan evs st =
     (case fr_phase st of
        FLaunch a rest \<Rightarrow> before_jobs plan evs (a # rest) (fr_launched st) st
      | FPresence a rest \<Rightarrow> (\<exists>ls l. fr_launched st = ls @ [l] \<and> la_agent l = pa_id a \<and> before_jobs plan evs (a # rest) ls st)
      | FRegister a rest disp \<Rightarrow> dispatching fc plan evs (a # rest) disp st
      | FSend a rest \<Rightarrow> dispatching fc plan evs [] rest st
      | FWait \<Rightarrow> dispatching fc plan evs [] [] st
      | FStop \<Rightarrow> fr_ok st \<longrightarrow> list_all (agent_done fc evs) plan
      | FReturned \<Rightarrow> fr_ok st \<longrightarrow> list_all (agent_done fc evs) plan
      | FThrown e \<Rightarrow> True
      | _ \<Rightarrow> before_jobs plan evs plan (fr_launched st) st)"

lemma pending_ok_mono: "pending_ok fc plan evs kp \<Longrightarrow> pending_ok fc plan (evs @ es) kp"
  by (auto simp: pending_ok_def Let_def saw_mono split: option.split job_reply.split)

lemma fleet_inv_mono: "fleet_inv fc plan evs st \<Longrightarrow> fleet_inv fc plan (evs @ es) st"
proof -
  have "present_ok evs ls \<Longrightarrow> present_ok (evs @ es) ls" for ls by (auto simp: present_ok_def list_all_iff saw_mono)
  moreover have "dispatching fc plan evs way disp st \<Longrightarrow> dispatching fc plan (evs @ es) way disp st" for way disp
    using pending_ok_mono calculation by (auto simp: dispatching_def list_all_iff saw_mono)
  moreover have "list_all (agent_done fc evs) plan \<Longrightarrow> list_all (agent_done fc (evs @ es)) plan"
    by (auto simp: agent_done_def list_all_iff saw_mono)
  ultimately show "fleet_inv fc plan evs st \<Longrightarrow> ?thesis"
    by (cases "fr_phase st") (auto simp: fleet_inv_def before_jobs_def)
qed










lemma launch_result_agent [simp]: "la_agent (launch_result je parse env lt a ans) = pa_id a"
  by (simp add: launch_result_def Let_def split: backend.split launch_answer.split)













lemma step_idle: "fleet_step fc plan topics st ev = st \<Longrightarrow> fleet_inv fc plan evs st \<Longrightarrow> fleet_inv fc plan (evs @ [ev]) (fleet_step fc plan topics st ev)"
  by (simp add: fleet_inv_mono)













subsection \<open>The command line\<close>

definition FLAGS_WITH_VALUES :: "string list" where
  "FLAGS_WITH_VALUES = [''--out'', ''--runtime'', ''--provider'', ''--sandbox'', ''--orchestrator-env'', ''--orchestrator-id'', ''--timeout-ms'',
     ''--gateway-turn-timeout-ms'', ''--launch-timeout-ms'', ''--presence-timeout-ms'', ''--tool-timeout-sec'', ''--max-topic-events'']"

fun positional_arg :: "string list \<Rightarrow> string option" where
  "positional_arg [] = None"
| "positional_arg (a # rest) =
     (if starts_with ''--'' a then (if a \<in> set FLAGS_WITH_VALUES then (case rest of [] \<Rightarrow> None | _ # r \<Rightarrow> positional_arg r) else positional_arg rest)
      else Some a)"

definition parse_flag :: "string list \<Rightarrow> string \<Rightarrow> string option" where
  "parse_flag args name =
     (case dropWhile (\<lambda>a. a \<noteq> name) args of
        _ # v # _ \<Rightarrow> if v \<noteq> [] \<and> \<not> starts_with ''--'' v then Some v else None
      | _ \<Rightarrow> None)"

definition has_flag :: "string list \<Rightarrow> string \<Rightarrow> bool" where
  "has_flag args name \<longleftrightarrow> name \<in> set args"

record fleet_opts =
  fo_env_file :: "string option"
  fo_id :: "string option"
  fo_timeout :: jsnum
  fo_turn_timeout :: jsnum
  fo_launch_timeout :: jsnum
  fo_presence_timeout :: jsnum
  fo_tool_timeout :: jsnum
  fo_max_events :: jsnum
  fo_smoke :: bool
  fo_stop_after :: bool

text \<open>What the command does besides printing: nothing, write a converted specification, or execute.\<close>

datatype fleet_action =
    Quit nat
  | Crash
  | Write_spec string jsval
  | Print_plan jsval
  | Execute_canary jsval fleet_opts
  | Execute_full jsval fleet_opts

definition num_or :: "js_env \<Rightarrow> string list \<Rightarrow> string \<Rightarrow> jsval \<Rightarrow> jsnum" where
  "num_or je args flag d = je_to_number je (case parse_flag args flag of Some s \<Rightarrow> JStr s | None \<Rightarrow> d)"

text \<open>\<open>Math.min(180_000, Math.max(15_000, timeoutMs - 30_000))\<close>.\<close>

definition canary_turn_timeout :: "jsnum \<Rightarrow> jsnum" where
  "canary_turn_timeout t =
     (case t of Fin q \<Rightarrow> Fin (min 180000 (max 15000 (q - 30000))) | PosInf \<Rightarrow> Fin 180000 | NegInf \<Rightarrow> Fin 15000 | NaN \<Rightarrow> NaN)"

definition canary_opts :: "js_env \<Rightarrow> string list \<Rightarrow> fleet_opts" where
  "canary_opts je args =
     (let t = num_or je args ''--timeout-ms'' (JNum (Fin 300000)) in
      \<lparr>fo_env_file = parse_flag args ''--orchestrator-env'', fo_id = parse_flag args ''--orchestrator-id'', fo_timeout = t,
       fo_turn_timeout = num_or je args ''--gateway-turn-timeout-ms'' (JNum (canary_turn_timeout t)),
       fo_launch_timeout = num_or je args ''--launch-timeout-ms'' (JNum (Fin 120000)),
       fo_presence_timeout = num_or je args ''--presence-timeout-ms'' (JNum (Fin 120000)), fo_tool_timeout = Fin 20,
       fo_max_events = num_or je args ''--max-topic-events'' (JNum (Fin 200)), fo_smoke = (\<not> has_flag args ''--real-tasks''),
       fo_stop_after = has_flag args ''--stop-after''\<rparr>)"

definition full_opts :: "js_env \<Rightarrow> string list \<Rightarrow> jsval \<Rightarrow> fleet_opts" where
  "full_opts je args spec =
     (let t = num_or je args ''--timeout-ms'' (nullish_or (default_of spec ''turn_timeout_ms'') (JNum (Fin 28800000))) in
      \<lparr>fo_env_file = parse_flag args ''--orchestrator-env'', fo_id = parse_flag args ''--orchestrator-id'', fo_timeout = t,
       fo_turn_timeout = num_or je args ''--gateway-turn-timeout-ms'' (nullish_or (default_of spec ''turn_timeout_ms'') (JNum t)),
       fo_launch_timeout = num_or je args ''--launch-timeout-ms'' (JNum (Fin 120000)),
       fo_presence_timeout = num_or je args ''--presence-timeout-ms'' (JNum (Fin 120000)),
       fo_tool_timeout = num_or je args ''--tool-timeout-sec'' (JNum (Fin 60)),
       fo_max_events = num_or je args ''--max-topic-events'' (JNum (Fin 200)), fo_smoke = False,
       fo_stop_after = has_flag args ''--stop-after''\<rparr>)"

definition run_command :: "js_env \<Rightarrow> (string \<Rightarrow> jsval option) \<Rightarrow> string list \<Rightarrow> fleet_action" where
  "run_command je read_json args =
     (case positional_arg args of
        None \<Rightarrow> Quit 2
      | Some [] \<Rightarrow> Quit 2
      | Some input \<Rightarrow>
          (case read_json input of
             None \<Rightarrow> Crash
           | Some spec \<Rightarrow>
               if \<not> valid_spec je spec then Quit 1
               else if has_flag args ''--dry-run'' then Print_plan spec
               else if \<not> has_flag args ''--execute'' then Quit 2
               else if has_flag args ''--canary'' \<and> has_flag args ''--full'' then Quit 2
               else if has_flag args ''--canary'' then Execute_canary spec (canary_opts je args)
               else if has_flag args ''--full'' then Execute_full spec (full_opts je args spec)
               else Quit 2))"

text \<open>A flag given with a value the parser does not know ends the conversion.\<close>

definition bad_flag :: "(jsval \<Rightarrow> 'a option) \<Rightarrow> string option \<Rightarrow> bool" where
  "bad_flag p flag = (case flag of Some v \<Rightarrow> p (JStr v) = None | None \<Rightarrow> False)"

definition parse_sandbox :: "jsval \<Rightarrow> string option" where
  "parse_sandbox v = (if v = JStr ''read-only'' \<or> v = JStr ''workspace-write'' then string_value v else None)"

definition convert_command :: "js_env \<Rightarrow> (string \<Rightarrow> string option) \<Rightarrow> string \<Rightarrow> string list \<Rightarrow> fleet_action" where
  "convert_command je read_text createdAt args =
     (case (positional_arg args, parse_flag args ''--out'') of
        (Some (c # cs), Some out) \<Rightarrow>
          (let r = parse_flag args ''--runtime''; p = parse_flag args ''--provider''; s = parse_flag args ''--sandbox'' in
           if bad_flag parse_runtime r \<or> bad_flag parse_provider p \<or> bad_flag parse_sandbox s then Quit 2
           else case read_text (c # cs) of
             None \<Rightarrow> Crash
           | Some txt \<Rightarrow>
               (let spec = parse_legacy_fleet_spec r p s createdAt txt in
                if valid_spec je spec then Write_spec out spec else Quit 1))
      | _ \<Rightarrow> Quit 2)"

definition validate_command :: "js_env \<Rightarrow> (string \<Rightarrow> jsval option) \<Rightarrow> string list \<Rightarrow> fleet_action" where
  "validate_command je read_json args =
     (case positional_arg args of
        Some (c # cs) \<Rightarrow> (case read_json (c # cs) of None \<Rightarrow> Crash | Some spec \<Rightarrow> Quit (if valid_spec je spec then 0 else 1))
      | _ \<Rightarrow> Quit 2)"

definition fleet_main :: "js_env \<Rightarrow> (string \<Rightarrow> jsval option) \<Rightarrow> (string \<Rightarrow> string option) \<Rightarrow> string \<Rightarrow> string list \<Rightarrow> fleet_action" where
  "fleet_main je read_json read_text createdAt argv =
     (case argv of
        [] \<Rightarrow> Quit 2
      | cmd # args \<Rightarrow>
          if cmd = [] then Quit 2
          else if cmd = ''-h'' \<or> cmd = ''--help'' then Quit 0
          else if cmd = ''convert-v1'' then convert_command je read_text createdAt args
          else if cmd = ''validate'' then validate_command je read_json args
          else if cmd = ''run'' then run_command je read_json args
          else Quit 2)"

text \<open>Nothing is executed unless \<open>run\<close> is given \<open>--execute\<close> with one of \<open>--canary\<close> and \<open>--full\<close>, without \<open>--dry-run\<close>, on a valid
  specification; and what a conversion writes is valid.\<close>

theorem execution_is_explicit:
  "fleet_main je rj rt ca argv = Execute_canary spec o1 \<or> fleet_main je rj rt ca argv = Execute_full spec o1 \<Longrightarrow>
     \<exists>args. argv = ''run'' # args \<and> ''--execute'' \<in> set args \<and> ''--dry-run'' \<notin> set args \<and> (''--canary'' \<in> set args) \<noteq> (''--full'' \<in> set args)
       \<and> valid_spec je spec"
  "fleet_main je rj rt ca argv = Write_spec out spec \<Longrightarrow> valid_spec je spec"
  by (auto simp: fleet_main_def convert_command_def validate_command_def run_command_def has_flag_def Let_def
      split: list.splits option.splits if_splits)

text \<open>Without \<open>--dry-run\<close> and \<open>--execute\<close> the command plans nothing: it prints the usage and fails.\<close>

lemma dry_run_is_not_the_default:
  "''--dry-run'' \<notin> set args \<Longrightarrow> ''--execute'' \<notin> set args \<Longrightarrow> fleet_main je rj rt ca (''run'' # args) \<in> {Quit 1, Quit 2, Crash}"
  by (auto simp: fleet_main_def run_command_def has_flag_def split: option.splits list.splits if_splits)

text \<open>\<open>executeCanary\<close> and \<open>executeFullFleet\<close>: what the run gets.\<close>

definition spec_to_run :: "(jsval \<Rightarrow> string) \<Rightarrow> string \<Rightarrow> fleet_action \<Rightarrow> (jsval \<times> fleet_opts) option" where
  "spec_to_run stringify now act =
     (case act of
        Execute_canary spec o1 \<Rightarrow> Some (canary_to_run stringify (fo_smoke o1) now spec, o1)
      | Execute_full spec o1 \<Rightarrow> Some (spec, o1)
      | _ \<Rightarrow> None)"

definition fleet_exit_code :: "fleet_state \<Rightarrow> nat" where
  "fleet_exit_code st = (if fr_ok st then 0 else 1)"

end
