(* ===== verification/Routing_Governor.thy ===== *)
theory Routing_Governor
  imports Prelude
begin

text \<open>
  The build routing governor, \<open>src/codex_routing_governor.ts\<close>: hysteresis latches, per-provider
  circuit breakers and the ordered routing rules. Numbers are exact rationals (the callers pass
  finite numbers); a field the caller may omit is an option. \<open>Date.now()\<close> is an argument.
\<close>

subsection \<open>Data\<close>

datatype route_target = ToClaude | ToCodex | ToQueue

datatype provider = Claude | Codex

datatype fit = CodexStrong | ClaudeStrong | Either

record route_task =
  t_role :: "string option"
  t_fit :: "fit option"
  t_protected :: bool
  t_peak_critical :: bool

record route_signals =
  s_now :: rat
  s_peak_window :: bool
  s_429_rate :: rat
  s_budget_pct :: rat
  s_secondary_high :: bool

record breaker =
  consecutiveSheds :: nat
  consecutive429s :: nat
  consecutiveFailures :: nat
  openUntil :: rat

record gov_state =
  lastTarget :: "route_target option"
  anthropic429High :: "bool option"
  codexBudgetHigh :: "bool option"
  br_claude :: "breaker option"
  br_codex :: "breaker option"
  lastNow :: "rat option"

record gov_cfg =
  anthropic429Hi :: rat
  anthropic429Lo :: rat
  codexBudgetHi :: rat
  codexBudgetLo :: rat
  breakerConsecutiveFailures :: nat
  breakerCooldownMs :: rat
  baseBackoffMs :: rat
  maxBackoffMs :: rat
  claudeReserveRoles :: "string list"

record partial_cfg =
  p_429Hi :: "rat option"
  p_429Lo :: "rat option"
  p_budgetHi :: "rat option"
  p_budgetLo :: "rat option"
  p_failures :: "nat option"
  p_cooldown :: "rat option"
  p_baseBackoff :: "rat option"
  p_maxBackoff :: "rat option"
  p_roles :: "string list option"

definition DEFAULT_GOVERNOR_CFG :: gov_cfg where
  "DEFAULT_GOVERNOR_CFG = \<lparr>anthropic429Hi = 8 / 100, anthropic429Lo = 3 / 100, codexBudgetHi = 92,
     codexBudgetLo = 85, breakerConsecutiveFailures = 3, breakerCooldownMs = 300000,
     baseBackoffMs = 30000, maxBackoffMs = 600000,
     claudeReserveRoles = [''orchestrator'', ''standing_pm'', ''standing-pm'']\<rparr>"

subsection \<open>Operations\<close>

definition normalize_role :: "string option \<Rightarrow> string" where
  "normalize_role r = js_lower (js_trim (case r of None \<Rightarrow> [] | Some s \<Rightarrow> s))"

definition or_default :: "'a option \<Rightarrow> 'a \<Rightarrow> 'a" where
  "or_default x d = (case x of None \<Rightarrow> d | Some v \<Rightarrow> v)"

definition with_defaults :: "partial_cfg \<Rightarrow> gov_cfg" where
  "with_defaults p =
     \<lparr>anthropic429Hi = or_default (p_429Hi p) (anthropic429Hi DEFAULT_GOVERNOR_CFG),
      anthropic429Lo = or_default (p_429Lo p) (anthropic429Lo DEFAULT_GOVERNOR_CFG),
      codexBudgetHi = or_default (p_budgetHi p) (codexBudgetHi DEFAULT_GOVERNOR_CFG),
      codexBudgetLo = or_default (p_budgetLo p) (codexBudgetLo DEFAULT_GOVERNOR_CFG),
      breakerConsecutiveFailures = or_default (p_failures p) (breakerConsecutiveFailures DEFAULT_GOVERNOR_CFG),
      breakerCooldownMs = or_default (p_cooldown p) (breakerCooldownMs DEFAULT_GOVERNOR_CFG),
      baseBackoffMs = or_default (p_baseBackoff p) (baseBackoffMs DEFAULT_GOVERNOR_CFG),
      maxBackoffMs = or_default (p_maxBackoff p) (maxBackoffMs DEFAULT_GOVERNOR_CFG),
      claudeReserveRoles = filter (\<lambda>s. s \<noteq> []) (map (\<lambda>r. normalize_role (Some r))
        (or_default (p_roles p) (claudeReserveRoles DEFAULT_GOVERNOR_CFG)))\<rparr>"

definition empty_breaker :: breaker where
  "empty_breaker = \<lparr>consecutiveSheds = 0, consecutive429s = 0, consecutiveFailures = 0, openUntil = 0\<rparr>"

definition ensure_state :: "gov_state \<Rightarrow> gov_state" where
  "ensure_state s = s\<lparr>br_claude := Some (or_default (br_claude s) empty_breaker),
                     br_codex := Some (or_default (br_codex s) empty_breaker)\<rparr>"

definition get_breaker :: "provider \<Rightarrow> gov_state \<Rightarrow> breaker" where
  "get_breaker p s = or_default (case p of Claude \<Rightarrow> br_claude s | Codex \<Rightarrow> br_codex s) empty_breaker"

definition set_breaker :: "provider \<Rightarrow> breaker \<Rightarrow> gov_state \<Rightarrow> gov_state" where
  "set_breaker p b s = (case p of Claude \<Rightarrow> s\<lparr>br_claude := Some b\<rparr> | Codex \<Rightarrow> s\<lparr>br_codex := Some b\<rparr>)"

definition latch_high :: "bool option \<Rightarrow> rat \<Rightarrow> rat \<Rightarrow> rat \<Rightarrow> bool \<Rightarrow> bool" where
  "latch_high current v hi lo hiInclusive =
     (if current = Some True then \<not> v \<le> lo
      else if hiInclusive then v \<ge> hi else v > hi)"

definition breaker_open :: "provider \<Rightarrow> rat \<Rightarrow> gov_state \<Rightarrow> bool \<times> gov_state" where
  "breaker_open p now s =
     (let b = get_breaker p s in
      if openUntil b > now then (True, s)
      else if openUntil b \<noteq> 0 \<and> openUntil b \<le> now then (False, set_breaker p (b\<lparr>openUntil := 0\<rparr>) s)
      else (False, s))"

definition is_claude_reserve_role :: "string option \<Rightarrow> gov_cfg \<Rightarrow> bool" where
  "is_claude_reserve_role role c =
     (let n = normalize_role role in if n = [] then False else n \<in> set (claudeReserveRoles c))"

definition backoff_ms :: "gov_state \<Rightarrow> gov_cfg \<Rightarrow> rat" where
  "backoff_ms s c =
     (let failures = max (max (consecutiveFailures (get_breaker Claude s)) (consecutiveFailures (get_breaker Codex s))) 1
      in min (maxBackoffMs c) (baseBackoffMs c * of_nat failures))"

datatype extra = NoExtra | RoleReserve | HumanReview | Backoff rat

record decision =
  dec_at :: rat
  dec_target :: route_target
  dec_reason :: string
  dec_task :: route_task
  dec_signals :: route_signals
  dec_429High :: bool
  dec_budgetHigh :: bool
  dec_claude :: "breaker \<times> bool"
  dec_codex :: "breaker \<times> bool"
  dec_pressure :: "bool \<times> bool"
  dec_cfg :: gov_cfg
  dec_extra :: extra

definition select ::
  "route_task \<Rightarrow> route_signals \<Rightarrow> gov_cfg \<Rightarrow> bool \<Rightarrow> bool \<Rightarrow> bool \<Rightarrow> bool \<Rightarrow> gov_state
   \<Rightarrow> route_target \<Rightarrow> string \<Rightarrow> extra \<Rightarrow> bool \<Rightarrow> decision \<times> gov_state" where
  "select task sig c claudeBreakerOpen codexBreakerOpen claudePressured codexPressured s target reason ex hardClaude =
     (let (t1, r1) = (if target = ToCodex \<and> codexPressured
            then (if claudePressured then ToQueue else ToClaude,
                  if codexBreakerOpen then reason @ '':codex-breaker-open'' else reason @ '':codex-pressured'')
            else (target, reason));
          (t2, r2) = (if target = ToClaude \<and> claudeBreakerOpen
            then (if hardClaude then ToQueue else if codexPressured then ToQueue else ToCodex,
                  reason @ '':claude-breaker-open'')
            else (t1, r1))
      in (\<lparr>dec_at = s_now sig, dec_target = t2, dec_reason = r2, dec_task = task, dec_signals = sig,
            dec_429High = (anthropic429High s = Some True), dec_budgetHigh = (codexBudgetHigh s = Some True),
            dec_claude = (get_breaker Claude s, claudeBreakerOpen),
            dec_codex = (get_breaker Codex s, codexBreakerOpen),
            dec_pressure = (claudePressured, codexPressured), dec_cfg = c, dec_extra = ex\<rparr>,
          s\<lparr>lastTarget := Some t2\<rparr>))"

definition route_build :: "route_task \<Rightarrow> route_signals \<Rightarrow> partial_cfg \<Rightarrow> gov_state \<Rightarrow> decision \<times> gov_state" where
  "route_build task sig pcfg s0 =
     (let c = with_defaults pcfg;
          s1 = (ensure_state s0)\<lparr>lastNow := Some (s_now sig)\<rparr>;
          s2 = s1\<lparr>anthropic429High := Some (latch_high (anthropic429High s1) (s_429_rate sig)
                     (anthropic429Hi c) (anthropic429Lo c) False)\<rparr>;
          s3 = s2\<lparr>codexBudgetHigh := Some (latch_high (codexBudgetHigh s2) (s_budget_pct sig)
                     (codexBudgetHi c) (codexBudgetLo c) True)\<rparr>;
          (claudeOpen, s4) = breaker_open Claude (s_now sig) s3;
          (codexOpen, s) = breaker_open Codex (s_now sig) s4;
          claudePressured = (claudeOpen \<or> anthropic429High s = Some True);
          codexPressured = (codexOpen \<or> codexBudgetHigh s = Some True \<or> s_secondary_high sig);
          sel = select task sig c claudeOpen codexOpen claudePressured codexPressured s
      in if is_claude_reserve_role (t_role task) c then sel ToClaude ''reserved-role-claude'' RoleReserve True
         else if t_protected task then sel ToClaude ''protected-path-human-review'' HumanReview True
         else if claudePressured \<and> codexPressured then sel ToQueue ''both-pressured'' (Backoff (backoff_ms s c)) False
         else if s_peak_window sig \<and> \<not> t_peak_critical task then sel ToCodex ''peak-noncritical-spillover'' NoExtra False
         else if anthropic429High s = Some True then sel ToCodex ''anthropic-429-high'' NoExtra False
         else if codexBudgetHigh s = Some True \<or> s_secondary_high sig then
           sel ToClaude (if s_secondary_high sig then ''codex-secondary-high'' else ''codex-budget-high'') NoExtra False
         else if t_fit task = Some CodexStrong then sel ToCodex ''fit-codex-strong'' NoExtra False
         else if t_fit task = Some ClaudeStrong then sel ToClaude ''fit-claude-strong'' NoExtra False
         else sel ToClaude ''default-claude'' NoExtra False)"

datatype outcome = Ok | Shed | Rate429

definition record_outcome ::
  "provider \<Rightarrow> outcome \<Rightarrow> partial_cfg \<Rightarrow> rat option \<Rightarrow> rat \<Rightarrow> gov_state \<Rightarrow> gov_state" where
  "record_outcome p out pcfg now0 wall s0 =
     (let now = or_default now0 (or_default (lastNow s0) wall);
          c = with_defaults pcfg;
          s = (ensure_state s0)\<lparr>lastNow := Some now\<rparr>;
          b = get_breaker p s
      in if out = Ok then set_breaker p empty_breaker s
         else let b1 = b\<lparr>consecutiveFailures := Suc (consecutiveFailures b)\<rparr>;
                  b2 = (if out = Shed
                        then b1\<lparr>consecutiveSheds := Suc (consecutiveSheds b1), consecutive429s := 0\<rparr>
                        else b1\<lparr>consecutive429s := Suc (consecutive429s b1), consecutiveSheds := 0\<rparr>);
                  b3 = (if consecutiveFailures b2 \<ge> breakerConsecutiveFailures c
                        then b2\<lparr>openUntil := now + breakerCooldownMs c\<rparr> else b2)
              in set_breaker p b3 s)"

subsection \<open>Lemmas\<close>

definition hard_claude :: "route_task \<Rightarrow> partial_cfg \<Rightarrow> bool" where
  "hard_claude task pcfg \<longleftrightarrow> is_claude_reserve_role (t_role task) (with_defaults pcfg) \<or> t_protected task"

definition open_at :: "provider \<Rightarrow> rat \<Rightarrow> gov_state \<Rightarrow> bool" where
  "open_at p now s \<longleftrightarrow> now < openUntil (get_breaker p s)"

lemma get_set_breaker [simp]:
  "get_breaker p (set_breaker q b s) = (if p = q then b else get_breaker p s)"
  by (cases p; cases q) (simp_all add: get_breaker_def set_breaker_def or_default_def)

lemma get_breaker_ensure [simp]: "get_breaker p (ensure_state s) = get_breaker p s"
  by (cases p) (simp_all add: get_breaker_def ensure_state_def or_default_def split: option.split)

lemma get_breaker_fields [simp]:
  "get_breaker p (s\<lparr>lastNow := x\<rparr>) = get_breaker p s"
  "get_breaker p (s\<lparr>anthropic429High := y\<rparr>) = get_breaker p s"
  "get_breaker p (s\<lparr>codexBudgetHigh := y\<rparr>) = get_breaker p s"
  "get_breaker p (s\<lparr>lastTarget := z\<rparr>) = get_breaker p s"
  by (cases p; simp add: get_breaker_def)+

lemma set_breaker_fields [simp]:
  "anthropic429High (set_breaker q b s) = anthropic429High s"
  "codexBudgetHigh (set_breaker q b s) = codexBudgetHigh s"
  by (cases q; simp add: set_breaker_def)+

lemma breaker_open_eq:
  "breaker_open p now s = (open_at p now s, snd (breaker_open p now s))"
  by (simp add: breaker_open_def open_at_def Let_def)

lemma breaker_open_state:
  "get_breaker q (snd (breaker_open p now s)) =
     (if q = p \<and> openUntil (get_breaker p s) \<le> now then (get_breaker p s)\<lparr>openUntil := 0\<rparr> else get_breaker q s)"
  "anthropic429High (snd (breaker_open p now s)) = anthropic429High s"
  "codexBudgetHigh (snd (breaker_open p now s)) = codexBudgetHigh s"
  by (auto simp: breaker_open_def Let_def)

text \<open>The state and the four pressure bits the rules see.\<close>

definition routed_state :: "route_signals \<Rightarrow> partial_cfg \<Rightarrow> gov_state \<Rightarrow> gov_state" where
  "routed_state sig pcfg s0 =
     (let c = with_defaults pcfg; s1 = (ensure_state s0)\<lparr>lastNow := Some (s_now sig)\<rparr>;
          s2 = s1\<lparr>anthropic429High := Some (latch_high (anthropic429High s1) (s_429_rate sig)
                     (anthropic429Hi c) (anthropic429Lo c) False)\<rparr>;
          s3 = s2\<lparr>codexBudgetHigh := Some (latch_high (codexBudgetHigh s2) (s_budget_pct sig)
                     (codexBudgetHi c) (codexBudgetLo c) True)\<rparr>
      in snd (breaker_open Codex (s_now sig) (snd (breaker_open Claude (s_now sig) s3))))"

definition claude_pressured :: "route_signals \<Rightarrow> partial_cfg \<Rightarrow> gov_state \<Rightarrow> bool" where
  "claude_pressured sig pcfg s \<longleftrightarrow> open_at Claude (s_now sig) s \<or> anthropic429High (routed_state sig pcfg s) = Some True"

definition codex_pressured :: "route_signals \<Rightarrow> partial_cfg \<Rightarrow> gov_state \<Rightarrow> bool" where
  "codex_pressured sig pcfg s \<longleftrightarrow> open_at Codex (s_now sig) s \<or> codexBudgetHigh (routed_state sig pcfg s) = Some True
     \<or> s_secondary_high sig"

lemma route_build_eq:
  "route_build task sig pcfg s =
     (let st = routed_state sig pcfg s; co = open_at Claude (s_now sig) s; xo = open_at Codex (s_now sig) s;
          cp = claude_pressured sig pcfg s; xp = codex_pressured sig pcfg s;
          c = with_defaults pcfg; sel = select task sig c co xo cp xp st
      in if is_claude_reserve_role (t_role task) c then sel ToClaude ''reserved-role-claude'' RoleReserve True
         else if t_protected task then sel ToClaude ''protected-path-human-review'' HumanReview True
         else if cp \<and> xp then sel ToQueue ''both-pressured'' (Backoff (backoff_ms st c)) False
         else if s_peak_window sig \<and> \<not> t_peak_critical task then sel ToCodex ''peak-noncritical-spillover'' NoExtra False
         else if anthropic429High st = Some True then sel ToCodex ''anthropic-429-high'' NoExtra False
         else if codexBudgetHigh st = Some True \<or> s_secondary_high sig then
           sel ToClaude (if s_secondary_high sig then ''codex-secondary-high'' else ''codex-budget-high'') NoExtra False
         else if t_fit task = Some CodexStrong then sel ToCodex ''fit-codex-strong'' NoExtra False
         else if t_fit task = Some ClaudeStrong then sel ToClaude ''fit-claude-strong'' NoExtra False
         else sel ToClaude ''default-claude'' NoExtra False)"
proof -
  have open_eq: "open_at p n ((ensure_state s)\<lparr>lastNow := a, anthropic429High := b, codexBudgetHigh := d\<rparr>) = open_at p n s"
    for p n a b d by (simp add: open_at_def)
  have open_next: "open_at Codex n (snd (breaker_open Claude m t)) = open_at Codex n t" for n m t
    by (simp add: open_at_def breaker_open_state)
  show ?thesis
    unfolding route_build_def Let_def claude_pressured_def codex_pressured_def routed_state_def
    by (subst breaker_open_eq, simp only: prod.case, subst breaker_open_eq, simp only: prod.case open_next open_eq)
qed

lemma select_target:
  "dec_target (fst (select task sig c co xo cp xp s t r ex hard)) =
     (if t = ToClaude \<and> co then if hard \<or> xp then ToQueue else ToCodex
      else if t = ToCodex \<and> xp then if cp then ToQueue else ToClaude else t)"
  by (auto simp: select_def)

lemma route_target_cases:
  "dec_target (fst (route_build task sig pcfg s)) =
     (let co = open_at Claude (s_now sig) s; cp = claude_pressured sig pcfg s; xp = codex_pressured sig pcfg s in
      if hard_claude task pcfg then (if co then ToQueue else ToClaude)
      else if cp \<and> xp then ToQueue
      else if cp then (if co \<or> s_peak_window sig \<and> \<not> t_peak_critical task
                          \<or> anthropic429High (routed_state sig pcfg s) = Some True then ToCodex else ToClaude)
      else if xp then ToClaude
      else if s_peak_window sig \<and> \<not> t_peak_critical task \<or> t_fit task = Some CodexStrong then ToCodex
      else ToClaude)"
  unfolding route_build_eq Let_def hard_claude_def
  by (auto simp: select_target claude_pressured_def codex_pressured_def)

text \<open>
  C25. The routing advice respects pressure and reserve: a task goes to Codex only when Codex is
  not under pressure and the task is neither reserved nor on protected paths; to Claude only
  when Claude's breaker is closed; and it is queued exactly when its hard requirement for Claude
  meets an open breaker, or both providers are under pressure.
\<close>

theorem routing_respects_pressure:
  "let t = dec_target (fst (route_build task sig pcfg s)) in
     (t = ToCodex \<longrightarrow> \<not> codex_pressured sig pcfg s \<and> \<not> hard_claude task pcfg)
     \<and> (t = ToClaude \<longrightarrow> \<not> open_at Claude (s_now sig) s)
     \<and> (t = ToQueue) = (if hard_claude task pcfg then open_at Claude (s_now sig) s
         else claude_pressured sig pcfg s \<and> codex_pressured sig pcfg s)"
  unfolding route_target_cases Let_def by (auto simp: claude_pressured_def)

theorem routing_respects_pressure_witness:
  "dec_target (fst (route_build \<lparr>t_role = None, t_fit = Some CodexStrong, t_protected = False, t_peak_critical = False\<rparr>
      \<lparr>s_now = 10, s_peak_window = False, s_429_rate = 0, s_budget_pct = 95, s_secondary_high = False\<rparr>
      \<lparr>p_429Hi = None, p_429Lo = None, p_budgetHi = None, p_budgetLo = None, p_failures = None, p_cooldown = None,
        p_baseBackoff = None, p_maxBackoff = None, p_roles = None\<rparr>
      \<lparr>lastTarget = None, anthropic429High = None, codexBudgetHigh = None, br_claude = None, br_codex = None,
        lastNow = None\<rparr>)) \<noteq> ToCodex"
  using routing_respects_pressure [of "\<lparr>t_role = None, t_fit = Some CodexStrong, t_protected = False, t_peak_critical = False\<rparr>"
      "\<lparr>s_now = 10, s_peak_window = False, s_429_rate = 0, s_budget_pct = 95, s_secondary_high = False\<rparr>"
      "\<lparr>p_429Hi = None, p_429Lo = None, p_budgetHi = None, p_budgetLo = None, p_failures = None, p_cooldown = None,
        p_baseBackoff = None, p_maxBackoff = None, p_roles = None\<rparr>"
      "\<lparr>lastTarget = None, anthropic429High = None, codexBudgetHigh = None, br_claude = None, br_codex = None,
        lastNow = None\<rparr>"]
  by (auto simp: Let_def codex_pressured_def routed_state_def breaker_open_state latch_high_def with_defaults_def
      or_default_def DEFAULT_GOVERNOR_CFG_def ensure_state_def)

subsection \<open>The breakers over a run\<close>

datatype gov_event = Route route_task route_signals | Outcome provider outcome "rat option" rat

definition gov_step :: "partial_cfg \<Rightarrow> gov_state \<Rightarrow> gov_event \<Rightarrow> gov_state" where
  "gov_step pcfg s ev = (case ev of
      Route task sig \<Rightarrow> snd (route_build task sig pcfg s)
    | Outcome p out now wall \<Rightarrow> record_outcome p out pcfg now wall s)"

definition gov_init :: gov_state where
  "gov_init = \<lparr>lastTarget = None, anthropic429High = None, codexBudgetHigh = None, br_claude = None,
     br_codex = None, lastNow = None\<rparr>"

text \<open>The outcomes of one provider, newest first, and its current run of failures.\<close>

definition outcomes_of :: "provider \<Rightarrow> gov_event list \<Rightarrow> outcome list" where
  "outcomes_of p evs = rev (concat (map (\<lambda>ev. case ev of
      Outcome q out now wall \<Rightarrow> (if q = p then [out] else []) | _ \<Rightarrow> []) evs))"

definition failure_run :: "provider \<Rightarrow> gov_event list \<Rightarrow> outcome list" where
  "failure_run p evs = takeWhile (\<lambda>x. x \<noteq> Ok) (outcomes_of p evs)"

definition breaker_inv :: "partial_cfg \<Rightarrow> provider \<Rightarrow> gov_event list \<Rightarrow> gov_state \<Rightarrow> bool" where
  "breaker_inv pcfg p evs s \<longleftrightarrow>
     (let b = get_breaker p s; fs = failure_run p evs in
      consecutiveFailures b = length fs
      \<and> consecutiveSheds b = length (takeWhile (\<lambda>x. x = Shed) fs)
      \<and> consecutive429s b = length (takeWhile (\<lambda>x. x = Rate429) fs)
      \<and> (openUntil b \<noteq> 0 \<longrightarrow> breakerConsecutiveFailures (with_defaults pcfg) \<le> length fs))"

lemma failure_run_snoc:
  "failure_run p (evs @ [Route task sig]) = failure_run p evs"
  "failure_run p (evs @ [Outcome q out now wall]) =
     (if q = p then if out = Ok then [] else out # failure_run p evs else failure_run p evs)"
  by (simp_all add: failure_run_def outcomes_of_def)

lemma select_state: "get_breaker p (snd (select task sig c co xo cp xp s t r ex hard)) = get_breaker p s"
  by (simp add: select_def case_prod_unfold Let_def)

lemma routed_breaker:
  "get_breaker p (routed_state sig pcfg s) =
     (if openUntil (get_breaker p s) \<le> s_now sig then (get_breaker p s)\<lparr>openUntil := 0\<rparr> else get_breaker p s)"
  by (cases p) (simp_all add: routed_state_def Let_def breaker_open_state)

lemma route_breaker:
  "get_breaker p (snd (route_build task sig pcfg s)) = get_breaker p (routed_state sig pcfg s)"
  by (simp add: route_build_eq Let_def select_state)

lemma record_outcome_breaker:
  "get_breaker q (record_outcome p out pcfg now0 wall s) =
     (if q \<noteq> p then get_breaker q s
      else if out = Ok then empty_breaker
      else (let b = get_breaker p s; n = Suc (consecutiveFailures b) in
        \<lparr>consecutiveSheds = (if out = Shed then Suc (consecutiveSheds b) else 0),
         consecutive429s = (if out = Shed then 0 else Suc (consecutive429s b)),
         consecutiveFailures = n,
         openUntil = (if breakerConsecutiveFailures (with_defaults pcfg) \<le> n
           then or_default now0 (or_default (lastNow s) wall) + breakerCooldownMs (with_defaults pcfg)
           else openUntil b)\<rparr>))"
  by (simp add: record_outcome_def Let_def)

lemma breaker_inv_step:
  assumes "breaker_inv pcfg p evs s"
  shows "breaker_inv pcfg p (evs @ [ev]) (gov_step pcfg s ev)"
proof (cases ev)
  case (Route task sig)
  then show ?thesis
    using assms by (auto simp: gov_step_def breaker_inv_def route_breaker routed_breaker failure_run_snoc Let_def)
next
  case (Outcome q out now wall)
  then show ?thesis
    using assms
    by (cases out) (auto simp: gov_step_def breaker_inv_def record_outcome_breaker failure_run_snoc empty_breaker_def Let_def)
qed

lemma breaker_inv_run: "breaker_inv pcfg p evs (run (gov_step pcfg) gov_init evs)"
proof (induction evs rule: rev_induct)
  case Nil
  then show ?case
    by (cases p) (simp_all add: breaker_inv_def gov_init_def get_breaker_def or_default_def empty_breaker_def
        failure_run_def outcomes_of_def Let_def)
next
  case (snoc ev evs)
  then show ?case using breaker_inv_step [OF snoc] by (simp add: run_append)
qed

text \<open>
  The circuit breakers count what happened: after any sequence of routing decisions and
  outcomes, a breaker's three counters are the lengths of the provider's current runs of
  failures, sheds and 429s, and a breaker can only be open when that run of failures has reached
  the threshold; one success closes it.
\<close>

theorem breaker_tracks_outcomes:
  "let b = get_breaker p (run (gov_step pcfg) gov_init evs); fs = failure_run p evs in
     consecutiveFailures b = length fs
     \<and> consecutiveSheds b = length (takeWhile (\<lambda>x. x = Shed) fs)
     \<and> consecutive429s b = length (takeWhile (\<lambda>x. x = Rate429) fs)
     \<and> (openUntil b = 0 \<or> breakerConsecutiveFailures (with_defaults pcfg) \<le> length fs)"
  using breaker_inv_run [of pcfg p evs] by (auto simp: breaker_inv_def Let_def)

definition target_of :: "provider \<Rightarrow> route_target" where
  "target_of p = (case p of Claude \<Rightarrow> ToClaude | Codex \<Rightarrow> ToCodex)"

fun route_all :: "partial_cfg \<Rightarrow> gov_state \<Rightarrow> (route_task \<times> route_signals) list \<Rightarrow> route_target list" where
  "route_all pcfg s [] = []"
| "route_all pcfg s ((task, sig) # rs) =
     (let (d, s') = route_build task sig pcfg s in dec_target d # route_all pcfg s' rs)"

lemma open_blocks:
  "openUntil (get_breaker p s) = u \<Longrightarrow> \<forall>(task, sig) \<in> set rs. s_now sig < u \<Longrightarrow>
   target_of p \<notin> set (route_all pcfg s rs)"
proof (induction rs arbitrary: s)
  case Nil
  then show ?case by simp
next
  case (Cons r rs)
  obtain task sig where r: "r = (task, sig)" by fastforce
  have op: "open_at p (s_now sig) s" using Cons.prems r by (simp add: open_at_def)
  then have "dec_target (fst (route_build task sig pcfg s)) \<noteq> target_of p"
    unfolding route_target_cases Let_def
    by (cases p) (auto simp: target_of_def claude_pressured_def codex_pressured_def)
  moreover have "openUntil (get_breaker p (snd (route_build task sig pcfg s))) = u"
    using op Cons.prems(1) by (simp add: route_breaker routed_breaker open_at_def)
  then have "target_of p \<notin> set (route_all pcfg (snd (route_build task sig pcfg s)) rs)"
    using Cons.IH Cons.prems(2) by simp
  ultimately show ?case by (auto simp: r case_prod_unfold Let_def)
qed

text \<open>
  An open breaker keeps work away: when a failure at time \<open>t\<close> brings a provider's run of
  failures to the threshold, no routing decision made before the end of the cooldown sends work
  to that provider, whatever the tasks and signals in between.
\<close>

theorem open_breaker_blocks_provider:
  assumes "out \<noteq> Ok"
    and "breakerConsecutiveFailures (with_defaults pcfg) \<le> length (failure_run p (evs @ [Outcome p out (Some t) wall]))"
    and "\<forall>(task, sig) \<in> set rs. s_now sig < t + breakerCooldownMs (with_defaults pcfg)"
  shows "target_of p \<notin> set (route_all pcfg (run (gov_step pcfg) gov_init (evs @ [Outcome p out (Some t) wall])) rs)"
proof (rule open_blocks [OF _ assms(3)])
  show "openUntil (get_breaker p (run (gov_step pcfg) gov_init (evs @ [Outcome p out (Some t) wall]))) =
      t + breakerCooldownMs (with_defaults pcfg)"
    using assms(1,2) breaker_inv_run [of pcfg p evs]
    by (simp add: run_append gov_step_def record_outcome_breaker failure_run_snoc breaker_inv_def Let_def or_default_def)
qed

definition default_cfg :: partial_cfg where
  "default_cfg = \<lparr>p_429Hi = None, p_429Lo = None, p_budgetHi = None, p_budgetLo = None, p_failures = Some 1,
     p_cooldown = None, p_baseBackoff = None, p_maxBackoff = None, p_roles = None\<rparr>"

theorem open_breaker_blocks_provider_witness:
  "ToCodex \<notin> set (route_all default_cfg (run (gov_step default_cfg) gov_init [Outcome Codex Shed (Some 0) 0])
     [(\<lparr>t_role = None, t_fit = Some CodexStrong, t_protected = False, t_peak_critical = False\<rparr>,
       \<lparr>s_now = 299999, s_peak_window = True, s_429_rate = 0, s_budget_pct = 0, s_secondary_high = False\<rparr>)])"
proof -
  have "breakerConsecutiveFailures (with_defaults default_cfg) = 1" "breakerCooldownMs (with_defaults default_cfg) = 300000"
    by (simp_all add: default_cfg_def with_defaults_def or_default_def DEFAULT_GOVERNOR_CFG_def)
  moreover have "failure_run Codex ([] @ [Outcome Codex Shed (Some 0) 0]) = [Shed]"
    by (simp add: failure_run_def outcomes_of_def)
  ultimately show ?thesis
    using open_breaker_blocks_provider [of Shed default_cfg Codex "[]" 0 0]
    by (simp add: target_of_def del: route_all.simps)
qed

theorem breaker_tracks_outcomes_witness:
  "consecutiveFailures (get_breaker Codex (run (gov_step default_cfg) gov_init
      [Outcome Codex Ok (Some 0) 0, Outcome Codex Rate429 (Some 1) 0, Outcome Codex Shed (Some 2) 0])) = 2
   \<and> openUntil (get_breaker Claude (run (gov_step default_cfg) gov_init
      [Outcome Codex Ok (Some 0) 0, Outcome Codex Rate429 (Some 1) 0, Outcome Codex Shed (Some 2) 0])) = 0"
proof -
  let ?evs = "[Outcome Codex Ok (Some 0) 0, Outcome Codex Rate429 (Some 1) 0, Outcome Codex Shed (Some 2) 0]"
  have "failure_run Codex ?evs = [Shed, Rate429]" "failure_run Claude ?evs = []"
    by (simp_all add: failure_run_def outcomes_of_def)
  moreover have "breakerConsecutiveFailures (with_defaults default_cfg) = 1"
    by (simp add: default_cfg_def with_defaults_def or_default_def)
  ultimately show ?thesis
    using breaker_tracks_outcomes [of Codex default_cfg ?evs] breaker_tracks_outcomes [of Claude default_cfg ?evs]
    by (simp add: Let_def del: run_Cons)
qed

end
