(* ===== verification/Build_Guard.thy ===== *)
theory Build_Guard
  imports Paths
begin

text \<open>
  The pre-commit guard of build output, \<open>src/codex_build_guard.ts\<close>.

  Git and the file system are parameters, a snapshot of the repository: \<open>git args\<close> is what
  \<open>spawnGit\<close> answers (\<open>None\<close> where it rejects), \<open>read_file\<close> what \<open>readWorktreeText\<close> finds. A pattern is a
  literal or glob string, or a regular expression given by its source and its match predicate.
  The four default deny patterns and the seed pattern are translated; the list
  \<open>DEFAULT_SECRET_PATTERNS\<close> is the parameter \<open>default_secrets\<close>.
\<close>

subsection \<open>Git output\<close>

definition nul :: char where "nul = CHR 0x00"

definition unique :: "'a list \<Rightarrow> 'a list" where
  "unique xs = rev (remdups (rev xs))"


definition non_empty :: "string \<Rightarrow> string list" where
  "non_empty p = (if p = [] then [] else [p])"

fun porcelain_files :: "string list \<Rightarrow> string list" where
  "porcelain_files [] = []"
| "porcelain_files (rec # parts) =
     (if rec = [] then porcelain_files parts
      else
        (let path = (if length rec \<ge> 4 then drop 3 rec else []); status = take 2 rec in
         if CHR ''R'' \<in> set status \<or> CHR ''C'' \<in> set status
         then (case parts of
                 [] \<Rightarrow> non_empty path
               | oldPath # rest \<Rightarrow> non_empty path @ non_empty oldPath @ porcelain_files rest)
         else non_empty path @ porcelain_files parts))"

definition parse_porcelain_z :: "string \<Rightarrow> string list" where
  "parse_porcelain_z out = unique (porcelain_files (split_on nul out))"

subsection \<open>Patterns\<close>















subsection \<open>Secrets\<close>





subsection \<open>The guard\<close>















subsection \<open>Lemmas\<close>

lemma set_unique [simp]: "set (unique xs) = set xs"
  by (simp add: unique_def)

lemma distinct_unique [simp]: "distinct (unique xs)"
  by (simp add: unique_def)



text \<open>One entry of \<open>git status --porcelain=v1 -z\<close>: the status, a path, and for renames and copies the old path.\<close>

datatype status_entry = Entry char char string "string option"

definition entry_ok :: "status_entry \<Rightarrow> bool" where
  "entry_ok e = (case e of Entry x y p q \<Rightarrow>
     x \<noteq> nul \<and> y \<noteq> nul \<and> p \<noteq> [] \<and> nul \<notin> set p
     \<and> (case q of None \<Rightarrow> x \<notin> set ''RC'' \<and> y \<notin> set ''RC''
        | Some old \<Rightarrow> (x \<in> set ''RC'' \<or> y \<in> set ''RC'') \<and> old \<noteq> [] \<and> nul \<notin> set old))"

definition entry_paths :: "status_entry \<Rightarrow> string list" where
  "entry_paths e = (case e of Entry x y p q \<Rightarrow> p # (case q of None \<Rightarrow> [] | Some old \<Rightarrow> [old]))"

definition render_entry :: "status_entry \<Rightarrow> string" where
  "render_entry e = (case e of Entry x y p q \<Rightarrow>
     [x, y, CHR '' ''] @ p @ [nul] @ (case q of None \<Rightarrow> [] | Some old \<Rightarrow> old @ [nul]))"

lemma entry_simps [simp]:
  "entry_paths (Entry x y p q) = p # (case q of None \<Rightarrow> [] | Some old \<Rightarrow> [old])"
  "render_entry (Entry x y p q) = [x, y, CHR '' ''] @ p @ [nul] @ (case q of None \<Rightarrow> [] | Some old \<Rightarrow> old @ [nul])"
  by (simp_all add: entry_paths_def render_entry_def)

lemma split_on_block: "c \<notin> set s \<Longrightarrow> split_on c (s @ c # t) = s # split_on c t"
  by (induction s) auto

lemma porcelain_roundtrip:
  "list_all entry_ok es \<Longrightarrow>
   porcelain_files (split_on nul (concat (map render_entry es))) = concat (map entry_paths es)"
proof (induction es)
  case Nil
  then show ?case by simp
next
  case (Cons e es)
  obtain x y p q where e: "e = Entry x y p q" by (cases e) auto
  let ?rest = "concat (map render_entry es)"
  have ok: "x \<noteq> nul" "y \<noteq> nul" "p \<noteq> []" "nul \<notin> set p" using Cons.prems by (auto simp: e entry_ok_def)
  then have rec: "nul \<notin> set ([x, y, CHR '' ''] @ p)" by (simp add: nul_def)
  have IH: "porcelain_files (split_on nul ?rest) = concat (map entry_paths es)"
    using Cons by simp
  show ?case
  proof (cases q)
    case None
    have "split_on nul (render_entry e @ ?rest) = ([x, y, CHR '' ''] @ p) # split_on nul ?rest"
      using split_on_block [OF rec, of ?rest] by (simp add: e None)
    moreover have "CHR ''R'' \<notin> {x, y} \<and> CHR ''C'' \<notin> {x, y}" "4 \<le> length ([x, y, CHR '' ''] @ p)"
      using Cons.prems ok(3) by (auto simp: e None entry_ok_def Suc_le_eq)
    ultimately show ?thesis
      using IH ok(3) by (simp add: e None non_empty_def)
  next
    case (Some old)
    then have old: "nul \<notin> set old" "old \<noteq> []" "CHR ''R'' \<in> {x, y} \<or> CHR ''C'' \<in> {x, y}"
      using Cons.prems by (auto simp: e entry_ok_def)
    have "split_on nul (render_entry e @ ?rest) = ([x, y, CHR '' ''] @ p) # old # split_on nul ?rest"
      using split_on_block [OF rec, of "old @ nul # ?rest"] split_on_block [OF old(1), of ?rest]
      by (simp add: e Some)
    moreover have "4 \<le> length ([x, y, CHR '' ''] @ p)" using ok(3) by (simp add: Suc_le_eq)
    ultimately show ?thesis
      using IH ok(3) old(2,3) by (auto simp: e Some non_empty_def)
  qed
qed









text \<open>
  \<open>parsePorcelainZ\<close> reads back what git writes: for any list of well-formed status entries in
  the NUL-separated format, it returns every path of every entry, both sides of renames and
  copies included, without duplicates and nothing else.
\<close>

theorem porcelain_parse_complete:
  assumes "list_all entry_ok es"
  shows "parse_porcelain_z (concat (map render_entry es)) = unique (concat (map entry_paths es))
    \<and> set (parse_porcelain_z (concat (map render_entry es))) = (\<Union>e \<in> set es. set (entry_paths e))"
  using porcelain_roundtrip [OF assms] by (simp add: parse_porcelain_z_def)

definition sample_entries :: "status_entry list" where
  "sample_entries = [Entry CHR ''M'' CHR '' '' ''a.ts'' None, Entry CHR ''R'' CHR '' '' ''n.ts'' (Some ''o.ts'')]"

theorem porcelain_parse_complete_witness:
  "set (parse_porcelain_z (concat (map render_entry sample_entries))) = {''a.ts'', ''n.ts'', ''o.ts''}"
proof -
  have "list_all entry_ok sample_entries" by (simp add: sample_entries_def entry_ok_def nul_def)
  then show ?thesis using porcelain_parse_complete [of sample_entries] by (auto simp: sample_entries_def)
qed

end
