(* ===== verification/Taskboard_Core.thy ===== *)
theory Taskboard_Core
  imports Prelude
begin

text \<open>
  The taskboard event core (src/taskboard_event_core.ts): the webhook's headers and signature, the
  normalisation of a webhook payload into an event envelope, the removal of sensitive keys, and
  the NATS subject of an event.

  \<^item> \<open>hmac\<close> stands for \<open>createHmac('sha256', key).update(m).digest()\<close>, \<open>date_parse\<close> for \<open>Date.parse\<close>
    (\<open>None\<close> for NaN), \<open>iso\<close> for \<open>toISOString\<close>.
  \<^item> Numbers read from text are exact where JavaScript rounds to a double; overflow to infinity is
    written out.
  \<^item> An object built with \<open>out[key] = v\<close> has no own property \<open>__proto__\<close>.

  The lemmas show what a signature accepts, that no sensitive key survives at any depth, and that
  every subject is a well-formed subject of the stream.
\<close>

subsection \<open>Headers and the signature\<close>

definition TASKBOARD_SIGNATURE_HEADER :: string where "TASKBOARD_SIGNATURE_HEADER = ''X-Taskboard-Signature''"
definition TASKBOARD_TIMESTAMP_HEADER :: string where "TASKBOARD_TIMESTAMP_HEADER = ''X-Taskboard-Timestamp''"
definition TASKBOARD_DELIVERY_HEADER :: string where "TASKBOARD_DELIVERY_HEADER = ''X-Taskboard-Delivery''"
definition TASKBOARD_EVENT_HEADER :: string where "TASKBOARD_EVENT_HEADER = ''X-Taskboard-Event''"

record webhook_headers =
  wh_signature :: "string option"
  wh_timestamp :: "string option"
  wh_deliveryId :: "string option"
  wh_eventType :: "string option"

text \<open>A \<open>Headers\<close> object holds lower-case names; a plain record may hold any case and nullish values.\<close>

datatype http_headers = HeadersObj "(string \<times> string) list" | HeadersRec "(string \<times> string option) list"

definition header_get :: "http_headers \<Rightarrow> string \<Rightarrow> string option" where
  "header_get hs name =
     (case hs of
        HeadersObj kvs \<Rightarrow> map_of kvs (js_lower name)
      | HeadersRec kvs \<Rightarrow>
          (case find (\<lambda>(k, v). js_lower k = js_lower name) kvs of None \<Rightarrow> None | Some (k, v) \<Rightarrow> v))"

definition taskboard_webhook_headers :: "http_headers \<Rightarrow> webhook_headers" where
  "taskboard_webhook_headers hs =
     \<lparr>wh_signature = header_get hs TASKBOARD_SIGNATURE_HEADER,
      wh_timestamp = header_get hs TASKBOARD_TIMESTAMP_HEADER,
      wh_deliveryId = header_get hs TASKBOARD_DELIVERY_HEADER,
      wh_eventType = header_get hs TASKBOARD_EVENT_HEADER\<rparr>"

datatype raw_body = RawBytes "byte list" | RawText string

definition body_bytes :: "raw_body \<Rightarrow> byte list" where
  "body_bytes b = (case b of RawBytes bs \<Rightarrow> bs | RawText s \<Rightarrow> utf8 s)"

definition mac_input :: "string \<Rightarrow> string \<Rightarrow> raw_body \<Rightarrow> byte list" where
  "mac_input timestamp deliveryId rawBody = utf8 (timestamp @ ''.'' @ deliveryId @ ''.'') @ body_bytes rawBody"

definition compute_signature ::
  "(byte list \<Rightarrow> byte list \<Rightarrow> byte list) \<Rightarrow> string \<Rightarrow> string \<Rightarrow> string \<Rightarrow> raw_body \<Rightarrow> string" where
  "compute_signature hmac secret timestamp deliveryId rawBody =
     ''sha256='' @ hex_str (hmac (utf8 secret) (mac_input timestamp deliveryId rawBody))"

definition all_digits :: "string \<Rightarrow> bool" where
  "all_digits s \<longleftrightarrow> s \<noteq> [] \<and> list_all is_digit s"

text \<open>The least number that \<open>Number\<close> rounds to infinity.\<close>

definition num_overflow :: rat where "num_overflow = 2 ^ 1024 - 2 ^ 970"

definition decimal_of :: "string \<Rightarrow> rat option" where
  "decimal_of s =
     (case split_on (CHR ''.'') s of
        [a] \<Rightarrow> if all_digits a then Some (of_nat (digits_val 0 a)) else None
      | [a, b] \<Rightarrow> if all_digits a \<and> all_digits b
                then Some (of_nat (digits_val 0 (a @ b)) / 10 ^ length b) else None
      | _ \<Rightarrow> None)"

definition parse_timestamp_ms :: "(string \<Rightarrow> int option) \<Rightarrow> string \<Rightarrow> int option" where
  "parse_timestamp_ms date_parse timestamp =
     (let trimmed = js_trim timestamp in
      if trimmed = [] then None
      else (case decimal_of trimmed of
              Some n \<Rightarrow>
                (if n \<ge> num_overflow \<or> n \<le> 0 then None
                 else Some (if n \<ge> 1000000000000 then \<lfloor>n\<rfloor> else \<lfloor>n * 1000\<rfloor>))
            | None \<Rightarrow> date_parse trimmed))"

datatype verify_failure = MissingSecret | MissingSignature | MissingTimestamp | MissingDelivery
  | BadTimestamp | StaleTimestamp | BadSignatureFormat | SignatureMismatch

definition failure_status :: "verify_failure \<Rightarrow> nat" where
  "failure_status f = (if f = MissingSecret then 500 else 401)"

record verify_opts =
  vo_secret :: "string option"
  vo_signature :: "string option"
  vo_timestamp :: "string option"
  vo_deliveryId :: "string option"
  vo_rawBody :: raw_body
  vo_nowMs :: int
  vo_maxSkewMs :: "int option"

definition DEFAULT_MAX_SKEW_MS :: int where "DEFAULT_MAX_SKEW_MS = 300000"

text \<open>\<open>x?.trim()\<close> followed by the truthiness test: \<open>[]\<close> when absent or blank.\<close>

definition trim_opt :: "string option \<Rightarrow> string" where
  "trim_opt x = (case x of None \<Rightarrow> [] | Some s \<Rightarrow> js_trim s)"

definition hex_lower :: "char \<Rightarrow> bool" where
  "hex_lower c \<longleftrightarrow> is_digit c \<or> char_in c 97 102"

text \<open>\<open>/^sha256=[0-9a-f]{64}$/i\<close>\<close>

definition signature_format :: "string \<Rightarrow> bool" where
  "signature_format s \<longleftrightarrow>
     starts_with ''sha256='' (js_lower s) \<and> length s = 71 \<and> list_all hex_lower (drop 7 (js_lower s))"

definition verify_webhook ::
  "(byte list \<Rightarrow> byte list \<Rightarrow> byte list) \<Rightarrow> (string \<Rightarrow> int option) \<Rightarrow> verify_opts \<Rightarrow> verify_failure + unit" where
  "verify_webhook hmac date_parse o' =
     (let secret = trim_opt (vo_secret o') in
      if secret = [] then Inl MissingSecret else
      let signature = trim_opt (vo_signature o') in
      if signature = [] then Inl MissingSignature else
      let timestamp = trim_opt (vo_timestamp o') in
      if timestamp = [] then Inl MissingTimestamp else
      let deliveryId = trim_opt (vo_deliveryId o') in
      if deliveryId = [] then Inl MissingDelivery else
      (case parse_timestamp_ms date_parse timestamp of
         None \<Rightarrow> Inl BadTimestamp
       | Some timestampMs \<Rightarrow>
           (let skewMs = \<bar>vo_nowMs o' - timestampMs\<bar>;
                maxSkewMs = (case vo_maxSkewMs o' of None \<Rightarrow> DEFAULT_MAX_SKEW_MS | Some m \<Rightarrow> m) in
            if skewMs > maxSkewMs then Inl StaleTimestamp
            else if \<not> signature_format signature then Inl BadSignatureFormat
            else (let expected = compute_signature hmac secret timestamp deliveryId (vo_rawBody o');
                      got = utf8 (js_lower signature); want = utf8 expected in
                  if length got \<noteq> length want \<or> got \<noteq> want then Inl SignatureMismatch else Inr ()))))"

text \<open>\<open>resolveTaskboardEventBridgeSecret\<close>; \<open>read_file\<close> is \<open>Bun.file(f).text()\<close>, \<open>None\<close> when it rejects.\<close>

definition resolve_secret ::
  "(string \<Rightarrow> string option) \<Rightarrow> string option \<Rightarrow> string option \<Rightarrow> unit + string option" where
  "resolve_secret read_file envSecret envFile =
     (if trim_opt envSecret \<noteq> [] then Inr (Some (trim_opt envSecret))
      else if trim_opt envFile = [] then Inr None
      else (case read_file (trim_opt envFile) of
              None \<Rightarrow> Inl ()
            | Some v \<Rightarrow> Inr (if js_trim v = [] then None else Some (js_trim v))))"

subsection \<open>Reading values\<close>

definition string_value :: "jsval \<Rightarrow> string option" where
  "string_value v = (case v of JStr s \<Rightarrow> if js_trim s = [] then None else Some (js_trim s) | _ \<Rightarrow> None)"

text \<open>\<open>Math.trunc\<close>, and \<open>Number\<close> of a string of the form \<open>-?\d+\<close>.\<close>

definition trunc_rat :: "rat \<Rightarrow> int" where
  "trunc_rat q = (if q < 0 then - \<lfloor>- q\<rfloor> else \<lfloor>q\<rfloor>)"

definition int_literal :: "string \<Rightarrow> jsnum option" where
  "int_literal s =
     (let neg = starts_with ''-'' s; ds = (if neg then tl s else s) in
      if \<not> all_digits ds then None
      else (let n = digits_val 0 ds in
            if of_nat n \<ge> num_overflow then Some (if neg then NegInf else PosInf)
            else Some (Fin (if neg then - of_nat n else of_nat n))))"

definition number_value :: "jsval \<Rightarrow> jsnum option" where
  "number_value v =
     (case v of
        JNum (Fin q) \<Rightarrow> Some (Fin (of_int (trunc_rat q)))
      | JStr s \<Rightarrow> (if js_trim s = [] then None else int_literal (js_trim s))
      | _ \<Rightarrow> None)"

fun first_number :: "jsval list \<Rightarrow> jsnum option" where
  "first_number [] = None"
| "first_number (v # vs) = (case number_value v of Some n \<Rightarrow> Some n | None \<Rightarrow> first_number vs)"

subsection \<open>Sensitive keys\<close>

text \<open>\<open>k.replace(/[...]+/g, r)\<close>: every maximal run of characters of a class becomes one \<open>r\<close>.\<close>

fun collapse :: "(char \<Rightarrow> bool) \<Rightarrow> char \<Rightarrow> string \<Rightarrow> string" where
  "collapse cls r [] = []"
| "collapse cls r [c] = [if cls c then r else c]"
| "collapse cls r (c # d # cs) =
     (if cls c then (if cls d then collapse cls r (d # cs) else r # collapse cls r (d # cs))
      else c # collapse cls r (d # cs))"

definition ends_in :: "string \<Rightarrow> string \<Rightarrow> bool" where
  "ends_in e s \<longleftrightarrow> length e \<le> length s \<and> drop (length s - length e) s = e"

definition SENSITIVE_WORDS :: "string list" where
  "SENSITIVE_WORDS = [''token'', ''secret'', ''password'', ''hmac'', ''authorization'', ''bearer'']"

text \<open>
  The first pattern asks for one of the words between underscores or the ends of the key: the
  words contain no underscore, so it is a segment. No character of \<open>k\<close> is a line terminator, so
  \<open>.*\<close> is any text.
\<close>

definition sensitive_key :: "string \<Rightarrow> bool" where
  "sensitive_key key =
     (let k = collapse (\<lambda>c. c = CHR ''-'' \<or> js_ws c) (CHR ''_'') (js_lower key) in
      list_ex (\<lambda>w. w \<in> set SENSITIVE_WORDS) (split_on (CHR ''_'') k)
      \<or> contains ''privatekey'' k \<or> contains ''private_key'' k
      \<or> (starts_with ''vault_'' k \<and> ends_in ''path'' (drop 6 k))
      \<or> list_ex (\<lambda>t. starts_with ''_vault_'' t \<and> ends_in ''path'' (drop 7 t)) (suffixes k))"

definition proto_key :: string where "proto_key = ''__proto__''"

fun sanitize :: "jsval \<Rightarrow> jsval" where
  "sanitize (JArr vs) = JArr (map sanitize vs)"
| "sanitize (JObj kvs) =
     JObj (concat (map (\<lambda>(k, v). if sensitive_key k \<or> k = proto_key \<or> sanitize v = JUndef then []
                                 else [(k, sanitize v)]) kvs))"
| "sanitize v = v"

definition EVENT_OMIT :: "string list" where
  "EVENT_OMIT = [''schema'', ''event_id'', ''event_type'', ''occurred_at'', ''source'', ''scope'',
     ''idempotency'', ''actor'', ''task_id'', ''fire_generation'', ''db_event_id'', ''outbox_id'',
     ''org_id'', ''project_id'', ''epic_id'']"

definition event_specific_payload :: "(string \<times> jsval) list \<Rightarrow> jsval" where
  "event_specific_payload kvs = JObj (filter (\<lambda>(k, v). k \<notin> set EVENT_OMIT \<and> k \<noteq> proto_key) kvs)"

subsection \<open>The envelope\<close>

record event_envelope =
  ev_event_id :: string
  ev_event_type :: string
  ev_occurred_at :: string
  ev_taskboard_url :: "string option"
  ev_db_event_id :: "jsnum option"
  ev_org_id :: jsnum
  ev_project_id :: jsnum
  ev_epic_id :: "jsnum option"
  ev_task_id :: "jsnum option"
  ev_fire_generation :: "jsnum option"
  ev_actor :: jsval
  ev_payload :: jsval

record normalize_opts =
  no_taskboardUrl :: "string option"
  no_defaultOrgId :: "jsnum option"
  no_defaultProjectId :: "jsnum option"
  no_now :: string

definition default_num :: "jsnum option \<Rightarrow> jsval" where
  "default_num n = JNum (case n of None \<Rightarrow> Fin 1 | Some x \<Rightarrow> x)"

text \<open>
  \<open>recordOrNull(x)?.f\<close> is \<open>jget x f\<close>: \<open>undefined\<close> when \<open>x\<close> is not an object.
  \<open>no_now\<close> is \<open>new Date(nowMs()).toISOString()\<close>.
\<close>

definition event_org_id :: "jsval \<Rightarrow> normalize_opts \<Rightarrow> jsnum option" where
  "event_org_id input o' =
     (let task = jget input ''task'' in
      first_number [jget (jget input ''scope'') ''org_id'', jget input ''org_id'', jget task ''org_id'',
        jget (jget task ''project'') ''org_id'', jget (jget task ''epic'') ''org_id'',
        default_num (no_defaultOrgId o')])"

definition event_project_id :: "jsval \<Rightarrow> normalize_opts \<Rightarrow> jsnum option" where
  "event_project_id input o' =
     (let task = jget input ''task'' in
      first_number [jget (jget input ''scope'') ''project_id'', jget input ''project_id'', jget task ''project_id'',
        jget (jget task ''project'') ''id'', jget (jget task ''epic'') ''project_id'',
        default_num (no_defaultProjectId o')])"

definition envelope_of ::
  "jsval \<Rightarrow> (string \<times> jsval) list \<Rightarrow> normalize_opts \<Rightarrow> string \<Rightarrow> string \<Rightarrow> jsnum \<Rightarrow> jsnum \<Rightarrow> event_envelope" where
  "envelope_of input kvs o' eventId eventType orgId projectId =
     (let task = jget input ''task''; source = jget input ''source''; scope = jget input ''scope'';
          idem = jget input ''idempotency'';
          actor = (if is_obj (jget input ''actor'') then jget input ''actor'' else JObj []) in
      \<lparr>ev_event_id = eventId, ev_event_type = eventType,
       ev_occurred_at = (case string_value (jget input ''occurred_at'') of Some s \<Rightarrow> s | None \<Rightarrow> no_now o'),
       ev_taskboard_url = (case string_value (jget source ''taskboard_url'') of
          Some s \<Rightarrow> Some s | None \<Rightarrow> no_taskboardUrl o'),
       ev_db_event_id = first_number [jget source ''db_event_id'', jget input ''db_event_id'', jget input ''outbox_id''],
       ev_org_id = orgId, ev_project_id = projectId,
       ev_epic_id = first_number [jget scope ''epic_id'', jget input ''epic_id'', jget task ''epic_id'',
          jget (jget task ''epic'') ''id''],
       ev_task_id = first_number [jget scope ''task_id'', jget input ''task_id'', jget task ''id''],
       ev_fire_generation = first_number [jget idem ''fire_generation'', jget input ''fire_generation'',
          jget task ''fire_generation''],
       ev_actor = sanitize actor,
       ev_payload = sanitize (if is_obj (jget input ''payload'') then jget input ''payload''
          else event_specific_payload kvs)\<rparr>)"

definition normalize_payload :: "jsval \<Rightarrow> normalize_opts \<Rightarrow> string + event_envelope" where
  "normalize_payload input o' =
     (case input of
        JObj kvs \<Rightarrow>
          (case string_value (jget input ''event_id'') of
             None \<Rightarrow> Inl ''webhook payload is missing event_id''
           | Some eventId \<Rightarrow>
          (case string_value (jget input ''event_type'') of
             None \<Rightarrow> Inl ''webhook payload is missing event_type''
           | Some eventType \<Rightarrow>
          (case event_org_id input o' of
             None \<Rightarrow> Inl ''webhook payload is missing org_id''
           | Some orgId \<Rightarrow>
          (case event_project_id input o' of
             None \<Rightarrow> Inl ''webhook payload is missing project_id''
           | Some projectId \<Rightarrow> Inr (envelope_of input kvs o' eventId eventType orgId projectId)))))
      | _ \<Rightarrow> Inl ''webhook payload must be a JSON object'')"

subsection \<open>Subjects\<close>

definition subject_char :: "char \<Rightarrow> bool" where
  "subject_char c \<longleftrightarrow> is_lower c \<or> is_digit c \<or> c = CHR ''_'' \<or> c = CHR ''-''"

definition is_dash :: "char \<Rightarrow> bool" where "is_dash c \<longleftrightarrow> c = CHR ''-''"

definition strip_dashes :: "string \<Rightarrow> string" where
  "strip_dashes s = rev (dropWhile is_dash (rev (dropWhile is_dash s)))"

definition subject_token :: "string \<Rightarrow> string" where
  "subject_token value =
     (let raw = js_lower (js_trim value);
          token = strip_dashes (collapse (\<lambda>c. \<not> subject_char c) (CHR ''-'') raw)
      in if token = [] then ''unknown'' else token)"

text \<open>\<open>String(n)\<close> of the numbers \<open>numberValue\<close> returns (decimal notation, so below \<open>10^21\<close>).\<close>

definition num_str :: "jsnum \<Rightarrow> string" where
  "num_str n = (case n of Fin q \<Rightarrow> int_str \<lfloor>q\<rfloor> | PosInf \<Rightarrow> ''Infinity'' | NegInf \<Rightarrow> ''-Infinity'' | NaN \<Rightarrow> ''NaN'')"

definition event_type_tokens :: "string \<Rightarrow> string" where
  "event_type_tokens eventType = join_with ''.'' (map subject_token (split_on (CHR ''.'') eventType))"

definition build_subject :: "event_envelope \<Rightarrow> string" where
  "build_subject e = ''taskboard.v1.org.'' @ subject_token (num_str (ev_org_id e)) @ ''.project.''
     @ subject_token (num_str (ev_project_id e)) @ ''.'' @ event_type_tokens (ev_event_type e)"

subsection \<open>Lemmas: the signature\<close>

lemma hex_digit_ok: "n < 16 \<Longrightarrow> hex_lower (hex_digit n)"
proof -
  assume "n < 16"
  then have "n \<in> {0..<16}" by simp
  then show ?thesis
    by (simp add: atLeastLessThan_upt upt_conv_Cons numeral_eq_Suc)
      (elim disjE; simp add: hex_lower_def hex_digit_def digit_char_def is_digit_def char_in_def)
qed

lemma hex_lower_char: "hex_lower c \<Longrightarrow> lower_char c = c"
  by (auto simp: hex_lower_def is_digit_def char_in_def lower_char_def)

lemma hex_byte_ok: "list_all hex_lower (hex_byte b)"
proof -
  have "unat b < 256" using unsigned_less [of b] by simp
  then show ?thesis by (simp add: hex_byte_def hex_digit_ok)
qed

lemma hex_str_ok: "list_all hex_lower (hex_str bs)"
  by (induction bs) (use hex_byte_ok in \<open>auto simp: hex_str_def\<close>)

lemma length_hex_str [simp]: "length (hex_str bs) = 2 * length bs"
  by (induction bs) (auto simp: hex_str_def hex_byte_def)

lemma expected_format:
  assumes "js_lower s = ''sha256='' @ h" "list_all hex_lower h" "length h = 64"
  shows "signature_format s"
proof -
  have "length s = length (js_lower s)" by (simp add: js_lower_def)
  then show ?thesis using assms by (simp add: signature_format_def starts_with_def)
qed

text \<open>
  C26. A webhook is accepted exactly when it is authentic and fresh: the secret, signature, timestamp
  and delivery id are all present, the timestamp is within the allowed skew of the receiver's clock,
  and the signature is, up to the case of its letters, \<open>sha256=\<close> and the HMAC under the secret of the
  timestamp, the delivery id and the raw body. The hypothesis is the digest length of SHA-256.
\<close>

theorem webhook_verdict_exact:
  assumes "\<And>k m. length (hmac k m) = 32"
  shows "verify_webhook hmac date_parse o' = Inr () \<longleftrightarrow>
    (let sec = trim_opt (vo_secret o'); ts = trim_opt (vo_timestamp o'); dl = trim_opt (vo_deliveryId o') in
     sec \<noteq> [] \<and> ts \<noteq> [] \<and> dl \<noteq> []
     \<and> (\<exists>t. parse_timestamp_ms date_parse ts = Some t
         \<and> \<bar>vo_nowMs o' - t\<bar> \<le> (case vo_maxSkewMs o' of None \<Rightarrow> DEFAULT_MAX_SKEW_MS | Some m \<Rightarrow> m))
     \<and> js_lower (trim_opt (vo_signature o')) =
         ''sha256='' @ hex_str (hmac (utf8 sec) (utf8 (ts @ ''.'' @ dl @ ''.'') @ body_bytes (vo_rawBody o'))))"
proof -
  let ?e = "compute_signature hmac (trim_opt (vo_secret o')) (trim_opt (vo_timestamp o'))
      (trim_opt (vo_deliveryId o')) (vo_rawBody o')"
  have "js_lower (trim_opt (vo_signature o')) = ?e \<Longrightarrow> signature_format (trim_opt (vo_signature o'))"
    using expected_format hex_str_ok assms by (auto simp: compute_signature_def)
  moreover have "js_lower (trim_opt (vo_signature o')) = ?e \<Longrightarrow> trim_opt (vo_signature o') \<noteq> []"
    by (auto simp: compute_signature_def js_lower_def)
  moreover have "?e = ''sha256='' @ hex_str (hmac (utf8 (trim_opt (vo_secret o')))
      (utf8 (trim_opt (vo_timestamp o') @ ''.'' @ trim_opt (vo_deliveryId o') @ ''.'') @ body_bytes (vo_rawBody o')))"
    by (simp add: compute_signature_def mac_input_def)
  ultimately show ?thesis
    by (auto simp: verify_webhook_def Let_def split: option.splits)
qed

definition sample_verify_opts :: verify_opts where
  "sample_verify_opts = \<lparr>vo_secret = Some '' s '', vo_signature = Some (''SHA256='' @ replicate 64 (CHR ''0'')),
     vo_timestamp = Some ''1700000000.25'', vo_deliveryId = Some ''d1'', vo_rawBody = RawText ''{}'',
     vo_nowMs = 1700000300250, vo_maxSkewMs = None\<rparr>"

lemma hex_str_zeros: "hex_str (replicate n 0) = replicate (2 * n) (CHR ''0'')"
  by (induction n) (simp_all add: hex_str_def hex_byte_def hex_digit_def digit_char_def char_of_def bit_iff_odd)

lemma num_overflow_big: "10 ^ 13 \<le> num_overflow"
proof -
  have "(2 :: rat) ^ 1024 = 2 ^ 54 * 2 ^ 970" by (simp flip: power_add)
  then have "num_overflow = (2 ^ 54 - 1) * 2 ^ 970" by (simp add: num_overflow_def algebra_simps)
  moreover have "(1 :: rat) \<le> 2 ^ 970" by simp
  ultimately show ?thesis
    using mult_left_mono [of "1 :: rat" "2 ^ 970" "2 ^ 54 - 1"] by simp
qed

lemma webhook_verdict_exact_witness:
  "verify_webhook (\<lambda>k m. replicate 32 0) (\<lambda>s. None) sample_verify_opts = Inr ()"
proof -
  have "decimal_of ''1700000000.25'' = Some (170000000025 / 100)"
    by (simp add: decimal_of_def all_digits_def js_eval)
  moreover have "(170000000025 / 100 :: rat) < num_overflow"
    using num_overflow_big by (rule less_le_trans [rotated]) simp
  ultimately have t: "parse_timestamp_ms (\<lambda>s. None) ''1700000000.25'' = Some 1700000000250"
    by (simp add: parse_timestamp_ms_def js_eval)
  have o': "trim_opt (vo_secret sample_verify_opts) = ''s''" "trim_opt (vo_timestamp sample_verify_opts) = ''1700000000.25''"
    "trim_opt (vo_deliveryId sample_verify_opts) = ''d1''" "vo_nowMs sample_verify_opts = 1700000300250"
    "vo_maxSkewMs sample_verify_opts = None"
    by (simp_all add: sample_verify_opts_def trim_opt_def js_eval)
  have sg: "js_lower (trim_opt (vo_signature sample_verify_opts)) = ''sha256='' @ replicate 64 (CHR ''0'')"
    by (simp add: sample_verify_opts_def trim_opt_def js_eval dropWhile_append3 char_of_def bit_iff_odd)
  show ?thesis
    using webhook_verdict_exact [of "\<lambda>k m. replicate 32 0" "\<lambda>s. None" sample_verify_opts]
    by (simp add: o' t sg hex_str_zeros DEFAULT_MAX_SKEW_MS_def Let_def)
qed

subsection \<open>Lemmas: sanitising\<close>

text \<open>No sensitive key at any depth.\<close>

fun clean :: "jsval \<Rightarrow> bool" where
  "clean (JArr vs) = list_all clean vs"
| "clean (JObj kvs) = list_all (\<lambda>(k, v). \<not> sensitive_key k \<and> clean v) kvs"
| "clean v = True"

lemma sanitize_clean: "clean (sanitize v)"
proof (induction v rule: sanitize.induct)
  case (2 kvs)
  then show ?case by (fastforce simp: list_all_iff split: prod.splits if_splits)
qed (auto simp: list_all_iff)

lemma sanitize_undef [simp]: "sanitize v = JUndef \<longleftrightarrow> v = JUndef"
  by (cases v) auto

lemma sanitize_obj [simp]: "is_obj (sanitize v) \<longleftrightarrow> is_obj v"
  by (cases v) (auto simp: is_obj_def)

text \<open>What is not sensitive is kept.\<close>

lemma sanitize_keeps:
  assumes "distinct (map fst kvs)" "\<not> sensitive_key k" "k \<noteq> proto_key"
  shows "jget (sanitize (JObj kvs)) k = sanitize (jget (JObj kvs) k)"
proof -
  let ?f = "\<lambda>(k, v). if sensitive_key k \<or> k = proto_key \<or> sanitize v = JUndef then [] else [(k, sanitize v)]"
  have absent: "map_of (concat (map ?f xs)) k = None" if "k \<notin> fst ` set xs" for xs
    using that by (induction xs) (auto split: prod.splits)
  have "(case map_of (concat (map ?f kvs)) k of None \<Rightarrow> JUndef | Some x \<Rightarrow> x)
      = sanitize (case map_of kvs k of None \<Rightarrow> JUndef | Some x \<Rightarrow> x)"
    using assms(1)
  proof (induction kvs)
    case (Cons x xs)
    obtain a v where x: "x = (a, v)" by fastforce
    show ?case
      using Cons assms(2,3) absent [of xs] by (cases "a = k") (auto simp: x)
  qed simp
  then show ?thesis by (simp add: jget_def cong: option.case_cong)
qed

lemma normalize_ok:
  assumes "normalize_payload input o' = Inr e"
  obtains kvs where "input = JObj kvs"
    "string_value (jget input ''event_id'') = Some (ev_event_id e)"
    "string_value (jget input ''event_type'') = Some (ev_event_type e)"
    "ev_actor e = sanitize (if is_obj (jget input ''actor'') then jget input ''actor'' else JObj [])"
    "ev_payload e = sanitize (if is_obj (jget input ''payload'') then jget input ''payload'' else event_specific_payload kvs)"
proof -
  obtain kvs i t g p where "input = JObj kvs"
    "string_value (jget input ''event_id'') = Some i" "string_value (jget input ''event_type'') = Some t"
    "e = envelope_of input kvs o' i t g p"
    using assms by (auto simp: normalize_payload_def split: jsval.splits option.splits)
  then show ?thesis by (intro that [of kvs]) (simp_all add: envelope_of_def Let_def del: first_number.simps)
qed

lemma js_trim_nonblank: "string_value v = Some s \<Longrightarrow> s \<noteq> []"
  by (auto simp: string_value_def split: jsval.splits if_splits)

text \<open>
  No credential reaches the event bus through an event: whatever the webhook body, the actor and
  the payload of a normalised event are objects without a sensitive key at any depth, its id and
  type are not blank, and every other own property of the payload the sender gave is carried over,
  sanitised.
\<close>

theorem normalized_event_clean:
  assumes "normalize_payload input o' = Inr e"
  shows "clean (ev_payload e) \<and> clean (ev_actor e) \<and> is_obj (ev_payload e) \<and> is_obj (ev_actor e)
    \<and> ev_event_id e \<noteq> [] \<and> ev_event_type e \<noteq> []
    \<and> (\<forall>kvs k. jget input ''payload'' = JObj kvs \<and> distinct (map fst kvs) \<and> \<not> sensitive_key k \<and> k \<noteq> proto_key
        \<longrightarrow> jget (ev_payload e) k = sanitize (jget (JObj kvs) k))"
proof -
  obtain kvs where k: "input = JObj kvs"
    and s: "string_value (jget input ''event_id'') = Some (ev_event_id e)"
      "string_value (jget input ''event_type'') = Some (ev_event_type e)"
    and a: "ev_actor e = sanitize (if is_obj (jget input ''actor'') then jget input ''actor'' else JObj [])"
    and p: "ev_payload e = sanitize (if is_obj (jget input ''payload'') then jget input ''payload'' else event_specific_payload kvs)"
    using assms by (rule normalize_ok)
  have "is_obj (event_specific_payload kvs)" "is_obj (JObj [])"
    by (simp_all add: event_specific_payload_def is_obj_def)
  then have "is_obj (ev_payload e)" "is_obj (ev_actor e)" by (simp_all add: a p)
  moreover have "jget (ev_payload e) x = sanitize (jget (JObj fs) x)"
    if "jget input ''payload'' = JObj fs" "distinct (map fst fs)" "\<not> sensitive_key x" "x \<noteq> proto_key" for fs x
    using sanitize_keeps [OF that(2-4)] that(1) by (simp add: p is_obj_def)
  ultimately show ?thesis
    using s [THEN js_trim_nonblank] by (auto simp: a p sanitize_clean)
qed

definition sample_event :: jsval where
  "sample_event = JObj [(''event_id'', JStr '' e1 ''), (''event_type'', JStr ''task.done''),
     (''payload'', JObj [(''title'', JStr ''x''), (''api-token'', JStr ''hunter2'')])]"

definition sample_normalize_opts :: normalize_opts where
  "sample_normalize_opts = \<lparr>no_taskboardUrl = None, no_defaultOrgId = None, no_defaultProjectId = Some (Fin 7),
     no_now = ''2026''\<rparr>"

lemma normalized_event_clean_witness:
  "\<exists>e. normalize_payload sample_event sample_normalize_opts = Inr e \<and> clean (ev_payload e)
     \<and> jget (ev_payload e) ''title'' = JStr ''x'' \<and> ev_project_id e = Fin 7"
proof -
  obtain e where e: "normalize_payload sample_event sample_normalize_opts = Inr e" "ev_project_id e = Fin 7"
    by (simp add: normalize_payload_def sample_event_def sample_normalize_opts_def string_value_def number_value_def
        event_org_id_def event_project_id_def envelope_of_def default_num_def trunc_rat_def js_eval Let_def)
  let ?kvs = "[(''title'', JStr ''x''), (''api-token'', JStr ''hunter2'')]"
  have "jget sample_event ''payload'' = JObj ?kvs" "distinct (map fst ?kvs)" "''title'' \<noteq> proto_key"
    by (simp_all add: sample_event_def jget_def proto_key_def)
  moreover have "\<not> sensitive_key ''title''"
    by (simp add: sensitive_key_def contains_def ends_in_def SENSITIVE_WORDS_def js_eval)
  ultimately have "clean (ev_payload e) \<and> jget (ev_payload e) ''title'' = sanitize (jget (JObj ?kvs) ''title'')"
    using normalized_event_clean [OF e(1)] by blast
  with e show ?thesis by (auto simp: jget_def)
qed

subsection \<open>Lemmas: subjects\<close>

lemma collapse_class: "(\<And>c. \<not> cls c \<Longrightarrow> P c) \<Longrightarrow> P r \<Longrightarrow> list_all P (collapse cls r s)"
  by (induction cls r s rule: collapse.induct) auto

lemma strip_dashes_subset: "set (strip_dashes s) \<subseteq> set s"
  unfolding strip_dashes_def by (auto dest!: set_dropWhileD)

definition valid_token :: "string \<Rightarrow> bool" where
  "valid_token t \<longleftrightarrow> t \<noteq> [] \<and> list_all subject_char t"

lemma subject_token_valid: "valid_token (subject_token v)"
proof -
  have "list_all subject_char (collapse (\<lambda>c. \<not> subject_char c) (CHR ''-'') s)" for s
    by (rule collapse_class) (auto simp: subject_char_def)
  then have "list_all subject_char (strip_dashes (collapse (\<lambda>c. \<not> subject_char c) (CHR ''-'') s))" for s
    using strip_dashes_subset by (fastforce simp: list_all_iff)
  moreover have "valid_token ''unknown''"
    by (simp add: valid_token_def subject_char_def js_eval)
  ultimately show ?thesis by (auto simp: subject_token_def valid_token_def Let_def)
qed

lemma valid_token_dot: "valid_token t \<Longrightarrow> CHR ''.'' \<notin> set t"
  by (auto simp: valid_token_def list_all_iff subject_char_def is_lower_def is_digit_def char_in_def dest!: bspec)

lemma split_on_single: "c \<notin> set x \<Longrightarrow> split_on c x = [x]"
  by (induction x) auto

lemma split_on_append: "c \<notin> set x \<Longrightarrow> split_on c (x @ c # s) = x # split_on c s"
  by (induction x) auto

lemma split_join: "ts \<noteq> [] \<Longrightarrow> \<forall>t\<in>set ts. c \<notin> set t \<Longrightarrow> split_on c (join_with [c] ts) = ts"
  by (induction "[c]" ts rule: join_with.induct) (auto simp: split_on_single split_on_append)

text \<open>
  Every event has a well-formed subject of its stream: \<open>taskboard.v1.org.<o>.project.<p>\<close> followed by
  one token for each dot-separated part of the event type, every token non-empty and free of dots
  and wildcards. No organisation, project or event type can place an event outside its own
  organisation's and project's subjects.
\<close>

theorem event_subject_wellformed:
  "\<exists>o' p ts. split_on (CHR ''.'') (build_subject e) = [''taskboard'', ''v1'', ''org'', o', ''project'', p] @ ts
     \<and> o' = subject_token (num_str (ev_org_id e)) \<and> p = subject_token (num_str (ev_project_id e))
     \<and> length ts = length (split_on (CHR ''.'') (ev_event_type e)) \<and> ts \<noteq> []
     \<and> list_all valid_token (o' # p # ts)"
proof -
  let ?d = "CHR ''.''"
  let ?ts = "map subject_token (split_on ?d (ev_event_type e))"
  have ne: "?ts \<noteq> []" by (simp add: split_on_nonempty)
  have ok: "list_all valid_token ?ts" by (simp add: list_all_iff subject_token_valid)
  have nd: "?d \<notin> set (subject_token v)" for v by (rule valid_token_dot [OF subject_token_valid])
  have tail: "split_on ?d (event_type_tokens (ev_event_type e)) = ?ts"
    unfolding event_type_tokens_def using split_join [OF ne] nd by auto
  have "build_subject e = ''taskboard'' @ ?d # ''v1'' @ ?d # ''org'' @ ?d # subject_token (num_str (ev_org_id e))
      @ ?d # ''project'' @ ?d # subject_token (num_str (ev_project_id e)) @ ?d # event_type_tokens (ev_event_type e)"
    by (simp add: build_subject_def)
  then have "split_on ?d (build_subject e) = [''taskboard'', ''v1'', ''org'', subject_token (num_str (ev_org_id e)),
      ''project'', subject_token (num_str (ev_project_id e))] @ ?ts"
    by (simp only: split_on_append nd not_False_eq_True tail) (simp add: split_on_append nd tail)
  then show ?thesis using ne ok subject_token_valid by (intro exI conjI) (assumption | rule refl | simp)+
qed

end
