(* ===== verification/Event_Dispatch.thy ===== *)
theory Event_Dispatch
  imports Taskboard_Core
begin

text \<open>
  The dispatcher of taskboard events (src/taskboard_event_dispatcher.ts): which events become a job,
  for which agent, the job request, and \<open>processTaskboardEvent\<close> with the loop around it that
  acknowledges or refuses each delivery.

  An event is the JSON value as it was parsed, so the fields the code does not check are not
  assumed to have their declared types. \<open>je\<close> holds the conversions, \<open>env\<close> the environment, \<open>pretty\<close>
  is \<open>JSON.stringify(v, null, 2)\<close>, \<open>uuid\<close> the random id of \<open>safeId\<close>. A thrown \<open>TypeError\<close> is \<open>Inl\<close>.
  The answers of the taskboard's HTTP API and of \<open>a2a_send\<close> are inputs of each step.
\<close>

subsection \<open>Reading an event\<close>

definition DEFAULT_AGENT_ID :: string where "DEFAULT_AGENT_ID = ''host-ops-gw''"
definition DEFAULT_CWD :: string where "DEFAULT_CWD = ''/srv/git/alloyium''"
definition STATUS_CHANGED :: string where "STATUS_CHANGED = ''task.status_changed''"
definition REVIEW_REQUESTED :: string where "REVIEW_REQUESTED = ''task.review_requested''"
definition TASKBOARD_EVENT_SCHEMA :: string where "TASKBOARD_EVENT_SCHEMA = ''taskboard.event.v1''"

definition is_object :: "jsval \<Rightarrow> bool" where
  "is_object v \<longleftrightarrow> is_obj v \<or> (\<exists>vs. v = JArr vs)"

lemma is_object_code [simp]:
  "is_object (JArr vs)" "is_object (JObj kvs)" "\<not> is_object JUndef" "\<not> is_object JNull"
  "\<not> is_object (JBool b)" "\<not> is_object (JNum n)" "\<not> is_object (JStr s)"
  by (simp_all add: is_object_def is_obj_def)

definition is_taskboard_event :: "jsval \<Rightarrow> bool" where
  "is_taskboard_event v \<longleftrightarrow> is_obj v \<and> jget v ''schema'' = JStr TASKBOARD_EVENT_SCHEMA
     \<and> is_str (jget v ''event_id'') \<and> is_str (jget v ''event_type'')
     \<and> is_object (jget v ''scope'') \<and> is_object (jget v ''idempotency'')"

definition record_or_empty :: "jsval \<Rightarrow> jsval" where
  "record_or_empty v = (if is_obj v then v else JObj [])"

definition payload_record :: "jsval \<Rightarrow> jsval" where
  "payload_record e = record_or_empty (jget e ''payload'')"

definition task_payload :: "jsval \<Rightarrow> jsval" where
  "task_payload e = record_or_empty (jget (payload_record e) ''task'')"

definition review_request_payload :: "jsval \<Rightarrow> jsval" where
  "review_request_payload e =
     (let review = jget (payload_record e) ''review_request'' in if is_obj review then review else payload_record e)"

definition number_or_null :: "jsval \<Rightarrow> jsnum option" where
  "number_or_null v =
     (case v of
        JNum (Fin q) \<Rightarrow> Some (Fin (of_int (trunc_rat q)))
      | JStr s \<Rightarrow> int_literal (js_trim s)
      | _ \<Rightarrow> None)"

text \<open>\<open>a ?? b\<close>\<close>

definition first_some :: "'a option \<Rightarrow> 'a option \<Rightarrow> 'a option" where
  "first_some a b = (case a of Some x \<Rightarrow> Some x | None \<Rightarrow> b)"

definition review_request_id :: "jsval \<Rightarrow> jsnum option" where
  "review_request_id e = first_some (number_or_null (jget (review_request_payload e) ''id''))
     (number_or_null (jget (payload_record e) ''review_request_id''))"

definition review_role_key :: "jsval \<Rightarrow> string option" where
  "review_role_key e = first_some (string_value (jget (review_request_payload e) ''role_key''))
     (first_some (string_value (jget (payload_record e) ''role_key''))
       (string_value (jget (payload_record e) ''reviewer_role_key'')))"

text \<open>\<open>toUpperCase\<close> on the modelled characters: sharp s becomes two letters.\<close>

definition upper_char :: "char \<Rightarrow> string" where
  "upper_char c =
     (let n = (of_char c :: nat) in
      if n = 223 then ''SS''
      else if char_in c 97 122 \<or> (char_in c 224 254 \<and> n \<noteq> 247) then [char_of (n - 32)] else [c])"

definition js_upper :: "string \<Rightarrow> string" where
  "js_upper s = concat (map upper_char s)"

definition strip_char :: "char \<Rightarrow> string \<Rightarrow> string" where
  "strip_char x s = rev (dropWhile (\<lambda>c. c = x) (rev (dropWhile (\<lambda>c. c = x) s)))"

definition review_role_env_suffix :: "string \<Rightarrow> string" where
  "review_role_env_suffix roleKey =
     (let s = strip_char (CHR ''_'') (collapse (\<lambda>c. \<not> (is_upper c \<or> is_digit c)) (CHR ''_'') (js_upper roleKey))
      in if s = [] then ''UNKNOWN'' else s)"

definition env_trim :: "(string \<Rightarrow> string option) \<Rightarrow> string \<Rightarrow> string option" where
  "env_trim env k = (case env k of None \<Rightarrow> None | Some s \<Rightarrow> if js_trim s = [] then None else Some (js_trim s))"

definition reviewer_setting :: "(string \<Rightarrow> string option) \<Rightarrow> string \<Rightarrow> string \<Rightarrow> jsval \<Rightarrow> string option" where
  "reviewer_setting env field envPrefix e =
     (case first_some (string_value (jget (review_request_payload e) field)) (string_value (jget (payload_record e) field)) of
        Some s \<Rightarrow> Some s
      | None \<Rightarrow> (case review_role_key e of
          None \<Rightarrow> None
        | Some role \<Rightarrow> env_trim env (envPrefix @ review_role_env_suffix role)))"

definition reviewer_model_for_event where
  "reviewer_model_for_event env e = reviewer_setting env ''reviewer_model'' ''TASKBOARD_DISPATCH_REVIEW_MODEL_'' e"

definition reviewer_endpoint_for_event where
  "reviewer_endpoint_for_event env e = reviewer_setting env ''reviewer_endpoint_id'' ''TASKBOARD_DISPATCH_REVIEW_ENDPOINT_'' e"

definition review_commit_sha :: "jsval \<Rightarrow> string option" where
  "review_commit_sha e =
     (let p = payload_record e; r = review_request_payload e; t = task_payload e in
      first_some (string_value (jget t ''latest_commit_sha'')) (first_some (string_value (jget t ''commit_sha''))
        (first_some (string_value (jget r ''commit_sha'')) (first_some (string_value (jget r ''linked_commit_sha''))
          (first_some (string_value (jget p ''commit_sha'')) (string_value (jget p ''linked_commit_sha'')))))))"

definition normalize_status :: "jsval \<Rightarrow> string" where
  "normalize_status v = (case v of JStr s \<Rightarrow> js_lower (js_trim s) | _ \<Rightarrow> [])"

subsection \<open>Routing\<close>

definition should_dispatch :: "jsval \<Rightarrow> bool" where
  "should_dispatch e =
     (if jget e ''schema'' \<noteq> JStr TASKBOARD_EVENT_SCHEMA then False
      else if jget e ''event_type'' = JStr REVIEW_REQUESTED then review_request_id e \<noteq> None
      else if jget e ''event_type'' \<noteq> JStr STATUS_CHANGED then False
      else normalize_status (jget (payload_record e) ''to_status'') = ''in progress''
         \<and> normalize_status (jget (payload_record e) ''from_status'') \<noteq> ''in progress'')"

definition env_agent :: "(string \<Rightarrow> string option) \<Rightarrow> string \<Rightarrow> string option" where
  "env_agent env k = (case env k of None \<Rightarrow> None
     | Some s \<Rightarrow> if is_token (js_lower (js_trim s)) then Some (js_lower (js_trim s)) else None)"

definition review_target :: "(string \<Rightarrow> string option) \<Rightarrow> jsval \<Rightarrow> string option" where
  "review_target env e =
     (let review = review_request_payload e; p = payload_record e; role = review_role_key e;
          explicit = first_some (string_value (jget review ''reviewer_agent_id'')) (first_some (string_value (jget review ''agent_id''))
            (first_some (string_value (jget p ''reviewer_agent_id'')) (string_value (jget p ''target_agent_id''))))
      in case explicit of
           Some a \<Rightarrow> if Some a \<noteq> role \<and> is_token a then Some a
             else first_some (case role of None \<Rightarrow> None
                 | Some r \<Rightarrow> env_agent env (''TASKBOARD_DISPATCH_REVIEW_AGENT_ID_'' @ review_role_env_suffix r))
               (env_agent env ''TASKBOARD_DISPATCH_REVIEW_AGENT_ID'')
         | None \<Rightarrow> first_some (case role of None \<Rightarrow> None
                 | Some r \<Rightarrow> env_agent env (''TASKBOARD_DISPATCH_REVIEW_AGENT_ID_'' @ review_role_env_suffix r))
               (env_agent env ''TASKBOARD_DISPATCH_REVIEW_AGENT_ID''))"

definition target_agent_for_event :: "(string \<Rightarrow> string option) \<Rightarrow> jsval \<Rightarrow> string \<Rightarrow> string option" where
  "target_agent_for_event env e defaultAgentId =
     (if jget e ''event_type'' = JStr REVIEW_REQUESTED then review_target env e
      else (case string_value (jget (task_payload e) ''agent_id'') of
              Some a \<Rightarrow> if is_token a then Some a
                else (let fb = js_lower (js_trim defaultAgentId) in Some (if is_token fb then fb else DEFAULT_AGENT_ID))
            | None \<Rightarrow> (let fb = js_lower (js_trim defaultAgentId) in Some (if is_token fb then fb else DEFAULT_AGENT_ID))))"

datatype observe_reason = UnsupportedSchema | UnsupportedEventType | StatusNotInProgress | ReviewTargetUnconfigured

record dispatch =
  di_event :: jsval
  di_task_id :: jsval
  di_fire_generation :: jsval
  di_event_id :: jsval
  di_taskboard_url :: "jsval option"
  di_target :: string
  di_task :: jsval

datatype route = Observe observe_reason | Dispatch dispatch

text \<open>Reading a property of \<open>undefined\<close> or \<open>null\<close> throws; \<open>isTaskboardEvent\<close> does not check \<open>source\<close>.\<close>

definition source_url :: "jsval \<Rightarrow> string + jsval" where
  "source_url e = (if is_nullish (jget e ''source'') then Inl ''TypeError''
     else Inr (jget (jget e ''source'') ''taskboard_url''))"

definition route_taskboard_event :: "(string \<Rightarrow> string option) \<Rightarrow> jsval \<Rightarrow> string option \<Rightarrow> string + route" where
  "route_taskboard_event env input defaultAgentId =
     (if \<not> is_taskboard_event input then Inr (Observe UnsupportedSchema)
      else if jget input ''event_type'' \<noteq> JStr STATUS_CHANGED \<and> jget input ''event_type'' \<noteq> JStr REVIEW_REQUESTED
        then Inr (Observe UnsupportedEventType)
      else if \<not> should_dispatch input then Inr (Observe StatusNotInProgress)
      else (case target_agent_for_event env input
               (case defaultAgentId of Some d \<Rightarrow> d
                | None \<Rightarrow> (case env ''TASKBOARD_DISPATCH_DEFAULT_AGENT_ID'' of Some d \<Rightarrow> d | None \<Rightarrow> DEFAULT_AGENT_ID)) of
              None \<Rightarrow> Inr (Observe ReviewTargetUnconfigured)
            | Some target \<Rightarrow> (if target = [] then Inr (Observe ReviewTargetUnconfigured) else
                (case source_url input of
                   Inl err \<Rightarrow> Inl err
                 | Inr url \<Rightarrow> Inr (Dispatch
                     \<lparr>di_event = input, di_task_id = jget (jget input ''scope'') ''task_id'',
                      di_fire_generation = jget (jget input ''idempotency'') ''fire_generation'',
                      di_event_id = jget input ''event_id'',
                      di_taskboard_url = (if truthy url then Some url else None),
                      di_target = target, di_task = task_payload input\<rparr>)))))"

subsection \<open>The job request\<close>

text \<open>\<open>s.replace(/-+/g, '-')\<close> after the bad characters became dashes is one collapse of the dashes.\<close>

definition safe_id :: "string \<Rightarrow> string \<Rightarrow> string" where
  "safe_id uuid v =
     (let s = take 96 (strip_char (CHR ''-'') (collapse (\<lambda>c. c = CHR ''-'') (CHR ''-'')
                (map (\<lambda>c. if subject_char c then c else CHR ''-'') (js_lower v))))
      in if s = [] then uuid else s)"

definition event_task_id :: "jsval \<Rightarrow> jsval" where "event_task_id e = jget (jget e ''scope'') ''task_id''"
definition event_fire_generation :: "jsval \<Rightarrow> jsval" where
  "event_fire_generation e = jget (jget e ''idempotency'') ''fire_generation''"

definition job_id_for_event :: "js_env \<Rightarrow> string \<Rightarrow> jsval \<Rightarrow> string" where
  "job_id_for_event je uuid e =
     (let taskId = event_task_id e; fg = event_fire_generation e;
          plain = (if \<not> is_nullish taskId \<and> \<not> is_nullish fg then ''tb-'' @ js_string je taskId @ ''-'' @ js_string je fg
                   else ''tb-'' @ safe_id uuid (js_string je (jget e ''event_id''))) in
      if jget e ''event_type'' = JStr REVIEW_REQUESTED then
        (case review_request_id e of
           Some r \<Rightarrow> if \<not> is_nullish taskId then ''tb-review-'' @ js_string je taskId @ ''-'' @ je_num_text je r else plain
         | None \<Rightarrow> plain)
      else plain)"

definition thread_key_for_event :: "js_env \<Rightarrow> string \<Rightarrow> jsval \<Rightarrow> string" where
  "thread_key_for_event je uuid e =
     (let taskId = event_task_id e;
          base = ''taskboard:task:'' @ (if is_nullish taskId then safe_id uuid (js_string je (jget e ''event_id''))
                                         else js_string je taskId) in
      if jget e ''event_type'' = JStr REVIEW_REQUESTED then
        base @ (case review_role_key e of Some r \<Rightarrow> '':review:'' @ safe_id uuid r | None \<Rightarrow> '':review'')
      else base)"

definition strip_slashes :: "string \<Rightarrow> string" where
  "strip_slashes s = rev (dropWhile (\<lambda>c. c = CHR ''/'') (rev s))"

definition or_unknown :: "js_env \<Rightarrow> jsval \<Rightarrow> string" where
  "or_unknown je v = (if is_nullish v then ''(unknown)'' else js_string je v)"

definition newline :: string where "newline = [CHR 0x0A]"

text \<open>The lines of a prompt: \<open>.filter(Boolean)\<close> drops the blank ones too.\<close>

definition lines_text :: "string list \<Rightarrow> string" where
  "lines_text ls = join_with newline (filter (\<lambda>l. l \<noteq> []) ls)"

definition review_block :: "string \<Rightarrow> jsval" where
  "review_block sha = JObj [(''taskboard_review_result'', JObj
     [(''verdict'', JStr ''APPROVE''), (''commit_sha'', JStr sha),
      (''findings_md'', JStr ''Short markdown summary of findings and rationale.''),
      (''findings'', JArr [JObj [(''severity'', JStr ''info''), (''message'', JStr ''Finding summary''),
         (''file'', JStr ''path/to/file''), (''line'', JNum (Fin 1))]])])]"

definition build_task_prompt ::
  "js_env \<Rightarrow> (jsval \<Rightarrow> string) \<Rightarrow> jsval \<Rightarrow> rat option \<Rightarrow> string option \<Rightarrow> string" where
  "build_task_prompt je pretty e agentRunId taskboardUrl =
     (let task = task_payload e; taskId = event_task_id e;
          title = (case string_value (jget task ''title'') of Some t \<Rightarrow> t
            | None \<Rightarrow> ''Task '' @ js_string je (if is_nullish taskId then jget e ''event_id'' else taskId));
          description = (case string_value (jget task ''description'') of Some d \<Rightarrow> d | None \<Rightarrow> []);
          taskUrl = (case taskboardUrl of
              Some u \<Rightarrow> if u \<noteq> [] \<and> \<not> is_nullish taskId
                then ''Taskboard URL: '' @ strip_slashes u @ ''/tasks/'' @ js_string je taskId else []
            | None \<Rightarrow> []);
          runLine = (case agentRunId of Some r \<Rightarrow> ''Agent run ID: '' @ je_num_text je (Fin r) | None \<Rightarrow> []);
          eventLine = ''Event ID: '' @ js_string je (jget e ''event_id'');
          fireLine = ''Fire generation: '' @ or_unknown je (event_fire_generation e);
          descLine = (if description = [] then [] else newline @ ''Description:'' @ newline @ description) in
      if jget e ''event_type'' = JStr REVIEW_REQUESTED then lines_text
        [''A taskboard review request was routed to the A2A/Codex fleet.'', [],
         ''Task #'' @ or_unknown je taskId, ''Title: '' @ title,
         ''Review request ID: '' @ (case review_request_id e of Some n \<Rightarrow> je_num_text je n | None \<Rightarrow> ''(unknown)''),
         ''Review role: '' @ (case review_role_key e of Some r \<Rightarrow> r | None \<Rightarrow> ''(unknown)''),
         (case review_commit_sha e of Some c \<Rightarrow> ''Commit SHA: '' @ c | None \<Rightarrow> []),
         runLine, taskUrl, eventLine, fireLine, [],
         ''Review request payload:'', pretty (review_request_payload e), [], ''Task payload:'', pretty task, descLine, [],
         ''Perform a read-only review for the requested role. Record findings, risks, and the recommended verdict clearly. Do not modify files unless the operator sends a separate write-enabled follow-up through an authorized gateway.'',
         [],
         ''At the end of the response, include one fenced JSON block for taskboard writeback using exactly this shape:'',
         replicate 3 (CHR 0x60) @ ''json'',
         pretty (review_block (case review_commit_sha e of Some c \<Rightarrow> c | None \<Rightarrow> ''<task latest_commit_sha>'')),
         replicate 3 (CHR 0x60),
         ''Use verdict APPROVE only when the task is ready to pass this review role. Use REQUEST_CHANGES for blocking findings. Use COMMENT for non-blocking review notes.'']
      else lines_text
        [''A taskboard task moved to In Progress and was routed to the A2A/Codex fleet.'', [],
         ''Task #'' @ or_unknown je taskId, ''Title: '' @ title, runLine, taskUrl, eventLine, fireLine, [],
         ''Task payload:'', pretty task, descLine, [],
         ''Work read-only unless the operator explicitly sends a write-enabled follow-up through an authorized gateway. Record findings and next steps clearly.''])"

record job_request =
  jr_job_id :: string
  jr_thread_key :: string
  jr_text :: string
  jr_sandbox :: string
  jr_approval_policy :: string
  jr_cwd :: string
  jr_max_primary_used_percent :: rat
  jr_task_id :: jsval
  jr_agent_run_id :: "jsval option"
  jr_event_id :: jsval
  jr_model :: "string option"
  jr_endpoint_id :: "string option"
  jr_taskboard_url :: "string option"
  jr_task_context :: "(string \<times> jsval) list"

record job_opts =
  jo_agentRunId :: "rat option"
  jo_cwd :: "string option"
  jo_taskboardUrl :: "string option"
  jo_maxPrimaryUsedPercent :: "rat option"

definition opt_str_field :: "string \<Rightarrow> string option \<Rightarrow> (string \<times> jsval) list" where
  "opt_str_field k v = (case v of None \<Rightarrow> [] | Some s \<Rightarrow> [(k, JStr s)])"

definition opt_num_field :: "string \<Rightarrow> jsnum option \<Rightarrow> (string \<times> jsval) list" where
  "opt_num_field k v = (case v of None \<Rightarrow> [] | Some n \<Rightarrow> [(k, JNum n)])"

text \<open>A taskboard URL is used as a string; one that is absent or not a string counts as none.\<close>

definition as_url :: "jsval \<Rightarrow> string option" where
  "as_url v = (case v of JStr s \<Rightarrow> Some s | _ \<Rightarrow> None)"

definition build_codex_job_request ::
  "js_env \<Rightarrow> (jsval \<Rightarrow> string) \<Rightarrow> (string \<Rightarrow> string option) \<Rightarrow> string \<Rightarrow> jsval \<Rightarrow> string \<Rightarrow> job_opts \<Rightarrow> job_request" where
  "build_codex_job_request je pretty env uuid e target opts =
     (let taskId = event_task_id e; model = reviewer_model_for_event env e; endpoint = reviewer_endpoint_for_event env e;
          url = first_some (jo_taskboardUrl opts) (as_url (jget (jget e ''source'') ''taskboard_url''));
          task = task_payload e in
      \<lparr>jr_job_id = job_id_for_event je uuid e, jr_thread_key = thread_key_for_event je uuid e,
       jr_text = build_task_prompt je pretty e (jo_agentRunId opts) url,
       jr_sandbox = ''read-only'', jr_approval_policy = ''never'',
       jr_cwd = (case jo_cwd opts of Some c \<Rightarrow> c | None \<Rightarrow> DEFAULT_CWD),
       jr_max_primary_used_percent = (case jo_maxPrimaryUsedPercent opts of Some p \<Rightarrow> p | None \<Rightarrow> 99),
       jr_task_id = taskId, jr_agent_run_id = map_option (\<lambda>r. JNum (Fin r)) (jo_agentRunId opts), jr_event_id = jget e ''event_id'',
       jr_model = model, jr_endpoint_id = endpoint,
       jr_taskboard_url = (case url of Some u \<Rightarrow> if u = [] then None else Some u | None \<Rightarrow> None),
       jr_task_context =
         [(''taskboard_url'', (case url of Some u \<Rightarrow> JStr u | None \<Rightarrow> JUndef)), (''task_id'', taskId)]
         @ opt_num_field ''agent_run_id'' (map_option Fin (jo_agentRunId opts))
         @ [(''event_id'', jget e ''event_id''), (''event_type'', jget e ''event_type''),
            (''fire_generation'', event_fire_generation e)]
         @ opt_num_field ''review_request_id'' (review_request_id e)
         @ opt_str_field ''review_role_key'' (review_role_key e)
         @ opt_str_field ''reviewer_model'' model @ opt_str_field ''reviewer_endpoint_id'' endpoint
         @ [(''title'', (case string_value (jget task ''title'') of Some t \<Rightarrow> JStr t | None \<Rightarrow> JNull)),
            (''agent_id'', JStr (case string_value (jget task ''agent_id'') of Some a \<Rightarrow> a | None \<Rightarrow> target))]\<rparr>)"

subsection \<open>The run store\<close>

record agent_run =
  rn_id :: rat
  rn_trigger_event_id :: jsval

definition role_for_task :: "jsval \<Rightarrow> string" where
  "role_for_task e =
     (if jget e ''event_type'' = JStr REVIEW_REQUESTED
      then (case review_role_key e of Some r \<Rightarrow> r | None \<Rightarrow> ''code-reviewer'')
      else (let str = (\<lambda>k. case string_value (jget (task_payload e) k) of Some s \<Rightarrow> s | None \<Rightarrow> []);
                agent = js_lower (str ''agent'' @ '' '' @ str ''task_type'') in
            if contains ''security'' agent then ''security-auditor''
            else if contains ''review'' agent then ''code-reviewer''
            else if contains ''qa'' agent then ''qa-agent''
            else if contains ''architect'' agent then ''architect''
            else ''developer''))"

definition create_body :: "jsval \<Rightarrow> string \<Rightarrow> (string \<times> jsval) list" where
  "create_body e target =
     [(''task_id'', event_task_id e), (''role'', JStr (role_for_task e)),
      (''source_component'', JStr ''a2a-taskboard-dispatcher''), (''status'', JStr ''queued''),
      (''agent_id'', JStr target), (''fire_generation'', event_fire_generation e),
      (''trigger_event_id'', jget e ''event_id'')]"

text \<open>
  \<open>createOrReuse\<close> over the answers of the two requests: the runs of the task (\<open>None\<close>: the request
  failed, which counts as no runs) and the created run (\<open>None\<close>: it failed, which throws).
\<close>

definition create_or_reuse :: "jsval \<Rightarrow> agent_run list option \<Rightarrow> agent_run option \<Rightarrow> string + agent_run option" where
  "create_or_reuse e listed created =
     (if is_nullish (event_task_id e) then Inr None
      else (case find (\<lambda>r. rn_trigger_event_id r = jget e ''event_id'') (case listed of None \<Rightarrow> [] | Some rs \<Rightarrow> rs) of
              Some r \<Rightarrow> Inr (Some r)
            | None \<Rightarrow> (case created of None \<Rightarrow> Inl ''agent_run create failed'' | Some r \<Rightarrow> Inr (Some r))))"

subsection \<open>Processing a delivery\<close>

record send_outcome =
  so_ok :: bool
  so_id :: "string option"
  so_error :: "string option"

text \<open>
  \<open>dv_json\<close> is \<open>None\<close> where the message is not JSON. The other fields are the answers of the services;
  \<open>dv_send\<close> is \<open>Inl\<close> where the send throws.
\<close>

record delivery_inputs =
  dv_json :: "jsval option"
  dv_runs :: "agent_run list option"
  dv_created :: "agent_run option"
  dv_send :: "string + send_outcome"
  dv_uuid :: string

record dispatcher_cfg =
  dp_env :: "string \<Rightarrow> string option"
  dp_has_runs :: bool
  dp_pretty :: "jsval \<Rightarrow> string"

record pending_job =
  pj_corr :: "string option"
  pj_job_id :: string
  pj_event_id :: jsval
  pj_task_id :: jsval
  pj_agent_run_id :: "jsnum option"
  pj_target :: string
  pj_review_request_id :: "jsnum option"
  pj_review_role_key :: "string option"
  pj_review_commit_sha :: "string option"

record dispatcher =
  ds_seen :: "jsval list"
  ds_sends :: "(string \<times> job_request) list"
  ds_updates :: "(rat \<times> (string \<times> string) list) list"
  ds_tracked :: "pending_job list"

definition ds_new :: dispatcher where
  "ds_new = \<lparr>ds_seen = [], ds_sends = [], ds_updates = [], ds_tracked = []\<rparr>"

datatype ignore_reason = Duplicate | UnsupportedEvent | NotInProgress

datatype process_result =
    Ignored ignore_reason jsval
  | Sent jsval string string "rat option" "string option"
  | DispatchFailed jsval string string "rat option" string
  | Threw string

text \<open>\<open>Set.has\<close>: objects are compared by identity, so a parsed object is never found.\<close>

definition seen_has :: "jsval \<Rightarrow> jsval list \<Rightarrow> bool" where
  "seen_has k seen \<longleftrightarrow> \<not> is_object k \<and> k \<in> set seen"

definition event_key :: "jsval \<Rightarrow> jsval" where
  "event_key e = (if truthy (jget (jget e ''idempotency'') ''event_id'') then jget (jget e ''idempotency'') ''event_id''
     else jget e ''event_id'')"

definition run_update :: "dispatcher_cfg \<Rightarrow> agent_run option \<Rightarrow> (string \<times> string) list \<Rightarrow> dispatcher \<Rightarrow> dispatcher" where
  "run_update cfg r upd s = (case r of
     Some x \<Rightarrow> if dp_has_runs cfg \<and> rn_id x \<noteq> 0 then s\<lparr>ds_updates := ds_updates s @ [(rn_id x, upd)]\<rparr> else s
   | None \<Rightarrow> s)"

definition mark_seen :: "jsval \<Rightarrow> dispatcher \<Rightarrow> dispatcher" where
  "mark_seen k s = s\<lparr>ds_seen := ds_seen s @ [k]\<rparr>"

definition send_error :: "send_outcome \<Rightarrow> string" where
  "send_error o' = (case so_error o' of Some e \<Rightarrow> e | None \<Rightarrow> ''a2a_send failed'')"

definition job_for :: "js_env \<Rightarrow> dispatcher_cfg \<Rightarrow> delivery_inputs \<Rightarrow> jsval \<Rightarrow> string \<Rightarrow> agent_run option \<Rightarrow> job_request" where
  "job_for je cfg inp e target r =
     build_codex_job_request je (dp_pretty cfg) (dp_env cfg) (dv_uuid inp) e target
       \<lparr>jo_agentRunId = map_option rn_id r,
        jo_cwd = Some (case dp_env cfg ''TASKBOARD_DISPATCH_DEFAULT_CWD'' of Some c \<Rightarrow> c | None \<Rightarrow> DEFAULT_CWD),
        jo_taskboardUrl = first_some (dp_env cfg ''TASKBOARD_URL'') (as_url (jget (jget e ''source'') ''taskboard_url'')),
        jo_maxPrimaryUsedPercent = None\<rparr>"

definition dispatch_job ::
  "js_env \<Rightarrow> dispatcher_cfg \<Rightarrow> delivery_inputs \<Rightarrow> jsval \<Rightarrow> string \<Rightarrow> agent_run option \<Rightarrow> dispatcher
   \<Rightarrow> process_result \<times> dispatcher" where
  "dispatch_job je cfg inp e target r s =
     (let runId = map_option rn_id r;
          s1 = run_update cfg r [(''status'', ''dispatching'')] s;
          job = job_for je cfg inp e target r;
          s2 = s1\<lparr>ds_sends := ds_sends s1 @ [(target, job)]\<rparr> in
      case dv_send inp of
        Inl err \<Rightarrow> (Threw err, s2)
      | Inr sent \<Rightarrow>
        (if \<not> so_ok sent then
          (DispatchFailed (jget e ''event_id'') target (jr_job_id job) runId (send_error sent),
           run_update cfg r [(''status'', ''preflight_failed''), (''failure_class'', ''endpoint_transport_drop''),
             (''failure_detail'', send_error sent)] s2)
        else
          (Sent (jget e ''event_id'') target (jr_job_id job) runId
             (case so_id sent of Some m \<Rightarrow> if m = [] then None else Some m | None \<Rightarrow> None),
           mark_seen (event_key e) (run_update cfg r [(''status'', ''spawning''), (''session_id'', jr_job_id job)] s2))))"

definition process_event ::
  "js_env \<Rightarrow> dispatcher_cfg \<Rightarrow> delivery_inputs \<Rightarrow> jsval \<Rightarrow> dispatcher \<Rightarrow> process_result \<times> dispatcher" where
  "process_event je cfg inp e s =
     (if is_nullish e then (Threw ''TypeError'', s)
      else if seen_has (event_key e) (ds_seen s) then (Ignored Duplicate (jget e ''event_id''), s)
      else (case route_taskboard_event (dp_env cfg) e None of
        Inl err \<Rightarrow> (Threw err, s)
      | Inr (Observe reason) \<Rightarrow>
          (Ignored (if reason = StatusNotInProgress then NotInProgress else UnsupportedEvent) (jget e ''event_id''),
           mark_seen (event_key e) s)
      | Inr (Dispatch d) \<Rightarrow>
          (if dp_has_runs cfg then
             (case create_or_reuse e (dv_runs inp) (dv_created inp) of
                Inl err \<Rightarrow> (Threw err, s)
              | Inr r \<Rightarrow> dispatch_job je cfg inp e (di_target d) r s)
           else dispatch_job je cfg inp e (di_target d) None s)))"

text \<open>The body of the consumer loop: the acknowledgement and the state after it.\<close>

definition consume_message :: "js_env \<Rightarrow> dispatcher_cfg \<Rightarrow> delivery_inputs \<Rightarrow> dispatcher \<Rightarrow> bool \<times> dispatcher" where
  "consume_message je cfg inp s =
     (case dv_json inp of
        None \<Rightarrow> (False, s)
      | Some e \<Rightarrow>
          (case process_event je cfg inp e s of
             (Threw _, s') \<Rightarrow> (False, s')
           | (DispatchFailed _ _ _ _ _, s') \<Rightarrow> (False, s')
           | (Ignored _ _, s') \<Rightarrow> (True, s')
           | (Sent eid target job rid mid, s') \<Rightarrow>
               (True, s'\<lparr>ds_tracked := ds_tracked s' @
                  [\<lparr>pj_corr = mid, pj_job_id = job, pj_event_id = eid, pj_task_id = event_task_id e,
                    pj_agent_run_id = map_option Fin rid, pj_target = target, pj_review_request_id = review_request_id e,
                    pj_review_role_key = review_role_key e, pj_review_commit_sha = review_commit_sha e\<rparr>]\<rparr>)))"

definition consume_step :: "js_env \<Rightarrow> dispatcher_cfg \<Rightarrow> dispatcher \<Rightarrow> delivery_inputs \<Rightarrow> dispatcher" where
  "consume_step je cfg s inp = snd (consume_message je cfg inp s)"

subsection \<open>The dispatcher as a class\<close>

text \<open>
  \<open>TaskboardEventDispatcher.handle\<close> is the same dispatch over hooks of the caller: \<open>prep\<close> is
  \<open>prepareAgentRun\<close> over a state of its own (\<open>None\<close> where there is no hook), \<open>sent\<close> the answer of \<open>sendJob\<close>.
  A prepared run is named by a number or a string, a \<open>jsval\<close>.
\<close>

record prepared =
  pr_duplicate :: bool
  pr_run :: "jsval option"

record handler_opts =
  ho_env :: "string \<Rightarrow> string option"
  ho_pretty :: "jsval \<Rightarrow> string"
  ho_defaultAgentId :: "string option"
  ho_cwd :: "string option"
  ho_taskboardUrl :: "string option"

datatype handler_result =
    Observed observe_reason "jsval option"
  | DuplicateRun jsval jsval "jsval option"
  | NotSent jsval jsval string string "jsval option" string
  | Dispatched jsval jsval string string "jsval option" "string option"

fun handler_ack :: "handler_result \<Rightarrow> bool" where
  "handler_ack (NotSent _ _ _ _ _ _) = False"
| "handler_ack _ = True"

definition with_run_name :: "jsval option \<Rightarrow> job_request \<Rightarrow> job_request" where
  "with_run_name r job = (case r of
     Some (JStr x) \<Rightarrow> job\<lparr>jr_agent_run_id := Some (JStr x),
                       jr_task_context := jr_task_context job @ [(''agent_run_id'', JStr x)]\<rparr>
   | _ \<Rightarrow> job)"

definition handler_job :: "js_env \<Rightarrow> handler_opts \<Rightarrow> string \<Rightarrow> dispatch \<Rightarrow> jsval option \<Rightarrow> job_request" where
  "handler_job je ho uuid d r =
     with_run_name r (build_codex_job_request je (ho_pretty ho) (ho_env ho) uuid (di_event d) (di_target d)
       \<lparr>jo_agentRunId = (case r of Some (JNum (Fin q)) \<Rightarrow> Some q | _ \<Rightarrow> None), jo_cwd = ho_cwd ho,
        jo_taskboardUrl = ho_taskboardUrl ho, jo_maxPrimaryUsedPercent = None\<rparr>)"

definition handle ::
  "js_env \<Rightarrow> handler_opts \<Rightarrow> (dispatch \<Rightarrow> 's \<Rightarrow> prepared option \<times> 's) \<Rightarrow> string \<Rightarrow> jsval \<Rightarrow> send_outcome \<Rightarrow> 's
   \<Rightarrow> (string + handler_result) \<times> (string \<times> job_request) list \<times> 's" where
  "handle je ho prep uuid input sent st =
     (case route_taskboard_event (ho_env ho) input (ho_defaultAgentId ho) of
        Inl err \<Rightarrow> (Inl err, [], st)
      | Inr (Observe reason) \<Rightarrow>
          (Inr (Observed reason (if is_taskboard_event input then Some (jget input ''event_id'') else None)), [], st)
      | Inr (Dispatch d) \<Rightarrow>
          (case prep d st of (prepd, st') \<Rightarrow>
             (let r = (case prepd of None \<Rightarrow> None | Some p \<Rightarrow> pr_run p) in
              if (case prepd of None \<Rightarrow> False | Some p \<Rightarrow> pr_duplicate p)
                then (Inr (DuplicateRun (di_event_id d) (di_task_id d) r), [], st')
              else (let job = handler_job je ho uuid d r in
                if \<not> so_ok sent then
                  (Inr (NotSent (di_event_id d) (di_task_id d) (di_target d) (jr_job_id job) r
                          (case so_error sent of Some e \<Rightarrow> e | None \<Rightarrow> ''send_failed'')), [(di_target d, job)], st')
                else
                  (Inr (Dispatched (di_event_id d) (di_task_id d) (di_target d) (jr_job_id job) r
                          (case so_id sent of Some m \<Rightarrow> if m = [] then None else Some m | None \<Rightarrow> None)),
                   [(di_target d, job)], st')))))"

text \<open>\<open>InMemoryTaskboardAgentRunStore\<close>: a \<open>Map\<close> from event ids to runs.\<close>

definition prepare_agent_run ::
  "(dispatch \<Rightarrow> jsval) \<Rightarrow> dispatch \<Rightarrow> (jsval \<times> jsval) list \<Rightarrow> prepared option \<times> (jsval \<times> jsval) list" where
  "prepare_agent_run idFactory d runs =
     (case map_of runs (di_event_id d) of
        Some r \<Rightarrow> if is_nullish r
          then (Some \<lparr>pr_duplicate = False, pr_run = Some (idFactory d)\<rparr>, AList.update (di_event_id d) (idFactory d) runs)
          else (Some \<lparr>pr_duplicate = True, pr_run = Some r\<rparr>, runs)
      | None \<Rightarrow> (Some \<lparr>pr_duplicate = False, pr_run = Some (idFactory d)\<rparr>, AList.update (di_event_id d) (idFactory d) runs))"

definition default_run_id :: "js_env \<Rightarrow> dispatch \<Rightarrow> jsval" where
  "default_run_id je d = JStr (''run-'' @ js_string je (if is_nullish (di_task_id d) then di_event_id d else di_task_id d))"

text \<open>The event keys of the deliveries that were sent, in order.\<close>

definition sent_key :: "jsval \<Rightarrow> process_result \<Rightarrow> jsval list" where
  "sent_key e res = (case res of Sent _ _ _ _ _ \<Rightarrow> [event_key e] | _ \<Rightarrow> [])"

definition delivery_sent :: "js_env \<Rightarrow> dispatcher_cfg \<Rightarrow> dispatcher \<Rightarrow> delivery_inputs \<Rightarrow> jsval list" where
  "delivery_sent je cfg s inp =
     (case dv_json inp of None \<Rightarrow> [] | Some e \<Rightarrow> sent_key e (fst (process_event je cfg inp e s)))"

fun acked_sends :: "js_env \<Rightarrow> dispatcher_cfg \<Rightarrow> dispatcher \<Rightarrow> delivery_inputs list \<Rightarrow> jsval list" where
  "acked_sends je cfg s [] = []"
| "acked_sends je cfg s (inp # inps) =
     delivery_sent je cfg s inp @ acked_sends je cfg (consume_step je cfg s inp) inps"

subsection \<open>What every run of the dispatcher keeps\<close>

lemma event_key_seen: "\<not> is_object k \<Longrightarrow> seen_has k (ds_seen (mark_seen k s))"
  by (simp add: seen_has_def mark_seen_def)

lemma run_update_simps [simp]:
  "ds_seen (run_update cfg r upd s) = ds_seen s" "ds_sends (run_update cfg r upd s) = ds_sends s"
  by (simp_all add: run_update_def split: option.split)

lemma mark_seen_simps [simp]:
  "ds_seen (mark_seen k s) = ds_seen s @ [k]" "ds_sends (mark_seen k s) = ds_sends s"
  by (simp_all add: mark_seen_def)

text \<open>The three ways a dispatch ends.\<close>

lemma dispatch_job_sends:
  "ds_sends (snd (dispatch_job je cfg inp e target r s)) = ds_sends s @ [(target, job_for je cfg inp e target r)]"
  by (simp add: dispatch_job_def Let_def split: sum.split)

lemma dispatch_job_seen:
  "ds_seen (snd (dispatch_job je cfg inp e target r s)) =
     ds_seen s @ (case fst (dispatch_job je cfg inp e target r s) of Sent _ _ _ _ _ \<Rightarrow> [event_key e] | _ \<Rightarrow> [])"
  by (simp add: dispatch_job_def Let_def split: sum.split)

lemma route_dispatch:
  assumes "route_taskboard_event env e d = Inr (Dispatch x)"
  shows "is_taskboard_event e" and "should_dispatch e"
    and "target_agent_for_event env e (case d of Some d \<Rightarrow> d
           | None \<Rightarrow> (case env ''TASKBOARD_DISPATCH_DEFAULT_AGENT_ID'' of Some d \<Rightarrow> d | None \<Rightarrow> DEFAULT_AGENT_ID)) = Some (di_target x)"
  using assms
  by (auto simp: route_taskboard_event_def split: if_splits option.splits sum.splits)

lemma is_token_DEFAULT_AGENT_ID: "is_token DEFAULT_AGENT_ID"
  by (simp add: DEFAULT_AGENT_ID_def js_eval)

lemma env_agent_token: "env_agent env k = Some a \<Longrightarrow> is_token a"
  by (simp add: env_agent_def split: option.splits if_splits)

lemma target_agent_token: "target_agent_for_event env e d = Some a \<Longrightarrow> is_token a"
  by (auto simp: target_agent_for_event_def review_target_def first_some_def Let_def is_token_DEFAULT_AGENT_ID
      dest: env_agent_token split: if_splits option.splits)

lemma job_for_fields:
  "jr_sandbox (job_for je cfg inp e target r) = ''read-only''"
  "jr_approval_policy (job_for je cfg inp e target r) = ''never''"
  "jr_job_id (job_for je cfg inp e target r) = job_id_for_event je (dv_uuid inp) e"
  "jr_thread_key (job_for je cfg inp e target r) = thread_key_for_event je (dv_uuid inp) e"
  by (simp_all add: job_for_def build_codex_job_request_def Let_def)

text \<open>What the state says of one delivery of the event \<open>e\<close>.\<close>

definition due_job :: "js_env \<Rightarrow> dispatcher_cfg \<Rightarrow> delivery_inputs \<Rightarrow> string \<times> job_request \<Rightarrow> bool" where
  "due_job je cfg inp tj \<longleftrightarrow> is_token (fst tj) \<and> (\<exists>e r. dv_json inp = Some e \<and> is_taskboard_event e \<and> should_dispatch e
     \<and> snd tj = job_for je cfg inp e (fst tj) r)"

lemma process_event_cases:
  obtains (quiet) "sent_key e (fst (process_event je cfg inp e s)) = []"
      "ds_sends (snd (process_event je cfg inp e s)) = ds_sends s"
      "set (ds_seen s) \<subseteq> set (ds_seen (snd (process_event je cfg inp e s)))"
  | (dispatched) x r where "\<not> seen_has (event_key e) (ds_seen s)"
      "route_taskboard_event (dp_env cfg) e None = Inr (Dispatch x)"
      "process_event je cfg inp e s = dispatch_job je cfg inp e (di_target x) r s"
  apply (cases "is_nullish e \<or> seen_has (event_key e) (ds_seen s)")
  subgoal by (rule quiet) (auto simp: process_event_def sent_key_def)
  apply (cases "route_taskboard_event (dp_env cfg) e None")
  subgoal by (rule quiet) (auto simp: process_event_def sent_key_def)
  subgoal for rt
    apply (cases rt)
    subgoal by (rule quiet) (auto simp: process_event_def sent_key_def)
    subgoal for x
      apply (cases "dp_has_runs cfg")
      subgoal
        apply (cases "create_or_reuse e (dv_runs inp) (dv_created inp)")
        subgoal by (rule quiet) (auto simp: process_event_def sent_key_def)
        subgoal by (rule dispatched) (auto simp: process_event_def)
        done
      subgoal by (rule dispatched) (auto simp: process_event_def)
      done
    done
  done

lemma consume_step_seen_sends:
  "ds_seen (consume_step je cfg s inp) = (case dv_json inp of None \<Rightarrow> ds_seen s
     | Some e \<Rightarrow> ds_seen (snd (process_event je cfg inp e s)))"
  "ds_sends (consume_step je cfg s inp) = (case dv_json inp of None \<Rightarrow> ds_sends s
     | Some e \<Rightarrow> ds_sends (snd (process_event je cfg inp e s)))"
  by (simp_all add: consume_step_def consume_message_def split: option.split prod.split process_result.split)

lemma process_event_seen:
  "set (ds_seen s) \<union> set (sent_key e (fst (process_event je cfg inp e s))) \<subseteq> set (ds_seen (snd (process_event je cfg inp e s)))
   \<and> (\<forall>k \<in> set (sent_key e (fst (process_event je cfg inp e s))). \<not> seen_has k (ds_seen s))"
  by (cases rule: process_event_cases [of e je cfg inp s])
    (auto simp: dispatch_job_seen, auto simp: sent_key_def split: process_result.splits)

lemma process_event_sends:
  assumes "dv_json inp = Some e"
  obtains tjs where "ds_sends (snd (process_event je cfg inp e s)) = ds_sends s @ tjs"
    and "\<And>tj. tj \<in> set tjs \<Longrightarrow> due_job je cfg inp tj"
proof (cases rule: process_event_cases [of e je cfg inp s])
  case quiet
  then show ?thesis using that [of "[]"] by simp
next
  case (dispatched x r)
  then have "due_job je cfg inp (di_target x, job_for je cfg inp e (di_target x) r)"
    using assms route_dispatch [OF dispatched(2)] by (auto simp: due_job_def dest: target_agent_token)
  then show ?thesis
    using that [of "[(di_target x, job_for je cfg inp e (di_target x) r)]"] dispatched(3)
    by (simp add: dispatch_job_sends)
qed

lemma delivery_sent_seen:
  "set (ds_seen s) \<union> set (delivery_sent je cfg s inp) \<subseteq> set (ds_seen (consume_step je cfg s inp))
   \<and> (\<forall>k \<in> set (delivery_sent je cfg s inp). \<not> seen_has k (ds_seen s))"
  using process_event_seen by (auto simp: delivery_sent_def consume_step_seen_sends split: option.split)

lemma delivery_sent_short: "length (delivery_sent je cfg s inp) \<le> 1"
  by (auto simp: delivery_sent_def sent_key_def split: option.split process_result.split)

lemma acked_sends_distinct:
  "distinct (filter (\<lambda>k. \<not> is_object k) (acked_sends je cfg s inps))
   \<and> (\<forall>k \<in> set (acked_sends je cfg s inps). \<not> seen_has k (ds_seen s))"
proof (induction inps arbitrary: s)
  case Nil
  then show ?case by simp
next
  case (Cons inp inps)
  note IH = Cons [of "consume_step je cfg s inp"] and step = delivery_sent_seen [of s je cfg inp]
  have disj: "k \<notin> set (acked_sends je cfg (consume_step je cfg s inp) inps)"
    if "k \<in> set (delivery_sent je cfg s inp)" "\<not> is_object k" for k
    using that IH step by (auto simp: seen_has_def)
  moreover have "distinct (delivery_sent je cfg s inp)"
    using delivery_sent_short [of je cfg s inp] by (cases "delivery_sent je cfg s inp") auto
  moreover have "\<not> seen_has k (ds_seen s)" if "k \<in> set (acked_sends je cfg (consume_step je cfg s inp) inps)" for k
    using that IH step by (auto simp: seen_has_def)
  ultimately show ?case
    using IH step by auto
qed

lemma run_sends_due:
  "tj \<in> set (ds_sends (Prelude.run (consume_step je cfg) s inps)) \<Longrightarrow>
     tj \<in> set (ds_sends s) \<or> (\<exists>inp \<in> set inps. due_job je cfg inp tj)"
proof (induction inps arbitrary: s)
  case (Cons inp inps)
  then consider "tj \<in> set (ds_sends (consume_step je cfg s inp))" | "\<exists>i \<in> set inps. due_job je cfg i tj"
    by auto
  then show ?case
  proof cases
    case 1
    show ?thesis
    proof (cases "dv_json inp")
      case None
      then show ?thesis using 1 by (simp add: consume_step_seen_sends)
    next
      case (Some e)
      obtain tjs where "ds_sends (consume_step je cfg s inp) = ds_sends s @ tjs"
        "\<And>tj. tj \<in> set tjs \<Longrightarrow> due_job je cfg inp tj"
        using process_event_sends [OF Some, of je cfg s] by (auto simp: consume_step_seen_sends Some)
      then have "tj \<in> set (ds_sends s) \<or> due_job je cfg inp tj" using 1 by (metis Un_iff set_append)
      then show ?thesis by auto
    qed
  qed auto
qed simp

text \<open>
  C31. The taskboard dispatcher sends the job of an event at most once: over any deliveries, in any
  order, with redeliveries and failures of the API and of the bus, the keys of the deliveries
  that were sent and acknowledged are distinct. And every job it ever sent is a read-only job without
  approvals, to an agent whose id is a valid token, built from a delivered taskboard event that was due:
  a task that moved to in progress, or a review request with an id.
\<close>

theorem jobs_dispatched_once_and_due:
  "distinct (filter (\<lambda>k. \<not> is_object k) (acked_sends je cfg ds_new inps)) \<and>
   (\<forall>tj \<in> set (ds_sends (Prelude.run (consume_step je cfg) ds_new inps)).
      is_token (fst tj) \<and> jr_sandbox (snd tj) = ''read-only'' \<and> jr_approval_policy (snd tj) = ''never''
      \<and> (\<exists>inp \<in> set inps. \<exists>e. dv_json inp = Some e \<and> is_taskboard_event e \<and> should_dispatch e
           \<and> jr_job_id (snd tj) = job_id_for_event je (dv_uuid inp) e
           \<and> jr_thread_key (snd tj) = thread_key_for_event je (dv_uuid inp) e))"
proof -
  have "is_token (fst tj) \<and> jr_sandbox (snd tj) = ''read-only'' \<and> jr_approval_policy (snd tj) = ''never''
      \<and> (\<exists>inp \<in> set inps. \<exists>e. dv_json inp = Some e \<and> is_taskboard_event e \<and> should_dispatch e
           \<and> jr_job_id (snd tj) = job_id_for_event je (dv_uuid inp) e
           \<and> jr_thread_key (snd tj) = thread_key_for_event je (dv_uuid inp) e)"
    if tj: "tj \<in> set (ds_sends (Prelude.run (consume_step je cfg) ds_new inps))" for tj
  proof -
    obtain inp where inp: "inp \<in> set inps" "due_job je cfg inp tj"
      using run_sends_due [OF tj] by (auto simp: ds_new_def)
    then obtain e r where "dv_json inp = Some e" "is_taskboard_event e" "should_dispatch e"
      "snd tj = job_for je cfg inp e (fst tj) r" "is_token (fst tj)"
      unfolding due_job_def by blast
    with inp(1) show ?thesis by (simp add: job_for_fields) blast
  qed
  then show ?thesis using acked_sends_distinct [of je cfg ds_new inps] by blast
qed

definition sample_je :: js_env where
  "sample_je = \<lparr>je_num_text = (\<lambda>n. ''7''), je_to_number = (\<lambda>v. NaN), je_date_parse = (\<lambda>s. None), je_iso = (\<lambda>n. '''')\<rparr>"

definition due_event :: jsval where
  "due_event = JObj [(''schema'', JStr TASKBOARD_EVENT_SCHEMA), (''event_id'', JStr ''e1''), (''event_type'', JStr STATUS_CHANGED),
     (''source'', JObj []), (''scope'', JObj [(''task_id'', JNum (Fin 7))]),
     (''idempotency'', JObj [(''event_id'', JStr ''e1''), (''fire_generation'', JNum (Fin 1))]),
     (''payload'', JObj [(''from_status'', JStr ''Backlog''), (''to_status'', JStr ''In Progress'')])]"

definition sample_cfg :: dispatcher_cfg where
  "sample_cfg = \<lparr>dp_env = (\<lambda>k. None), dp_has_runs = False, dp_pretty = (\<lambda>v. '''')\<rparr>"

definition sample_delivery :: delivery_inputs where
  "sample_delivery = \<lparr>dv_json = Some due_event, dv_runs = None, dv_created = None,
     dv_send = Inr \<lparr>so_ok = True, so_id = Some ''m1'', so_error = None\<rparr>, dv_uuid = ''u''\<rparr>"

lemma due_event_simps:
  "is_taskboard_event due_event" "should_dispatch due_event" "event_key due_event = JStr ''e1''" "\<not> is_nullish due_event"
  "jget due_event ''event_type'' = JStr STATUS_CHANGED" "source_url due_event = Inr JUndef"
  by (simp_all add: due_event_def is_taskboard_event_def should_dispatch_def event_key_def payload_record_def record_or_empty_def
      normalize_status_def source_url_def TASKBOARD_EVENT_SCHEMA_def STATUS_CHANGED_def REVIEW_REQUESTED_def js_eval char_of_def bit_iff_odd)

lemma due_event_routed:
  "\<exists>d. route_taskboard_event (\<lambda>k. None) due_event None = Inr (Dispatch d) \<and> di_target d = DEFAULT_AGENT_ID"
proof -
  have "string_value (jget (task_payload due_event) ''agent_id'') = None"
    by (simp add: due_event_def task_payload_def payload_record_def record_or_empty_def string_value_def js_eval)
  moreover have "js_lower (js_trim DEFAULT_AGENT_ID) = DEFAULT_AGENT_ID"
    by (simp add: DEFAULT_AGENT_ID_def js_eval)
  ultimately have "target_agent_for_event (\<lambda>k. None) due_event DEFAULT_AGENT_ID = Some DEFAULT_AGENT_ID"
    by (simp add: target_agent_for_event_def due_event_simps STATUS_CHANGED_def REVIEW_REQUESTED_def)
  then show ?thesis
    by (simp add: route_taskboard_event_def due_event_simps) (simp add: DEFAULT_AGENT_ID_def)
qed

lemma jobs_dispatched_once_and_due_witness:
  "acked_sends sample_je sample_cfg ds_new [sample_delivery, sample_delivery] = [JStr ''e1'']
   \<and> (\<exists>job. ds_sends (Prelude.run (consume_step sample_je sample_cfg) ds_new [sample_delivery, sample_delivery])
          = [(DEFAULT_AGENT_ID, job)] \<and> jr_sandbox job = ''read-only'')"
proof -
  obtain d where d: "route_taskboard_event (\<lambda>k. None) due_event None = Inr (Dispatch d)" "di_target d = DEFAULT_AGENT_ID"
    using due_event_routed by blast
  have p1: "process_event sample_je sample_cfg sample_delivery due_event ds_new =
      dispatch_job sample_je sample_cfg sample_delivery due_event DEFAULT_AGENT_ID None ds_new"
    by (simp add: process_event_def due_event_simps d sample_cfg_def ds_new_def seen_has_def)
  have d1: "sent_key due_event (fst (dispatch_job sample_je sample_cfg sample_delivery due_event DEFAULT_AGENT_ID None ds_new)) = [JStr ''e1'']"
    by (simp add: dispatch_job_def sent_key_def sample_delivery_def Let_def due_event_simps)
  let ?s = "consume_step sample_je sample_cfg ds_new sample_delivery"
  have s: "ds_seen ?s = [JStr ''e1'']"
    "ds_sends ?s = [(DEFAULT_AGENT_ID, job_for sample_je sample_cfg sample_delivery due_event DEFAULT_AGENT_ID None)]"
    using p1 by (simp_all add: consume_step_seen_sends sample_delivery_def [THEN arg_cong [of _ _ dv_json]]
        dispatch_job_def sample_delivery_def Let_def due_event_simps ds_new_def)
  have p2: "process_event sample_je sample_cfg sample_delivery due_event ?s = (Ignored Duplicate (jget due_event ''event_id''), ?s)"
    by (simp add: process_event_def due_event_simps seen_has_def s)
  have j: "dv_json sample_delivery = Some due_event" by (simp add: sample_delivery_def)
  have "acked_sends sample_je sample_cfg ds_new [sample_delivery, sample_delivery] = [JStr ''e1'']"
    using d1 by (simp add: delivery_sent_def j p1 p2) (simp add: sent_key_def)
  moreover have "ds_sends (Prelude.run (consume_step sample_je sample_cfg) ds_new [sample_delivery, sample_delivery]) = ds_sends ?s"
    by (simp add: consume_step_seen_sends(2) [of _ _ ?s] j p2)
  ultimately show ?thesis
    using jobs_dispatched_once_and_due [of sample_je sample_cfg "[sample_delivery, sample_delivery]"] by (simp add: s)
qed

subsection \<open>The in-memory run store and refused sends\<close>

lemma route_event_id:
  "route_taskboard_event env e dflt = Inr (Dispatch d) \<Longrightarrow> di_event_id d = jget e ''event_id''"
  by (auto simp: route_taskboard_event_def split: if_splits option.splits sum.splits)

lemma prepare_keeps:
  "map_of runs k = Some r \<Longrightarrow> \<not> is_nullish r
     \<Longrightarrow> map_of (snd (prepare_agent_run f d runs)) k = Some r"
  by (auto simp: prepare_agent_run_def update_conv' split: option.split)

lemma prepare_records:
  "\<not> is_nullish (f d) \<Longrightarrow> \<exists>r. map_of (snd (prepare_agent_run f d runs)) (di_event_id d) = Some r \<and> \<not> is_nullish r"
  by (auto simp: prepare_agent_run_def update_conv' split: option.split)

definition handle_run ::
  "js_env \<Rightarrow> handler_opts \<Rightarrow> (jsval \<times> jsval) list \<Rightarrow> string \<times> jsval \<times> send_outcome \<Rightarrow> (jsval \<times> jsval) list" where
  "handle_run je ho st x =
     snd (snd (handle je ho (prepare_agent_run (default_run_id je)) (fst x) (fst (snd x)) (snd (snd x)) st))"

lemma handle_state:
  "snd (snd (handle je ho prep uuid e sent st)) =
     (case route_taskboard_event (ho_env ho) e (ho_defaultAgentId ho) of
        Inr (Dispatch d) \<Rightarrow> snd (prep d st) | _ \<Rightarrow> st)"
  by (simp add: handle_def Let_def split: sum.split route.split prod.split)

definition recorded :: "jsval \<Rightarrow> (jsval \<times> jsval) list \<Rightarrow> bool" where
  "recorded k st \<longleftrightarrow> (\<exists>r. map_of st k = Some r \<and> \<not> is_nullish r)"

interpretation recorded: step_invariant "handle_run je ho" "recorded k" for je ho k
  by unfold_locales
    (auto simp: recorded_def handle_run_def handle_state dest: prepare_keeps split: sum.split route.split)

text \<open>
  C33. With the in-memory run store a refused send is final: once \<open>handle\<close> has answered that an event could
  not be sent (so that the delivery is refused and comes again), every later delivery of
  the same event, whatever was handled in between, is acknowledged as a duplicate and sends no job.
\<close>

theorem refused_send_is_never_retried:
  assumes "fst (handle je ho (prepare_agent_run (default_run_id je)) uuid e sent st) = Inr res" "\<not> handler_ack res"
    and "st' = Prelude.run (handle_run je ho)
           (snd (snd (handle je ho (prepare_agent_run (default_run_id je)) uuid e sent st))) between"
  shows "\<exists>eid task r. handle je ho (prepare_agent_run (default_run_id je)) uuid2 e sent2 st' = (Inr (DuplicateRun eid task r), [], st')"
proof -
  obtain d where d: "route_taskboard_event (ho_env ho) e (ho_defaultAgentId ho) = Inr (Dispatch d)"
    using assms(1,2) by (auto simp: handle_def split: sum.splits route.splits)
  have "recorded (di_event_id d) (snd (prepare_agent_run (default_run_id je) d st))"
    unfolding recorded_def by (rule prepare_records) (simp add: default_run_id_def is_nullish_def)
  then have "recorded (di_event_id d) st'"
    using assms(3) by (simp add: handle_state d recorded.run_inv)
  then show ?thesis
    by (auto simp: recorded_def handle_def d prepare_agent_run_def Let_def)
qed

definition sample_ho :: handler_opts where
  "sample_ho = \<lparr>ho_env = (\<lambda>k. None), ho_pretty = (\<lambda>v. ''''), ho_defaultAgentId = None, ho_cwd = None, ho_taskboardUrl = None\<rparr>"

definition sample_refused :: send_outcome where
  "sample_refused = \<lparr>so_ok = False, so_id = None, so_error = None\<rparr>"

lemma refused_send_is_never_retried_witness:
  "\<exists>st eid task r.
     (\<exists>jobs. snd (handle sample_je sample_ho (prepare_agent_run (default_run_id sample_je)) ''u'' due_event sample_refused []) = (jobs, st)
        \<and> jobs \<noteq> [])
     \<and> handle sample_je sample_ho (prepare_agent_run (default_run_id sample_je)) ''v'' due_event
         \<lparr>so_ok = True, so_id = None, so_error = None\<rparr> st = (Inr (DuplicateRun eid task r), [], st)"
proof -
  let ?h = "handle sample_je sample_ho (prepare_agent_run (default_run_id sample_je)) ''u'' due_event sample_refused []"
  obtain d where d: "route_taskboard_event (\<lambda>k. None) due_event None = Inr (Dispatch d)"
    using due_event_routed by blast
  obtain res where res: "fst ?h = Inr res" "\<not> handler_ack res" "fst (snd ?h) \<noteq> []"
    by (simp add: handle_def d sample_ho_def prepare_agent_run_def sample_refused_def Let_def)
  have "\<exists>eid task r. handle sample_je sample_ho (prepare_agent_run (default_run_id sample_je)) ''v'' due_event
         \<lparr>so_ok = True, so_id = None, so_error = None\<rparr> (snd (snd ?h)) = (Inr (DuplicateRun eid task r), [], snd (snd ?h))"
    by (rule refused_send_is_never_retried [OF res(1,2), of _ "[]"]) simp
  then show ?thesis using res(3) by (metis prod.collapse)
qed

end
