(* ===== verification/Event_Replies.thy ===== *)
theory Event_Replies
  imports Event_Dispatch
begin

text \<open>
  The replies of the Codex gateways to taskboard jobs (src/taskboard_event_dispatcher.ts): how a
  reply is classified, matched with its job, written back to the agent run, and how a review verdict
  is read out of the answer and submitted (\<open>TaskboardReplyHandler\<close>).

  \<open>parse\<close> is \<open>JSON.parse\<close> (\<open>None\<close> where it throws). The answers of the taskboard API are inputs of each
  reply, and the requests that change it are logged in the order they are made.
\<close>

subsection \<open>Classifying a reply\<close>

record reply_common =
  rc_job_id :: string
  rc_corr :: "string option"
  rc_from :: "string option"

text \<open>\<open>Completed\<close> carries status, output, result reference and the preview flag.\<close>

datatype codex_reply =
    Accepted reply_common
  | Completed reply_common "string option" "string option" "string option" bool
  | Failed reply_common string
  | Rejected reply_common string "string option"
  | NoReply string

definition text_or :: "string option \<Rightarrow> string \<Rightarrow> string" where
  "text_or v d = (case v of Some s \<Rightarrow> s | None \<Rightarrow> d)"

definition reply_of :: "jsval \<Rightarrow> jsval \<Rightarrow> codex_reply" where
  "reply_of msg attrs =
     (case string_value (jget msg ''job_id'') of
        None \<Rightarrow> NoReply ''missing_job_id''
      | Some job_id \<Rightarrow>
        (let c = \<lparr>rc_job_id = job_id, rc_corr = string_value (jget attrs ''corr''), rc_from = string_value (jget attrs ''from'')\<rparr> in
         if jget msg ''schema'' = JStr ''codex.job.accepted.v1'' then Accepted c
         else if jget msg ''schema'' = JStr ''codex.job.completed.v1'' then
           Completed c (string_value (jget msg ''status'')) (string_value (jget msg ''output''))
             (string_value (jget msg ''result_ref'')) (jget msg ''output_preview'' = JBool True)
         else if jget msg ''schema'' = JStr ''codex.job.failed.v1'' then
           Failed c (text_or (string_value (jget msg ''error'')) ''codex job failed'')
         else if jget msg ''schema'' = JStr ''codex.job.rejected.v1'' then
           Rejected c (text_or (string_value (jget msg ''reason'')) ''codex job rejected'') (string_value (jget msg ''detail''))
         else NoReply ''not_codex_job_reply''))"

definition classify_codex_job_reply :: "(string \<Rightarrow> jsval option) \<Rightarrow> string \<Rightarrow> jsval \<Rightarrow> codex_reply" where
  "classify_codex_job_reply parse content attrs =
     (if jget attrs ''feed'' \<noteq> JStr ''a2a'' \<or> jget attrs ''kind'' \<noteq> JStr ''direct'' \<or> jget attrs ''type'' \<noteq> JStr ''reply''
        then NoReply ''not_a2a_reply''
      else (case parse content of
              None \<Rightarrow> NoReply ''bad_json''
            | Some msg \<Rightarrow> if is_obj msg then reply_of msg attrs else NoReply ''bad_body''))"

fun reply_common_of :: "codex_reply \<Rightarrow> reply_common option" where
  "reply_common_of (Accepted c) = Some c"
| "reply_common_of (Completed c _ _ _ _) = Some c"
| "reply_common_of (Failed c _) = Some c"
| "reply_common_of (Rejected c _ _) = Some c"
| "reply_common_of (NoReply _) = None"

subsection \<open>The review verdict in an answer\<close>

datatype review_verdict = APPROVE | REQUEST_CHANGES | COMMENT

record review_submission =
  rs_verdict :: review_verdict
  rs_commit_sha :: "string option"
  rs_findings_md :: "string option"
  rs_findings :: "jsval list option"

definition verdict_char :: "char \<Rightarrow> bool" where
  "verdict_char c \<longleftrightarrow> js_ws c \<or> c = CHR ''-''"

definition normalize_review_verdict :: "jsval \<Rightarrow> review_verdict option" where
  "normalize_review_verdict v =
     (let raw = (case v of JStr s \<Rightarrow> collapse verdict_char (CHR ''_'') (js_upper (js_trim s)) | _ \<Rightarrow> []) in
      if raw = ''APPROVE'' \<or> raw = ''APPROVED'' then Some APPROVE
      else if raw = ''REQUEST_CHANGES'' \<or> raw = ''CHANGES_REQUESTED'' \<or> raw = ''REQUESTED_CHANGES'' then Some REQUEST_CHANGES
      else if raw = ''COMMENT'' \<or> raw = ''COMMENT_ONLY'' \<or> raw = ''COMMENTS'' then Some COMMENT
      else None)"

definition normalize_review_result :: "jsval \<Rightarrow> review_submission option" where
  "normalize_review_result v =
     (if \<not> is_obj v then None
      else (let nested = (if is_obj (jget v ''taskboard_review_result'') then jget v ''taskboard_review_result'' else v) in
        case normalize_review_verdict (jget nested ''verdict'') of
          None \<Rightarrow> None
        | Some verdict \<Rightarrow> Some
            \<lparr>rs_verdict = verdict,
             rs_commit_sha = first_some (string_value (jget nested ''commit_sha'')) (string_value (jget nested ''linked_commit_sha'')),
             rs_findings_md = first_some (string_value (jget nested ''findings_md'')) (string_value (jget nested ''summary'')),
             rs_findings = (case jget nested ''findings'' of JArr vs \<Rightarrow> Some (filter is_obj vs) | _ \<Rightarrow> None)\<rparr>))"

text \<open>The text before and after the first occurrence of \<open>pat\<close>.\<close>

fun break_at :: "string \<Rightarrow> string \<Rightarrow> (string \<times> string) option" where
  "break_at pat s =
     (if starts_with pat s then Some ([], drop (length pat) s)
      else (case s of [] \<Rightarrow> None | c # cs \<Rightarrow> map_option (\<lambda>(a, b). (c # a, b)) (break_at pat cs)))"

declare break_at.simps [simp del]

definition fence :: string where "fence = replicate 3 (CHR 0x60)"

definition drop_json :: "string \<Rightarrow> string" where
  "drop_json s = (if js_lower (take 4 s) = ''json'' then drop 4 s else s)"

text \<open>
  The matches of \<open>/```(?:json)?\s*([\s\S]*?)```/gi\<close>. An opening fence without a closing one is no match,
  and neither is any later one. The white space skipped before the group falls to \<open>trim\<close>.
\<close>

lemma break_at_length: "break_at pat s = Some (a, b) \<Longrightarrow> length a + length pat + length b = length s"
proof (induction pat s arbitrary: a b rule: break_at.induct)
  case (1 pat s)
  show ?case
  proof (cases "starts_with pat s")
    case True
    then have "length pat \<le> length s"
      by (metis starts_with_def length_take min.cobounded1 min.commute nat_le_linear take_all)
    then show ?thesis using True "1.prems" by (auto simp: break_at.simps [of pat s])
  next
    case False
    then show ?thesis using 1 by (auto simp: break_at.simps [of pat s] split: list.splits)
  qed
qed

function fence_blocks :: "string \<Rightarrow> string list" where
  "fence_blocks s =
     (case break_at fence s of
        None \<Rightarrow> []
      | Some (_, opened) \<Rightarrow>
          (case break_at fence (drop_json opened) of
             None \<Rightarrow> []
           | Some (body, rest) \<Rightarrow> body # fence_blocks rest))"
  by pat_completeness auto
termination
proof (relation "measure length")
  fix s a opened body rest p q
  assume a: "break_at fence s = Some p" "(a, opened) = p" "break_at fence (drop_json opened) = Some q" "(body, rest) = q"
  have "length (drop_json opened) \<le> length opened" by (simp add: drop_json_def)
  then show "(rest, s) \<in> measure length"
    using break_at_length [of fence s a opened] break_at_length [of fence "drop_json opened" body rest] a
    by (auto simp: fence_def)
qed simp

declare fence_blocks.simps [simp del]

definition braced :: "string \<Rightarrow> bool" where
  "braced s \<longleftrightarrow> starts_with ''{'' s \<and> s \<noteq> [] \<and> last s = CHR ''}''"

fun first_result :: "'a option list \<Rightarrow> 'a option" where
  "first_result [] = None"
| "first_result (Some x # xs) = Some x"
| "first_result (None # xs) = first_result xs"

definition extract_review_result :: "(string \<Rightarrow> jsval option) \<Rightarrow> string \<Rightarrow> review_submission option" where
  "extract_review_result parse output =
     (let texts = (if braced (js_trim output) then [js_trim output] else []) @ map js_trim (fence_blocks output) in
      first_result (map (\<lambda>t. Option.bind (parse t) normalize_review_result) texts))"

subsection \<open>The comment on the task\<close>

datatype writeback =
    Submitted review_verdict "jsval option"
  | Skipped string
  | WritebackFailed string

definition verdict_text :: "review_verdict \<Rightarrow> string" where
  "verdict_text v = (case v of APPROVE \<Rightarrow> ''APPROVE'' | REQUEST_CHANGES \<Rightarrow> ''REQUEST_CHANGES'' | COMMENT \<Rightarrow> ''COMMENT'')"

definition truncate_for_taskboard :: "string \<Rightarrow> nat \<Rightarrow> string" where
  "truncate_for_taskboard value maxChars =
     (if length value \<le> maxChars then value
      else take (maxChars - 32) value @ newline @ ''...[truncated '' @ nat_str (length value - maxChars) @ '' chars]'')"

definition reply_kind :: "codex_reply \<Rightarrow> string" where
  "reply_kind r = (case r of Accepted _ \<Rightarrow> ''accepted'' | Completed _ _ _ _ _ \<Rightarrow> ''completed'' | Failed _ _ \<Rightarrow> ''failed''
     | Rejected _ _ _ \<Rightarrow> ''rejected'' | NoReply _ \<Rightarrow> ''ignore'')"

definition writeback_lines :: "js_env \<Rightarrow> writeback \<Rightarrow> string list" where
  "writeback_lines je w = [[], ''Review verdict writeback:''] @
     (case w of
        Submitted v rid \<Rightarrow> (''Status: submitted '' @ verdict_text v) #
          (case rid of Some r \<Rightarrow> [''Review ID: '' @ js_string je r] | None \<Rightarrow> [])
      | Skipped reason \<Rightarrow> [''Status: skipped'', ''Reason: '' @ reason]
      | WritebackFailed reason \<Rightarrow> [''Status: failed'', ''Reason: '' @ reason])"

definition build_codex_reply_comment :: "js_env \<Rightarrow> codex_reply \<Rightarrow> pending_job \<Rightarrow> writeback option \<Rightarrow> string" where
  "build_codex_reply_comment je reply job w =
     (let c = (case reply_common_of reply of Some c \<Rightarrow> c | None \<Rightarrow> \<lparr>rc_job_id = [], rc_corr = None, rc_from = None\<rparr>) in
      join_with newline
       ([''## Codex job '' @ reply_kind reply, [], ''Job: '' @ rc_job_id c,
         ''Agent run: '' @ (case pj_agent_run_id job of Some r \<Rightarrow> je_num_text je r | None \<Rightarrow> ''(unknown)''),
         ''Gateway: '' @ js_or (Some (text_or (rc_from c) (pj_target job))) ''(unknown)'',
         ''Event: '' @ js_string je (pj_event_id job), []]
        @ (case reply of
             Completed _ status output result_ref preview \<Rightarrow>
               [''Status: '' @ text_or status ''completed'', []]
               @ (case output of Some o' \<Rightarrow> [truncate_for_taskboard o' 6000] | None \<Rightarrow> [])
               @ (case result_ref of
                    Some r \<Rightarrow> [[], ''Result ref: '' @ r]
                      @ (if preview then [''Note: output was claim-checked; the text above is a preview.''] else [])
                  | None \<Rightarrow> [])
               @ (case w of Some w \<Rightarrow> writeback_lines je w | None \<Rightarrow> [])
           | Failed _ err \<Rightarrow> [''Failure:'', [], truncate_for_taskboard err 6000]
           | Rejected _ reason detail \<Rightarrow> (''Rejected: '' @ reason) #
               (case detail of Some d \<Rightarrow> [[], truncate_for_taskboard d 6000] | None \<Rightarrow> [])
           | _ \<Rightarrow> [])))"

definition codex_failure_class :: "string \<Rightarrow> string" where
  "codex_failure_class err =
     (let e = js_lower err in
      if contains ''timeout'' e then ''endpoint_timeout''
      else if contains ''rate'' e then ''endpoint_rate_limited''
      else if contains ''auth'' e \<or> contains ''unauthorized'' e then ''endpoint_unauthorized''
      else if contains ''transport'' e \<or> contains ''network'' e then ''endpoint_transport_drop''
      else ''tool_runtime_exception'')"

subsection \<open>The reply handler\<close>

datatype store_call =
    UpdateRun jsnum "(string \<times> string) list"
  | SubmitReview jsnum string review_submission
  | PostComment jsval string string

record reply_handler =
  rh_byCorr :: "(string \<times> pending_job) list"
  rh_byJob :: "(string \<times> pending_job) list"
  rh_calls :: "store_call list"

text \<open>
  The run store is optional, and so are its operations. \<open>rp_update\<close>, \<open>rp_submit\<close>, \<open>rp_comment\<close>: it has the
  operation. \<open>commentAgent\<close> is \<open>None\<close> where the option is not given.
\<close>

record reply_cfg =
  rp_je :: js_env
  rp_parse :: "string \<Rightarrow> jsval option"
  rp_update :: bool
  rp_submit :: bool
  rp_comment :: bool
  rp_commentAgent :: "string option"

text \<open>
  The answers to one reply: the run \<open>findBySession\<close> found (\<open>None\<close>: no run, a failed request or no such
  operation), the commit \<open>getTaskCommitSha\<close> knows (likewise), the outcome of
  the submission (\<open>Inl\<close>: it threw) and the error of the final update, the only one that is not caught.
\<close>

record reply_inputs =
  ri_found :: "jsval option"
  ri_commit :: "string option"
  ri_submit :: "string + writeback"
  ri_final_error :: "string option"

definition rh_new :: reply_handler where
  "rh_new = \<lparr>rh_byCorr = [], rh_byJob = [], rh_calls = []\<rparr>"

definition nonempty :: "string option \<Rightarrow> bool" where
  "nonempty v \<longleftrightarrow> (case v of Some s \<Rightarrow> s \<noteq> [] | None \<Rightarrow> False)"

definition track :: "pending_job \<Rightarrow> reply_handler \<Rightarrow> reply_handler" where
  "track job h =
     (let h1 = h\<lparr>rh_byJob := AList.update (pj_job_id job) job (rh_byJob h)\<rparr> in
      case pj_corr job of
        Some c \<Rightarrow> if c \<noteq> [] then h1\<lparr>rh_byCorr := AList.update c job (rh_byCorr h1)\<rparr> else h1
      | None \<Rightarrow> h1)"

definition delete_pending :: "pending_job \<Rightarrow> reply_handler \<Rightarrow> reply_handler" where
  "delete_pending job h =
     (let h1 = h\<lparr>rh_byJob := AList.delete (pj_job_id job) (rh_byJob h)\<rparr> in
      case pj_corr job of
        Some c \<Rightarrow> if c \<noteq> [] then h1\<lparr>rh_byCorr := AList.delete c (rh_byCorr h1)\<rparr> else h1
      | None \<Rightarrow> h1)"

text \<open>\<open>/^tb-review-(\d+)-(\d+)$/\<close>, the second group as a number.\<close>

definition parse_review_job_id :: "string \<Rightarrow> jsnum option" where
  "parse_review_job_id jobId =
     (if starts_with ''tb-review-'' jobId then
        (case split_on (CHR ''-'') (drop 10 jobId) of
           [a, b] \<Rightarrow> if all_digits a \<and> a \<noteq> [] \<and> all_digits b \<and> b \<noteq> [] then int_literal b else None
         | _ \<Rightarrow> None)
      else None)"

definition lookup_pending :: "reply_common \<Rightarrow> reply_handler \<Rightarrow> pending_job option" where
  "lookup_pending c h =
     first_some (case rc_corr c of Some x \<Rightarrow> if x \<noteq> [] then map_of (rh_byCorr h) x else None | None \<Rightarrow> None)
       (map_of (rh_byJob h) (rc_job_id c))"

definition pending_of_run :: "js_env \<Rightarrow> reply_common \<Rightarrow> jsval \<Rightarrow> pending_job" where
  "pending_of_run je c r =
     \<lparr>pj_corr = rc_corr c, pj_job_id = rc_job_id c,
      pj_event_id = (if is_str (jget r ''trigger_event_id'') then jget r ''trigger_event_id'' else JStr (rc_job_id c)),
      pj_task_id = (case number_or_null (jget r ''task_id'') of Some n \<Rightarrow> JNum n | None \<Rightarrow> JNull),
      pj_agent_run_id = number_or_null (jget r ''id''),
      pj_target = text_or (rc_from c) (js_string je (if is_nullish (jget r ''agent_id'') then JStr [] else jget r ''agent_id'')),
      pj_review_request_id = parse_review_job_id (rc_job_id c),
      pj_review_role_key = string_value (jget r ''role''), pj_review_commit_sha = None\<rparr>"

definition resolve_pending :: "reply_cfg \<Rightarrow> reply_inputs \<Rightarrow> reply_common \<Rightarrow> reply_handler \<Rightarrow> pending_job option \<times> reply_handler" where
  "resolve_pending cfg inp c h =
     (case lookup_pending c h of
        Some p \<Rightarrow> (Some p, h)
      | None \<Rightarrow> (case ri_found inp of
          None \<Rightarrow> (None, h)
        | Some r \<Rightarrow> (if truthy r then (let p = pending_of_run (rp_je cfg) c r in (Some p, track p h)) else (None, h))))"

definition log_call :: "store_call \<Rightarrow> reply_handler \<Rightarrow> reply_handler" where
  "log_call c h = h\<lparr>rh_calls := rh_calls h @ [c]\<rparr>"

definition review_commit :: "reply_inputs \<Rightarrow> pending_job \<Rightarrow> review_submission \<Rightarrow> string option" where
  "review_commit inp p x =
     (let sha = first_some (rs_commit_sha x) (pj_review_commit_sha p) in
      if \<not> nonempty sha \<and> \<not> is_nullish (pj_task_id p) then
        (case ri_commit inp of Some s \<Rightarrow> Some s | None \<Rightarrow> sha) else sha)"

text \<open>The body of the submission: an empty commit is left out.\<close>

definition submission_of :: "reply_inputs \<Rightarrow> pending_job \<Rightarrow> review_submission \<Rightarrow> review_submission" where
  "submission_of inp p x =
     \<lparr>rs_verdict = rs_verdict x,
      rs_commit_sha = (if nonempty (review_commit inp p x) then review_commit inp p x else None),
      rs_findings_md = Some (text_or (rs_findings_md x) []),
      rs_findings = Some (case rs_findings x of Some vs \<Rightarrow> vs | None \<Rightarrow> [])\<rparr>"

definition submit_review_if_requested ::
  "reply_cfg \<Rightarrow> reply_inputs \<Rightarrow> string option \<Rightarrow> bool \<Rightarrow> pending_job \<Rightarrow> reply_handler \<Rightarrow> writeback option \<times> reply_handler" where
  "submit_review_if_requested cfg inp output preview p h =
     (case (pj_review_request_id p, pj_review_role_key p) of
        (Some request, Some role) \<Rightarrow>
          (if role = [] then (None, h)
           else if \<not> rp_submit cfg then (Some (Skipped ''run store does not support V2 review submission''), h)
           else (case extract_review_result (rp_parse cfg) (text_or output []) of
             None \<Rightarrow> (Some (Skipped (''missing taskboard_review_result JSON block''
               @ (if preview then ''; output was claim-checked and preview text did not include the block'' else []))), h)
           | Some x \<Rightarrow>
               (let h1 = log_call (SubmitReview request role (submission_of inp p x)) h in
                case ri_submit inp of
                  Inl err \<Rightarrow> (Some (WritebackFailed err), h1)
                | Inr w \<Rightarrow> (Some w, h1))))
      | _ \<Rightarrow> (None, h))"

definition post_comment :: "reply_cfg \<Rightarrow> codex_reply \<Rightarrow> pending_job \<Rightarrow> writeback option \<Rightarrow> reply_handler \<Rightarrow> reply_handler" where
  "post_comment cfg reply p w h =
     (if rp_comment cfg then log_call (PostComment (pj_task_id p) (text_or (rp_commentAgent cfg) ''taskboard-dispatcher'')
        (build_codex_reply_comment (rp_je cfg) reply p w)) h else h)"

text \<open>The result is \<open>Inr\<close> of the updated run, \<open>Inr None\<close> where the reply is ignored, \<open>Inl\<close> where it throws.\<close>

definition settle ::
  "reply_cfg \<Rightarrow> reply_inputs \<Rightarrow> codex_reply \<Rightarrow> pending_job \<Rightarrow> writeback option \<Rightarrow> jsnum \<Rightarrow> (string \<times> string) list
   \<Rightarrow> reply_handler \<Rightarrow> (string + jsnum option) \<times> reply_handler" where
  "settle cfg inp reply p w runId upd h =
     (let h1 = log_call (UpdateRun runId upd) h in
      case ri_final_error inp of
        Some err \<Rightarrow> (Inl err, h1)
      | None \<Rightarrow> (Inr (Some runId), delete_pending p (post_comment cfg reply p w h1)))"

definition handle_pending ::
  "reply_cfg \<Rightarrow> reply_inputs \<Rightarrow> codex_reply \<Rightarrow> reply_common \<Rightarrow> pending_job \<Rightarrow> jsnum \<Rightarrow> reply_handler
   \<Rightarrow> (string + jsnum option) \<times> reply_handler" where
  "handle_pending cfg inp reply c p runId h =
     (case reply of
        NoReply _ \<Rightarrow> (Inr None, h)
      | Accepted _ \<Rightarrow>
          (Inr (Some runId), log_call (UpdateRun runId [(''status'', ''spawning''), (''session_id'', rc_job_id c)]) h)
      | Completed _ _ output _ preview \<Rightarrow>
          (case submit_review_if_requested cfg inp output preview p
                  (log_call (UpdateRun runId [(''status'', ''running''), (''session_id'', rc_job_id c)]) h) of
             (w, h1) \<Rightarrow> settle cfg inp reply p w runId [(''status'', ''succeeded'')] h1)
      | Failed _ err \<Rightarrow>
          settle cfg inp reply p None runId [(''status'', ''failed''), (''failure_class'', codex_failure_class err),
            (''failure_detail'', truncate_for_taskboard err 1500)] h
      | Rejected _ reason detail \<Rightarrow>
          settle cfg inp reply p None runId [(''status'', ''endpoint_failed''), (''failure_class'', ''endpoint_invalid_response''),
            (''failure_detail'', truncate_for_taskboard
               (reason @ (case detail of Some d \<Rightarrow> '': '' @ d | None \<Rightarrow> [])) 1500)] h)"

definition live_run :: "pending_job \<Rightarrow> jsnum option" where
  "live_run p = (case pj_agent_run_id p of
     Some n \<Rightarrow> if truthy (JNum n) \<and> \<not> is_nullish (pj_task_id p) then Some n else None
   | None \<Rightarrow> None)"

definition handle_reply ::
  "reply_cfg \<Rightarrow> reply_inputs \<Rightarrow> string \<Rightarrow> jsval \<Rightarrow> reply_handler \<Rightarrow> (string + jsnum option) \<times> reply_handler" where
  "handle_reply cfg inp content attrs h =
     (let reply = classify_codex_job_reply (rp_parse cfg) content attrs in
      case reply_common_of reply of
        None \<Rightarrow> (Inr None, h)
      | Some c \<Rightarrow>
          (case resolve_pending cfg inp c h of
             (None, h1) \<Rightarrow> (Inr None, h1)
           | (Some p, h1) \<Rightarrow>
               (case (if rp_update cfg then live_run p else None) of
                  None \<Rightarrow> (Inr None, h1)
                | Some runId \<Rightarrow> handle_pending cfg inp reply c p runId h1)))"

subsection \<open>Submitting a review over HTTP\<close>

definition is_token_key :: "string \<Rightarrow> bool" where
  "is_token_key k \<longleftrightarrow> starts_with ''TASKBOARD_REVIEW_TOKEN_'' k \<or> starts_with ''TASKBOARD_V2_REVIEW_TOKEN_'' k"

definition review_tokens_from_env :: "(string \<Rightarrow> string option) \<Rightarrow> string \<Rightarrow> string option" where
  "review_tokens_from_env env k = (if is_token_key k then env_trim env k else None)"

definition review_token_for_role :: "(string \<Rightarrow> string option) \<Rightarrow> string \<Rightarrow> string option" where
  "review_token_for_role tokens roleKey =
     first_some (env_trim tokens (''TASKBOARD_REVIEW_TOKEN_'' @ review_role_env_suffix roleKey))
       (env_trim tokens (''TASKBOARD_V2_REVIEW_TOKEN_'' @ review_role_env_suffix roleKey))"

text \<open>The answer is the status with the text of an error, or the body (\<open>None\<close>: not JSON).\<close>

definition http_submit_review ::
  "(string \<Rightarrow> string option) \<Rightarrow> string \<Rightarrow> review_submission \<Rightarrow> string + jsval option \<Rightarrow> writeback" where
  "http_submit_review tokens roleKey sub answer =
     (case review_token_for_role tokens roleKey of
        None \<Rightarrow> Skipped (''missing review token for role '' @ roleKey)
      | Some token \<Rightarrow> (case answer of
          Inl failure \<Rightarrow> WritebackFailed (''review submit failed: '' @ failure)
        | Inr body \<Rightarrow> Submitted (rs_verdict sub)
            (case body of None \<Rightarrow> None
             | Some b \<Rightarrow> first_some (map_option JNum (number_or_null (jget b ''id'')))
                 (map_option JStr (string_value (jget b ''id''))))))"

subsection \<open>Reading the block that the prompt asks for\<close>

lemma starts_fence: "starts_with fence (fence @ r)" "starts_with fence (c # r) \<Longrightarrow> c = CHR 0x60" "length fence = 3"
  by (simp_all add: starts_with_def fence_def numeral_eq_Suc)

lemma break_at_fence: "CHR 0x60 \<notin> set pre \<Longrightarrow> break_at fence (pre @ fence @ rest) = Some (pre, rest)"
proof (induction pre)
  case Nil
  have "drop 3 (fence @ rest) = rest" by (simp add: fence_def)
  then show ?case by (simp add: break_at.simps [of fence "fence @ rest"] starts_fence)
next
  case (Cons c pre)
  then show ?case
    using starts_fence(2) [of c "pre @ fence @ rest"] by (auto simp: break_at.simps [of fence "c # _"])
qed

lemma drop_json: "drop_json (''json'' @ s) = s"
  by (simp add: drop_json_def js_eval char_of_def bit_iff_odd)

lemma extract_block:
  assumes "output = pre @ fence @ ''json'' @ body @ fence @ post"
    and "CHR 0x60 \<notin> set pre" "CHR 0x60 \<notin> set body" "\<not> braced (js_trim output)"
    and "parse (js_trim body) = Some v" "normalize_review_result v = Some x"
  shows "extract_review_result parse output = Some x"
proof -
  have "fence_blocks output = body # fence_blocks post"
    unfolding assms(1) by (simp add: fence_blocks.simps [of "pre @ _"] break_at_fence assms(2,3) drop_json [simplified])
  then show ?thesis using assms(4-6) by (simp add: extract_review_result_def)
qed

subsection \<open>From the dispatch to the verdict\<close>

lemma lookup_tracked:
  assumes "rc_job_id c = pj_job_id p" "rc_corr c = pj_corr p \<or> rc_corr c = None"
  shows "lookup_pending c (track p h) = Some p"
  using assms by (auto simp: lookup_pending_def track_def first_some_def Let_def update_conv' split: option.split)

lemma track_calls [simp]: "rh_calls (track p h) = rh_calls h"
  by (simp add: track_def Let_def split: option.split)

lemma delete_pending_calls [simp]: "rh_calls (delete_pending p h) = rh_calls h"
  by (simp add: delete_pending_def Let_def split: option.split)

lemma log_call_calls [simp]: "rh_calls (log_call c h) = rh_calls h @ [c]"
  by (simp add: log_call_def)

lemma post_comment_calls: "\<exists>rest. rh_calls (post_comment cfg reply p w h) = rh_calls h @ rest"
  by (simp add: post_comment_def)

lemma settle_calls:
  "\<exists>rest. rh_calls (snd (settle cfg inp reply p w n upd h)) = rh_calls h @ [UpdateRun n upd] @ rest"
  using post_comment_calls [of cfg reply p w "log_call (UpdateRun n upd) h"]
  by (auto simp: settle_def Let_def split: option.split)

lemma submit_calls:
  assumes "pj_review_request_id p = Some r" "pj_review_role_key p = Some role" "role \<noteq> []" "rp_submit cfg"
    and "extract_review_result (rp_parse cfg) out = Some x"
  shows "rh_calls (snd (submit_review_if_requested cfg inp (Some out) preview p h)) =
    rh_calls h @ [SubmitReview r role (submission_of inp p x)]"
  using assms by (simp add: submit_review_if_requested_def text_or_def Let_def split: sum.split)

lemma completed_calls:
  assumes "pj_review_request_id p = Some r" "pj_review_role_key p = Some role" "role \<noteq> []" "rp_submit cfg"
    and "extract_review_result (rp_parse cfg) out = Some x"
  shows "\<exists>rest. rh_calls (snd (handle_pending cfg inp (Completed c st (Some out) rref preview) c p n h)) =
    rh_calls h @ [UpdateRun n [(''status'', ''running''), (''session_id'', rc_job_id c)],
      SubmitReview r role (submission_of inp p x), UpdateRun n [(''status'', ''succeeded'')]] @ rest"
proof -
  let ?h1 = "log_call (UpdateRun n [(''status'', ''running''), (''session_id'', rc_job_id c)]) h"
  obtain w h2 where w: "submit_review_if_requested cfg inp (Some out) preview p ?h1 = (w, h2)" by fastforce
  then have "rh_calls h2 = rh_calls ?h1 @ [SubmitReview r role (submission_of inp p x)]"
    using submit_calls [OF assms, of inp preview ?h1] by simp
  then show ?thesis
    using settle_calls [of cfg inp "Completed c st (Some out) rref preview" p w n "[(''status'', ''succeeded'')]" h2]
    by (simp add: handle_pending_def w)
qed

lemma string_value_nonempty: "string_value v = Some s \<Longrightarrow> s \<noteq> []"
  by (auto simp: string_value_def split: jsval.splits if_splits)

lemma first_some_Some: "first_some a b = Some x \<longleftrightarrow> a = Some x \<or> a = None \<and> b = Some x"
  by (auto simp: first_some_def split: option.split)

lemma review_role_key_nonempty: "review_role_key e = Some s \<Longrightarrow> s \<noteq> []"
  by (auto simp: review_role_key_def first_some_Some dest: string_value_nonempty)

lemma review_commit_sha_nonempty: "review_commit_sha e = Some s \<Longrightarrow> s \<noteq> []"
  by (auto simp: review_commit_sha_def first_some_Some Let_def dest: string_value_nonempty)

lemma result_commit_nonempty: "normalize_review_result v = Some x \<Longrightarrow> rs_commit_sha x = Some s \<Longrightarrow> s \<noteq> []"
  by (auto simp: normalize_review_result_def first_some_Some Let_def dest: string_value_nonempty split: if_splits option.splits)

lemma submission_commit:
  "first_some (rs_commit_sha x) (pj_review_commit_sha p) = Some sha \<Longrightarrow> sha \<noteq> []
     \<Longrightarrow> rs_commit_sha (submission_of inp p x) = Some sha"
  by (simp add: submission_of_def review_commit_def nonempty_def Let_def)

lemma process_event_tracked [simp]: "ds_tracked (snd (process_event je cfg inp e s)) = ds_tracked s"
  by (simp add: process_event_def dispatch_job_def run_update_def mark_seen_def Let_def
      split: sum.split route.split option.split)

lemma consume_tracks:
  assumes "ds_tracked (consume_step je cfg s inp) = ds_tracked s @ [p]" "dv_json inp = Some e"
  shows "should_dispatch e" "pj_review_request_id p = review_request_id e" "pj_review_role_key p = review_role_key e"
    "pj_review_commit_sha p = review_commit_sha e"
proof -
  obtain res s1 where r: "process_event je cfg inp e s = (res, s1)" by fastforce
  then have t: "ds_tracked s1 = ds_tracked s" using process_event_tracked [of je cfg inp e s] by simp
  then obtain eid target job rid mid where res: "res = Sent eid target job rid mid"
    using assms r by (auto simp: consume_step_def consume_message_def split: process_result.splits)
  show "pj_review_request_id p = review_request_id e" "pj_review_role_key p = review_role_key e"
    "pj_review_commit_sha p = review_commit_sha e"
    using assms r t res by (auto simp: consume_step_def consume_message_def)
  show "should_dispatch e"
    by (cases rule: process_event_cases [of e je cfg inp s])
      (use r res in \<open>auto simp: sent_key_def dest: route_dispatch\<close>)
qed

text \<open>
  C32. No review verdict is lost between the fleet and the taskboard: when the dispatcher has sent a review
  request and tracks its job, and the completed reply of that job, matched by its id, has in its
  output the fenced block that the prompt asks for, then \<open>handleInbound\<close> submits the review, between
  marking the run as running and as succeeded, to the review request and the role of the event, with the verdict
  of the block, and with its commit or else the one the event names.
\<close>

theorem review_verdict_submitted:
  assumes "ds_tracked (consume_step je dcfg s dinp) = ds_tracked s @ [p]" "dv_json dinp = Some e"
    and "jget e ''event_type'' = JStr REVIEW_REQUESTED" "review_role_key e = Some role" "live_run p = Some n"
    and "rp_update cfg" "rp_submit cfg"
    and "classify_codex_job_reply (rp_parse cfg) content attrs = Completed c st (Some out) rref preview"
    and "rc_job_id c = pj_job_id p" "rc_corr c = pj_corr p \<or> rc_corr c = None"
    and "out = pre @ fence @ ''json'' @ body @ fence @ post" "CHR 0x60 \<notin> set pre" "CHR 0x60 \<notin> set body"
    and "\<not> braced (js_trim out)" "rp_parse cfg (js_trim body) = Some v" "normalize_review_result v = Some x"
  shows "\<exists>r sub rest. review_request_id e = Some r
    \<and> rh_calls (snd (handle_reply cfg inp content attrs (track p h))) = rh_calls h
        @ [UpdateRun n [(''status'', ''running''), (''session_id'', pj_job_id p)], SubmitReview r role sub,
           UpdateRun n [(''status'', ''succeeded'')]] @ rest
    \<and> rs_verdict sub = rs_verdict x
    \<and> (\<forall>sha. first_some (rs_commit_sha x) (review_commit_sha e) = Some sha \<longrightarrow> rs_commit_sha sub = Some sha)"
proof -
  note p = consume_tracks [OF assms(1,2)]
  obtain r where r: "review_request_id e = Some r"
    using p(1) assms(3) by (auto simp: should_dispatch_def split: if_splits)
  have x: "extract_review_result (rp_parse cfg) out = Some x"
    using assms(11-16) extract_block [of out pre body post "rp_parse cfg" v x] by blast
  have "handle_reply cfg inp content attrs (track p h) =
      handle_pending cfg inp (Completed c st (Some out) rref preview) c p n (track p h)"
    using lookup_tracked [OF assms(9,10)] by (simp add: handle_reply_def assms resolve_pending_def Let_def)
  moreover obtain rest where "rh_calls (snd (handle_pending cfg inp (Completed c st (Some out) rref preview) c p n (track p h))) =
      rh_calls (track p h) @ [UpdateRun n [(''status'', ''running''), (''session_id'', rc_job_id c)],
        SubmitReview r role (submission_of inp p x), UpdateRun n [(''status'', ''succeeded'')]] @ rest"
    using completed_calls [of p r role cfg out x] p r x assms(4,7) review_role_key_nonempty by metis
  moreover have "rs_commit_sha (submission_of inp p x) = Some sha"
    if "first_some (rs_commit_sha x) (review_commit_sha e) = Some sha" for sha
  proof (rule submission_commit)
    show "first_some (rs_commit_sha x) (pj_review_commit_sha p) = Some sha" using that p(4) by simp
    show "sha \<noteq> []"
      using that result_commit_nonempty [OF assms(16)] review_commit_sha_nonempty [of e] by (auto simp: first_some_Some)
  qed
  ultimately show ?thesis
    using r assms(9) by (intro exI [of _ r] exI [of _ "submission_of inp p x"] exI [of _ rest]) (simp add: submission_of_def)
qed

definition review_event :: jsval where
  "review_event = JObj [(''schema'', JStr TASKBOARD_EVENT_SCHEMA), (''event_id'', JStr ''e2''), (''event_type'', JStr REVIEW_REQUESTED),
     (''source'', JObj []), (''scope'', JObj [(''task_id'', JNum (Fin 7))]),
     (''idempotency'', JObj [(''event_id'', JStr ''e2''), (''fire_generation'', JNum (Fin 1))]),
     (''payload'', JObj [(''review_request_id'', JNum (Fin 4)), (''role_key'', JStr ''qa''), (''reviewer_agent_id'', JStr ''kai'')])]"

definition review_delivery :: delivery_inputs where
  "review_delivery = \<lparr>dv_json = Some review_event, dv_runs = Some [\<lparr>rn_id = 5, rn_trigger_event_id = JStr ''e2''\<rparr>],
     dv_created = None, dv_send = Inr \<lparr>so_ok = True, so_id = Some ''m2'', so_error = None\<rparr>, dv_uuid = ''u''\<rparr>"

definition runs_cfg :: dispatcher_cfg where
  "runs_cfg = \<lparr>dp_env = (\<lambda>k. None), dp_has_runs = True, dp_pretty = (\<lambda>v. '''')\<rparr>"

definition answer_text :: string where "answer_text = fence @ ''json'' @ ''B'' @ fence"

definition answer_msg :: jsval where
  "answer_msg = JObj [(''schema'', JStr ''codex.job.completed.v1''), (''job_id'', JStr ''tb-review-7-7''), (''output'', JStr answer_text)]"

definition answer_attrs :: jsval where
  "answer_attrs = JObj [(''feed'', JStr ''a2a''), (''kind'', JStr ''direct''), (''type'', JStr ''reply''), (''corr'', JStr ''m2'')]"

definition answer_cfg :: reply_cfg where
  "answer_cfg = \<lparr>rp_je = sample_je,
     rp_parse = (\<lambda>t. Some (if t = ''B'' then JObj [(''verdict'', JStr ''approve''), (''commit_sha'', JStr ''c0'')] else answer_msg)),
     rp_update = True, rp_submit = True, rp_comment = True, rp_commentAgent = None\<rparr>"

definition answer_inputs :: reply_inputs where
  "answer_inputs = \<lparr>ri_found = None, ri_commit = None, ri_submit = Inl ''x'', ri_final_error = None\<rparr>"

lemma review_event_simps:
  "is_taskboard_event review_event" "should_dispatch review_event" "event_key review_event = JStr ''e2''" "\<not> is_nullish review_event"
  "jget review_event ''event_type'' = JStr REVIEW_REQUESTED" "source_url review_event = Inr JUndef"
  "review_role_key review_event = Some ''qa''" "review_request_id review_event = Some (Fin 4)"
  "event_task_id review_event = JNum (Fin 7)" "jget review_event ''event_id'' = JStr ''e2''"
  "review_commit_sha review_event = None"
  by (simp_all add: review_event_def is_taskboard_event_def should_dispatch_def event_key_def payload_record_def record_or_empty_def
      review_request_payload_def review_request_id_def review_role_key_def number_or_null_def trunc_rat_def first_some_def
      string_value_def event_task_id_def review_commit_sha_def task_payload_def
      source_url_def TASKBOARD_EVENT_SCHEMA_def STATUS_CHANGED_def REVIEW_REQUESTED_def js_eval char_of_def bit_iff_odd)

lemma review_event_routed:
  "\<exists>d. route_taskboard_event (\<lambda>k. None) review_event None = Inr (Dispatch d) \<and> di_target d = ''kai''"
proof -
  have "review_target (\<lambda>k. None) review_event = Some ''kai''"
    by (simp add: review_target_def review_event_simps)
      (simp add: review_event_def review_request_payload_def payload_record_def record_or_empty_def first_some_def string_value_def js_eval)
  then show ?thesis
    by (simp add: route_taskboard_event_def review_event_simps target_agent_for_event_def)
qed

definition review_pending :: pending_job where
  "review_pending = \<lparr>pj_corr = Some ''m2'', pj_job_id = ''tb-review-7-7'', pj_event_id = JStr ''e2'', pj_task_id = JNum (Fin 7),
     pj_agent_run_id = Some (Fin 5), pj_target = ''kai'', pj_review_request_id = Some (Fin 4),
     pj_review_role_key = Some ''qa'', pj_review_commit_sha = None\<rparr>"

lemma review_delivery_simps:
  "dv_json review_delivery = Some review_event" "dp_has_runs runs_cfg"
  "dv_send review_delivery = Inr \<lparr>so_ok = True, so_id = Some ''m2'', so_error = None\<rparr>"
  by (simp_all add: review_delivery_def runs_cfg_def)

lemma review_sent:
  "ds_tracked (consume_step sample_je runs_cfg ds_new review_delivery) = ds_tracked ds_new @ [review_pending]"
proof -
  obtain d where d: "route_taskboard_event (\<lambda>k. None) review_event None = Inr (Dispatch d)" "di_target d = ''kai''"
    using review_event_routed by blast
  have j: "jr_job_id (job_for sample_je runs_cfg review_delivery review_event ''kai'' r) = ''tb-review-7-7''" for r
    by (simp add: job_for_fields job_id_for_event_def review_event_simps sample_je_def is_nullish_def Let_def)
  have "create_or_reuse review_event (dv_runs review_delivery) (dv_created review_delivery)
      = Inr (Some \<lparr>rn_id = 5, rn_trigger_event_id = JStr ''e2''\<rparr>)"
    by (simp add: create_or_reuse_def review_event_simps review_delivery_def is_nullish_def)
  then have "process_event sample_je runs_cfg review_delivery review_event ds_new =
      dispatch_job sample_je runs_cfg review_delivery review_event ''kai'' (Some \<lparr>rn_id = 5, rn_trigger_event_id = JStr ''e2''\<rparr>) ds_new"
    by (simp add: process_event_def review_event_simps d seen_has_def ds_new_def) (simp add: runs_cfg_def d)
  then show ?thesis
    by (simp add: consume_step_def consume_message_def dispatch_job_def j Let_def run_update_def mark_seen_def
        review_event_simps review_delivery_simps review_pending_def ds_new_def)
qed

lemma fence_eq: "fence = [CHR 0x60, CHR 0x60, CHR 0x60]"
  by (simp add: fence_def numeral_eq_Suc)

lemma js_trim_fence: "js_trim (fence @ s @ fence) = fence @ s @ fence"
proof -
  have "\<not> js_ws (CHR 0x60)" by (simp add: js_eval)
  then show ?thesis by (simp add: js_trim_def fence_eq)
qed

lemma answer_classified:
  "classify_codex_job_reply (rp_parse answer_cfg) ''R'' answer_attrs =
     Completed \<lparr>rc_job_id = ''tb-review-7-7'', rc_corr = Some ''m2'', rc_from = None\<rparr> None (Some answer_text) None False"
proof -
  have "string_value (JStr answer_text) = Some answer_text"
    using js_trim_fence [of "''jsonB''"] by (simp add: string_value_def answer_text_def fence_eq)
  then have "reply_of answer_msg answer_attrs = Completed \<lparr>rc_job_id = ''tb-review-7-7'', rc_corr = Some ''m2'', rc_from = None\<rparr>
      None (Some answer_text) None False"
    by (simp add: reply_of_def answer_msg_def answer_attrs_def js_eval Let_def string_value_def)
  then show ?thesis
    by (simp add: classify_codex_job_reply_def answer_cfg_def answer_attrs_def answer_msg_def js_eval)
qed

lemma review_verdict_submitted_witness:
  "\<exists>sub. SubmitReview (Fin 4) ''qa'' sub
      \<in> set (rh_calls (snd (handle_reply answer_cfg answer_inputs ''R'' answer_attrs (track review_pending rh_new))))
    \<and> rs_verdict sub = APPROVE \<and> rs_commit_sha sub = Some ''c0''"
proof -
  let ?v = "JObj [(''verdict'', JStr ''approve''), (''commit_sha'', JStr ''c0'')]"
  let ?x = "\<lparr>rs_verdict = APPROVE, rs_commit_sha = Some ''c0'', rs_findings_md = None, rs_findings = None\<rparr>"
  have parse: "rp_parse answer_cfg (js_trim ''B'') = Some ?v" by (simp add: answer_cfg_def js_eval)
  have x: "normalize_review_result ?v = Some ?x"
    by (simp add: normalize_review_result_def normalize_review_verdict_def js_upper_def upper_char_def verdict_char_def
        string_value_def first_some_def js_eval char_of_def bit_iff_odd)
  have "live_run review_pending = Some (Fin 5)" by (simp add: live_run_def review_pending_def js_eval)
  moreover have "\<not> braced (js_trim answer_text)"
    using js_trim_fence [of "''jsonB''"] by (simp add: braced_def answer_text_def) (simp add: fence_eq starts_with_def)
  moreover have "answer_text = [] @ fence @ ''json'' @ ''B'' @ fence @ []" by (simp add: answer_text_def)
  ultimately obtain r sub rest where "review_request_id review_event = Some r"
      "rh_calls (snd (handle_reply answer_cfg answer_inputs ''R'' answer_attrs (track review_pending rh_new))) = rh_calls rh_new
        @ [UpdateRun (Fin 5) [(''status'', ''running''), (''session_id'', pj_job_id review_pending)], SubmitReview r ''qa'' sub,
           UpdateRun (Fin 5) [(''status'', ''succeeded'')]] @ rest"
      "rs_verdict sub = rs_verdict ?x"
      "\<forall>sha. first_some (rs_commit_sha ?x) (review_commit_sha review_event) = Some sha \<longrightarrow> rs_commit_sha sub = Some sha"
    using review_verdict_submitted [OF review_sent review_delivery_simps(1) review_event_simps(5,7) _ _ _ answer_classified
        _ _ _ _ _ _ parse x, of "Fin 5" "[]" "[]" answer_inputs rh_new]
    by (auto simp: answer_cfg_def review_pending_def)
  then show ?thesis by (auto simp: review_event_simps first_some_def)
qed

end
