(* ===== verification/Agent_Beat.thy ===== *)
theory Agent_Beat
  imports Prelude
begin

text \<open>
  The heartbeat emitter (src/agent_beat.ts): the persisted beat state of one agent, boot and session,
  the next beat of each phase, the keepalive throttle, and the identity and arguments of an emit.

  The state file is a value passed in and out; the wall clock, the host name, the environment, the
  write of the file and the signed publish are arguments. A persisted file is read as a record of
  strings with an arbitrary number \<open>loop_seq\<close>. Pruning of old files is not modelled.
\<close>

definition AGENT_BEAT_SCHEMA :: string where "AGENT_BEAT_SCHEMA = ''agent.beat.v1''"
definition AGENT_BEAT_TOPIC :: string where "AGENT_BEAT_TOPIC = ''agent-beat''"

record beat =
  b_agent_id :: string
  b_host :: string
  b_boot_id :: string
  b_session_id :: string
  b_loop_seq :: rat
  b_turn_start_ts :: string
  b_last_turn_ts :: string
  b_last_progress_ts :: string
  b_driver_mode :: string
  b_stop_hook_active :: bool
  b_goal_id :: "string option"
  b_goal_epoch :: "jsnum option"
  b_state :: string
  b_inbox_depth :: jsnum
  b_task_ids :: "string list"

record emit_input =
  ei_agent_id :: "string option"
  ei_host :: "string option"
  ei_boot_id :: "string option"
  ei_session_id :: "string option"
  ei_driver_mode :: "string option"
  ei_stop_hook_active :: "bool option"
  ei_goal_id :: "string option"
  ei_goal_epoch :: "jsnum option"
  ei_state :: "string option"
  ei_inbox_depth :: "jsnum option"
  ei_task_ids :: "string list option"
  ei_phase :: "string option"
  ei_progress :: bool
  ei_now :: "rat option"
  ei_publish :: bool
  ei_min_interval_ms :: "jsnum option"

record persisted =
  ps_agent_id :: string
  ps_boot_id :: string
  ps_session_id :: string
  ps_loop_seq :: jsnum
  ps_turn_start_ts :: "string option"
  ps_last_turn_ts :: "string option"
  ps_last_progress_ts :: "string option"
  ps_updated_ts :: "string option"

definition default_beat_emitter_id :: "string \<Rightarrow> string" where
  "default_beat_emitter_id agentId = take (64 - length ''-beat'') agentId @ ''-beat''"

definition prev_str :: "(persisted \<Rightarrow> string option) \<Rightarrow> persisted option \<Rightarrow> string option" where
  "prev_str f prev = (case prev of None \<Rightarrow> None | Some p \<Rightarrow> f p)"

definition prev_seq :: "persisted option \<Rightarrow> rat" where
  "prev_seq prev = (case prev of None \<Rightarrow> 0 | Some p \<Rightarrow> (case ps_loop_seq p of Fin q \<Rightarrow> q | _ \<Rightarrow> 0))"

record beat_host =
  bh_hostname :: string
  bh_env :: "string \<Rightarrow> string option"
  bh_wall :: rat

definition env_driver_mode :: "beat_host \<Rightarrow> string" where
  "env_driver_mode h = (if bh_env h ''A2A_DRIVER_MODE'' = Some ''goal'' then ''goal'' else ''loop'')"

definition emit_now :: "beat_host \<Rightarrow> emit_input \<Rightarrow> rat" where
  "emit_now h i = (case ei_now i of Some n \<Rightarrow> n | None \<Rightarrow> bh_wall h)"

definition opt_default :: "'a option \<Rightarrow> 'a \<Rightarrow> 'a" where
  "opt_default x d = (case x of None \<Rightarrow> d | Some y \<Rightarrow> y)"

text \<open>Lines 115-143: the loop counter and the three clocks of the next beat.\<close>

definition next_clocks ::
  "js_env \<Rightarrow> persisted option \<Rightarrow> emit_input \<Rightarrow> rat \<Rightarrow> rat \<times> string \<times> string \<times> string" where
  "next_clocks je prev input now =
     (let nowIso = je_iso je now;
          phase = opt_default (ei_phase input) ''turn-end'';
          prevSeq = prev_seq prev;
          turn0 = js_or (prev_str ps_turn_start_ts prev) nowIso;
          last0 = js_or (prev_str ps_last_turn_ts prev) nowIso;
          prog0 = js_or (prev_str ps_last_progress_ts prev) (je_iso je 0);
          (loopSeq, turnStart, lastTurn) =
            (if phase = ''turn-start'' then (prevSeq + 1, nowIso, last0)
             else if phase = ''turn-end'' then (prevSeq + 1, turn0, nowIso)
             else if phase = ''still-working'' then (prevSeq, turn0, last0)
             else if phase = ''keepalive'' then (prevSeq + 1, turn0, last0)
             else (prevSeq, turn0, last0));
          lastProgress =
            (if phase = ''progress'' \<or> (ei_progress input \<and> phase \<noteq> ''keepalive'' \<and> phase \<noteq> ''turn-start'')
             then nowIso else prog0)
      in (loopSeq, turnStart, lastTurn, lastProgress))"

definition build_next_beat ::
  "js_env \<Rightarrow> beat_host \<Rightarrow> persisted option \<Rightarrow> emit_input \<Rightarrow> string \<times> string \<times> string \<Rightarrow> beat \<times> persisted" where
  "build_next_beat je h prev input ident =
     (let (agentId, bootId, sessionId) = ident;
          now = emit_now h input;
          phase = opt_default (ei_phase input) ''turn-end'';
          (loopSeq, turnStart, lastTurn, lastProgress) = next_clocks je prev input now
      in (\<lparr>b_agent_id = agentId, b_host = js_or (ei_host input) (bh_hostname h), b_boot_id = bootId,
           b_session_id = sessionId, b_loop_seq = loopSeq, b_turn_start_ts = turnStart,
           b_last_turn_ts = lastTurn, b_last_progress_ts = lastProgress,
           b_driver_mode = opt_default (ei_driver_mode input) (env_driver_mode h),
           b_stop_hook_active = opt_default (ei_stop_hook_active input) False,
           b_goal_id = (case ei_goal_id input of Some g \<Rightarrow> if g = [] then None else Some g | None \<Rightarrow> None),
           b_goal_epoch = ei_goal_epoch input,
           b_state = opt_default (ei_state input)
             (if phase = ''turn-start'' \<or> phase = ''still-working'' \<or> phase = ''progress'' then ''in_task'' else ''idle''),
           b_inbox_depth = num_max0 (num_floor (opt_default (ei_inbox_depth input) (Fin 0))),
           b_task_ids = (case ei_task_ids input of None \<Rightarrow> [] | Some ts \<Rightarrow> take 128 ts)\<rparr>,
          \<lparr>ps_agent_id = agentId, ps_boot_id = bootId, ps_session_id = sessionId, ps_loop_seq = Fin loopSeq,
           ps_turn_start_ts = Some turnStart, ps_last_turn_ts = Some lastTurn,
           ps_last_progress_ts = Some lastProgress, ps_updated_ts = Some (je_iso je now)\<rparr>))"

text \<open>Lines 200-205: a keepalive within the window of the last beat is skipped.\<close>

definition throttled_keepalive :: "js_env \<Rightarrow> beat_host \<Rightarrow> persisted option \<Rightarrow> emit_input \<Rightarrow> bool" where
  "throttled_keepalive je h prev input =
     (case (ei_min_interval_ms input, prev_str ps_updated_ts prev) of
        (Some w, Some u) \<Rightarrow>
          ei_phase input = Some ''keepalive'' \<and> num_less (Fin 0) w \<and> u \<noteq> []
          \<and> (case je_date_parse je u of
               None \<Rightarrow> False
             | Some t \<Rightarrow> (let since = emit_now h input - t in 0 \<le> since \<and> num_less (Fin since) w))
      | _ \<Rightarrow> False)"

datatype emit_result = Emitted beat | Throttled | EmitFailed string

text \<open>
  \<open>emitBeat\<close>: the state file (\<open>None\<close> when it cannot be read), the outcome of writing it (\<open>Some e\<close>: it
  threw \<open>e\<close>) and of the publish. Returns the result, the new state file and the published beats.
\<close>

definition emit_beat ::
  "js_env \<Rightarrow> beat_host \<Rightarrow> string \<times> string \<times> string \<Rightarrow> emit_input \<Rightarrow> string option \<Rightarrow> string option
   \<Rightarrow> persisted option \<Rightarrow> emit_result \<times> persisted option \<times> beat list" where
  "emit_beat je h ident input writeErr pubErr file =
     (let (agentId, bootId, sessionId) = ident in
      if \<not> is_token agentId then (EmitFailed (''bad_agent_id:'' @ agentId), file, [])
      else if throttled_keepalive je h file input then (Throttled, file, [])
      else (let (b, next) = build_next_beat je h file input ident in
            case writeErr of
              Some e \<Rightarrow> (EmitFailed e, file, [])
            | None \<Rightarrow>
                if \<not> ei_publish input then (Emitted b, Some next, [])
                else (case pubErr of
                        Some e \<Rightarrow> (EmitFailed e, Some next, [])
                      | None \<Rightarrow> (Emitted b, Some next, [b]))))"

definition resolve_identity :: "beat_host \<Rightarrow> string \<Rightarrow> emit_input \<Rightarrow> string \<times> string \<times> string" where
  "resolve_identity h persistedBoot input =
     (js_or (ei_agent_id input) (js_or (bh_env h ''A2A_WATCH_AGENT_ID'') (js_or (bh_env h ''A2A_AGENT_ID'') [])),
      js_or (ei_boot_id input) (js_or (bh_env h ''A2A_BOOT_ID'') persistedBoot),
      js_or (ei_session_id input) (js_or (bh_env h ''A2A_SESSION_ID'')
        (js_or (bh_env h ''CLAUDE_SESSION_ID'') (js_or (bh_env h ''TMUX_PANE'') ''default''))))"

text \<open>\<open>parseArgs\<close>: an option takes the next argument, \<open>undefined\<close> at the end.\<close>

definition arg_val :: "string list \<Rightarrow> string option" where
  "arg_val rest = (case rest of [] \<Rightarrow> None | v # _ \<Rightarrow> Some v)"

definition arg_num :: "js_env \<Rightarrow> string list \<Rightarrow> jsnum" where
  "arg_num je rest = je_to_number je (case rest of [] \<Rightarrow> JUndef | v # _ \<Rightarrow> JStr v)"

function parse_args :: "js_env \<Rightarrow> string list \<Rightarrow> emit_input \<Rightarrow> emit_input" where
  "parse_args je [] out = out"
| "parse_args je (a # rest) out =
     (if a = ''--phase'' then parse_args je (tl rest) (out\<lparr>ei_phase := arg_val rest\<rparr>)
      else if a = ''--state'' then parse_args je (tl rest) (out\<lparr>ei_state := arg_val rest\<rparr>)
      else if a = ''--driver-mode'' then parse_args je (tl rest) (out\<lparr>ei_driver_mode := arg_val rest\<rparr>)
      else if a = ''--goal-id'' then parse_args je (tl rest) (out\<lparr>ei_goal_id := arg_val rest\<rparr>)
      else if a = ''--goal-epoch'' then parse_args je (tl rest) (out\<lparr>ei_goal_epoch := Some (arg_num je rest)\<rparr>)
      else if a = ''--inbox-depth'' then parse_args je (tl rest) (out\<lparr>ei_inbox_depth := Some (arg_num je rest)\<rparr>)
      else if a = ''--task-ids'' then parse_args je (tl rest)
        (out\<lparr>ei_task_ids := Some (case arg_val rest of None \<Rightarrow> []
           | Some v \<Rightarrow> filter (\<lambda>t. t \<noteq> []) (split_on (CHR '','') v))\<rparr>)
      else if a = ''--progress'' then parse_args je rest (out\<lparr>ei_progress := True\<rparr>)
      else if a = ''--stop-hook-active'' then parse_args je rest (out\<lparr>ei_stop_hook_active := Some True\<rparr>)
      else if a = ''--no-publish'' then parse_args je rest (out\<lparr>ei_publish := False\<rparr>)
      else if a = ''--min-interval-ms'' then
        parse_args je (tl rest) (out\<lparr>ei_min_interval_ms := Some (arg_num je rest)\<rparr>)
      else parse_args je rest out)"
  by pat_completeness auto
termination
  by (relation "measure (\<lambda>(je, as, out). length as)") (auto simp: le_imp_less_Suc)

end
