(* ===== verification/Wedge_Detector.thy ===== *)
theory Wedge_Detector
  imports Agent_Beat
begin

text \<open>
  The wedge detector (src/wedge_detector.ts): parsing of beats, the classification of one agent, the
  plane-health gate, the spin counter, and the two handlers over the detector's memory:
  \<open>ingestBeat\<close> and \<open>evaluateOnce\<close>.

  The memory is the \<open>Map\<close> of agent states in insertion order. What the handlers read from Redis
  (presence, markers, overrides, saved states, the high-water claim) is an argument of the step, so
  the theorems hold whatever Redis answers; a step is one run of the handler, without interleaving
  at its awaits. An agent id that is not a string is read as its text.
  \<open>first_presence_seen_ms\<close>, \<open>last_recv_ms\<close> and the other times are \<open>None\<close> when undefined; \<open>0\<close> is
  falsy as in the source.
\<close>

subsection \<open>Configuration\<close>

definition WEDGE_ALERT_SCHEMA :: string where "WEDGE_ALERT_SCHEMA = ''agent.wedge.alert.v1''"

datatype wedge_class = Healthy | IdleOk | ServiceAlive | Offline | LoopDead | LongTurn | StaleGoalSpin
  | BootGrace | ExpectedSilent | PlaneUnhealthy

definition is_wedged :: "wedge_class \<Rightarrow> bool" where
  "is_wedged c \<longleftrightarrow> c \<in> {LoopDead, LongTurn, StaleGoalSpin}"

record detector_cfg =
  dc_detectorId :: string
  dc_beatTopic :: string
  dc_alertTopic :: string
  dc_presencePrefix :: string
  dc_expectedSilentPrefix :: string
  dc_cadenceOverridePrefix :: string
  dc_livenessClassPrefix :: string
  dc_statePrefix :: string
  dc_highwaterPrefix :: string
  dc_redisUrl :: string
  dc_redisOpTimeoutMs :: rat
  dc_evalIntervalMs :: rat
  dc_beatCadenceMs :: rat
  dc_missedBeats :: rat
  dc_minCadenceMs :: rat
  dc_maxCadenceMs :: rat
  dc_bootGraceMs :: rat
  dc_presenceFreshMs :: rat
  dc_longTurnMs :: rat
  dc_progressStaleMs :: rat
  dc_staleProgressCadences :: rat
  dc_alertRepeatMs :: rat
  dc_stateTtlS :: rat
  dc_planeFreshMs :: rat
  dc_globalGateMinAgents :: rat
  dc_globalMinFreshRatio :: jsnum
  dc_beatEmitterSuffix :: string
  dc_ignoreAgent :: "string \<Rightarrow> bool"
  dc_transientAgent :: "string \<Rightarrow> bool"
  dc_censusAgeOutMs :: rat
  dc_maxTrackedAgents :: rat

definition env_num :: "js_env \<Rightarrow> string option \<Rightarrow> rat \<Rightarrow> rat" where
  "env_num je v d = (case je_to_number je (case v of None \<Rightarrow> JUndef | Some s \<Rightarrow> JStr s) of
     Fin q \<Rightarrow> if 0 \<le> q then q else d | _ \<Rightarrow> d)"

text \<open>\<open>mk_re\<close> compiles an operator's pattern; the two default patterns are written out.\<close>

definition default_ignore :: "string \<Rightarrow> bool" where
  "default_ignore i \<longleftrightarrow> i = ''wedge-detector'' \<or> i = ''layer2-supervisor'' \<or> drop (length i - 5) i = ''-beat''"

definition default_transient :: "string \<Rightarrow> bool" where
  "default_transient i \<longleftrightarrow> starts_with ''ztest-'' i \<or> starts_with ''fusion-req-'' i \<or> starts_with ''orgrev-'' i"

definition env_re :: "(string \<Rightarrow> string \<Rightarrow> bool) \<Rightarrow> string option \<Rightarrow> (string \<Rightarrow> bool) \<Rightarrow> string \<Rightarrow> bool" where
  "env_re mk_re v d = (case v of None \<Rightarrow> d | Some s \<Rightarrow> if s = [] then d else mk_re s)"

definition load_detector_config :: "js_env \<Rightarrow> (string \<Rightarrow> string \<Rightarrow> bool) \<Rightarrow> (string \<Rightarrow> string option) \<Rightarrow> detector_cfg" where
  "load_detector_config je mk_re env =
     (let num = (\<lambda>k d. env_num je (env k) d); cadence = num ''WEDGE_BEAT_CADENCE_MS'' 900000 in
      \<lparr>dc_detectorId = js_or (env ''A2A_AGENT_ID'') ''wedge-detector'',
       dc_beatTopic = js_or (env ''WEDGE_BEAT_TOPIC'') AGENT_BEAT_TOPIC,
       dc_alertTopic = js_or (env ''WEDGE_ALERT_TOPIC'') ''agent-wedge'',
       dc_presencePrefix = js_or (env ''A2A_PRESENCE_KEY_PREFIX'') ''alloyium:a2a:presence:'',
       dc_expectedSilentPrefix = js_or (env ''WEDGE_EXPECTED_SILENT_PREFIX'') ''alloyium:a2a:expected-silent:'',
       dc_cadenceOverridePrefix = js_or (env ''WEDGE_CADENCE_OVERRIDE_PREFIX'') ''alloyium:a2a:wedge-cadence:'',
       dc_livenessClassPrefix = js_or (env ''WEDGE_LIVENESS_CLASS_PREFIX'') ''alloyium:a2a:liveness-class:'',
       dc_statePrefix = js_or (env ''WEDGE_STATE_PREFIX'') ''alloyium:a2a:wedge-detector:state:'',
       dc_highwaterPrefix = js_or (env ''WEDGE_HIWATER_PREFIX'') ''alloyium:a2a:wedge-detector:hiwater:'',
       dc_redisUrl = js_or (env ''REDIS_URL'') ''redis://redis:6379'',
       dc_redisOpTimeoutMs = num ''WEDGE_REDIS_TIMEOUT_MS'' 2500,
       dc_evalIntervalMs = num ''WEDGE_EVAL_INTERVAL_MS'' 30000,
       dc_beatCadenceMs = cadence,
       dc_missedBeats = num ''WEDGE_MISSED_BEATS'' 3,
       dc_minCadenceMs = num ''WEDGE_MIN_CADENCE_MS'' 120000,
       dc_maxCadenceMs = num ''WEDGE_MAX_CADENCE_MS'' 3600000,
       dc_bootGraceMs = num ''WEDGE_BOOT_GRACE_MS'' 300000,
       dc_presenceFreshMs = num ''WEDGE_PRESENCE_FRESH_MS'' 120000,
       dc_longTurnMs = num ''WEDGE_LONG_TURN_MS'' 3600000,
       dc_progressStaleMs = num ''WEDGE_PROGRESS_STALE_MS'' 2700000,
       dc_staleProgressCadences = num ''WEDGE_STALE_PROGRESS_CADENCES'' 3,
       dc_alertRepeatMs = num ''WEDGE_ALERT_REPEAT_MS'' 900000,
       dc_stateTtlS = num ''WEDGE_STATE_TTL_S'' 604800,
       dc_planeFreshMs = num ''WEDGE_PLANE_FRESH_MS'' (max (cadence * 2) 60000),
       dc_globalGateMinAgents = num ''WEDGE_GLOBAL_GATE_MIN_AGENTS'' 3,
       dc_globalMinFreshRatio = (case env ''WEDGE_GLOBAL_MIN_FRESH_RATIO'' of
          None \<Rightarrow> Fin (1 / 2) | Some s \<Rightarrow> je_to_number je (JStr s)),
       dc_beatEmitterSuffix = js_or (env ''WEDGE_BEAT_EMITTER_SUFFIX'') ''-beat'',
       dc_ignoreAgent = env_re mk_re (env ''WEDGE_IGNORE_AGENT_RE'') default_ignore,
       dc_transientAgent = env_re mk_re (env ''WEDGE_TRANSIENT_AGENT_RE'') default_transient,
       dc_censusAgeOutMs = num ''WEDGE_CENSUS_AGEOUT_MS'' 1800000,
       dc_maxTrackedAgents = num ''WEDGE_MAX_TRACKED_AGENTS'' 4096\<rparr>)"

subsection \<open>Beats\<close>

text \<open>\<open>String(x || '')\<close>\<close>

definition str_field :: "js_env \<Rightarrow> jsval \<Rightarrow> string \<Rightarrow> string" where
  "str_field je x k = (if truthy (jget x k) then js_string je (jget x k) else [])"

text \<open>The text is \<open>None\<close> where \<open>JSON.parse\<close> throws. The id is tested, and kept, as its text.\<close>

definition parse_agent_beat :: "js_env \<Rightarrow> jsval option \<Rightarrow> beat option" where
  "parse_agent_beat je body =
     (case body of None \<Rightarrow> None | Some x \<Rightarrow>
       (if jget x ''schema'' \<noteq> JStr AGENT_BEAT_SCHEMA then None
        else if \<not> is_token (js_string je (jget x ''agent_id'')) then None
        else (case (jget x ''loop_seq'', jget x ''driver_mode'', jget x ''state'', jget x ''task_ids'') of
          (JNum (Fin seq), JStr mode, JStr st, JArr tasks) \<Rightarrow>
            (if seq < 0 \<or> mode = [] \<or> st \<notin> {''booting'', ''idle'', ''in_task'', ''paused'', ''draining''} then None
             else Some \<lparr>b_agent_id = js_string je (jget x ''agent_id''), b_host = str_field je x ''host'',
               b_boot_id = str_field je x ''boot_id'', b_session_id = str_field je x ''session_id'',
               b_loop_seq = of_int \<lfloor>seq\<rfloor>, b_turn_start_ts = str_field je x ''turn_start_ts'',
               b_last_turn_ts = str_field je x ''last_turn_ts'',
               b_last_progress_ts = str_field je x ''last_progress_ts'', b_driver_mode = mode,
               b_stop_hook_active = truthy (jget x ''stop_hook_active''),
               b_goal_id = (if truthy (jget x ''goal_id'') then Some (js_string je (jget x ''goal_id'')) else None),
               b_goal_epoch = (case jget x ''goal_epoch'' of JNum (Fin q) \<Rightarrow> Some (Fin q) | _ \<Rightarrow> None),
               b_state = st,
               b_inbox_depth = num_max0 (num_floor (if truthy (jget x ''inbox_depth'')
                  then je_to_number je (jget x ''inbox_depth'') else Fin 0)),
               b_task_ids = take 128 (map (js_string je) tasks)\<rparr>)
        | _ \<Rightarrow> None)))"

subsection \<open>Classification\<close>

datatype liveness = Loop | Service

definition resolve_liveness_mode :: "liveness option \<Rightarrow> string option \<Rightarrow> bool \<Rightarrow> liveness" where
  "resolve_liveness_mode livenessClass beatMode hasBeaten =
     (if livenessClass = Some Service then Service
      else if livenessClass = Some Loop then Loop
      else if beatMode = Some ''service'' then Service
      else if beatMode = Some ''loop'' \<or> beatMode = Some ''goal'' then Loop
      else if \<not> hasBeaten then Service
      else Loop)"

definition clamp_cadence :: "rat \<Rightarrow> detector_cfg \<Rightarrow> rat" where
  "clamp_cadence c cfg = min (max c (dc_minCadenceMs cfg)) (dc_maxCadenceMs cfg)"

definition plane_fresh_ms_for_agent :: "rat option \<Rightarrow> detector_cfg \<Rightarrow> rat" where
  "plane_fresh_ms_for_agent cadenceOverrideMs cfg =
     (case cadenceOverrideMs of
        Some c \<Rightarrow> if c > 0 then max (dc_planeFreshMs cfg) (clamp_cadence c cfg * 2) else dc_planeFreshMs cfg
      | None \<Rightarrow> dc_planeFreshMs cfg)"

definition plane_healthy :: "nat \<Rightarrow> nat \<Rightarrow> detector_cfg \<Rightarrow> bool" where
  "plane_healthy activeAgents freshBeatAgents cfg =
     (if activeAgents = 0 then False
      else if of_nat activeAgents < dc_globalGateMinAgents cfg then freshBeatAgents > 0
      else (case dc_globalMinFreshRatio cfg of
              Fin r \<Rightarrow> of_nat freshBeatAgents / of_nat activeAgents \<ge> r
            | NegInf \<Rightarrow> True | _ \<Rightarrow> False))"

record plane_agent =
  pa_livenessClass :: "liveness option"
  pa_driverMode :: "string option"
  pa_lastRecvMs :: "rat option"
  pa_expectedSilent :: bool
  pa_cadenceOverrideMs :: "rat option"

definition has_beaten :: "rat option \<Rightarrow> bool" where
  "has_beaten t = (case t of None \<Rightarrow> False | Some x \<Rightarrow> x > 0)"

definition plane_loop :: "plane_agent \<Rightarrow> bool" where
  "plane_loop a \<longleftrightarrow> \<not> pa_expectedSilent a
     \<and> resolve_liveness_mode (pa_livenessClass a) (pa_driverMode a) (has_beaten (pa_lastRecvMs a)) = Loop"

definition plane_fresh :: "rat \<Rightarrow> detector_cfg \<Rightarrow> plane_agent \<Rightarrow> bool" where
  "plane_fresh now cfg a = (case pa_lastRecvMs a of
     None \<Rightarrow> False
   | Some t \<Rightarrow> t \<noteq> 0 \<and> now - t \<le> plane_fresh_ms_for_agent (pa_cadenceOverrideMs a) cfg)"

definition plane_healthy_for_agents :: "plane_agent list \<Rightarrow> rat \<Rightarrow> detector_cfg \<Rightarrow> bool" where
  "plane_healthy_for_agents agents now cfg =
     (let loop = filter plane_loop agents; fresh = length (filter (plane_fresh now cfg) loop)
      in plane_healthy (length loop) fresh cfg)"

record presence =
  pr_token :: string
  pr_host :: "string option"
  pr_started_at :: "string option"
  pr_last_seen :: "string option"

record agent_state =
  as_agent_id :: string
  as_boot_id :: "string option"
  as_session_id :: "string option"
  as_presence_started_at :: "string option"
  as_first_presence_seen_ms :: "rat option"
  as_identity_first_recv_ms :: "rat option"
  as_last_recv_ms :: "rat option"
  as_last_loop_seq :: "rat option"
  as_last_loop_seq_advance_ms :: "rat option"
  as_stale_progress_cadences :: "rat option"
  as_missed_count :: "jsnum option"
  as_classification :: "wedge_class option"
  as_last_alert_class :: "wedge_class option"
  as_last_alert_at_ms :: "rat option"
  as_last_beat :: "beat option"
  as_updated_ms :: rat

definition new_state :: "string \<Rightarrow> rat \<Rightarrow> agent_state" where
  "new_state i now = \<lparr>as_agent_id = i, as_boot_id = None, as_session_id = None, as_presence_started_at = None,
     as_first_presence_seen_ms = None, as_identity_first_recv_ms = None, as_last_recv_ms = None,
     as_last_loop_seq = None, as_last_loop_seq_advance_ms = None, as_stale_progress_cadences = None,
     as_missed_count = None, as_classification = None, as_last_alert_class = None, as_last_alert_at_ms = None,
     as_last_beat = None, as_updated_ms = now\<rparr>"

text \<open>\<open>ts(s)\<close>: 0 when missing or unparsable. \<open>nz\<close> is the truthiness test of an optional number.\<close>

definition ts_of :: "js_env \<Rightarrow> string \<Rightarrow> rat" where
  "ts_of je s = (if s = [] then 0 else (case je_date_parse je s of None \<Rightarrow> 0 | Some t \<Rightarrow> t))"

definition nz :: "rat option \<Rightarrow> rat option" where
  "nz x = (case x of Some y \<Rightarrow> if y = 0 then None else Some y | None \<Rightarrow> None)"

definition presence_stale :: "js_env \<Rightarrow> detector_cfg \<Rightarrow> rat \<Rightarrow> presence option \<Rightarrow> bool" where
  "presence_stale je cfg now p = (case p of
     None \<Rightarrow> True
   | Some pr \<Rightarrow> (case pr_last_seen pr of
       None \<Rightarrow> False
     | Some s \<Rightarrow> s \<noteq> [] \<and> now - ts_of je s > dc_presenceFreshMs cfg))"

definition effective_cadence :: "rat option \<Rightarrow> detector_cfg \<Rightarrow> rat" where
  "effective_cadence cadenceOverrideMs cfg = (case cadenceOverrideMs of
     Some c \<Rightarrow> if c > 0 then clamp_cadence c cfg else dc_beatCadenceMs cfg
   | None \<Rightarrow> dc_beatCadenceMs cfg)"

text \<open>
  \<open>Math.max(0, Math.floor(age / cadence))\<close>; a zero cadence gives \<open>\<infinity>\<close> for a positive age, \<open>NaN\<close> for
  age 0 and 0 for a negative one.
\<close>

definition missed_beats :: "rat \<Rightarrow> rat \<Rightarrow> jsnum" where
  "missed_beats age cadence =
     (if cadence = 0 then (if age > 0 then PosInf else if age = 0 then NaN else Fin 0)
      else Fin (max 0 (of_int \<lfloor>age / cadence\<rfloor>)))"

definition num_ge :: "jsnum \<Rightarrow> rat \<Rightarrow> bool" where
  "num_ge n q = (case n of Fin x \<Rightarrow> x \<ge> q | PosInf \<Rightarrow> True | _ \<Rightarrow> False)"

record verdict =
  v_class :: wedge_class
  v_reason :: string
  v_alert :: bool
  v_missed :: jsnum

definition active_state :: "string \<Rightarrow> bool" where
  "active_state s \<longleftrightarrow> s \<noteq> ''idle'' \<and> s \<noteq> ''paused'' \<and> s \<noteq> ''draining''"

definition turn_started :: "js_env \<Rightarrow> beat \<Rightarrow> rat" where
  "turn_started je b = (if ts_of je (b_turn_start_ts b) \<noteq> 0 then ts_of je (b_turn_start_ts b)
     else ts_of je (b_last_turn_ts b))"

text \<open>Lines 328-347: the verdict on a fresh beat.\<close>

definition classify_beat :: "js_env \<Rightarrow> rat \<Rightarrow> detector_cfg \<Rightarrow> rat \<Rightarrow> jsnum \<Rightarrow> beat \<Rightarrow> verdict" where
  "classify_beat je now cfg stale missed b =
     (let active = active_state (b_state b); spinCandidate = (active \<or> b_stop_hook_active b) in
      if spinCandidate \<and> stale \<ge> dc_staleProgressCadences cfg then
        \<lparr>v_class = StaleGoalSpin, v_reason = ''loop_seq_advancing_without_progress'', v_alert = True, v_missed = missed\<rparr>
      else if b_state b = ''idle'' \<and> b_task_ids b = [] then
        \<lparr>v_class = IdleOk, v_reason = ''fresh_idle_beat_no_tasks'', v_alert = False, v_missed = missed\<rparr>
      else if active \<and> turn_started je b \<noteq> 0 \<and> now - turn_started je b > dc_longTurnMs cfg then
        \<lparr>v_class = LongTurn, v_reason = ''turn_start_ts_exceeded_sla'', v_alert = True, v_missed = missed\<rparr>
      else \<lparr>v_class = Healthy, v_reason = ''fresh_beat'', v_alert = False, v_missed = missed\<rparr>)"

definition classify_agent ::
  "js_env \<Rightarrow> rat \<Rightarrow> agent_state \<Rightarrow> presence option \<Rightarrow> bool \<Rightarrow> bool \<Rightarrow> detector_cfg \<Rightarrow> rat option
   \<Rightarrow> liveness option \<Rightarrow> verdict" where
  "classify_agent je now st pres expectedSilent planeHealthy cfg cadenceOverrideMs livenessClass =
     (if presence_stale je cfg now pres then \<lparr>v_class = Offline, v_reason = ''presence_absent_or_stale'', v_alert = False, v_missed = Fin 0\<rparr>
      else if expectedSilent then
        \<lparr>v_class = ExpectedSilent, v_reason = ''redis_expected_silent_marker'', v_alert = False, v_missed = Fin 0\<rparr>
      else
     (let beatMode = map_option b_driver_mode (as_last_beat st);
          mode = resolve_liveness_mode livenessClass beatMode (has_beaten (as_last_recv_ms st)) in
      if mode = Service then
        \<lparr>v_class = ServiceAlive,
         v_reason = (if livenessClass = Some Service then ''service_class_registry''
           else if beatMode = Some ''service'' then ''service_inferred_from_beat_driver_mode''
           else ''service_inferred_presence_only_no_beat''), v_alert = False, v_missed = Fin 0\<rparr>
      else (case nz (as_last_recv_ms st) of
        None \<Rightarrow>
          (let firstSeen = opt_default (as_first_presence_seen_ms st) now in
           if now - firstSeen < dc_bootGraceMs cfg then
             \<lparr>v_class = BootGrace, v_reason = ''presence_seen_before_first_beat'', v_alert = False, v_missed = Fin 0\<rparr>
           else if \<not> planeHealthy then
             \<lparr>v_class = PlaneUnhealthy, v_reason = ''global_beat_rate_unhealthy'', v_alert = False, v_missed = Fin 0\<rparr>
           else \<lparr>v_class = LoopDead, v_reason = ''presence_fresh_but_no_monotonic_beat'', v_alert = True,
                  v_missed = Fin (dc_missedBeats cfg)\<rparr>)
      | Some recv \<Rightarrow>
          (let missed = missed_beats (now - recv) (effective_cadence cadenceOverrideMs cfg) in
           if num_ge missed (dc_missedBeats cfg) then
             (if \<not> planeHealthy then
                \<lparr>v_class = PlaneUnhealthy, v_reason = ''global_beat_rate_unhealthy'', v_alert = False, v_missed = missed\<rparr>
              else \<lparr>v_class = LoopDead,
                     v_reason = ''missed_'' @ je_num_text je missed @ ''_cadences_by_monotonic_receive_time'',
                     v_alert = True, v_missed = missed\<rparr>)
           else (case as_last_beat st of
             None \<Rightarrow> \<lparr>v_class = Healthy, v_reason = ''presence_fresh'', v_alert = False, v_missed = missed\<rparr>
           | Some b \<Rightarrow> classify_beat je now cfg (opt_default (as_stale_progress_cadences st) 0) missed b)))))"

definition is_keepalive_beat :: "beat option \<Rightarrow> beat \<Rightarrow> bool" where
  "is_keepalive_beat prevBeat b = (case prevBeat of None \<Rightarrow> False | Some p \<Rightarrow>
     b_loop_seq b > b_loop_seq p \<and> b_turn_start_ts b = b_turn_start_ts p
     \<and> b_last_turn_ts b = b_last_turn_ts p \<and> b_last_progress_ts b = b_last_progress_ts p)"

definition next_stale_progress_cadences :: "rat \<Rightarrow> bool \<Rightarrow> bool \<Rightarrow> bool \<Rightarrow> bool \<Rightarrow> bool \<Rightarrow> rat" where
  "next_stale_progress_cadences prev activeForSpin progressFresh sameIdentity presenceChanged isKeepalive =
     (let p = max 0 prev in
      if isKeepalive then p
      else if \<not> activeForSpin \<or> progressFresh \<or> \<not> sameIdentity \<or> presenceChanged then 0
      else p + 1)"

definition allowed_beat_emitter :: "string \<Rightarrow> string \<Rightarrow> detector_cfg \<Rightarrow> bool" where
  "allowed_beat_emitter agentId sender cfg \<longleftrightarrow>
     sender = agentId \<or> sender = default_beat_emitter_id agentId \<or> sender = agentId @ dc_beatEmitterSuffix cfg"

definition is_census_excluded :: "string \<Rightarrow> detector_cfg \<Rightarrow> bool" where
  "is_census_excluded i cfg \<longleftrightarrow> dc_ignoreAgent cfg i \<or> dc_transientAgent cfg i"

definition is_stale_offline :: "presence option \<Rightarrow> agent_state option \<Rightarrow> rat \<Rightarrow> detector_cfg \<Rightarrow> bool" where
  "is_stale_offline pres st now cfg =
     (if pres \<noteq> None then False
      else (case (case st of None \<Rightarrow> None
                  | Some s \<Rightarrow> (case as_last_recv_ms s of Some t \<Rightarrow> Some t | None \<Rightarrow> as_first_presence_seen_ms s)) of
              None \<Rightarrow> True
            | Some lastAlive \<Rightarrow> now - lastAlive > dc_censusAgeOutMs cfg))"

subsection \<open>The detector's memory\<close>

type_synonym memory = "(string \<times> agent_state) list"

definition set_mem :: "detector_cfg \<Rightarrow> agent_state \<Rightarrow> memory \<Rightarrow> memory" where
  "set_mem cfg st mem =
     AList.update (as_agent_id st) st
       (if map_of mem (as_agent_id st) = None \<and> of_nat (length mem) \<ge> dc_maxTrackedAgents cfg then tl mem else mem)"

text \<open>\<open>saved\<close> is the state saved in Redis under the agent's key, as an object (\<open>None\<close>: absent or unreadable).\<close>

definition load_state ::
  "detector_cfg \<Rightarrow> (string \<Rightarrow> agent_state option) \<Rightarrow> string \<Rightarrow> memory \<Rightarrow> agent_state option \<times> memory" where
  "load_state cfg saved i mem =
     (case map_of mem i of
        Some st \<Rightarrow> (Some st, mem)
      | None \<Rightarrow> (case saved i of
          None \<Rightarrow> (None, mem)
        | Some st \<Rightarrow> if as_agent_id st \<noteq> i then (None, mem) else (Some st, set_mem cfg st mem)))"

subsection \<open>Ingesting a beat\<close>

text \<open>\<open>bi_claim\<close> is the answer of the high-water script: \<open>None\<close> when Redis fails.\<close>

record beat_inputs =
  bi_now :: rat
  bi_presence :: "presence option"
  bi_saved :: "string \<Rightarrow> agent_state option"
  bi_claim :: "bool option"

definition filled :: "string option \<Rightarrow> bool" where
  "filled x \<longleftrightarrow> x \<noteq> None \<and> x \<noteq> Some []"

definition presence_changed :: "presence option \<Rightarrow> agent_state \<Rightarrow> bool" where
  "presence_changed p st = (case p of None \<Rightarrow> False | Some pr \<Rightarrow>
     filled (pr_started_at pr) \<and> filled (as_presence_started_at st) \<and> pr_started_at pr \<noteq> as_presence_started_at st)"

definition same_identity :: "agent_state \<Rightarrow> beat \<Rightarrow> bool" where
  "same_identity st b \<longleftrightarrow> as_boot_id st = Some (b_boot_id b) \<and> as_session_id st = Some (b_session_id b)"

definition claim_high_water :: "beat \<Rightarrow> agent_state \<Rightarrow> bool \<Rightarrow> bool option \<Rightarrow> bool" where
  "claim_high_water b st same claim =
     (let memHigh = (if same then opt_default (as_last_loop_seq st) (- 1) else - 1) in
      if b_loop_seq b \<le> memHigh then False
      else (case claim of None \<Rightarrow> True | Some r \<Rightarrow> r))"

definition active_for_spin :: "beat \<Rightarrow> bool" where
  "active_for_spin b \<longleftrightarrow> b_stop_hook_active b \<or> active_state (b_state b)"

definition progress_fresh :: "js_env \<Rightarrow> detector_cfg \<Rightarrow> rat \<Rightarrow> beat \<Rightarrow> bool" where
  "progress_fresh je cfg now b \<longleftrightarrow>
     ts_of je (b_last_progress_ts b) > 0 \<and> now - ts_of je (b_last_progress_ts b) \<le> dc_progressStaleMs cfg"

definition beat_state :: "js_env \<Rightarrow> detector_cfg \<Rightarrow> beat_inputs \<Rightarrow> beat \<Rightarrow> agent_state \<Rightarrow> agent_state" where
  "beat_state je cfg inp b st =
     (let now = bi_now inp; same = same_identity st b; changed = presence_changed (bi_presence inp) st;
          keepalive = is_keepalive_beat (if same then as_last_beat st else None) b in
      st\<lparr>as_boot_id := Some (b_boot_id b), as_session_id := Some (b_session_id b),
         as_presence_started_at := (case bi_presence inp of None \<Rightarrow> None | Some p \<Rightarrow> pr_started_at p),
         as_identity_first_recv_ms := Some (if same \<and> \<not> changed then opt_default (as_identity_first_recv_ms st) now else now),
         as_last_recv_ms := Some now, as_last_loop_seq_advance_ms := Some now, as_last_beat := Some b,
         as_last_loop_seq := Some (b_loop_seq b), as_updated_ms := now,
         as_stale_progress_cadences := Some (next_stale_progress_cadences
           (opt_default (as_stale_progress_cadences st) 0) (active_for_spin b) (progress_fresh je cfg now b)
           same changed keepalive)\<rparr>)"

definition ingest_beat ::
  "js_env \<Rightarrow> detector_cfg \<Rightarrow> beat_inputs \<Rightarrow> beat \<Rightarrow> memory \<Rightarrow> bool \<times> memory" where
  "ingest_beat je cfg inp b mem =
     (let (loaded, mem1) = load_state cfg (bi_saved inp) (b_agent_id b) mem;
          st = opt_default loaded (new_state (b_agent_id b) (bi_now inp));
          same = same_identity st b; changed = presence_changed (bi_presence inp) st in
      if filled (as_boot_id st) \<and> filled (as_session_id st) \<and> \<not> same \<and> \<not> changed then (False, mem1)
      else if \<not> claim_high_water b st same (bi_claim inp) then (False, mem1)
      else (True, set_mem cfg (beat_state je cfg inp b st) mem1))"

definition on_inbound ::
  "js_env \<Rightarrow> detector_cfg \<Rightarrow> beat_inputs \<Rightarrow> jsval option \<Rightarrow> string \<Rightarrow> memory \<Rightarrow> bool \<times> memory" where
  "on_inbound je cfg inp body sender mem =
     (case parse_agent_beat je body of
        None \<Rightarrow> (False, mem)
      | Some b \<Rightarrow> if \<not> allowed_beat_emitter (b_agent_id b) sender cfg then (False, mem)
                  else ingest_beat je cfg inp b mem)"

subsection \<open>Evaluating\<close>

text \<open>
  What one evaluation reads: the presences in scan order, the ids of the saved states, the raw
  markers of each id, and the clock at the moment of an alert decision.
\<close>

record eval_inputs =
  ev_now :: rat
  ev_presences :: "(string \<times> presence) list"
  ev_state_ids :: "string list"
  ev_saved :: "string \<Rightarrow> agent_state option"
  ev_liveness :: "string \<Rightarrow> string option"
  ev_silent :: "string \<Rightarrow> string option"
  ev_cadence :: "string \<Rightarrow> string option"
  ev_json :: "string \<Rightarrow> jsval option"
  ev_clock :: "string \<Rightarrow> rat"

definition liveness_of :: "jsval \<Rightarrow> liveness option" where
  "liveness_of v = (if v = JStr ''loop'' then Some Loop else if v = JStr ''service'' then Some Service else None)"

definition read_liveness_class :: "eval_inputs \<Rightarrow> string \<Rightarrow> liveness option" where
  "read_liveness_class inp i =
     (case ev_liveness inp i of
        None \<Rightarrow> None
      | Some raw \<Rightarrow>
          (let trimmed = js_trim raw in
           case liveness_of (JStr trimmed) of
             Some l \<Rightarrow> Some l
           | None \<Rightarrow> (case ev_json inp trimmed of None \<Rightarrow> None | Some v \<Rightarrow> liveness_of (jget v ''class''))))"

definition positive_floor :: "jsnum \<Rightarrow> rat option" where
  "positive_floor n = (case n of Fin q \<Rightarrow> if q > 0 then Some (of_int \<lfloor>q\<rfloor>) else None | _ \<Rightarrow> None)"

definition read_cadence_override :: "js_env \<Rightarrow> eval_inputs \<Rightarrow> string \<Rightarrow> rat option" where
  "read_cadence_override je inp i =
     (case ev_cadence inp i of
        None \<Rightarrow> None
      | Some raw \<Rightarrow>
          (if raw = [] then None
           else (case positive_floor (je_to_number je (JStr (js_trim raw))) of
             Some c \<Rightarrow> Some c
           | None \<Rightarrow> (case ev_json inp raw of
               None \<Rightarrow> None
             | Some v \<Rightarrow> positive_floor (je_to_number je (jget v ''cadence_ms''))))))"

definition has_expected_silent :: "eval_inputs \<Rightarrow> string \<Rightarrow> bool" where
  "has_expected_silent inp i \<longleftrightarrow> ev_silent inp i \<noteq> None"

definition load_all_states :: "detector_cfg \<Rightarrow> eval_inputs \<Rightarrow> memory \<Rightarrow> memory" where
  "load_all_states cfg inp mem = fold (\<lambda>i m. snd (load_state cfg (ev_saved inp) i m)) (ev_state_ids inp) mem"

text \<open>\<open>new Set([...a, ...b])\<close>: the first occurrences, in order. \<open>presenceOf\<close> reads the scanned map.\<close>

definition first_occurrences :: "'a list \<Rightarrow> 'a list" where
  "first_occurrences xs = rev (remdups (rev xs))"

definition presence_of :: "eval_inputs \<Rightarrow> string \<Rightarrow> presence option" where
  "presence_of inp i = map_of (rev (ev_presences inp)) i"

definition census :: "detector_cfg \<Rightarrow> eval_inputs \<Rightarrow> memory \<Rightarrow> string list" where
  "census cfg inp mem =
     filter (\<lambda>i. \<not> (is_census_excluded i cfg \<or> is_stale_offline (presence_of inp i) (map_of mem i) (ev_now inp) cfg))
       (first_occurrences (map fst (ev_presences inp) @ map fst mem))"

definition plane_ok :: "js_env \<Rightarrow> detector_cfg \<Rightarrow> eval_inputs \<Rightarrow> memory \<Rightarrow> bool" where
  "plane_ok je cfg inp mem =
     plane_healthy_for_agents
       (map (\<lambda>i. \<lparr>pa_livenessClass = read_liveness_class inp i,
            pa_driverMode = (case map_of mem i of None \<Rightarrow> None | Some st \<Rightarrow> map_option b_driver_mode (as_last_beat st)),
            pa_lastRecvMs = (case map_of mem i of None \<Rightarrow> None | Some st \<Rightarrow> as_last_recv_ms st),
            pa_expectedSilent = has_expected_silent inp i,
            pa_cadenceOverrideMs = read_cadence_override je inp i\<rparr>)
          (filter (\<lambda>i. presence_of inp i \<noteq> None) (census cfg inp mem)))
       (ev_now inp) cfg"

text \<open>Lines 584-597: a new presence resets the agent, the first one is dated.\<close>

definition observe_presence :: "rat \<Rightarrow> presence option \<Rightarrow> agent_state \<Rightarrow> agent_state" where
  "observe_presence now pres st =
     (if presence_changed pres st then
        st\<lparr>as_boot_id := None, as_session_id := None, as_last_recv_ms := None, as_last_loop_seq := None,
           as_last_loop_seq_advance_ms := None, as_last_beat := None, as_stale_progress_cadences := Some 0,
           as_first_presence_seen_ms := Some now,
           as_presence_started_at := (case pres of None \<Rightarrow> None | Some p \<Rightarrow> pr_started_at p)\<rparr>
      else (case pres of
        Some p \<Rightarrow> if nz (as_first_presence_seen_ms st) = None
          then st\<lparr>as_first_presence_seen_ms := Some now, as_presence_started_at := pr_started_at p\<rparr> else st
      | None \<Rightarrow> st))"

record wedge_alert =
  al_detector_id :: string
  al_agent_id :: string
  al_class :: wedge_class
  al_reason :: string
  al_boot_id :: "string option"
  al_session_id :: "string option"
  al_loop_seq :: "rat option"
  al_last_recv_ts :: "string option"
  al_last_turn_ts :: "string option"
  al_last_progress_ts :: "string option"
  al_presence :: "presence option"

definition emit_alert ::
  "js_env \<Rightarrow> detector_cfg \<Rightarrow> agent_state \<Rightarrow> presence option \<Rightarrow> wedge_class \<Rightarrow> string \<Rightarrow> wedge_alert" where
  "emit_alert je cfg st pres cls reason =
     \<lparr>al_detector_id = dc_detectorId cfg, al_agent_id = as_agent_id st, al_class = cls, al_reason = reason,
      al_boot_id = as_boot_id st, al_session_id = as_session_id st, al_loop_seq = as_last_loop_seq st,
      al_last_recv_ts = map_option (je_iso je) (nz (as_last_recv_ms st)),
      al_last_turn_ts = map_option b_last_turn_ts (as_last_beat st),
      al_last_progress_ts = map_option b_last_progress_ts (as_last_beat st), al_presence = pres\<rparr>"

definition should_alert :: "detector_cfg \<Rightarrow> rat \<Rightarrow> agent_state \<Rightarrow> wedge_class \<Rightarrow> bool" where
  "should_alert cfg clock st cls \<longleftrightarrow>
     as_last_alert_class st \<noteq> Some cls \<or> clock - opt_default (as_last_alert_at_ms st) 0 \<ge> dc_alertRepeatMs cfg"

definition eval_verdict ::
  "js_env \<Rightarrow> detector_cfg \<Rightarrow> eval_inputs \<Rightarrow> bool \<Rightarrow> string \<Rightarrow> agent_state \<Rightarrow> verdict" where
  "eval_verdict je cfg inp planeOk i st =
     (let active = presence_of inp i \<noteq> None in
      classify_agent je (ev_now inp) st (presence_of inp i) (active \<and> has_expected_silent inp i) planeOk cfg
        (if active then read_cadence_override je inp i else None)
        (if active then read_liveness_class inp i else None))"

definition eval_one ::
  "js_env \<Rightarrow> detector_cfg \<Rightarrow> eval_inputs \<Rightarrow> bool \<Rightarrow> string \<Rightarrow> wedge_alert list \<times> memory
   \<Rightarrow> wedge_alert list \<times> memory" where
  "eval_one je cfg inp planeOk i am =
     (let (alerts, mem) = am;
          st1 = observe_presence (ev_now inp) (presence_of inp i) (opt_default (map_of mem i) (new_state i (ev_now inp)));
          v = eval_verdict je cfg inp planeOk i st1;
          st2 = st1\<lparr>as_classification := Some (v_class v), as_missed_count := Some (v_missed v),
                    as_updated_ms := ev_now inp\<rparr> in
      if v_alert v \<and> should_alert cfg (ev_clock inp i) st2 (v_class v) then
        (alerts @ [emit_alert je cfg st2 (presence_of inp i) (v_class v) (v_reason v)],
         set_mem cfg (st2\<lparr>as_last_alert_class := Some (v_class v), as_last_alert_at_ms := Some (ev_now inp)\<rparr>) mem)
      else (alerts, set_mem cfg st2 mem))"

definition evaluate_once :: "js_env \<Rightarrow> detector_cfg \<Rightarrow> eval_inputs \<Rightarrow> memory \<Rightarrow> wedge_alert list \<times> memory" where
  "evaluate_once je cfg inp mem =
     (let mem1 = load_all_states cfg inp mem in
      fold (eval_one je cfg inp (plane_ok je cfg inp mem1)) (census cfg inp mem1) ([], mem1))"

subsection \<open>Runs and the memory invariant\<close>

datatype detector_event = Inbound beat_inputs "jsval option" string | Evaluate eval_inputs

definition detector_step :: "js_env \<Rightarrow> detector_cfg \<Rightarrow> memory \<Rightarrow> detector_event \<Rightarrow> memory" where
  "detector_step je cfg mem ev =
     (case ev of
        Inbound inp body sender \<Rightarrow> snd (on_inbound je cfg inp body sender mem)
      | Evaluate inp \<Rightarrow> snd (evaluate_once je cfg inp mem))"

definition mem_ok :: "memory \<Rightarrow> bool" where
  "mem_ok mem \<longleftrightarrow> distinct (map fst mem) \<and> list_all (\<lambda>(k, st). as_agent_id st = k) mem"

lemma mem_ok_lookup: "mem_ok mem \<Longrightarrow> map_of mem i = Some st \<Longrightarrow> as_agent_id st = i"
  by (auto simp: mem_ok_def list_all_iff dest!: map_of_SomeD)

lemma mem_ok_tl: "mem_ok mem \<Longrightarrow> mem_ok (tl mem)"
  by (cases mem) (auto simp: mem_ok_def)

lemma mem_ok_update: "mem_ok mem \<Longrightarrow> mem_ok (AList.update (as_agent_id st) st mem)"
proof -
  have "list_all (\<lambda>(k, st). as_agent_id st = k) mem \<Longrightarrow>
      list_all (\<lambda>(k, st). as_agent_id st = k) (AList.update (as_agent_id st) st mem)"
    by (induction mem) auto
  then show "mem_ok mem \<Longrightarrow> ?thesis" by (simp add: mem_ok_def distinct_update)
qed

lemma mem_ok_set_mem: "mem_ok mem \<Longrightarrow> mem_ok (set_mem cfg st mem)"
  by (simp add: set_mem_def mem_ok_update mem_ok_tl)

lemma load_state_spec:
  assumes "load_state cfg saved i mem = (loaded, mem')" "mem_ok mem"
  shows "mem_ok mem' \<and> (\<forall>st. loaded = Some st \<longrightarrow> as_agent_id st = i)"
  using assms mem_ok_lookup mem_ok_set_mem
  by (auto simp: load_state_def split: option.splits if_splits)

lemma mem_ok_load_all: "mem_ok mem \<Longrightarrow> mem_ok (load_all_states cfg inp mem)"
proof -
  have "mem_ok mem \<Longrightarrow> mem_ok (fold (\<lambda>i m. snd (load_state cfg sv i m)) is mem)" for "is" sv mem
    by (induction "is" arbitrary: mem) (auto simp: load_state_spec [OF surjective_pairing])
  then show "mem_ok mem \<Longrightarrow> ?thesis" by (simp add: load_all_states_def)
qed

lemma observe_presence_id [simp]: "as_agent_id (observe_presence now p st) = as_agent_id st"
  by (simp add: observe_presence_def split: option.splits)

lemma mem_ok_eval_one: "mem_ok (snd am) \<Longrightarrow> mem_ok (snd (eval_one je cfg inp ok i am))"
  by (cases am) (simp add: eval_one_def Let_def mem_ok_set_mem)

lemma mem_ok_eval_fold: "mem_ok (snd am) \<Longrightarrow> mem_ok (snd (fold (eval_one je cfg inp ok) is am))"
  by (induction "is" arbitrary: am) (auto simp: mem_ok_eval_one)

lemma mem_ok_evaluate: "mem_ok mem \<Longrightarrow> mem_ok (snd (evaluate_once je cfg inp mem))"
  by (simp add: evaluate_once_def Let_def mem_ok_eval_fold mem_ok_load_all)

lemma mem_ok_inbound: "mem_ok mem \<Longrightarrow> mem_ok (snd (on_inbound je cfg inp body sender mem))"
  by (auto simp: on_inbound_def ingest_beat_def Let_def mem_ok_set_mem load_state_spec
      split: option.splits prod.splits)

interpretation detector: step_invariant "detector_step je cfg" mem_ok
  by unfold_locales (simp add: detector_step_def mem_ok_evaluate mem_ok_inbound split: detector_event.split)

lemma mem_ok_run: "mem_ok (run (detector_step je cfg) [] evs)"
  by (rule detector.run_inv) (simp add: mem_ok_def)

subsection \<open>What a verdict means\<close>

text \<open>The evidence behind each alerting class.\<close>

definition wedge_evidence :: "js_env \<Rightarrow> detector_cfg \<Rightarrow> rat \<Rightarrow> rat option \<Rightarrow> bool \<Rightarrow> agent_state \<Rightarrow> wedge_class \<Rightarrow> bool" where
  "wedge_evidence je cfg now cadence planeOk st cls =
     (case cls of
        LoopDead \<Rightarrow> planeOk \<and> (case nz (as_last_recv_ms st) of
            None \<Rightarrow> now - opt_default (as_first_presence_seen_ms st) now \<ge> dc_bootGraceMs cfg
          | Some r \<Rightarrow> num_ge (missed_beats (now - r) (effective_cadence cadence cfg)) (dc_missedBeats cfg))
      | StaleGoalSpin \<Rightarrow> (\<exists>b. as_last_beat st = Some b \<and> active_for_spin b)
          \<and> opt_default (as_stale_progress_cadences st) 0 \<ge> dc_staleProgressCadences cfg
      | LongTurn \<Rightarrow> (\<exists>b. as_last_beat st = Some b \<and> active_state (b_state b) \<and> turn_started je b \<noteq> 0
          \<and> now - turn_started je b > dc_longTurnMs cfg)
      | _ \<Rightarrow> False)"

lemma classify_alert:
  assumes v: "v = classify_agent je now st pres silent planeOk cfg cadence live" and a: "v_alert v"
  shows "\<not> presence_stale je cfg now pres \<and> \<not> silent \<and> live \<noteq> Some Service
    \<and> wedge_evidence je cfg now cadence planeOk st (v_class v)"
proof -
  let ?mode = "resolve_liveness_mode live (map_option b_driver_mode (as_last_beat st)) (has_beaten (as_last_recv_ms st))"
  have 1: "\<not> presence_stale je cfg now pres" and 2: "\<not> silent"
    using v a by (auto simp: classify_agent_def split: if_splits)
  then have 3: "?mode \<noteq> Service"
    using v a by (auto simp: classify_agent_def Let_def)
  then have 4: "live \<noteq> Some Service" by (auto simp: resolve_liveness_mode_def)
  note unfolded = v [unfolded classify_agent_def Let_def if_not_P [OF 1] if_not_P [OF 2] if_not_P [OF 3]]
  have "wedge_evidence je cfg now cadence planeOk st (v_class v)"
  proof (cases "nz (as_last_recv_ms st)")
    case None
    then show ?thesis using unfolded a by (simp add: wedge_evidence_def not_less split: if_splits)
  next
    case (Some r)
    note r = this
    show ?thesis
    proof (cases "as_last_beat st")
      case None
      then show ?thesis using unfolded a r by (simp add: wedge_evidence_def split: if_splits)
    next
      case (Some b)
      then show ?thesis using unfolded a r
        by (auto simp: wedge_evidence_def active_for_spin_def classify_beat_def Let_def split: if_split_asm)
    qed
  qed
  with 1 2 4 show ?thesis by blast
qed


subsection \<open>What an evaluation does to each agent\<close>

lemma map_of_tl: "distinct (map fst m) \<Longrightarrow> map_of (tl m) j = map_of m j \<or> map_of (tl m) j = None"
  by (cases m) (auto simp: map_of_eq_None_iff image_iff)

lemma set_mem_same: "map_of (set_mem cfg st mem) (as_agent_id st) = Some st"
  by (simp add: set_mem_def)

lemma set_mem_other:
  "mem_ok mem \<Longrightarrow> j \<noteq> as_agent_id st \<Longrightarrow>
   map_of (set_mem cfg st mem) j = map_of mem j \<or> map_of (set_mem cfg st mem) j = None"
  using map_of_tl [of mem j] by (auto simp: set_mem_def mem_ok_def)

text \<open>The state of agent \<open>i\<close> before its verdict, and the alert its verdict gives.\<close>

definition judged_state :: "eval_inputs \<Rightarrow> string \<Rightarrow> agent_state option \<Rightarrow> agent_state" where
  "judged_state inp i st = observe_presence (ev_now inp) (presence_of inp i) (opt_default st (new_state i (ev_now inp)))"

lemma eval_one_spec:
  assumes "mem_ok mem" and r: "eval_one je cfg inp ok i (alerts, mem) = (alerts', mem')"
  defines "st1 \<equiv> judged_state inp i (map_of mem i)"
  shows "(\<exists>new st. alerts' = alerts @ new \<and> as_agent_id st = i \<and> mem' = set_mem cfg st mem
      \<and> as_classification st = Some (v_class (eval_verdict je cfg inp ok i st1))
      \<and> (if v_alert (eval_verdict je cfg inp ok i st1)
            \<and> should_alert cfg (ev_clock inp i) st1 (v_class (eval_verdict je cfg inp ok i st1))
         then as_last_alert_class st = Some (v_class (eval_verdict je cfg inp ok i st1))
           \<and> (\<exists>al. new = [al] \<and> al_agent_id al = i \<and> al_class al = v_class (eval_verdict je cfg inp ok i st1))
         else new = [] \<and> as_last_alert_class st = as_last_alert_class st1))"
proof -
  have i: "as_agent_id st1 = i"
    using mem_ok_lookup [OF assms(1), of i]
    by (auto simp: st1_def judged_state_def opt_default_def new_state_def split: option.splits)
  have s: "should_alert cfg c (st1\<lparr>as_classification := a, as_missed_count := b, as_updated_ms := t\<rparr>) v
      \<longleftrightarrow> should_alert cfg c st1 v" for c a b t v
    by (simp add: should_alert_def)
  let ?v = "eval_verdict je cfg inp ok i st1"
  let ?st2 = "st1\<lparr>as_classification := Some (v_class ?v), as_missed_count := Some (v_missed ?v), as_updated_ms := ev_now inp\<rparr>"
  note step = r [unfolded eval_one_def Let_def prod.case judged_state_def [symmetric] st1_def [symmetric] s]
  show ?thesis
  proof (cases "v_alert ?v \<and> should_alert cfg (ev_clock inp i) st1 (v_class ?v)")
    case True
    then show ?thesis
      using step i by (intro exI [of _ "[emit_alert je cfg ?st2 (presence_of inp i) (v_class ?v) (v_reason ?v)]"]
          exI [of _ "?st2\<lparr>as_last_alert_class := Some (v_class ?v), as_last_alert_at_ms := Some (ev_now inp)\<rparr>"])
        (simp add: emit_alert_def)
  next
    case False
    then show ?thesis using step i by (intro exI [of _ "[]"] exI [of _ ?st2]) auto
  qed
qed

lemma eval_fold_justified:
  assumes "distinct is" "mem_ok mem"
    and "fold (eval_one je cfg inp ok) is (alerts, mem) = (alerts', mem')"
    and "\<And>j. j \<in> set is \<Longrightarrow> map_of mem j = map_of mem0 j \<or> map_of mem j = None"
  shows "\<exists>new. alerts' = alerts @ new \<and> distinct (map al_agent_id new)
    \<and> (\<forall>al \<in> set new. al_agent_id al \<in> set is \<and> (\<exists>st. (map_of mem0 (al_agent_id al) = st \<or> st = None)
        \<and> (let v = eval_verdict je cfg inp ok (al_agent_id al) (judged_state inp (al_agent_id al) st)
           in v_alert v \<and> al_class al = v_class v)))"
  using assms
proof (induction "is" arbitrary: alerts mem)
  case (Cons i "is")
  obtain a1 m1 where one: "eval_one je cfg inp ok i (alerts, mem) = (a1, m1)" by fastforce
  obtain new st where n: "a1 = alerts @ new" "as_agent_id st = i" "m1 = set_mem cfg st mem"
    and al: "\<forall>al \<in> set new. al_agent_id al = i \<and>
        (let v = eval_verdict je cfg inp ok i (judged_state inp i (map_of mem i)) in v_alert v \<and> al_class al = v_class v)"
    and len: "length new \<le> 1"
    using eval_one_spec [OF Cons.prems(2) one] by (auto simp: Let_def split: if_split_asm)
  have "fold (eval_one je cfg inp ok) is (a1, m1) = (alerts', mem')"
    using Cons.prems(3) one by simp
  moreover have "map_of m1 j = map_of mem0 j \<or> map_of m1 j = None" if "j \<in> set is" for j
  proof -
    have "j \<noteq> as_agent_id st" using that Cons.prems(1) n(2) by auto
    then have "map_of m1 j = map_of mem j \<or> map_of m1 j = None"
      unfolding n(3) by (rule set_mem_other [OF Cons.prems(2)])
    then show ?thesis using Cons.prems(4) [of j] that by auto
  qed
  moreover have "mem_ok m1" using n mem_ok_set_mem Cons.prems(2) by blast
  ultimately obtain new2 where n2: "alerts' = a1 @ new2" "distinct (map al_agent_id new2)"
    "\<forall>al \<in> set new2. al_agent_id al \<in> set is \<and> (\<exists>st. (map_of mem0 (al_agent_id al) = st \<or> st = None)
        \<and> (let v = eval_verdict je cfg inp ok (al_agent_id al) (judged_state inp (al_agent_id al) st)
           in v_alert v \<and> al_class al = v_class v))"
    using Cons.IH [of m1 a1] Cons.prems(1) by auto
  have "distinct (map al_agent_id (new @ new2))"
    using al len n2(2,3) Cons.prems(1) by (cases new) (auto simp: le_Suc_eq)
  moreover have "map_of mem i = map_of mem0 i \<or> map_of mem i = None" using Cons.prems(4) by simp
  ultimately show ?case
    using n n2 al by (intro exI [of _ "new @ new2"]) auto
qed simp

lemma census_distinct: "distinct (census cfg inp mem)"
  by (simp add: census_def first_occurrences_def)

lemma evaluate_alerts:
  assumes "mem_ok mem" "evaluate_once je cfg inp mem = (alerts, mem')"
  defines "mem1 \<equiv> load_all_states cfg inp mem"
  shows "distinct (map al_agent_id alerts)
    \<and> (\<forall>al \<in> set alerts. al_agent_id al \<in> set (census cfg inp mem1)
        \<and> (\<exists>st. (map_of mem1 (al_agent_id al) = st \<or> st = None)
        \<and> (let v = eval_verdict je cfg inp (plane_ok je cfg inp mem1) (al_agent_id al) (judged_state inp (al_agent_id al) st)
           in v_alert v \<and> al_class al = v_class v)))"
proof -
  have "fold (eval_one je cfg inp (plane_ok je cfg inp mem1)) (census cfg inp mem1) ([], mem1) = (alerts, mem')"
    using assms(2) by (simp add: evaluate_once_def Let_def mem1_def)
  from eval_fold_justified [OF census_distinct _ this, of mem1] show ?thesis
    using mem_ok_load_all [OF assms(1)] unfolding mem1_def by auto
qed

text \<open>
  C29. No false alarm, whatever the beats, markers and states read: each alert of an evaluation is the
  only one for its agent; the agent is in the census, its presence is fresh, it is neither marked
  silent nor registered as a service, and the evidence for the class is there: a dead loop has
  missed its cadences (or never beat since the boot grace) while the plane is healthy, a spin has
  reached the configured run of beats without progress, a long turn is past the limit.
\<close>

theorem wedge_alerts_sound:
  assumes "evaluate_once je cfg inp (run (detector_step je cfg) [] evs) = (alerts, mem')" "al \<in> set alerts"
  shows "distinct (map al_agent_id alerts)
    \<and> \<not> is_census_excluded (al_agent_id al) cfg
    \<and> (\<exists>p. presence_of inp (al_agent_id al) = Some p \<and> \<not> presence_stale je cfg (ev_now inp) (Some p))
    \<and> \<not> has_expected_silent inp (al_agent_id al) \<and> read_liveness_class inp (al_agent_id al) \<noteq> Some Service
    \<and> (let mem1 = load_all_states cfg inp (run (detector_step je cfg) [] evs) in
       \<exists>st. (map_of mem1 (al_agent_id al) = st \<or> st = None)
        \<and> wedge_evidence je cfg (ev_now inp) (read_cadence_override je inp (al_agent_id al)) (plane_ok je cfg inp mem1)
            (judged_state inp (al_agent_id al) st) (al_class al))"
proof -
  let ?mem1 = "load_all_states cfg inp (run (detector_step je cfg) [] evs)" and ?i = "al_agent_id al"
  obtain st where c: "?i \<in> set (census cfg inp ?mem1)" and st: "map_of ?mem1 ?i = st \<or> st = None"
    and v: "v_alert (eval_verdict je cfg inp (plane_ok je cfg inp ?mem1) ?i (judged_state inp ?i st))"
      "al_class al = v_class (eval_verdict je cfg inp (plane_ok je cfg inp ?mem1) ?i (judged_state inp ?i st))"
    using evaluate_alerts [OF mem_ok_run assms(1)] assms(2) by (auto simp: Let_def)
  note k = classify_alert [OF refl v(1) [unfolded eval_verdict_def Let_def]]
  then obtain p where "presence_of inp ?i = Some p" by (cases "presence_of inp ?i") (auto simp: presence_stale_def)
  with c st v(2) k evaluate_alerts [OF mem_ok_run assms(1)] show ?thesis
    unfolding Let_def by (auto simp: eval_verdict_def Let_def census_def)
qed






subsection \<open>The emitter and the detector together\<close>

text \<open>Each emit of the agent, delivered to the detector in order.\<close>

fun feed_beats ::
  "js_env \<Rightarrow> detector_cfg \<Rightarrow> string \<times> string \<times> string \<Rightarrow> persisted option \<Rightarrow> memory
   \<Rightarrow> (beat_host \<times> emit_input \<times> beat_inputs) list \<Rightarrow> bool \<times> memory" where
  "feed_beats je cfg ident prev mem [] = (True, mem)"
| "feed_beats je cfg ident prev mem ((h, input, inp) # es) =
     (let (b, nxt) = build_next_beat je h prev input ident;
          (ok, mem1) = ingest_beat je cfg inp b mem;
          (oks, mem2) = feed_beats je cfg ident (Some nxt) mem1 es
      in (ok \<and> oks, mem2))"

lemma keepalive_of_next:
  assumes iso: "\<And>t. je_iso je t \<noteq> []"
    and b: "build_next_beat je h0 prev i0 ident = (b, nxt)"
    and k: "build_next_beat je h (Some nxt) input ident = (b', nxt')" "ei_phase input = Some ''keepalive''"
  shows "is_keepalive_beat (Some b) b' \<and> b_loop_seq b' > b_loop_seq b
    \<and> b_agent_id b' = b_agent_id b \<and> b_boot_id b' = b_boot_id b \<and> b_session_id b' = b_session_id b"
proof -
  obtain aid bid sid where ident: "ident = (aid, bid, sid)" by (cases ident)
  obtain s t l p where c: "next_clocks je prev i0 (emit_now h0 i0) = (s, t, l, p)" by (cases "next_clocks je prev i0 (emit_now h0 i0)")
  have ne: "t \<noteq> []" "l \<noteq> []" "p \<noteq> []"
    using c iso by (auto simp: next_clocks_def Let_def js_or_def split: if_splits option.splits)
  have nxt: "ps_turn_start_ts nxt = Some t" "ps_last_turn_ts nxt = Some l" "ps_last_progress_ts nxt = Some p" "ps_loop_seq nxt = Fin s"
    and bb: "b_turn_start_ts b = t" "b_last_turn_ts b = l" "b_last_progress_ts b = p" "b_loop_seq b = s"
      "b_agent_id b = aid" "b_boot_id b = bid" "b_session_id b = sid"
    using b by (auto simp: build_next_beat_def c ident Let_def)
  have "next_clocks je (Some nxt) input now = (s + 1, t, l, p)" for now
    using ne k(2) nxt by (simp add: next_clocks_def opt_default_def prev_seq_def prev_str_def js_or_def Let_def)
  then show ?thesis
    using k(1) bb by (auto simp: build_next_beat_def ident Let_def is_keepalive_beat_def)
qed

lemma ingest_keepalive:
  assumes "map_of mem (b_agent_id b') = Some st" "mem_ok mem" "same_identity st b'" "as_last_beat st = Some b"
    "as_last_loop_seq st = Some (b_loop_seq b)" "is_keepalive_beat (Some b) b'" "\<not> presence_changed (bi_presence inp) st"
    "bi_claim inp \<noteq> Some False"
  shows "\<exists>mem'. ingest_beat je cfg inp b' mem = (True, mem') \<and> mem_ok mem'
    \<and> map_of mem' (b_agent_id b') = Some (beat_state je cfg inp b' st)
    \<and> as_stale_progress_cadences (beat_state je cfg inp b' st) = Some (max 0 (opt_default (as_stale_progress_cadences st) 0))"
proof -
  let ?st = "beat_state je cfg inp b' st"
  have i: "as_agent_id ?st = b_agent_id b'"
    using mem_ok_lookup [OF assms(2,1)] by (simp add: beat_state_def Let_def)
  have "claim_high_water b' st True (bi_claim inp)"
    using assms(5,6,8) by (auto simp: claim_high_water_def opt_default_def is_keepalive_beat_def split: option.splits)
  then have "ingest_beat je cfg inp b' mem = (True, set_mem cfg ?st mem)"
    using assms(1,3,7) by (simp add: ingest_beat_def load_state_def opt_default_def)
  moreover have "as_stale_progress_cadences ?st = Some (max 0 (opt_default (as_stale_progress_cadences st) 0))"
    using assms(3,4,6) by (simp add: beat_state_def Let_def next_stale_progress_cadences_def)
  ultimately show ?thesis
    using mem_ok_set_mem [OF assms(2)] set_mem_same [of cfg ?st mem] i by simp
qed

text \<open>
  A long turn is not a spin: however many keepalives an agent emits after a beat the detector has
  taken in, each one is accepted as a new sign of life, none advances or resets the spin counter,
  and the detector's receive time is that of the last. This composes the emitter's clocks with the
  detector's inference, which sees no phase on the wire.
\<close>

theorem keepalives_are_neutral:
  assumes iso: "\<And>t. je_iso je t \<noteq> []"
    and taken: "build_next_beat je h0 prev i0 (i, bt, ss) = (b, nxt)" "mem_ok mem" "map_of mem i = Some st"
      "as_boot_id st = Some bt" "as_session_id st = Some ss" "as_last_beat st = Some b" "as_last_loop_seq st = Some (b_loop_seq b)"
    and presence: "\<not> presence_changed pres st"
    and keepalives: "\<forall>(h, input, inp) \<in> set es. ei_phase input = Some ''keepalive'' \<and> bi_presence inp = pres \<and> bi_claim inp \<noteq> Some False"
  shows "\<exists>mem' st'. feed_beats je cfg (i, bt, ss) (Some nxt) mem es = (True, mem') \<and> map_of mem' i = Some st'
    \<and> max 0 (opt_default (as_stale_progress_cadences st') 0) = max 0 (opt_default (as_stale_progress_cadences st) 0)
    \<and> as_last_recv_ms st' = (if es = [] then as_last_recv_ms st else Some (bi_now (snd (snd (last es)))))"
  using taken presence keepalives
proof (induction es arbitrary: h0 prev i0 b nxt mem st)
  case (Cons e es)
  obtain h input inp where e: "e = (h, input, inp)" by (cases e)
  obtain b' nxt' where n: "build_next_beat je h (Some nxt) input (i, bt, ss) = (b', nxt')" by fastforce
  have phase: "ei_phase input = Some ''keepalive''" "bi_presence inp = pres" "bi_claim inp \<noteq> Some False"
    using Cons.prems(9) e by auto
  note k = keepalive_of_next [OF iso Cons.prems(1) n phase(1)]
  have ids: "b_agent_id b' = i" "b_boot_id b' = bt" "b_session_id b' = ss"
    using n by (auto simp: build_next_beat_def Let_def split: prod.splits)
  let ?st = "beat_state je cfg inp b' st"
  obtain mem' where m: "ingest_beat je cfg inp b' mem = (True, mem')" "mem_ok mem'" "map_of mem' i = Some ?st"
    "as_stale_progress_cadences ?st = Some (max 0 (opt_default (as_stale_progress_cadences st) 0))"
    using ingest_keepalive [of mem b' st b inp je cfg] Cons.prems k ids phase by (auto simp: same_identity_def)
  have s: "as_boot_id ?st = Some bt" "as_session_id ?st = Some ss" "as_last_beat ?st = Some b'"
    "as_last_loop_seq ?st = Some (b_loop_seq b')" "as_last_recv_ms ?st = Some (bi_now inp)"
    using ids by (simp_all add: beat_state_def Let_def)
  have "\<not> presence_changed pres ?st"
    using phase(2) by (auto simp: presence_changed_def beat_state_def Let_def filled_def split: option.splits)
  with Cons.IH [OF n m(2,3) s(1-4)] Cons.prems(9) obtain mem2 st2 where
    "feed_beats je cfg (i, bt, ss) (Some nxt') mem' es = (True, mem2)" "map_of mem2 i = Some st2"
    "max 0 (opt_default (as_stale_progress_cadences st2) 0) = max 0 (opt_default (as_stale_progress_cadences ?st) 0)"
    "as_last_recv_ms st2 = (if es = [] then as_last_recv_ms ?st else Some (bi_now (snd (snd (last es)))))"
    by auto
  then show ?case using n m(1,4) s(5) by (simp add: e opt_default_def)
qed auto

subsection \<open>Concrete runs\<close>

definition toy_js :: js_env where
  "toy_js = \<lparr>je_num_text = (\<lambda>n. ''n''), je_to_number = (\<lambda>v. case v of JNum n \<Rightarrow> n | _ \<Rightarrow> NaN),
     je_date_parse = (\<lambda>s. None), je_iso = (\<lambda>t. ''t'')\<rparr>"

definition toy_dcfg :: detector_cfg where
  "toy_dcfg = load_detector_config toy_js (\<lambda>p s. False) (\<lambda>k. None)"

lemma toy_dcfg_simps:
  "dc_missedBeats toy_dcfg = 3" "dc_beatCadenceMs toy_dcfg = 900000" "dc_planeFreshMs toy_dcfg = 1800000"
  "dc_globalGateMinAgents toy_dcfg = 3" "dc_maxTrackedAgents toy_dcfg = 4096" "dc_presenceFreshMs toy_dcfg = 120000"
  "dc_staleProgressCadences toy_dcfg = 3" "dc_ignoreAgent toy_dcfg = default_ignore" "dc_transientAgent toy_dcfg = default_transient"
  by (simp_all add: toy_dcfg_def load_detector_config_def env_num_def env_re_def toy_js_def Let_def)

definition toy_beat :: beat where
  "toy_beat = \<lparr>b_agent_id = ''a'', b_host = [], b_boot_id = ''b'', b_session_id = ''s'', b_loop_seq = 4,
     b_turn_start_ts = ''t'', b_last_turn_ts = ''t'', b_last_progress_ts = ''t'', b_driver_mode = ''loop'',
     b_stop_hook_active = False, b_goal_id = None, b_goal_epoch = None, b_state = ''in_task'',
     b_inbox_depth = Fin 0, b_task_ids = []\<rparr>"

definition toy_state :: "string \<Rightarrow> rat \<Rightarrow> agent_state" where
  "toy_state i recv = (new_state i 0)\<lparr>as_boot_id := Some ''b'', as_session_id := Some ''s'', as_last_recv_ms := Some recv,
     as_last_loop_seq := Some 4, as_last_beat := Some toy_beat, as_stale_progress_cadences := Some 3,
     as_first_presence_seen_ms := Some 1\<rparr>"

definition toy_eval :: eval_inputs where
  "toy_eval = \<lparr>ev_now = 2700001, ev_presences = [(''a'', \<lparr>pr_token = ''k'', pr_host = None, pr_started_at = None, pr_last_seen = None\<rparr>),
       (''b'', \<lparr>pr_token = ''k'', pr_host = None, pr_started_at = None, pr_last_seen = None\<rparr>)],
     ev_state_ids = [''a'', ''b''],
     ev_saved = (\<lambda>i. if i = ''a'' then Some (toy_state i 1) else if i = ''b'' then Some (toy_state i 2700000) else None),
     ev_liveness = (\<lambda>i. None), ev_silent = (\<lambda>i. None), ev_cadence = (\<lambda>i. None), ev_json = (\<lambda>s. None), ev_clock = (\<lambda>i. 2700001)\<rparr>"



lemma toy_state_simps:
  "as_agent_id (toy_state i r) = i" "as_last_recv_ms (toy_state i r) = Some r" "as_last_beat (toy_state i r) = Some toy_beat"
  "as_last_alert_class (toy_state i r) = None" "as_presence_started_at (toy_state i r) = None" "b_driver_mode toy_beat = ''loop''"
  by (simp_all add: toy_state_def new_state_def toy_beat_def)






text \<open>A spinning agent, evaluated step by step.\<close>

definition toy_spin :: eval_inputs where
  "toy_spin = toy_eval\<lparr>ev_now := 2, ev_presences := [(''a'', \<lparr>pr_token = ''k'', pr_host = None, pr_started_at = None, pr_last_seen = None\<rparr>)],
     ev_state_ids := [''a'']\<rparr>"

lemma wedge_alerts_sound_witness:
  "\<exists>al mem'. evaluate_once toy_js toy_dcfg toy_spin [] = ([al], mem') \<and> al_class al = StaleGoalSpin
     \<and> \<not> is_census_excluded (al_agent_id al) toy_dcfg"
proof -
  have mem: "load_all_states toy_dcfg toy_spin [] = [(''a'', toy_state ''a'' 1)]"
    by (simp add: load_all_states_def toy_spin_def toy_eval_def load_state_def set_mem_def toy_state_def new_state_def toy_dcfg_simps)
  have cen: "census toy_dcfg toy_spin [(''a'', toy_state ''a'' 1)] = [''a'']"
    by (simp add: census_def toy_spin_def first_occurrences_def is_census_excluded_def is_stale_offline_def presence_of_def
        toy_dcfg_simps default_ignore_def default_transient_def starts_with_def)
  have reads: "read_liveness_class toy_spin i = None" "read_cadence_override je toy_spin i = None" "\<not> has_expected_silent toy_spin i" for i je
    by (simp_all add: read_liveness_class_def read_cadence_override_def has_expected_silent_def toy_spin_def toy_eval_def)
  have od: "opt_default (Some x) d = x" for x d :: agent_state by (simp add: opt_default_def)
  have js: "observe_presence (ev_now toy_spin) (presence_of toy_spin ''a'') (toy_state ''a'' 1) = toy_state ''a'' 1"
    by (simp add: observe_presence_def presence_of_def toy_spin_def presence_changed_def filled_def
        toy_state_def nz_def opt_default_def)
  have v: "eval_verdict toy_js toy_dcfg toy_spin ok ''a'' (toy_state ''a'' 1) =
      \<lparr>v_class = StaleGoalSpin, v_reason = ''loop_seq_advancing_without_progress'', v_alert = True, v_missed = Fin 0\<rparr>" for ok
    by (simp add: eval_verdict_def classify_agent_def presence_stale_def presence_of_def toy_spin_def reads [unfolded toy_spin_def]
        resolve_liveness_mode_def toy_state_def toy_beat_def classify_beat_def active_state_def opt_default_def nz_def
        missed_beats_def effective_cadence_def num_ge_def toy_dcfg_simps Let_def)
  have "\<exists>al mem'. evaluate_once toy_js toy_dcfg toy_spin [] = ([al], mem') \<and> al_class al = StaleGoalSpin"
    by (simp add: evaluate_once_def mem cen Let_def eval_one_def od js v should_alert_def toy_state_simps emit_alert_def)
  then obtain al mem' where e: "evaluate_once toy_js toy_dcfg toy_spin [] = ([al], mem')" "al_class al = StaleGoalSpin" by blast
  then show ?thesis
    using wedge_alerts_sound [of toy_js toy_dcfg toy_spin "[]" "[al]" mem' al] by auto
qed

lemma keepalives_are_neutral_witness:
  "\<exists>input inp mem' st'. feed_beats toy_js toy_dcfg (''a'', ''b'', ''s'')
      (Some (snd (build_next_beat toy_js \<lparr>bh_hostname = [], bh_env = (\<lambda>k. None), bh_wall = 0\<rparr> None input (''a'', ''b'', ''s''))))
      [(''a'', (toy_state ''a'' 1)\<lparr>as_last_loop_seq := Some 1,
         as_last_beat := Some (fst (build_next_beat toy_js \<lparr>bh_hostname = [], bh_env = (\<lambda>k. None), bh_wall = 0\<rparr> None input (''a'', ''b'', ''s'')))\<rparr>)]
      [(\<lparr>bh_hostname = [], bh_env = (\<lambda>k. None), bh_wall = 5\<rparr>, input, inp)] = (True, mem')
     \<and> map_of mem' ''a'' = Some st' \<and> as_last_recv_ms st' = Some 7"
proof -
  let ?in = "\<lparr>ei_agent_id = None, ei_host = None, ei_boot_id = None, ei_session_id = None, ei_driver_mode = None,
    ei_stop_hook_active = None, ei_goal_id = None, ei_goal_epoch = None, ei_state = None, ei_inbox_depth = None,
    ei_task_ids = None, ei_phase = Some ''keepalive'', ei_progress = False, ei_now = None, ei_publish = True,
    ei_min_interval_ms = None\<rparr>"
  let ?h = "\<lparr>bh_hostname = [], bh_env = (\<lambda>k. None), bh_wall = 0\<rparr>"
  let ?inp = "\<lparr>bi_now = 7, bi_presence = None, bi_saved = (\<lambda>i. None), bi_claim = None\<rparr>"
  obtain b nxt where b: "build_next_beat toy_js ?h None ?in (''a'', ''b'', ''s'') = (b, nxt)" by fastforce
  then have seq: "b_loop_seq b = 1"
    by (auto simp: build_next_beat_def next_clocks_def opt_default_def prev_seq_def Let_def)
  have iso: "je_iso toy_js t \<noteq> []" for t by (simp add: toy_js_def)
  let ?st = "(toy_state ''a'' 1)\<lparr>as_last_loop_seq := Some 1, as_last_beat := Some b\<rparr>"
  have "mem_ok [(''a'', ?st)]" "map_of [(''a'', ?st)] ''a'' = Some ?st" "as_boot_id ?st = Some ''b''" "as_session_id ?st = Some ''s''"
    "as_last_beat ?st = Some b" "as_last_loop_seq ?st = Some (b_loop_seq b)" "\<not> presence_changed None ?st"
    by (simp_all add: mem_ok_def toy_state_def new_state_def seq presence_changed_def)
  from keepalives_are_neutral [OF iso b this, of "[(\<lparr>bh_hostname = [], bh_env = (\<lambda>k. None), bh_wall = 5\<rparr>, ?in, ?inp)]" toy_dcfg]
  show ?thesis using b by (intro exI [of _ ?in] exI [of _ ?inp]) auto
qed

end
