(* ===== verification/A2A_Core.thy ===== *)
theory A2A_Core
  imports Taskboard_Core
begin

text \<open>
  The per-host core (src/a2a_core.ts): one set of shared connections and many agent sessions over them.
  Its operations overlap: \<open>start\<close>, \<open>stop\<close>, \<open>addSession\<close>, \<open>addUdsSession\<close> and \<open>removeSession\<close> run up to their next
  \<open>await\<close>, and anything can happen before they go on. Each synchronous segment is one operation on the
  state, and the relation \<open>core_step\<close> lets the segments of all calls interleave.

  A channel is a number; \<open>co_running\<close> holds the channels that have started and not stopped. What the
  channels, the MCP server and the connections answer is the choice of the step.
\<close>

subsection \<open>Configuration\<close>

definition host_char :: "char \<Rightarrow> bool" where
  "host_char c \<longleftrightarrow> is_lower c \<or> is_digit c \<or> c = CHR ''-''"

definition drop_dashes :: "string \<Rightarrow> string" where
  "drop_dashes s = dropWhile is_dash s"

definition drop_end_dashes :: "string \<Rightarrow> string" where
  "drop_end_dashes s = rev (dropWhile is_dash (rev s))"

definition safe_host_id :: "string \<Rightarrow> string" where
  "safe_host_id host =
     (let s = drop_end_dashes (drop_dashes (collapse (\<lambda>c. \<not> host_char c) (CHR ''-'') (js_lower host)));
          t = drop_end_dashes (take 55 (if s = [] then ''host'' else s))
      in if t = [] then ''host'' else t)"

definition js_trunc_or :: "jsnum \<Rightarrow> rat \<Rightarrow> jsnum" where
  "js_trunc_or n d = (case n of
     Fin q \<Rightarrow> if trunc_rat q = 0 then Fin d else Fin (of_int (trunc_rat q))
   | NaN \<Rightarrow> Fin d | _ \<Rightarrow> n)"

definition clamp_pool :: "jsnum \<Rightarrow> nat" where
  "clamp_pool n = (case js_trunc_or n 3 of
     Fin q \<Rightarrow> nat \<lfloor>max 1 (min 3 q)\<rfloor> | PosInf \<Rightarrow> 3 | _ \<Rightarrow> 1)"

datatype transport_auth = AuthNkey | AuthCreds | AuthNone

record core_opts =
  cc_devNoAuth :: bool
  cc_transportAuth :: "transport_auth option"
  cc_nkeyPath :: "string option"
  cc_credsPath :: "string option"

datatype authenticator = Anonymous | NkeyFile string | CredsFile string

definition path_set :: "string option \<Rightarrow> bool" where
  "path_set p \<longleftrightarrow> (case p of Some s \<Rightarrow> s \<noteq> [] | None \<Rightarrow> False)"

text \<open>How the shared connection authenticates; \<open>Inl\<close> where it refuses to connect.\<close>

definition connect_shared :: "core_opts \<Rightarrow> string + authenticator" where
  "connect_shared o' =
     (if cc_devNoAuth o' \<or> cc_transportAuth o' = Some AuthNone then Inr Anonymous
      else if path_set (cc_nkeyPath o') then Inr (NkeyFile (the (cc_nkeyPath o')))
      else if path_set (cc_credsPath o') then Inr (CredsFile (the (cc_credsPath o')))
      else Inl ''NATS creds required'')"

text \<open>Object spread, the later value winning, and the fields that the core writes last.\<close>

type_synonym opts_map = "(string \<times> jsval) list"

definition spread_opts :: "opts_map \<Rightarrow> opts_map \<Rightarrow> opts_map" where
  "spread_opts a b = foldl (\<lambda>m (k, v). AList.update k v m) a b"

definition core_fields :: "opts_map \<Rightarrow> opts_map \<Rightarrow> string \<Rightarrow> opts_map" where
  "core_fields stream_prefix shared agentId =
     [(''enabled'', JBool True), (''agentId'', JStr agentId)] @ stream_prefix @ shared"

definition build_session_opts :: "opts_map \<Rightarrow> opts_map \<Rightarrow> opts_map \<Rightarrow> string \<Rightarrow> opts_map \<Rightarrow> opts_map" where
  "build_session_opts sessionDefaults stream_prefix shared agentId opts =
     spread_opts (spread_opts sessionDefaults opts) (core_fields stream_prefix shared agentId)"

datatype tool_front = KaiFront | BrainFront | VaultFront | LauncherFront | ChannelFront

definition tool_route :: "(string \<Rightarrow> bool) \<Rightarrow> (string \<Rightarrow> bool) \<Rightarrow> (string \<Rightarrow> bool) \<Rightarrow> (string \<Rightarrow> bool) \<Rightarrow> string \<Rightarrow> tool_front" where
  "tool_route kai brain vault launcher name =
     (if kai name then KaiFront else if brain name then BrainFront else if vault name then VaultFront
      else if launcher name then LauncherFront else ChannelFront)"

subsection \<open>State\<close>

record session =
  ss_key :: string
  ss_agent :: string
  ss_chan :: nat
  ss_tool_only :: bool
  ss_epoch :: "nat option"

datatype add_error = CoreNotStarted | SessionExists | SessionStartFailed

text \<open>
  Where an \<open>addSession\<close> waits: for its channel to start, for the MCP server to connect, or for the channel
  it rolls back to stop, with the duplicate found before.
\<close>

datatype add_phase = Starting | Connecting | RollingBack bool

record adding =
  ad_agent :: string
  ad_uds :: bool
  ad_tool :: bool
  ad_epoch :: "nat option"
  ad_chan :: nat
  ad_phase :: add_phase

text \<open>\<open>startPromise\<close>: none, opening connections, cleaning up after a failure, fulfilled.\<close>

datatype boot = Off | Opening nat | Cleanup | Booted

text \<open>
  \<open>stopPromise\<close>: none, awaiting \<open>startPromise\<close>, awaiting the adds in flight, closing the sessions (those
  visited and the channel being stopped), draining, fulfilled.
\<close>

datatype halt = Live | WaitBoot | WaitAdds | Closing "string list" "nat option" | Draining | Halted

record core =
  co_boot :: boot
  co_halt :: halt
  co_started :: bool
  co_stopping :: bool
  co_nc :: bool
  co_redis :: bool
  co_open :: nat
  co_sessions :: "session list"
  co_adding :: "adding list"
  co_removing :: "nat list"
  co_running :: "nat set"
  co_next :: nat

definition core_new :: core where
  "core_new = \<lparr>co_boot = Off, co_halt = Live, co_started = False, co_stopping = False, co_nc = False, co_redis = False,
     co_open = 0, co_sessions = [], co_adding = [], co_removing = [], co_running = {}, co_next = 0\<rparr>"

definition usable :: "core \<Rightarrow> bool" where
  "usable c \<longleftrightarrow> co_started c \<and> \<not> co_stopping c \<and> co_nc c \<and> co_redis c"

definition has_owning_session :: "string \<Rightarrow> core \<Rightarrow> bool" where
  "has_owning_session agent c \<longleftrightarrow> list_ex (\<lambda>s. ss_agent s = agent \<and> \<not> ss_tool_only s) (co_sessions c)"

definition tool_only_key :: "string \<Rightarrow> nat option \<Rightarrow> string" where
  "tool_only_key agent epoch = agent @ ''#tool:'' @ (case epoch of Some e \<Rightarrow> nat_str e | None \<Rightarrow> ''undefined'')"

definition find_session :: "string \<Rightarrow> nat option \<Rightarrow> core \<Rightarrow> session option" where
  "find_session agent epoch c =
     (case epoch of
        Some e \<Rightarrow> find (\<lambda>s. ss_agent s = agent \<and> ss_epoch s = Some e) (co_sessions c)
      | None \<Rightarrow> (case find (\<lambda>s. ss_key s = agent) (co_sessions c) of
          Some s \<Rightarrow> Some s
        | None \<Rightarrow> find (\<lambda>s. ss_agent s = agent) (co_sessions c)))"

text \<open>\<open>Map.set\<close>: a key that exists keeps its place.\<close>

definition put_session :: "session \<Rightarrow> session list \<Rightarrow> session list" where
  "put_session s ss = (if ss_key s \<in> ss_key ` set ss then map (\<lambda>t. if ss_key t = ss_key s then s else t) ss else ss @ [s])"

subsection \<open>Start and stop\<close>

definition start_call :: "core \<Rightarrow> core" where
  "start_call c = (if co_halt c \<noteq> Live \<or> co_started c \<or> co_boot c \<noteq> Off then c else c\<lparr>co_boot := Opening 0\<rparr>)"

text \<open>The \<open>k\<close>-th of \<open>n\<close> connections has opened; after the last one the Redis client is made.\<close>

definition conn_opened :: "nat \<Rightarrow> nat \<Rightarrow> core \<Rightarrow> core" where
  "conn_opened n k c = c\<lparr>co_boot := Opening (Suc k), co_nc := True, co_open := Suc (co_open c), co_redis := (Suc k = n)\<rparr>"

definition boot_done :: "core \<Rightarrow> core" where
  "boot_done c = c\<lparr>co_boot := Booted, co_started := True\<rparr>"

definition boot_failed :: "core \<Rightarrow> core" where
  "boot_failed c = c\<lparr>co_boot := Cleanup\<rparr>"

definition boot_cleaned :: "core \<Rightarrow> core" where
  "boot_cleaned c = c\<lparr>co_boot := Off, co_nc := False, co_redis := False, co_open := 0\<rparr>"

definition stop_call :: "core \<Rightarrow> core" where
  "stop_call c = (if co_halt c \<noteq> Live then c else c\<lparr>co_stopping := True, co_halt := WaitBoot\<rparr>)"

definition next_to_close :: "string list \<Rightarrow> core \<Rightarrow> session option" where
  "next_to_close vs c = find (\<lambda>s. ss_key s \<notin> set vs) (co_sessions c)"

definition close_next :: "string list \<Rightarrow> core \<Rightarrow> core" where
  "close_next vs c = (case next_to_close vs c of
     Some s \<Rightarrow> c\<lparr>co_halt := Closing (vs @ [ss_key s]) (Some (ss_chan s))\<rparr>
   | None \<Rightarrow> c\<lparr>co_sessions := [], co_halt := Draining\<rparr>)"

definition closed_one :: "string list \<Rightarrow> nat \<Rightarrow> core \<Rightarrow> core" where
  "closed_one vs ch c = c\<lparr>co_running := co_running c - {ch}, co_halt := Closing vs None\<rparr>"

definition drained :: "core \<Rightarrow> core" where
  "drained c = c\<lparr>co_nc := False, co_redis := False, co_open := 0, co_started := False, co_halt := Halted\<rparr>"

subsection \<open>Adding and removing sessions\<close>

definition add_call :: "string \<Rightarrow> bool \<Rightarrow> bool \<Rightarrow> nat option \<Rightarrow> core \<Rightarrow> add_error + core" where
  "add_call agent uds tool epoch c =
     (if \<not> usable c then Inl CoreNotStarted
      else if \<not> (uds \<and> tool) \<and> has_owning_session agent c then Inl SessionExists
      else Inr (c\<lparr>co_adding := co_adding c @ [\<lparr>ad_agent = agent, ad_uds = uds, ad_tool = (uds \<and> tool),
             ad_epoch = (if uds then epoch else None), ad_chan = co_next c, ad_phase = Starting\<rparr>],
           co_next := Suc (co_next c)\<rparr>))"

definition session_of :: "adding \<Rightarrow> session" where
  "session_of a = \<lparr>ss_key = (if ad_tool a then tool_only_key (ad_agent a) (ad_epoch a) else ad_agent a),
     ss_agent = ad_agent a, ss_chan = ad_chan a, ss_tool_only = ad_tool a, ss_epoch = ad_epoch a\<rparr>"

definition add_duplicate :: "adding \<Rightarrow> core \<Rightarrow> bool" where
  "add_duplicate a c \<longleftrightarrow> (if ad_tool a then ss_key (session_of a) \<in> ss_key ` set (co_sessions c)
     else has_owning_session (ad_agent a) c)"

definition without_add :: "nat \<Rightarrow> adding list \<Rightarrow> adding list" where
  "without_add ch as = filter (\<lambda>a. ad_chan a \<noteq> ch) as"

definition set_phase :: "nat \<Rightarrow> add_phase \<Rightarrow> adding list \<Rightarrow> adding list" where
  "set_phase ch p as = map (\<lambda>a. if ad_chan a = ch then a\<lparr>ad_phase := p\<rparr> else a) as"

text \<open>The check after the last \<open>await\<close>: register the session, or begin to roll back.\<close>

definition commit_or_rollback :: "adding \<Rightarrow> bool \<Rightarrow> core \<Rightarrow> core" where
  "commit_or_rollback a ok c =
     (if ok \<and> usable c \<and> \<not> add_duplicate a c
      then c\<lparr>co_sessions := put_session (session_of a) (co_sessions c), co_adding := without_add (ad_chan a) (co_adding c)\<rparr>
      else c\<lparr>co_adding := set_phase (ad_chan a) (RollingBack (add_duplicate a c)) (co_adding c)\<rparr>)"

definition channel_started :: "adding \<Rightarrow> bool \<Rightarrow> core \<Rightarrow> core" where
  "channel_started a ok c =
     (let c1 = (if ok then c\<lparr>co_running := insert (ad_chan a) (co_running c)\<rparr> else c) in
      if ad_uds a \<and> ok then c1\<lparr>co_adding := set_phase (ad_chan a) Connecting (co_adding c1)\<rparr>
      else commit_or_rollback a ok c1)"

definition rolled_back :: "adding \<Rightarrow> core \<Rightarrow> core" where
  "rolled_back a c = c\<lparr>co_running := co_running c - {ad_chan a}, co_adding := without_add (ad_chan a) (co_adding c)\<rparr>"

definition rollback_result :: "adding \<Rightarrow> bool \<Rightarrow> core \<Rightarrow> add_error" where
  "rollback_result a dup c =
     (if \<not> usable c then CoreNotStarted
      else if (if ad_uds a then dup else has_owning_session (ad_agent a) c) then SessionExists
      else SessionStartFailed)"

definition remove_call :: "string \<Rightarrow> nat option \<Rightarrow> core \<Rightarrow> core option" where
  "remove_call agent epoch c =
     (case find_session agent epoch c of
        None \<Rightarrow> None
      | Some s \<Rightarrow>
          (if epoch \<noteq> None \<and> ss_epoch s \<noteq> None \<and> ss_epoch s \<noteq> epoch then None
           else Some (c\<lparr>co_sessions := filter (\<lambda>t. ss_key t \<noteq> ss_key s) (co_sessions c),
                        co_removing := co_removing c @ [ss_chan s]\<rparr>)))"

definition removed :: "nat \<Rightarrow> core \<Rightarrow> core" where
  "removed ch c = c\<lparr>co_running := co_running c - {ch}, co_removing := remove1 ch (co_removing c)\<rparr>"

subsection \<open>The interleaving\<close>

text \<open>
  A channel only starts for an id that is a token: \<open>A2AChannel.start\<close> refuses every other one as an
  invalid configuration.
\<close>

inductive core_step :: "nat \<Rightarrow> core \<Rightarrow> core \<Rightarrow> bool" for n where
  Start: "core_step n c (start_call c)"
| Conn: "co_boot c = Opening k \<Longrightarrow> k < n \<Longrightarrow> core_step n c (conn_opened n k c)"
| BootFail: "co_boot c = Opening k \<Longrightarrow> core_step n c (boot_failed c)"
| BootClean: "co_boot c = Cleanup \<Longrightarrow> core_step n c (boot_cleaned c)"
| BootDone: "co_boot c = Opening n \<Longrightarrow> core_step n c (boot_done c)"
| Add: "add_call agent uds tool epoch c = Inr c' \<Longrightarrow> core_step n c c'"
| Started: "a \<in> set (co_adding c) \<Longrightarrow> ad_phase a = Starting \<Longrightarrow> ok \<longrightarrow> is_token (ad_agent a)
    \<Longrightarrow> core_step n c (channel_started a ok c)"
| Connected: "a \<in> set (co_adding c) \<Longrightarrow> ad_phase a = Connecting \<Longrightarrow> core_step n c (commit_or_rollback a ok c)"
| RolledBack: "a \<in> set (co_adding c) \<Longrightarrow> ad_phase a = RollingBack dup \<Longrightarrow> core_step n c (rolled_back a c)"
| Remove: "remove_call agent epoch c = Some c' \<Longrightarrow> core_step n c c'"
| Removed: "ch \<in> set (co_removing c) \<Longrightarrow> core_step n c (removed ch c)"
| Stop: "core_step n c (stop_call c)"
| BootWaited: "co_halt c = WaitBoot \<Longrightarrow> co_boot c \<in> {Off, Booted} \<Longrightarrow> core_step n c (c\<lparr>co_halt := WaitAdds\<rparr>)"
| AddsWaited: "co_halt c = WaitAdds \<Longrightarrow> co_adding c = [] \<Longrightarrow> core_step n c (c\<lparr>co_halt := Closing [] None\<rparr>)"
| Close: "co_halt c = Closing vs None \<Longrightarrow> core_step n c (close_next vs c)"
| Closed: "co_halt c = Closing vs (Some ch) \<Longrightarrow> core_step n c (closed_one vs ch c)"
| Drained: "co_halt c = Draining \<Longrightarrow> core_step n c (drained c)"

inductive reachable :: "nat \<Rightarrow> core \<Rightarrow> bool" for n where
  Init: "reachable n core_new"
| Step: "reachable n c \<Longrightarrow> core_step n c c' \<Longrightarrow> reachable n c'"

subsection \<open>Who owns a channel\<close>

definition owners :: "core \<Rightarrow> nat list" where
  "owners c = map ss_chan (co_sessions c) @ map ad_chan (co_adding c) @ co_removing c"

definition key_ok :: "session \<Rightarrow> bool" where
  "key_ok s \<longleftrightarrow> is_token (ss_agent s)
     \<and> ss_key s = (if ss_tool_only s then tool_only_key (ss_agent s) (ss_epoch s) else ss_agent s)"

definition own_inv :: "core \<Rightarrow> bool" where
  "own_inv c \<longleftrightarrow> distinct (map ss_key (co_sessions c)) \<and> (\<forall>s \<in> set (co_sessions c). key_ok s)
     \<and> distinct (owners c) \<and> (\<forall>ch \<in> set (owners c). ch < co_next c) \<and> co_running c \<subseteq> set (owners c)
     \<and> (\<forall>a \<in> set (co_adding c). ad_phase a = Connecting \<longrightarrow> is_token (ad_agent a) \<and> ad_chan a \<in> co_running c)"

definition boot_inv :: "nat \<Rightarrow> core \<Rightarrow> bool" where
  "boot_inv n c \<longleftrightarrow>
     (co_boot c = Off \<longrightarrow> \<not> co_started c \<and> \<not> co_nc c \<and> \<not> co_redis c \<and> co_open c = 0)
     \<and> (\<forall>k. co_boot c = Opening k \<longrightarrow> \<not> co_started c \<and> k \<le> n \<and> co_open c = k \<and> (co_nc c \<longleftrightarrow> 0 < k) \<and> (co_redis c \<longleftrightarrow> 0 < k \<and> k = n))
     \<and> (co_boot c = Cleanup \<longrightarrow> \<not> co_started c)
     \<and> (co_boot c = Booted \<and> co_halt c \<noteq> Halted \<longrightarrow> co_started c \<and> co_nc c \<and> co_redis c \<and> co_open c = n)
     \<and> (co_halt c = Halted \<longrightarrow> \<not> co_started c \<and> \<not> co_nc c \<and> \<not> co_redis c \<and> co_open c = 0)
     \<and> (co_halt c \<notin> {Live, WaitBoot} \<longrightarrow> co_boot c \<in> {Off, Booted})
     \<and> (co_stopping c \<longleftrightarrow> co_halt c \<noteq> Live)"

definition visited_keys :: "core \<Rightarrow> string set" where
  "visited_keys c = (case co_halt c of Closing vs _ \<Rightarrow> set vs | _ \<Rightarrow> {})"

definition being_closed :: "core \<Rightarrow> nat option" where
  "being_closed c = (case co_halt c of Closing _ cur \<Rightarrow> cur | _ \<Rightarrow> None)"

definition close_inv :: "core \<Rightarrow> bool" where
  "close_inv c \<longleftrightarrow>
     (co_halt c \<notin> {Live, WaitBoot, WaitAdds} \<longrightarrow> co_adding c = [])
     \<and> (co_halt c \<in> {Live, WaitBoot, WaitAdds} \<longrightarrow> (\<forall>s \<in> set (co_sessions c). ss_chan s \<in> co_running c))
     \<and> (\<forall>s \<in> set (co_sessions c). ss_key s \<in> visited_keys c \<longrightarrow> being_closed c \<noteq> Some (ss_chan s)
           \<longrightarrow> ss_chan s \<notin> co_running c)
     \<and> (co_halt c \<in> {Draining, Halted} \<longrightarrow> co_sessions c = [])"

lemma set_phase_chans [simp]: "map ad_chan (set_phase ch p as) = map ad_chan as"
  by (auto simp: set_phase_def)

lemma set_phase_chan_set [simp]: "ad_chan ` set (set_phase ch p as) = ad_chan ` set as"
  by (metis set_phase_chans set_map)

lemma without_add_set: "set (without_add ch as) = {a \<in> set as. ad_chan a \<noteq> ch}"
  by (simp add: without_add_def)

lemma without_add_chans: "map ad_chan (without_add ch as) = filter (\<lambda>x. x \<noteq> ch) (map ad_chan as)"
  by (simp add: without_add_def filter_map o_def)

lemma tool_only_key_no_token: "\<not> is_token (tool_only_key agent epoch)"
  by (simp add: tool_only_key_def is_token_def token_char_def is_lower_def is_digit_def char_in_def)

lemma fresh_key:
  assumes "\<forall>s \<in> set (co_sessions c). key_ok s" "is_token (ad_agent a)" "\<not> add_duplicate a c"
  shows "ss_key (session_of a) \<notin> ss_key ` set (co_sessions c)"
proof (cases "ad_tool a")
  case True
  then show ?thesis using assms(3) by (simp add: add_duplicate_def)
next
  case False
  have "ss_key s \<noteq> ad_agent a" if "s \<in> set (co_sessions c)" for s
    using that assms False tool_only_key_no_token [of "ss_agent s" "ss_epoch s"]
    by (auto simp: add_duplicate_def has_owning_session_def list_ex_iff key_ok_def split: if_splits)
  then have "ad_agent a \<notin> ss_key ` set (co_sessions c)" by fastforce
  then show ?thesis using False by (simp add: session_of_def)
qed

lemma own_invD:
  assumes "own_inv c"
  shows "distinct (map ss_key (co_sessions c))" "\<And>s. s \<in> set (co_sessions c) \<Longrightarrow> key_ok s"
    "distinct (owners c)" "\<And>ch. ch \<in> set (owners c) \<Longrightarrow> ch < co_next c" "co_running c \<subseteq> set (owners c)"
    "\<And>a. a \<in> set (co_adding c) \<Longrightarrow> ad_phase a = Connecting \<Longrightarrow> is_token (ad_agent a) \<and> ad_chan a \<in> co_running c"
  using assms by (auto simp: own_inv_def)

lemma own_inv_phase:
  assumes "own_inv c" "p = Connecting \<Longrightarrow> is_token (ad_agent a) \<and> ad_chan a \<in> co_running c" "a \<in> set (co_adding c)"
  shows "own_inv (c\<lparr>co_adding := set_phase (ad_chan a) p (co_adding c)\<rparr>)"
proof -
  have "is_token (ad_agent b) \<and> ad_chan b \<in> co_running c"
    if "b \<in> set (set_phase (ad_chan a) p (co_adding c))" "ad_phase b = Connecting" for b
  proof -
    from that(1) obtain d where d: "d \<in> set (co_adding c)"
      "b = (if ad_chan d = ad_chan a then d\<lparr>ad_phase := p\<rparr> else d)" by (auto simp: set_phase_def)
    have "d = a" if "ad_chan d = ad_chan a"
      using own_invD(3) [OF assms(1)] d(1) assms(3) that by (auto simp: owners_def distinct_map inj_on_def)
    then show ?thesis using d that(2) assms(2) own_invD(6) [OF assms(1)] by (auto split: if_splits)
  qed
  then show ?thesis using assms(1) by (simp add: own_inv_def owners_def)
qed

lemma own_inv_commit:
  assumes inv: "own_inv c" and a: "a \<in> set (co_adding c)"
    and ok: "ok \<Longrightarrow> is_token (ad_agent a) \<and> ad_chan a \<in> co_running c"
  shows "own_inv (commit_or_rollback a ok c)"
proof (cases "ok \<and> usable c \<and> \<not> add_duplicate a c")
  case True
  then have new: "ss_key (session_of a) \<notin> ss_key ` set (co_sessions c)"
    using fresh_key own_invD(2) [OF inv] ok by blast
  have key: "key_ok (session_of a)" using ok True by (simp add: key_ok_def session_of_def)
  have ch: "ss_chan (session_of a) = ad_chan a" by (simp add: session_of_def)
  let ?c = "c\<lparr>co_sessions := co_sessions c @ [session_of a], co_adding := without_add (ad_chan a) (co_adding c)\<rparr>"
  have "set (owners ?c) = set (owners c)"
    using a by (auto simp: owners_def ch without_add_set)
  moreover have "distinct (owners ?c)"
    using own_invD(3) [OF inv] a by (auto simp: owners_def ch without_add_chans without_add_set)
  moreover have "distinct (map ss_key (co_sessions ?c))" using own_invD(1) [OF inv] new by simp
  ultimately have "own_inv ?c"
    using own_invD [OF inv] key by (auto simp: own_inv_def without_add_set)
  then show ?thesis using True new by (simp add: commit_or_rollback_def put_session_def)
next
  case False
  then show ?thesis
    using own_inv_phase [OF inv _ a, of "RollingBack (add_duplicate a c)"] by (simp add: commit_or_rollback_def False)
qed

lemma own_inv_running_insert:
  assumes "own_inv c" "a \<in> set (co_adding c)"
  shows "own_inv (c\<lparr>co_running := insert (ad_chan a) (co_running c)\<rparr>)"
  using assms by (auto simp: own_inv_def owners_def)

lemma own_inv_started:
  assumes "own_inv c" "a \<in> set (co_adding c)" "ok \<longrightarrow> is_token (ad_agent a)"
  shows "own_inv (channel_started a ok c)"
proof -
  let ?c1 = "if ok then c\<lparr>co_running := insert (ad_chan a) (co_running c)\<rparr> else c"
  have 1: "own_inv ?c1" using own_inv_running_insert [OF assms(1,2)] assms(1) by simp
  have 2: "a \<in> set (co_adding ?c1)" using assms(2) by simp
  have 3: "own_inv (?c1\<lparr>co_adding := set_phase (ad_chan a) Connecting (co_adding ?c1)\<rparr>)" if ok
    by (rule own_inv_phase [OF 1 _ 2]) (use that assms(3) in simp)
  have 4: "own_inv (commit_or_rollback a ok ?c1)"
    by (rule own_inv_commit [OF 1 2]) (use assms(3) in auto)
  show ?thesis using 3 4 by (auto simp: channel_started_def Let_def)
qed

lemma own_inv_stopped_channel:
  "own_inv c \<Longrightarrow> ch \<notin> ad_chan ` set (co_adding c) \<Longrightarrow> own_inv (c\<lparr>co_running := co_running c - {ch}\<rparr>)"
  by (auto simp: own_inv_def owners_def)

lemma own_inv_rolled_back:
  assumes "own_inv c" "a \<in> set (co_adding c)"
  shows "own_inv (rolled_back a c)"
proof -
  let ?c = "rolled_back a c"
  have "distinct (owners ?c)" "set (owners ?c) = set (owners c) - {ad_chan a}"
    using own_invD(3) [OF assms(1)] assms(2)
    by (auto simp: owners_def rolled_back_def without_add_chans without_add_set)
  then show ?thesis
    using own_invD [OF assms(1)] by (auto simp: own_inv_def rolled_back_def without_add_set)
qed

lemma find_session_in: "find_session agent epoch c = Some s \<Longrightarrow> s \<in> set (co_sessions c)"
  by (auto simp: find_session_def find_Some_iff in_set_conv_nth split: option.splits)

lemma remove_callD:
  assumes "remove_call agent epoch c = Some c'"
  obtains s where "s \<in> set (co_sessions c)"
    "c' = c\<lparr>co_sessions := filter (\<lambda>t. ss_key t \<noteq> ss_key s) (co_sessions c), co_removing := co_removing c @ [ss_chan s]\<rparr>"
  using assms by (auto simp: remove_call_def dest: find_session_in split: option.splits if_splits)

lemma own_inv_remove:
  assumes inv: "own_inv c" and "remove_call agent epoch c = Some c'"
  shows "own_inv c'"
proof -
  obtain s where s: "s \<in> set (co_sessions c)" "co_sessions c' = filter (\<lambda>t. ss_key t \<noteq> ss_key s) (co_sessions c)"
    "co_removing c' = co_removing c @ [ss_chan s]" "co_adding c' = co_adding c" "co_running c' = co_running c"
    "co_next c' = co_next c"
    using assms(2) by (auto elim: remove_callD)
  have same: "t = s" if "t \<in> set (co_sessions c)" "ss_key t = ss_key s" for t
    using own_invD(1) [OF inv] s(1) that by (auto simp: distinct_map inj_on_def)
  have d: "distinct (map ss_chan (co_sessions c))" using own_invD(3) [OF inv] by (simp add: owners_def)
  then have chan: "ss_chan t \<noteq> ss_chan s" if "t \<in> set (co_sessions c)" "ss_key t \<noteq> ss_key s" for t
    using s(1) that by (auto simp: distinct_map inj_on_def)
  have "set (owners c') = set (owners c)"
    using s same by (auto simp: owners_def image_iff)
  moreover have "ss_chan s \<notin> ss_chan ` set (co_sessions c')" using chan by (force simp: s(2))
  then have "distinct (owners c')"
    using own_invD(3) [OF inv] s by (auto simp: owners_def distinct_map_filter)
  moreover have "distinct (map ss_key (co_sessions c'))"
    using own_invD(1) [OF inv] by (simp add: s distinct_map_filter)
  ultimately show ?thesis
    using own_invD [OF inv] by (auto simp: own_inv_def s)
qed

lemma own_inv_removed:
  assumes "own_inv c" "ch \<in> set (co_removing c)"
  shows "own_inv (removed ch c)"
proof -
  have d: "distinct (owners c)" using own_invD(3) [OF assms(1)] .
  then have "set (owners (removed ch c)) = set (owners c) - {ch}" "distinct (owners (removed ch c))"
    using assms(2) by (auto simp: owners_def removed_def)
  moreover have "ch \<notin> ad_chan ` set (co_adding c)" using d assms(2) by (auto simp: owners_def)
  ultimately show ?thesis using own_invD [OF assms(1)] by (auto simp: own_inv_def removed_def)
qed

lemma add_callD:
  assumes "add_call agent uds tool epoch c = Inr c'"
  obtains a where "usable c" "c' = c\<lparr>co_adding := co_adding c @ [a], co_next := Suc (co_next c)\<rparr>"
    "ad_chan a = co_next c" "ad_phase a = Starting"
  using assms by (auto simp: add_call_def split: if_splits)

lemma own_inv_add:
  assumes inv: "own_inv c" and "add_call agent uds tool epoch c = Inr c'"
  shows "own_inv c'"
proof -
  obtain a where a: "c' = c\<lparr>co_adding := co_adding c @ [a], co_next := Suc (co_next c)\<rparr>"
    "ad_chan a = co_next c" "ad_phase a = Starting"
    using assms(2) by (auto elim: add_callD)
  have "co_next c \<notin> set (owners c)" using own_invD(4) [OF inv] by blast
  then have "distinct (owners c')" "set (owners c') = insert (co_next c) (set (owners c))"
    using own_invD(3) [OF inv] a by (auto simp: owners_def)
  then show ?thesis using own_invD [OF inv] a by (auto simp: own_inv_def less_Suc_eq)
qed

lemma own_inv_cong:
  "co_sessions c' = co_sessions c \<Longrightarrow> co_adding c' = co_adding c \<Longrightarrow> co_removing c' = co_removing c
     \<Longrightarrow> co_running c' = co_running c \<Longrightarrow> co_next c' = co_next c \<Longrightarrow> own_inv c' = own_inv c"
  by (simp add: own_inv_def owners_def)

subsection \<open>The order of a shutdown\<close>

lemma boot_inv_cong:
  "co_boot c' = co_boot c \<Longrightarrow> co_halt c' = co_halt c \<Longrightarrow> co_started c' = co_started c \<Longrightarrow> co_nc c' = co_nc c
     \<Longrightarrow> co_redis c' = co_redis c \<Longrightarrow> co_open c' = co_open c \<Longrightarrow> co_stopping c' = co_stopping c
     \<Longrightarrow> boot_inv n c' = boot_inv n c"
  by (simp add: boot_inv_def)

lemma commit_boot:
  "co_boot (commit_or_rollback a ok c) = co_boot c" "co_halt (commit_or_rollback a ok c) = co_halt c"
  "co_started (commit_or_rollback a ok c) = co_started c" "co_nc (commit_or_rollback a ok c) = co_nc c"
  "co_redis (commit_or_rollback a ok c) = co_redis c" "co_open (commit_or_rollback a ok c) = co_open c"
  "co_stopping (commit_or_rollback a ok c) = co_stopping c" "co_removing (commit_or_rollback a ok c) = co_removing c"
  "co_running (commit_or_rollback a ok c) = co_running c"
  by (simp_all add: commit_or_rollback_def)

lemma started_boot:
  "co_boot (channel_started a ok c) = co_boot c" "co_halt (channel_started a ok c) = co_halt c"
  "co_started (channel_started a ok c) = co_started c" "co_nc (channel_started a ok c) = co_nc c"
  "co_redis (channel_started a ok c) = co_redis c" "co_open (channel_started a ok c) = co_open c"
  "co_stopping (channel_started a ok c) = co_stopping c" "co_removing (channel_started a ok c) = co_removing c"
  "co_running (channel_started a ok c) = (if ok then insert (ad_chan a) (co_running c) else co_running c)"
  by (simp_all add: channel_started_def commit_boot Let_def)

lemma boot_inv_step:
  assumes "core_step n c c'" "boot_inv n c" "0 < n"
  shows "boot_inv n c'"
  using assms
proof (cases rule: core_step.cases)
  case (Add agent uds tool epoch)
  then obtain a where "c' = c\<lparr>co_adding := co_adding c @ [a], co_next := Suc (co_next c)\<rparr>" by (blast elim: add_callD)
  then show ?thesis using assms(2) by (simp add: boot_inv_def)
next
  case (Started a ok)
  then show ?thesis using assms(2) by (simp add: boot_inv_cong [OF started_boot(1-7)])
next
  case (Connected a ok)
  then show ?thesis using assms(2) by (simp add: boot_inv_cong [OF commit_boot(1-7)])
next
  case (Remove agent epoch)
  then obtain ss rm where "c' = c\<lparr>co_sessions := ss, co_removing := rm\<rparr>" by (blast elim: remove_callD)
  then show ?thesis using assms(2) by (simp add: boot_inv_def)
next
  case (Close vs)
  then show ?thesis using assms(2) by (simp add: boot_inv_def close_next_def split: option.split)
next
  case Start
  then show ?thesis using assms(2,3) by (simp add: boot_inv_def start_call_def)
next
  case (Conn k)
  then show ?thesis using assms(2) by (simp add: boot_inv_def conn_opened_def) auto
next
  case (BootFail k)
  then show ?thesis using assms(2) by (auto simp: boot_inv_def boot_failed_def)
next
  case BootClean
  then show ?thesis using assms(2) by (simp add: boot_inv_def boot_cleaned_def)
next
  case BootDone
  then show ?thesis using assms(2,3) by (simp add: boot_inv_def boot_done_def) blast
next
  case (RolledBack a dup)
  then show ?thesis using assms(2) by (simp add: boot_inv_def rolled_back_def)
next
  case (Removed ch)
  then show ?thesis using assms(2) by (simp add: boot_inv_def removed_def)
next
  case Stop
  then show ?thesis using assms(2) by (simp add: boot_inv_def stop_call_def)
next
  case BootWaited
  then show ?thesis using assms(2) by (simp add: boot_inv_def)
next
  case AddsWaited
  then show ?thesis using assms(2) by (simp add: boot_inv_def)
next
  case (Closed vs ch)
  then show ?thesis using assms(2) by (simp add: boot_inv_def closed_one_def)
next
  case Drained
  then show ?thesis using assms(2) by (auto simp: boot_inv_def drained_def)
qed

lemma next_to_close_None: "next_to_close vs c = None \<longleftrightarrow> (\<forall>s \<in> set (co_sessions c). ss_key s \<in> set vs)"
  by (auto simp: next_to_close_def find_None_iff)

lemma next_to_close_Some: "next_to_close vs c = Some s \<Longrightarrow> s \<in> set (co_sessions c) \<and> ss_key s \<notin> set vs"
  by (auto simp: next_to_close_def find_Some_iff)

lemma own_inv_close:
  assumes "own_inv c" "close_inv c" "co_halt c = Closing vs None"
  shows "own_inv (close_next vs c)"
proof (cases "next_to_close vs c")
  case None
  have "ss_chan s \<notin> co_running c" if "s \<in> set (co_sessions c)" for s
    using that None assms(2,3) by (auto simp: close_inv_def visited_keys_def being_closed_def next_to_close_None)
  moreover have "distinct (owners (close_next vs c))" "set (owners (close_next vs c)) \<subseteq> set (owners c)"
    using own_invD(3) [OF assms(1)] by (auto simp: owners_def close_next_def None)
  ultimately show ?thesis
    using own_invD [OF assms(1)] by (auto simp: own_inv_def close_next_def None owners_def)
next
  case (Some s)
  then show ?thesis using assms(1) by (simp add: close_next_def own_inv_def owners_def)
qed

lemma own_inv_step:
  assumes "core_step n c c'" "own_inv c" "close_inv c"
  shows "own_inv c'"
  using assms(1)
proof (cases rule: core_step.cases)
  case (Close vs)
  then show ?thesis using own_inv_close [OF assms(2,3)] by simp
next
  case (Closed vs ch)
  then have "co_adding c = []" using assms(3) by (simp add: close_inv_def)
  then have "own_inv (c\<lparr>co_running := co_running c - {ch}\<rparr>)"
    using own_inv_stopped_channel [OF assms(2)] by simp
  then show ?thesis using Closed by (simp add: closed_one_def own_inv_def owners_def)
next
  case (Started a ok)
  then show ?thesis using own_inv_started [OF assms(2)] by simp
next
  case (Connected a ok)
  then show ?thesis using own_inv_commit [OF assms(2)] own_invD(6) [OF assms(2)] by simp
next
  case (RolledBack a dup)
  then show ?thesis using own_inv_rolled_back [OF assms(2)] by simp
next
  case (Remove agent epoch)
  then show ?thesis using own_inv_remove [OF assms(2)] by simp
next
  case (Removed ch)
  then show ?thesis using own_inv_removed [OF assms(2)] by simp
next
  case (Add agent uds tool epoch)
  then show ?thesis using own_inv_add [OF assms(2)] by simp
qed (use assms(2) in \<open>simp_all add: own_inv_def owners_def start_call_def conn_opened_def boot_failed_def
      boot_cleaned_def boot_done_def stop_call_def drained_def\<close>)

lemma close_inv_live:
  assumes "co_halt c \<in> {Live, WaitBoot, WaitAdds}"
  shows "close_inv c \<longleftrightarrow> (\<forall>s \<in> set (co_sessions c). ss_chan s \<in> co_running c)"
  using assms by (auto simp: close_inv_def visited_keys_def)

lemma stopping_not_usable: "boot_inv n c \<Longrightarrow> co_halt c \<noteq> Live \<Longrightarrow> \<not> usable c"
  by (auto simp: boot_inv_def usable_def)

lemma adding_open: "close_inv c \<Longrightarrow> a \<in> set (co_adding c) \<Longrightarrow> co_halt c \<in> {Live, WaitBoot, WaitAdds}"
  by (auto simp: close_inv_def)

lemma commit_sessions:
  "set (co_sessions (commit_or_rollback a ok c)) \<subseteq> set (co_sessions c) \<union> {session_of a}"
  "\<not> ok \<Longrightarrow> co_sessions (commit_or_rollback a ok c) = co_sessions c"
  by (auto simp: commit_or_rollback_def put_session_def)

lemma close_inv_commit:
  assumes "close_inv c" "a \<in> set (co_adding c)" "ok \<Longrightarrow> ad_chan a \<in> co_running c"
  shows "close_inv (commit_or_rollback a ok c)"
proof -
  note live = adding_open [OF assms(1,2)]
  then have "ss_chan s \<in> co_running c" if "s \<in> set (co_sessions (commit_or_rollback a ok c))" for s
    using that live assms(1,3) commit_sessions(1) [of a ok c] commit_sessions(2) [of ok a c] by (cases ok) (auto simp: close_inv_live session_of_def)
  moreover have "co_halt (commit_or_rollback a ok c) \<in> {Live, WaitBoot, WaitAdds}" using live by (simp add: commit_boot)
  ultimately show ?thesis by (simp add: close_inv_live commit_boot)
qed

lemma close_inv_started:
  assumes "close_inv c" "a \<in> set (co_adding c)"
  shows "close_inv (channel_started a ok c)"
proof -
  let ?c1 = "if ok then c\<lparr>co_running := insert (ad_chan a) (co_running c)\<rparr> else c"
  have live: "co_halt ?c1 \<in> {Live, WaitBoot, WaitAdds}" using adding_open [OF assms] by simp
  then have 1: "close_inv ?c1" using assms(1) by (auto simp: close_inv_live)
  have "close_inv (commit_or_rollback a ok ?c1)" using close_inv_commit [OF 1] assms(2) by auto
  moreover have "close_inv (?c1\<lparr>co_adding := set_phase (ad_chan a) Connecting (co_adding ?c1)\<rparr>)"
    using 1 live by (simp add: close_inv_live)
  ultimately show ?thesis by (auto simp: channel_started_def Let_def)
qed

lemma session_chans:
  assumes "own_inv c" "s \<in> set (co_sessions c)"
  shows "t \<in> set (co_sessions c) \<Longrightarrow> ss_chan t = ss_chan s \<Longrightarrow> t = s" "ss_chan s \<notin> ad_chan ` set (co_adding c)"
    "ss_chan s \<notin> set (co_removing c)"
  using own_invD(3) [OF assms(1)] assms(2) by (auto simp: owners_def distinct_map inj_on_def)

text \<open>Stopping a channel that no session owns, or the one that is being closed.\<close>

lemma close_inv_stop_chan:
  assumes "close_inv c" "ch \<notin> ss_chan ` set (co_sessions c)"
  shows "close_inv (c\<lparr>co_running := co_running c - {ch}\<rparr>)"
  using assms by (fastforce simp: close_inv_def visited_keys_def being_closed_def)

lemma close_inv_close:
  assumes "close_inv c" "co_halt c = Closing vs None" "own_inv c"
  shows "close_inv (close_next vs c)"
proof (cases "next_to_close vs c")
  case None
  then show ?thesis using assms by (simp add: close_inv_def close_next_def visited_keys_def)
next
  case (Some s)
  have "t = s" if "t \<in> set (co_sessions c)" "ss_key t = ss_key s" for t
    using that own_invD(1) [OF assms(3)] next_to_close_Some [OF Some] by (auto simp: distinct_map inj_on_def)
  then show ?thesis
    using assms(1,2) Some by (auto simp: close_inv_def close_next_def visited_keys_def being_closed_def)
qed

lemma close_inv_closed:
  assumes "close_inv c" "co_halt c = Closing vs (Some ch)"
  shows "close_inv (closed_one vs ch c)"
  using assms by (auto simp: close_inv_def closed_one_def visited_keys_def being_closed_def)

lemma close_inv_step:
  assumes "core_step n c c'" "own_inv c" "boot_inv n c" "close_inv c"
  shows "close_inv c'"
  using assms(1)
proof (cases rule: core_step.cases)
  case Start
  then show ?thesis using assms(4) by (simp add: close_inv_def start_call_def visited_keys_def being_closed_def)
next
  case (Add agent uds tool epoch)
  then obtain a where "c' = c\<lparr>co_adding := co_adding c @ [a], co_next := Suc (co_next c)\<rparr>" "usable c" by (blast elim: add_callD)
  moreover from this(2) have "co_halt c = Live" using stopping_not_usable [OF assms(3)] by blast
  ultimately show ?thesis using assms(4) by (simp add: close_inv_live)
next
  case (Started a ok)
  then show ?thesis using close_inv_started [OF assms(4)] by simp
next
  case (Connected a ok)
  then show ?thesis using close_inv_commit [OF assms(4)] own_invD(6) [OF assms(2)] by simp
next
  case (RolledBack a dup)
  have "co_halt c \<in> {Live, WaitBoot, WaitAdds}" by (rule adding_open [OF assms(4) RolledBack(2)])
  then show ?thesis
    using assms(4) session_chans(2) [OF assms(2)] RolledBack by (auto simp: close_inv_live rolled_back_def)
next
  case (Remove agent epoch)
  then obtain s where "s \<in> set (co_sessions c)"
    "c' = c\<lparr>co_sessions := filter (\<lambda>t. ss_key t \<noteq> ss_key s) (co_sessions c), co_removing := co_removing c @ [ss_chan s]\<rparr>"
    by (rule remove_callD)
  then show ?thesis using assms(4) by (auto simp: close_inv_def visited_keys_def being_closed_def)
next
  case (Removed ch)
  then have "ch \<notin> ss_chan ` set (co_sessions c)" using session_chans(3) [OF assms(2)] by auto
  then show ?thesis
    using close_inv_stop_chan [OF assms(4)] Removed by (simp add: close_inv_def removed_def visited_keys_def being_closed_def)
next
  case Stop
  then show ?thesis using assms(4) by (cases "co_halt c = Live") (simp_all add: stop_call_def close_inv_live)
next
  case BootWaited
  then show ?thesis using assms(4) by (simp add: close_inv_live)
next
  case AddsWaited
  then show ?thesis using assms(4) by (simp add: close_inv_def visited_keys_def)
next
  case (Close vs)
  then show ?thesis using close_inv_close [OF assms(4) _ assms(2)] by simp
next
  case (Closed vs ch)
  then show ?thesis using close_inv_closed [OF assms(4)] by simp
next
  case Drained
  then show ?thesis using assms(4) by (simp add: close_inv_def drained_def visited_keys_def)
qed (use assms(4) in \<open>simp_all add: close_inv_def conn_opened_def boot_failed_def boot_cleaned_def boot_done_def
      visited_keys_def being_closed_def\<close>)

definition core_inv :: "nat \<Rightarrow> core \<Rightarrow> bool" where
  "core_inv n c \<longleftrightarrow> own_inv c \<and> boot_inv n c \<and> close_inv c"

lemma core_inv_reachable: "reachable n c \<Longrightarrow> 0 < n \<Longrightarrow> core_inv n c"
proof (induction rule: reachable.induct)
  case Init
  then show ?case
    by (simp add: core_inv_def own_inv_def boot_inv_def close_inv_def core_new_def owners_def)
next
  case (Step c c')
  then show ?case
    using own_inv_step boot_inv_step close_inv_step by (auto simp: core_inv_def)
qed

lemma clamp_pool_bounds: "0 < clamp_pool p" "clamp_pool p \<le> 3"
proof -
  have "0 < nat \<lfloor>q\<rfloor> \<and> nat \<lfloor>q\<rfloor> \<le> 3" if "1 \<le> q" "q \<le> 3" for q :: rat
  proof -
    obtain z where z: "z = \<lfloor>q\<rfloor>" by simp
    have "1 \<le> z" using that(1) by (simp add: z le_floor_iff)
    moreover have "z \<le> 3" using floor_mono [OF that(2)] by (simp add: z)
    ultimately show ?thesis unfolding z [symmetric] by simp
  qed
  from this [of "max 1 (min 3 _)"] have "0 < nat \<lfloor>max 1 (min 3 q)\<rfloor> \<and> nat \<lfloor>max 1 (min 3 q)\<rfloor> \<le> 3" for q :: rat
    by simp
  then show "0 < clamp_pool p" "clamp_pool p \<le> 3"
    by (auto simp: clamp_pool_def split: jsnum.split)
qed

subsection \<open>A shutdown ends\<close>

text \<open>
  What is left to do after \<open>stop\<close>: each phase counts for more than what it can still turn into, so every
  step that changes the state lowers the sum.
\<close>

definition boot_work :: "nat \<Rightarrow> boot \<Rightarrow> nat" where
  "boot_work n b = (case b of Opening k \<Rightarrow> n - k + 2 | Cleanup \<Rightarrow> 1 | _ \<Rightarrow> 0)"

definition halt_work :: "halt \<Rightarrow> nat" where
  "halt_work h = (case h of Live \<Rightarrow> 6 | WaitBoot \<Rightarrow> 5 | WaitAdds \<Rightarrow> 4 | Closing _ (Some _) \<Rightarrow> 3 | Closing _ None \<Rightarrow> 2
     | Draining \<Rightarrow> 1 | Halted \<Rightarrow> 0)"

definition phase_work :: "add_phase \<Rightarrow> nat" where
  "phase_work p = (case p of Starting \<Rightarrow> 3 | Connecting \<Rightarrow> 2 | RollingBack _ \<Rightarrow> 1)"

definition stop_work :: "nat \<Rightarrow> core \<Rightarrow> nat" where
  "stop_work n c = boot_work n (co_boot c) + halt_work (co_halt c)
     + (\<Sum>a\<leftarrow>co_adding c. phase_work (ad_phase a))
     + (\<Sum>s\<leftarrow>co_sessions c. if ss_key s \<in> visited_keys c then 2 else 4) + length (co_removing c)"

lemma set_phase_work:
  assumes "distinct (map ad_chan as)" "a \<in> set as" "phase_work p < phase_work (ad_phase a)"
  shows "(\<Sum>b\<leftarrow>set_phase (ad_chan a) p as. phase_work (ad_phase b)) < (\<Sum>b\<leftarrow>as. phase_work (ad_phase b))"
  using assms
proof (induction as)
  case (Cons b bs)
  have same: "set_phase (ad_chan a) p bs = bs" if "ad_chan a \<notin> ad_chan ` set bs" for bs
    using that by (induction bs) (auto simp: set_phase_def)
  show ?case
  proof (cases "a = b")
    case True
    then have "set_phase (ad_chan a) p (b # bs) = b\<lparr>ad_phase := p\<rparr> # bs"
      using Cons.prems(1) same [of bs] by (simp add: set_phase_def)
    then show ?thesis using True Cons.prems(3) by simp
  next
    case False
    then have "a \<in> set bs" "ad_chan b \<noteq> ad_chan a" using Cons.prems by auto
    then show ?thesis using Cons by (simp add: set_phase_def)
  qed
qed simp

lemma without_add_work:
  "a \<in> set as \<Longrightarrow> (\<Sum>b\<leftarrow>without_add (ad_chan a) as. phase_work (ad_phase b)) < (\<Sum>b\<leftarrow>as. phase_work (ad_phase b))"
proof (induction as)
  case (Cons b bs)
  have "(\<Sum>b\<leftarrow>without_add ch bs. phase_work (ad_phase b)) \<le> (\<Sum>b\<leftarrow>bs. phase_work (ad_phase b))" for ch
    by (induction bs) (auto simp: without_add_def)
  from this [of "ad_chan a"] show ?case
    using Cons by (cases "a = b") (auto simp: without_add_def phase_work_def split: add_phase.split)
qed simp

lemma filter_work:
  assumes "s \<in> set ss" "\<not> P s" "\<And>s. Suc 0 < f s"
  shows "Suc (\<Sum>t\<leftarrow>filter P ss. f t) < (\<Sum>t\<leftarrow>ss. (f t :: nat))"
  using assms(1)
proof (induction ss)
  case (Cons t ts)
  have "(\<Sum>t\<leftarrow>filter P ts. f t) \<le> (\<Sum>t\<leftarrow>ts. f t)" by (induction ts) auto
  then show ?case using Cons assms(2) assms(3) [of t] by (cases "s = t") auto
qed simp

lemma commit_stopping: "\<not> usable c \<Longrightarrow>
    commit_or_rollback a ok c = c\<lparr>co_adding := set_phase (ad_chan a) (RollingBack (add_duplicate a c)) (co_adding c)\<rparr>"
  by (simp add: commit_or_rollback_def)

lemma started_stopping:
  assumes "\<not> usable c"
  shows "\<exists>p. phase_work p < phase_work Starting \<and> co_adding (channel_started a ok c) = set_phase (ad_chan a) p (co_adding c)
    \<and> co_sessions (channel_started a ok c) = co_sessions c"
proof -
  have "\<not> usable (c\<lparr>co_running := r\<rparr>)" for r using assms by (simp add: usable_def)
  moreover have "phase_work Connecting < phase_work Starting" "phase_work (RollingBack d) < phase_work Starting" for d
    by (simp_all add: phase_work_def)
  ultimately show ?thesis
    using assms by (cases "ad_uds a \<and> ok") (auto simp: channel_started_def commit_stopping Let_def)
qed

lemma close_work:
  assumes "own_inv c" "s \<in> set (co_sessions c)" "ss_key s \<notin> set vs"
  shows "(\<Sum>t\<leftarrow>co_sessions c. if ss_key t \<in> set (vs @ [ss_key s]) then 2 else 4) + 2
    = (\<Sum>t\<leftarrow>co_sessions c. if ss_key t \<in> set vs then 2 else (4 :: nat))"
  using own_invD(1) [OF assms(1)] assms(2,3)
proof (induction "co_sessions c" arbitrary: c)
  case (Cons t ts)
  have rest: "(\<Sum>u\<leftarrow>ts. if ss_key u \<in> set (vs @ [ss_key s]) then 2 else 4) = (\<Sum>u\<leftarrow>ts. if ss_key u \<in> set vs then 2 else (4 :: nat))"
    if "ss_key s \<notin> ss_key ` set ts"
    using that by (induction ts) auto
  show ?case
  proof (cases "s = t")
    case True
    then show ?thesis using Cons.prems rest by (auto simp flip: Cons.hyps(2))
  next
    case False
    let ?c = "c\<lparr>co_sessions := ts\<rparr>"
    have "s \<in> set ts" "ss_key t \<noteq> ss_key s" using False Cons.prems by (auto simp flip: Cons.hyps(2))
    then show ?thesis
      using Cons.hyps(1) [of ?c] Cons.prems(1,3) by (simp flip: Cons.hyps(2))
  qed
qed simp

lemma stop_decreases:
  assumes "core_step n c c'" "core_inv n c" "co_halt c \<noteq> Live" "c' \<noteq> c"
  shows "stop_work n c' < stop_work n c"
proof -
  have own: "own_inv c" and boot: "boot_inv n c" and close: "close_inv c" using assms(2) by (auto simp: core_inv_def)
  have unusable: "\<not> usable c" using stopping_not_usable [OF boot assms(3)] .
  have dist: "distinct (map ad_chan (co_adding c))" using own_invD(3) [OF own] by (simp add: owners_def)
  show ?thesis
    using assms(1)
  proof (cases rule: core_step.cases)
    case Start
    then show ?thesis using assms(3,4) by (simp add: start_call_def)
  next
    case (Conn k)
    then show ?thesis by (simp add: stop_work_def conn_opened_def boot_work_def visited_keys_def)
  next
    case (BootFail k)
    then show ?thesis by (simp add: stop_work_def boot_failed_def boot_work_def visited_keys_def)
  next
    case BootClean
    then show ?thesis by (simp add: stop_work_def boot_cleaned_def boot_work_def visited_keys_def)
  next
    case BootDone
    then show ?thesis by (simp add: stop_work_def boot_done_def boot_work_def visited_keys_def)
  next
    case (Add agent uds tool epoch)
    then show ?thesis using unusable by (simp add: add_call_def)
  next
    case (Started a ok)
    then obtain p where "phase_work p < phase_work (ad_phase a)"
        "co_adding c' = set_phase (ad_chan a) p (co_adding c)" "co_sessions c' = co_sessions c"
      using started_stopping [OF unusable, of a ok] Started by auto
    then show ?thesis
      using set_phase_work [OF dist Started(2)] Started(1) by (simp add: stop_work_def visited_keys_def started_boot)
  next
    case (Connected a ok)
    then show ?thesis
      using set_phase_work [OF dist Connected(2), of "RollingBack (add_duplicate a c)"] commit_stopping [OF unusable]
      by (simp add: stop_work_def visited_keys_def phase_work_def)
  next
    case (RolledBack a dup)
    then show ?thesis
      using without_add_work [of a "co_adding c"] by (simp add: stop_work_def rolled_back_def visited_keys_def)
  next
    case (Remove agent epoch)
    then obtain s where s: "s \<in> set (co_sessions c)"
      "c' = c\<lparr>co_sessions := filter (\<lambda>t. ss_key t \<noteq> ss_key s) (co_sessions c), co_removing := co_removing c @ [ss_chan s]\<rparr>"
      by (rule remove_callD)
    then show ?thesis
      using filter_work [OF s(1), of "\<lambda>t. ss_key t \<noteq> ss_key s" "\<lambda>t. if ss_key t \<in> visited_keys c then 2 else 4"]
      by (simp add: stop_work_def visited_keys_def)
  next
    case (Removed ch)
    then have "length (remove1 ch (co_removing c)) < length (co_removing c)" using length_pos_if_in_set [OF Removed(2)] by (simp add: length_remove1)
    then show ?thesis using Removed by (simp add: stop_work_def removed_def visited_keys_def)
  next
    case Stop
    then show ?thesis using assms(3,4) by (simp add: stop_call_def)
  next
    case BootWaited
    then show ?thesis by (simp add: stop_work_def halt_work_def visited_keys_def)
  next
    case AddsWaited
    then show ?thesis by (simp add: stop_work_def halt_work_def visited_keys_def)
  next
    case (Close vs)
    show ?thesis
    proof (cases "next_to_close vs c")
      case None
      then show ?thesis using Close by (simp add: stop_work_def close_next_def halt_work_def visited_keys_def)
    next
      case (Some s)
      then show ?thesis
        using Close close_work [OF own, of s vs] next_to_close_Some [OF Some]
        by (simp add: stop_work_def close_next_def halt_work_def visited_keys_def)
    qed
  next
    case (Closed vs ch)
    then show ?thesis by (simp add: stop_work_def closed_one_def halt_work_def visited_keys_def)
  next
    case Drained
    then show ?thesis
      using close by (simp add: stop_work_def drained_def halt_work_def visited_keys_def)
  qed
qed

lemma halt_stays: "core_step n c c' \<Longrightarrow> co_halt c \<noteq> Live \<Longrightarrow> co_halt c' \<noteq> Live"
  by (induction rule: core_step.induct)
    (auto simp: start_call_def conn_opened_def boot_failed_def boot_cleaned_def boot_done_def started_boot commit_boot
      rolled_back_def removed_def stop_call_def close_next_def closed_one_def drained_def split: option.split
      elim!: add_callD remove_callD)

text \<open>Something can always go on: a phase ends, or what it waits for does.\<close>

lemma adding_progress:
  assumes "core_inv n c" "co_halt c \<noteq> Live" "a \<in> set (co_adding c)"
  shows "\<exists>c'. core_step n c c' \<and> c' \<noteq> c"
proof -
  have unusable: "\<not> usable c" using assms(1,2) stopping_not_usable by (auto simp: core_inv_def)
  have "distinct (map ad_chan (co_adding c))" using assms(1) own_invD(3) by (force simp: core_inv_def owners_def)
  note lower = set_phase_work [OF this assms(3)]
  let ?r = "c\<lparr>co_adding := set_phase (ad_chan a) (RollingBack (add_duplicate a c)) (co_adding c)\<rparr>"
  show ?thesis
  proof (cases "ad_phase a")
    case Starting
    have "?r \<noteq> c" using lower [of "RollingBack (add_duplicate a c)"] Starting
      by (auto simp: phase_work_def dest: arg_cong [where f = co_adding])
    moreover have "channel_started a False c = ?r" by (simp add: channel_started_def commit_stopping [OF unusable])
    ultimately show ?thesis using core_step.Started [OF assms(3) Starting, of False n] by auto
  next
    case Connecting
    have "?r \<noteq> c" using lower [of "RollingBack (add_duplicate a c)"] Connecting
      by (auto simp: phase_work_def dest: arg_cong [where f = co_adding])
    moreover have "commit_or_rollback a False c = ?r" by (simp add: commit_stopping [OF unusable])
    ultimately show ?thesis using core_step.Connected [OF assms(3) Connecting, of n False] by auto
  next
    case (RollingBack dup)
    have "rolled_back a c \<noteq> c"
      using without_add_work [OF assms(3)] by (auto simp: rolled_back_def dest: arg_cong [where f = co_adding])
    then show ?thesis using core_step.RolledBack [OF assms(3) RollingBack] by blast
  qed
qed

lemma stop_progress:
  assumes "core_inv n c" "co_halt c \<noteq> Live" "co_halt c \<noteq> Halted"
  shows "\<exists>c'. core_step n c c' \<and> c' \<noteq> c"
proof (cases "co_halt c")
  case WaitBoot
  have w: "c\<lparr>co_halt := WaitAdds\<rparr> \<noteq> c" using WaitBoot by (auto dest: arg_cong [where f = co_halt])
  show ?thesis
  proof (cases "co_boot c")
    case (Opening k)
    have "boot_failed c \<noteq> c" using Opening by (auto simp: boot_failed_def dest: arg_cong [where f = co_boot])
    then show ?thesis using core_step.BootFail [OF Opening] by blast
  next
    case Cleanup
    have "boot_cleaned c \<noteq> c" using Cleanup by (auto simp: boot_cleaned_def dest: arg_cong [where f = co_boot])
    then show ?thesis using core_step.BootClean [OF Cleanup] by blast
  next
    case Off
    then show ?thesis using core_step.BootWaited [OF WaitBoot, of n] w by auto
  next
    case Booted
    then show ?thesis using core_step.BootWaited [OF WaitBoot, of n] w by auto
  qed
next
  case WaitAdds
  show ?thesis
  proof (cases "co_adding c")
    case Nil
    have "c\<lparr>co_halt := Closing [] None\<rparr> \<noteq> c" using WaitAdds by (auto dest: arg_cong [where f = co_halt])
    then show ?thesis using core_step.AddsWaited [OF WaitAdds Nil] by blast
  next
    case (Cons a as)
    then show ?thesis using adding_progress [OF assms(1,2), of a] by simp
  qed
next
  case (Closing vs cur)
  show ?thesis
  proof (cases cur)
    case None
    have "close_next vs c \<noteq> c" using Closing None
      by (auto simp: close_next_def split: option.split dest: arg_cong [where f = co_halt])
    then show ?thesis using core_step.Close [of c vs n] Closing None by blast
  next
    case (Some ch)
    have "closed_one vs ch c \<noteq> c" using Closing Some by (auto simp: closed_one_def dest: arg_cong [where f = co_halt])
    then show ?thesis using core_step.Closed [of c vs ch n] Closing Some by blast
  qed
next
  case Draining
  have "drained c \<noteq> c" using Draining by (auto simp: drained_def dest: arg_cong [where f = co_halt])
  then show ?thesis using core_step.Drained [OF Draining] by blast
qed (use assms in auto)

subsection \<open>The properties\<close>

text \<open>
  C27. Whatever calls of \<open>start\<close>, \<open>stop\<close>, \<open>addSession\<close>, \<open>addUdsSession\<close> and \<open>removeSession\<close> overlap, and however their awaits
  are answered: no agent has two owning sessions; every running channel belongs to exactly one
  session, add in flight or removal in flight; while the core is usable every registered session has a running
  channel and all connections of the pool are open; and once \<open>stop\<close> has finished there is no session, no add in
  flight and no open connection, and a channel that still runs is one that an unfinished \<open>removeSession\<close> is stopping.
\<close>

theorem core_sessions_sound:
  assumes "reachable (clamp_pool p) c"
  shows "(\<forall>s \<in> set (co_sessions c). \<forall>t \<in> set (co_sessions c).
            \<not> ss_tool_only s \<and> \<not> ss_tool_only t \<and> ss_agent s = ss_agent t \<longrightarrow> s = t)
     \<and> distinct (owners c) \<and> co_running c \<subseteq> set (owners c)
     \<and> (usable c \<longrightarrow> co_open c = clamp_pool p \<and> (\<forall>s \<in> set (co_sessions c). ss_chan s \<in> co_running c))
     \<and> (co_halt c = Halted \<longrightarrow> co_sessions c = [] \<and> co_adding c = [] \<and> co_open c = 0
           \<and> co_running c \<subseteq> set (co_removing c))"
proof -
  have inv: "own_inv c" "boot_inv (clamp_pool p) c" "close_inv c"
    using core_inv_reachable [OF assms clamp_pool_bounds(1)] by (simp_all add: core_inv_def)
  have "s = t" if "s \<in> set (co_sessions c)" "t \<in> set (co_sessions c)"
    "\<not> ss_tool_only s \<and> \<not> ss_tool_only t \<and> ss_agent s = ss_agent t" for s t
  proof -
    have "ss_key s = ss_key t" using that own_invD(2) [OF inv(1)] by (auto simp: key_ok_def)
    then show ?thesis using that own_invD(1) [OF inv(1)] by (auto simp: distinct_map inj_on_def)
  qed
  moreover have "co_open c = clamp_pool p \<and> (\<forall>s \<in> set (co_sessions c). ss_chan s \<in> co_running c)" if "usable c"
  proof -
    have "co_halt c = Live" using that stopping_not_usable [OF inv(2)] by blast
    moreover have "co_boot c = Booted" using that inv(2) by (cases "co_boot c") (auto simp: usable_def boot_inv_def)
    ultimately show ?thesis using inv(2,3) by (simp add: boot_inv_def close_inv_live)
  qed
  moreover have "co_sessions c = [] \<and> co_adding c = [] \<and> co_open c = 0 \<and> co_running c \<subseteq> set (co_removing c)"
    if "co_halt c = Halted"
    using that inv(2,3) own_invD(5) [OF inv(1)] by (auto simp: boot_inv_def close_inv_def owners_def)
  ultimately show ?thesis using own_invD(3,5) [OF inv(1)] by blast
qed

text \<open>A core with one connection and one session, and what can happen to it.\<close>

definition live_core :: core where
  "live_core = core_new\<lparr>co_boot := Booted, co_started := True, co_nc := True, co_redis := True, co_open := 1, co_next := 1,
     co_sessions := [\<lparr>ss_key = ''a'', ss_agent = ''a'', ss_chan = 0, ss_tool_only = False, ss_epoch = None\<rparr>], co_running := {0}\<rparr>"

lemma live_core_reachable: "reachable 1 live_core"
proof -
  let ?a = "\<lparr>ad_agent = ''a'', ad_uds = False, ad_tool = False, ad_epoch = None, ad_chan = 0, ad_phase = Starting\<rparr>"
  let ?b = "core_new\<lparr>co_boot := Booted, co_started := True, co_nc := True, co_redis := True, co_open := 1\<rparr>"
  let ?c = "?b\<lparr>co_adding := [?a], co_next := 1\<rparr>"
  have "reachable 1 (start_call core_new)" by (rule reachable.Step [OF reachable.Init core_step.Start])
  then have "reachable 1 (conn_opened 1 0 (start_call core_new))"
    by (rule reachable.Step) (rule core_step.Conn, simp_all add: start_call_def core_new_def)
  then have "reachable 1 (boot_done (conn_opened 1 0 (start_call core_new)))"
    by (rule reachable.Step) (rule core_step.BootDone, simp add: conn_opened_def)
  moreover have "boot_done (conn_opened 1 0 (start_call core_new)) = ?b"
    by (simp add: boot_done_def conn_opened_def start_call_def core_new_def)
  ultimately have "reachable 1 ?b" by simp
  moreover have "add_call ''a'' False False None ?b = Inr ?c"
    by (simp add: add_call_def usable_def has_owning_session_def core_new_def)
  ultimately have "reachable 1 ?c" by (blast intro: reachable.Step core_step.Add)
  then have "reachable 1 (channel_started ?a True ?c)"
    by (rule reachable.Step) (rule core_step.Started, simp_all add: js_eval)
  moreover have "channel_started ?a True ?c = live_core"
    by (simp add: channel_started_def commit_or_rollback_def add_duplicate_def session_of_def put_session_def usable_def
        has_owning_session_def without_add_def live_core_def core_new_def)
  ultimately show ?thesis by simp
qed

lemma core_sessions_sound_witness:
  "usable live_core \<and> co_open live_core = clamp_pool (Fin 1) \<and> ss_chan (hd (co_sessions live_core)) \<in> co_running live_core"
proof -
  have p: "clamp_pool (Fin 1) = 1" by (simp add: clamp_pool_def js_trunc_or_def trunc_rat_def)
  have u: "usable live_core" by (simp add: live_core_def usable_def core_new_def)
  have "reachable (clamp_pool (Fin 1)) live_core" using live_core_reachable by (simp add: p)
  from core_sessions_sound [OF this] u
  have "co_open live_core = clamp_pool (Fin 1)" "\<forall>s \<in> set (co_sessions live_core). ss_chan s \<in> co_running live_core" by blast+
  moreover have "hd (co_sessions live_core) \<in> set (co_sessions live_core)" by (simp add: live_core_def)
  ultimately show ?thesis using u by blast
qed

definition core_changes :: "nat \<Rightarrow> core \<Rightarrow> core \<Rightarrow> bool" where
  "core_changes n c c' \<longleftrightarrow> core_step n c c' \<and> c' \<noteq> c"

lemma changes_reachable: "(core_changes n ^^ k) c c' \<Longrightarrow> reachable n c \<Longrightarrow> reachable n c'"
proof (induction k arbitrary: c')
  case (Suc k)
  then obtain d where "(core_changes n ^^ k) c d" "core_changes n d c'" by auto
  then show ?case using Suc.IH [of d] Suc.prems(2) reachable.Step unfolding core_changes_def by blast
qed simp

lemma changes_bounded:
  "(core_changes n ^^ k) c c' \<Longrightarrow> reachable n c \<Longrightarrow> 0 < n \<Longrightarrow> co_halt c \<noteq> Live
     \<Longrightarrow> stop_work n c' + k \<le> stop_work n c \<and> co_halt c' \<noteq> Live"
proof (induction k arbitrary: c')
  case (Suc k)
  then obtain d where d: "(core_changes n ^^ k) c d" "core_changes n d c'" by auto
  then have d': "core_step n d c'" "c' \<noteq> d" by (simp_all add: core_changes_def)
  have "stop_work n d + k \<le> stop_work n c \<and> co_halt d \<noteq> Live" using Suc d(1) by blast
  moreover have "core_inv n d" using core_inv_reachable changes_reachable d(1) Suc.prems by blast
  ultimately show ?case using stop_decreases [OF d'(1)] halt_stays [OF d'(1)] d'(2) by force
qed simp

text \<open>
  C28. \<open>stop\<close> always finishes: from any reachable state in which it has been called, with a start, adds, removals and sessions
  in any phase, every sequence of steps that change anything is no longer than the work left, and
  as long as \<open>stop\<close> has not finished some step can change something; so it finishes after at most that many
  steps, however the steps are chosen.
\<close>

theorem stop_terminates:
  assumes "reachable (clamp_pool p) c" "co_halt c \<noteq> Live" "(core_changes (clamp_pool p) ^^ k) c c'"
  shows "k \<le> stop_work (clamp_pool p) c
    \<and> (co_halt c' = Halted \<or> (\<exists>c''. core_changes (clamp_pool p) c' c''))"
proof -
  have "stop_work (clamp_pool p) c' + k \<le> stop_work (clamp_pool p) c \<and> co_halt c' \<noteq> Live"
    by (rule changes_bounded [OF assms(3,1) clamp_pool_bounds(1) assms(2)])
  moreover have "core_inv (clamp_pool p) c'"
    using core_inv_reachable [OF changes_reachable [OF assms(3,1)] clamp_pool_bounds(1)] .
  ultimately show ?thesis using stop_progress by (fastforce simp: core_changes_def)
qed

lemma stop_terminates_witness:
  "\<exists>c''. core_changes 1 (stop_call live_core) c'' \<and> co_halt (stop_call live_core) \<noteq> Live"
proof -
  have p: "clamp_pool (Fin 1) = 1" by (simp add: clamp_pool_def js_trunc_or_def trunc_rat_def)
  have "reachable 1 (stop_call live_core)" by (rule reachable.Step [OF live_core_reachable core_step.Stop])
  moreover have "co_halt (stop_call live_core) = WaitBoot" by (simp add: stop_call_def live_core_def core_new_def)
  ultimately show ?thesis using stop_terminates [of "Fin 1" "stop_call live_core" 0 "stop_call live_core"] by (simp add: p)
qed

text \<open>
  The exception in the first property is real: \<open>stop\<close> does not wait for a removal in flight, so the
  connections can be closed while a removed session's channel is still running.
\<close>

lemma stop_overtakes_removal: "\<exists>c. reachable 1 c \<and> co_halt c = Halted \<and> co_open c = 0 \<and> 0 \<in> co_running c"
proof -
  let ?r = "live_core\<lparr>co_sessions := [], co_removing := [0]\<rparr>"
  have "remove_call ''a'' None live_core = Some ?r"
    by (simp add: remove_call_def find_session_def live_core_def core_new_def)
  from reachable.Step [OF live_core_reachable core_step.Remove [OF this]]
  have "reachable 1 (stop_call ?r)" by (rule reachable.Step) (rule core_step.Stop)
  moreover have s: "stop_call ?r = ?r\<lparr>co_stopping := True, co_halt := WaitBoot\<rparr>"
    by (simp add: stop_call_def live_core_def core_new_def)
  ultimately have "reachable 1 (?r\<lparr>co_stopping := True, co_halt := WaitAdds\<rparr>)"
    using reachable.Step [OF _ core_step.BootWaited, of 1 "stop_call ?r"] by (simp add: s) (simp add: live_core_def)
  then have "reachable 1 (?r\<lparr>co_stopping := True, co_halt := Closing [] None\<rparr>)" (is "reachable 1 ?c")
    using reachable.Step [OF _ core_step.AddsWaited, of 1 "?r\<lparr>co_stopping := True, co_halt := WaitAdds\<rparr>"]
    by (simp add: live_core_def core_new_def)
  then have "reachable 1 (close_next [] ?c)" by (rule reachable.Step) (rule core_step.Close, simp)
  then have "reachable 1 (drained (close_next [] ?c))"
    by (rule reachable.Step) (rule core_step.Drained, simp add: close_next_def next_to_close_def)
  then show ?thesis
    by (intro exI [of _ "drained (close_next [] ?c)"])
      (simp add: drained_def close_next_def next_to_close_def live_core_def)
qed

subsection \<open>What a caller cannot override\<close>

lemma spread_opts_lookup:
  "map_of (spread_opts a b) k = (case map_of (rev b) k of Some v \<Rightarrow> Some v | None \<Rightarrow> map_of a k)"
  by (induction b arbitrary: a) (auto simp: spread_opts_def update_conv' map_add_def split: option.split)

lemma session_opts_locked:
  assumes "distinct (map fst (core_fields stream_prefix shared agentId))" "(k, v) \<in> set (core_fields stream_prefix shared agentId)"
  shows "map_of (build_session_opts sessionDefaults stream_prefix shared agentId opts) k = Some v"
proof -
  have "map_of (rev (core_fields stream_prefix shared agentId)) k = Some v"
    using assms by (intro map_of_is_SomeI) (auto simp: rev_map [symmetric])
  then show ?thesis by (simp add: build_session_opts_def spread_opts_lookup)
qed

text \<open>The id of the core itself is a valid agent id on every host.\<close>

lemma drop_end_dashes_props:
  "length (drop_end_dashes s) \<le> length s" "set (drop_end_dashes s) \<subseteq> set s"
  using length_dropWhile_le [of is_dash "rev s"] set_dropWhileD [of _ is_dash "rev s"]
  by (auto simp: drop_end_dashes_def)

lemma core_id_token: "is_token (''a2a-core-'' @ safe_host_id host)"
proof -
  let ?s = "drop_end_dashes (drop_dashes (collapse (\<lambda>c. \<not> host_char c) (CHR ''-'') (js_lower host)))"
  let ?u = "take 55 (if ?s = [] then ''host'' else ?s)"
  have host: "host_char = token_char" by (simp add: host_char_def token_char_def fun_eq_iff)
  have "set ?s \<subseteq> set (collapse (\<lambda>c. \<not> host_char c) (CHR ''-'') (js_lower host))"
    using drop_end_dashes_props(2) set_dropWhileD by (fastforce simp: drop_dashes_def)
  moreover have "list_all token_char (collapse (\<lambda>c. \<not> host_char c) (CHR ''-'') (js_lower host))"
    by (rule collapse_class) (auto simp: host js_eval)
  ultimately have "list_all token_char ?s" by (auto simp: list_all_iff)
  then have "list_all token_char ?u" by (auto simp: list_all_iff js_eval dest: in_set_takeD)
  moreover have "length ?u \<le> 55" by simp
  ultimately have "list_all token_char (drop_end_dashes ?u)" "length (drop_end_dashes ?u) \<le> 55"
    using drop_end_dashes_props [of ?u] by (auto simp: list_all_iff)
  then show ?thesis by (simp add: safe_host_id_def is_token_def Let_def) (simp add: js_eval)
qed

end
