(* ===== verification/Spec2Isabelle.thy ===== *)
theory Spec2Isabelle
  imports Frame_Link Uds_Sessions Mcp_Session Frame_Dispatch A2A_Subjects A2A_Envelope A2A_Messages A2A_Rate Inbox_Store A2A_Send A2A_Concurrent
    A2A_Topics A2A_Presence A2A_Skills Output_Transport Codex_Realtime Codex_Threads
    Codex_Sessions Codex_Jobs Fleet_Run
    Routing_Governor Build_Authz Build_Guard Event_Replies Wedge_Detector A2A_Core
begin

text \<open>
  Verification library of Alloyium, the agent-to-agent fleet bus (TypeScript, Bun).

  \<^bold>\<open>The program.\<close> Agents talk over NATS through the A2A channel (src/a2a-channel.ts): an agent signs an envelope, publishes
  it to the inbox of a peer or to a topic, and the peer's receive path verifies, deduplicates, stores
  (src/a2a_inbox_store.ts) and injects it. Local clients reach the core over a Unix socket whose frames
  src/uds_frame.ts codes. A taskboard sends webhooks, which become events of a stream (src/taskboard_event_core.ts) that
  a dispatcher turns into read-only jobs for Codex gateways and whose answers it writes back
  (src/taskboard_event_dispatcher.ts). Builds that may write are authorized per directory and thread
  (src/codex_build_authz.ts), guarded after the fact (src/codex_build_guard.ts) and routed between providers
  (src/codex_routing_governor.ts). Each agent emits beats (src/agent_beat.ts), which a detector reads to tell dead,
  stalled and spinning agents (src/wedge_detector.ts).

  \<^bold>\<open>Shared layer.\<close> Prelude: JavaScript values (numbers are exact rationals with the two infinities and NaN), strings of the
  characters below 256, the conversions \<open>String(v)\<close> and \<open>Number(v)\<close>, insertion-ordered maps as association
  lists, capped caches (locale \<open>bounded_store\<close>) and runs of a step function with their invariants (locale \<open>step_invariant\<close>).
  Paths: path normalisation.

  \<^bold>\<open>Framed socket.\<close> Frame_Codec: \<open>encodeFrame\<close> and \<open>FrameDecoder\<close> over its growing buffer; for any chunking it gives what
  the format says of the concatenated bytes; locale \<open>stream_codec\<close> is the contract of a codec.
  Pending_Map: \<open>PendingMap\<close>, every promise settled exactly once.
  Frame_Writer: \<open>FrameWriter\<close> with two lanes, pause, overflow, failure. Its loop runs on the fuel \<open>fw_fuel\<close>, one unit per byte
  and per item left; \<open>pump_loop_returns\<close> shows that this is enough for any socket.
  Frame_Link: writer and decoder composed: what the socket accepts decodes at the peer in lane order.
  Frame_Dispatch: \<open>Dispatcher\<close>, which reads a source of chunks and hands the frames to their handlers.

  \<^bold>\<open>Local sessions.\<close> A client of the Unix socket authenticates and becomes a session of the core. Uds_Transport
  (src/uds_transport.ts): the acknowledged injection of direct messages and the signing requests as two machines over
  \<open>PendingMap\<close>, with the writer's answers, frames, timers and teardowns as events. Uds_Hello (src/uds_hello.ts): the handshake as a
  program counter per \<open>await\<close>, the key cache as an interpretation of \<open>bounded_store\<close>. Uds_Acceptor
  (src/uds_acceptor.ts): one connection with its decoder, queues, run and teardown, and the connections together; its lemmas keep the
  life cycle with the core, the memory held and the MCP stream. Uds_Sessions lifts them to every run of the acceptor.
  Mcp_Session (src/mcp_session.ts): the MCP server of a session, its buffer before initialization and its delivery chain.

  \<^bold>\<open>A2A channel.\<close> A2A_Subjects: subjects and the publish allowlist. A2A_Envelope: canonical form and signatures, the primitives being
  parameters with the law that a signature verifies. A2A_Messages: validation of sends, construction and
  validity of envelopes, the channel tag. A2A_Rate: token buckets. Inbox_Store: the table, its cursor
  pagination and acknowledgement. A2A_Receive: the inbound pipeline with key cache, deduplication and counters, one message a step. A2A_Concurrent: the same cut at its awaits, with the
  inbox loop and the loops of the topics interleaved. A2A_Send: the readiness
  gate, \<open>send\<close>, the inbox tool; a message sent by one agent is injected by the other. A2A_Topics: the topics key, its scripts and
  the reloads of the subscriptions, cut at their \<open>await\<close>. A2A_Presence: the presence key and the instances of an agent that
  claim it, each Redis command one step. A2A_Skills: the announcement of saved skills, the regular expressions as matchers.

  \<^bold>\<open>Large outputs.\<close> Output_Transport (src/output_transport.ts): texts as Unicode scalar values with their UTF-8 bytes, truncation,
  blobs in Redis, the plans that make a message fit the send limit. Lengths are below \<open>2 ^ 30\<close>; the recursion of the binary search
  \<open>search\<close> ends by its interval.

  \<^bold>\<open>Codex gateway.\<close> Codex_Realtime (src/codex_realtime.ts): the session registry. Codex_Threads (src/codex_gateway.ts): sandbox modes
  and the cache of warm threads, a refinement of a cache that never evicts. Codex_Approvals: policies, tool permissions, and the approvals
  with their timers as a machine. Codex_Turns: the lines of the app-server, their dispatch, the collector of one turn.
  Codex_Tools (src/codex_agent_tools.ts): the tool configuration and the frame of the prompt. Codex_Sessions: the realtime sessions over the bus and
  HTTP as a machine whose handlers are cut where they wait for the app-server. Codex_Jobs: inbound messages, the
  peer queue, the admission of a job and the reply after its turn, built on the plans of Output_Transport.

  \<^bold>\<open>Fleet orchestrator.\<close> Fleet_Spec (src/a2a_fleet_orchestrator.ts): topic tokens, the validation of a specification, the run
  plan, the canary slice and legacy files; the plan of a valid specification has distinct jobs, a canary is valid again, and a legacy
  file converts exactly when its lines are well formed. Fleet_Run: replies, launch and stop back ends, the run of executeFleetSpec as
  a step function over what the bus, the launcher and Redis answer, and the command line.

  \<^bold>\<open>A2A core.\<close> A2A_Core (src/a2a_core.ts): configuration, sessions and connections. The handlers are cut at their
  \<open>await\<close> points into the steps of the relation \<open>core_step\<close>, so starts, stops, additions and removals interleave
  freely; \<open>core_sessions_sound\<close> holds in every reachable state and the measure \<open>stop_work\<close> bounds what a stop still
  needs.

  \<^bold>\<open>Builds.\<close> Routing_Governor: breakers, pressure and the decision. Build_Authz: the registry over a Redis
  that may fail at each command. Build_Guard: parsing of git output, manifest, protected paths, secrets.

  \<^bold>\<open>Taskboard.\<close> Taskboard_Core: webhook verification, normalisation, sanitising, subjects. Event_Dispatch: routing, job request,
  processing of deliveries, the dispatcher class with its run store. Event_Replies: classification of replies,
  extraction and submission of review verdicts, the updates of the run.

  \<^bold>\<open>Liveness.\<close> Agent_Beat: the emitter's clocks and beats. Wedge_Detector: configuration, beats, classification, evaluation.

  \<^bold>\<open>How to read the properties.\<close> Each property is one theorem after a text that names its number. State is passed explicitly: a
  step function returns the new record, errors are \<open>Inl\<close>, and the answers of the outside (socket, Redis, HTTP,
  NATS, clock, random ids) are arguments of the step that asks for them, so the theorems hold for every behaviour of them.

  \<^bold>\<open>Not modelled.\<close> Interleaving at the \<open>await\<close> points inside a handler where it is one step (the handlers of A2A_Core, A2A_Concurrent, A2A_Topics, Codex_Sessions, Fleet_Run
  and of the local sessions are cut there), logging, process start and
  shutdown, the NATS and Redis clients, SQLite, WebCrypto and HTTP servers themselves (parameters), the Rust
  shim, the generated protocol types (codex-protocol/), the web portal's pages, the build files and the tests.
  Strings with characters above 255 and numbers rounded to 53 bits are outside the model.
\<close>

end
